(* ===== verification/OrkPrelude.thy ===== *)
theory OrkPrelude
  imports Main "HOL-Library.Word"
begin

text \<open>
  The prelude of the Oreka development: machine words, the C character classes and C string
  views the sources rely on (\<open>isalnum\<close>, \<open>isspace\<close>, \<open>tolower\<close>, \<open>c_str()\<close>), the parts of
  \<open>CStdString\<close> (orkbasecxx/StdString.h) that the components call, the C library conversions
  \<open>strtol\<close> and \<open>%d\<close>, and generic list facts shared by the component theories.

  Strings are HOL \<open>string\<close>s, one \<open>char\<close> per byte. Positions are \<open>nat\<close>; the source's \<open>-1\<close>
  ("not found") is \<open>None\<close>. The character classes are those of the "C" locale (the program
  never calls \<open>setlocale\<close>).
\<close>

unbundle bit_operations_syntax

named_theorems char_defs \<open>definitions of the C character classes\<close>
named_theorems ork_inv \<open>preservation facts of component invariants\<close>

type_synonym u8 = "8 word"
type_synonym u16 = "16 word"
type_synonym u32 = "32 word"

section \<open>C character classes\<close>

abbreviation chr_code :: "char \<Rightarrow> nat" where
  "chr_code c \<equiv> of_char c"

abbreviation NUL :: char where
  "NUL \<equiv> CHR 0x00"

abbreviation LF :: char where
  "LF \<equiv> CHR 0x0A"

abbreviation CR :: char where
  "CR \<equiv> CHR 0x0D"

definition is_digit :: "char \<Rightarrow> bool" where
  [char_defs]: "is_digit c \<longleftrightarrow> 48 \<le> chr_code c \<and> chr_code c \<le> 57"

definition is_upper :: "char \<Rightarrow> bool" where
  [char_defs]: "is_upper c \<longleftrightarrow> 65 \<le> chr_code c \<and> chr_code c \<le> 90"

definition is_lower :: "char \<Rightarrow> bool" where
  [char_defs]: "is_lower c \<longleftrightarrow> 97 \<le> chr_code c \<and> chr_code c \<le> 122"

definition is_alnum :: "char \<Rightarrow> bool" where
  [char_defs]: "is_alnum c \<longleftrightarrow> is_digit c \<or> is_upper c \<or> is_lower c"

definition is_graph :: "char \<Rightarrow> bool" where
  [char_defs]: "is_graph c \<longleftrightarrow> 33 \<le> chr_code c \<and> chr_code c \<le> 126"

definition is_space :: "char \<Rightarrow> bool" where
  [char_defs]: "is_space c \<longleftrightarrow> chr_code c = 32 \<or> (9 \<le> chr_code c \<and> chr_code c \<le> 13)"

definition to_lower :: "char \<Rightarrow> char" where
  [char_defs]: "to_lower c = (if is_upper c then char_of (chr_code c + 32) else c)"

definition to_upper :: "char \<Rightarrow> char" where
  [char_defs]: "to_upper c = (if is_lower c then char_of (chr_code c - 32) else c)"

lemma is_alnum_not_space: "is_alnum c \<Longrightarrow> \<not> is_space c"
  by (auto simp: char_defs)

lemma is_alnum_not_punct [simp]:
  "is_alnum CHR '' '' = False" "is_alnum CHR ''='' = False" "is_alnum CHR ''&'' = False"
  "is_alnum CHR ''%'' = False" "is_alnum CHR '':'' = False" "is_alnum CHR '','' = False"
  by (simp_all add: char_defs)

lemma is_space_literals [simp]:
  "is_space CHR '' ''" "\<not> is_space CHR ''=''" "\<not> is_space CHR ''&''" "\<not> is_space CHR ''%''"
  "\<not> is_space CHR '':''" "\<not> is_space CHR '',''"
  by (simp_all add: char_defs)

lemma to_lower_idem [simp]: "to_lower (to_lower c) = to_lower c"
  by (auto simp: char_defs)

section \<open>C strings and the CStdString operations in use\<close>

text \<open>\<open>c_str()\<close>, or the conversion to \<open>PCSTR\<close>: a reader of the pointer stops at the first NUL.\<close>

definition c_str :: "string \<Rightarrow> string" where
  "c_str s = takeWhile (\<lambda>c. c \<noteq> NUL) s"

text \<open>\<open>CompareNoCase(..) == 0\<close> (\<open>ssicmp\<close> walks both C strings up to a NUL or a difference).\<close>

definition ci_eq :: "string \<Rightarrow> string \<Rightarrow> bool" where
  "ci_eq a b \<longleftrightarrow> map to_lower (c_str a) = map to_lower (c_str b)"

definition lower_str :: "string \<Rightarrow> string" where
  "lower_str s = map to_lower s"

definition trim_left :: "string \<Rightarrow> string" where
  "trim_left s = dropWhile is_space s"

definition trim_right :: "string \<Rightarrow> string" where
  "trim_right s = rev (dropWhile is_space (rev s))"

definition trim :: "string \<Rightarrow> string" where
  "trim s = trim_right (trim_left s)"

text \<open>\<open>Find(ch)\<close> and \<open>ReverseFind(ch)\<close>.\<close>

fun find_char :: "char \<Rightarrow> string \<Rightarrow> nat option" where
  "find_char c [] = None"
| "find_char c (x # xs) = (if x = c then Some 0 else map_option Suc (find_char c xs))"

fun rfind_char :: "char \<Rightarrow> string \<Rightarrow> nat option" where
  "rfind_char c [] = None"
| "rfind_char c (x # xs) =
     (case rfind_char c xs of Some i \<Rightarrow> Some (Suc i) | None \<Rightarrow> if x = c then Some 0 else None)"

text \<open>\<open>std::string::find\<close> of a substring.\<close>

fun starts_with :: "string \<Rightarrow> string \<Rightarrow> bool" where
  "starts_with [] s = True"
| "starts_with (p # ps) [] = False"
| "starts_with (p # ps) (c # cs) = (p = c \<and> starts_with ps cs)"

fun find_str :: "string \<Rightarrow> string \<Rightarrow> nat option" where
  "find_str p [] = (if p = [] then Some 0 else None)"
| "find_str p (c # cs) =
     (if starts_with p (c # cs) then Some 0 else map_option Suc (find_str p cs))"

lemma starts_with_iff: "starts_with p s \<longleftrightarrow> (\<exists>t. s = p @ t)"
  by (induction p s rule: starts_with.induct) auto

lemma find_char_Some:
  "find_char c s = Some i \<Longrightarrow> i < length s \<and> s ! i = c \<and> c \<notin> set (take i s)"
  by (induction s arbitrary: i) (auto split: if_splits)

lemma find_char_None [simp]: "find_char c s = None \<longleftrightarrow> c \<notin> set s"
  by (induction s) auto

lemma find_char_notin_append: "c \<notin> set s \<Longrightarrow> find_char c (s @ c # t) = Some (length s)"
  by (induction s) auto

lemma rfind_char_None [simp]: "rfind_char c s = None \<longleftrightarrow> c \<notin> set s"
  by (induction s) (auto split: option.splits)

lemma rfind_char_Some:
  "rfind_char c s = Some i \<Longrightarrow> i < length s \<and> s ! i = c \<and> c \<notin> set (drop (Suc i) s)"
  by (induction s arbitrary: i) (force split: option.splits if_splits)+

lemma find_str_Some: "find_str p s = Some i \<Longrightarrow> i \<le> length s \<and> starts_with p (drop i s)"
  by (induction p s arbitrary: i rule: find_str.induct) (auto split: if_splits)

lemma find_str_None: "find_str p s = None \<longleftrightarrow> (\<forall>u v. s \<noteq> u @ p @ v)"
proof (induction p s rule: find_str.induct)
  case (1 p)
  then show ?case by auto
next
  case (2 p c cs)
  have "(\<exists>u v. c # cs = u @ p @ v) \<longleftrightarrow> starts_with p (c # cs) \<or> (\<exists>u v. cs = u @ p @ v)"
    by (auto simp: starts_with_iff Cons_eq_append_conv)
  then have "(\<forall>u v. c # cs \<noteq> u @ p @ v) \<longleftrightarrow>
      \<not> starts_with p (c # cs) \<and> (\<forall>u v. cs \<noteq> u @ p @ v)"
    by blast
  then show ?case
    unfolding find_str.simps using "2" by (simp del: starts_with.simps)
qed

lemma c_str_id: "NUL \<notin> set s \<Longrightarrow> c_str s = s"
  by (simp add: c_str_def takeWhile_eq_all_conv) metis

lemma ci_eq_refl [simp]: "ci_eq s s"
  by (simp add: ci_eq_def)

lemma ci_eq_sym: "ci_eq s t \<Longrightarrow> ci_eq t s"
  by (simp add: ci_eq_def)

lemma ci_eq_trans: "ci_eq s t \<Longrightarrow> ci_eq t u \<Longrightarrow> ci_eq s u"
  by (simp add: ci_eq_def)

lemma ci_eq_cong: "ci_eq s t \<Longrightarrow> ci_eq s u = ci_eq t u"
  by (auto simp: ci_eq_def)

subsection \<open>Trimming\<close>

lemma trim_left_id: "s = [] \<or> \<not> is_space (hd s) \<Longrightarrow> trim_left s = s"
  by (cases s) (auto simp: trim_left_def)

lemma trim_right_id: "s = [] \<or> \<not> is_space (last s) \<Longrightarrow> trim_right s = s"
  by (cases s rule: rev_cases) (auto simp: trim_right_def)

lemma trim_right_snoc_space [simp]: "is_space c \<Longrightarrow> trim_right (s @ [c]) = trim_right s"
  by (simp add: trim_right_def)

lemma trim_id:
  "s = [] \<or> (\<not> is_space (hd s) \<and> \<not> is_space (last s)) \<Longrightarrow> trim s = s"
  by (auto simp: trim_def trim_left_id trim_right_id)

section \<open>Numbers as text\<close>

definition digit_char :: "nat \<Rightarrow> char" where
  "digit_char d = char_of (48 + d)"

fun show_nat :: "nat \<Rightarrow> string" where
  "show_nat n = (if n < 10 then [digit_char n] else show_nat (n div 10) @ [digit_char (n mod 10)])"

declare show_nat.simps [simp del]

text \<open>\<open>Format("%d", i)\<close>, the source's \<open>IntToString\<close>.\<close>

definition IntToString :: "int \<Rightarrow> string" where
  "IntToString i = (if i < 0 then CHR ''-'' # show_nat (nat (- i)) else show_nat (nat i))"

definition digit_val :: "char \<Rightarrow> nat" where
  "digit_val c = chr_code c - 48"

fun read_digits :: "nat \<Rightarrow> string \<Rightarrow> nat \<times> string" where
  "read_digits acc [] = (acc, [])"
| "read_digits acc (c # cs) =
     (if is_digit c then read_digits (acc * 10 + digit_val c) cs else (acc, c # cs))"

text \<open>
  \<open>strtol(s, &end, 10)\<close>: white space, an optional sign, digits; no digits means no conversion
  (value 0, \<open>end\<close> at the start). The value saturates at the 64-bit \<open>long\<close> range. The argument
  is the C string; the result is the value and the rest at \<open>end\<close>.
\<close>

definition clamp_long :: "int \<Rightarrow> int" where
  "clamp_long i = max (- (2 ^ 63)) (min (2 ^ 63 - 1) i)"

definition strtol10 :: "string \<Rightarrow> int \<times> string" where
  "strtol10 s =
     (let t = dropWhile is_space s;
          neg = (t \<noteq> [] \<and> hd t = CHR ''-'');
          u = (if t \<noteq> [] \<and> (hd t = CHR ''-'' \<or> hd t = CHR ''+'') then tl t else t)
      in if u = [] \<or> \<not> is_digit (hd u) then (0, s)
         else (let (n, r) = read_digits 0 u
               in (clamp_long (if neg then - int n else int n), r)))"

text \<open>The conversion of a \<open>long\<close> to the 32-bit \<open>int\<close> keeps the low 32 bits.\<close>

definition to_int32 :: "int \<Rightarrow> int" where
  "to_int32 i = signed_take_bit 31 i"

text \<open>\<open>StringToInt\<close>: \<open>None\<close> is the thrown "invalid integer".\<close>

definition StringToInt :: "string \<Rightarrow> int option" where
  "StringToInt s = (let (v, r) = strtol10 (c_str s) in if r \<noteq> [] then None else Some (to_int32 v))"

definition is_int32 :: "int \<Rightarrow> bool" where
  "is_int32 i \<longleftrightarrow> - (2 ^ 31) \<le> i \<and> i < 2 ^ 31"

lemma chr_code_char_of: "n < 256 \<Longrightarrow> chr_code (char_of n) = n"
  by (simp add: of_char_of)

lemma is_digit_digit_char [simp]: "d < 10 \<Longrightarrow> is_digit (digit_char d)"
  by (simp add: is_digit_def digit_char_def chr_code_char_of)

lemma digit_val_digit_char [simp]: "d < 10 \<Longrightarrow> digit_val (digit_char d) = d"
  by (simp add: digit_val_def digit_char_def chr_code_char_of)

lemma show_nat_digits: "c \<in> set (show_nat n) \<Longrightarrow> is_digit c"
proof (induction n rule: show_nat.induct)
  case (1 n)
  then show ?case by (auto simp: show_nat.simps [of n] split: if_splits)
qed

lemma show_nat_nonempty [simp]: "show_nat n \<noteq> []"
  by (subst show_nat.simps) simp

lemma is_digit_NUL [simp]: "\<not> is_digit NUL"
  by (simp add: char_defs)

lemma digit_not_space: "is_digit c \<Longrightarrow> \<not> is_space c"
  by (auto simp: char_defs)

lemma digit_not_sign: "is_digit c \<Longrightarrow> c \<noteq> CHR ''-'' \<and> c \<noteq> CHR ''+''"
  by (auto simp: char_defs)

lemma read_digits_append_digits:
  "(\<And>c. c \<in> set xs \<Longrightarrow> is_digit c) \<Longrightarrow>
    read_digits acc (xs @ ys) = read_digits (fst (read_digits acc xs)) ys"
  by (induction xs arbitrary: acc) auto

lemma read_digits_show_nat:
  "ys = [] \<or> \<not> is_digit (hd ys) \<Longrightarrow> fst (read_digits 0 (show_nat n)) = n \<and>
    read_digits 0 (show_nat n @ ys) = (n, ys)"
proof (induction n arbitrary: ys rule: show_nat.induct)
  case (1 n)
  have stop: "read_digits acc ys = (acc, ys)" for acc
    using "1.prems" by (cases ys) auto
  show ?case
  proof (cases "n < 10")
    case True
    then show ?thesis by (simp add: show_nat.simps [of n] stop)
  next
    case False
    have dg: "\<And>c. c \<in> set (show_nat (n div 10)) \<Longrightarrow> is_digit c" by (rule show_nat_digits)
    from "1.IH" [OF False, of "[]"] have ih: "fst (read_digits 0 (show_nat (n div 10))) = n div 10"
      by simp
    from False have eq: "show_nat n = show_nat (n div 10) @ [digit_char (n mod 10)]"
      by (simp add: show_nat.simps [of n])
    show ?thesis
      by (simp add: eq read_digits_append_digits [OF dg] ih stop)
  qed
qed

lemma hd_show_nat: "is_digit (hd (show_nat n))"
  by (rule show_nat_digits [of _ n]) simp

lemma to_int32_id: "is_int32 i \<Longrightarrow> to_int32 i = i"
  unfolding to_int32_def is_int32_def by (rule signed_take_bit_int_eq_self) auto

lemma clamp_long_id: "is_int32 i \<Longrightarrow> clamp_long i = i"
  by (auto simp: clamp_long_def is_int32_def)

lemma dropWhile_space_digits: "s \<noteq> [] \<Longrightarrow> is_digit (hd s) \<Longrightarrow> dropWhile is_space s = s"
  by (cases s) (auto dest: digit_not_space)

lemma strtol10_IntToString:
  assumes "is_int32 i"
  shows "strtol10 (IntToString i) = (i, [])"
proof (cases "i < 0")
  case True
  have "\<not> is_space CHR ''-''" by (simp add: char_defs)
  with True assms show ?thesis
    using read_digits_show_nat [of "[]" "nat (- i)"]
    by (simp add: strtol10_def IntToString_def hd_show_nat clamp_long_id)
next
  case False
  from hd_show_nat have ns: "hd (show_nat (nat i)) \<noteq> CHR ''-'' \<and> hd (show_nat (nat i)) \<noteq> CHR ''+''"
    by (rule digit_not_sign)
  from False ns assms show ?thesis
    using read_digits_show_nat [of "[]" "nat i"]
    by (simp add: strtol10_def IntToString_def hd_show_nat dropWhile_space_digits clamp_long_id)
qed

lemma IntToString_no_NUL: "NUL \<notin> set (IntToString i)"
  using show_nat_digits [of NUL] by (auto simp: IntToString_def)

section \<open>Lists and options\<close>

lemma set_list_update_cases: "x \<in> set (xs[i := y]) \<Longrightarrow> x = y \<or> x \<in> set xs"
  using set_update_subset_insert [of xs i y] by blast

section \<open>Outcomes\<close>

text \<open>The outcome of a C++ function: it returns, throws, or its behaviour is undefined.\<close>

datatype 'a outcome = Done 'a | Thrown | Undefined

text \<open>Sequencing: the rest runs on the value of a call that returned.\<close>

fun and_then :: "'a outcome \<Rightarrow> ('a \<Rightarrow> 'b outcome) \<Rightarrow> 'b outcome" where
  "and_then (Done x) f = f x"
| "and_then Thrown f = Thrown"
| "and_then Undefined f = Undefined"

lemma and_then_Done [simp]: "and_then m f = Done y \<longleftrightarrow> (\<exists>x. m = Done x \<and> f x = Done y)"
  by (cases m) auto

lemma and_then_assoc: "and_then (and_then m f) g = and_then m (\<lambda>x. and_then (f x) g)"
  by (cases m) auto

text \<open>\<open>yields P r\<close>: a value that comes out of \<open>r\<close> satisfies \<open>P\<close>; \<open>defined P r\<close>: and \<open>r\<close> is not undefined.\<close>

definition yields :: "('a \<Rightarrow> bool) \<Rightarrow> 'a outcome \<Rightarrow> bool" where
  "yields P r \<longleftrightarrow> (\<forall>x. r = Done x \<longrightarrow> P x)"

definition defined :: "('a \<Rightarrow> bool) \<Rightarrow> 'a outcome \<Rightarrow> bool" where
  "defined P r \<longleftrightarrow> r \<noteq> Undefined \<and> yields P r"

lemma yieldsD: "yields P r \<Longrightarrow> r = Done x \<Longrightarrow> P x"
  by (simp add: yields_def)

lemma definedD: "defined P r \<Longrightarrow> r \<noteq> Undefined" "defined P r \<Longrightarrow> r = Done x \<Longrightarrow> P x"
  by (simp_all add: defined_def yields_def)

named_theorems outcome_intros

lemma yields_intros [outcome_intros]:
  "P x \<Longrightarrow> yields P (Done x)" "yields P Undefined" "yields P Thrown"
  "yields Q m \<Longrightarrow> (\<And>x. Q x \<Longrightarrow> yields P (f x)) \<Longrightarrow> yields P (and_then m f)"
  "(b \<Longrightarrow> yields P r) \<Longrightarrow> (\<not> b \<Longrightarrow> yields P r') \<Longrightarrow> yields P (if b then r else r')"
  "(v = None \<Longrightarrow> yields P n) \<Longrightarrow> (\<And>y. v = Some y \<Longrightarrow> yields P (h y)) \<Longrightarrow>
     yields P (case v of None \<Rightarrow> n | Some y \<Rightarrow> h y)"
  by (auto simp: yields_def split: option.split)

lemma defined_intros [outcome_intros]:
  "P x \<Longrightarrow> defined P (Done x)" "defined P Thrown"
  "defined Q m \<Longrightarrow> (\<And>x. Q x \<Longrightarrow> defined P (f x)) \<Longrightarrow> defined P (and_then m f)"
  "(b \<Longrightarrow> defined P r) \<Longrightarrow> (\<not> b \<Longrightarrow> defined P r') \<Longrightarrow> defined P (if b then r else r')"
  "(v = None \<Longrightarrow> defined P n) \<Longrightarrow> (\<And>y. v = Some y \<Longrightarrow> defined P (h y)) \<Longrightarrow>
     defined P (case v of None \<Rightarrow> n | Some y \<Rightarrow> h y)"
  unfolding defined_def by (cases m; auto simp: yields_def split: option.split)+

lemma outcome_prod [outcome_intros]:
  "(\<And>a b. z = (a, b) \<Longrightarrow> yields P (g a b)) \<Longrightarrow> yields P (case z of (a, b) \<Rightarrow> g a b)"
  "(\<And>a b. z = (a, b) \<Longrightarrow> defined P (g a b)) \<Longrightarrow> defined P (case z of (a, b) \<Rightarrow> g a b)"
  by (cases z; simp)+

lemma outcome_mono:
  "yields Q r \<Longrightarrow> (\<And>x. Q x \<Longrightarrow> P x) \<Longrightarrow> yields P r"
  "defined Q r \<Longrightarrow> (\<And>x. Q x \<Longrightarrow> P x) \<Longrightarrow> defined P r"
  by (auto simp: defined_def yields_def)

section \<open>Runs of operations\<close>

text \<open>
  Many components are objects whose methods are called in an order the environment chooses. An
  operation that may fail (undefined behaviour, an exception) is an option; a run performs a list
  of operations. The two locales are the contracts components offer: no operation of an object in
  its invariant fails, and each one implements an abstract operation.
\<close>

primrec run_ops :: "('op \<Rightarrow> 's \<Rightarrow> 's option) \<Rightarrow> 'op list \<Rightarrow> 's \<Rightarrow> 's option" where
  "run_ops step [] s = Some s"
| "run_ops step (x # xs) s = (case step x s of None \<Rightarrow> None | Some s' \<Rightarrow> run_ops step xs s')"

locale total_ops =
  fixes step :: "'op \<Rightarrow> 's \<Rightarrow> 's option" and inv :: "'s \<Rightarrow> bool"
  assumes step_total: "inv s \<Longrightarrow> \<exists>s'. step x s = Some s' \<and> inv s'"
begin

lemma run_total: "inv s \<Longrightarrow> \<exists>s'. run_ops step xs s = Some s' \<and> inv s'"
proof (induction xs arbitrary: s)
  case (Cons x xs)
  from step_total [OF Cons.prems, of x] obtain s' where "step x s = Some s'" "inv s'" by blast
  with Cons.IH [of s'] show ?case by simp
qed simp

lemma run_inv: "inv s \<Longrightarrow> run_ops step xs s = Some s' \<Longrightarrow> inv s'"
  using run_total [of s xs] by auto

end

locale simulation = total_ops step inv
  for step :: "'op \<Rightarrow> 's \<Rightarrow> 's option" and inv :: "'s \<Rightarrow> bool" +
  fixes abs :: "'s \<Rightarrow> 'a" and astep :: "'op \<Rightarrow> 'a \<Rightarrow> 'a"
  assumes step_abs: "inv s \<Longrightarrow> step x s = Some s' \<Longrightarrow> abs s' = astep x (abs s)"
begin

lemma run_simulates:
  "inv s \<Longrightarrow> \<exists>s'. run_ops step xs s = Some s' \<and> inv s' \<and> abs s' = fold astep xs (abs s)"
proof (induction xs arbitrary: s)
  case (Cons x xs)
  from step_total [OF Cons.prems, of x] obtain s' where s': "step x s = Some s'" "inv s'" by blast
  with step_abs [OF Cons.prems s'(1)] Cons.IH [of s'] show ?case by simp
qed simp

end

text \<open>
  A call that may throw: its steps are outcomes. The contract of an object whose calls, in its
  invariant, are never undefined.
\<close>

primrec run_calls :: "('op \<Rightarrow> 's \<Rightarrow> 's outcome) \<Rightarrow> 'op list \<Rightarrow> 's \<Rightarrow> 's outcome" where
  "run_calls step [] s = Done s"
| "run_calls step (x # xs) s = and_then (step x s) (run_calls step xs)"

lemma run_calls_append: "run_calls step (xs @ ys) s = and_then (run_calls step xs s) (run_calls step ys)"
proof (induction xs arbitrary: s)
  case (Cons x xs)
  then show ?case by (cases "step x s") simp_all
qed simp

locale safe_calls =
  fixes step :: "'op \<Rightarrow> 's \<Rightarrow> 's outcome" and inv :: "'s \<Rightarrow> bool" and ok :: "'op \<Rightarrow> bool"
  assumes step_defined: "inv s \<Longrightarrow> ok x \<Longrightarrow> step x s \<noteq> Undefined"
    and step_inv: "inv s \<Longrightarrow> ok x \<Longrightarrow> step x s = Done s' \<Longrightarrow> inv s'"
begin

lemma run_defined: "inv s \<Longrightarrow> list_all ok xs \<Longrightarrow> run_calls step xs s \<noteq> Undefined"
proof (induction xs arbitrary: s)
  case (Cons x xs)
  then show ?case using step_defined [of s x] step_inv [of s x] by (cases "step x s") auto
qed simp

lemma run_inv: "inv s \<Longrightarrow> list_all ok xs \<Longrightarrow> run_calls step xs s = Done s' \<Longrightarrow> inv s'"
proof (induction xs arbitrary: s)
  case (Cons x xs)
  then show ?case using step_inv [of s x] by auto
qed simp

end

text \<open>Calls whose undefined behaviour is known exactly: a run is undefined when it comes to a bad call.\<close>

locale exact_calls =
  fixes step :: "'op \<Rightarrow> 's \<Rightarrow> 's outcome" and inv :: "'s \<Rightarrow> bool" and ok :: "'op \<Rightarrow> bool"
    and bad :: "'op \<Rightarrow> 's \<Rightarrow> bool"
  assumes step_bad: "inv s \<Longrightarrow> ok x \<Longrightarrow> step x s = Undefined \<longleftrightarrow> bad x s"
    and step_keeps: "inv s \<Longrightarrow> ok x \<Longrightarrow> step x s = Done s' \<Longrightarrow> inv s'"
begin

lemma run_keeps: "inv s \<Longrightarrow> list_all ok xs \<Longrightarrow> run_calls step xs s = Done s' \<Longrightarrow> inv s'"
proof (induction xs arbitrary: s)
  case (Cons x xs)
  then show ?case using step_keeps [of s x] by auto
qed simp

lemma run_bad:
  "inv s \<Longrightarrow> list_all ok xs \<Longrightarrow> run_calls step xs s = Undefined \<Longrightarrow>
    \<exists>pre x post s'. xs = pre @ x # post \<and> run_calls step pre s = Done s' \<and> bad x s'"
proof (induction xs arbitrary: s)
  case (Cons x xs)
  show ?case
  proof (cases "step x s")
    case (Done s1)
    then have "inv s1" "list_all ok xs" "run_calls step xs s1 = Undefined" using Cons.prems step_keeps by auto
    from Cons.IH [OF this] obtain pre y post s' where
      "xs = pre @ y # post" "run_calls step pre s1 = Done s'" "bad y s'" by blast
    then have "x # xs = (x # pre) @ y # post" "run_calls step (x # pre) s = Done s'" "bad y s'"
      using Done by simp_all
    then show ?thesis by blast
  next
    case Undefined
    then have "x # xs = [] @ x # xs" "run_calls step [] s = Done s" "bad x s"
      using step_bad [OF Cons.prems(1), of x] Cons.prems(2) by simp_all
    then show ?thesis by blast
  qed (use Cons.prems in simp)
qed simp

lemma run_undefined_iff:
  assumes "inv s" "list_all ok xs"
  shows "run_calls step xs s = Undefined \<longleftrightarrow>
    (\<exists>pre x post s'. xs = pre @ x # post \<and> run_calls step pre s = Done s' \<and> bad x s')"
proof
  assume "\<exists>pre x post s'. xs = pre @ x # post \<and> run_calls step pre s = Done s' \<and> bad x s'"
  then obtain pre x post s' where r: "xs = pre @ x # post" "run_calls step pre s = Done s'" "bad x s'" by blast
  with run_keeps [OF assms(1), of pre s'] step_bad assms(2) have "step x s' = Undefined" by auto
  with r show "run_calls step xs s = Undefined" by (simp add: run_calls_append)
qed (rule run_bad [OF assms])

end

lemma simulationI:
  assumes "\<And>s x. I s \<Longrightarrow> \<exists>s'. step x s = Some s' \<and> I s' \<and> f s' = astep x (f s)"
  shows "simulation step I f astep"
proof
  fix s x
  assume "I s"
  with assms [of s x] show "\<exists>s'. step x s = Some s' \<and> I s'" by blast
next
  fix s x s'
  assume "I s" "step x s = Some s'"
  with assms [of s x] show "f s' = astep x (f s)" by auto
qed

section \<open>Ordered maps\<close>

text \<open>
  A \<open>std::map\<close> whose order of iteration matters is the list of its pairs in the order of the keys;
  \<open>insert\<close> keeps an entry that is already there.
\<close>

fun omap_insert :: "('k \<Rightarrow> 'k \<Rightarrow> bool) \<Rightarrow> 'k \<Rightarrow> 'v \<Rightarrow> ('k \<times> 'v) list \<Rightarrow> ('k \<times> 'v) list" where
  "omap_insert lt k v [] = [(k, v)]"
| "omap_insert lt k v ((k', v') # m) =
     (if lt k k' then (k, v) # (k', v') # m
      else if k = k' then (k', v') # m
      else (k', v') # omap_insert lt k v m)"

definition omap_erase :: "'k \<Rightarrow> ('k \<times> 'v) list \<Rightarrow> ('k \<times> 'v) list" where
  "omap_erase k m = filter (\<lambda>(k', v). k' \<noteq> k) m"

lemma omap_insert_keys: "set (map fst (omap_insert lt k v m)) = insert k (set (map fst m))"
  by (induction lt k v m rule: omap_insert.induct) auto

text \<open>The order of \<open>std::map<CStdString, ..>\<close>: bytes compared as unsigned characters.\<close>

fun str_less :: "string \<Rightarrow> string \<Rightarrow> bool" where
  "str_less [] [] = False"
| "str_less [] (d # ds) = True"
| "str_less (c # cs) [] = False"
| "str_less (c # cs) (d # ds) =
     (chr_code c < (chr_code d :: nat) \<or> (c = d \<and> str_less cs ds))"

lemma str_less_trans: "str_less a b \<Longrightarrow> str_less b c \<Longrightarrow> str_less a c"
proof (induction a b arbitrary: c rule: str_less.induct)
  case (4 x xs y ys)
  then show ?case by (cases c) auto
qed (case_tac c; simp)+

lemma str_less_irrefl: "\<not> str_less a a"
  by (induction a) auto

lemma str_less_total: "\<not> str_less a b \<Longrightarrow> a \<noteq> b \<Longrightarrow> str_less b a"
  by (induction a b rule: str_less.induct) auto

lemma str_less_prefix: "b \<noteq> [] \<Longrightarrow> str_less a (a @ b)"
  by (induction a) (cases b; auto)+

text \<open>A strict order of the keys is kept by insertion.\<close>

lemma omap_insert_sorted:
  assumes "\<And>a b c. lt a b \<Longrightarrow> lt b c \<Longrightarrow> lt a c" "\<And>a b. \<not> lt a b \<Longrightarrow> a \<noteq> b \<Longrightarrow> lt b a"
  shows "sorted_wrt lt (map fst m) \<Longrightarrow> sorted_wrt lt (map fst (omap_insert lt k v m))"
proof (induction m)
  case (Cons a m)
  obtain k' v' where a: "a = (k', v')" by fastforce
  show ?case
  proof (cases "lt k k' \<or> k = k'")
    case True
    with Cons.prems show ?thesis by (auto simp: a intro: assms(1))
  next
    case False
    then have below: "lt k' k" using assms(2) by blast
    have "sorted_wrt lt (map fst (omap_insert lt k v m))" using Cons by (simp add: a)
    moreover have "\<forall>x \<in> set (map fst (omap_insert lt k v m)). lt k' x"
      using Cons.prems below unfolding omap_insert_keys by (simp add: a)
    ultimately show ?thesis using False by (simp add: a)
  qed
qed simp

lemma omap_erase_sorted: "sorted_wrt lt (map fst m) \<Longrightarrow> sorted_wrt lt (map fst (omap_erase k m))"
  by (induction m) (auto simp: omap_erase_def)

lemma map_of_omap_erase: "map_of (omap_erase k m) = (map_of m)(k := None)"
  by (induction m) (auto simp: omap_erase_def)

lemma map_of_omap_insert:
  assumes "\<And>a b c. lt a b \<Longrightarrow> lt b c \<Longrightarrow> lt a c" "\<And>a. \<not> lt a a"
    "sorted_wrt lt (map fst m)"
  shows "map_of (omap_insert lt k v m) = (if map_of m k = None then (map_of m)(k \<mapsto> v) else map_of m)"
  using assms(3)
proof (induction m)
  case (Cons a m)
  obtain k' v' where a: "a = (k', v')" by fastforce
  show ?case
  proof (cases "lt k k'")
    case True
    have "k \<notin> set (map fst (a # m))"
    proof
      assume "k \<in> set (map fst (a # m))"
      then have "k = k' \<or> (\<exists>x \<in> set (map fst m). k = x)" by (auto simp: a)
      moreover have "lt k' x" if "x \<in> set (map fst m)" for x
        using Cons.prems that by (auto simp: a)
      ultimately show False using True assms(1,2) by blast
    qed
    then have "map_of (a # m) k = None" by (simp add: map_of_eq_None_iff)
    with True show ?thesis by (auto simp: a fun_eq_iff)
  next
    case False
    with Cons show ?thesis by (auto simp: a fun_eq_iff)
  qed
qed (simp add: fun_eq_iff)

end
