(* ===== verification/OrkLru.thy ===== *)
theory OrkLru
  imports OrkPrelude "HOL-Library.AList"
begin

text \<open>
  \<open>OrekaLruMap\<close> (orkbasecxx/OrkLruMap.h): a bounded map whose entries are kept in the order of
  their last insertion. The class keeps a \<open>std::list\<close> of (key, time) pairs and a \<open>std::map\<close>
  from keys to (value, iterator into the list). An iterator is modelled as the identity of a list
  node: a node carries a number that no other node has, and \<open>m_list.erase(it)\<close> removes the node
  with that number. The \<open>std::map\<close> is an association list with one entry per key (the program
  never iterates over it in key order here).

  The abstract view is one list of (key, value, time) entries, oldest first; \<open>LruAbs\<close> computes it
  and every operation is shown to implement its abstract counterpart. Undefined behaviour (reading
  \<open>front()\<close> of an empty list) is the result \<open>None\<close>.
\<close>

section \<open>State and operations\<close>

record 'k lru_node =
  node_id :: nat
  node_key :: 'k
  node_ts :: nat

record ('k, 'v) OrekaLruMap =
  lru_size :: nat
  lru_list :: "'k lru_node list"
  lru_map :: "('k \<times> 'v \<times> nat) list"
  next_id :: nat

definition OrekaLruMap_new :: "nat \<Rightarrow> ('k, 'v) OrekaLruMap" where
  "OrekaLruMap_new cap = \<lparr>lru_size = cap, lru_list = [], lru_map = [], next_id = 0\<rparr>"

definition list_erase :: "nat \<Rightarrow> 'k lru_node list \<Rightarrow> 'k lru_node list" where
  "list_erase it xs = filter (\<lambda>n. node_id n \<noteq> it) xs"

definition lru_Find :: "('k, 'v) OrekaLruMap \<Rightarrow> 'k \<Rightarrow> ('v \<times> nat) option" where
  "lru_Find m k = map_of (lru_map m) k"

definition lru_InsertPair ::
    "nat \<Rightarrow> 'k \<Rightarrow> 'v \<Rightarrow> ('k, 'v) OrekaLruMap \<Rightarrow> ('k, 'v) OrekaLruMap option" where
  "lru_InsertPair now k v m =
     (case (if length (lru_map m) \<ge> lru_size m
            then (case lru_list m of
                    [] \<Rightarrow> None
                  | n # ns \<Rightarrow> Some (m\<lparr>lru_map := AList.delete (node_key n) (lru_map m), lru_list := ns\<rparr>))
            else Some m)
      of None \<Rightarrow> None
       | Some m1 \<Rightarrow>
           let m2 = (case map_of (lru_map m1) k of
                       Some (_, it2) \<Rightarrow> m1\<lparr>lru_list := list_erase it2 (lru_list m1),
                                           lru_map := AList.delete k (lru_map m1)\<rparr>
                     | None \<Rightarrow> m1);
               it3 = next_id m2
           in Some (m2\<lparr>lru_list := lru_list m2 @ [\<lparr>node_id = it3, node_key = k, node_ts = now\<rparr>],
                       lru_map := (k, v, it3) # lru_map m2, next_id := Suc it3\<rparr>))"

definition lru_GetOldestPair :: "('k, 'v) OrekaLruMap \<Rightarrow> ('k \<times> 'v) option" where
  "lru_GetOldestPair m =
     (case lru_list m of [] \<Rightarrow> None
      | n # _ \<Rightarrow> map_option (\<lambda>(v, _). (node_key n, v)) (lru_Find m (node_key n)))"

definition lru_GetNewestPair :: "('k, 'v) OrekaLruMap \<Rightarrow> ('k \<times> 'v) option" where
  "lru_GetNewestPair m =
     (if lru_list m = [] then None
      else (let n = last (lru_list m)
            in map_option (\<lambda>(v, _). (node_key n, v)) (lru_Find m (node_key n))))"

definition lru_GetValue :: "('k, 'v) OrekaLruMap \<Rightarrow> 'k \<Rightarrow> 'v option" where
  "lru_GetValue m k = map_option fst (lru_Find m k)"

text \<open>\<open>GetEntryTs\<close> and \<open>GetOldestTs\<close> return \<open>(uint64_t)-1\<close> when there is no entry.\<close>

definition no_ts :: nat where
  "no_ts = 2 ^ 64 - 1"

definition lru_GetEntryTs :: "('k, 'v) OrekaLruMap \<Rightarrow> 'k \<Rightarrow> nat" where
  "lru_GetEntryTs m k =
     (case lru_Find m k of None \<Rightarrow> no_ts
      | Some (_, it) \<Rightarrow> (case find (\<lambda>n. node_id n = it) (lru_list m) of
                           Some n \<Rightarrow> node_ts n | None \<Rightarrow> no_ts))"

definition lru_GetOldestTs :: "('k, 'v) OrekaLruMap \<Rightarrow> nat" where
  "lru_GetOldestTs m = (case lru_list m of [] \<Rightarrow> no_ts | n # _ \<Rightarrow> node_ts n)"

definition lru_RemoveOldest :: "('k, 'v) OrekaLruMap \<Rightarrow> ('k, 'v) OrekaLruMap" where
  "lru_RemoveOldest m =
     (case lru_list m of [] \<Rightarrow> m
      | n # ns \<Rightarrow> m\<lparr>lru_map := AList.delete (node_key n) (lru_map m), lru_list := ns\<rparr>)"

definition lru_Remove :: "'k \<Rightarrow> ('k, 'v) OrekaLruMap \<Rightarrow> bool \<times> ('k, 'v) OrekaLruMap" where
  "lru_Remove k m =
     (case lru_Find m k of None \<Rightarrow> (False, m)
      | Some (_, it2) \<Rightarrow> (True, m\<lparr>lru_list := list_erase it2 (lru_list m),
                                   lru_map := AList.delete k (lru_map m)\<rparr>))"

definition lru_Clear :: "('k, 'v) OrekaLruMap \<Rightarrow> ('k, 'v) OrekaLruMap" where
  "lru_Clear m = m\<lparr>lru_map := [], lru_list := []\<rparr>"

definition lru_Count :: "('k, 'v) OrekaLruMap \<Rightarrow> nat" where
  "lru_Count m = length (lru_map m)"

definition lru_SetSize :: "nat \<Rightarrow> ('k, 'v) OrekaLruMap \<Rightarrow> ('k, 'v) OrekaLruMap" where
  "lru_SetSize n m = (if n \<ge> lru_size m then m\<lparr>lru_size := n\<rparr> else m)"

section \<open>Invariant and abstract view\<close>

text \<open>
  The list and the map agree: node numbers are distinct and below \<open>next_id\<close>, each key has one
  node and one map entry, and the entry's iterator is the number of the key's node.
\<close>

definition lru_inv :: "('k, 'v) OrekaLruMap \<Rightarrow> bool" where
  "lru_inv m \<longleftrightarrow>
     distinct (map node_key (lru_list m)) \<and> distinct (map node_id (lru_list m)) \<and>
     (\<forall>n\<in>set (lru_list m). node_id n < next_id m) \<and> distinct (map fst (lru_map m)) \<and>
     fst ` set (lru_map m) = node_key ` set (lru_list m) \<and>
     (\<forall>n\<in>set (lru_list m). \<exists>v. map_of (lru_map m) (node_key n) = Some (v, node_id n))"

definition lru_bounded :: "('k, 'v) OrekaLruMap \<Rightarrow> bool" where
  "lru_bounded m \<longleftrightarrow> lru_inv m \<and> 0 < lru_size m \<and> length (lru_list m) \<le> lru_size m"

type_synonym ('k, 'v) lru_entry = "'k \<times> 'v \<times> nat"

definition LruAbs :: "('k, 'v) OrekaLruMap \<Rightarrow> ('k, 'v) lru_entry list" where
  "LruAbs m = map (\<lambda>n. (node_key n, fst (the (map_of (lru_map m) (node_key n))), node_ts n)) (lru_list m)"

definition abs_insert ::
    "nat \<Rightarrow> nat \<Rightarrow> 'k \<Rightarrow> 'v \<Rightarrow> ('k, 'v) lru_entry list \<Rightarrow> ('k, 'v) lru_entry list" where
  "abs_insert cap now k v es =
     filter (\<lambda>e. fst e \<noteq> k) (if length es \<ge> cap then tl es else es) @ [(k, v, now)]"

definition abs_remove :: "'k \<Rightarrow> ('k, 'v) lru_entry list \<Rightarrow> ('k, 'v) lru_entry list" where
  "abs_remove k es = filter (\<lambda>e. fst e \<noteq> k) es"

lemma lru_inv_card: "lru_inv m \<Longrightarrow> length (lru_map m) = length (lru_list m)"
  unfolding lru_inv_def by (metis distinct_card length_map list.set_map)

lemma lru_inv_new: "lru_inv (OrekaLruMap_new cap)"
  by (simp add: lru_inv_def OrekaLruMap_new_def)

lemma lru_bounded_new: "0 < cap \<Longrightarrow> lru_bounded (OrekaLruMap_new cap)"
  by (simp add: lru_bounded_def lru_inv_new) (simp add: OrekaLruMap_new_def)

text \<open>Erasing a key's node by its number erases exactly the node with that key.\<close>

lemma list_erase_by_key:
  assumes "lru_inv m" "map_of (lru_map m) k = Some (v, it)"
  shows "list_erase it (lru_list m) = filter (\<lambda>n. node_key n \<noteq> k) (lru_list m)"
  unfolding list_erase_def
proof (rule filter_cong [OF refl])
  fix n assume n: "n \<in> set (lru_list m)"
  from assms have "k \<in> node_key ` set (lru_list m)"
    unfolding lru_inv_def by (metis image_eqI map_of_SomeD fst_conv)
  then obtain n' where n': "n' \<in> set (lru_list m)" "node_key n' = k" by auto
  with assms have "node_id n' = it" unfolding lru_inv_def by fastforce
  with n n' assms(1) show "(node_id n \<noteq> it) = (node_key n \<noteq> k)"
    unfolding lru_inv_def by (metis distinct_map inj_on_eq_iff)
qed

definition lru_drop_key :: "'k \<Rightarrow> ('k, 'v) OrekaLruMap \<Rightarrow> ('k, 'v) OrekaLruMap" where
  "lru_drop_key k m = m\<lparr>lru_list := filter (\<lambda>n. node_key n \<noteq> k) (lru_list m),
                        lru_map := AList.delete k (lru_map m)\<rparr>"

definition lru_push :: "nat \<Rightarrow> 'k \<Rightarrow> 'v \<Rightarrow> ('k, 'v) OrekaLruMap \<Rightarrow> ('k, 'v) OrekaLruMap" where
  "lru_push now k v m =
     m\<lparr>lru_list := lru_list m @ [\<lparr>node_id = next_id m, node_key = k, node_ts = now\<rparr>],
       lru_map := (k, v, next_id m) # lru_map m, next_id := Suc (next_id m)\<rparr>"

lemma fst_set_delete: "fst ` set (AList.delete k al) = fst ` set al - {k}"
  using delete_keys [of k al] by (metis list.set_map set_removeAll)

lemma lru_inv_drop_key: "lru_inv m \<Longrightarrow> lru_inv (lru_drop_key k m)"
  unfolding lru_inv_def lru_drop_key_def
  by (auto simp: distinct_map_filter fst_set_delete distinct_delete image_iff)

lemma LruAbs_drop_key: "LruAbs (lru_drop_key k m) = abs_remove k (LruAbs m)"
  by (auto simp: LruAbs_def lru_drop_key_def abs_remove_def filter_map comp_def intro!: map_cong)

lemma lru_inv_push:
  "lru_inv m \<Longrightarrow> k \<notin> fst ` set (lru_map m) \<Longrightarrow> lru_inv (lru_push now k v m)"
  unfolding lru_inv_def lru_push_def by (auto simp: image_iff)

lemma LruAbs_push:
  "lru_inv m \<Longrightarrow> k \<notin> fst ` set (lru_map m) \<Longrightarrow>
    LruAbs (lru_push now k v m) = LruAbs m @ [(k, v, now)]"
  unfolding lru_inv_def LruAbs_def lru_push_def by (auto simp: image_iff)

lemma lru_drop_key_absent:
  assumes "lru_inv m" "k \<notin> fst ` set (lru_map m)"
  shows "lru_drop_key k m = m"
proof -
  have "filter (\<lambda>n. node_key n \<noteq> k) (lru_list m) = lru_list m"
    using assms by (intro filter_True) (auto simp: lru_inv_def)
  moreover have "AList.delete k (lru_map m) = lru_map m"
    by (rule delete_id) (rule assms(2))
  ultimately show ?thesis by (simp add: lru_drop_key_def)
qed

lemma lru_drop_front:
  assumes "lru_inv m" "lru_list m = n # ns"
  shows "lru_drop_key (node_key n) m = m\<lparr>lru_map := AList.delete (node_key n) (lru_map m), lru_list := ns\<rparr>"
proof -
  have "filter (\<lambda>x. node_key x \<noteq> node_key n) ns = ns"
    using assms by (intro filter_True) (auto simp: lru_inv_def)
  with assms(2) show ?thesis by (simp add: lru_drop_key_def)
qed

section \<open>Every operation keeps the invariant and implements the abstract one\<close>

text \<open>The two steps of \<open>InsertPair\<close> in terms of key removal.\<close>

lemma lru_InsertPair_steps:
  assumes inv: "lru_inv m" and ne: "length (lru_map m) \<ge> lru_size m \<Longrightarrow> lru_list m \<noteq> []"
  defines "m1 \<equiv> (if length (lru_map m) \<ge> lru_size m
                 then lru_drop_key (node_key (hd (lru_list m))) m else m)"
  shows "lru_InsertPair now k v m = Some (lru_push now k v (lru_drop_key k m1))" "lru_inv m1"
proof -
  show i1: "lru_inv m1" using inv by (simp add: m1_def lru_inv_drop_key)
  have step1: "(if length (lru_map m) \<ge> lru_size m
      then (case lru_list m of [] \<Rightarrow> None | n # ns \<Rightarrow>
              Some (m\<lparr>lru_map := AList.delete (node_key n) (lru_map m), lru_list := ns\<rparr>))
      else Some m) = Some m1"
    using lru_drop_front [OF inv] ne by (auto simp: m1_def split: list.splits)
  have step2: "(case map_of (lru_map m1) k of
      Some (_, it2) \<Rightarrow> m1\<lparr>lru_list := list_erase it2 (lru_list m1), lru_map := AList.delete k (lru_map m1)\<rparr>
    | None \<Rightarrow> m1) = lru_drop_key k m1"
    using list_erase_by_key [OF i1] lru_drop_key_absent [OF i1]
    by (auto simp: lru_drop_key_def map_of_eq_None_iff split: option.splits)
  show "lru_InsertPair now k v m = Some (lru_push now k v (lru_drop_key k m1))"
    unfolding lru_InsertPair_def step1 by (simp only: option.case step2 Let_def lru_push_def)
qed

lemma drop_key_not_in: "k \<notin> fst ` set (lru_map (lru_drop_key k m))"
  by (simp add: lru_drop_key_def fst_set_delete)

lemma length_LruAbs [simp]: "length (LruAbs m) = length (lru_list m)"
  by (simp add: LruAbs_def)

lemma LruAbs_keys: "map fst (LruAbs m) = map node_key (lru_list m)"
  by (simp add: LruAbs_def)

lemma abs_remove_hd:
  assumes "distinct (map fst es)" "es \<noteq> []"
  shows "abs_remove (fst (hd es)) es = tl es"
  using assms by (cases es) (auto simp: abs_remove_def filter_id_conv image_iff)

lemma lru_insert_front:
  assumes "lru_inv m" "lru_list m \<noteq> []"
  shows "LruAbs (lru_drop_key (node_key (hd (lru_list m))) m) = tl (LruAbs m)"
proof -
  from assms have "distinct (map fst (LruAbs m))" by (simp add: LruAbs_keys lru_inv_def)
  moreover have "fst (hd (LruAbs m)) = node_key (hd (lru_list m))"
    using assms(2) by (cases "lru_list m") (auto simp: LruAbs_def)
  moreover from assms(2) have "LruAbs m \<noteq> []" by (simp add: LruAbs_def)
  ultimately show ?thesis by (metis LruAbs_drop_key abs_remove_hd)
qed

text \<open>The invariant and the abstract effect of every operation.\<close>

lemma lru_InsertPair_correct:
  assumes "lru_inv m" "length (lru_map m) \<ge> lru_size m \<Longrightarrow> lru_list m \<noteq> []"
  obtains m' where "lru_InsertPair now k v m = Some m'" "lru_inv m'" "lru_size m' = lru_size m"
    "LruAbs m' = abs_insert (lru_size m) now k v (LruAbs m)"
proof
  let ?m1 = "if length (lru_map m) \<ge> lru_size m
             then lru_drop_key (node_key (hd (lru_list m))) m else m"
  let ?m' = "lru_push now k v (lru_drop_key k ?m1)"
  have i1: "lru_inv ?m1" and eq: "lru_InsertPair now k v m = Some ?m'"
    using lru_InsertPair_steps [OF assms] by auto
  show "lru_InsertPair now k v m = Some ?m'" by (rule eq)
  show "lru_inv ?m'"
    by (rule lru_inv_push [OF lru_inv_drop_key [OF i1] drop_key_not_in])
  show "lru_size ?m' = lru_size m" by (simp add: lru_push_def lru_drop_key_def)
  have a1: "LruAbs ?m1 = (if length (LruAbs m) \<ge> lru_size m then tl (LruAbs m) else LruAbs m)"
    using assms lru_insert_front lru_inv_card [OF assms(1)] by auto
  have "LruAbs ?m' = LruAbs (lru_drop_key k ?m1) @ [(k, v, now)]"
    by (rule LruAbs_push [OF lru_inv_drop_key [OF i1] drop_key_not_in])
  then show "LruAbs ?m' = abs_insert (lru_size m) now k v (LruAbs m)"
    by (simp only: LruAbs_drop_key a1 abs_remove_def abs_insert_def)
qed

lemma lru_Remove_correct:
  assumes "lru_inv m"
  shows "snd (lru_Remove k m) = lru_drop_key k m"
    "fst (lru_Remove k m) \<longleftrightarrow> k \<in> fst ` set (LruAbs m)"
proof -
  have "fst ` set (lru_map m) = node_key ` set (lru_list m)" using assms by (simp add: lru_inv_def)
  moreover have "fst ` set (LruAbs m) = node_key ` set (lru_list m)"
    using arg_cong [OF LruAbs_keys [of m], of set] by (simp add: list.set_map)
  ultimately have keys: "fst ` set (LruAbs m) = fst ` set (lru_map m)" by simp
  show "snd (lru_Remove k m) = lru_drop_key k m"
    using list_erase_by_key [OF assms] lru_drop_key_absent [OF assms]
    by (auto simp: lru_Remove_def lru_Find_def lru_drop_key_def map_of_eq_None_iff
        split: option.splits)
  show "fst (lru_Remove k m) \<longleftrightarrow> k \<in> fst ` set (LruAbs m)"
    unfolding keys lru_Remove_def lru_Find_def
    by (auto simp: map_of_eq_None_iff split: option.splits) (metis map_of_eq_None_iff option.distinct(1))
qed

lemma lru_RemoveOldest_correct:
  assumes "lru_inv m"
  shows "lru_inv (lru_RemoveOldest m)" "LruAbs (lru_RemoveOldest m) = tl (LruAbs m)"
proof -
  have "lru_RemoveOldest m = (if lru_list m = [] then m
    else lru_drop_key (node_key (hd (lru_list m))) m)"
    using lru_drop_front [OF assms] by (auto simp: lru_RemoveOldest_def split: list.splits)
  moreover have "lru_list m = [] \<Longrightarrow> LruAbs m = []" by (simp add: LruAbs_def)
  ultimately show "lru_inv (lru_RemoveOldest m)" "LruAbs (lru_RemoveOldest m) = tl (LruAbs m)"
    using assms lru_inv_drop_key lru_insert_front by auto
qed

lemma map_of_LruAbs:
  assumes "lru_inv m"
  shows "map_option fst (map_of (LruAbs m) k) = lru_GetValue m k"
proof (cases "k \<in> node_key ` set (lru_list m)")
  case True
  then obtain n where n: "n \<in> set (lru_list m)" "node_key n = k" by auto
  with assms obtain v where v: "map_of (lru_map m) k = Some (v, node_id n)"
    unfolding lru_inv_def by blast
  have "distinct (map fst (LruAbs m))" using assms by (simp add: LruAbs_keys lru_inv_def)
  moreover have "(k, v, node_ts n) \<in> set (LruAbs m)"
    using n v by (force simp: LruAbs_def)
  ultimately have "map_of (LruAbs m) k = Some (v, node_ts n)" by simp
  with v show ?thesis by (simp add: lru_GetValue_def lru_Find_def)
next
  case False
  with assms have "map_of (lru_map m) k = None" by (simp add: map_of_eq_None_iff lru_inv_def)
  moreover have "map_of (LruAbs m) k = None"
    using False arg_cong [OF LruAbs_keys [of m], of set]
    by (simp add: map_of_eq_None_iff list.set_map)
  ultimately show ?thesis by (simp add: lru_GetValue_def lru_Find_def)
qed

section \<open>Runs of client operations\<close>

text \<open>The calls a client makes; the times are what \<open>time(NULL)\<close> returned.\<close>

datatype ('k, 'v) lru_op = LruInsert nat 'k 'v | LruRemove 'k | LruRemoveOldest | LruClear | LruSetSize nat

fun lru_step :: "('k, 'v) lru_op \<Rightarrow> ('k, 'v) OrekaLruMap \<Rightarrow> ('k, 'v) OrekaLruMap option" where
  "lru_step (LruInsert now k v) m = lru_InsertPair now k v m"
| "lru_step (LruRemove k) m = Some (snd (lru_Remove k m))"
| "lru_step LruRemoveOldest m = Some (lru_RemoveOldest m)"
| "lru_step LruClear m = Some (lru_Clear m)"
| "lru_step (LruSetSize n) m = Some (lru_SetSize n m)"

text \<open>The abstract state is the capacity and the entries, oldest insertion first.\<close>

fun lru_astep ::
    "('k, 'v) lru_op \<Rightarrow> nat \<times> ('k, 'v) lru_entry list \<Rightarrow> nat \<times> ('k, 'v) lru_entry list" where
  "lru_astep (LruInsert now k v) (cap, es) = (cap, abs_insert cap now k v es)"
| "lru_astep (LruRemove k) (cap, es) = (cap, abs_remove k es)"
| "lru_astep LruRemoveOldest (cap, es) = (cap, tl es)"
| "lru_astep LruClear (cap, es) = (cap, [])"
| "lru_astep (LruSetSize n) (cap, es) = (max cap n, es)"

definition lru_view :: "('k, 'v) OrekaLruMap \<Rightarrow> nat \<times> ('k, 'v) lru_entry list" where
  "lru_view m = (lru_size m, LruAbs m)"

lemma length_abs_insert: "length es \<le> cap \<Longrightarrow> 0 < cap \<Longrightarrow> length (abs_insert cap now k v es) \<le> cap"
  using length_filter_le [of "\<lambda>e. fst e \<noteq> k" es] length_filter_le [of "\<lambda>e. fst e \<noteq> k" "tl es"]
  by (cases es) (auto simp: abs_insert_def simp del: length_filter_le)

lemma lru_inv_Clear: "lru_inv (lru_Clear m)"
  by (simp add: lru_inv_def lru_Clear_def)

lemma lru_inv_set_size: "lru_inv (m\<lparr>lru_size := n\<rparr>) = lru_inv m"
  by (simp add: lru_inv_def)

lemma lru_inv_SetSize: "lru_inv m \<Longrightarrow> lru_inv (lru_SetSize n m)"
  by (simp add: lru_SetSize_def lru_inv_set_size)

lemma lru_step_refines:
  assumes "lru_bounded m"
  shows "\<exists>m'. lru_step x m = Some m' \<and> lru_bounded m' \<and> lru_view m' = lru_astep x (lru_view m)"
proof (cases x)
  case (LruInsert now k v)
  from assms have b: "lru_inv m" "0 < lru_size m" "length (lru_list m) \<le> lru_size m"
    by (auto simp: lru_bounded_def)
  have "length (lru_map m) \<ge> lru_size m \<Longrightarrow> lru_list m \<noteq> []" using b lru_inv_card by fastforce
  then obtain m' where m': "lru_InsertPair now k v m = Some m'" "lru_inv m'"
      "lru_size m' = lru_size m" "LruAbs m' = abs_insert (lru_size m) now k v (LruAbs m)"
    using lru_InsertPair_correct [OF b(1)] by metis
  have "length (lru_list m') \<le> lru_size m'"
    using length_abs_insert [of "LruAbs m"] b m' length_LruAbs by metis
  with m' b LruInsert show ?thesis by (simp add: lru_bounded_def lru_view_def)
next
  case (LruRemove k)
  from assms have "lru_inv m" by (simp add: lru_bounded_def)
  moreover have "length (filter (\<lambda>n. node_key n \<noteq> k) (lru_list m)) \<le> length (lru_list m)" by simp
  ultimately have "lru_bounded (lru_drop_key k m)" "lru_size (lru_drop_key k m) = lru_size m"
    using assms lru_inv_drop_key [of m k]
    unfolding lru_bounded_def by (auto simp: lru_drop_key_def simp del: length_filter_le)
  with LruRemove \<open>lru_inv m\<close> show ?thesis
    by (simp add: lru_Remove_correct lru_view_def LruAbs_drop_key)
next
  case LruRemoveOldest
  from assms have i: "lru_inv m" by (simp add: lru_bounded_def)
  have "length (lru_list (lru_RemoveOldest m)) \<le> length (lru_list m)"
    "lru_size (lru_RemoveOldest m) = lru_size m"
    by (auto simp: lru_RemoveOldest_def split: list.splits)
  with LruRemoveOldest assms lru_RemoveOldest_correct [OF i] show ?thesis
    by (auto simp: lru_bounded_def lru_view_def)
next
  case LruClear
  with assms show ?thesis
    by (auto simp: lru_bounded_def lru_view_def lru_inv_Clear) (auto simp: lru_Clear_def LruAbs_def)
next
  case (LruSetSize n)
  with assms show ?thesis
    by (auto simp: lru_bounded_def lru_view_def lru_inv_SetSize)
      (auto simp: lru_SetSize_def LruAbs_def)
qed

interpretation lru: simulation lru_step lru_bounded lru_view lru_astep
  by (rule simulationI) (rule lru_step_refines)

text \<open>
  C29. Starting from a new map of non-zero capacity, no sequence of calls reads the front of an
  empty list, and the map holds exactly what the list of entries in insertion order holds: an
  insertion appends, evicts the oldest entry when the map is full and replaces the key's former
  entry; the number of entries never exceeds the capacity.
\<close>

theorem lru_runs_refine:
  fixes ops :: "('k, 'v) lru_op list"
  assumes "0 < cap"
  shows "\<exists>m. run_ops lru_step ops (OrekaLruMap_new cap) = Some m \<and>
     (lru_size m, LruAbs m) = fold lru_astep ops (cap, []) \<and> lru_Count m \<le> lru_size m"
proof -
  have "lru_view (OrekaLruMap_new cap :: ('k, 'v) OrekaLruMap) = (cap, [])"
    by (simp add: lru_view_def LruAbs_def OrekaLruMap_new_def)
  with lru.run_simulates [OF lru_bounded_new [OF assms], of ops] obtain m where
    "run_ops lru_step ops (OrekaLruMap_new cap) = Some m" "lru_bounded m"
    "lru_view m = fold lru_astep ops (cap, [])" by auto
  then show ?thesis by (auto simp: lru_view_def lru_bounded_def lru_Count_def lru_inv_card)
qed

theorem lru_runs_refine_witness:
  "\<exists>m. run_ops lru_step [LruInsert 1 (5::nat) CHR ''a'', LruInsert 2 6 CHR ''b'', LruInsert 3 7 CHR ''c'']
         (OrekaLruMap_new 2) = Some m \<and>
     (lru_size m, LruAbs m) = (2, [(6, CHR ''b'', 2), (7, CHR ''c'', 3)]) \<and> lru_Count m \<le> lru_size m"
  using lru_runs_refine [of 2 "[LruInsert 1 (5::nat) CHR ''a'', LruInsert 2 6 CHR ''b'',
      LruInsert 3 7 CHR ''c'']"]
  by (simp add: abs_insert_def)

text \<open>
  After an insertion into a map in its invariant, \<open>GetValue\<close> of the key returns the new
  value; another key keeps its value unless it was the oldest of a full map, which is evicted
  (even when the inserted key was present and would only have been replaced).
\<close>

theorem lru_GetValue_after_insert:
  assumes "lru_bounded m" "lru_InsertPair now k v m = Some m'"
  shows "lru_GetValue m' j =
     (if j = k then Some v
      else if lru_Count m \<ge> lru_size m \<and> (\<exists>w. lru_GetOldestPair m = Some (j, w)) then None
      else lru_GetValue m j)"
proof -
  have inv: "lru_inv m" and ne: "lru_Count m \<ge> lru_size m \<Longrightarrow> lru_list m \<noteq> []"
    using assms(1) lru_inv_card by (fastforce simp: lru_bounded_def lru_Count_def)+
  let ?m1 = "if length (lru_map m) \<ge> lru_size m
             then lru_drop_key (node_key (hd (lru_list m))) m else m"
  have m': "m' = lru_push now k v (lru_drop_key k ?m1)"
    using lru_InsertPair_steps(1) [OF inv] ne assms(2) by (auto simp: lru_Count_def)
  have drop: "lru_GetValue (lru_drop_key i x) j = (if j = i then None else lru_GetValue x j)"
    for i and x :: "('a, 'b) OrekaLruMap"
    by (simp add: lru_GetValue_def lru_Find_def lru_drop_key_def delete_conv')
  have push: "lru_GetValue (lru_push now k v x) j = (if j = k then Some v else lru_GetValue x j)"
    for x :: "('a, 'b) OrekaLruMap"
    by (simp add: lru_GetValue_def lru_Find_def lru_push_def)
  have oldest: "(\<exists>w. lru_GetOldestPair m = Some (j, w)) \<longleftrightarrow> j = node_key (hd (lru_list m))"
    if "lru_list m \<noteq> []"
    using that inv by (cases "lru_list m") (auto simp: lru_GetOldestPair_def lru_Find_def lru_inv_def)
  show ?thesis
    unfolding m' push drop using oldest ne drop by (auto simp: lru_Count_def)
qed

theorem lru_GetValue_after_insert_witness:
  "lru_GetValue (the (lru_InsertPair 9 (1::nat) CHR ''x'' (OrekaLruMap_new 3))) 1 = Some CHR ''x''"
proof -
  let ?m = "OrekaLruMap_new 3 :: (nat, char) OrekaLruMap"
  obtain m' where m': "lru_InsertPair 9 1 CHR ''x'' ?m = Some m'"
    by (simp add: lru_InsertPair_def OrekaLruMap_new_def)
  have "lru_bounded ?m" by (rule lru_bounded_new) simp
  from lru_GetValue_after_insert [OF this m', of 1] m' show ?thesis by simp
qed

end
