(* ===== verification/OrkQueue.thy ===== *)
theory OrkQueue
  imports OrkPrelude
begin

text \<open>
  \<open>ThreadSafeQueue\<close> (orkbasecxx/ThreadSafeQueue.h) and the counting semaphore \<open>OrkSemaphore\<close> it
  blocks on (orkbasecxx/Utils.h). The queue carries tapes and messages between the threads of
  the service: pushing never blocks, popping waits on the semaphore.

  \<open>push\<close> runs under the mutex and is one atomic operation. \<open>pop\<close> is two: the semaphore is acquired
  before the mutex is taken, so another thread can run in between; \<open>tsq_acquire\<close> and \<open>tsq_take\<close>
  are the two halves, and the step relation interleaves them for any number of threads. A blocked
  \<open>acquire\<close> is \<open>None\<close>: the thread makes no step. The default-constructed element \<open>T()\<close> that \<open>pop\<close>
  returns when it finds the queue empty is the answer \<open>None\<close> of \<open>tsq_take\<close>.
\<close>

section \<open>The semaphore\<close>

record OrkSemaphore =
  sem_count :: int

definition OrkSemaphore_new :: OrkSemaphore where
  "OrkSemaphore_new = \<lparr>sem_count = 1\<rparr>"

definition sem_release :: "OrkSemaphore \<Rightarrow> OrkSemaphore" where
  "sem_release s = s\<lparr>sem_count := sem_count s + 1\<rparr>"

definition sem_acquire :: "OrkSemaphore \<Rightarrow> OrkSemaphore option" where
  "sem_acquire s = (if sem_count s > 0 then Some (s\<lparr>sem_count := sem_count s - 1\<rparr>) else None)"

text \<open>\<open>acquire(timeoutMs)\<close> once the wait is over (the count became positive, or the time ran out).\<close>

definition sem_acquire_timed :: "OrkSemaphore \<Rightarrow> OrkSemaphore" where
  "sem_acquire_timed s = (if sem_count s > 0 then s\<lparr>sem_count := sem_count s - 1\<rparr> else s)"

section \<open>The queue\<close>

record 'a ThreadSafeQueue =
  q_size :: int
  q_sem :: OrkSemaphore
  q_elems :: "'a list"

text \<open>The constructor resets the semaphore's initial count of one by acquiring it.\<close>

definition ThreadSafeQueue_new :: "int \<Rightarrow> 'a ThreadSafeQueue option" where
  "ThreadSafeQueue_new sz =
     map_option (\<lambda>s. \<lparr>q_size = sz, q_sem = s, q_elems = []\<rparr>) (sem_acquire OrkSemaphore_new)"

text \<open>The limit is compared as \<open>(unsigned int)m_size\<close>: a negative size is a huge limit.\<close>

definition tsq_push :: "'a \<Rightarrow> 'a ThreadSafeQueue \<Rightarrow> bool \<times> 'a ThreadSafeQueue" where
  "tsq_push x q =
     (let ok = (int (length (q_elems q)) < q_size q mod 2 ^ 32);
          q1 = (if ok then q\<lparr>q_elems := q_elems q @ [x]\<rparr> else q)
      in (ok, q1\<lparr>q_sem := sem_release (q_sem q1)\<rparr>))"

definition tsq_acquire :: "'a ThreadSafeQueue \<Rightarrow> 'a ThreadSafeQueue option" where
  "tsq_acquire q = map_option (\<lambda>s. q\<lparr>q_sem := s\<rparr>) (sem_acquire (q_sem q))"

definition tsq_take :: "'a ThreadSafeQueue \<Rightarrow> 'a option \<times> 'a ThreadSafeQueue" where
  "tsq_take q = (case q_elems q of [] \<Rightarrow> (None, q) | x # xs \<Rightarrow> (Some x, q\<lparr>q_elems := xs\<rparr>))"

text \<open>\<open>pop\<close> of a thread that is not interrupted.\<close>

definition tsq_pop :: "'a ThreadSafeQueue \<Rightarrow> ('a option \<times> 'a ThreadSafeQueue) option" where
  "tsq_pop q = map_option tsq_take (tsq_acquire q)"

definition tsq_numElements :: "'a ThreadSafeQueue \<Rightarrow> nat" where
  "tsq_numElements q = length (q_elems q)"

definition tsq_setSize :: "int \<Rightarrow> 'a ThreadSafeQueue \<Rightarrow> 'a ThreadSafeQueue" where
  "tsq_setSize n q = q\<lparr>q_size := n\<rparr>"

section \<open>Interleaved threads\<close>

text \<open>
  The state of a run: the queue, the number of threads between the two halves of \<open>pop\<close>, and what
  has happened: the elements \<open>push\<close> accepted, how many pushes it rejected, and what the pops returned.
\<close>

record 'a tsq_run =
  r_queue :: "'a ThreadSafeQueue"
  r_inside :: nat
  r_accepted :: "'a list"
  r_rejected :: nat
  r_popped :: "'a option list"

inductive tsq_step :: "'a tsq_run \<Rightarrow> 'a tsq_run \<Rightarrow> bool" where
  step_push: "tsq_push x (r_queue r) = (ok, q) \<Longrightarrow>
    tsq_step r (r\<lparr>r_queue := q, r_accepted := r_accepted r @ (if ok then [x] else []),
                  r_rejected := r_rejected r + (if ok then 0 else 1)\<rparr>)"
| step_acquire: "tsq_acquire (r_queue r) = Some q \<Longrightarrow>
    tsq_step r (r\<lparr>r_queue := q, r_inside := Suc (r_inside r)\<rparr>)"
| step_take: "r_inside r = Suc n \<Longrightarrow> tsq_take (r_queue r) = (a, q) \<Longrightarrow>
    tsq_step r (r\<lparr>r_queue := q, r_inside := n, r_popped := r_popped r @ [a]\<rparr>)"
| step_setSize: "tsq_step r (r\<lparr>r_queue := tsq_setSize n (r_queue r)\<rparr>)"

inductive_cases tsq_stepE: "tsq_step r r'"

inductive tsq_reach :: "int \<Rightarrow> 'a tsq_run \<Rightarrow> bool" for sz where
  reach_init: "ThreadSafeQueue_new sz = Some q \<Longrightarrow>
    tsq_reach sz \<lparr>r_queue = q, r_inside = 0, r_accepted = [], r_rejected = 0, r_popped = []\<rparr>"
| reach_step: "tsq_reach sz r \<Longrightarrow> tsq_step r r' \<Longrightarrow> tsq_reach sz r'"

definition somes :: "'a option list \<Rightarrow> 'a list" where
  "somes xs = List.map_filter id xs"

definition nones :: "'a option list \<Rightarrow> nat" where
  "nones xs = length (filter (\<lambda>x. x = None) xs)"

lemma somes_nones_snoc [simp]:
  "somes [] = []" "nones [] = 0"
  "somes (xs @ [None]) = somes xs" "somes (xs @ [Some x]) = somes xs @ [x]"
  "nones (xs @ [None]) = Suc (nones xs)" "nones (xs @ [Some x]) = nones xs"
  by (simp_all add: somes_def nones_def List.map_filter_def)

text \<open>
  The invariant: nothing is lost or reordered; every element and every rejected push is covered
  by a permit of the semaphore, a thread inside \<open>pop\<close>, or a pop that returned no element.
\<close>

definition tsq_inv :: "'a tsq_run \<Rightarrow> bool" where
  "tsq_inv r \<longleftrightarrow> r_accepted r = somes (r_popped r) @ q_elems (r_queue r) \<and>
     0 \<le> sem_count (q_sem (r_queue r)) \<and>
     sem_count (q_sem (r_queue r)) + int (r_inside r) + int (nones (r_popped r)) =
       int (length (q_elems (r_queue r))) + int (r_rejected r)"

lemmas tsq_defs = tsq_push_def tsq_acquire_def tsq_take_def tsq_setSize_def sem_release_def
  sem_acquire_def

lemma tsq_inv_step: "tsq_step r r' \<Longrightarrow> tsq_inv r \<Longrightarrow> tsq_inv r'"
  by (erule tsq_stepE)
    (auto simp: tsq_inv_def tsq_defs Let_def split: if_splits list.splits)

lemma tsq_inv_reach: "tsq_reach sz r \<Longrightarrow> tsq_inv r"
proof (induction rule: tsq_reach.induct)
  case (reach_init q)
  then show ?case
    by (auto simp: ThreadSafeQueue_new_def sem_acquire_def OrkSemaphore_new_def tsq_inv_def)
next
  case (reach_step r r')
  then show ?case using tsq_inv_step by blast
qed

text \<open>Empty answers are only given on account of rejected pushes.\<close>

lemma tsq_nones_step:
  "tsq_step r r' \<Longrightarrow> tsq_inv r \<Longrightarrow> nones (r_popped r) \<le> r_rejected r \<Longrightarrow>
    nones (r_popped r') \<le> r_rejected r'"
  by (erule tsq_stepE)
    (auto simp: tsq_inv_def tsq_defs Let_def split: if_splits list.splits)

lemma tsq_nones_reach: "tsq_reach sz r \<Longrightarrow> nones (r_popped r) \<le> r_rejected r"
proof (induction rule: tsq_reach.induct)
  case (reach_step r r')
  then show ?case using tsq_nones_step tsq_inv_reach by blast
qed simp

text \<open>
  However pushes and the two halves of pops interleave, the elements popped so far followed
  by the elements in the queue are the accepted elements in the order of their pushes: none is
  lost, duplicated or reordered.
\<close>

theorem tsq_fifo:
  assumes "tsq_reach sz r"
  shows "r_accepted r = somes (r_popped r) @ q_elems (r_queue r)"
  using tsq_inv_reach [OF assms] by (simp add: tsq_inv_def)

lemma tsq_reach_example:
  "tsq_reach 1 \<lparr>r_queue = \<lparr>q_size = 1, q_sem = \<lparr>sem_count = 1\<rparr>, q_elems = []\<rparr>,
      r_inside = 0, r_accepted = [CHR ''a''], r_rejected = 1, r_popped = [Some CHR ''a'']\<rparr>"
proof -
  let ?q = "\<lambda>n e. \<lparr>q_size = 1, q_sem = \<lparr>sem_count = n\<rparr>, q_elems = e\<rparr>"
  let ?r = "\<lambda>q i a j p. \<lparr>r_queue = q, r_inside = i, r_accepted = a, r_rejected = j, r_popped = p\<rparr>"
  have 0: "tsq_reach 1 (?r (?q 0 []) 0 [] 0 [])"
    by (rule tsq_reach.reach_init)
      (simp add: ThreadSafeQueue_new_def sem_acquire_def OrkSemaphore_new_def)
  have 1: "tsq_reach 1 (?r (?q 1 [CHR ''a'']) 0 [CHR ''a''] 0 [])"
    using tsq_reach.reach_step [OF 0 tsq_step.step_push [of "CHR ''a''"]] by (simp add: tsq_defs)
  have 2: "tsq_reach 1 (?r (?q 2 [CHR ''a'']) 0 [CHR ''a''] 1 [])"
    using tsq_reach.reach_step [OF 1 tsq_step.step_push [of "CHR ''b''" _ False]] by (simp add: tsq_defs)
  have 3: "tsq_reach 1 (?r (?q 1 [CHR ''a'']) 1 [CHR ''a''] 1 [])"
    using tsq_reach.reach_step [OF 2 tsq_step.step_acquire] by (simp add: tsq_defs)
  show ?thesis
    using tsq_reach.reach_step [OF 3 tsq_step.step_take] by (simp add: tsq_defs)
qed

theorem tsq_fifo_witness:
  "[CHR ''a''] = somes [Some CHR ''a''] @ ([] :: string)"
  using tsq_fifo [OF tsq_reach_example] by simp

text \<open>
  No wake-up is lost and no empty answer is unaccounted for: while an element is queued, a
  permit is available or a thread is inside \<open>pop\<close>, unless a rejected push already made a pop
  return nothing; and pops return nothing at most as often as pushes were rejected.
\<close>

theorem tsq_no_lost_wakeup:
  assumes "tsq_reach sz r"
  shows "nones (r_popped r) \<le> r_rejected r \<and>
    int (tsq_numElements (r_queue r)) \<le> sem_count (q_sem (r_queue r)) + int (r_inside r)"
  using tsq_inv_reach [OF assms] tsq_nones_reach [OF assms]
  by (simp add: tsq_inv_def tsq_numElements_def)

theorem tsq_no_lost_wakeup_witness:
  "nones [Some CHR ''a''] \<le> 1 \<and> (0::int) \<le> 1"
  using tsq_no_lost_wakeup [OF tsq_reach_example] by (simp add: tsq_numElements_def)

text \<open>
  A push that the full queue rejects still releases the semaphore, so after the elements are
  popped one more pop returns a default element at once instead of blocking on the empty queue.
\<close>

theorem tsq_pop_after_rejected_push:
  "\<exists>q0 q1 q2 q3 q4. ThreadSafeQueue_new 1 = Some q0 \<and> tsq_push CHR ''a'' q0 = (True, q1) \<and>
     tsq_push CHR ''b'' q1 = (False, q2) \<and> tsq_pop q2 = Some (Some CHR ''a'', q3) \<and>
     tsq_numElements q3 = 0 \<and> tsq_pop q3 = Some (None, q4) \<and> tsq_pop q4 = None"
  by (simp add: ThreadSafeQueue_new_def OrkSemaphore_new_def tsq_pop_def tsq_numElements_def
      tsq_defs)

end
