(* ===== verification/OrkSerial.thy ===== *)
theory OrkSerial
  imports OrkPrelude "HOL-Library.Char_ord" "HOL-Library.List_Lexorder"
begin

text \<open>
  The text serialisers of the command and message protocol (orkbasecxx/serializers):
  \<open>Serializer.cpp\<close> (typed values over \<open>AddString\<close>/\<open>GetString\<close>), \<open>SingleLineSerializer.cpp\<close>
  (\<open>key=value \<close> lines) and \<open>UrlSerializer.cpp\<close> (\<open>key=value&\<close> queries). Both concrete serialisers
  parse with the same four-state machine and differ in the separator and in the escaping of values;
  the machine is \<open>kv_loop\<close> with these as parameters and the locale \<open>kv_format\<close> is the contract an
  escaping has to meet for a round trip.

  A thrown exception is \<open>None\<close> or \<open>Inl\<close> its kind. Floating-point and date values (\<open>printf\<close> of a
  double, the wall clock) are not modelled.
\<close>

section \<open>Escaping\<close>

text \<open>The two-character escapes: \<open>dec\<close> gives the text of a code letter, nothing for an unknown one.\<close>

fun unescape_with :: "(char \<Rightarrow> string) \<Rightarrow> string \<Rightarrow> string" where
  "unescape_with dec [] = []"
| "unescape_with dec (c # cs) =
     (if c = CHR ''%'' then (case cs of [] \<Rightarrow> [] | d # ds \<Rightarrow> dec d @ unescape_with dec ds)
      else c # unescape_with dec cs)"

definition EscapeCsv :: "string \<Rightarrow> string" where
  "EscapeCsv s = concat (map (\<lambda>c. if c = CHR '','' then ''%c''
                                   else if c = CHR ''%'' then ''%p'' else [c]) s)"

definition UnEscapeCsv :: "string \<Rightarrow> string" where
  "UnEscapeCsv s = unescape_with (\<lambda>d. if d = CHR ''c'' then '','' else if d = CHR ''p'' then ''%'' else []) s"

definition EscapePair :: "string \<Rightarrow> string" where
  "EscapePair s = concat (map (\<lambda>c. if c = CHR '':'' then ''%k''
                                    else if c = CHR ''%'' then ''%p'' else [c]) s)"

definition UnEscapePair :: "string \<Rightarrow> string" where
  "UnEscapePair s = unescape_with (\<lambda>d. if d = CHR ''k'' then '':'' else if d = CHR ''p'' then ''%'' else []) s"

definition EscapeSingleLine :: "string \<Rightarrow> string" where
  "EscapeSingleLine s = concat (map (\<lambda>c. if c = CHR '' '' then ''%s''
      else if c = CHR ''%'' then ''%p'' else if c = CHR ''='' then ''%e'' else [c]) s)"

definition UnEscapeSingleLine :: "string \<Rightarrow> string" where
  "UnEscapeSingleLine s = unescape_with (\<lambda>d. if d = CHR ''s'' then '' ''
      else if d = CHR ''p'' then ''%'' else if d = CHR ''e'' then ''='' else []) s"

lemma unescape_with_concat:
  assumes "\<And>c. (enc c = [c] \<and> c \<noteq> CHR ''%'') \<or> (\<exists>d. enc c = [CHR ''%'', d] \<and> dec d = [c])"
  shows "unescape_with dec (concat (map enc s)) = s"
proof (induction s)
  case (Cons c s)
  from assms [of c] Cons.IH show ?case by auto
qed simp

lemma UnEscapeCsv_EscapeCsv [simp]: "UnEscapeCsv (EscapeCsv s) = s"
  unfolding UnEscapeCsv_def EscapeCsv_def by (rule unescape_with_concat) auto

lemma UnEscapePair_EscapePair [simp]: "UnEscapePair (EscapePair s) = s"
  unfolding UnEscapePair_def EscapePair_def by (rule unescape_with_concat) auto

lemma UnEscapeSingleLine_EscapeSingleLine [simp]: "UnEscapeSingleLine (EscapeSingleLine s) = s"
  unfolding UnEscapeSingleLine_def EscapeSingleLine_def by (rule unescape_with_concat) auto

lemma EscapeCsv_simps [simp]:
  "EscapeCsv [] = []"
  "EscapeCsv (a # s) = (if a = CHR '','' then ''%c'' else if a = CHR ''%'' then ''%p'' else [a]) @ EscapeCsv s"
  "EscapeCsv (s @ t) = EscapeCsv s @ EscapeCsv t"
  by (simp_all add: EscapeCsv_def)

lemma EscapePair_simps [simp]:
  "EscapePair [] = []"
  "EscapePair (a # s) = (if a = CHR '':'' then ''%k'' else if a = CHR ''%'' then ''%p'' else [a]) @ EscapePair s"
  "EscapePair (s @ t) = EscapePair s @ EscapePair t"
  by (simp_all add: EscapePair_def)

lemma EscapeSingleLine_simps [simp]:
  "EscapeSingleLine [] = []"
  "EscapeSingleLine (a # s) = (if a = CHR '' '' then ''%s'' else if a = CHR ''%'' then ''%p''
      else if a = CHR ''='' then ''%e'' else [a]) @ EscapeSingleLine s"
  "EscapeSingleLine (s @ t) = EscapeSingleLine s @ EscapeSingleLine t"
  by (simp_all add: EscapeSingleLine_def)

lemma EscapeCsv_no_comma: "CHR '','' \<notin> set (EscapeCsv s)"
  by (induction s) auto

lemma EscapePair_no_colon: "CHR '':'' \<notin> set (EscapePair s)"
  by (induction s) auto

lemma EscapeSingleLine_clean:
  "CHR '' '' \<notin> set (EscapeSingleLine s)" "CHR ''='' \<notin> set (EscapeSingleLine s)"
  by (induction s) auto

lemma EscapeCsv_empty [simp]: "EscapeCsv s = [] \<longleftrightarrow> s = []"
  by (cases s) auto

subsection \<open>URL escapes\<close>

definition url_ok_chars :: string where
  "url_ok_chars = ''-.0123456789@ABCDEFGHIJKLMNOPQRSTUVWXYZ_abcdefghijklmnopqrstuvwxyz''"

definition hex_digits :: string where
  "hex_digits = ''0123456789ABCDEF''"

text \<open>\<open>strchr(url_ok_chars, c)\<close> also finds the terminating NUL.\<close>

definition url_ok :: "char \<Rightarrow> bool" where
  "url_ok c \<longleftrightarrow> c \<in> set url_ok_chars \<or> c = NUL"

definition hex_val :: "char \<Rightarrow> nat option" where
  "hex_val c =
     (let n = chr_code c
      in if 48 \<le> n \<and> n \<le> 57 then Some (n - 48)
         else if 65 \<le> n \<and> n \<le> 70 then Some (n - 55)
         else if 97 \<le> n \<and> n \<le> 102 then Some (n - 87) else None)"

fun read_hex :: "nat \<Rightarrow> string \<Rightarrow> nat" where
  "read_hex acc [] = acc"
| "read_hex acc (c # cs) = (case hex_val c of None \<Rightarrow> acc | Some d \<Rightarrow> read_hex (acc * 16 + d) cs)"

text \<open>\<open>strtol(s, NULL, 16)\<close>: white space, a sign, an optional \<open>0x\<close> before a hexadecimal digit.\<close>

definition strtol16 :: "string \<Rightarrow> int" where
  "strtol16 s =
     (let t = dropWhile is_space (c_str s);
          neg = (t \<noteq> [] \<and> hd t = CHR ''-'');
          u = (if t \<noteq> [] \<and> (hd t = CHR ''-'' \<or> hd t = CHR ''+'') then tl t else t);
          w = (case u of a # b # h # _ \<Rightarrow>
                 (if a = CHR ''0'' \<and> (b = CHR ''x'' \<or> b = CHR ''X'') \<and> hex_val h \<noteq> None
                  then drop 2 u else u)
               | _ \<Rightarrow> u);
          n = int (read_hex 0 w)
      in clamp_long (if neg then - n else n))"

definition EscapeUrl :: "string \<Rightarrow> string" where
  "EscapeUrl s = concat (map (\<lambda>c. if c = CHR '' '' then ''+''
      else if url_ok c then [c]
      else [CHR ''%'', hex_digits ! (chr_code c div 16), hex_digits ! (chr_code c mod 16)]) s)"

fun UnEscapeUrl :: "string \<Rightarrow> string option" where
  "UnEscapeUrl [] = Some []"
| "UnEscapeUrl (c # cs) =
     (if c = CHR ''+'' then map_option ((#) CHR '' '') (UnEscapeUrl cs)
      else if c = CHR ''%'' then
        (case cs of
           [] \<Rightarrow> None
         | d # ds \<Rightarrow>
             if d = CHR ''%'' then map_option ((#) CHR ''%'') (UnEscapeUrl ds)
             else (case ds of
                     [] \<Rightarrow> None
                   | e # es \<Rightarrow> map_option ((#) (char_of (nat (strtol16 [d, e] mod 256)))) (UnEscapeUrl es)))
      else map_option ((#) c) (UnEscapeUrl cs))"

lemma EscapeUrl_simps [simp]:
  "EscapeUrl [] = []"
  "EscapeUrl (c # s) = (if c = CHR '' '' then ''+'' else if url_ok c then [c]
      else [CHR ''%'', hex_digits ! (chr_code c div 16), hex_digits ! (chr_code c mod 16)]) @ EscapeUrl s"
  by (simp_all add: EscapeUrl_def)

lemma less_16_cases: "(n::nat) < 16 \<longleftrightarrow> n \<in> {0,1,2,3,4,5,6,7,8,9,10,11,12,13,14,15}"
  by (simp only: insert_iff empty_iff) presburger

lemma chr_nibbles: "chr_code c div 16 < 16" "chr_code c mod 16 < 16"
  using nat_of_char_less_256 [of c] by (simp_all add: less_mult_imp_div_less)

lemma hex_digit_props:
  assumes "n < 16"
  shows "hex_val (hex_digits ! n) = Some n \<and> is_alnum (hex_digits ! n) \<and>
    hex_digits ! n \<notin> set ''+-%xX'' \<and> \<not> is_space (hex_digits ! n) \<and> hex_digits ! n \<noteq> NUL"
  using assms unfolding less_16_cases
  by (elim insertE emptyE) (simp_all add: hex_digits_def hex_val_def char_defs)

lemma strtol16_hex_pair:
  assumes "a < 16" "b < 16"
  shows "strtol16 [hex_digits ! a, hex_digits ! b] = int (a * 16 + b)"
  using hex_digit_props [OF assms(1)] hex_digit_props [OF assms(2)] assms
  by (simp add: strtol16_def c_str_def clamp_long_def)

lemma url_ok_clean:
  "\<not> url_ok CHR ''%''" "\<not> url_ok CHR ''+''" "\<not> url_ok CHR ''&''" "\<not> url_ok CHR ''=''"
  by (simp_all add: url_ok_def url_ok_chars_def)

lemma UnEscapeUrl_EscapeUrl: "UnEscapeUrl (EscapeUrl s) = Some s"
proof (induction s)
  case (Cons c s)
  note lt = chr_nibbles [of c]
  have "chr_code c div 16 * 16 + chr_code c mod 16 = chr_code c" by simp
  with hex_digit_props [OF lt(1)] strtol16_hex_pair [OF lt] Cons.IH show ?case
    by (auto simp: url_ok_clean)
qed simp

lemma alnum_not_sep: "is_alnum c \<Longrightarrow> c \<noteq> CHR ''&'' \<and> c \<noteq> CHR ''=''"
  by (auto simp: char_defs)

lemma EscapeUrl_clean: "CHR ''&'' \<notin> set (EscapeUrl s)" "CHR ''='' \<notin> set (EscapeUrl s)"
proof -
  have "c \<noteq> CHR ''&'' \<and> c \<noteq> CHR ''=''" if "c \<in> set (EscapeUrl s)" for c
    using that
  proof (induction s)
    case (Cons a s)
    from chr_nibbles [of a] hex_digit_props alnum_not_sep Cons url_ok_clean show ?case
      by (auto split: if_splits)
  qed simp
  then show "CHR ''&'' \<notin> set (EscapeUrl s)" "CHR ''='' \<notin> set (EscapeUrl s)" by blast+
qed

lemma EscapeUrl_no_NUL: "NUL \<notin> set s \<Longrightarrow> NUL \<notin> set (EscapeUrl s)"
proof (induction s)
  case (Cons a s)
  from hex_digit_props [OF chr_nibbles(1) [of a]] hex_digit_props [OF chr_nibbles(2) [of a]] Cons
  show ?case by auto
qed simp

section \<open>The key-value parser\<close>

datatype kv_state = KvStart | KvKey | KvValue | KvError

text \<open>
  One character of the \<open>switch (state)\<close> of both \<open>DeSerialize\<close> functions: the new state, key and
  value. The separator is \<open>&\<close> for URLs and a space for single lines.
\<close>

definition kv_trans :: "char \<Rightarrow> kv_state \<Rightarrow> string \<Rightarrow> string \<Rightarrow> char \<Rightarrow> kv_state \<times> string \<times> string" where
  "kv_trans sep st key val c =
     (case st of
        KvStart \<Rightarrow> if c = sep then (KvStart, key, val)
                   else if is_alnum c then (KvKey, [c], val) else (KvError, key, val)
      | KvKey \<Rightarrow> if is_alnum c then (KvKey, key @ [c], val)
                 else if c = CHR ''='' then (KvValue, key, []) else (KvError, key, val)
      | KvValue \<Rightarrow> if c = CHR ''='' then (KvError, key, val)
                   else if c = sep then (KvStart, key, val) else (KvValue, key, val @ [c])
      | KvError \<Rightarrow> (KvError, key, val))"

text \<open>\<open>m_map.insert\<close> of a \<open>std::map\<close> keeps the entry that is already there.\<close>

definition map_insert :: "'k \<Rightarrow> 'v \<Rightarrow> ('k \<rightharpoonup> 'v) \<Rightarrow> ('k \<rightharpoonup> 'v)" where
  "map_insert k v m = (if m k = None then m(k \<mapsto> v) else m)"

text \<open>
  The loop. A pair is inserted when the machine is back in its start state or at the last character
  (whatever the state there), if there is a key. \<open>unesc\<close> may throw.
\<close>

fun kv_loop :: "char \<Rightarrow> (string \<Rightarrow> string option) \<Rightarrow> kv_state \<Rightarrow> string \<Rightarrow> string \<Rightarrow>
    (string \<rightharpoonup> string) \<Rightarrow> string \<Rightarrow> (string \<rightharpoonup> string) option" where
  "kv_loop sep unesc st key val m [] = Some m"
| "kv_loop sep unesc st key val m (c # cs) =
     (if st = KvError then Some m
      else (case kv_trans sep st key val c of
              (st', key', val') \<Rightarrow>
                if (st' = KvStart \<or> cs = []) \<and> key' \<noteq> [] then
                  (case unesc val' of
                     None \<Rightarrow> None
                   | Some u \<Rightarrow> kv_loop sep unesc st' [] [] (map_insert key' u m) cs)
                else kv_loop sep unesc st' key' val' m cs))"

definition UrlSerializer_parse :: "(string \<rightharpoonup> string) \<Rightarrow> string \<Rightarrow> (string \<rightharpoonup> string) option" where
  "UrlSerializer_parse m input = kv_loop CHR ''&'' UnEscapeUrl KvStart [] [] m (trim input)"

definition SingleLineSerializer_parse :: "(string \<rightharpoonup> string) \<Rightarrow> string \<Rightarrow> (string \<rightharpoonup> string) option" where
  "SingleLineSerializer_parse m input =
     kv_loop CHR '' '' (\<lambda>s. Some (UnEscapeSingleLine s)) KvStart [] [] m (trim input)"

text \<open>The two \<open>AddString\<close>: the text appended to \<open>m_output\<close>. The URL one goes through a C string.\<close>

definition UrlSerializer_AddString :: "string \<Rightarrow> string \<Rightarrow> string" where
  "UrlSerializer_AddString key value = key @ ''='' @ c_str (EscapeUrl value) @ ''&''"

definition SingleLineSerializer_AddString :: "string \<Rightarrow> string \<Rightarrow> string" where
  "SingleLineSerializer_AddString key value = key @ ''='' @ EscapeSingleLine value @ '' ''"

text \<open>\<open>FindClass\<close>: the lower-cased value of the first pair.\<close>

definition FindClass :: "char \<Rightarrow> string \<Rightarrow> string" where
  "FindClass sep input =
     lower_str (case find_char CHR ''='' input of
        None \<Rightarrow> []
      | Some e \<Rightarrow> (case find_char sep input of
            Some a \<Rightarrow> if a > e then take (a - e - 1) (drop (e + 1) input) else drop (e + 1) input
          | None \<Rightarrow> drop (e + 1) input))"

definition UrlSerializer_FindClass :: "string \<Rightarrow> string" where
  "UrlSerializer_FindClass input = FindClass CHR ''&'' input"

definition SingleLineSerializer_FindClass :: "string \<Rightarrow> string" where
  "SingleLineSerializer_FindClass input = FindClass CHR '' '' input"

definition good_key :: "string \<Rightarrow> bool" where
  "good_key k \<longleftrightarrow> k \<noteq> [] \<and> list_all is_alnum k"

text \<open>
  The contract of a format: on good values the escape is inverted and produces neither the
  separator nor an equals sign.
\<close>

locale kv_format =
  fixes sep :: char and esc :: "string \<Rightarrow> string" and unesc :: "string \<Rightarrow> string option"
    and good :: "string \<Rightarrow> bool"
  assumes unesc_esc: "good v \<Longrightarrow> unesc (esc v) = Some v"
    and esc_no_sep: "good v \<Longrightarrow> sep \<notin> set (esc v)"
    and esc_no_eq: "good v \<Longrightarrow> CHR ''='' \<notin> set (esc v)"
    and sep_not_alnum: "\<not> is_alnum sep" and sep_not_eq: "sep \<noteq> CHR ''=''"
begin

definition pair_text :: "string \<times> string \<Rightarrow> string" where
  "pair_text kv = fst kv @ CHR ''='' # esc (snd kv)"

definition lines_text :: "(string \<times> string) list \<Rightarrow> string" where
  "lines_text kvs = concat (map (\<lambda>kv. pair_text kv @ [sep]) kvs)"

lemma hd_lines:
  assumes "kvs \<noteq> []" "good_key (fst (hd kvs))"
  shows "is_alnum (hd (lines_text kvs @ rest))"
  using assms by (cases kvs; cases "fst (hd kvs)") (auto simp: lines_text_def pair_text_def good_key_def)

lemma hd_pair: "good_key k \<Longrightarrow> is_alnum (hd (pair_text (k, v) @ rest))"
  by (cases k) (auto simp: pair_text_def good_key_def)

lemma scan_key:
  "list_all is_alnum ks \<Longrightarrow> rest \<noteq> [] \<Longrightarrow>
    kv_loop sep unesc KvKey k v m (ks @ rest) = kv_loop sep unesc KvKey (k @ ks) v m rest"
  by (induction ks arbitrary: k) (auto simp: kv_trans_def)

lemma scan_value:
  "sep \<notin> set e \<Longrightarrow> CHR ''='' \<notin> set e \<Longrightarrow> rest \<noteq> [] \<Longrightarrow>
    kv_loop sep unesc KvValue k v m (e @ rest) = kv_loop sep unesc KvValue k (v @ e) m rest"
  by (induction e arbitrary: v) (auto simp: kv_trans_def)

lemma scan_last_value:
  "sep \<notin> set e \<Longrightarrow> CHR ''='' \<notin> set e \<Longrightarrow> e \<noteq> [] \<Longrightarrow> k \<noteq> [] \<Longrightarrow> unesc (v @ e) = Some u \<Longrightarrow>
    kv_loop sep unesc KvValue k v m e = Some (map_insert k u m)"
  by (induction e arbitrary: v) (auto simp: kv_trans_def)

lemma scan_pair:
  assumes "good_key k" "good v"
  shows "kv_loop sep unesc KvStart [] [] m (pair_text (k, v) @ sep # rest)
    = kv_loop sep unesc KvStart [] [] (map_insert k v m) rest"
proof -
  from assms(1) obtain a ks where k: "k = a # ks" "is_alnum a" "list_all is_alnum ks"
    by (cases k) (auto simp: good_key_def)
  have "a \<noteq> sep" using k sep_not_alnum by auto
  with k assms show ?thesis
    using sep_not_eq
    by (simp add: pair_text_def kv_trans_def scan_key scan_value esc_no_sep esc_no_eq unesc_esc)
qed

lemma scan_last_pair:
  assumes "good_key k" "good v"
  shows "kv_loop sep unesc KvStart [] [] m (pair_text (k, v)) = Some (map_insert k v m)"
proof -
  from assms(1) obtain a ks where k: "k = a # ks" "is_alnum a" "list_all is_alnum ks"
    by (cases k) (auto simp: good_key_def)
  have "a \<noteq> sep" using k sep_not_alnum by auto
  with k have "kv_loop sep unesc KvStart [] [] m (pair_text (k, v))
      = kv_loop sep unesc KvKey [a] [] m (ks @ CHR ''='' # esc v)"
    by (simp add: pair_text_def kv_trans_def)
  also have "\<dots> = kv_loop sep unesc KvKey k [] m (CHR ''='' # esc v)"
    using k(1,3) scan_key [of ks "CHR ''='' # esc v" "[a]" "[]" m] by (simp del: kv_loop.simps)
  also have "\<dots> = Some (map_insert k v m)"
    using k assms unesc_esc [OF assms(2)]
    by (cases "esc v = []")
      (simp_all add: kv_trans_def scan_last_value esc_no_sep esc_no_eq)
  finally show ?thesis .
qed

lemma map_insert_all:
  "fold (\<lambda>(k, v). map_insert k v) kvs m = map_of kvs ++ m" for m :: "string \<rightharpoonup> string"
proof (induction kvs arbitrary: m)
  case (Cons kv kvs)
  then show ?case
    by (cases kv) (auto simp: map_insert_def map_add_def fun_eq_iff split: option.splits)
qed simp

lemma scan_lines:
  "(\<And>k v. (k, v) \<in> set kvs \<Longrightarrow> good_key k \<and> good v) \<Longrightarrow>
    kv_loop sep unesc KvStart [] [] m (lines_text kvs @ rest)
      = kv_loop sep unesc KvStart [] [] (fold (\<lambda>(k, v). map_insert k v) kvs m) rest"
proof (induction kvs arbitrary: m)
  case (Cons kv kvs)
  obtain k v where kv: "kv = (k, v)" by force
  with Cons.prems have "good_key k" "good v" by auto
  moreover have "\<And>k v. (k, v) \<in> set kvs \<Longrightarrow> good_key k \<and> good v"
    using Cons.prems by auto
  ultimately show ?case
    using Cons.IH kv by (simp add: lines_text_def scan_pair)
qed (simp add: lines_text_def)

lemma parse_lines:
  "(\<And>k v. (k, v) \<in> set kvs \<Longrightarrow> good_key k \<and> good v) \<Longrightarrow>
    kv_loop sep unesc KvStart [] [] Map.empty (lines_text kvs) = Some (map_of kvs)"
  using scan_lines [of kvs Map.empty "[]"] by (simp add: map_insert_all)

lemma parse_lines_last:
  assumes "\<And>k v. (k, v) \<in> set (kvs @ [(k', v')]) \<Longrightarrow> good_key k \<and> good v"
  shows "kv_loop sep unesc KvStart [] [] Map.empty (lines_text kvs @ pair_text (k', v'))
    = Some (map_of (kvs @ [(k', v')]))"
proof -
  have "map_insert k' v' (map_of kvs) = map_of (kvs @ [(k', v')])"
    by (auto simp: map_insert_def map_add_def fun_eq_iff split: option.splits)
  moreover have "good_key k'" "good v'" using assms by auto
  moreover have "\<And>k v. (k, v) \<in> set kvs \<Longrightarrow> good_key k \<and> good v"
    using assms by auto
  note scan_lines [OF this, where m = Map.empty and rest = "pair_text (k', v')"]
  ultimately show ?thesis by (simp add: map_insert_all scan_last_pair)
qed

end

interpretation urlf: kv_format "CHR ''&''" EscapeUrl UnEscapeUrl "\<lambda>v. NUL \<notin> set v"
  by unfold_locales (simp_all add: UnEscapeUrl_EscapeUrl EscapeUrl_clean)

interpretation linef: kv_format "CHR '' ''" EscapeSingleLine "\<lambda>s. Some (UnEscapeSingleLine s)"
  "\<lambda>v. True"
  by unfold_locales (simp_all add: EscapeSingleLine_clean)

end
