(* ===== verification/OrkFields.thy ===== *)
theory OrkFields
  imports OrkSerial
begin

text \<open>
  The typed members of serialisable objects (orkbasecxx/serializers/Serializer.cpp): the
  \<open>AddX\<close>/\<open>GetX\<close> conversions over \<open>AddString\<close>/\<open>GetString\<close>, the \<open>XValue\<close> calls that dispatch on
  \<open>m_deSerialize\<close>, and an object as the list of \<open>XValue\<close> calls its \<open>Define\<close> makes. The virtual
  \<open>AddString\<close> is an argument \<open>add\<close> (the text appended to \<open>m_output\<close>), and so is the object's
  virtual \<open>Validate\<close>. A \<open>std::map\<close> member is a list of pairs in key order.
\<close>

datatype ser_error = MissingParameter string | InvalidBool string | InvalidInteger string
  | MissingColon | MissingConversion string | NotImplementedYet | NestedObject | InvalidObject

record serializer =
  ser_deSerialize :: bool
  ser_map :: "string \<rightharpoonup> string"
  ser_output :: string

definition KeyValueSerializer_new :: serializer where
  "KeyValueSerializer_new = \<lparr>ser_deSerialize = False, ser_map = Map.empty, ser_output = []\<rparr>"

section \<open>Adding values\<close>

type_synonym adder = "string \<Rightarrow> string \<Rightarrow> string"

definition AddString :: "adder \<Rightarrow> string \<Rightarrow> string \<Rightarrow> serializer \<Rightarrow> serializer" where
  "AddString add key v s = s\<lparr>ser_output := ser_output s @ add key v\<rparr>"

definition AddInt :: "adder \<Rightarrow> string \<Rightarrow> int \<Rightarrow> serializer \<Rightarrow> serializer" where
  "AddInt add key v s = AddString add key (IntToString v) s"

definition AddBool :: "adder \<Rightarrow> string \<Rightarrow> bool \<Rightarrow> serializer \<Rightarrow> serializer" where
  "AddBool add key v s = (if v then AddString add key ''true'' s else AddString add key ''false'' s)"

definition AddEnum ::
    "adder \<Rightarrow> string \<Rightarrow> int \<Rightarrow> (int \<Rightarrow> string) option \<Rightarrow> serializer \<Rightarrow> ser_error + serializer" where
  "AddEnum add key v fn s =
     (case fn of None \<Rightarrow> Inl (MissingConversion key) | Some f \<Rightarrow> Inr (AddString add key (f v) s))"

fun csv_text :: "string list \<Rightarrow> string" where
  "csv_text [] = []"
| "csv_text [x] = EscapeCsv x"
| "csv_text (x # y # ys) = EscapeCsv x @ '','' @ csv_text (y # ys)"

definition AddCsv :: "adder \<Rightarrow> string \<Rightarrow> string list \<Rightarrow> serializer \<Rightarrow> serializer" where
  "AddCsv add key v s = AddString add key (csv_text v) s"

definition csv_pair :: "string \<times> string \<Rightarrow> string" where
  "csv_pair p = EscapePair (fst p) @ '':'' @ EscapePair (snd p)"

definition AddCsvMap :: "adder \<Rightarrow> string \<Rightarrow> (string \<times> string) list \<Rightarrow> serializer \<Rightarrow> serializer" where
  "AddCsvMap add key v s = AddString add key (csv_text (map csv_pair v)) s"

section \<open>Getting values\<close>

definition GetString ::
    "serializer \<Rightarrow> string \<Rightarrow> string \<Rightarrow> bool \<Rightarrow> ser_error + string" where
  "GetString s key v required =
     (case ser_map s key of
        Some t \<Rightarrow> Inr t
      | None \<Rightarrow> if required then Inl (MissingParameter key) else Inr v)"

definition GetInt :: "serializer \<Rightarrow> string \<Rightarrow> int \<Rightarrow> bool \<Rightarrow> ser_error + int" where
  "GetInt s key v required =
     (case GetString s key [] required of
        Inl e \<Rightarrow> Inl e
      | Inr t \<Rightarrow> if t = [] then Inr v
                 else (case StringToInt t of None \<Rightarrow> Inl (InvalidInteger t) | Some i \<Rightarrow> Inr i))"

definition GetBool :: "serializer \<Rightarrow> string \<Rightarrow> bool \<Rightarrow> bool \<Rightarrow> ser_error + bool" where
  "GetBool s key v required =
     (case GetString s key [] required of
        Inl e \<Rightarrow> Inl e
      | Inr t0 \<Rightarrow>
          let t = lower_str t0
          in if t = ''true'' \<or> t = ''yes'' \<or> t = ''1'' then Inr True
             else if t = ''false'' \<or> t = ''no'' \<or> t = ''0'' then Inr False
             else if t = [] then Inr v else Inl (InvalidBool key))"

definition GetEnum ::
    "serializer \<Rightarrow> string \<Rightarrow> int \<Rightarrow> (string \<Rightarrow> int) option \<Rightarrow> bool \<Rightarrow> ser_error + int" where
  "GetEnum s key v fn required =
     (case fn of
        None \<Rightarrow> Inl (MissingConversion key)
      | Some f \<Rightarrow> (case GetString s key [] required of
            Inl e \<Rightarrow> Inl e | Inr t \<Rightarrow> if t = [] then Inr v else Inr (f t)))"

text \<open>The scan of \<open>GetCsv\<close>: the default value is erased when the first element is found.\<close>

fun csv_loop :: "bool \<Rightarrow> string \<Rightarrow> string list \<Rightarrow> string \<Rightarrow> string list" where
  "csv_loop first el v [] =
     (if el \<noteq> [] then (if first then [] else v) @ [UnEscapeCsv (trim el)] else v)"
| "csv_loop first el v (c # cs) =
     (if c = CHR '','' then csv_loop False [] ((if first then [] else v) @ [UnEscapeCsv (trim el)]) cs
      else csv_loop first (el @ [c]) v cs)"

definition GetCsv :: "serializer \<Rightarrow> string \<Rightarrow> string list \<Rightarrow> bool \<Rightarrow> ser_error + string list" where
  "GetCsv s key v required =
     (case GetString s key [] required of
        Inl e \<Rightarrow> Inl e | Inr t \<Rightarrow> Inr (csv_loop True [] v t))"

text \<open>\<open>std::map::insert\<close> into pairs kept in key order; an entry that is there stays.\<close>

fun smap_insert :: "('k::linorder) \<Rightarrow> 'v \<Rightarrow> ('k \<times> 'v) list \<Rightarrow> ('k \<times> 'v) list" where
  "smap_insert k v [] = [(k, v)]"
| "smap_insert k v ((k', v') # r) =
     (if k < k' then (k, v) # (k', v') # r
      else if k = k' then (k', v') # r else (k', v') # smap_insert k v r)"

fun csvmap_loop :: "(string \<times> string) list \<Rightarrow> string list \<Rightarrow> ser_error + (string \<times> string) list" where
  "csvmap_loop v [] = Inr v"
| "csvmap_loop v (p # ps) =
     (case find_char CHR '':'' p of
        None \<Rightarrow> Inl MissingColon
      | Some i \<Rightarrow>
          csvmap_loop (smap_insert (UnEscapePair (take i p)) (UnEscapePair (drop (i + 1) p)) v) ps)"

definition GetCsvMap ::
    "serializer \<Rightarrow> string \<Rightarrow> (string \<times> string) list \<Rightarrow> bool \<Rightarrow> ser_error + (string \<times> string) list" where
  "GetCsvMap s key v required =
     (case GetCsv s key [] required of Inl e \<Rightarrow> Inl e | Inr l \<Rightarrow> csvmap_loop v l)"

definition GetDate :: "serializer \<Rightarrow> string \<Rightarrow> int \<Rightarrow> bool \<Rightarrow> ser_error + int" where
  "GetDate s key v required = Inl NotImplementedYet"

section \<open>The XValue calls and objects\<close>

definition IntValue ::
    "adder \<Rightarrow> string \<Rightarrow> int \<Rightarrow> bool \<Rightarrow> serializer \<Rightarrow> ser_error + (int \<times> serializer)" where
  "IntValue add key v required s =
     (if ser_deSerialize s then map_sum id (\<lambda>x. (x, s)) (GetInt s key v required)
      else Inr (v, AddInt add key v s))"

definition BoolValue ::
    "adder \<Rightarrow> string \<Rightarrow> bool \<Rightarrow> bool \<Rightarrow> serializer \<Rightarrow> ser_error + (bool \<times> serializer)" where
  "BoolValue add key v required s =
     (if ser_deSerialize s then map_sum id (\<lambda>x. (x, s)) (GetBool s key v required)
      else Inr (v, AddBool add key v s))"

definition StringValue ::
    "adder \<Rightarrow> string \<Rightarrow> string \<Rightarrow> bool \<Rightarrow> serializer \<Rightarrow> ser_error + (string \<times> serializer)" where
  "StringValue add key v required s =
     (if ser_deSerialize s then map_sum id (\<lambda>x. (x, s)) (GetString s key v required)
      else Inr (v, AddString add key v s))"

definition EnumValue ::
    "adder \<Rightarrow> string \<Rightarrow> int \<Rightarrow> (string \<Rightarrow> int) option \<Rightarrow> (int \<Rightarrow> string) option \<Rightarrow> bool \<Rightarrow> serializer
      \<Rightarrow> ser_error + (int \<times> serializer)" where
  "EnumValue add key v toE toS required s =
     (if ser_deSerialize s then map_sum id (\<lambda>x. (x, s)) (GetEnum s key v toE required)
      else map_sum id (\<lambda>s'. (v, s')) (AddEnum add key v toS s))"

definition CsvValue ::
    "adder \<Rightarrow> string \<Rightarrow> string list \<Rightarrow> bool \<Rightarrow> serializer \<Rightarrow> ser_error + (string list \<times> serializer)" where
  "CsvValue add key v required s =
     (if ser_deSerialize s then map_sum id (\<lambda>x. (x, s)) (GetCsv s key v required)
      else Inr (v, AddCsv add key v s))"

definition CsvMapValue ::
    "adder \<Rightarrow> string \<Rightarrow> (string \<times> string) list \<Rightarrow> bool \<Rightarrow> serializer
      \<Rightarrow> ser_error + ((string \<times> string) list \<times> serializer)" where
  "CsvMapValue add key v required s =
     (if ser_deSerialize s then map_sum id (\<lambda>x. (x, s)) (GetCsvMap s key v required)
      else Inr (v, AddCsvMap add key v s))"

text \<open>\<open>ObjectValue\<close> and \<open>ListValue\<close> of the key-value serialisers always throw.\<close>

definition KeyValueSerializer_ObjectValue :: "string \<Rightarrow> ser_error + unit" where
  "KeyValueSerializer_ObjectValue key = Inl NestedObject"

definition KeyValueSerializer_ListValue :: "string \<Rightarrow> ser_error + unit" where
  "KeyValueSerializer_ListValue key = Inl NestedObject"

text \<open>A member with its current value; an object's \<open>Define\<close> is the list of its members.\<close>

datatype member_value = VInt int | VBool bool | VString string
  | VEnum "(string \<Rightarrow> int) option" "(int \<Rightarrow> string) option" int
  | VCsv "string list" | VCsvMap "(string \<times> string) list"

type_synonym member = "string \<times> bool \<times> member_value"

fun define_member :: "adder \<Rightarrow> member \<Rightarrow> serializer \<Rightarrow> ser_error + (member_value \<times> serializer)" where
  "define_member add (k, r, VInt v) s = map_sum id (map_prod VInt id) (IntValue add k v r s)"
| "define_member add (k, r, VBool v) s = map_sum id (map_prod VBool id) (BoolValue add k v r s)"
| "define_member add (k, r, VString v) s = map_sum id (map_prod VString id) (StringValue add k v r s)"
| "define_member add (k, r, VEnum f g v) s =
     map_sum id (map_prod (VEnum f g) id) (EnumValue add k v f g r s)"
| "define_member add (k, r, VCsv v) s = map_sum id (map_prod VCsv id) (CsvValue add k v r s)"
| "define_member add (k, r, VCsvMap v) s = map_sum id (map_prod VCsvMap id) (CsvMapValue add k v r s)"

fun define_members :: "adder \<Rightarrow> member list \<Rightarrow> serializer \<Rightarrow> ser_error + (member list \<times> serializer)" where
  "define_members add [] s = Inr ([], s)"
| "define_members add ((k, r, v) # ms) s =
     (case define_member add (k, r, v) s of
        Inl e \<Rightarrow> Inl e
      | Inr (v', s') \<Rightarrow> (case define_members add ms s' of
            Inl e \<Rightarrow> Inl e | Inr (ms', s'') \<Rightarrow> Inr ((k, r, v') # ms', s'')))"

text \<open>\<open>Serializer::DeSerialize\<close>: switch the mode, let the object define itself, validate it.\<close>

definition Serializer_DeSerialize ::
    "adder \<Rightarrow> (member list \<Rightarrow> bool) \<Rightarrow> member list \<Rightarrow> serializer \<Rightarrow> ser_error + (member list \<times> serializer)" where
  "Serializer_DeSerialize add valid ms s =
     (case define_members add ms (s\<lparr>ser_deSerialize := True\<rparr>) of
        Inl e \<Rightarrow> Inl e
      | Inr (ms', s') \<Rightarrow> if valid ms' then Inr (ms', s') else Inl InvalidObject)"

definition Serializer_Serialize :: "adder \<Rightarrow> member list \<Rightarrow> serializer \<Rightarrow> ser_error + string" where
  "Serializer_Serialize add ms s =
     map_sum id (\<lambda>(_, s'). ser_output s') (define_members add ms (s\<lparr>ser_deSerialize := False\<rparr>))"

definition SingleLineSerializer_Serialize :: "member list \<Rightarrow> serializer \<Rightarrow> ser_error + string" where
  "SingleLineSerializer_Serialize ms s = Serializer_Serialize SingleLineSerializer_AddString ms s"

definition UrlSerializer_Serialize :: "member list \<Rightarrow> serializer \<Rightarrow> ser_error + string" where
  "UrlSerializer_Serialize ms s = Serializer_Serialize UrlSerializer_AddString ms s"

text \<open>An exception of the unescaping leaves \<open>DeSerialize\<close> as well (\<open>InvalidObject\<close> here).\<close>

definition SingleLineSerializer_DeSerialize ::
    "(member list \<Rightarrow> bool) \<Rightarrow> string \<Rightarrow> member list \<Rightarrow> serializer \<Rightarrow> ser_error + (member list \<times> serializer)" where
  "SingleLineSerializer_DeSerialize valid input ms s =
     (case SingleLineSerializer_parse (ser_map s) input of
        None \<Rightarrow> Inl InvalidObject
      | Some m \<Rightarrow> Serializer_DeSerialize SingleLineSerializer_AddString valid ms (s\<lparr>ser_map := m\<rparr>))"

definition UrlSerializer_DeSerialize ::
    "(member list \<Rightarrow> bool) \<Rightarrow> string \<Rightarrow> member list \<Rightarrow> serializer \<Rightarrow> ser_error + (member list \<times> serializer)" where
  "UrlSerializer_DeSerialize valid input ms s =
     (case UrlSerializer_parse (ser_map s) input of
        None \<Rightarrow> Inl InvalidObject
      | Some m \<Rightarrow> Serializer_DeSerialize UrlSerializer_AddString valid ms (s\<lparr>ser_map := m\<rparr>))"

section \<open>Round trips of the single conversions\<close>

text \<open>\<open>no_edge_space\<close>: trimming the text changes nothing.\<close>

definition no_edge_space :: "string \<Rightarrow> bool" where
  "no_edge_space s \<longleftrightarrow> s = [] \<or> (\<not> is_space (hd s) \<and> \<not> is_space (last s))"

lemma not_space_lit [simp]: "\<not> is_space CHR ''c''" "\<not> is_space CHR ''p''" "\<not> is_space CHR ''s''"
    "\<not> is_space CHR ''e''" "\<not> is_space CHR ''k''"
  by (simp_all add: char_defs)

lemma last_EscapeCsv: "s \<noteq> [] \<Longrightarrow> is_space (last (EscapeCsv s)) \<Longrightarrow> is_space (last s)"
  by (cases s rule: rev_cases) (auto split: if_splits)

lemma hd_EscapeCsv: "s \<noteq> [] \<Longrightarrow> is_space (hd (EscapeCsv s)) \<Longrightarrow> is_space (hd s)"
  by (cases s) (auto split: if_splits)

lemma trim_EscapeCsv: "no_edge_space s \<Longrightarrow> trim (EscapeCsv s) = EscapeCsv s"
  by (rule trim_id) (auto simp: no_edge_space_def dest: last_EscapeCsv hd_EscapeCsv)

lemma csv_loop_plain:
  "CHR '','' \<notin> set e \<Longrightarrow> csv_loop first el v (e @ rest) = csv_loop first (el @ e) v rest"
  by (induction e arbitrary: el) auto

lemma csv_loop_text:
  assumes "xs \<noteq> []" "last xs \<noteq> []" "list_all no_edge_space xs"
  shows "csv_loop first [] v (csv_text xs) = (if first then [] else v) @ xs"
  using assms
proof (induction xs arbitrary: first v rule: csv_text.induct)
  case (2 x)
  then show ?case
    using csv_loop_plain [OF EscapeCsv_no_comma, of first "[]" v x "[]"] by (simp add: trim_EscapeCsv)
next
  case (3 x y ys)
  then show ?case
    using csv_loop_plain [OF EscapeCsv_no_comma, of first "[]" v x "'','' @ csv_text (y # ys)"]
    by (simp add: trim_EscapeCsv)
qed simp

definition csv_ok :: "string list \<Rightarrow> bool" where
  "csv_ok xs \<longleftrightarrow> xs \<noteq> [] \<and> last xs \<noteq> [] \<and> list_all no_edge_space xs"

lemma csv_loop_text_ok: "csv_ok xs \<Longrightarrow> csv_loop True [] v (csv_text xs) = xs"
  by (simp add: csv_ok_def csv_loop_text)

lemma smap_insert_last:
  "(\<And>x. x \<in> set l \<Longrightarrow> fst x < k) \<Longrightarrow> smap_insert k v l = l @ [(k, v)]"
proof (induction l)
  case (Cons a l)
  have "fst a < k" using Cons.prems by auto
  then show ?case using Cons by (cases a) auto
qed simp

lemma csvmap_loop_pairs:
  "sorted_wrt (<) (map fst (v @ ps)) \<Longrightarrow> csvmap_loop v (map csv_pair ps) = Inr (v @ ps)"
proof (induction ps arbitrary: v)
  case (Cons p ps)
  obtain k w where p: "p = (k, w)" by force
  have lt: "\<And>x. x \<in> set v \<Longrightarrow> fst x < k" using Cons.prems p by (auto simp: sorted_wrt_append)
  have "find_char CHR '':'' (csv_pair p) = Some (length (EscapePair k))"
    using find_char_notin_append [OF EscapePair_no_colon] by (simp add: csv_pair_def p)
  then show ?case
    using Cons.IH [of "v @ [(k, w)]"] Cons.prems p
    by (simp add: csv_pair_def smap_insert_last [OF lt])
qed simp

definition csvmap_ok :: "(string \<times> string) list \<Rightarrow> bool" where
  "csvmap_ok ps \<longleftrightarrow> ps \<noteq> [] \<and> sorted_wrt (<) (map fst ps) \<and>
     list_all (\<lambda>p. (fst p = [] \<or> \<not> is_space (hd (fst p))) \<and>
                   (snd p = [] \<or> \<not> is_space (last (snd p)))) ps"

lemma hd_EscapePair: "s \<noteq> [] \<Longrightarrow> is_space (hd (EscapePair s)) \<Longrightarrow> is_space (hd s)"
  by (cases s) (auto split: if_splits)

lemma last_EscapePair: "s \<noteq> [] \<Longrightarrow> is_space (last (EscapePair s)) \<Longrightarrow> is_space (last s)"
  by (cases s rule: rev_cases) (auto split: if_splits)

lemma EscapePair_empty [simp]: "EscapePair s = [] \<longleftrightarrow> s = []"
  by (cases s) auto

lemma csv_pair_ok: "csvmap_ok ps \<Longrightarrow> csv_ok (map csv_pair ps)"
  unfolding csvmap_ok_def csv_ok_def list_all_iff
  by (auto simp: csv_pair_def no_edge_space_def last_map hd_append last_append
      dest: hd_EscapePair last_EscapePair)

text \<open>Every conversion as text, and the values whose text reads back.\<close>

fun member_text :: "member_value \<Rightarrow> string" where
  "member_text (VInt i) = IntToString i"
| "member_text (VBool b) = (if b then ''true'' else ''false'')"
| "member_text (VString t) = t"
| "member_text (VEnum f g i) = (case g of None \<Rightarrow> [] | Some h \<Rightarrow> h i)"
| "member_text (VCsv xs) = csv_text xs"
| "member_text (VCsvMap ps) = csv_text (map csv_pair ps)"

fun member_ok :: "member_value \<Rightarrow> bool" where
  "member_ok (VInt i) = is_int32 i"
| "member_ok (VBool b) = True"
| "member_ok (VString t) = True"
| "member_ok (VEnum f g i) =
     (case (f, g) of (Some e, Some h) \<Rightarrow> h i \<noteq> [] \<and> e (h i) = i | _ \<Rightarrow> False)"
| "member_ok (VCsv xs) = csv_ok xs"
| "member_ok (VCsvMap ps) = csvmap_ok ps"

fun same_kind :: "member_value \<Rightarrow> member_value \<Rightarrow> bool" where
  "same_kind (VInt i) (VInt j) = True"
| "same_kind (VBool b) (VBool c) = True"
| "same_kind (VString t) (VString u) = True"
| "same_kind (VEnum f g i) (VEnum f' g' j) = (f = f' \<and> g = g')"
| "same_kind (VCsv xs) (VCsv ys) = True"
| "same_kind (VCsvMap ps) (VCsvMap qs) = (qs = [])"
| "same_kind v w = False"

lemma StringToInt_IntToString: "is_int32 i \<Longrightarrow> StringToInt (IntToString i) = Some i"
  using strtol10_IntToString [of i] IntToString_no_NUL [of i]
  by (simp add: StringToInt_def c_str_id to_int32_id)

lemma IntToString_nonempty [simp]: "IntToString i \<noteq> []"
  by (simp add: IntToString_def)

text \<open>Reading back the text of an acceptable value gives the value, whatever the default was.\<close>

lemma define_member_get:
  assumes "ser_deSerialize s" "ser_map s k = Some (member_text v)" "member_ok v" "same_kind v v0"
  shows "define_member add (k, r, v0) s = Inr (v, s)"
  using assms
  by (cases v; cases v0)
    (auto simp: IntValue_def GetInt_def GetString_def StringToInt_IntToString BoolValue_def
      GetBool_def lower_str_def char_defs StringValue_def EnumValue_def GetEnum_def CsvValue_def
      GetCsv_def CsvMapValue_def GetCsvMap_def csv_loop_text_ok csv_pair_ok csvmap_loop_pairs
      csvmap_ok_def
      split: option.splits)

lemma define_member_add:
  assumes "\<not> ser_deSerialize s" "member_ok v"
  shows "define_member add (k, r, v) s = Inr (v, s\<lparr>ser_output := ser_output s @ add k (member_text v)\<rparr>)"
  using assms
  by (cases v)
    (auto simp: IntValue_def AddInt_def BoolValue_def AddBool_def StringValue_def EnumValue_def
      AddEnum_def CsvValue_def AddCsv_def CsvMapValue_def AddCsvMap_def AddString_def
      split: option.splits)

lemma define_members_add:
  "\<not> ser_deSerialize s \<Longrightarrow> list_all (\<lambda>(k, r, v). member_ok v) ms \<Longrightarrow>
    define_members add ms s =
      Inr (ms, s\<lparr>ser_output := ser_output s @ concat (map (\<lambda>(k, r, v). add k (member_text v)) ms)\<rparr>)"
  by (induction add ms s rule: define_members.induct) (auto simp: define_member_add)

lemma define_members_get:
  assumes "ser_deSerialize s"
    "list_all2 (\<lambda>(k, r, v) (k', r', v0). k = k' \<and> r = r' \<and> same_kind v v0) ms ms0"
    "\<And>k r v. (k, r, v) \<in> set ms \<Longrightarrow> member_ok v \<and> ser_map s k = Some (member_text v)"
  shows "define_members add ms0 s = Inr (ms, s)"
  using assms(2,3)
proof (induction ms ms0 rule: list_all2_induct)
  case (Cons m ms m0 ms0)
  obtain k r v where m: "m = (k, r, v)" by (cases m)
  with Cons.hyps obtain v0 where m0: "m0 = (k, r, v0)" "same_kind v v0" by (cases m0) auto
  have "member_ok v" "ser_map s k = Some (member_text v)" using Cons.prems m by auto
  moreover have "define_members add ms0 s = Inr (ms, s)" using Cons.IH Cons.prems by auto
  ultimately show ?case using m m0 by (simp add: define_member_get [OF assms(1)])
qed simp

text \<open>The pairs an object puts on the wire.\<close>

definition wire_pairs :: "member list \<Rightarrow> (string \<times> string) list" where
  "wire_pairs ms = map (\<lambda>(k, r, v). (k, member_text v)) ms"

lemma map_of_wire_pairs:
  "distinct (map fst ms) \<Longrightarrow> (k, r, v) \<in> set ms \<Longrightarrow> map_of (wire_pairs ms) k = Some (member_text v)"
  by (induction ms) (force simp: wire_pairs_def)+

definition object_ok :: "member list \<Rightarrow> bool" where
  "object_ok ms \<longleftrightarrow> distinct (map fst ms) \<and>
     list_all (\<lambda>(k, r, v). good_key k \<and> member_ok v) ms"

definition same_object :: "member list \<Rightarrow> member list \<Rightarrow> bool" where
  "same_object ms ms0 \<longleftrightarrow>
     list_all2 (\<lambda>(k, r, v) (k', r', v0). k = k' \<and> r = r' \<and> same_kind v v0) ms ms0"

lemma Serializer_DeSerialize_get:
  assumes "object_ok ms" "same_object ms ms0" "ser_map s = map_of (wire_pairs ms)" "valid ms"
  shows "map_sum id fst (Serializer_DeSerialize add valid ms0 s) = Inr ms"
proof -
  have "define_members add ms0 (s\<lparr>ser_deSerialize := True\<rparr>) = Inr (ms, s\<lparr>ser_deSerialize := True\<rparr>)"
    using assms(1-3) map_of_wire_pairs [of ms]
    by (intro define_members_get) (auto simp: object_ok_def same_object_def list_all_iff)
  with assms(4) show ?thesis by (simp add: Serializer_DeSerialize_def)
qed

section \<open>Round trips of whole objects\<close>

lemma good_key_hd: "good_key k \<Longrightarrow> \<not> is_space (hd (k @ t))"
  by (cases k) (auto simp: good_key_def is_alnum_not_space)

lemma url_wire_text:
  assumes "\<And>k v. (k, v) \<in> set kvs \<Longrightarrow> NUL \<notin> set v"
  shows "concat (map (\<lambda>(k, v). UrlSerializer_AddString k v) kvs) = urlf.lines_text kvs"
  using assms
proof (induction kvs)
  case (Cons kv kvs)
  obtain k v where kv: "kv = (k, v)" by force
  with Cons.prems have "c_str (EscapeUrl v) = EscapeUrl v" by (auto intro!: c_str_id EscapeUrl_no_NUL)
  moreover have "concat (map (\<lambda>(k, v). UrlSerializer_AddString k v) kvs) = urlf.lines_text kvs"
    using Cons by auto
  ultimately show ?case
    by (simp add: kv urlf.lines_text_def urlf.pair_text_def UrlSerializer_AddString_def)
qed (simp add: urlf.lines_text_def)

lemma line_wire_text:
  "concat (map (\<lambda>(k, v). SingleLineSerializer_AddString k v) kvs) = linef.lines_text kvs"
  by (induction kvs) (auto simp: linef.lines_text_def linef.pair_text_def
      SingleLineSerializer_AddString_def)

lemma concat_wire_pairs:
  "concat (map (\<lambda>(k, r, v). add k (member_text v)) ms) = concat (map (\<lambda>(k, v). add k v) (wire_pairs ms))"
  by (simp add: wire_pairs_def comp_def case_prod_unfold)

lemma object_serialize:
  assumes "object_ok ms"
  shows "Serializer_Serialize add ms KeyValueSerializer_new
    = Inr (concat (map (\<lambda>(k, v). add k v) (wire_pairs ms)))"
proof -
  have "list_all (\<lambda>(k, r, v). member_ok v) ms" using assms by (auto simp: object_ok_def list_all_iff)
  from define_members_add [OF _ this, of KeyValueSerializer_new add]
  have "define_members add ms KeyValueSerializer_new = Inr (ms, KeyValueSerializer_new
      \<lparr>ser_output := concat (map (\<lambda>(k, v). add k v) (wire_pairs ms))\<rparr>)"
    unfolding concat_wire_pairs by (simp add: KeyValueSerializer_new_def)
  then show ?thesis by (simp add: Serializer_Serialize_def KeyValueSerializer_new_def)
qed

lemma wire_pairs_good_key: "object_ok ms \<Longrightarrow> (k, v) \<in> set (wire_pairs ms) \<Longrightarrow> good_key k"
  by (auto simp: object_ok_def wire_pairs_def list_all_iff)

lemma trim_url_text:
  assumes "\<And>k v. (k, v) \<in> set kvs \<Longrightarrow> good_key k"
  shows "trim (urlf.lines_text kvs) = urlf.lines_text kvs"
proof (cases kvs rule: rev_cases)
  case (snoc ys y)
  have "last (urlf.lines_text kvs) = CHR ''&''" by (simp add: snoc urlf.lines_text_def)
  moreover have "\<not> is_space (hd (urlf.lines_text kvs))"
    using assms urlf.hd_lines [of kvs "[]"] snoc
    by (metis append_Nil2 append_is_Nil_conv is_alnum_not_space list.set_sel(1) not_Cons_self2 prod.collapse)
  ultimately show ?thesis by (intro trim_id) simp
qed (simp add: urlf.lines_text_def trim_id)

lemma trim_drop_last_space:
  "s \<noteq> [] \<Longrightarrow> \<not> is_space (hd s) \<Longrightarrow> \<not> is_space (last s) \<Longrightarrow> trim (s @ '' '') = s"
  by (simp add: trim_def trim_left_id trim_right_id)

lemma last_EscapeSingleLine:
  "s \<noteq> [] \<Longrightarrow> is_space (last (EscapeSingleLine s)) \<Longrightarrow> is_space (last s) \<and> last s \<noteq> CHR '' ''"
  by (cases s rule: rev_cases) (auto split: if_splits)

text \<open>A value whose last character is white space other than a blank loses it at the end of a line.\<close>

definition line_end_ok :: "string \<Rightarrow> bool" where
  "line_end_ok v \<longleftrightarrow> v = [] \<or> \<not> is_space (last v) \<or> last v = CHR '' ''"

lemma EscapeSingleLine_empty [simp]: "EscapeSingleLine s = [] \<longleftrightarrow> s = []"
  by (cases s) auto

lemma parse_line_text:
  assumes "\<And>k v. (k, v) \<in> set kvs \<Longrightarrow> good_key k" "kvs \<noteq> [] \<Longrightarrow> line_end_ok (snd (last kvs))"
  shows "SingleLineSerializer_parse Map.empty (linef.lines_text kvs) = Some (map_of kvs)"
proof (cases kvs rule: rev_cases)
  case (snoc ys y)
  obtain k v where y: "y = (k, v)" by force
  let ?t = "linef.lines_text ys @ linef.pair_text (k, v)"
  have "\<not> is_space (last ?t)"
    using assms(2) snoc y last_EscapeSingleLine [of v]
    by (auto simp: linef.pair_text_def line_end_ok_def)
  moreover have "\<not> is_space (hd ?t)"
  proof (cases "ys = []")
    case True
    with assms(1) snoc y linef.hd_pair [of k v "[]"] show ?thesis
      by (auto simp: linef.lines_text_def dest: is_alnum_not_space)
  next
    case False
    then have "hd ys \<in> set kvs" using snoc by simp
    with assms(1) have "good_key (fst (hd ys))" by (metis prod.collapse)
    with False show ?thesis by (intro is_alnum_not_space linef.hd_lines)
  qed
  ultimately have "trim (linef.lines_text kvs) = ?t"
    using trim_drop_last_space [of ?t] snoc y
    by (simp add: linef.lines_text_def linef.pair_text_def)
  moreover have "\<And>k' v'. (k', v') \<in> set (ys @ [(k, v)]) \<Longrightarrow> good_key k' \<and> True"
    using assms(1) snoc y by auto
  note linef.parse_lines_last [OF this]
  ultimately show ?thesis using snoc y by (simp add: SingleLineSerializer_parse_def)
qed (simp add: linef.lines_text_def SingleLineSerializer_parse_def trim_id)

text \<open>
  C30. An object serialised to a single line is read back unchanged into any object of the same
  class, whatever the defaults of its members are: all integers, booleans, strings, enumerations,
  lists and maps survive, provided keys are distinct and alphanumeric, lists and maps are not
  empty and their elements have no white space at their ends, and the line does not end in a
  white-space character other than a blank.
\<close>

theorem singleline_object_roundtrip:
  assumes "object_ok ms" "same_object ms ms0" "valid ms"
    "ms \<noteq> [] \<Longrightarrow> line_end_ok (snd (last (wire_pairs ms)))"
  shows "\<exists>line. SingleLineSerializer_Serialize ms KeyValueSerializer_new = Inr line \<and>
    map_sum id fst (SingleLineSerializer_DeSerialize valid line ms0 KeyValueSerializer_new) = Inr ms"
proof (intro exI conjI)
  let ?line = "linef.lines_text (wire_pairs ms)"
  show "SingleLineSerializer_Serialize ms KeyValueSerializer_new = Inr ?line"
    by (simp add: SingleLineSerializer_Serialize_def object_serialize [OF assms(1)] line_wire_text)
  have "SingleLineSerializer_parse Map.empty ?line = Some (map_of (wire_pairs ms))"
    using assms(4) by (intro parse_line_text wire_pairs_good_key [OF assms(1)])
      (auto simp: wire_pairs_def)
  then show "map_sum id fst (SingleLineSerializer_DeSerialize valid ?line ms0 KeyValueSerializer_new) = Inr ms"
    using Serializer_DeSerialize_get [OF assms(1,2), of _ valid] assms(3)
    by (simp add: SingleLineSerializer_DeSerialize_def KeyValueSerializer_new_def)
qed

definition example_object :: "int \<Rightarrow> string \<Rightarrow> string list \<Rightarrow> member list" where
  "example_object i t l = [(''count'', True, VInt i), (''party'', False, VString t), (''tags'', False, VCsv l)]"

lemma example_object_ok:
  "object_ok (example_object (-7) ''a=b c%'' [''x,y'', ''z''])"
  "same_object (example_object (-7) ''a=b c%'' [''x,y'', ''z'']) (example_object 0 [] [])"
  by (simp_all add: object_ok_def same_object_def example_object_def good_key_def char_defs
      is_int32_def csv_ok_def no_edge_space_def)

theorem singleline_object_roundtrip_witness:
  "\<exists>line. SingleLineSerializer_Serialize (example_object (-7) ''a=b c%'' [''x,y'', ''z''])
      KeyValueSerializer_new = Inr line \<and>
    map_sum id fst (SingleLineSerializer_DeSerialize (\<lambda>_. True) line (example_object 0 [] [])
      KeyValueSerializer_new) = Inr (example_object (-7) ''a=b c%'' [''x,y'', ''z''])"
proof (rule singleline_object_roundtrip [OF example_object_ok])
  show "line_end_ok (snd (last (wire_pairs (example_object (-7) ''a=b c%'' [''x,y'', ''z'']))))"
    by (simp add: line_end_ok_def wire_pairs_def example_object_def char_defs)
qed simp

text \<open>
  The same for the URL form, for values without NUL characters; the end of the text needs no
  condition because every white-space character is escaped.
\<close>

theorem url_object_roundtrip:
  assumes "object_ok ms" "same_object ms ms0" "valid ms"
    "\<And>k r v. (k, r, v) \<in> set ms \<Longrightarrow> NUL \<notin> set (member_text v)"
  shows "\<exists>text. UrlSerializer_Serialize ms KeyValueSerializer_new = Inr text \<and>
    map_sum id fst (UrlSerializer_DeSerialize valid text ms0 KeyValueSerializer_new) = Inr ms"
proof (intro exI conjI)
  let ?text = "urlf.lines_text (wire_pairs ms)"
  have nul: "\<And>k v. (k, v) \<in> set (wire_pairs ms) \<Longrightarrow> NUL \<notin> set v"
    using assms(4) by (auto simp: wire_pairs_def)
  show "UrlSerializer_Serialize ms KeyValueSerializer_new = Inr ?text"
    by (simp add: UrlSerializer_Serialize_def object_serialize [OF assms(1)] url_wire_text [OF nul])
  have "\<And>k v. (k, v) \<in> set (wire_pairs ms) \<Longrightarrow> good_key k \<and> NUL \<notin> set v"
    using nul wire_pairs_good_key [OF assms(1)] by blast
  then have "UrlSerializer_parse Map.empty ?text = Some (map_of (wire_pairs ms))"
    using urlf.parse_lines wire_pairs_good_key [OF assms(1)]
    by (simp add: UrlSerializer_parse_def trim_url_text)
  then show "map_sum id fst (UrlSerializer_DeSerialize valid ?text ms0 KeyValueSerializer_new) = Inr ms"
    using Serializer_DeSerialize_get [OF assms(1,2), of _ valid] assms(3)
    by (simp add: UrlSerializer_DeSerialize_def KeyValueSerializer_new_def)
qed

theorem url_object_roundtrip_witness:
  "\<exists>text. UrlSerializer_Serialize (example_object (-7) ''a=b c%'' [''x,y'', ''z''])
      KeyValueSerializer_new = Inr text \<and>
    map_sum id fst (UrlSerializer_DeSerialize (\<lambda>_. True) text (example_object 0 [] [])
      KeyValueSerializer_new) = Inr (example_object (-7) ''a=b c%'' [''x,y'', ''z''])"
proof (rule url_object_roundtrip [OF example_object_ok])
  fix k r v
  assume "(k, r, v) \<in> set (example_object (- 7) ''a=b c%'' [''x,y'', ''z''])"
  then show "NUL \<notin> set (member_text v)"
    using IntToString_no_NUL [of "-7"] by (auto simp: example_object_def)
qed simp

section \<open>What the parser accepts, and the error branches\<close>

lemma kv_trans_key:
  assumes "kv_trans sep st key val c = (st', key', val')" "key = [] \<or> good_key key"
    "key = [] \<Longrightarrow> st \<noteq> KvKey \<and> st \<noteq> KvValue"
  shows "(key' = [] \<or> good_key key') \<and> (key' = [] \<longrightarrow> st' \<noteq> KvKey \<and> st' \<noteq> KvValue)"
  using assms by (auto simp: kv_trans_def good_key_def split: kv_state.splits if_splits)

lemma kv_loop_extends:
  assumes "kv_loop sep unesc st key val m cs = Some m'" "key = [] \<or> good_key key"
    "key = [] \<Longrightarrow> st \<noteq> KvKey \<and> st \<noteq> KvValue"
  shows "m \<subseteq>\<^sub>m m' \<and> (\<forall>k \<in> dom m'. k \<in> dom m \<or> good_key k)"
  using assms
proof (induction sep unesc st key val m cs rule: kv_loop.induct)
  case (2 sep unesc st key val m c cs)
  obtain st' key' val' where t: "kv_trans sep st key val c = (st', key', val')"
    by (cases "kv_trans sep st key val c")
  have k': "(key' = [] \<or> good_key key') \<and> (key' = [] \<longrightarrow> st' \<noteq> KvKey \<and> st' \<noteq> KvValue)"
    by (rule kv_trans_key [OF t "2.prems"(2,3)])
  show ?case
  proof (cases "st = KvError")
    case True
    then show ?thesis using "2.prems"(1) by auto
  next
    case ne: False
    show ?thesis
    proof (cases "(st' = KvStart \<or> cs = []) \<and> key' \<noteq> []")
      case True
      then obtain u where u: "unesc val' = Some u"
        "kv_loop sep unesc st' [] [] (map_insert key' u m) cs = Some m'"
        using "2.prems"(1) ne t by (auto split: option.splits)
      have ext: "m \<subseteq>\<^sub>m map_insert key' u m" by (auto simp: map_insert_def map_le_def)
      have dm: "k \<in> dom m \<or> k = key'" if "k \<in> dom (map_insert key' u m)" for k
        using that by (auto simp: map_insert_def split: if_splits)
      show ?thesis
      proof (cases "st' = KvStart")
        case True
        with u "2.IH"(1) [OF ne t [symmetric] refl _ u(1)] k' \<open>_ \<and> key' \<noteq> []\<close>
        have "map_insert key' u m \<subseteq>\<^sub>m m' \<and> (\<forall>k\<in>dom m'. k \<in> dom (map_insert key' u m) \<or> good_key k)"
          by auto
        with ext dm k' \<open>_ \<and> key' \<noteq> []\<close> show ?thesis by (blast intro: map_le_trans)
      next
        case False
        with \<open>_ \<and> key' \<noteq> []\<close> u have "m' = map_insert key' u m" by auto
        with ext dm k' \<open>_ \<and> key' \<noteq> []\<close> show ?thesis by blast
      qed
    next
      case False
      with "2.prems"(1) ne t have "kv_loop sep unesc st' key' val' m cs = Some m'" by auto
      with "2.IH"(2) [OF ne t [symmetric] refl False] k' show ?thesis by auto
    qed
  qed
qed simp

text \<open>
  Whatever text is received, parsing a single line always succeeds, every key it adds to the
  map is a non-empty alphanumeric word, and no entry that is already there is changed (the first
  occurrence of a key wins).
\<close>

theorem singleline_parse_any_input:
  "\<exists>m'. SingleLineSerializer_parse m input = Some m' \<and> m \<subseteq>\<^sub>m m' \<and>
     dom m' - dom m \<subseteq> Collect good_key"
proof -
  have total: "\<exists>m'. kv_loop CHR '' '' (\<lambda>s. Some (UnEscapeSingleLine s)) st key val m cs = Some m'"
    for st key val m cs
    by (induction "CHR '' ''" "\<lambda>s. Some (UnEscapeSingleLine s)" st key val m cs
        rule: kv_loop.induct) (auto split: prod.splits)
  from total [of KvStart "[]" "[]" m "trim input"] obtain m' where
    "SingleLineSerializer_parse m input = Some m'"
    unfolding SingleLineSerializer_parse_def by blast
  moreover from this have "m \<subseteq>\<^sub>m m' \<and> (\<forall>k\<in>dom m'. k \<in> dom m \<or> good_key k)"
    unfolding SingleLineSerializer_parse_def by (rule kv_loop_extends) simp_all
  ultimately show ?thesis by blast
qed

text \<open>
  Error branches of the typed getters: a missing required parameter is an error for every
  type, a missing optional one leaves the default, and a boolean is read case-insensitively from
  exactly true/yes/1 and false/no/0, anything else non-empty being an error.
\<close>

theorem getters_errors_and_defaults:
  "(ser_map s k = None \<longrightarrow>
      GetInt s k i True = Inl (MissingParameter k) \<and> GetInt s k i False = Inr i \<and>
      GetBool s k b True = Inl (MissingParameter k) \<and> GetBool s k b False = Inr b \<and>
      GetCsv s k l True = Inl (MissingParameter k) \<and> GetCsv s k l False = Inr l \<and>
      GetCsvMap s k ps True = Inl (MissingParameter k) \<and> GetCsvMap s k ps False = Inr ps) \<and>
   (\<forall>t. ser_map s k = Some t \<longrightarrow>
      GetBool s k b r =
        (if lower_str t \<in> {''true'', ''yes'', ''1''} then Inr True
         else if lower_str t \<in> {''false'', ''no'', ''0''} then Inr False
         else if t = [] then Inr b else Inl (InvalidBool k)))"
  by (auto simp: GetInt_def GetBool_def GetCsv_def GetCsvMap_def GetString_def lower_str_def Let_def)

theorem getters_errors_and_defaults_witness:
  "GetBool (KeyValueSerializer_new\<lparr>ser_map := [''x'' \<mapsto> ''maybe'']\<rparr>) ''x'' True True = Inl (InvalidBool ''x'')"
  using getters_errors_and_defaults
    [of "KeyValueSerializer_new\<lparr>ser_map := [''x'' \<mapsto> ''maybe'']\<rparr>" "''x''" 0 True "[]" "[]" True]
  by (simp add: KeyValueSerializer_new_def lower_str_def char_defs)

end
