(* ===== verification/OrkUtils.thy ===== *)
theory OrkUtils
  imports OrkFields
begin

text \<open>
  The helper functions of orkbasecxx/Utils.cpp and Utils.h that carry logic of their own: phone
  number and token handling, file names, dotted-quad addresses, address lists and ranges, codec
  names, and the identifier counter. Calls that reach the operating system (directory creation,
  ownership, permissions) are values of \<open>file_action\<close>, in the order they are made.
\<close>

section \<open>Strings\<close>

definition StringIsDigit :: "string \<Rightarrow> bool" where
  "StringIsDigit s = list_all is_digit s"

definition StringIsPhoneNumber :: "string \<Rightarrow> bool" where
  "StringIsPhoneNumber s = list_all (\<lambda>c. is_digit c \<or> c \<in> set ''-*#()'') s"

definition ChopToken :: "string \<Rightarrow> string \<Rightarrow> (string \<times> string) option" where
  "ChopToken sep s =
     (case find_str sep s of None \<Rightarrow> None
      | Some pos \<Rightarrow> Some (take pos s, drop (pos + length sep) s))"

definition MatchesStringList :: "string \<Rightarrow> string list \<Rightarrow> bool" where
  "MatchesStringList s xs = (if length s = 0 then False else list_ex (\<lambda>e. ci_eq e s) xs)"

text \<open>\<open>HexToString\<close>: pairs of upper-case hexadecimal digits that encode decimal digits.\<close>

definition hex_index :: "char \<Rightarrow> nat option" where
  "hex_index c = find_char c hex_digits"

fun HexToString_loop :: "string \<Rightarrow> string \<Rightarrow> string" where
  "HexToString_loop out (a # b # rest) =
     (case hex_index a of
        None \<Rightarrow> HexToString_loop out rest
      | Some p \<Rightarrow> (case hex_index b of
          None \<Rightarrow> HexToString_loop out rest
        | Some q \<Rightarrow>
            let v = p * 16 + q
            in if 47 < v \<and> v < 58 then HexToString_loop (out @ [char_of v]) rest
               else if length out > 0 then out else HexToString_loop out rest))"
| "HexToString_loop out rest = out"

definition HexToString :: "string \<Rightarrow> string" where
  "HexToString s = (if odd (length s) then ''Invalid Hex'' else HexToString_loop [] s)"

fun tokenize_loop :: "string \<Rightarrow> string \<Rightarrow> string list" where
  "tokenize_loop tok [] = [tok]"
| "tokenize_loop tok (c # cs) =
     (if c = CHR '' '' then tok # tokenize_loop [] cs else tokenize_loop (tok @ [c]) cs)"

definition StringTokenizeToList :: "string \<Rightarrow> string list" where
  "StringTokenizeToList s = tokenize_loop [] (trim s)"

definition GetRevertedNormalizedPhoneNumber :: "string \<Rightarrow> string" where
  "GetRevertedNormalizedPhoneNumber s = filter (\<lambda>c. c \<notin> set ''-+() '') (rev s)"

text \<open>\<open>Equals\<close> ignores case by default; \<open>memcmp\<close> does not.\<close>

definition CompareNormalizedPhoneNumbers :: "string \<Rightarrow> string \<Rightarrow> bool" where
  "CompareNormalizedPhoneNumbers a b =
     (let x = GetRevertedNormalizedPhoneNumber a; y = GetRevertedNormalizedPhoneNumber b;
          n = min (length x) (length y)
      in if n < 6 then ci_eq x y else take n x = take n y)"

section \<open>File names and directories\<close>

definition last_separator :: "string \<Rightarrow> nat option" where
  "last_separator path =
     (case rfind_char CHR ''/'' path of Some i \<Rightarrow> Some i | None \<Rightarrow> rfind_char (char_of (92::nat)) path)"

definition FileBaseName :: "string \<Rightarrow> string" where
  "FileBaseName path =
     (case last_separator path of
        Some i \<Rightarrow> if length path > 3 then drop (i + 1) path else path
      | None \<Rightarrow> path)"

definition FilePath :: "string \<Rightarrow> string" where
  "FilePath path =
     (case last_separator path of
        Some i \<Rightarrow> if length path > 3 then take (i + 1) path else []
      | None \<Rightarrow> [])"

definition FileStripExtension :: "string \<Rightarrow> string" where
  "FileStripExtension name = (case rfind_char CHR ''.'' name of Some i \<Rightarrow> take i name | None \<Rightarrow> name)"

definition FileEscapeName :: "string \<Rightarrow> string" where
  "FileEscapeName s = concat (map (\<lambda>c. if url_ok c then [c]
      else [CHR ''%'', hex_digits ! (chr_code c div 16), hex_digits ! (chr_code c mod 16)]) s)"

datatype file_action = MakeDir string | SetOwnership string string string | SetPermissions string nat

text \<open>\<open>Find('/', from)\<close>, and the levels one loop visits from a start position.\<close>

definition find_from :: "char \<Rightarrow> nat \<Rightarrow> string \<Rightarrow> nat option" where
  "find_from c from s = map_option ((+) from) (find_char c (drop from s))"

lemma find_from_Some: "find_from c from s = Some p \<Longrightarrow> from \<le> p \<and> p < length s \<and> s ! p = c"
  by (auto simp: find_from_def dest!: find_char_Some)

function slash_positions :: "string \<Rightarrow> nat \<Rightarrow> nat list" where
  "slash_positions path position =
     (case find_from CHR ''/'' (position + 1) path of
        None \<Rightarrow> []
      | Some p \<Rightarrow> p # slash_positions path p)"
  by pat_completeness auto
termination
  by (relation "measure (\<lambda>(path, position). length path - position)")
    (auto dest: find_from_Some)

declare slash_positions.simps [simp del]

definition with_search_bits :: "nat \<Rightarrow> nat" where
  "with_search_bits p =
     (let p1 = (if p AND 256 \<noteq> 0 then p OR 64 else p);
          p2 = (if p1 AND 32 \<noteq> 0 then p1 OR 8 else p1)
      in if p2 AND 4 \<noteq> 0 then p2 OR 1 else p2)"

text \<open>The second loop: ownership and permissions of the levels after the root directory.\<close>

definition mkdir_attributes :: "string \<Rightarrow> nat \<Rightarrow> string \<Rightarrow> string \<Rightarrow> nat \<Rightarrow> file_action list" where
  "mkdir_attributes path p owner grp start =
     concat (map (\<lambda>i. (if length owner > 0 \<and> length grp > 0
                        then [SetOwnership (take i path) owner grp] else []) @
                      (if p \<noteq> 0 then [SetPermissions (take i path) p] else []))
            (slash_positions path start))"

definition FileRecursiveMkdir ::
    "string \<Rightarrow> nat \<Rightarrow> string \<Rightarrow> string \<Rightarrow> string \<Rightarrow> file_action list" where
  "FileRecursiveMkdir path permissions owner grp root =
     map (\<lambda>i. MakeDir (take i path)) (slash_positions path 0) @
     mkdir_attributes path (with_search_bits permissions) owner grp
       (if length root > 0 \<and> find_str root path \<noteq> None then 1 + length root else 0)"

section \<open>Internet addresses\<close>

text \<open>An \<open>in_addr\<close> is its four bytes in memory order; \<open>ntohl\<close> of it reads them big-endian.\<close>

type_synonym in_addr = "nat \<times> nat \<times> nat \<times> nat"

definition ntohl_addr :: "in_addr \<Rightarrow> u32" where
  "ntohl_addr a = (case a of (b0, b1, b2, b3) \<Rightarrow>
     of_nat (b0 * 2 ^ 24 + b1 * 2 ^ 16 + b2 * 2 ^ 8 + b3))"

definition inet_ntopV4 :: "in_addr \<Rightarrow> nat \<Rightarrow> string option" where
  "inet_ntopV4 a sz = (case a of (b0, b1, b2, b3) \<Rightarrow>
     let t = show_nat b0 @ ''.'' @ show_nat b1 @ ''.'' @ show_nat b2 @ ''.'' @ show_nat b3
     in if length t \<ge> sz then None else Some t)"

fun pton_loop :: "string \<Rightarrow> bool \<Rightarrow> nat \<Rightarrow> nat \<Rightarrow> nat list \<Rightarrow> nat list option" where
  "pton_loop [] saw octets cur done = (if octets < 4 then None else Some (done @ [cur]))"
| "pton_loop (c # cs) saw octets cur done =
     (if is_digit c then
        (let val = cur * 10 + digit_val c
         in if val > 255 then None
            else if \<not> saw then
              (if octets + 1 > 4 then None else pton_loop cs True (octets + 1) val done)
            else pton_loop cs saw octets val done)
      else if c = CHR ''.'' \<and> saw then
        (if octets = 4 then None else pton_loop cs False octets 0 (done @ [cur]))
      else None)"

definition inet_pton4 :: "string \<Rightarrow> in_addr option" where
  "inet_pton4 s =
     (case pton_loop (c_str s) False 0 0 [] of
        Some [b0, b1, b2, b3] \<Rightarrow> Some (b0, b1, b2, b3) | _ \<Rightarrow> None)"

definition IpToString :: "in_addr \<Rightarrow> string" where
  "IpToString a = (case inet_ntopV4 a 16 of Some t \<Rightarrow> t | None \<Rightarrow> [])"

text \<open>\<open>TcpAddressList\<close>.\<close>

type_synonym TcpAddress = "in_addr \<times> nat"

definition TcpAddress_ToString :: "TcpAddress \<Rightarrow> string" where
  "TcpAddress_ToString a = IpToString (fst a) @ '','' @ show_nat (snd a)"

definition AddAddress :: "in_addr \<Rightarrow> nat \<Rightarrow> TcpAddress list \<Rightarrow> TcpAddress list" where
  "AddAddress ip port l = l @ [(ip, port)]"

definition HasAddress :: "in_addr \<Rightarrow> nat \<Rightarrow> TcpAddress list \<Rightarrow> bool" where
  "HasAddress ip port l = list_ex (\<lambda>a. fst a = ip \<and> snd a = port) l"

definition HasAddressOrAdd :: "in_addr \<Rightarrow> nat \<Rightarrow> TcpAddress list \<Rightarrow> bool \<times> TcpAddress list" where
  "HasAddressOrAdd ip port l =
     (if \<not> HasAddress ip port l then (False, AddAddress ip port l) else (True, l))"

text \<open>\<open>IpRanges\<close>: an exception of \<open>Compute\<close> is \<open>Inl\<close> the offending entry.\<close>

record IpRanges =
  m_asciiIpRanges :: "string list"
  m_ipRangePrefixes :: "u32 list"
  m_ipRangeBitWidths :: "nat list"

definition parse_range :: "string \<Rightarrow> (in_addr \<times> nat) option" where
  "parse_range entry =
     (case (case find_char CHR ''/'' entry of
              Some p \<Rightarrow>
                if p > 0 then
                  (case StringToInt (drop (p + 1) entry) of
                     Some v \<Rightarrow> if 1 \<le> v \<and> v \<le> 32 then Some (take p entry, nat v) else None
                   | None \<Rightarrow> None)
                else Some (entry, 32)
            | None \<Rightarrow> Some (entry, 32)) of
        None \<Rightarrow> None
      | Some (addr, len) \<Rightarrow> map_option (\<lambda>a. (a, len)) (inet_pton4 addr))"

fun compute_loop :: "string list \<Rightarrow> u32 list \<Rightarrow> nat list \<Rightarrow> string + (u32 list \<times> nat list)" where
  "compute_loop [] ps ws = Inr (ps, ws)"
| "compute_loop (e # es) ps ws =
     (case parse_range e of
        None \<Rightarrow> Inl e
      | Some (a, len) \<Rightarrow>
          let w = 32 - len
          in compute_loop es (ps @ [drop_bit w (ntohl_addr a)]) (ws @ [w]))"

definition IpRanges_Compute :: "IpRanges \<Rightarrow> string + IpRanges" where
  "IpRanges_Compute r =
     map_sum id (\<lambda>(ps, ws). r\<lparr>m_ipRangePrefixes := ps, m_ipRangeBitWidths := ws\<rparr>)
       (compute_loop (m_asciiIpRanges r) [] [])"

fun matches_loop :: "u32 \<Rightarrow> u32 list \<Rightarrow> nat list \<Rightarrow> bool" where
  "matches_loop ip (p # ps) (w # ws) = (if drop_bit w ip = p then True else matches_loop ip ps ws)"
| "matches_loop ip _ _ = False"

definition IpRanges_Matches :: "IpRanges \<Rightarrow> in_addr \<Rightarrow> bool" where
  "IpRanges_Matches r ip = matches_loop (ntohl_addr ip) (m_ipRangePrefixes r) (m_ipRangeBitWidths r)"

definition IpRanges_Empty :: "IpRanges \<Rightarrow> bool" where
  "IpRanges_Empty r = (m_asciiIpRanges r = [])"

text \<open>The serialiser's address ranges: \<open>AddIpRanges\<close> writes nothing.\<close>

definition GetIpRanges :: "serializer \<Rightarrow> string \<Rightarrow> IpRanges \<Rightarrow> bool \<Rightarrow> (ser_error + string) + IpRanges" where
  "GetIpRanges s key r required =
     (case GetCsv s key (m_asciiIpRanges r) required of
        Inl e \<Rightarrow> Inl (Inl e)
      | Inr l \<Rightarrow> map_sum Inr id (IpRanges_Compute (r\<lparr>m_asciiIpRanges := l\<rparr>)))"

definition IpRangesValue ::
    "string \<Rightarrow> IpRanges \<Rightarrow> bool \<Rightarrow> serializer \<Rightarrow> (ser_error + string) + (IpRanges \<times> serializer)" where
  "IpRangesValue key r required s =
     (if ser_deSerialize s then map_sum id (\<lambda>x. (x, s)) (GetIpRanges s key r required)
      else Inr (r, s))"

section \<open>Codec names\<close>

fun ci_starts_with :: "string \<Rightarrow> string \<Rightarrow> bool" where
  "ci_starts_with [] s = True"
| "ci_starts_with (p # ps) [] = False"
| "ci_starts_with (p # ps) (c # cs) = (to_upper c = to_upper p \<and> ci_starts_with ps cs)"

fun ciFind :: "string \<Rightarrow> string \<Rightarrow> nat option" where
  "ciFind [] needle = None"
| "ciFind (c # cs) needle =
     (if ci_starts_with needle (c # cs) then Some 0 else map_option Suc (ciFind cs needle))"

text \<open>
  The payload types this program knows; 60 and above are its own numbers for dynamic types.
  \<open>GetOrekaRtpPayloadTypeForSdpRtpMap\<close> takes the first codec name that occurs in the SDP text, in
  this order; \<open>AAL2-G726-32\<close> is listed so that \<open>G726-32\<close> does not match it.
\<close>

definition pt_OPUS :: int where "pt_OPUS = 60"
definition pt_AMRNB :: int where "pt_AMRNB = 61"
definition pt_AMRWB :: int where "pt_AMRWB = 62"
definition pt_ILBC :: int where "pt_ILBC = 63"
definition pt_SILK :: int where "pt_SILK = 64"
definition pt_SPEEX :: int where "pt_SPEEX = 66"
definition pt_TEL_EVENT :: int where "pt_TEL_EVENT = 67"

definition GetOrekaRtpPayloadTypeForSdpRtpMap :: "string \<Rightarrow> int" where
  "GetOrekaRtpPayloadTypeForSdpRtpMap sdp =
     (let has = (\<lambda>n. ciFind sdp n \<noteq> None)
      in if has ''opus'' then pt_OPUS
         else if has ''AMR/8000'' then pt_AMRNB
         else if has ''AMR-WB'' then pt_AMRWB
         else if has ''iLBC'' then pt_ILBC
         else if has ''SILK/8000'' then pt_SILK
         else if has ''SILK/16000'' then pt_SILK
         else if has ''speex'' then pt_SPEEX
         else if has ''telephone-event'' then pt_TEL_EVENT
         else if has ''AAL2-G726-32'' then 0
         else if has ''G726-32'' then 2 else 0)"

definition RtpPayloadTypeEnumToString :: "int \<Rightarrow> string" where
  "RtpPayloadTypeEnumToString pt =
     (if pt = 0 then ''PCMU'' else if pt = 2 then ''G721/G726-32'' else if pt = 3 then ''GSM''
      else if pt = 4 then ''G723'' else if pt = 8 then ''PCMA'' else if pt = 9 then ''G722''
      else if pt = 18 then ''G729'' else if pt = pt_OPUS then ''opus''
      else if pt = pt_AMRNB then ''AMR-NB'' else if pt = pt_AMRWB then ''AMR-WB''
      else if pt = pt_ILBC then ''iLBC'' else if pt = pt_SILK then ''SILK''
      else if pt = pt_SPEEX then ''speex'' else if pt = pt_TEL_EVENT then ''telephone-event''
      else if pt = 1 \<or> pt = 19 then ''reserved''
      else if pt = 5 \<or> pt = 6 \<or> pt = 16 \<or> pt = 17 then ''DVI4''
      else if pt = 7 then ''LPC'' else if pt = 10 \<or> pt = 11 then ''L16''
      else if pt = 12 then ''QCELP'' else if pt = 13 then ''CN'' else if pt = 14 then ''MPA''
      else if pt = 15 then ''G728'' else if pt = 25 then ''CELB'' else if pt = 26 then ''JPEG''
      else if pt = 28 then ''nv'' else if pt = 32 then ''MPV'' else if pt = 33 then ''MP2T''
      else if pt = 34 then ''H263'' else ''unknown'')"

section \<open>The identifier counter\<close>

definition AlphaCounter_new :: "nat \<Rightarrow> u32" where
  "AlphaCounter_new start = of_nat start"

definition GetNext :: "u32 \<Rightarrow> string \<times> u32" where
  "GetNext counter =
     (let m1 = counter + 1;
          m = (if m1 \<ge> 26 * 26 * 26 * 26 then 0 else m1);
          char1 = m div (26 * 26 * 26); remains = m mod (26 * 26 * 26);
          char2 = remains div (26 * 26); remains2 = remains mod (26 * 26);
          char3 = remains2 div 26; char4 = remains2 mod 26
      in (map (\<lambda>v. char_of (unat (v + 65))) [char1, char2, char3, char4], m))"

section \<open>Addresses: printing and parsing\<close>

lemma read_digits_mono: "acc \<le> fst (read_digits acc ds)"
  by (induction acc ds rule: read_digits.induct) auto

lemma pton_digits:
  "list_all is_digit ds \<Longrightarrow> fst (read_digits cur ds) \<le> 255 \<Longrightarrow>
    pton_loop (ds @ rest) True octets cur done = pton_loop rest True octets (fst (read_digits cur ds)) done"
proof (induction ds arbitrary: cur)
  case (Cons d ds)
  have "cur * 10 + digit_val d \<le> fst (read_digits (cur * 10 + digit_val d) ds)"
    by (rule read_digits_mono)
  with Cons show ?case by (simp add: Let_def)
qed simp

lemma pton_number:
  assumes "n \<le> 255" "octets < 4"
  shows "pton_loop (show_nat n @ rest) False octets 0 done = pton_loop rest True (octets + 1) n done"
proof -
  have all: "list_all is_digit (show_nat n)" using show_nat_digits by (auto simp: list_all_iff)
  obtain d ds where d: "show_nat n = d # ds" by (cases "show_nat n") auto
  have r: "fst (read_digits 0 (d # ds)) = n" using read_digits_show_nat [of "[]" n] d by simp
  then have "digit_val d \<le> 255"
    using all d assms(1) read_digits_mono [of "digit_val d" ds] by simp
  moreover have "pton_loop (ds @ rest) True (octets + 1) (digit_val d) done
      = pton_loop rest True (octets + 1) n done"
    using pton_digits [of ds "digit_val d"] r all d assms(1) by simp
  ultimately show ?thesis using all d assms(2) by simp
qed

lemma is_digit_dot [simp]: "\<not> is_digit CHR ''.''"
  by (simp add: char_defs)

lemma length_show_nat_byte: "n \<le> 255 \<Longrightarrow> length (show_nat n) \<le> 3"
  by (simp add: show_nat.simps [of n] show_nat.simps [of "n div 10"] show_nat.simps [of "n div 10 div 10"])

lemma show_nat_no_NUL: "NUL \<notin> set (show_nat n)"
  using show_nat_digits [of NUL] by auto

text \<open>
  Every IPv4 address survives printing and parsing: the 16-byte buffer is always large
  enough, and \<open>inet_pton4\<close> reads back the four bytes.
\<close>

theorem inet_roundtrip:
  assumes "b0 \<le> 255" "b1 \<le> 255" "b2 \<le> 255" "b3 \<le> 255"
  shows "inet_ntopV4 (b0, b1, b2, b3) 16 \<noteq> None \<and>
    inet_pton4 (IpToString (b0, b1, b2, b3)) = Some (b0, b1, b2, b3)"
proof -
  let ?t = "show_nat b0 @ ''.'' @ show_nat b1 @ ''.'' @ show_nat b2 @ ''.'' @ show_nat b3"
  have "length ?t < 16"
    using length_show_nat_byte [OF assms(1)] length_show_nat_byte [OF assms(2)]
      length_show_nat_byte [OF assms(3)] length_show_nat_byte [OF assms(4)] by simp
  then have p: "inet_ntopV4 (b0, b1, b2, b3) 16 = Some ?t" by (simp add: inet_ntopV4_def)
  have "c_str ?t = ?t" by (rule c_str_id) (simp add: show_nat_no_NUL)
  with p assms pton_number [of b3 _ "[]"] show ?thesis
    by (simp add: IpToString_def inet_pton4_def pton_number)
qed

theorem inet_roundtrip_witness:
  "inet_pton4 (IpToString (192, 168, 0, 255)) = Some (192, 168, 0, 255)"
  using inet_roundtrip [of 192 168 0 255] by simp

section \<open>Address ranges\<close>

lemma compute_loop_Inr:
  "compute_loop es ps ws = Inr (ps', ws') \<Longrightarrow>
    list_all (\<lambda>e. parse_range e \<noteq> None) es \<and>
    ps' = ps @ map (\<lambda>e. drop_bit (32 - snd (the (parse_range e))) (ntohl_addr (fst (the (parse_range e))))) es \<and>
    ws' = ws @ map (\<lambda>e. 32 - snd (the (parse_range e))) es"
  by (induction es ps ws rule: compute_loop.induct)
    (auto simp: Let_def split: option.splits prod.splits)

lemma matches_loop_maps:
  "matches_loop ip (map f es) (map g es) \<longleftrightarrow> (\<exists>e\<in>set es. drop_bit (g e) ip = f e)"
  by (induction es) auto

lemma ex_the_pair:
  assumes "\<And>e. e \<in> S \<Longrightarrow> f e \<noteq> None"
  shows "(\<exists>e\<in>S. P (fst (the (f e))) (snd (the (f e)))) \<longleftrightarrow>
    (\<exists>e a n. e \<in> S \<and> f e = Some (a, n) \<and> P a n)"
  using assms by force

lemma parse_range_len: "parse_range e = Some (a, n) \<Longrightarrow> 1 \<le> n \<and> n \<le> 32"
  by (auto simp: parse_range_def split: option.splits if_splits)

lemma drop_bit_eq_prefix:
  fixes x y :: u32
  assumes "n \<le> 32"
  shows "drop_bit (32 - n) x = drop_bit (32 - n) y \<longleftrightarrow> (\<forall>i\<in>{32 - n..<32}. bit x i = bit y i)"
proof
  assume "drop_bit (32 - n) x = drop_bit (32 - n) y"
  then have "bit (drop_bit (32 - n) x) j = bit (drop_bit (32 - n) y) j" for j by simp
  then have "bit x (32 - n + j) = bit y (32 - n + j)" for j by (simp add: bit_drop_bit_eq)
  then show "\<forall>i\<in>{32 - n..<32}. bit x i = bit y i" by (metis atLeastLessThan_iff le_add_diff_inverse)
next
  assume "\<forall>i\<in>{32 - n..<32}. bit x i = bit y i"
  then have "bit (drop_bit (32 - n) x) i = bit (drop_bit (32 - n) y) i" for i
    by (cases "32 - n + i < 32") (auto simp: bit_drop_bit_eq dest: bit_imp_le_length)
  then show "drop_bit (32 - n) x = drop_bit (32 - n) y" by (intro bit_word_eqI)
qed

text \<open>
  When \<open>Compute\<close> accepts a list of CIDR ranges, \<open>Matches\<close> holds of exactly the addresses
  that agree with the address of some entry on its first \<open>n\<close> bits, \<open>n\<close> being the entry's prefix
  length (32 when it has none); and \<open>Compute\<close> rejects the list exactly when some entry is
  malformed.
\<close>

theorem ip_ranges_correct:
  "(\<forall>r'. IpRanges_Compute r = Inr r' \<longrightarrow>
      (IpRanges_Matches r' ip \<longleftrightarrow>
        (\<exists>e a n. e \<in> set (m_asciiIpRanges r) \<and> parse_range e = Some (a, n) \<and>
           (\<forall>i\<in>{32 - n..<32}. bit (ntohl_addr ip) i = bit (ntohl_addr a) i)))) \<and>
   ((\<exists>e. IpRanges_Compute r = Inl e) \<longleftrightarrow> (\<exists>e\<in>set (m_asciiIpRanges r). parse_range e = None))"
proof (intro conjI allI impI)
  fix r'
  assume "IpRanges_Compute r = Inr r'"
  then obtain ps ws where c: "compute_loop (m_asciiIpRanges r) [] [] = Inr (ps, ws)"
    and r': "r' = r\<lparr>m_ipRangePrefixes := ps, m_ipRangeBitWidths := ws\<rparr>"
    by (cases "compute_loop (m_asciiIpRanges r) [] []") (auto simp: IpRanges_Compute_def)
  have key: "drop_bit (32 - n) (ntohl_addr ip) = drop_bit (32 - n) (ntohl_addr a) \<longleftrightarrow>
      (\<forall>i\<in>{32 - n..<32}. bit (ntohl_addr ip) i = bit (ntohl_addr a) i)"
    if "parse_range e = Some (a, n)" for e a n
    using that parse_range_len by (intro drop_bit_eq_prefix) blast
  note facts = compute_loop_Inr [OF c]
  then have "IpRanges_Matches r' ip \<longleftrightarrow> (\<exists>e\<in>set (m_asciiIpRanges r).
      drop_bit (32 - snd (the (parse_range e))) (ntohl_addr ip) =
      drop_bit (32 - snd (the (parse_range e))) (ntohl_addr (fst (the (parse_range e)))))"
    by (simp add: IpRanges_Matches_def r' matches_loop_maps)
  also have "\<dots> \<longleftrightarrow> (\<exists>e a n. e \<in> set (m_asciiIpRanges r) \<and> parse_range e = Some (a, n) \<and>
      drop_bit (32 - n) (ntohl_addr ip) = drop_bit (32 - n) (ntohl_addr a))"
    using facts by (intro ex_the_pair [of _ parse_range
          "\<lambda>a n. drop_bit (32 - n) (ntohl_addr ip) = drop_bit (32 - n) (ntohl_addr a)"])
      (simp add: list_all_iff)
  also have "\<dots> \<longleftrightarrow> (\<exists>e a n. e \<in> set (m_asciiIpRanges r) \<and> parse_range e = Some (a, n) \<and>
      (\<forall>i\<in>{32 - n..<32}. bit (ntohl_addr ip) i = bit (ntohl_addr a) i))"
    by (simp add: key cong: conj_cong)
  finally show "IpRanges_Matches r' ip \<longleftrightarrow> \<dots>" .
next
  have "(\<exists>e. compute_loop es ps ws = Inl e) \<longleftrightarrow> (\<exists>e\<in>set es. parse_range e = None)" for es ps ws
    by (induction es ps ws rule: compute_loop.induct)
      (auto simp: Let_def split: option.splits prod.splits)
  moreover have "(\<exists>e. IpRanges_Compute r = Inl e) \<longleftrightarrow> (\<exists>e. compute_loop (m_asciiIpRanges r) [] [] = Inl e)"
    by (cases "compute_loop (m_asciiIpRanges r) [] []") (auto simp: IpRanges_Compute_def)
  ultimately show "(\<exists>e. IpRanges_Compute r = Inl e) \<longleftrightarrow> (\<exists>e\<in>set (m_asciiIpRanges r). parse_range e = None)"
    by simp
qed

theorem ip_ranges_correct_witness:
  "\<exists>r'. IpRanges_Compute \<lparr>m_asciiIpRanges = [''10.0.0.0/8''], m_ipRangePrefixes = [],
      m_ipRangeBitWidths = []\<rparr> = Inr r' \<and> IpRanges_Matches r' (10, 1, 2, 3)"
proof -
  let ?r = "\<lparr>m_asciiIpRanges = [''10.0.0.0/8''], m_ipRangePrefixes = [], m_ipRangeBitWidths = []\<rparr>"
  have p: "parse_range ''10.0.0.0/8'' = Some ((10, 0, 0, 0), 8)"
    by (simp add: parse_range_def StringToInt_def strtol10_def c_str_def char_defs digit_val_def
        clamp_long_def to_int32_id is_int32_def inet_pton4_def)
  then have "IpRanges_Compute ?r \<noteq> Inl e" for e
    using conjunct2 [OF ip_ranges_correct [of ?r "(10, 1, 2, 3)"]] by auto
  then obtain r' where r': "IpRanges_Compute ?r = Inr r'" by (cases "IpRanges_Compute ?r") auto
  have "drop_bit 24 (ntohl_addr (10, 1, 2, 3)) = drop_bit 24 (ntohl_addr (10, 0, 0, 0))"
    by (simp add: ntohl_addr_def)
  then have "\<forall>i\<in>{32 - 8..<32}. bit (ntohl_addr (10, 1, 2, 3)) i = bit (ntohl_addr (10, 0, 0, 0)) i"
    using drop_bit_eq_prefix [of 8] by simp
  with p r' ip_ranges_correct [of ?r "(10, 1, 2, 3)"] show ?thesis by auto
qed

section \<open>Identifiers\<close>

definition alpha_period :: nat where
  "alpha_period = 456976"

definition alpha_text :: "nat \<Rightarrow> string" where
  "alpha_text m = map (\<lambda>v. char_of (v + 65))
     [m div 17576, m mod 17576 div 676, m mod 17576 mod 676 div 26, m mod 17576 mod 676 mod 26]"

lemma unat_add_65: "unat (w :: u32) < 26 \<Longrightarrow> unat (w + 65) = unat w + 65"
  by (simp add: unat_word_ariths)

lemma GetNext_nat:
  assumes "unat c < alpha_period"
  shows "unat (snd (GetNext c)) = (unat c + 1) mod alpha_period"
    "fst (GetNext c) = alpha_text (unat (snd (GetNext c)))"
proof -
  note alpha_period_def [simp]
  have c1: "unat (c + 1) = unat c + 1" using assms by (simp add: unat_word_ariths)
  define m where "m = snd (GetNext c)"
  have m: "m = (if c + 1 \<ge> 456976 then 0 else c + 1)" by (simp add: m_def GetNext_def Let_def)
  show 1: "unat (snd (GetNext c)) = (unat c + 1) mod alpha_period"
  proof (cases "unat c = 456975")
    case True
    with c1 show ?thesis unfolding m_def [symmetric] m by (simp add: word_le_nat_alt)
  next
    case False
    with c1 assms show ?thesis unfolding m_def [symmetric] m by (simp add: word_le_nat_alt)
  qed
  have lt: "unat m < 456976" using 1 by (simp add: m_def)
  have "unat m div 17576 < 26" "unat m mod 17576 div 676 < 26" "unat m mod 17576 mod 676 div 26 < 26"
    using lt by (simp_all add: less_mult_imp_div_less)
  then show "fst (GetNext c) = alpha_text (unat (snd (GetNext c)))"
    unfolding m_def [symmetric]
    by (simp add: GetNext_def Let_def m [symmetric] alpha_text_def unat_add_65 unat_div unat_mod)
qed

definition alpha_decode :: "string \<Rightarrow> nat" where
  "alpha_decode t = foldl (\<lambda>acc ch. acc * 26 + (chr_code ch - 65)) 0 t"

lemma alpha_decode_chars:
  "a < 26 \<Longrightarrow> b < 26 \<Longrightarrow> c < 26 \<Longrightarrow> d < 26 \<Longrightarrow>
    alpha_decode (map (\<lambda>v. char_of (v + 65)) [a, b, c, d]) = ((a * 26 + b) * 26 + c) * 26 + d"
  by (simp add: alpha_decode_def chr_code_char_of)

lemma digits_compose:
  fixes m :: nat
  shows "x * 17576 + r = m \<Longrightarrow> y * 676 + s = r \<Longrightarrow> z * 26 + t = s \<Longrightarrow>
    ((x * 26 + y) * 26 + z) * 26 + t = m"
  by simp

lemma alpha_digits:
  fixes m :: nat
  shows "((m div 17576 * 26 + m mod 17576 div 676) * 26 + m mod 17576 mod 676 div 26) * 26 +
    m mod 17576 mod 676 mod 26 = m"
  by (rule digits_compose; rule div_mult_mod_eq)

lemma alpha_decode_text: "m < alpha_period \<Longrightarrow> alpha_decode (alpha_text m) = m"
  unfolding alpha_text_def
  by (subst alpha_decode_chars) (simp_all add: less_mult_imp_div_less alpha_period_def alpha_digits)

text \<open>The identifiers of \<open>k\<close> calls in a row.\<close>

fun GetNext_calls :: "nat \<Rightarrow> u32 \<Rightarrow> string list" where
  "GetNext_calls 0 c = []"
| "GetNext_calls (Suc k) c = (case GetNext c of (t, c') \<Rightarrow> t # GetNext_calls k c')"

lemma GetNext_calls_text:
  "unat c < alpha_period \<Longrightarrow>
    GetNext_calls k c = map (\<lambda>i. alpha_text ((unat c + 1 + i) mod alpha_period)) [0..<k]"
proof (induction k arbitrary: c)
  case (Suc k)
  obtain t c' where g: "GetNext c = (t, c')" by force
  from GetNext_nat [OF Suc.prems] g
  have c': "unat c' = (unat c + 1) mod alpha_period" "t = alpha_text (unat c')" by simp_all
  then have "unat c' < alpha_period" by (simp add: alpha_period_def)
  have step: "(unat c' + 1 + i) mod alpha_period = (unat c + 1 + Suc i) mod alpha_period" for i
    unfolding c'(1) by (metis add.assoc add_Suc_shift mod_add_left_eq plus_1_eq_Suc)
  from Suc.IH [OF \<open>unat c' < alpha_period\<close>]
  have "GetNext_calls k c' = map (\<lambda>i. alpha_text ((unat c + 1 + Suc i) mod alpha_period)) [0..<k]"
    by (simp only: step)
  with g c' show ?case
    by (simp add: upt_conv_Cons map_Suc_upt [symmetric] comp_def del: upt_Suc)
qed simp

lemma mod_period_inj:
  fixes a :: nat
  assumes "(a + i) mod p = (a + j) mod p" "i < p" "j < p"
  shows "i = j"
proof -
  have "int i mod int p = int j mod int p"
    using assms(1) by (metis add_diff_cancel_left' mod_diff_left_eq of_nat_add of_nat_mod)
  with assms(2,3) show ?thesis by simp
qed

text \<open>
  Identifiers are four capital letters and repeat only after all 456976 of them: those of
  any \<open>k \<le> 26^4\<close> calls in a row are pairwise distinct, wherever the counter starts.
\<close>

theorem alpha_counter_distinct:
  assumes "unat c < alpha_period" "k \<le> alpha_period"
  shows "distinct (GetNext_calls k c)"
proof -
  have inj: "i = j" if "i < k" "j < k"
      "alpha_text ((unat c + 1 + i) mod alpha_period) = alpha_text ((unat c + 1 + j) mod alpha_period)" for i j
  proof -
    have "(unat c + 1 + i) mod alpha_period = (unat c + 1 + j) mod alpha_period"
      using arg_cong [OF that(3), of alpha_decode]
      by (subst (asm) (1 2) alpha_decode_text) (simp_all add: alpha_period_def)
    then show ?thesis by (rule mod_period_inj) (use that(1,2) assms(2) in simp_all)
  qed
  show ?thesis
    unfolding GetNext_calls_text [OF assms(1)] distinct_map
  proof (intro conjI distinct_upt inj_onI)
    fix i j
    assume ij: "i \<in> set [0..<k]" "j \<in> set [0..<k]"
      and eq: "alpha_text ((unat c + 1 + i) mod alpha_period) = alpha_text ((unat c + 1 + j) mod alpha_period)"
    from ij show "i = j" by (intro inj [OF _ _ eq]) simp_all
  qed
qed

theorem alpha_counter_distinct_witness:
  "distinct (GetNext_calls 3 456974) \<and> GetNext_calls 3 456974 = [''ZZZZ'', ''AAAA'', ''AAAB'']"
proof
  show "distinct (GetNext_calls 3 456974)"
    by (rule alpha_counter_distinct) (simp_all add: alpha_period_def)
  have "unat (456974 :: u32) < alpha_period" by (simp add: alpha_period_def)
  from GetNext_calls_text [OF this, of 3]
  show "GetNext_calls 3 456974 = [''ZZZZ'', ''AAAA'', ''AAAB'']"
    by (simp add: upt_rec alpha_period_def alpha_text_def char_of_def bit_0)
qed

section \<open>Phone numbers\<close>

definition significant :: "string \<Rightarrow> string" where
  "significant s = filter (\<lambda>c. c \<notin> set ''-+() '') s"

lemma reverted_significant: "GetRevertedNormalizedPhoneNumber s = rev (significant s)"
  unfolding GetRevertedNormalizedPhoneNumber_def significant_def by (rule rev_filter [symmetric])

lemma take_rev_eq:
  "take (min (length x) (length y)) (rev x) = take (min (length x) (length y)) (rev y) \<longleftrightarrow>
    (\<exists>p. x = p @ y \<or> y = p @ x)"
proof
  assume eq: "take (min (length x) (length y)) (rev x) = take (min (length x) (length y)) (rev y)"
  show "\<exists>p. x = p @ y \<or> y = p @ x"
  proof (cases "length x \<le> length y")
    case True
    with eq have "rev x = take (length x) (rev y)" by simp
    then have "x = drop (length y - length x) y" using True by (metis rev_rev_ident take_rev rev_swap)
    then show ?thesis by (metis append_take_drop_id)
  next
    case False
    with eq have "rev y = take (length y) (rev x)" by simp
    then have "y = drop (length x - length y) x" using False by (metis rev_rev_ident take_rev rev_swap)
    then show ?thesis by (metis append_take_drop_id)
  qed
qed auto

text \<open>
  Two phone numbers that both have at least six significant characters (neither punctuation
  \<open>-+()\<close> nor blanks) compare equal exactly when one is a suffix of the other.
\<close>

theorem compare_numbers_suffix:
  assumes "length (significant a) \<ge> 6" "length (significant b) \<ge> 6"
  shows "CompareNormalizedPhoneNumbers a b \<longleftrightarrow>
    (\<exists>p. significant a = p @ significant b \<or> significant b = p @ significant a)"
proof -
  have "\<not> min (length (significant a)) (length (significant b)) < 6" using assms by simp
  with take_rev_eq [of "significant a" "significant b"] show ?thesis
    by (simp only: CompareNormalizedPhoneNumbers_def Let_def reverted_significant length_rev if_False)
qed

theorem compare_numbers_suffix_witness:
  "CompareNormalizedPhoneNumbers ''+1 (555) 123-4567'' ''5551234567''"
  using compare_numbers_suffix [of "''+1 (555) 123-4567''" "''5551234567''"]
  by (simp add: significant_def)

section \<open>File names\<close>

lemma find_from_None: "find_from c from s = None \<longleftrightarrow> c \<notin> set (drop from s)"
  by (simp add: find_from_def)

lemma find_from_least:
  assumes "find_from c from s = Some p" "from \<le> q" "q < p"
  shows "s ! q \<noteq> c"
proof -
  from assms obtain i where i: "find_char c (drop from s) = Some i" "p = from + i"
    by (auto simp: find_from_def)
  from find_char_Some [OF i(1)] have n: "c \<notin> set (take i (drop from s))" "i < length (drop from s)"
    by auto
  have "drop from s ! (q - from) \<in> set (take i (drop from s))"
    unfolding in_set_conv_nth using assms i n(2) by (intro exI [of _ "q - from"]) auto
  then show ?thesis using n assms i by (auto simp: add.commute)
qed

lemma slash_positions_correct:
  "set (slash_positions path pos) = {p. pos < p \<and> p < length path \<and> path ! p = CHR ''/''} \<and>
    sorted_wrt (<) (slash_positions path pos)"
proof (induction path pos rule: slash_positions.induct)
  case (1 path pos)
  show ?case
  proof (cases "find_from CHR ''/'' (pos + 1) path")
    case None
    then have "CHR ''/'' \<notin> set (drop (pos + 1) path)" by (simp add: find_from_None)
    then have "\<not> (pos < p \<and> p < length path \<and> path ! p = CHR ''/'')" for p
      by (force simp: in_set_conv_nth dest: spec [of _ "p - (pos + 1)"])
    with None show ?thesis by (auto simp: slash_positions.simps)
  next
    case (Some p)
    note p = find_from_Some [OF Some] find_from_least [OF Some]
    from Some have eq: "slash_positions path pos = p # slash_positions path p"
      by (simp add: slash_positions.simps [of path pos])
    from "1.IH" [OF Some] p show ?thesis
      unfolding eq by (auto simp: not_less_eq_eq)
  qed
qed

text \<open>
  A path is always the concatenation of its directory part and its base name, and the
  directories \<open>FileRecursiveMkdir\<close> creates are exactly the prefixes of the path before each slash
  (a leading one excepted), parents before children.
\<close>

theorem mkdir_levels:
  "FilePath path @ FileBaseName path = path \<and>
   (\<exists>ps rest. FileRecursiveMkdir path perms owner grp root = map (\<lambda>p. MakeDir (take p path)) ps @ rest \<and>
      sorted_wrt (<) ps \<and> set ps = {p. 0 < p \<and> p < length path \<and> path ! p = CHR ''/''} \<and>
      (\<forall>d. MakeDir d \<notin> set rest))"
proof
  show "FilePath path @ FileBaseName path = path"
    by (simp add: FilePath_def FileBaseName_def split: option.split)
  show "\<exists>ps rest. FileRecursiveMkdir path perms owner grp root = map (\<lambda>p. MakeDir (take p path)) ps @ rest \<and>
      sorted_wrt (<) ps \<and> set ps = {p. 0 < p \<and> p < length path \<and> path ! p = CHR ''/''} \<and>
      (\<forall>d. MakeDir d \<notin> set rest)"
    unfolding FileRecursiveMkdir_def
    by (rule exI [of _ "slash_positions path 0"], rule exI, rule conjI, rule refl)
      (auto simp: mkdir_attributes_def slash_positions_correct split: if_splits)
qed

end
