(* ===== verification/OrkIpFrag.thy ===== *)
theory OrkIpFrag
  imports OrkPrelude
begin

text \<open>
  Reassembly of fragmented IP datagrams (voip/IpFragmentation.cpp) over the growable buffer
  \<open>SizedBuffer\<close> (orkbasecxx/SizedBuffer.cpp) and the accessors of \<open>IpHeaderStruct\<close>
  (common/PacketHeaderDefs.h).

  A pointer to an IP header is the list of the bytes that are readable from it on. \<open>size_t\<close> values
  are \<open>nat\<close> with the wrap at \<open>2 ^ 64\<close> written out. A function's result is \<open>None\<close> where the code
  reads outside its buffers (undefined behaviour); a thrown \<open>std::runtime_error\<close> is a value. Memory
  is assumed not to run out, except that \<open>realloc\<close> refuses sizes of \<open>2 ^ 63\<close> and more.
\<close>

section \<open>IpHeaderStruct\<close>

type_synonym bytes = "u8 list"

definition be16 :: "bytes \<Rightarrow> nat \<Rightarrow> nat" where
  "be16 f i = unat (f ! i) * 256 + unat (f ! Suc i)"

definition ip_headerLen :: "bytes \<Rightarrow> nat" where
  "ip_headerLen f = unat (f ! 0) mod 16 * 4"

definition ip_packetLen :: "bytes \<Rightarrow> nat" where
  "ip_packetLen f = be16 f 2"

definition ip_payloadLen :: "bytes \<Rightarrow> nat" where
  "ip_payloadLen f = (ip_packetLen f + 2 ^ 64 - ip_headerLen f) mod 2 ^ 64"

definition ip_packetId :: "bytes \<Rightarrow> nat" where
  "ip_packetId f = be16 f 4"

definition ip_offset :: "bytes \<Rightarrow> nat" where
  "ip_offset f = be16 f 6 mod 2 ^ 13 * 8"

definition ip_fragmentFlags :: "bytes \<Rightarrow> nat" where
  "ip_fragmentFlags f = be16 f 6 div 2 ^ 13"

definition ip_isLastFragment :: "bytes \<Rightarrow> bool" where
  "ip_isLastFragment f \<longleftrightarrow> ip_fragmentFlags f mod 2 = 0"

definition ip_isFragmented :: "bytes \<Rightarrow> bool" where
  "ip_isFragmented f \<longleftrightarrow> \<not> ip_isLastFragment f \<or> ip_offset f > 0"

definition ip_setPacketLen :: "bytes \<Rightarrow> nat \<Rightarrow> bytes" where
  "ip_setPacketLen f n = f[2 := of_nat (n div 256), 3 := of_nat n]"

section \<open>SizedBuffer\<close>

datatype 'a may_throw = Returns 'a | Throws

text \<open>\<open>write(offset, buf, len)\<close>: grow, then \<open>memcpy\<close> from the bytes readable at \<open>buf\<close>.\<close>

definition sb_write :: "nat \<Rightarrow> bytes \<Rightarrow> nat \<Rightarrow> bytes \<Rightarrow> bytes may_throw option" where
  "sb_write offset buf len m =
     (let need = (offset + len) mod 2 ^ 64
      in if need > length m \<and> need \<ge> 2 ^ 63 then Some Throws
         else if length buf < len then None
         else Some (Returns (take offset m @ take len buf @ drop (offset + len) m)))"

definition sb_append :: "bytes \<Rightarrow> nat \<Rightarrow> bytes \<Rightarrow> bytes may_throw option" where
  "sb_append buf len m = sb_write (length m) buf len m"

definition SizedBuffer_new :: "bytes \<Rightarrow> nat \<Rightarrow> bytes may_throw option" where
  "SizedBuffer_new buf len = sb_write 0 buf len []"

definition sb_get :: "bytes \<Rightarrow> bytes may_throw" where
  "sb_get m = (if m = [] then Throws else Returns m)"

section \<open>ForwardSequentialAlgorithm\<close>

record ForwardSequential =
  fs_drop :: bool
  fs_data :: "bytes option"
  fs_lastUpdate :: int
  fs_isComplete :: bool

definition ForwardSequential_new :: ForwardSequential where
  "ForwardSequential_new = \<lparr>fs_drop = False, fs_data = None, fs_lastUpdate = 0, fs_isComplete = False\<rparr>"

definition fs_addFragment :: "int \<Rightarrow> bytes \<Rightarrow> ForwardSequential \<Rightarrow> ForwardSequential option" where
  "fs_addFragment now f s =
     (let finish = (\<lambda>b. s\<lparr>fs_data := Some b, fs_isComplete := (ip_isLastFragment f \<or> fs_isComplete s),
                          fs_lastUpdate := now\<rparr>);
          dropped = Some (s\<lparr>fs_drop := True\<rparr>)
      in case fs_data s of
           None \<Rightarrow>
             if ip_offset f \<noteq> 0 then dropped
             else (case SizedBuffer_new f (ip_packetLen f) of
                     None \<Rightarrow> None | Some Throws \<Rightarrow> dropped | Some (Returns b) \<Rightarrow> Some (finish b))
         | Some b \<Rightarrow>
             (case sb_get b of
                Throws \<Rightarrow> dropped
              | Returns orig \<Rightarrow>
                  if ip_payloadLen orig \<noteq> ip_offset f then dropped
                  else (case sb_append (drop (ip_headerLen f) f) (ip_payloadLen f) b of
                          None \<Rightarrow> None
                        | Some Throws \<Rightarrow> dropped
                        | Some (Returns b') \<Rightarrow>
                            Some (finish (ip_setPacketLen b'
                              (ip_headerLen b' + ip_payloadLen b' + ip_payloadLen f))))))"

section \<open>WaitAllAndSortAlgorithm\<close>

record WaitAllAndSort =
  wa_fragments :: "bytes list"
  wa_finalSize :: nat
  wa_lastUpdate :: int
  wa_currentSize :: nat
  wa_isComplete :: bool
  wa_drop :: bool
  wa_data :: "bytes option"

definition WaitAllAndSort_new :: WaitAllAndSort where
  "WaitAllAndSort_new = \<lparr>wa_fragments = [], wa_finalSize = 0, wa_lastUpdate = 0, wa_currentSize = 0,
     wa_isComplete = False, wa_drop = False, wa_data = None\<rparr>"

text \<open>The search for the place of a fragment: its offset is there already, or the split of the list.\<close>

datatype placed = Retransmission | PlaceAt "bytes list" "bytes list"

fun wa_find :: "nat \<Rightarrow> bytes list \<Rightarrow> bytes list \<Rightarrow> placed may_throw" where
  "wa_find off before [] = Returns (PlaceAt before [])"
| "wa_find off before (g # gs) =
     (case sb_get g of
        Throws \<Rightarrow> Throws
      | Returns h \<Rightarrow>
          if ip_offset h = off then Returns Retransmission
          else if ip_offset h > off then Returns (PlaceAt before (g # gs))
          else wa_find off (before @ [g]) gs)"

text \<open>The inner run over the ordered fragments; \<open>Throws\<close> also stands for its drop.\<close>

fun wa_assemble :: "int \<Rightarrow> bytes list \<Rightarrow> ForwardSequential \<Rightarrow> ForwardSequential may_throw option" where
  "wa_assemble now [] h = Some (Returns h)"
| "wa_assemble now (g # gs) h =
     (case sb_get g of
        Throws \<Rightarrow> Some Throws
      | Returns f \<Rightarrow>
          (case fs_addFragment now f h of
             None \<Rightarrow> None
           | Some h' \<Rightarrow> if fs_drop h' then Some Throws else wa_assemble now gs h'))"

definition wa_addFragment :: "int \<Rightarrow> bytes \<Rightarrow> WaitAllAndSort \<Rightarrow> WaitAllAndSort option" where
  "wa_addFragment now f s =
     (case wa_find (ip_offset f) [] (wa_fragments s) of
        Throws \<Rightarrow> Some (s\<lparr>wa_drop := True\<rparr>)
      | Returns Retransmission \<Rightarrow> Some s
      | Returns (PlaceAt before after) \<Rightarrow>
          (case SizedBuffer_new f (ip_packetLen f) of
             None \<Rightarrow> None
           | Some Throws \<Rightarrow> Some (s\<lparr>wa_drop := True\<rparr>)
           | Some (Returns g) \<Rightarrow>
               let final = (if ip_isLastFragment f then (ip_offset f + ip_payloadLen f) mod 2 ^ 64
                            else wa_finalSize s);
                   current = (wa_currentSize s + ip_payloadLen f) mod 2 ^ 64;
                   s1 = s\<lparr>wa_fragments := before @ g # after, wa_finalSize := final,
                          wa_currentSize := current\<rparr>
               in if final \<noteq> 0 \<and> current > final then Some (s1\<lparr>wa_drop := True\<rparr>)
                  else if current = final then
                    (case wa_assemble now (before @ g # after) ForwardSequential_new of
                       None \<Rightarrow> None
                     | Some Throws \<Rightarrow> Some (s1\<lparr>wa_drop := True\<rparr>)
                     | Some (Returns h) \<Rightarrow>
                         Some (s1\<lparr>wa_data := fs_data h, wa_isComplete := True, wa_lastUpdate := now\<rparr>))
                  else Some (s1\<lparr>wa_lastUpdate := now\<rparr>)))"

section \<open>HandleIpFragment\<close>

record frag_state =
  fr_lastCheck :: int
  fr_map :: "nat \<rightharpoonup> WaitAllAndSort"

definition frag_state_new :: frag_state where
  "frag_state_new = \<lparr>fr_lastCheck = 0, fr_map = Map.empty\<rparr>"

definition frag_timeout :: int where
  "frag_timeout = 60"

definition frag_purge :: "int \<Rightarrow> frag_state \<Rightarrow> frag_state" where
  "frag_purge now st =
     (if now - fr_lastCheck st \<ge> frag_timeout
      then st\<lparr>fr_map := (\<lambda>i. case fr_map st i of None \<Rightarrow> None
                             | Some a \<Rightarrow> if now - wa_lastUpdate a \<ge> frag_timeout then None else Some a),
              fr_lastCheck := now\<rparr>
      else st)"

text \<open>
  The result is the packet, if complete. Erasing the entry twice (dropped and complete) would be
  undefined, as would the \<open>get()\<close> of a missing packet.
\<close>

definition HandleIpFragment ::
    "int \<Rightarrow> bytes \<Rightarrow> frag_state \<Rightarrow> (bytes option \<times> frag_state) option" where
  "HandleIpFragment now f st =
     (let st1 = frag_purge now st; i = ip_packetId f;
          a = (case fr_map st1 i of None \<Rightarrow> WaitAllAndSort_new | Some a \<Rightarrow> a)
      in case wa_addFragment now f a of
           None \<Rightarrow> None
         | Some a' \<Rightarrow>
             let gone = st1\<lparr>fr_map := (fr_map st1)(i := None)\<rparr>
             in if wa_drop a' then (if wa_isComplete a' then None else Some (None, gone))
                else if wa_isComplete a' then
                  (case wa_data a' of None \<Rightarrow> None | Some p \<Rightarrow> Some (Some p, gone))
                else Some (None, st1\<lparr>fr_map := (fr_map st1)(i \<mapsto> a')\<rparr>))"

section \<open>Well-formed fragments\<close>

text \<open>The IP length covers the header and is covered by the captured bytes.\<close>

definition frag_ok :: "bytes \<Rightarrow> bool" where
  "frag_ok f \<longleftrightarrow> 20 \<le> ip_headerLen f \<and> ip_headerLen f \<le> ip_packetLen f \<and> ip_packetLen f \<le> length f"

definition payload :: "bytes \<Rightarrow> bytes" where
  "payload f = take (ip_packetLen f - ip_headerLen f) (drop (ip_headerLen f) f)"

definition copy :: "bytes \<Rightarrow> bytes" where
  "copy f = take (ip_packetLen f) f"

lemma be16_less: "be16 f i < 65536"
proof -
  have b: "unat (w :: u8) < 256" for w using unsigned_less [of w] by simp
  from b [of "f ! i"] b [of "f ! Suc i"] show ?thesis unfolding be16_def by linarith
qed

lemma ip_payloadLen_nat: "ip_headerLen f \<le> ip_packetLen f \<Longrightarrow> ip_payloadLen f = ip_packetLen f - ip_headerLen f"
  using be16_less [of f 2] by (simp add: ip_payloadLen_def ip_packetLen_def mod_if)

lemma ip_payloadLen_ok: "frag_ok f \<Longrightarrow> ip_payloadLen f = length (payload f)"
  by (auto simp: ip_payloadLen_nat frag_ok_def payload_def)

lemma SizedBuffer_new_ok: "frag_ok f \<Longrightarrow> SizedBuffer_new f (ip_packetLen f) = Some (Returns (copy f))"
  using be16_less [of f 2]
  by (simp add: SizedBuffer_new_def sb_write_def frag_ok_def copy_def Let_def ip_packetLen_def)

lemma be16_take: "Suc i < n \<Longrightarrow> be16 (take n f) i = be16 f i"
  by (simp add: be16_def)

lemma copy_fields:
  assumes "frag_ok f"
  shows "ip_offset (copy f) = ip_offset f" "ip_isLastFragment (copy f) = ip_isLastFragment f"
    "ip_headerLen (copy f) = ip_headerLen f" "ip_packetLen (copy f) = ip_packetLen f"
    "payload (copy f) = payload f" "frag_ok (copy f)" "copy f \<noteq> []" "copy (copy f) = copy f"
proof -
  have n: "20 \<le> ip_packetLen f" using assms by (simp add: frag_ok_def)
  show 1: "ip_offset (copy f) = ip_offset f" "ip_isLastFragment (copy f) = ip_isLastFragment f"
    using n by (simp_all add: ip_offset_def ip_isLastFragment_def ip_fragmentFlags_def copy_def be16_take)
  show h: "ip_headerLen (copy f) = ip_headerLen f" using n by (simp add: ip_headerLen_def copy_def)
  show p: "ip_packetLen (copy f) = ip_packetLen f"
    using n unfolding ip_packetLen_def copy_def by (subst be16_take) simp_all
  show "payload (copy f) = payload f"
    unfolding payload_def h p by (simp add: copy_def drop_take min_def)
  show "frag_ok (copy f)" using assms unfolding frag_ok_def h p by (simp add: copy_def)
  show "copy f \<noteq> []" using n assms by (auto simp: copy_def frag_ok_def)
  show "copy (copy f) = copy f" unfolding copy_def [of "copy f"] p by (simp add: copy_def)
qed

section \<open>Sequential assembly\<close>

text \<open>
  The fragments of one datagram in offset order: contiguous from offset \<open>off\<close>, non-empty
  payloads, exactly the last one without the more-fragments flag.
\<close>

fun chain :: "nat \<Rightarrow> bytes list \<Rightarrow> bool" where
  "chain off [] = False"
| "chain off [f] = (frag_ok f \<and> payload f \<noteq> [] \<and> ip_offset f = off \<and> ip_isLastFragment f)"
| "chain off (f # g # r) =
     (frag_ok f \<and> payload f \<noteq> [] \<and> ip_offset f = off \<and> \<not> ip_isLastFragment f \<and>
      chain (off + length (payload f)) (g # r))"

definition payload_sum :: "bytes list \<Rightarrow> nat" where
  "payload_sum fs = sum_list (map (\<lambda>f. length (payload f)) fs)"

text \<open>The reassembled datagram: the first header with the total length, and all payloads.\<close>

definition datagram :: "bytes \<Rightarrow> bytes list \<Rightarrow> bytes" where
  "datagram f fs =
     ip_setPacketLen (take (ip_headerLen f) f @ concat (map payload fs)) (ip_headerLen f + payload_sum fs)"

definition split_ok :: "bytes list \<Rightarrow> bool" where
  "split_ok fs \<longleftrightarrow> fs \<noteq> [] \<and> chain 0 fs \<and> ip_headerLen (hd fs) + payload_sum fs < 65536"

lemma payload_sum_simps [simp]:
  "payload_sum [] = 0" "payload_sum (f # fs) = length (payload f) + payload_sum fs"
  "payload_sum (fs @ gs) = payload_sum fs + payload_sum gs"
  by (simp_all add: payload_sum_def)

lemma payload_sum_concat: "payload_sum fs = length (concat (map payload fs))"
  by (induction fs) auto

lemma be16_set: "4 \<le> length b \<Longrightarrow> n < 65536 \<Longrightarrow> be16 (ip_setPacketLen b n) 2 = n"
  by (simp add: be16_def ip_setPacketLen_def unat_of_nat)

lemma ip_setPacketLen_append:
  "4 \<le> length b \<Longrightarrow> ip_setPacketLen (ip_setPacketLen b m @ c) n = ip_setPacketLen (b @ c) n"
  by (simp add: ip_setPacketLen_def list_update_append list_update_swap)

lemma headerLen_set [simp]: "ip_headerLen (ip_setPacketLen b n) = ip_headerLen b"
  by (simp add: ip_headerLen_def ip_setPacketLen_def)

lemma length_ip_setPacketLen [simp]: "length (ip_setPacketLen b n) = length b"
  by (simp add: ip_setPacketLen_def)

lemma datagram_fields:
  assumes "frag_ok f" "ip_headerLen f + payload_sum fs < 65536"
  shows "ip_headerLen (datagram f fs) = ip_headerLen f"
    "ip_payloadLen (datagram f fs) = payload_sum fs"
    "length (datagram f fs) = ip_headerLen f + payload_sum fs" "datagram f fs \<noteq> []"
proof -
  let ?b = "take (ip_headerLen f) f @ concat (map payload fs)"
  have h: "20 \<le> ip_headerLen f" "ip_headerLen f \<le> length f" using assms(1) by (auto simp: frag_ok_def)
  show 1: "ip_headerLen (datagram f fs) = ip_headerLen f"
    using h by (simp add: datagram_def) (simp add: ip_headerLen_def nth_append)
  have "ip_packetLen (datagram f fs) = ip_headerLen f + payload_sum fs"
    unfolding ip_packetLen_def datagram_def using h assms(2) by (intro be16_set) auto
  then show "ip_payloadLen (datagram f fs) = payload_sum fs"
    by (simp add: ip_payloadLen_nat 1)
  show 2: "length (datagram f fs) = ip_headerLen f + payload_sum fs"
    using h by (simp add: datagram_def payload_sum_concat)
  show "datagram f fs \<noteq> []" using 2 h by auto
qed

lemma ip_setPacketLen_same: "2 < length b \<Longrightarrow> 3 < length b \<Longrightarrow> ip_setPacketLen b (be16 b 2) = b"
proof -
  have lt: "unat (w :: u8) < 256" for w using unsigned_less [of w] by simp
  have "(256 :: u8) = 0" by transfer simp
  then have "b ! 2 * 256 = 0" by (metis mult_zero_right)
  then have "of_nat (unat (b ! 2) * 256 + unat (b ! 3)) = (b ! 3 :: u8)" by simp
  then have 1: "of_nat (be16 b 2) = b ! 3" by (simp add: be16_def)
  have "be16 b 2 div 256 = unat (b ! 2)" using lt [of "b ! 3"] by (simp add: be16_def)
  then have 2: "of_nat (be16 b 2 div 256) = b ! 2" by simp
  show ?thesis unfolding ip_setPacketLen_def 1 2 list_update_id ..
qed

text \<open>One fragment after the first: the buffer holds the datagram of the fragments so far.\<close>

lemma fs_add_next:
  assumes "frag_ok f0" "frag_ok f" "fs_data h = Some (datagram f0 pre)" "ip_offset f = payload_sum pre"
    "ip_headerLen f0 + payload_sum (pre @ [f]) < 65536"
  shows "fs_addFragment now (copy f) h = Some (h\<lparr>fs_data := Some (datagram f0 (pre @ [f])),
      fs_isComplete := (ip_isLastFragment f \<or> fs_isComplete h), fs_lastUpdate := now\<rparr>)"
proof -
  let ?d = "datagram f0 pre"
  have lt: "ip_headerLen f0 + payload_sum pre < 65536" using assms(5) by simp
  note d = datagram_fields [OF assms(1) lt]
  note c = copy_fields [OF assms(2)]
  have hl: "20 \<le> ip_headerLen f0" "ip_headerLen f0 \<le> length f0" using assms(1) by (auto simp: frag_ok_def)
  have pl: "take (length (payload f)) (drop (ip_headerLen f) (copy f)) = payload f"
    using c(3-5) ip_payloadLen_ok [OF assms(2)] assms(2)
    by (metis frag_ok_def ip_payloadLen_nat payload_def)
  have avail: "length (payload f) \<le> length (drop (ip_headerLen f) (copy f))"
    using assms(2) by (simp add: payload_def copy_def frag_ok_def)
  have app: "sb_append (drop (ip_headerLen f) (copy f)) (length (payload f)) ?d
      = Some (Returns (?d @ payload f))"
    using assms(5) d(3) pl avail by (simp add: sb_append_def sb_write_def Let_def)
  have ph: "ip_headerLen (?d @ payload f) = ip_headerLen f0" "ip_payloadLen (?d @ payload f) = payload_sum pre"
    using d hl by (simp_all add: ip_payloadLen_def ip_packetLen_def be16_def ip_headerLen_def nth_append)
  have "ip_setPacketLen (?d @ payload f) (ip_headerLen f0 + payload_sum pre + length (payload f))
      = datagram f0 (pre @ [f])"
    unfolding datagram_def using hl
    by (subst ip_setPacketLen_append) (simp_all add: add.assoc)
  with assms(3,4) d c app ph ip_payloadLen_ok [OF c(6)] show ?thesis
    by (simp add: fs_addFragment_def sb_get_def)
qed

lemma payload_whole: "frag_ok f \<Longrightarrow> copy f = take (ip_headerLen f) f @ payload f"
  unfolding copy_def payload_def frag_ok_def by (metis le_add_diff_inverse take_add)

lemma fs_add_first:
  assumes "frag_ok f" "ip_offset f = 0"
  shows "fs_addFragment now (copy f) ForwardSequential_new = Some (ForwardSequential_new\<lparr>
      fs_data := Some (datagram f [f]), fs_isComplete := ip_isLastFragment f, fs_lastUpdate := now\<rparr>)"
proof -
  note c = copy_fields [OF assms(1)]
  have len: "ip_headerLen f + length (payload f) = ip_packetLen f"
    using assms(1) by (auto simp: payload_def frag_ok_def)
  have "ip_setPacketLen (copy f) (be16 (copy f) 2) = copy f"
    using assms(1) by (intro ip_setPacketLen_same) (auto simp: copy_def frag_ok_def)
  then have "datagram f [f] = copy f"
    using c(4) len by (simp add: datagram_def payload_whole [OF assms(1), symmetric] ip_packetLen_def)
  with assms c SizedBuffer_new_ok [OF c(6)] show ?thesis
    by (simp add: fs_addFragment_def ForwardSequential_new_def)
qed

lemma chain_frag_ok: "chain off fs \<Longrightarrow> f \<in> set fs \<Longrightarrow> frag_ok f \<and> payload f \<noteq> []"
  by (induction off fs rule: chain.induct) auto

lemma wa_assemble_rest:
  assumes "chain (payload_sum pre) fs" "frag_ok f0" "fs_data h = Some (datagram f0 pre)" "\<not> fs_drop h"
    "ip_headerLen f0 + payload_sum (pre @ fs) < 65536"
  shows "\<exists>h'. wa_assemble now (map copy fs) h = Some (Returns h') \<and>
    fs_data h' = Some (datagram f0 (pre @ fs))"
  using assms
proof (induction "payload_sum pre" fs arbitrary: pre h rule: chain.induct)
  case (2 f)
  then show ?case
    using copy_fields(7) [of f] fs_add_next [of f0 f h pre now]
    by (simp add: sb_get_def)
next
  case (3 f g r)
  have ok: "frag_ok f" "ip_offset f = payload_sum pre" using "3.prems"(1) by simp_all
  let ?h = "h\<lparr>fs_data := Some (datagram f0 (pre @ [f])),
      fs_isComplete := (ip_isLastFragment f \<or> fs_isComplete h), fs_lastUpdate := now\<rparr>"
  have "fs_addFragment now (copy f) h = Some ?h"
    using "3.prems" ok by (intro fs_add_next) auto
  moreover have "\<exists>h'. wa_assemble now (map copy (g # r)) ?h = Some (Returns h') \<and>
      fs_data h' = Some (datagram f0 ((pre @ [f]) @ g # r))"
    using "3.prems" by (intro "3.hyps") (auto simp: add.commute)
  ultimately show ?case
    using "3.prems"(4) copy_fields(7) [OF ok(1)] by (simp add: sb_get_def)
qed simp

lemma wa_assemble_chain:
  assumes "split_ok fs"
  shows "\<exists>h. wa_assemble now (map copy fs) ForwardSequential_new = Some (Returns h) \<and>
    fs_data h = Some (datagram (hd fs) fs)"
proof -
  from assms have sp: "chain 0 fs" "ip_headerLen (hd fs) + payload_sum fs < 65536"
    by (simp_all add: split_ok_def)
  then obtain f r where fs: "fs = f # r" by (cases fs) auto
  have f: "frag_ok f" "ip_offset f = 0" using sp(1) fs by (cases r; simp)+
  let ?h = "ForwardSequential_new\<lparr>fs_data := Some (datagram f [f]), fs_isComplete := ip_isLastFragment f,
      fs_lastUpdate := now\<rparr>"
  have "wa_assemble now (map copy fs) ForwardSequential_new = wa_assemble now (map copy r) ?h"
    using fs copy_fields(7) [OF f(1)] fs_add_first [OF f, of now]
    by (simp add: sb_get_def ForwardSequential_new_def)
  moreover have "\<exists>h'. wa_assemble now (map copy r) ?h = Some (Returns h') \<and>
      fs_data h' = Some (datagram f ([f] @ r))"
  proof (cases r)
    case Nil
    then show ?thesis by (simp add: ForwardSequential_new_def)
  next
    case (Cons g r')
    with sp fs f show ?thesis
      by (intro wa_assemble_rest) (auto simp: ForwardSequential_new_def)
  qed
  ultimately show ?thesis using fs by auto
qed

section \<open>Collecting fragments in any order\<close>

definition by_offset :: "bytes list \<Rightarrow> bool" where
  "by_offset ys \<longleftrightarrow> sorted_wrt (<) (map ip_offset ys)"

lemma chain_offsets:
  "chain off fs \<Longrightarrow> by_offset fs \<and> (\<forall>f\<in>set fs. off \<le> ip_offset f)"
proof (induction off fs rule: chain.induct)
  case (3 off f g r)
  then have ih: "by_offset (g # r)" "\<forall>x\<in>set (g # r). off + length (payload f) \<le> ip_offset x"
    and f: "payload f \<noteq> []" "ip_offset f = off" by auto
  have "\<forall>x\<in>set (g # r). off < ip_offset x"
    using ih(2) f(1) by (metis add_leD1 leD le_neq_implies_less length_greater_0_conv less_add_same_cancel1 order_le_less_trans)
  with ih f show ?case by (auto simp: by_offset_def)
qed (auto simp: by_offset_def)

lemma chain_last:
  "chain off fs \<Longrightarrow> (\<forall>f\<in>set fs. ip_isLastFragment f \<longleftrightarrow> f = last fs) \<and>
    ip_offset (last fs) + length (payload (last fs)) = off + payload_sum fs"
proof (induction off fs rule: chain.induct)
  case (3 off f g r)
  have "f \<noteq> last (g # r)"
    using 3 by (metis chain.simps(3) last_in_set list.distinct(1))
  with 3 show ?case by auto
qed auto

lemma wa_find_sorted:
  assumes "by_offset ys" "\<forall>g\<in>set ys. frag_ok g"
  shows "wa_find off before (map copy ys) =
    Returns (if \<exists>g\<in>set ys. ip_offset g = off then Retransmission
             else PlaceAt (before @ map copy (filter (\<lambda>g. ip_offset g < off) ys))
                          (map copy (filter (\<lambda>g. off < ip_offset g) ys)))"
  using assms
proof (induction ys arbitrary: before)
  case (Cons g ys)
  note c = copy_fields [of g]
  have g: "frag_ok g" "\<forall>x\<in>set ys. ip_offset g < ip_offset x" "by_offset ys"
    using Cons.prems by (auto simp: by_offset_def)
  have ih: "wa_find off (before @ [copy g]) (map copy ys) =
      Returns (if \<exists>g\<in>set ys. ip_offset g = off then Retransmission
             else PlaceAt ((before @ [copy g]) @ map copy (filter (\<lambda>g. ip_offset g < off) ys))
                          (map copy (filter (\<lambda>g. off < ip_offset g) ys)))"
    using Cons.prems g by (intro Cons.IH) auto
  consider "ip_offset g = off" | "off < ip_offset g" | "ip_offset g < off" by linarith
  then show ?case
  proof cases
    case 2
    have "filter (\<lambda>g. ip_offset g < off) ys = []" "filter (\<lambda>g. off < ip_offset g) ys = ys"
      using 2 g(2) by (auto simp: filter_empty_conv filter_id_conv)
    moreover have "\<not> (\<exists>x\<in>set ys. ip_offset x = off)" using 2 g(2) by auto
    ultimately show ?thesis using 2 c g(1) by (simp add: sb_get_def)
  qed (use c g ih in \<open>auto simp: sb_get_def\<close>)
qed simp

definition place :: "bytes \<Rightarrow> bytes list \<Rightarrow> bytes list" where
  "place f ys = filter (\<lambda>g. ip_offset g < ip_offset f) ys @ f # filter (\<lambda>g. ip_offset f < ip_offset g) ys"

lemma sorted_filter_offset: "by_offset ys \<Longrightarrow> by_offset (filter P ys)"
  unfolding by_offset_def by (induction ys) auto

lemma place_props:
  assumes "by_offset ys" "\<forall>g\<in>set ys. ip_offset g \<noteq> ip_offset f"
  shows "by_offset (place f ys)" "set (place f ys) = insert f (set ys)"
    "payload_sum (place f ys) = payload_sum ys + length (payload f)"
proof -
  show "by_offset (place f ys)"
    using sorted_filter_offset [OF assms(1)] unfolding by_offset_def place_def
    by (auto simp: sorted_wrt_append)
  show "set (place f ys) = insert f (set ys)" using assms(2) by (fastforce simp: place_def)
  have "payload_sum (filter (\<lambda>g. ip_offset g < ip_offset f) ys)
      + payload_sum (filter (\<lambda>g. ip_offset f < ip_offset g) ys) = payload_sum ys"
    using assms(2) by (induction ys) auto
  then show "payload_sum (place f ys) = payload_sum ys + length (payload f)" by (simp add: place_def)
qed

lemma by_offset_unique:
  assumes "by_offset xs" "by_offset ys" "set xs = set ys"
  shows "xs = ys"
proof (rule map_sorted_distinct_set_unique)
  show "inj_on ip_offset (set xs \<union> set ys)"
    using assms by (auto simp: by_offset_def strict_sorted_iff distinct_map)
qed (use assms in \<open>auto simp: by_offset_def strict_sorted_iff\<close>)

lemma payload_sum_less:
  assumes "by_offset ys" "by_offset fs" "set ys \<subset> set fs" "\<forall>f\<in>set fs. payload f \<noteq> []"
  shows "payload_sum ys < payload_sum fs"
proof -
  have as_sum: "payload_sum zs = (\<Sum>f\<in>set zs. length (payload f))" if "by_offset zs" for zs
    using that by (simp add: payload_sum_def by_offset_def strict_sorted_iff distinct_map sum_list_distinct_conv_sum_set)
  from assms(3) obtain b where "b \<in> set fs - set ys" by blast
  with assms show ?thesis unfolding as_sum [OF assms(1)] as_sum [OF assms(2)]
    by (intro sum_strict_mono2 [of _ _ b]) auto
qed

text \<open>The state while fragments \<open>ys\<close> of the datagram split as \<open>fs\<close> have arrived.\<close>

definition wa_inv :: "bytes list \<Rightarrow> bytes list \<Rightarrow> WaitAllAndSort \<Rightarrow> bool" where
  "wa_inv fs ys s \<longleftrightarrow> set ys \<subset> set fs \<and> by_offset ys \<and> wa_fragments s = map copy ys \<and>
     wa_currentSize s = payload_sum ys \<and>
     wa_finalSize s = (if last fs \<in> set ys then payload_sum fs else 0) \<and>
     \<not> wa_drop s \<and> \<not> wa_isComplete s"

lemma wa_inv_new: "split_ok fs \<Longrightarrow> wa_inv fs [] WaitAllAndSort_new"
  by (auto simp: wa_inv_def split_ok_def by_offset_def WaitAllAndSort_new_def)

lemma split_ok_facts:
  assumes "split_ok fs" "f \<in> set fs"
  shows "frag_ok f" "payload f \<noteq> []" "by_offset fs" "ip_isLastFragment f \<longleftrightarrow> f = last fs"
    "payload_sum fs < 65536" "ip_offset (last fs) + length (payload (last fs)) = payload_sum fs"
proof -
  have c: "chain 0 fs" using assms(1) by (simp add: split_ok_def)
  show "frag_ok f" "payload f \<noteq> []" using chain_frag_ok [OF c assms(2)] by auto
  show "by_offset fs" using chain_offsets [OF c] by simp
  show "ip_isLastFragment f \<longleftrightarrow> f = last fs" using chain_last [OF c] assms(2) by blast
  show "payload_sum fs < 65536" using assms(1) by (simp add: split_ok_def)
  show "ip_offset (last fs) + length (payload (last fs)) = payload_sum fs" using chain_last [OF c] by simp
qed

lemma split_offset_inj: "split_ok fs \<Longrightarrow> f \<in> set fs \<Longrightarrow> g \<in> set fs \<Longrightarrow> ip_offset f = ip_offset g \<Longrightarrow> f = g"
  using split_ok_facts(3) [of fs f]
  by (auto simp: by_offset_def strict_sorted_iff distinct_map inj_on_def)

lemma wa_add_again:
  assumes "split_ok fs" "wa_inv fs ys s" "f \<in> set ys"
  shows "wa_addFragment now f s = Some s"
proof -
  have "\<forall>g\<in>set ys. frag_ok g" using assms split_ok_facts(1) unfolding wa_inv_def by blast
  with assms wa_find_sorted [of ys "ip_offset f" "[]"] show ?thesis
    by (auto simp: wa_addFragment_def wa_inv_def)
qed

lemma wa_add_new:
  assumes "split_ok fs" "wa_inv fs ys s" "f \<in> set fs" "f \<notin> set ys"
  shows "\<exists>s'. wa_addFragment now f s = Some s' \<and> wa_lastUpdate s' = now \<and>
    (if insert f (set ys) = set fs
     then wa_isComplete s' \<and> \<not> wa_drop s' \<and> wa_data s' = Some (datagram (hd fs) fs)
     else wa_inv fs (place f ys) s')"
proof -
  note F = split_ok_facts [OF assms(1,3)]
  have ys: "set ys \<subset> set fs" "by_offset ys" "wa_fragments s = map copy ys"
    "wa_currentSize s = payload_sum ys" "wa_finalSize s = (if last fs \<in> set ys then payload_sum fs else 0)"
    "\<not> wa_drop s" "\<not> wa_isComplete s" using assms(2) by (auto simp: wa_inv_def)
  have ok: "\<forall>g\<in>set ys. frag_ok g" using ys(1) split_ok_facts(1) [OF assms(1)] by blast
  have ne: "\<forall>g\<in>set ys. ip_offset g \<noteq> ip_offset f"
    using split_offset_inj [OF assms(1)] assms(3,4) ys(1) by blast
  note P = place_props [OF ys(2) ne]
  have sub: "set (place f ys) \<subseteq> set fs" using P(2) ys(1) assms(3) by auto
  let ?cur = "payload_sum (place f ys)"
  let ?fin = "if last fs \<in> set (place f ys) then payload_sum fs else 0"
  have find: "wa_find (ip_offset f) [] (wa_fragments s) =
      Returns (PlaceAt (map copy (filter (\<lambda>g. ip_offset g < ip_offset f) ys))
                       (map copy (filter (\<lambda>g. ip_offset f < ip_offset g) ys)))"
    using wa_find_sorted [OF ys(2) ok, of "ip_offset f" "[]"] ne by (auto simp: ys(3))
  have le: "?cur \<le> payload_sum fs"
  proof (cases "set (place f ys) = set fs")
    case True
    with by_offset_unique [OF P(1) F(3)] show ?thesis by simp
  next
    case False
    with sub payload_sum_less [OF P(1) F(3)] split_ok_facts(2) [OF assms(1)] show ?thesis by fastforce
  qed
  have cur: "(wa_currentSize s + ip_payloadLen f) mod 2 ^ 64 = ?cur"
    using le F(5) by (simp add: ys(4) ip_payloadLen_ok [OF F(1)] P(3))
  have fin: "(if ip_isLastFragment f then (ip_offset f + ip_payloadLen f) mod 2 ^ 64 else wa_finalSize s) = ?fin"
    using F(4,5,6) P(2) ip_payloadLen_ok [OF F(1)] ys(5) by auto
  have glue: "map copy (filter (\<lambda>g. ip_offset g < ip_offset f) ys) @
      copy f # map copy (filter (\<lambda>g. ip_offset f < ip_offset g) ys) = map copy (place f ys)"
    by (simp add: place_def)
  let ?s1 = "s\<lparr>wa_fragments := map copy (place f ys), wa_finalSize := ?fin, wa_currentSize := ?cur\<rparr>"
  have step: "wa_addFragment now f s =
      (if ?fin \<noteq> 0 \<and> ?cur > ?fin then Some (?s1\<lparr>wa_drop := True\<rparr>)
       else if ?cur = ?fin then
         (case wa_assemble now (map copy (place f ys)) ForwardSequential_new of
            None \<Rightarrow> None
          | Some Throws \<Rightarrow> Some (?s1\<lparr>wa_drop := True\<rparr>)
          | Some (Returns h) \<Rightarrow>
              Some (?s1\<lparr>wa_data := fs_data h, wa_isComplete := True, wa_lastUpdate := now\<rparr>))
       else Some (?s1\<lparr>wa_lastUpdate := now\<rparr>))"
    unfolding wa_addFragment_def find SizedBuffer_new_ok [OF F(1)] Let_def may_throw.case placed.case
      option.case glue cur fin ..
  have pos: "0 < ?cur" using P(3) F(2) by simp
  show ?thesis
  proof (cases "insert f (set ys) = set fs")
    case True
    then have eq: "place f ys = fs" using by_offset_unique [OF P(1) F(3)] P(2) by simp
    have "last fs \<in> set (place f ys)" using eq assms(3) by (cases fs) auto
    then have "?cur = ?fin" using eq by simp
    with step eq True wa_assemble_chain [OF assms(1), of now] ys(6) show ?thesis by auto
  next
    case False
    then have "set (place f ys) \<subset> set fs" using P(2) sub by blast
    moreover from this have "?cur < payload_sum fs"
      using payload_sum_less [OF P(1) F(3)] split_ok_facts(2) [OF assms(1)] by blast
    ultimately show ?thesis
      using step False pos P(1) ys by (auto simp: wa_inv_def)
  qed
qed

section \<open>No undefined behaviour\<close>

text \<open>What the entries of the map satisfy when every received fragment was well-formed.\<close>

definition wa_stored :: "WaitAllAndSort \<Rightarrow> bool" where
  "wa_stored s \<longleftrightarrow> (\<forall>g\<in>set (wa_fragments s). frag_ok g \<and> copy g = g) \<and> \<not> wa_drop s \<and> \<not> wa_isComplete s"

definition fr_stored :: "frag_state \<Rightarrow> bool" where
  "fr_stored st \<longleftrightarrow> (\<forall>i a. fr_map st i = Some a \<longrightarrow> wa_stored a)"

lemma sb_append_defined:
  "len \<le> length buf \<Longrightarrow> sb_append buf len m \<noteq> None"
  by (simp add: sb_append_def sb_write_def Let_def)

lemma fs_add_defined:
  assumes "frag_ok f"
  shows "\<exists>h'. fs_addFragment now f h = Some h' \<and> (fs_drop h' \<or> fs_data h' \<noteq> None)"
proof (cases "fs_data h")
  case None
  with SizedBuffer_new_ok [OF assms] show ?thesis by (simp add: fs_addFragment_def Let_def)
next
  case (Some b)
  have "length (payload f) \<le> length (drop (ip_headerLen f) f)" by (simp add: payload_def)
  from sb_append_defined [OF this, of b] Some ip_payloadLen_ok [OF assms] show ?thesis
    by (auto simp: fs_addFragment_def Let_def split: may_throw.splits)
qed

lemma wa_assemble_defined:
  "\<forall>g\<in>set gs. frag_ok g \<Longrightarrow> wa_assemble now gs h \<noteq> None \<and>
    (\<forall>h'. wa_assemble now gs h = Some (Returns h') \<longrightarrow> fs_data h' \<noteq> None \<or> gs = [])"
proof (induction gs arbitrary: h)
  case (Cons g gs)
  obtain h1 where h1: "fs_addFragment now g h = Some h1" "fs_drop h1 \<or> fs_data h1 \<noteq> None"
    using fs_add_defined Cons.prems by (metis list.set_intros(1))
  show ?case
  proof (cases "g = [] \<or> fs_drop h1")
    case True
    with h1 show ?thesis by (auto simp: sb_get_def)
  next
    case False
    with h1 have "wa_assemble now (g # gs) h = wa_assemble now gs h1" by (simp add: sb_get_def)
    moreover have "fs_data h1 \<noteq> None" using h1 False by simp
    ultimately show ?thesis using Cons.IH [of h1] Cons.prems by (cases gs) auto
  qed
qed simp

lemma wa_find_parts:
  "wa_find off before gs = Returns (PlaceAt b a) \<Longrightarrow> b @ a = before @ gs"
  by (induction off before gs rule: wa_find.induct) (auto split: may_throw.splits if_splits)

lemma wa_add_defined:
  assumes "frag_ok f" "wa_stored s"
  shows "\<exists>s'. wa_addFragment now f s = Some s' \<and> \<not> (wa_drop s' \<and> wa_isComplete s') \<and>
    (wa_isComplete s' \<longrightarrow> wa_data s' \<noteq> None) \<and>
    (\<not> wa_drop s' \<and> \<not> wa_isComplete s' \<longrightarrow> wa_stored s')"
proof (cases "wa_find (ip_offset f) [] (wa_fragments s)")
  case Throws
  with assms(2) show ?thesis by (simp add: wa_addFragment_def wa_stored_def)
next
  case (Returns r)
  show ?thesis
  proof (cases r)
    case Retransmission
    with Returns assms(2) show ?thesis by (simp add: wa_addFragment_def wa_stored_def)
  next
    case (PlaceAt before after)
    then have "before @ after = wa_fragments s" using wa_find_parts Returns by fastforce
    then have ok: "\<forall>g\<in>set (before @ copy f # after). frag_ok g \<and> copy g = g"
      using assms copy_fields(6,8) [OF assms(1)] unfolding wa_stored_def
      by (metis Un_iff list.set_intros(2) set_ConsD set_append)
    then have "\<forall>g\<in>set (before @ copy f # after). frag_ok g" by blast
    from wa_assemble_defined [OF this, of now ForwardSequential_new]
    have def: "wa_assemble now (before @ copy f # after) ForwardSequential_new \<noteq> None"
      "\<And>h. wa_assemble now (before @ copy f # after) ForwardSequential_new = Some (Returns h)
        \<Longrightarrow> fs_data h \<noteq> None" by auto
    from assms(2) have fl: "\<not> wa_drop s" "\<not> wa_isComplete s" by (auto simp: wa_stored_def)
    show ?thesis
    proof (cases "wa_assemble now (before @ copy f # after) ForwardSequential_new")
      case None
      with def(1) show ?thesis by simp
    next
      case (Some a)
      with Returns PlaceAt def(2) fl ok show ?thesis
        by (cases a) (auto simp: wa_addFragment_def SizedBuffer_new_ok [OF assms(1)] Let_def wa_stored_def)
    qed
  qed
qed

lemma fr_stored_purge: "fr_stored st \<Longrightarrow> fr_stored (frag_purge now st)"
  by (auto simp: fr_stored_def frag_purge_def split: option.splits if_splits)

lemma wa_stored_new: "wa_stored WaitAllAndSort_new"
  by (simp add: wa_stored_def WaitAllAndSort_new_def)

lemma Handle_defined:
  assumes "frag_ok f" "fr_stored st"
  shows "\<exists>out st'. HandleIpFragment now f st = Some (out, st') \<and> fr_stored st'"
proof -
  let ?st1 = "frag_purge now st" and ?i = "ip_packetId f"
  let ?a = "case fr_map ?st1 ?i of None \<Rightarrow> WaitAllAndSort_new | Some a \<Rightarrow> a"
  have st1: "fr_stored ?st1" by (rule fr_stored_purge [OF assms(2)])
  then have "wa_stored ?a" by (auto simp: fr_stored_def wa_stored_new split: option.split)
  from wa_add_defined [OF assms(1) this, of now] obtain s' where
    "wa_addFragment now f ?a = Some s'" "\<not> (wa_drop s' \<and> wa_isComplete s')"
    "wa_isComplete s' \<longrightarrow> wa_data s' \<noteq> None" "\<not> wa_drop s' \<and> \<not> wa_isComplete s' \<longrightarrow> wa_stored s'" by blast
  with st1 show ?thesis
    by (auto simp: HandleIpFragment_def Let_def fr_stored_def)
qed

text \<open>A run over a sequence of (time, fragment) events: the outputs and the final state.\<close>

fun HandleIpFragments :: "(int \<times> bytes) list \<Rightarrow> frag_state \<Rightarrow> (bytes option list \<times> frag_state) option" where
  "HandleIpFragments [] st = Some ([], st)"
| "HandleIpFragments ((now, f) # evs) st =
     (case HandleIpFragment now f st of
        None \<Rightarrow> None
      | Some (out, st1) \<Rightarrow> map_option (\<lambda>(outs, st2). (out # outs, st2)) (HandleIpFragments evs st1))"

text \<open>
  Whatever well-formed fragments arrive, in whatever order, mixture and time, the handler
  stays inside its buffers: it never reads out of bounds, never erases a map entry twice and never
  returns a missing packet.
\<close>

theorem ip_fragments_defined:
  assumes "\<forall>(now, f)\<in>set evs. frag_ok f"
  shows "HandleIpFragments evs frag_state_new \<noteq> None"
proof -
  have "fr_stored st \<Longrightarrow> \<forall>(now, f)\<in>set es. frag_ok f \<Longrightarrow> HandleIpFragments es st \<noteq> None" for es st
  proof (induction es arbitrary: st)
    case (Cons e es)
    obtain now f where e: "e = (now, f)" by force
    from Handle_defined [of f st now] Cons.prems e obtain out st1 where
      "HandleIpFragment now f st = Some (out, st1)" "fr_stored st1" by auto
    with Cons.IH [of st1] Cons.prems e show ?case by auto
  qed simp
  moreover have "fr_stored frag_state_new" by (simp add: fr_stored_def frag_state_new_def)
  ultimately show ?thesis using assms by blast
qed

definition example_fragment :: "u8 \<Rightarrow> u8 \<Rightarrow> bytes \<Rightarrow> bytes" where
  "example_fragment flags off p =
     [0x45, 0, 0, of_nat (20 + length p), 0, 7, flags, off, 64, 17, 0, 0, 10, 0, 0, 1, 10, 0, 0, 2] @ p"

lemmas ip_field_defs = ip_headerLen_def ip_packetLen_def ip_packetId_def ip_offset_def
  ip_isLastFragment_def ip_fragmentFlags_def be16_def

lemma example_fragments:
  "split_ok [example_fragment 0x20 0 [1, 2, 3, 4, 5, 6, 7, 8], example_fragment 0 1 [9, 10]]"
  "ip_packetId (example_fragment 0x20 0 [1, 2, 3, 4, 5, 6, 7, 8]) = 7"
  "ip_packetId (example_fragment 0 1 [9, 10]) = 7"
  by (simp_all add: split_ok_def frag_ok_def payload_def example_fragment_def ip_field_defs)

theorem ip_fragments_defined_witness:
  "HandleIpFragments [(5, example_fragment 0 1 [9, 10])] frag_state_new \<noteq> None"
  using ip_fragments_defined [of "[(5, example_fragment 0 1 [9, 10])]"] example_fragments(1)
  by (simp add: split_ok_def)

section \<open>Reassembly through the handler\<close>

definition fr_inv :: "nat \<Rightarrow> bytes list \<Rightarrow> int \<Rightarrow> bytes list \<Rightarrow> frag_state \<Rightarrow> bool" where
  "fr_inv i fs t0 ys st \<longleftrightarrow>
     (case fr_map st i of None \<Rightarrow> ys = [] | Some a \<Rightarrow> wa_inv fs ys a \<and> t0 \<le> wa_lastUpdate a)"

lemma fr_inv_purge:
  "fr_inv i fs t0 ys st \<Longrightarrow> now < t0 + frag_timeout \<Longrightarrow> fr_inv i fs t0 ys (frag_purge now st)"
  by (auto simp: fr_inv_def frag_purge_def split: option.splits)

lemma Handle_other:
  assumes "HandleIpFragment now f st = Some (out, st')" "ip_packetId f \<noteq> i"
  shows "fr_map st' i = fr_map (frag_purge now st) i"
  using assms by (auto simp: HandleIpFragment_def Let_def split: option.splits if_splits)

lemma Handle_same:
  assumes "split_ok fs" "fr_inv i fs t0 ys st" "f \<in> set fs" "ip_packetId f = i"
    "t0 \<le> now" "now < t0 + frag_timeout" "insert f (set ys) \<noteq> set fs"
  shows "\<exists>st' ys'. HandleIpFragment now f st = Some (None, st') \<and> fr_inv i fs t0 ys' st' \<and>
    set ys' = insert f (set ys)"
proof -
  let ?st1 = "frag_purge now st"
  let ?a = "case fr_map ?st1 i of None \<Rightarrow> WaitAllAndSort_new | Some a \<Rightarrow> a"
  have p: "fr_inv i fs t0 ys ?st1" by (rule fr_inv_purge [OF assms(2,6)])
  then have a: "wa_inv fs ys ?a" "ys \<noteq> [] \<Longrightarrow> t0 \<le> wa_lastUpdate ?a"
    using wa_inv_new [OF assms(1)] by (auto simp: fr_inv_def split: option.splits)
  show ?thesis
  proof (cases "f \<in> set ys")
    case True
    from True have "ys \<noteq> []" by (cases ys) simp_all
    note l = a(2) [OF this]
    define a where "a = ?a"
    have fl: "\<not> wa_drop a" "\<not> wa_isComplete a" using a(1) by (simp_all add: wa_inv_def a_def)
    have "wa_addFragment now f a = Some a"
      using wa_add_again [OF assms(1) a(1) True] by (simp add: a_def)
    with fl assms(4) have "HandleIpFragment now f st = Some (None, ?st1\<lparr>fr_map := (fr_map ?st1)(i \<mapsto> a)\<rparr>)"
      by (simp add: HandleIpFragment_def Let_def a_def)
    with a(1) l True show ?thesis by (auto simp: fr_inv_def a_def [symmetric] insert_absorb)
  next
    case False
    from wa_add_new [OF assms(1) a(1) assms(3) False, of now] assms(7) obtain s' where
      s': "wa_addFragment now f ?a = Some s'" "wa_lastUpdate s' = now" "wa_inv fs (place f ys) s'" by auto
    have "set (place f ys) = insert f (set ys)"
    proof (rule place_props(2))
      show "by_offset ys" using a(1) by (simp add: wa_inv_def)
      show "\<forall>g\<in>set ys. ip_offset g \<noteq> ip_offset f"
        using split_offset_inj [OF assms(1)] assms(3) False a(1) unfolding wa_inv_def by blast
    qed
    with s' assms(4,5) show ?thesis
      by (intro exI [of _ "?st1\<lparr>fr_map := (fr_map ?st1)(i \<mapsto> s')\<rparr>"] exI [of _ "place f ys"])
        (auto simp: HandleIpFragment_def Let_def wa_inv_def fr_inv_def)
  qed
qed

lemma Handle_last:
  assumes "split_ok fs" "fr_inv i fs t0 ys st" "f \<in> set fs" "f \<notin> set ys" "ip_packetId f = i"
    "now < t0 + frag_timeout" "insert f (set ys) = set fs"
  shows "\<exists>st'. HandleIpFragment now f st = Some (Some (datagram (hd fs) fs), st') \<and> fr_map st' i = None"
proof -
  let ?st1 = "frag_purge now st"
  let ?a = "case fr_map ?st1 i of None \<Rightarrow> WaitAllAndSort_new | Some a \<Rightarrow> a"
  have "fr_inv i fs t0 ys ?st1" by (rule fr_inv_purge [OF assms(2,6)])
  then have a: "wa_inv fs ys ?a"
    using wa_inv_new [OF assms(1)] by (auto simp: fr_inv_def split: option.splits)
  from wa_add_new [OF assms(1) a assms(3,4), of now] assms(7) obtain s' where
    "wa_addFragment now f ?a = Some s'" "wa_isComplete s'" "\<not> wa_drop s'"
    "wa_data s' = Some (datagram (hd fs) fs)" by auto
  with assms(5) show ?thesis by (auto simp: HandleIpFragment_def Let_def)
qed

text \<open>The fragments of packet \<open>i\<close> among the events.\<close>

definition frags_of :: "nat \<Rightarrow> (int \<times> bytes) list \<Rightarrow> bytes set" where
  "frags_of i evs = {f. \<exists>t. (t, f) \<in> set evs \<and> ip_packetId f = i}"

lemma frags_of_Cons:
  "frags_of i ((t, f) # evs) = (if ip_packetId f = i then {f} else {}) \<union> frags_of i evs"
  by (auto simp: frags_of_def)

lemma Handle_collect:
  assumes "split_ok fs" "\<forall>(t, f)\<in>set evs. frag_ok f \<and> t0 \<le> t \<and> t < t0 + frag_timeout"
    "fr_stored st" "fr_inv i fs t0 ys st" "set ys \<union> frags_of i evs \<subset> set fs"
  shows "\<exists>outs st' ys'. HandleIpFragments evs st = Some (outs, st') \<and> length outs = length evs \<and>
    (\<forall>k<length evs. ip_packetId (snd (evs ! k)) = i \<longrightarrow> outs ! k = None) \<and>
    fr_stored st' \<and> fr_inv i fs t0 ys' st' \<and> set ys' = set ys \<union> frags_of i evs"
  using assms
proof (induction evs arbitrary: st ys)
  case Nil
  then show ?case by (auto simp: frags_of_def)
next
  case (Cons e evs)
  obtain t f where e: "e = (t, f)" by force
  have tf: "frag_ok f" "t0 \<le> t" "t < t0 + frag_timeout" using Cons.prems(2) e by auto
  obtain out st1 where h: "HandleIpFragment t f st = Some (out, st1)" "fr_stored st1"
    using Handle_defined [OF tf(1) Cons.prems(3)] by blast
  have "\<exists>ys1. fr_inv i fs t0 ys1 st1 \<and> set ys1 = set ys \<union> (if ip_packetId f = i then {f} else {}) \<and>
      (ip_packetId f = i \<longrightarrow> out = None)"
  proof (cases "ip_packetId f = i")
    case True
    with Cons.prems(5) e have "f \<in> set fs" "insert f (set ys) \<noteq> set fs"
      by (auto simp: frags_of_Cons)
    from Handle_same [OF Cons.prems(1,4) this(1) True tf(2,3) this(2)] h True show ?thesis by auto
  next
    case False
    have "fr_inv i fs t0 ys st1"
      using fr_inv_purge [OF Cons.prems(4) tf(3)] Handle_other [OF h(1) False]
      by (simp add: fr_inv_def)
    with False show ?thesis by auto
  qed
  then obtain ys1 where ys1: "fr_inv i fs t0 ys1 st1"
    "set ys1 = set ys \<union> (if ip_packetId f = i then {f} else {})" "ip_packetId f = i \<longrightarrow> out = None" by blast
  have un: "set ys1 \<union> frags_of i evs = set ys \<union> frags_of i (e # evs)"
    using ys1(2) e by (auto simp: frags_of_Cons)
  obtain outs st' ys' where r: "HandleIpFragments evs st1 = Some (outs, st')" "length outs = length evs"
    "\<forall>k<length evs. ip_packetId (snd (evs ! k)) = i \<longrightarrow> outs ! k = None"
    "fr_stored st'" "fr_inv i fs t0 ys' st'" "set ys' = set ys1 \<union> frags_of i evs"
    using Cons.IH [OF Cons.prems(1) _ h(2) ys1(1)] Cons.prems(2,5) un by auto
  have "\<forall>k<length (e # evs). ip_packetId (snd ((e # evs) ! k)) = i \<longrightarrow> (out # outs) ! k = None"
    using r(3) ys1(3) e by (auto simp: less_Suc_eq_0_disj)
  with r h(1) e un show ?case by (intro exI [of _ "out # outs"] exI [of _ st'] exI [of _ ys']) auto
qed

lemma HandleIpFragments_snoc:
  "HandleIpFragments evs st = Some (outs, st1) \<Longrightarrow> HandleIpFragment t f st1 = Some (out, st2) \<Longrightarrow>
    HandleIpFragments (evs @ [(t, f)]) st = Some (outs @ [out], st2)"
  by (induction evs st arbitrary: outs rule: HandleIpFragments.induct) (auto split: option.splits)

text \<open>
  C2. Let \<open>fs\<close> be the fragments of a datagram with identification \<open>i\<close>. If all of them arrive
  within 60 seconds, in any order, with any retransmissions and interleaved with any other
  well-formed fragments, then nothing is returned for \<open>i\<close> until the last missing one arrives, and
  that one returns exactly the original datagram (first header with the total length, payloads
  concatenated) and frees the entry.
\<close>

theorem ip_reassembly:
  assumes "split_ok fs" "\<forall>f\<in>set fs. ip_packetId f = i"
    "\<forall>(t, g)\<in>set (evs @ [(now, f)]). frag_ok g \<and> t0 \<le> t \<and> t < t0 + frag_timeout"
    "f \<notin> frags_of i evs" "insert f (frags_of i evs) = set fs"
  shows "\<exists>outs st. HandleIpFragments (evs @ [(now, f)]) frag_state_new
      = Some (outs @ [Some (datagram (hd fs) fs)], st) \<and> length outs = length evs \<and>
    (\<forall>k<length evs. ip_packetId (snd (evs ! k)) = i \<longrightarrow> outs ! k = None) \<and> fr_map st i = None"
proof -
  have start: "fr_stored frag_state_new" "fr_inv i fs t0 [] frag_state_new"
    by (simp_all add: fr_stored_def fr_inv_def frag_state_new_def)
  have sub: "set [] \<union> frags_of i evs \<subset> set fs" using assms(4,5) by auto
  obtain outs st1 ys where r: "HandleIpFragments evs frag_state_new = Some (outs, st1)"
    "length outs = length evs" "\<forall>k<length evs. ip_packetId (snd (evs ! k)) = i \<longrightarrow> outs ! k = None"
    "fr_stored st1" "fr_inv i fs t0 ys st1" "set ys = frags_of i evs"
    using Handle_collect [OF assms(1) _ start sub] assms(3) by auto
  have f: "f \<in> set fs" using assms(5) by blast
  have t: "now < t0 + frag_timeout" using assms(3) by auto
  have ys: "f \<notin> set ys" "insert f (set ys) = set fs" using r(6) assms(4,5) by auto
  have i: "ip_packetId f = i" using assms(2) f by blast
  from Handle_last [OF assms(1) r(5) f ys(1) i t ys(2)] obtain st where
    st: "HandleIpFragment now f st1 = Some (Some (datagram (hd fs) fs), st)" "fr_map st i = None" by blast
  from HandleIpFragments_snoc [OF r(1) st(1)] r(2,3) st(2) show ?thesis by blast
qed

theorem ip_reassembly_witness:
  "\<exists>outs st. HandleIpFragments [(5, example_fragment 0 1 [9, 10]),
      (6, example_fragment 0x20 0 [1, 2, 3, 4, 5, 6, 7, 8])] frag_state_new =
    Some (outs @ [Some (example_fragment 0x20 0 [1, 2, 3, 4, 5, 6, 7, 8, 9, 10])], st) \<and> fr_map st 7 = None"
proof -
  let ?a = "example_fragment 0x20 0 [1, 2, 3, 4, 5, 6, 7, 8]" and ?b = "example_fragment 0 1 [9, 10]"
  have ne: "?a \<noteq> ?b" by (simp add: example_fragment_def)
  have fo: "frags_of 7 [(5, ?b)] = {?b}" using example_fragments(3) by (auto simp: frags_of_def)
  have ok: "frag_ok ?a" "frag_ok ?b" using example_fragments(1) by (simp_all add: split_ok_def)
  have dg: "datagram ?a [?a, ?b] = example_fragment 0x20 0 [1, 2, 3, 4, 5, 6, 7, 8, 9, 10]"
    by (simp add: datagram_def payload_def example_fragment_def ip_field_defs ip_setPacketLen_def)
  from ip_reassembly [of "[?a, ?b]" 7 "[(5, ?b)]" 6 ?a 0] example_fragments ne fo ok dg
  show ?thesis by (auto simp: frag_timeout_def)
qed

text \<open>
  The IP length is not compared with the bytes that were captured: a fragment that claims
  more bytes than the frame holds is copied past the end of the frame.
\<close>

theorem ip_fragment_overread:
  "HandleIpFragment 0 (take 24 (example_fragment 0x20 0 [1, 2, 3, 4, 5, 6, 7, 8])) frag_state_new = None"
  by (simp add: HandleIpFragment_def frag_purge_def frag_state_new_def frag_timeout_def Let_def
      wa_addFragment_def WaitAllAndSort_new_def SizedBuffer_new_def sb_write_def example_fragment_def
      ip_field_defs)

end
