(* ===== verification/OrkMixer.thy ===== *)
theory OrkMixer
  imports OrkPrelude
begin

text \<open>
  The RTP mixer (orkaudio/filters/rtpmixer/RtpMixer.cpp): the filter that places the PCM chunks of
  the two (or more) sides of a call into one circular buffer by RTP timestamp, adds them with
  saturation, and ships the mixed samples when enough are available.

  Pointers into the circular buffer are indices (the source's pointer minus \<open>m_buffer\<close>), buffers
  are functions from indices to samples, timestamps are 32-bit words. The \<open>double\<close> variables of
  the source only ever hold integers below \<open>2 ^ 33\<close> in absolute value, which a double represents
  exactly, and are \<open>int\<close> here; the conversion of such a value to \<open>unsigned int\<close> keeps its low 32
  bits. Logging and \<open>m_toLog\<close> are left out. \<open>CONFIG.m_tapeNumChannels\<close> is an argument \<open>tnc\<close>.
\<close>

section \<open>State\<close>

definition NUM_SAMPLES_CIRCULAR_BUFFER :: int where
  "NUM_SAMPLES_CIRCULAR_BUFFER = 16000"

definition NUM_SAMPLES_TRIGGER :: int where
  "NUM_SAMPLES_TRIGGER = 12000"

definition NUM_SAMPLES_SHIPMENT_HOLDOFF :: int where
  "NUM_SAMPLES_SHIPMENT_HOLDOFF = 11000"

datatype mx_encoding = MxPcm | MxAlaw | MxUlaw | MxOther

record mx_chunk =
  ck_eos :: bool
  ck_encoding :: mx_encoding
  ck_numBytes :: nat
  ck_timestamp :: u32
  ck_seq :: u32
  ck_channel :: nat
  ck_samples :: "int list"

record mx_stats =
  st_misses :: int
  st_maxGap :: int
  st_outOfOrder :: int
  st_discontinuities :: int

definition mx_stats_zero :: mx_stats where
  "mx_stats_zero = \<lparr>st_misses = 0, st_maxGap = 0, st_outOfOrder = 0, st_discontinuities = 0\<rparr>"

text \<open>Of the last chunk of a side only sequence number and timestamp are read again.\<close>

type_synonym mx_last = "(u32 \<times> u32) option"

record RtpMixerChannel =
  mc_delta :: int
  mc_buffer :: "int \<Rightarrow> int"
  mc_last :: mx_last
  mc_stats :: mx_stats
  mc_lastTimestamp :: u32

definition RtpMixerChannel_new :: RtpMixerChannel where
  "RtpMixerChannel_new = \<lparr>mc_delta = 0, mc_buffer = (\<lambda>_. 0), mc_last = None, mc_stats = mx_stats_zero,
     mc_lastTimestamp = 0\<rparr>"

text \<open>A shipped chunk: the mixed samples and, for multi-channel output, the channel buffers.\<close>

record mx_shipped =
  sh_samples :: "int list"
  sh_channels :: "int list option list"
  sh_channel :: nat

record RtpMixer =
  mx_writePtr :: int
  mx_readPtr :: int
  mx_readTimestamp :: u32
  mx_writeTimestamp :: u32
  mx_buffer :: "int \<Rightarrow> int"
  mx_shippedSamples :: u32
  mx_delta :: int
  mx_invalidReported :: bool
  mx_processed :: nat
  mx_error :: bool
  mx_oneS1 :: bool
  mx_lastTimestampS1 :: u32
  mx_lastTimestampS2 :: u32
  mx_lastS1 :: mx_last
  mx_lastS2 :: mx_last
  mx_statsS1 :: mx_stats
  mx_statsS2 :: mx_stats
  mx_trigger :: int
  mx_holdoff :: int
  mx_channels :: "RtpMixerChannel list"
  mx_numOut :: int
  mx_queue :: "mx_shipped list"

definition RtpMixer_new :: RtpMixer where
  "RtpMixer_new = \<lparr>mx_writePtr = 0, mx_readPtr = 0, mx_readTimestamp = 0, mx_writeTimestamp = 0,
     mx_buffer = (\<lambda>_. 0), mx_shippedSamples = 0, mx_delta = 0, mx_invalidReported = False,
     mx_processed = 0, mx_error = False, mx_oneS1 = False, mx_lastTimestampS1 = 0,
     mx_lastTimestampS2 = 0, mx_lastS1 = None, mx_lastS2 = None, mx_statsS1 = mx_stats_zero,
     mx_statsS2 = mx_stats_zero, mx_trigger = NUM_SAMPLES_TRIGGER,
     mx_holdoff = NUM_SAMPLES_SHIPMENT_HOLDOFF, mx_channels = [], mx_numOut = 1, mx_queue = []\<rparr>"

definition mx_CreateChannels :: "int \<Rightarrow> nat \<Rightarrow> RtpMixer \<Rightarrow> RtpMixer" where
  "mx_CreateChannels tnc channelNumber m =
     (if mx_numOut m = 1 then m
      else if tnc \<le> 1 then m
      else if channelNumber \<le> length (mx_channels m) then m
      else m\<lparr>mx_channels := mx_channels m @
               replicate (channelNumber - length (mx_channels m)) RtpMixerChannel_new\<rparr>)"

definition mx_DoStats :: "u32 \<times> u32 \<Rightarrow> u32 \<times> u32 \<Rightarrow> mx_stats \<Rightarrow> mx_stats" where
  "mx_DoStats details lastDetails s =
     (let seqDelta = uint (fst details) - uint (fst lastDetails);
          tsDelta = uint (snd details) - uint (snd lastDetails)
      in if \<bar>seqDelta\<bar> > 1000 \<and> \<bar>tsDelta\<bar> > 160000
         then s\<lparr>st_discontinuities := st_discontinuities s + 1\<rparr>
         else (let s1 = (if seqDelta > st_maxGap s then s\<lparr>st_maxGap := to_int32 seqDelta\<rparr> else s);
                   s2 = (if seqDelta < 0 then s1\<lparr>st_outOfOrder := st_outOfOrder s1 + 1\<rparr> else s1)
               in if seqDelta \<noteq> 1 \<and> fst details \<noteq> 1 then s2\<lparr>st_misses := st_misses s2 + 1\<rparr> else s2))"

section \<open>The circular buffer\<close>

definition mx_UsedSpace :: "RtpMixer \<Rightarrow> int" where
  "mx_UsedSpace m =
     (if mx_writePtr m \<ge> mx_readPtr m then mx_writePtr m - mx_readPtr m
      else NUM_SAMPLES_CIRCULAR_BUFFER + mx_writePtr m - mx_readPtr m)"

definition mx_FreeSpace :: "RtpMixer \<Rightarrow> int" where
  "mx_FreeSpace m = NUM_SAMPLES_CIRCULAR_BUFFER - mx_UsedSpace m"

definition ptr_add :: "int \<Rightarrow> int \<Rightarrow> int" where
  "ptr_add p off =
     (if p + off \<ge> NUM_SAMPLES_CIRCULAR_BUFFER then off - (NUM_SAMPLES_CIRCULAR_BUFFER - p) else p + off)"

definition ptr_sub :: "int \<Rightarrow> int \<Rightarrow> int" where
  "ptr_sub p off = (if p - off < 0 then NUM_SAMPLES_CIRCULAR_BUFFER - off + p else p - off)"

definition ptr_next :: "int \<Rightarrow> int" where
  "ptr_next p = (if p + 1 \<ge> NUM_SAMPLES_CIRCULAR_BUFFER then 0 else p + 1)"

definition mx_Reset :: "u32 \<Rightarrow> RtpMixer \<Rightarrow> RtpMixer" where
  "mx_Reset ts m = m\<lparr>mx_writePtr := 0, mx_readPtr := 0, mx_writeTimestamp := ts, mx_readTimestamp := ts\<rparr>"

definition clamp16 :: "int \<Rightarrow> int" where
  "clamp16 v = (if v > 32767 then 32767 else if v < -32768 then -32768 else v)"

text \<open>The silence loop of \<open>StoreRtpPacket\<close>: the mix and every channel buffer are zeroed in step.\<close>

fun mx_silence :: "nat \<Rightarrow> RtpMixer \<Rightarrow> RtpMixer" where
  "mx_silence 0 m = m"
| "mx_silence (Suc n) m =
     mx_silence n (m\<lparr>mx_buffer := (mx_buffer m)(mx_writePtr m := 0),
                     mx_channels := map (\<lambda>c. c\<lparr>mc_buffer := (mc_buffer c)(mx_writePtr m := 0)\<rparr>) (mx_channels m),
                     mx_writePtr := ptr_next (mx_writePtr m)\<rparr>)"

text \<open>The mixing loop from an index: add with saturation, copy into the side's own buffer.\<close>

fun mx_mix :: "int list \<Rightarrow> int \<Rightarrow> nat \<Rightarrow> RtpMixer \<Rightarrow> RtpMixer" where
  "mx_mix [] p ch m = m"
| "mx_mix (v # vs) p ch m =
     mx_mix vs (ptr_next p) ch
       (m\<lparr>mx_buffer := (mx_buffer m)(p := clamp16 (mx_buffer m p + v)),
          mx_channels := (if mx_channels m = [] then [] else
            (mx_channels m)[ch := (mx_channels m ! ch)\<lparr>mc_buffer := (mc_buffer (mx_channels m ! ch))(p := v)\<rparr>])\<rparr>)"

definition ck_numSamples :: "mx_chunk \<Rightarrow> nat" where
  "ck_numSamples c = (case ck_encoding c of MxPcm \<Rightarrow> ck_numBytes c div 2 | _ \<Rightarrow> ck_numBytes c)"

text \<open>
  \<open>StoreRtpPacket\<close>; indexing the channels with an unknown channel is undefined, and so is mixing a
  payload that holds fewer samples than the chunk announces.
\<close>

definition mx_StoreRtpPacket :: "mx_chunk \<Rightarrow> u32 \<Rightarrow> RtpMixer \<Rightarrow> RtpMixer outcome" where
  "mx_StoreRtpPacket c cts m =
     (if mx_channels m \<noteq> [] \<and> \<not> (1 \<le> ck_channel c \<and> ck_channel c \<le> length (mx_channels m)) then Undefined
      else
        let end64 = uint cts + int (ck_numSamples c)
        in if end64 \<ge> 4294967296 then Done m
           else
             let silenceSize = end64 - uint (mx_writeTimestamp m)
             in if silenceSize \<ge> NUM_SAMPLES_CIRCULAR_BUFFER then Done m
                else
                  let m1 = (if silenceSize > 0
                            then (mx_silence (nat silenceSize) m)\<lparr>mx_writeTimestamp := word_of_int end64\<rparr>
                            else m);
                      timestampDelta = uint (mx_writeTimestamp m1) - uint cts
                  in if timestampDelta < 0 \<or> timestampDelta \<ge> NUM_SAMPLES_CIRCULAR_BUFFER then Done m1
                     else if length (ck_samples c) < ck_numSamples c then Undefined
                     else Done (mx_mix (take (ck_numSamples c) (ck_samples c))
                                  (ptr_sub (mx_writePtr m1) timestampDelta) (ck_channel c - 1) m1))"

section \<open>Shipping\<close>

definition mx_CheckChunkDetails :: "int \<Rightarrow> RtpMixer \<Rightarrow> bool \<times> RtpMixer" where
  "mx_CheckChunkDetails numBytes m =
     (if numBytes > 100000 then (False, m\<lparr>mx_error := True\<rparr>)
      else if numBytes = 0 then (False, m) else (True, m))"

text \<open>The samples of \<open>n\<close> consecutive indices.\<close>

definition samples_at :: "(int \<Rightarrow> int) \<Rightarrow> int \<Rightarrow> int \<Rightarrow> int list" where
  "samples_at buf p n = map (\<lambda>j. buf (p + int j)) [0..<nat n]"

text \<open>\<open>HandleMixedOutput\<close>: even channels are mixed into output 1, odd ones into output 2, others zero.\<close>

definition mix_tape :: "RtpMixerChannel list \<Rightarrow> bool \<Rightarrow> int \<Rightarrow> int \<Rightarrow> int list" where
  "mix_tape chans even_side p n =
     map (\<lambda>j. fold (\<lambda>i acc. if even (i + 1) = even_side
                              then clamp16 (acc + mc_buffer (chans ! i) (p + int j)) else acc)
                   [0..<length chans] 0) [0..<nat n]"

definition mx_HandleMixedOutput :: "int \<Rightarrow> RtpMixer \<Rightarrow> int \<Rightarrow> int \<Rightarrow> mx_shipped \<Rightarrow> mx_shipped" where
  "mx_HandleMixedOutput tnc m p n chunk =
     (if mx_numOut m = 1 then chunk
      else if tnc \<le> 1 then chunk
      else
        let chunk1 = (if tnc \<noteq> int (length (mx_channels m))
                      then chunk\<lparr>sh_samples := samples_at (mx_buffer m) p n,
                                 sh_channels := replicate (nat tnc) None\<rparr>
                      else chunk)
        in chunk1\<lparr>sh_channels :=
             [Some (mix_tape (mx_channels m) True p n), Some (mix_tape (mx_channels m) False p n)] @
             replicate (nat tnc - 2) (Some (replicate (nat n) 0))\<rparr>)"

text \<open>One of the two contiguous pieces of a shipment: \<open>n\<close> samples from index \<open>p\<close>.\<close>

definition mx_ship_piece :: "int \<Rightarrow> int \<Rightarrow> int \<Rightarrow> RtpMixer \<Rightarrow> RtpMixer" where
  "mx_ship_piece tnc p n m =
     (let chunk = \<lparr>sh_samples = samples_at (mx_buffer m) p n,
                   sh_channels = replicate (length (mx_channels m)) None,
                   sh_channel = (if mx_channels m = [] then 0 else 100)\<rparr>;
          (ok, m1) = mx_CheckChunkDetails (n * 2) m;
          m2 = (if ok then m1\<lparr>mx_queue := mx_queue m1 @
                     [if mx_numOut m1 = 2 then mx_HandleMixedOutput tnc m1 p n chunk else chunk]\<rparr>
                else m1)
      in m2\<lparr>mx_shippedSamples := mx_shippedSamples m2 + word_of_int n,
            mx_readPtr := ptr_add (mx_readPtr m2) n,
            mx_readTimestamp := mx_readTimestamp m2 + word_of_int n\<rparr>)"

text \<open>
  The silence part of \<open>CreateShipment\<close>. \<open>CreateBuffer\<close> of a multi-channel chunk frees the channel
  table before it fills it: undefined.
\<close>

definition mx_ship_silence :: "int \<Rightarrow> int \<Rightarrow> RtpMixer \<Rightarrow> RtpMixer outcome" where
  "mx_ship_silence tnc n m =
     (let (ok, m1) = mx_CheckChunkDetails (n * 2) m
      in if ok \<and> mx_numOut m = 2 \<and> tnc > 1 then Undefined
         else
           let m2 = (if ok then m1\<lparr>mx_queue := mx_queue m1 @
                        [\<lparr>sh_samples = replicate (nat n) 0, sh_channels = [], sh_channel = 0\<rparr>]\<rparr> else m1)
           in Done (m2\<lparr>mx_shippedSamples := mx_shippedSamples m2 + word_of_int n,
                       mx_readPtr := ptr_add (mx_readPtr m2) n,
                       mx_readTimestamp := mx_readTimestamp m2 + word_of_int n\<rparr>))"

definition mx_CreateShipment :: "int \<Rightarrow> int \<Rightarrow> bool \<Rightarrow> RtpMixer \<Rightarrow> RtpMixer outcome" where
  "mx_CreateShipment tnc silenceSize force m =
     (let stop0 = (if silenceSize \<noteq> 0 \<or> force then mx_writePtr m
                   else ptr_sub (mx_writePtr m) (mx_holdoff m));
          wrapped = (stop0 < mx_readPtr m);
          stop = (if wrapped then NUM_SAMPLES_CIRCULAR_BUFFER else stop0);
          m1 = mx_ship_piece tnc (mx_readPtr m) (stop - mx_readPtr m) m;
          m2 = (if wrapped then mx_ship_piece tnc 0 stop0 m1 else m1)
      in if silenceSize \<noteq> 0 then mx_ship_silence tnc silenceSize m2 else Done m2)"

definition mx_ManageOutOfRangeTimestamp :: "int \<Rightarrow> mx_chunk \<Rightarrow> RtpMixer \<Rightarrow> RtpMixer outcome" where
  "mx_ManageOutOfRangeTimestamp tnc c m =
     (if ck_channel c = 1 then
        (case mx_CreateShipment tnc 0 True m of
           Done m1 \<Rightarrow>
             (case mx_StoreRtpPacket c (ck_timestamp c) (mx_Reset (ck_timestamp c) m1) of
                Done m2 \<Rightarrow> Done (m2\<lparr>mx_delta := 0\<rparr>)
              | r \<Rightarrow> r)
         | r \<Rightarrow> r)
      else if ck_channel c = 2 then
        Done (m\<lparr>mx_delta := uint (ck_timestamp c) - uint (mx_writeTimestamp m)\<rparr>)
      else if mx_channels m = [] then Done m
      else if ck_channel c = 0 \<or> ck_channel c > length (mx_channels m) then Undefined
      else
        let i = ck_channel c - 1
        in Done (m\<lparr>mx_channels := (mx_channels m)[i := (mx_channels m ! i)\<lparr>mc_delta :=
                     uint (ck_timestamp c) - uint (mx_writeTimestamp m)\<rparr>]\<rparr>))"

definition mx_AudioChunkOut :: "RtpMixer \<Rightarrow> mx_shipped option \<times> RtpMixer" where
  "mx_AudioChunkOut m =
     (case mx_queue m of [] \<Rightarrow> (None, m) | c # cs \<Rightarrow> (Some c, m\<lparr>mx_queue := cs\<rparr>))"

definition mx_Configure :: "int \<Rightarrow> int \<Rightarrow> RtpMixer \<Rightarrow> RtpMixer" where
  "mx_Configure trigger holdoff m = m\<lparr>mx_trigger := trigger, mx_holdoff := holdoff\<rparr>"

definition mx_SetNumOutputChannels :: "int \<Rightarrow> RtpMixer \<Rightarrow> RtpMixer" where
  "mx_SetNumOutputChannels n m = m\<lparr>mx_numOut := n\<rparr>"

section \<open>Receiving chunks\<close>

text \<open>
  The per-side part of \<open>AudioChunkIn\<close>: statistics, the correction of timestamps counted in
  milliseconds (consecutive timestamps that differ by 20 become steps of 160 samples), and the
  corrective delta of sides other than the first. The result is the chunk with its timestamp as it
  is left, the corrected timestamp and the state.
\<close>

definition mx_channel_stats :: "nat \<Rightarrow> mx_chunk \<Rightarrow> RtpMixer \<Rightarrow> RtpMixer" where
  "mx_channel_stats i c m =
     (let ch = mx_channels m ! i;
          d = (ck_seq c, ck_timestamp c);
          st = (case mc_last ch of Some l \<Rightarrow> mx_DoStats d l (mc_stats ch) | None \<Rightarrow> mc_stats ch)
      in m\<lparr>mx_channels := (mx_channels m)[i := ch\<lparr>mc_stats := st\<rparr>]\<rparr>)"

definition mx_set_last :: "nat \<Rightarrow> mx_chunk \<Rightarrow> RtpMixer \<Rightarrow> RtpMixer" where
  "mx_set_last i c m =
     m\<lparr>mx_channels := (mx_channels m)[i := (mx_channels m ! i)\<lparr>mc_last := Some (ck_seq c, ck_timestamp c)\<rparr>]\<rparr>"

definition mx_side1 :: "mx_chunk \<Rightarrow> RtpMixer \<Rightarrow> mx_chunk \<times> u32 \<times> RtpMixer" where
  "mx_side1 c m0 =
     (let m = (if mx_channels m0 = [] then m0 else mx_channel_stats 0 c m0);
          (c1, m1) = (case mx_lastS1 m of
             Some l \<Rightarrow>
               let ms = m\<lparr>mx_statsS1 := mx_DoStats (ck_seq c, ck_timestamp c) l (mx_statsS1 m)\<rparr>
               in if ck_timestamp c - mx_lastTimestampS1 m = 20
                  then (c\<lparr>ck_timestamp := snd l + 160\<rparr>, ms\<lparr>mx_lastTimestampS1 := ck_timestamp c\<rparr>)
                  else (c, ms)
           | None \<Rightarrow> (c, m\<lparr>mx_lastTimestampS1 := ck_timestamp c\<rparr>));
          m2 = m1\<lparr>mx_lastS1 := Some (ck_seq c1, ck_timestamp c1),
                  mx_processed := mx_processed m1 + ck_numSamples c1\<rparr>;
          m3 = (if mx_channels m2 = [] then m2 else mx_set_last 0 c1 m2)
      in (c1, ck_timestamp c1, m3))"

definition corrected :: "u32 \<Rightarrow> int \<Rightarrow> u32" where
  "corrected ts delta = (if uint ts - delta < 0 then ts else word_of_int (uint ts - delta))"

definition mx_side2 :: "mx_chunk \<Rightarrow> RtpMixer \<Rightarrow> mx_chunk \<times> u32 \<times> RtpMixer" where
  "mx_side2 c m0 =
     (let m = (if mx_channels m0 = [] then m0 else mx_channel_stats 1 c m0);
          (c1, m1) = (case mx_lastS2 m of
             Some l \<Rightarrow>
               let ms = m\<lparr>mx_statsS2 := mx_DoStats (ck_seq c, ck_timestamp c) l (mx_statsS2 m)\<rparr>
               in if ck_timestamp c - mx_lastTimestampS2 m = 20
                  then (c\<lparr>ck_timestamp := snd l + 160\<rparr>, ms\<lparr>mx_lastTimestampS2 := ck_timestamp c\<rparr>)
                  else (c, ms)
           | None \<Rightarrow> (c, m\<lparr>mx_lastTimestampS2 := ck_timestamp c\<rparr>));
          delta = uint (ck_timestamp c1) - uint (mx_writeTimestamp m1);
          m2 = (if mx_oneS1 m1 then m1\<lparr>mx_delta := delta, mx_oneS1 := False\<rparr>
                else if mx_delta m1 = 0 \<and> mx_writeTimestamp m1 \<noteq> 0 then m1\<lparr>mx_delta := delta\<rparr>
                else m1);
          m3 = m2\<lparr>mx_lastS2 := Some (ck_seq c1, ck_timestamp c1)\<rparr>;
          m4 = (if mx_channels m3 = [] then m3 else mx_set_last 1 c1 m3)
      in (c1, corrected (ck_timestamp c1) (mx_delta m4), m4))"

definition mx_sideN :: "mx_chunk \<Rightarrow> RtpMixer \<Rightarrow> (mx_chunk \<times> u32 \<times> RtpMixer) outcome" where
  "mx_sideN c m =
     (if mx_channels m = [] then Done (c, 0, m\<lparr>mx_invalidReported := True\<rparr>)
      else if ck_channel c = 0 \<or> ck_channel c > length (mx_channels m) then Undefined
      else
        let i = ck_channel c - 1;
            m1 = mx_channel_stats i c m;
            ch = mx_channels m1 ! i;
            (c1, ch1) = (case mc_last ch of
               Some l \<Rightarrow>
                 if ck_timestamp c - mc_lastTimestamp ch = 20
                 then (c\<lparr>ck_timestamp := snd l + 160\<rparr>, ch\<lparr>mc_lastTimestamp := ck_timestamp c\<rparr>)
                 else (c, ch)
             | None \<Rightarrow> (c, ch\<lparr>mc_lastTimestamp := ck_timestamp c\<rparr>));
            m2 = mx_set_last i c1 (m1\<lparr>mx_channels := (mx_channels m1)[i := ch1]\<rparr>)
        in Done (c1, corrected (ck_timestamp c1) (mc_delta (mx_channels m2 ! i)), m2))"

text \<open>The placement: first chunk of the session, fits into the window, or out of range.\<close>

definition mx_fits :: "mx_chunk \<Rightarrow> u32 \<Rightarrow> RtpMixer \<Rightarrow> bool" where
  "mx_fits c cts m \<longleftrightarrow>
     sint (cts + of_nat (ck_numSamples c) - mx_writeTimestamp m) \<le> mx_FreeSpace m \<and>
     sint (mx_writeTimestamp m - cts) \<le> mx_UsedSpace m"

definition mx_place :: "int \<Rightarrow> mx_chunk \<Rightarrow> u32 \<Rightarrow> RtpMixer \<Rightarrow> RtpMixer outcome" where
  "mx_place tnc c cts m =
     (if mx_writeTimestamp m = 0 then
        (if ck_channel c = 1
         then mx_StoreRtpPacket c cts (m\<lparr>mx_writeTimestamp := cts, mx_readTimestamp := cts, mx_oneS1 := True\<rparr>)
         else Done m)
      else if cts \<ge> mx_readTimestamp m then
        (if mx_fits c cts m then
           (case mx_StoreRtpPacket c cts m of
              Done m1 \<Rightarrow> if mx_UsedSpace m1 > mx_trigger m1 mod 2 ^ 32
                         then mx_CreateShipment tnc 0 False m1 else Done m1
            | r \<Rightarrow> r)
         else mx_ManageOutOfRangeTimestamp tnc c m)
      else mx_ManageOutOfRangeTimestamp tnc c m)"

definition mx_sides :: "mx_chunk \<Rightarrow> RtpMixer \<Rightarrow> (mx_chunk \<times> u32 \<times> RtpMixer) outcome" where
  "mx_sides c m =
     (if ck_channel c = 1 then Done (mx_side1 c m)
      else if ck_channel c = 2 then
        (if length (mx_channels m) = 1 then Undefined else Done (mx_side2 c m))
      else mx_sideN c m)"

definition mx_AudioChunkIn :: "int \<Rightarrow> mx_chunk option \<Rightarrow> RtpMixer \<Rightarrow> RtpMixer outcome" where
  "mx_AudioChunkIn tnc chunk m =
     (if mx_error m then Done m
      else case chunk of
        None \<Rightarrow> Done m
      | Some c \<Rightarrow>
          if ck_eos c then mx_CreateShipment tnc 0 True m
          else if ck_encoding c = MxOther then Thrown
          else if ck_numSamples c = 0 then Done m
          else if ck_numBytes c > 100000 then Done (m\<lparr>mx_error := True\<rparr>)
          else if ck_encoding c \<noteq> MxPcm then Thrown
          else
            let m1 = (if mx_numOut m = 2 then mx_CreateChannels tnc (ck_channel c) m else m)
            in case mx_sides c m1 of
                 Done (c1, cts, m2) \<Rightarrow> mx_place tnc c1 cts m2
               | Thrown \<Rightarrow> Thrown | Undefined \<Rightarrow> Undefined)"

section \<open>Circular arithmetic\<close>

abbreviation mx_N :: int where
  "mx_N \<equiv> NUM_SAMPLES_CIRCULAR_BUFFER"

lemma mx_N_pos [simp]: "0 < mx_N"
  by (simp add: NUM_SAMPLES_CIRCULAR_BUFFER_def)

lemma mod_small: "0 \<le> a \<Longrightarrow> a < mx_N \<Longrightarrow> a mod mx_N = a"
  by simp

lemma mod_wrap: "mx_N \<le> a \<Longrightarrow> a < 2 * mx_N \<Longrightarrow> a mod mx_N = a - mx_N"
  by (metis diff_ge_0_iff_ge diff_less_eq minus_mod_self2 mod_pos_pos_trivial mult_2)

lemma ptr_next_mod: "0 \<le> p \<Longrightarrow> p < mx_N \<Longrightarrow> ptr_next p = (p + 1) mod mx_N"
  by (auto simp: ptr_next_def mod_wrap not_le)

lemma ptr_add_mod: "0 \<le> p \<Longrightarrow> p < mx_N \<Longrightarrow> 0 \<le> k \<Longrightarrow> k \<le> mx_N \<Longrightarrow> ptr_add p k = (p + k) mod mx_N"
  by (auto simp: ptr_add_def mod_wrap not_le)

lemma ptr_sub_mod: "0 \<le> p \<Longrightarrow> p < mx_N \<Longrightarrow> 0 \<le> k \<Longrightarrow> k < mx_N \<Longrightarrow> ptr_sub p k = (p - k) mod mx_N"
proof -
  assume a: "0 \<le> p" "p < mx_N" "0 \<le> k" "k < mx_N"
  show ?thesis
  proof (cases "p - k < 0")
    case True
    have "(p - k) mod mx_N = (p - k + mx_N) mod mx_N" by simp
    also have "\<dots> = p - k + mx_N" using a True by (intro mod_pos_pos_trivial) auto
    finally show ?thesis using True by (simp add: ptr_sub_def)
  next
    case False
    then show ?thesis using a by (simp add: ptr_sub_def)
  qed
qed

lemma mod_range [simp]: "0 \<le> a mod mx_N" "a mod mx_N < mx_N"
  by simp_all

lemma circ_inj:
  assumes "(p + a) mod mx_N = (p + b) mod mx_N" "0 \<le> a" "a < mx_N" "0 \<le> b" "b < mx_N"
  shows "a = b"
proof -
  have "a mod mx_N = b mod mx_N" using assms(1) by (metis add_diff_cancel_left' mod_diff_left_eq)
  with assms show ?thesis by simp
qed

section \<open>What the loops do\<close>

lemma mx_silence_fields [simp]:
  "mx_readPtr (mx_silence n m) = mx_readPtr m" "mx_readTimestamp (mx_silence n m) = mx_readTimestamp m"
  "mx_writeTimestamp (mx_silence n m) = mx_writeTimestamp m" "mx_error (mx_silence n m) = mx_error m"
  "mx_delta (mx_silence n m) = mx_delta m" "mx_trigger (mx_silence n m) = mx_trigger m"
  "mx_holdoff (mx_silence n m) = mx_holdoff m" "mx_queue (mx_silence n m) = mx_queue m"
  "length (mx_channels (mx_silence n m)) = length (mx_channels m)" "mx_numOut (mx_silence n m) = mx_numOut m"
  "mx_lastS1 (mx_silence n m) = mx_lastS1 m" "mx_lastTimestampS1 (mx_silence n m) = mx_lastTimestampS1 m"
  by (induction n arbitrary: m) auto

lemma mx_mix_fields [simp]:
  "mx_readPtr (mx_mix vs p ch m) = mx_readPtr m" "mx_readTimestamp (mx_mix vs p ch m) = mx_readTimestamp m"
  "mx_writePtr (mx_mix vs p ch m) = mx_writePtr m"
  "mx_writeTimestamp (mx_mix vs p ch m) = mx_writeTimestamp m" "mx_error (mx_mix vs p ch m) = mx_error m"
  "mx_delta (mx_mix vs p ch m) = mx_delta m" "mx_trigger (mx_mix vs p ch m) = mx_trigger m"
  "mx_holdoff (mx_mix vs p ch m) = mx_holdoff m" "mx_queue (mx_mix vs p ch m) = mx_queue m"
  "length (mx_channels (mx_mix vs p ch m)) = length (mx_channels m)"
  "mx_numOut (mx_mix vs p ch m) = mx_numOut m"
  "mx_lastS1 (mx_mix vs p ch m) = mx_lastS1 m" "mx_lastTimestampS1 (mx_mix vs p ch m) = mx_lastTimestampS1 m"
  by (induction vs arbitrary: p m) auto

lemma mx_silence_ptr:
  "0 \<le> mx_writePtr m \<Longrightarrow> mx_writePtr m < mx_N \<Longrightarrow>
    mx_writePtr (mx_silence n m) = (mx_writePtr m + int n) mod mx_N"
  by (induction n arbitrary: m) (auto simp: ptr_next_mod mod_add_left_eq mod_add_right_eq algebra_simps)

lemma circ_next: "(p + k) mod mx_N = ((p + 1) mod mx_N + (k - 1)) mod mx_N"
  by (simp add: mod_add_left_eq)

lemma circ_last: "0 \<le> p \<Longrightarrow> p < mx_N \<Longrightarrow> p = ((p + 1) mod mx_N + (mx_N - 1)) mod mx_N"
  by (simp add: mod_add_left_eq)

lemma mx_silence_buffer:
  assumes "0 \<le> mx_writePtr m" "mx_writePtr m < mx_N" "int n \<le> mx_N" "0 \<le> k" "k < mx_N"
  shows "mx_buffer (mx_silence n m) ((mx_writePtr m + k) mod mx_N) =
    (if k < int n then 0 else mx_buffer m ((mx_writePtr m + k) mod mx_N))"
  using assms
proof (induction n arbitrary: m k)
  case (Suc n)
  let ?p = "mx_writePtr m"
  let ?m1 = "m\<lparr>mx_buffer := (mx_buffer m)(?p := 0),
      mx_channels := map (\<lambda>c. c\<lparr>mc_buffer := (mc_buffer c)(?p := 0)\<rparr>) (mx_channels m),
      mx_writePtr := ptr_next ?p\<rparr>"
  have wp: "mx_writePtr ?m1 = (?p + 1) mod mx_N" using Suc.prems by (simp add: ptr_next_mod)
  have ih: "mx_buffer (mx_silence n ?m1) (((?p + 1) mod mx_N + j) mod mx_N) =
      (if j < int n then 0 else mx_buffer ?m1 (((?p + 1) mod mx_N + j) mod mx_N))"
    if "0 \<le> j" "j < mx_N" for j
    using Suc.IH [of ?m1 j] Suc.prems(3) wp that by simp
  show ?case
  proof (cases "k = 0")
    case True
    have "(?p + k) mod mx_N = ?p" using True Suc.prems by simp
    moreover have "mx_buffer (mx_silence n ?m1) ?p = 0"
      using ih [of "mx_N - 1"] Suc.prems circ_last [of ?p] by simp
    ultimately show ?thesis using True by simp
  next
    case False
    have ne: "(?p + k) mod mx_N \<noteq> ?p"
    proof
      assume "(?p + k) mod mx_N = ?p"
      then have "(?p + k) mod mx_N = (?p + 0) mod mx_N" using Suc.prems by simp
      from circ_inj [OF this] False Suc.prems show False by simp
    qed
    have "mx_buffer (mx_silence n ?m1) ((?p + k) mod mx_N) =
        (if k - 1 < int n then 0 else mx_buffer ?m1 ((?p + k) mod mx_N))"
      using ih [of "k - 1"] False Suc.prems circ_next [of ?p k] by simp
    then show ?thesis using ne by simp
  qed
qed simp

lemma mx_mix_buffer:
  assumes "0 \<le> p" "p < mx_N" "int (length vs) \<le> mx_N" "0 \<le> k" "k < mx_N"
  shows "mx_buffer (mx_mix vs p ch m) ((p + k) mod mx_N) =
    (if k < int (length vs) then clamp16 (mx_buffer m ((p + k) mod mx_N) + vs ! nat k)
     else mx_buffer m ((p + k) mod mx_N))"
  using assms
proof (induction vs arbitrary: m k p)
  case (Cons v vs)
  let ?m1 = "m\<lparr>mx_buffer := (mx_buffer m)(p := clamp16 (mx_buffer m p + v)),
          mx_channels := (if mx_channels m = [] then [] else
            (mx_channels m)[ch := (mx_channels m ! ch)\<lparr>mc_buffer := (mc_buffer (mx_channels m ! ch))(p := v)\<rparr>])\<rparr>"
  have np: "ptr_next p = (p + 1) mod mx_N" using Cons.prems by (simp add: ptr_next_mod)
  have ih: "mx_buffer (mx_mix vs ((p + 1) mod mx_N) ch ?m1) (((p + 1) mod mx_N + j) mod mx_N) =
      (if j < int (length vs) then clamp16 (mx_buffer ?m1 (((p + 1) mod mx_N + j) mod mx_N) + vs ! nat j)
       else mx_buffer ?m1 (((p + 1) mod mx_N + j) mod mx_N))"
    if "0 \<le> j" "j < mx_N" for j
    using Cons.prems(3) that by (intro Cons.IH) simp_all
  show ?case
  proof (cases "k = 0")
    case True
    have "(p + k) mod mx_N = p" using True Cons.prems by simp
    moreover have "mx_buffer (mx_mix vs ((p + 1) mod mx_N) ch ?m1) p = clamp16 (mx_buffer m p + v)"
      using ih [of "mx_N - 1"] Cons.prems circ_last [of p] by simp
    ultimately show ?thesis using True np by simp
  next
    case False
    have ne: "(p + k) mod mx_N \<noteq> p"
    proof
      assume "(p + k) mod mx_N = p"
      then have "(p + k) mod mx_N = (p + 0) mod mx_N" using Cons.prems by simp
      from circ_inj [OF this] False Cons.prems show False by simp
    qed
    have "nat k = Suc (nat (k - 1))" using False Cons.prems by simp
    then show ?thesis
      using ih [of "k - 1"] False Cons.prems circ_next [of p k] ne np by simp
  qed
qed simp

section \<open>The window of samples\<close>

text \<open>
  The abstract content: the samples of the timestamps from \<open>readTimestamp\<close> to \<open>writeTimestamp\<close>.
  \<open>mx_win\<close> is the invariant: the pointers lie in the buffer and their distance is the distance of
  the timestamps, which is less than the buffer size.
\<close>

definition is_sample :: "int \<Rightarrow> bool" where
  "is_sample v \<longleftrightarrow> -32768 \<le> v \<and> v \<le> 32767"

definition mx_used :: "RtpMixer \<Rightarrow> int" where
  "mx_used m = uint (mx_writeTimestamp m) - uint (mx_readTimestamp m)"

definition mx_view :: "RtpMixer \<Rightarrow> int \<Rightarrow> int" where
  "mx_view m d = mx_buffer m ((mx_readPtr m + d) mod mx_N)"

definition mx_win :: "RtpMixer \<Rightarrow> bool" where
  "mx_win m \<longleftrightarrow> 0 \<le> mx_writePtr m \<and> mx_writePtr m < mx_N \<and> 0 \<le> mx_readPtr m \<and> mx_readPtr m < mx_N \<and>
     0 \<le> mx_used m \<and> mx_used m < mx_N \<and> mx_writePtr m = (mx_readPtr m + mx_used m) mod mx_N \<and>
     0 \<le> mx_holdoff m \<and> mx_holdoff m \<le> mx_trigger m \<and> mx_trigger m < mx_N"

lemma mx_UsedSpace_used: "mx_win m \<Longrightarrow> mx_UsedSpace m = mx_used m"
proof -
  assume w: "mx_win m"
  show ?thesis
  proof (cases "mx_readPtr m + mx_used m < mx_N")
    case True
    with w have "mx_writePtr m = mx_readPtr m + mx_used m" by (simp add: mx_win_def)
    with w show ?thesis by (simp add: mx_UsedSpace_def mx_win_def)
  next
    case False
    with w have "mx_writePtr m = mx_readPtr m + mx_used m - mx_N"
      using mod_wrap [of "mx_readPtr m + mx_used m"] by (simp add: mx_win_def)
    with w show ?thesis by (simp add: mx_UsedSpace_def mx_win_def)
  qed
qed

lemma mx_win_new: "mx_win RtpMixer_new"
  by (simp add: mx_win_def RtpMixer_new_def mx_used_def NUM_SAMPLES_TRIGGER_def
      NUM_SAMPLES_SHIPMENT_HOLDOFF_def NUM_SAMPLES_CIRCULAR_BUFFER_def)

lemma clamp16_id: "is_sample v \<Longrightarrow> clamp16 v = v"
  by (auto simp: clamp16_def is_sample_def)

lemma clamp16_sample: "is_sample (clamp16 v)"
  by (auto simp: clamp16_def is_sample_def)

definition valid_channel :: "mx_chunk \<Rightarrow> RtpMixer \<Rightarrow> bool" where
  "valid_channel c m \<longleftrightarrow> mx_channels m = [] \<or> (1 \<le> ck_channel c \<and> ck_channel c \<le> length (mx_channels m))"

text \<open>What storing a chunk that fits does to the window.\<close>

definition mixed_view :: "RtpMixer \<Rightarrow> mx_chunk \<Rightarrow> u32 \<Rightarrow> int \<Rightarrow> int" where
  "mixed_view m c cts d =
     (let old = (if d < mx_used m then mx_view m d else 0);
          i = d - (uint cts - uint (mx_readTimestamp m))
      in if 0 \<le> i \<and> i < int (length (ck_samples c)) then clamp16 (old + ck_samples c ! nat i) else old)"

definition store_fits :: "RtpMixer \<Rightarrow> mx_chunk \<Rightarrow> u32 \<Rightarrow> bool" where
  "store_fits m c cts \<longleftrightarrow> valid_channel c m \<and> ck_numSamples c = length (ck_samples c) \<and>
     ck_samples c \<noteq> [] \<and> uint (mx_readTimestamp m) \<le> uint cts \<and>
     uint cts + int (length (ck_samples c)) < 2 ^ 32 \<and>
     uint cts + int (length (ck_samples c)) - uint (mx_readTimestamp m) < mx_N"

lemma uint_word32: "0 \<le> e \<Longrightarrow> e < 2 ^ 32 \<Longrightarrow> uint (word_of_int e :: u32) = e"
  by (simp add: uint_word_of_int)

lemma silenced_view:
  assumes w: "mx_win m" and n: "0 \<le> s" "mx_used m + s < mx_N" and d: "0 \<le> d" "d < mx_used m + s"
  shows "mx_view (mx_silence (nat s) m) d = (if d < mx_used m then mx_view m d else 0)"
proof -
  have wp: "mx_writePtr m = (mx_readPtr m + mx_used m) mod mx_N" "0 \<le> mx_used m" using w by (simp_all add: mx_win_def)
  define k where "k = (if d < mx_used m then d - mx_used m + mx_N else d - mx_used m)"
  have k: "0 \<le> k" "k < mx_N" "k < s \<longleftrightarrow> \<not> d < mx_used m" using n d wp(2) by (auto simp: k_def)
  have at: "(mx_writePtr m + k) mod mx_N = (mx_readPtr m + d) mod mx_N"
  proof -
    have "(mx_writePtr m + k) mod mx_N = (mx_readPtr m + mx_used m + k) mod mx_N"
      unfolding wp by (rule mod_add_left_eq)
    also have "\<dots> = (mx_readPtr m + d) mod mx_N"
      by (cases "d < mx_used m") (simp_all add: k_def algebra_simps)
    finally show ?thesis .
  qed
  show ?thesis
    using mx_silence_buffer [of m "nat s" k] w n k at by (auto simp: mx_view_def mx_win_def)
qed

lemma mx_Store_correct:
  assumes w: "mx_win m" and f: "store_fits m c cts"
  shows "\<exists>m'. mx_StoreRtpPacket c cts m = Done m' \<and> mx_win m' \<and>
    mx_readTimestamp m' = mx_readTimestamp m \<and> mx_queue m' = mx_queue m \<and>
    uint (mx_writeTimestamp m') = max (uint (mx_writeTimestamp m)) (uint cts + int (length (ck_samples c))) \<and>
    (\<forall>d. 0 \<le> d \<and> d < mx_used m' \<longrightarrow> mx_view m' d = mixed_view m c cts d) \<and>
    mx_trigger m' = mx_trigger m \<and> mx_holdoff m' = mx_holdoff m \<and>
    length (mx_channels m') = length (mx_channels m) \<and> mx_numOut m' = mx_numOut m \<and>
    mx_error m' = mx_error m \<and> mx_lastS1 m' = mx_lastS1 m \<and> mx_lastTimestampS1 m' = mx_lastTimestampS1 m"
proof -
  let ?n = "int (length (ck_samples c))" and ?off = "uint cts - uint (mx_readTimestamp m)"
  let ?fin = "uint cts + ?n" and ?wts = "uint (mx_writeTimestamp m)"
  define s where "s = max 0 (?fin - ?wts)"
  define m1 where "m1 = (if ?fin - ?wts > 0
      then (mx_silence (nat (?fin - ?wts)) m)\<lparr>mx_writeTimestamp := word_of_int ?fin\<rparr> else m)"
  have f': "ck_numSamples c = length (ck_samples c)" "0 < ?n" "0 \<le> ?off" "?fin < 2 ^ 32" "?off + ?n < mx_N"
    using f by (auto simp: store_fits_def)
  have w': "0 \<le> mx_used m" "mx_used m < mx_N" "0 \<le> mx_writePtr m" "mx_writePtr m < mx_N"
    "mx_writePtr m = (mx_readPtr m + mx_used m) mod mx_N" using w by (auto simp: mx_win_def)
  have used_s: "0 \<le> s" "mx_used m + s < mx_N" "mx_used m + s = max (mx_used m) (?off + ?n)"
    using w' f' by (auto simp: s_def mx_used_def max_def)
  have "uint (word_of_int ?fin :: u32) = ?fin" using f' by (intro uint_word32) auto
  then have wts1: "uint (mx_writeTimestamp m1) = max ?wts ?fin" by (simp only: m1_def split: if_split) simp
  have rts1: "mx_readTimestamp m1 = mx_readTimestamp m" "mx_readPtr m1 = mx_readPtr m" by (auto simp: m1_def)
  have used1: "mx_used m1 = mx_used m + s" using wts1 rts1 by (auto simp: mx_used_def s_def)
  have view1: "mx_view m1 d = (if d < mx_used m then mx_view m d else 0)"
    if "0 \<le> d" "d < mx_used m1" for d
    using silenced_view [OF w used_s(1,2) that(1)] that used1
    by (auto simp: m1_def s_def mx_view_def max_def split: if_splits)
  have wp1: "mx_writePtr m1 = (mx_readPtr m + mx_used m1) mod mx_N"
  proof (cases "?fin - ?wts > 0")
    case True
    have "mx_writePtr m1 = (mx_writePtr m + s) mod mx_N"
      using mx_silence_ptr [OF w'(3,4)] True by (simp add: m1_def s_def)
    also have "\<dots> = (mx_readPtr m + mx_used m + s) mod mx_N" unfolding w'(5) by (rule mod_add_left_eq)
    finally show ?thesis by (simp add: used1 add.assoc)
  qed (use w' used1 in \<open>simp add: m1_def s_def\<close>)
  let ?delta = "uint (mx_writeTimestamp m1) - uint cts"
  have delta: "0 \<le> ?delta" "?delta < mx_N" "mx_used m1 - ?delta = ?off"
    using wts1 used_s used1 f' rts1 by (auto simp: mx_used_def)
  define p where "p = ptr_sub (mx_writePtr m1) ?delta"
  have p: "p = (mx_readPtr m + ?off) mod mx_N"
  proof -
    have "p = (mx_writePtr m1 - ?delta) mod mx_N"
      unfolding p_def using delta wp1 by (intro ptr_sub_mod) simp_all
    also have "\<dots> = (mx_readPtr m + mx_used m1 - ?delta) mod mx_N" unfolding wp1 by (rule mod_diff_left_eq)
    also have "mx_readPtr m + mx_used m1 - ?delta = mx_readPtr m + ?off" using delta(3) by linarith
    finally show ?thesis .
  qed
  define m2 where "m2 = mx_mix (ck_samples c) p (ck_channel c - 1) m1"
  have step: "mx_StoreRtpPacket c cts m = Done m2"
    using f f' delta used_s w'
    by (auto simp: mx_StoreRtpPacket_def Let_def store_fits_def valid_channel_def m2_def p_def m1_def
        s_def mx_used_def max_def)
  have view2: "mx_view m2 d = mixed_view m c cts d" if "0 \<le> d" "d < mx_used m1" for d
  proof -
    define k where "k = (if d < ?off then d - ?off + mx_N else d - ?off)"
    have k: "0 \<le> k" "k < mx_N" "k < ?n \<longleftrightarrow> 0 \<le> d - ?off \<and> d - ?off < ?n" "k < ?n \<Longrightarrow> k = d - ?off"
      using that f' used1 used_s by (auto simp: k_def)
    have at: "(p + k) mod mx_N = (mx_readPtr m + d) mod mx_N"
    proof -
      have "(p + k) mod mx_N = (mx_readPtr m + ?off + k) mod mx_N" unfolding p by (rule mod_add_left_eq)
      also have "\<dots> = (mx_readPtr m + d) mod mx_N"
        by (cases "d < ?off") (simp_all add: k_def algebra_simps)
      finally show ?thesis .
    qed
    have "mx_view m2 d = (if k < ?n then clamp16 (mx_view m1 d + ck_samples c ! nat k) else mx_view m1 d)"
      using mx_mix_buffer [of p "ck_samples c" k "ck_channel c - 1" m1] p f' k(1,2) at rts1
      by (simp add: m2_def mx_view_def)
    also have "\<dots> = mixed_view m c cts d"
    proof (cases "k < ?n")
      case True
      then have "0 \<le> d - ?off \<and> d - ?off < ?n" "k = d - ?off" using k(3,4) by blast+
      then show ?thesis using True view1 [OF that] by (simp add: mixed_view_def)
    next
      case False
      then have "\<not> (0 \<le> d - ?off \<and> d - ?off < ?n)" using k(3) by blast
      then show ?thesis using False view1 [OF that] by (simp only: mixed_view_def Let_def if_False)
    qed
    finally show ?thesis .
  qed
  have u2: "mx_used m2 = mx_used m1" by (simp add: m2_def mx_used_def)
  have keep: "mx_trigger m1 = mx_trigger m" "mx_holdoff m1 = mx_holdoff m" "mx_queue m1 = mx_queue m"
    "length (mx_channels m1) = length (mx_channels m)" "mx_numOut m1 = mx_numOut m" "mx_error m1 = mx_error m"
    "mx_lastS1 m1 = mx_lastS1 m" "mx_lastTimestampS1 m1 = mx_lastTimestampS1 m" by (auto simp: m1_def)
  have "mx_win m2" using w wp1 used_s used1 rts1 keep u2 by (auto simp: mx_win_def m2_def)
  with step view2 wts1 rts1 keep u2 show ?thesis by (auto simp: m2_def)
qed

section \<open>Shipments\<close>

definition queue_samples :: "RtpMixer \<Rightarrow> int list" where
  "queue_samples m = concat (map sh_samples (mx_queue m))"

text \<open>The samples of the window, oldest first.\<close>

definition mx_window :: "RtpMixer \<Rightarrow> int list" where
  "mx_window m = map (\<lambda>d. mx_view m (int d)) [0..<nat (mx_used m)]"

lemma length_mx_window [simp]: "length (mx_window m) = nat (mx_used m)"
  by (simp add: mx_window_def)

lemma mx_ship_piece_form:
  "\<exists>e q s. mx_ship_piece tnc p n m = m\<lparr>mx_error := e, mx_queue := q, mx_shippedSamples := s,
      mx_readPtr := ptr_add (mx_readPtr m) n, mx_readTimestamp := mx_readTimestamp m + word_of_int n\<rparr> \<and>
    (n \<le> mx_N \<longrightarrow> e = mx_error m)"
proof -
  let ?s = "mx_ship_piece tnc p n m"
  consider "n * 2 > 100000" | "n = 0" | "n \<noteq> 0" "\<not> n * 2 > 100000" by linarith
  then show ?thesis
  proof cases
    case 1
    then have "mx_CheckChunkDetails (n * 2) m = (False, m\<lparr>mx_error := True\<rparr>)"
      by (simp add: mx_CheckChunkDetails_def)
    with 1 show ?thesis
      by (intro exI [of _ True] exI [of _ "mx_queue ?s"] exI [of _ "mx_shippedSamples ?s"])
        (simp add: mx_ship_piece_def Let_def NUM_SAMPLES_CIRCULAR_BUFFER_def)
  next
    case 2
    then have "mx_CheckChunkDetails (n * 2) m = (False, m)" by (simp add: mx_CheckChunkDetails_def)
    then show ?thesis
      by (intro exI [of _ "mx_error m"] exI [of _ "mx_queue ?s"] exI [of _ "mx_shippedSamples ?s"])
        (simp add: mx_ship_piece_def Let_def)
  next
    case 3
    then have "mx_CheckChunkDetails (n * 2) m = (True, m)" by (simp add: mx_CheckChunkDetails_def)
    then show ?thesis
      by (intro exI [of _ "mx_error m"] exI [of _ "mx_queue ?s"] exI [of _ "mx_shippedSamples ?s"])
        (simp add: mx_ship_piece_def Let_def)
  qed
qed

lemma mx_ship_piece_fields [simp]:
  "mx_writePtr (mx_ship_piece tnc p n m) = mx_writePtr m" "mx_buffer (mx_ship_piece tnc p n m) = mx_buffer m"
  "mx_writeTimestamp (mx_ship_piece tnc p n m) = mx_writeTimestamp m"
  "mx_readTimestamp (mx_ship_piece tnc p n m) = mx_readTimestamp m + word_of_int n"
  "mx_readPtr (mx_ship_piece tnc p n m) = ptr_add (mx_readPtr m) n"
  "mx_delta (mx_ship_piece tnc p n m) = mx_delta m" "mx_trigger (mx_ship_piece tnc p n m) = mx_trigger m"
  "mx_holdoff (mx_ship_piece tnc p n m) = mx_holdoff m" "mx_channels (mx_ship_piece tnc p n m) = mx_channels m"
  "mx_numOut (mx_ship_piece tnc p n m) = mx_numOut m"
  "mx_lastS1 (mx_ship_piece tnc p n m) = mx_lastS1 m"
  "mx_lastTimestampS1 (mx_ship_piece tnc p n m) = mx_lastTimestampS1 m"
  "n \<le> mx_N \<Longrightarrow> mx_error (mx_ship_piece tnc p n m) = mx_error m"
  using mx_ship_piece_form [of tnc p n m] by auto

lemma HandleMixedOutput_samples:
  "sh_samples c = samples_at (mx_buffer m) p n \<Longrightarrow>
    sh_samples (mx_HandleMixedOutput tnc m p n c) = samples_at (mx_buffer m) p n"
  by (simp add: mx_HandleMixedOutput_def Let_def)

lemma mx_ship_piece_queue:
  assumes "0 \<le> n" "n \<le> mx_N"
  shows "queue_samples (mx_ship_piece tnc p n m) = queue_samples m @ samples_at (mx_buffer m) p n"
proof (cases "n = 0")
  case True
  then show ?thesis
    by (simp add: mx_ship_piece_def mx_CheckChunkDetails_def queue_samples_def samples_at_def)
next
  case False
  with assms have "mx_CheckChunkDetails (n * 2) m = (True, m)"
    by (simp add: mx_CheckChunkDetails_def NUM_SAMPLES_CIRCULAR_BUFFER_def)
  then show ?thesis
    by (simp add: mx_ship_piece_def queue_samples_def HandleMixedOutput_samples Let_def)
qed

lemma samples_at_append:
  "0 \<le> a \<Longrightarrow> 0 \<le> b \<Longrightarrow> samples_at f p (a + b) = samples_at f p a @ samples_at f (p + a) b"
  by (rule nth_equalityI)
    (auto simp: samples_at_def nth_append nat_add_distrib of_nat_diff nat_le_iff not_less add.assoc)

lemma window_take_samples:
  assumes "mx_win m" "0 \<le> k" "k \<le> mx_used m"
  shows "take (nat k) (mx_window m) =
    (if mx_readPtr m + k \<le> mx_N then samples_at (mx_buffer m) (mx_readPtr m) k
     else samples_at (mx_buffer m) (mx_readPtr m) (mx_N - mx_readPtr m) @
          samples_at (mx_buffer m) 0 (k - (mx_N - mx_readPtr m)))"
proof -
  let ?r = "mx_readPtr m"
  have r: "0 \<le> ?r" "?r < mx_N" "mx_used m < mx_N" using assms(1) by (auto simp: mx_win_def)
  have tk: "take (nat k) (mx_window m) = map (\<lambda>d. mx_view m (int d)) [0..<nat k]"
    using assms by (simp add: mx_window_def take_map nat_mono)
  show ?thesis
  proof (cases "?r + k \<le> mx_N")
    case True
    then have "mx_view m (int d) = mx_buffer m (?r + int d)" if "d < nat k" for d
      using that r assms(2) by (simp add: mx_view_def)
    with True show ?thesis by (simp add: tk samples_at_def)
  next
    case False
    let ?a = "mx_N - ?r" and ?b = "k - (mx_N - ?r)"
    have ab: "0 \<le> ?a" "0 \<le> ?b" "k = ?a + ?b" using r False by auto
    have "map (\<lambda>d. mx_view m (int d)) [0..<nat k] = samples_at (mx_view m) 0 (?a + ?b)"
      using ab by (simp add: samples_at_def)
    also have "\<dots> = samples_at (mx_view m) 0 ?a @ samples_at (mx_view m) ?a ?b"
      using samples_at_append [OF ab(1,2)] by simp
    also have "samples_at (mx_view m) 0 ?a = samples_at (mx_buffer m) ?r ?a"
      unfolding samples_at_def
    proof (rule map_cong [OF refl])
      fix j assume "j \<in> set [0..<nat ?a]"
      then show "mx_view m (0 + int j) = mx_buffer m (?r + int j)" using r by (simp add: mx_view_def)
    qed
    also have "samples_at (mx_view m) ?a ?b = samples_at (mx_buffer m) 0 ?b"
      unfolding samples_at_def
    proof (rule map_cong [OF refl])
      fix j assume "j \<in> set [0..<nat ?b]"
      then have "int j < mx_N" using r assms(3) by auto
      then show "mx_view m (?a + int j) = mx_buffer m (0 + int j)" using r by (simp add: mx_view_def)
    qed
    finally show ?thesis using False by (simp add: tk)
  qed
qed

text \<open>A shipment of the first \<open>k\<close> samples of the window.\<close>

lemma mx_Ship_correct:
  assumes w: "mx_win m" and k: "k = (if force then mx_used m else mx_used m - mx_holdoff m)" "0 \<le> k"
  shows "\<exists>m'. mx_CreateShipment tnc 0 force m = Done m' \<and> mx_win m' \<and>
    queue_samples m' = queue_samples m @ take (nat k) (mx_window m) \<and>
    mx_window m' = drop (nat k) (mx_window m) \<and> mx_writeTimestamp m' = mx_writeTimestamp m \<and>
    uint (mx_readTimestamp m') = uint (mx_readTimestamp m) + k \<and>
    mx_channels m' = mx_channels m \<and> mx_numOut m' = mx_numOut m \<and> mx_error m' = mx_error m \<and>
    mx_trigger m' = mx_trigger m \<and> mx_holdoff m' = mx_holdoff m \<and>
    mx_lastS1 m' = mx_lastS1 m \<and> mx_lastTimestampS1 m' = mx_lastTimestampS1 m"
proof -
  let ?r = "mx_readPtr m" and ?u = "mx_used m"
  have w': "0 \<le> ?r" "?r < mx_N" "0 \<le> ?u" "?u < mx_N" "mx_writePtr m = (?r + ?u) mod mx_N"
    "0 \<le> mx_holdoff m" "mx_holdoff m < mx_N" using w by (auto simp: mx_win_def)
  have ku: "k \<le> ?u" using k w' by (simp split: if_splits)
  define stop0 where "stop0 = (if force then mx_writePtr m else ptr_sub (mx_writePtr m) (mx_holdoff m))"
  have stop0: "stop0 = (?r + k) mod mx_N"
  proof (cases force)
    case False
    have "stop0 = (mx_writePtr m - mx_holdoff m) mod mx_N"
      unfolding stop0_def using False w' by (simp add: ptr_sub_mod)
    also have "\<dots> = (?r + ?u - mx_holdoff m) mod mx_N" unfolding w'(5) by (rule mod_diff_left_eq)
    also have "?r + ?u - mx_holdoff m = ?r + k" using False k by simp
    finally show ?thesis .
  qed (use w' k in \<open>simp add: stop0_def\<close>)
  have cases: "stop0 = (if ?r + k < mx_N then ?r + k else ?r + k - mx_N)"
    using stop0 w' k ku mod_wrap [of "?r + k"] by auto
  define m' where "m' = (if stop0 < ?r
      then mx_ship_piece tnc 0 stop0 (mx_ship_piece tnc ?r (mx_N - ?r) m)
      else mx_ship_piece tnc ?r (stop0 - ?r) m)"
  have dn: "mx_CreateShipment tnc 0 force m = Done m'"
    by (simp add: mx_CreateShipment_def Let_def m'_def stop0_def)
  have wrap: "stop0 < ?r \<longleftrightarrow> mx_N \<le> ?r + k" using cases w' k ku by auto
  have rp: "mx_readPtr m' = (?r + k) mod mx_N"
  proof (cases "stop0 < ?r")
    case True
    with wrap cases w' k ku show ?thesis
      by (simp add: m'_def ptr_add_def mod_wrap)
  next
    case False
    with wrap cases w' k ku show ?thesis by (simp add: m'_def ptr_add_def)
  qed
  have lt: "uint (mx_readTimestamp m) + k < 2 ^ 32"
    using ku uint_lt2p [of "mx_writeTimestamp m"] by (simp add: mx_used_def)
  have "mx_readTimestamp m' = mx_readTimestamp m + word_of_int k"
  proof (cases "stop0 < ?r")
    case True
    then have "mx_N - ?r + stop0 = k" using wrap cases by simp
    then have "word_of_int (mx_N - ?r) + word_of_int stop0 = (word_of_int k :: u32)"
      by (simp only: wi_hom_add)
    with True show ?thesis by (simp add: m'_def add.assoc)
  next
    case False
    then have "stop0 - ?r = k" using wrap cases by simp
    with False show ?thesis by (simp add: m'_def)
  qed
  then have rts: "uint (mx_readTimestamp m') = uint (mx_readTimestamp m) + k"
    using lt k uint_word32 [of "uint (mx_readTimestamp m) + k"] by (simp add: wi_hom_add [symmetric])
  have "0 \<le> stop0" "stop0 < mx_N" unfolding stop0 by simp_all
  then have bounds: "0 \<le> stop0" "stop0 \<le> mx_N" "stop0 - ?r \<le> mx_N" "mx_N - ?r \<le> mx_N" using w' by auto
  have same: "mx_writeTimestamp m' = mx_writeTimestamp m" "mx_writePtr m' = mx_writePtr m"
    "mx_buffer m' = mx_buffer m" "mx_channels m' = mx_channels m" "mx_numOut m' = mx_numOut m"
    "mx_error m' = mx_error m" "mx_trigger m' = mx_trigger m" "mx_holdoff m' = mx_holdoff m"
    "mx_lastS1 m' = mx_lastS1 m" "mx_lastTimestampS1 m' = mx_lastTimestampS1 m"
    using bounds by (auto simp: m'_def)
  have used': "mx_used m' = ?u - k" using rts same by (simp add: mx_used_def)
  have "mx_writePtr m' = (mx_readPtr m' + mx_used m') mod mx_N"
    using same(2) rp used' w'(5) by (simp add: mod_add_left_eq)
  then have win': "mx_win m'"
    using w rp used' ku k same by (auto simp: mx_win_def)
  have "queue_samples m' = queue_samples m @ take (nat k) (mx_window m)"
  proof (cases "stop0 < ?r")
    case True
    have n: "0 \<le> mx_N - ?r" using w' by simp
    have q: "queue_samples m' = (queue_samples m @ samples_at (mx_buffer m) ?r (mx_N - ?r)) @
        samples_at (mx_buffer m) 0 stop0"
      unfolding m'_def if_P [OF True] mx_ship_piece_queue [OF bounds(1,2)] mx_ship_piece_queue [OF n bounds(4)]
      by simp
    have st: "stop0 = k - (mx_N - ?r)" using wrap True cases by simp
    show ?thesis
    proof (cases "?r + k = mx_N")
      case eq: True
      then have kN: "stop0 = 0" "mx_N - ?r = k" using st by auto
      have "take (nat k) (mx_window m) = samples_at (mx_buffer m) ?r k"
        using window_take_samples [OF w k(2) ku] eq by simp
      moreover have "samples_at (mx_buffer m) 0 0 = []" by (simp add: samples_at_def)
      ultimately show ?thesis using q unfolding kN by simp
    next
      case False
      then have "\<not> ?r + k \<le> mx_N" using wrap True by simp
      then show ?thesis using q st window_take_samples [OF w k(2) ku] by simp
    qed
  next
    case False
    then have "stop0 - ?r = k" "?r + k \<le> mx_N" using wrap cases by auto
    then show ?thesis
      using window_take_samples [OF w k(2) ku] mx_ship_piece_queue [of k] k(2) ku w' False
      by (simp add: m'_def)
  qed
  moreover have "mx_window m' = drop (nat k) (mx_window m)"
  proof (rule nth_equalityI)
    show "length (mx_window m') = length (drop (nat k) (mx_window m))"
      using used' k ku by (simp add: nat_diff_distrib)
    fix i assume "i < length (mx_window m')"
    then have i: "int i < ?u - k" using used' by simp
    have "mx_view m' (int i) = mx_view m (k + int i)"
      by (simp add: mx_view_def same rp mod_add_left_eq add.assoc)
    then show "mx_window m' ! i = drop (nat k) (mx_window m) ! i"
      using i k ku used' by (simp add: mx_window_def)
  qed
  ultimately show ?thesis using dn win' rts same by auto
qed

section \<open>Properties\<close>

text \<open>
  C3. Storing a chunk whose samples lie within one buffer length of the read position changes the
  window exactly as the mix requires: the window is extended with silence to the end of the chunk,
  each sample of the chunk is added to the sample of its timestamp with saturation to 16 bits, and
  every other sample, the read position and the queue are unchanged.
\<close>

theorem mixer_store_mixes:
  assumes "mx_win m" "store_fits m c cts"
  shows "\<exists>m'. mx_StoreRtpPacket c cts m = Done m' \<and> mx_win m' \<and>
    mx_readTimestamp m' = mx_readTimestamp m \<and> mx_queue m' = mx_queue m \<and>
    uint (mx_writeTimestamp m') = max (uint (mx_writeTimestamp m)) (uint cts + int (length (ck_samples c))) \<and>
    (\<forall>d\<in>{0..<mx_used m'}. mx_view m' d = mixed_view m c cts d)"
  using mx_Store_correct [OF assms] by auto

definition pcm_chunk :: "u32 \<Rightarrow> u32 \<Rightarrow> int list \<Rightarrow> mx_chunk" where
  "pcm_chunk ts sq xs = \<lparr>ck_eos = False, ck_encoding = MxPcm, ck_numBytes = 2 * length xs, ck_timestamp = ts,
     ck_seq = sq, ck_channel = 1, ck_samples = xs\<rparr>"

definition eos_chunk :: mx_chunk where
  "eos_chunk = \<lparr>ck_eos = True, ck_encoding = MxPcm, ck_numBytes = 0, ck_timestamp = 0, ck_seq = 0,
     ck_channel = 0, ck_samples = []\<rparr>"

theorem mixer_store_mixes_witness:
  "\<exists>m'. mx_StoreRtpPacket (pcm_chunk 100 1 [5, -6]) 100 RtpMixer_new = Done m' \<and> mx_win m' \<and>
    uint (mx_writeTimestamp m') = 102"
proof -
  have "store_fits RtpMixer_new (pcm_chunk 100 1 [5, -6]) 100"
    by (simp add: store_fits_def valid_channel_def RtpMixer_new_def pcm_chunk_def ck_numSamples_def
        NUM_SAMPLES_CIRCULAR_BUFFER_def)
  from mixer_store_mixes [OF mx_win_new this] show ?thesis
    by (auto simp: RtpMixer_new_def pcm_chunk_def)
qed

text \<open>
  C23. A shipment queues exactly the oldest samples of the window in order, all of them when it is
  forced and all but the hold-off otherwise, whether or not they wrap around the end of the
  buffer; the rest of the window stays as it is.
\<close>

theorem mixer_ships_window:
  assumes "mx_win m" "force \<or> mx_holdoff m \<le> mx_used m"
  shows "\<exists>m' k. mx_CreateShipment tnc 0 force m = Done m' \<and> mx_win m' \<and>
    k = (if force then mx_used m else mx_used m - mx_holdoff m) \<and>
    queue_samples m' = queue_samples m @ take (nat k) (mx_window m) \<and>
    mx_window m' = drop (nat k) (mx_window m) \<and>
    uint (mx_readTimestamp m') = uint (mx_readTimestamp m) + k"
proof -
  let ?k = "if force then mx_used m else mx_used m - mx_holdoff m"
  have "0 \<le> ?k" using assms by (auto simp: mx_win_def)
  from mx_Ship_correct [OF assms(1) refl this, of tnc] show ?thesis by blast
qed

theorem mixer_ships_window_witness:
  "\<exists>m'. mx_CreateShipment 1 0 True RtpMixer_new = Done m' \<and> mx_win m' \<and> queue_samples m' = []"
proof -
  have "mx_window RtpMixer_new = []" "queue_samples RtpMixer_new = []"
    by (simp_all add: RtpMixer_new_def mx_window_def mx_used_def queue_samples_def)
  with mixer_ships_window [OF mx_win_new, of True 1] show ?thesis by auto
qed

subsection \<open>A stream in order\<close>

lemma mixed_view_append:
  assumes "mx_win m" "uint cts = uint (mx_writeTimestamp m)" "\<forall>v\<in>set (ck_samples c). is_sample v"
    "mx_used m' = mx_used m + int (length (ck_samples c))"
    "\<forall>d. 0 \<le> d \<and> d < mx_used m' \<longrightarrow> mx_view m' d = mixed_view m c cts d"
  shows "mx_window m' = mx_window m @ ck_samples c"
proof (rule nth_equalityI)
  have u: "0 \<le> mx_used m" using assms(1) by (simp add: mx_win_def)
  show "length (mx_window m') = length (mx_window m @ ck_samples c)"
    using assms(4) u by (simp add: nat_add_distrib)
  fix i assume "i < length (mx_window m')"
  then have i: "int i < mx_used m'" "i < nat (mx_used m')" by simp_all
  have off: "uint cts - uint (mx_readTimestamp m) = mx_used m" using assms(2) by (simp add: mx_used_def)
  have v: "mx_window m' ! i = mixed_view m c cts (int i)" using i(1) assms(5) nth_upt [of 0 i] i(2) by (simp add: mx_window_def)
  show "mx_window m' ! i = (mx_window m @ ck_samples c) ! i"
  proof (cases "int i < mx_used m")
    case True
    then have "mx_window m ! i = mx_view m (int i)"
      using nth_upt [of 0 i "nat (mx_used m)"] by (simp add: mx_window_def)
    moreover have "i < nat (mx_used m)" using True by simp
    ultimately show ?thesis using True by (simp add: v mixed_view_def off nth_append)
  next
    case False
    then have j: "nat (int i - mx_used m) < length (ck_samples c)" "nat (int i - mx_used m) = i - nat (mx_used m)"
      using i assms(4) u by auto
    then have "is_sample (ck_samples c ! nat (int i - mx_used m))" using assms(3) by simp
    moreover have "\<not> i < nat (mx_used m)" using False by simp
    ultimately show ?thesis using False j u i assms(4)
      by (simp add: v mixed_view_def off nth_append clamp16_id)
  qed
qed

text \<open>Feeding the packets of one side with consecutive timestamps.\<close>

fun mx_feed :: "int \<Rightarrow> u32 \<Rightarrow> (u32 \<times> int list) list \<Rightarrow> RtpMixer \<Rightarrow> RtpMixer outcome" where
  "mx_feed tnc ts [] m = Done m"
| "mx_feed tnc ts ((sq, xs) # ps) m =
     (case mx_AudioChunkIn tnc (Some (pcm_chunk ts sq xs)) m of
        Done m' \<Rightarrow> mx_feed tnc (ts + of_nat (length xs)) ps m'
      | r \<Rightarrow> r)"

definition packet_ok :: "int list \<Rightarrow> bool" where
  "packet_ok xs \<longleftrightarrow> 20 < length xs \<and> length xs < 4000 \<and> (\<forall>v\<in>set xs. is_sample v)"

text \<open>The state after some packets: \<open>ts\<close> is the next timestamp, \<open>out\<close> all samples so far.\<close>

definition stream_inv :: "u32 \<Rightarrow> int list \<Rightarrow> RtpMixer \<Rightarrow> bool" where
  "stream_inv ts out m \<longleftrightarrow> mx_win m \<and> \<not> mx_error m \<and> mx_channels m = [] \<and> mx_numOut m = 1 \<and>
     mx_writeTimestamp m = ts \<and> mx_trigger m = NUM_SAMPLES_TRIGGER \<and>
     mx_holdoff m = NUM_SAMPLES_SHIPMENT_HOLDOFF \<and> mx_used m \<le> NUM_SAMPLES_TRIGGER \<and>
     queue_samples m @ mx_window m = out \<and> mx_lastS1 m \<noteq> None \<and>
     uint (mx_lastTimestampS1 m) + 20 < uint ts"

lemmas mx_consts = NUM_SAMPLES_TRIGGER_def NUM_SAMPLES_SHIPMENT_HOLDOFF_def NUM_SAMPLES_CIRCULAR_BUFFER_def

lemma mx_irrelevant_updates [simp]:
  "mx_win (m\<lparr>mx_lastS1 := a\<rparr>) = mx_win m" "mx_win (m\<lparr>mx_processed := b\<rparr>) = mx_win m"
  "mx_win (m\<lparr>mx_statsS1 := d\<rparr>) = mx_win m" "mx_win (m\<lparr>mx_lastTimestampS1 := e\<rparr>) = mx_win m"
  "mx_used (m\<lparr>mx_lastS1 := a\<rparr>) = mx_used m" "mx_used (m\<lparr>mx_processed := b\<rparr>) = mx_used m"
  "mx_used (m\<lparr>mx_statsS1 := d\<rparr>) = mx_used m" "mx_used (m\<lparr>mx_lastTimestampS1 := e\<rparr>) = mx_used m"
  "mx_window (m\<lparr>mx_lastS1 := a\<rparr>) = mx_window m" "mx_window (m\<lparr>mx_processed := b\<rparr>) = mx_window m"
  "mx_window (m\<lparr>mx_statsS1 := d\<rparr>) = mx_window m" "mx_window (m\<lparr>mx_lastTimestampS1 := e\<rparr>) = mx_window m"
  "queue_samples (m\<lparr>mx_lastS1 := a\<rparr>) = queue_samples m"
  "queue_samples (m\<lparr>mx_processed := b\<rparr>) = queue_samples m"
  "queue_samples (m\<lparr>mx_statsS1 := d\<rparr>) = queue_samples m"
  "queue_samples (m\<lparr>mx_lastTimestampS1 := e\<rparr>) = queue_samples m"
  by (simp_all add: mx_win_def mx_used_def mx_window_def mx_view_def queue_samples_def)

lemma pcm_chunk_fields [simp]:
  "ck_samples (pcm_chunk ts sq xs) = xs" "ck_numSamples (pcm_chunk ts sq xs) = length xs"
  "ck_timestamp (pcm_chunk ts sq xs) = ts" "ck_channel (pcm_chunk ts sq xs) = 1"
  "ck_eos (pcm_chunk ts sq xs) = False" "ck_encoding (pcm_chunk ts sq xs) = MxPcm"
  "ck_numBytes (pcm_chunk ts sq xs) = 2 * length xs" "ck_seq (pcm_chunk ts sq xs) = sq"
  by (simp_all add: pcm_chunk_def ck_numSamples_def)

lemma mx_In_pcm:
  assumes "\<not> mx_error m" "packet_ok xs" "mx_channels m = []" "mx_numOut m = 1"
  shows "mx_AudioChunkIn tnc (Some (pcm_chunk ts sq xs)) m =
    (case mx_side1 (pcm_chunk ts sq xs) m of (c1, cts, m2) \<Rightarrow> mx_place tnc c1 cts m2)"
  using assms by (auto simp: mx_AudioChunkIn_def packet_ok_def mx_sides_def)

lemma uint_add_nat:
  fixes ts :: u32
  assumes "uint ts + int n < 2 ^ 32"
  shows "uint (ts + of_nat n) = uint ts + int n"
proof -
  have "uint (of_nat n :: u32) = int n"
  proof -
    have "int n < 2 ^ 32" using assms uint_ge_0 [of ts] by linarith
    then have "n < 2 ^ 32" by simp
    then show ?thesis by (simp add: unsigned_of_nat take_bit_nat_eq_self)
  qed
  then show ?thesis using assms by (simp add: uint_plus_if_size word_size)
qed

lemma mx_win_wts [simp]: "mx_window (m\<lparr>mx_oneS1 := b\<rparr>) = mx_window m" "mx_used (m\<lparr>mx_oneS1 := b\<rparr>) = mx_used m"
  by (simp_all add: mx_window_def mx_view_def mx_used_def)

text \<open>Storing the next chunk and shipping when more than the trigger is there.\<close>

lemma stream_store:
  assumes w: "mx_win m" "\<not> mx_error m" "mx_channels m = []" "mx_numOut m = 1"
    "mx_writeTimestamp m = ts" "mx_trigger m = NUM_SAMPLES_TRIGGER" "mx_holdoff m = NUM_SAMPLES_SHIPMENT_HOLDOFF"
    "mx_used m \<le> NUM_SAMPLES_TRIGGER" "queue_samples m @ mx_window m = out" "mx_lastS1 m \<noteq> None"
    and p: "packet_ok xs" "uint ts + int (length xs) < 2 ^ 32"
    and l: "uint (mx_lastTimestampS1 m) + 20 < uint ts + int (length xs)"
  shows "\<exists>m1. mx_StoreRtpPacket (pcm_chunk ts sq xs) ts m = Done m1 \<and> mx_win m1 \<and>
    mx_used m1 = mx_used m + int (length xs) \<and>
    (if mx_used m1 > NUM_SAMPLES_TRIGGER
     then \<exists>m2. mx_CreateShipment tnc 0 False m1 = Done m2 \<and>
            stream_inv (ts + of_nat (length xs)) (out @ xs) m2
     else stream_inv (ts + of_nat (length xs)) (out @ xs) m1)"
proof -
  let ?c = "pcm_chunk ts sq xs"
  have u: "0 \<le> mx_used m" "uint ts - uint (mx_readTimestamp m) = mx_used m"
    using w(1,5) by (auto simp: mx_win_def mx_used_def)
  have len: "20 < length xs" "length xs < 4000" "\<forall>v\<in>set xs. is_sample v" using p(1) by (auto simp: packet_ok_def)
  have "store_fits m ?c ts"
    using w(3,8) p len u by (auto simp: store_fits_def valid_channel_def mx_consts)
  from mx_Store_correct [OF w(1) this] obtain m1 where m1: "mx_StoreRtpPacket ?c ts m = Done m1" "mx_win m1"
    "mx_readTimestamp m1 = mx_readTimestamp m" "mx_queue m1 = mx_queue m"
    "uint (mx_writeTimestamp m1) = uint ts + int (length xs)"
    "\<forall>d. 0 \<le> d \<and> d < mx_used m1 \<longrightarrow> mx_view m1 d = mixed_view m ?c ts d"
    "mx_trigger m1 = mx_trigger m" "mx_holdoff m1 = mx_holdoff m" "length (mx_channels m1) = length (mx_channels m)"
    "mx_numOut m1 = mx_numOut m" "mx_error m1 = mx_error m" "mx_lastS1 m1 = mx_lastS1 m"
    "mx_lastTimestampS1 m1 = mx_lastTimestampS1 m" using w(5) by auto
  have used: "mx_used m1 = mx_used m + int (length xs)" using m1(3,5) u by (simp add: mx_used_def)
  have win: "mx_window m1 = mx_window m @ xs"
    using mixed_view_append [of m ts ?c m1] w(1,5) len(3) used m1(6) by simp
  have wts: "mx_writeTimestamp m1 = ts + of_nat (length xs)"
    using m1(5) uint_add_nat [OF p(2)] by (simp add: word_uint_eq_iff)
  have out1: "queue_samples m1 @ mx_window m1 = out @ xs"
    using w(9) by (simp add: win queue_samples_def m1(4)) 
  show ?thesis
  proof (cases "mx_used m1 > NUM_SAMPLES_TRIGGER")
    case False
    then have "stream_inv (ts + of_nat (length xs)) (out @ xs) m1"
      unfolding stream_inv_def using m1 w wts out1 l by auto
    with False m1(1,2) used show ?thesis by auto
  next
    case True
    let ?k = "mx_used m1 - mx_holdoff m1"
    have k: "0 \<le> ?k" using True m1(8) w(7) by (simp add: mx_consts)
    from mx_Ship_correct [OF m1(2), of ?k False tnc] k obtain m2 where m2:
      "mx_CreateShipment tnc 0 False m1 = Done m2" "mx_win m2"
      "queue_samples m2 = queue_samples m1 @ take (nat ?k) (mx_window m1)"
      "mx_window m2 = drop (nat ?k) (mx_window m1)" "mx_writeTimestamp m2 = mx_writeTimestamp m1"
      "uint (mx_readTimestamp m2) = uint (mx_readTimestamp m1) + ?k" "mx_channels m2 = mx_channels m1"
      "mx_numOut m2 = mx_numOut m1" "mx_error m2 = mx_error m1" "mx_trigger m2 = mx_trigger m1"
      "mx_holdoff m2 = mx_holdoff m1" "mx_lastS1 m2 = mx_lastS1 m1"
      "mx_lastTimestampS1 m2 = mx_lastTimestampS1 m1" by auto
    have u2: "mx_used m2 \<le> NUM_SAMPLES_TRIGGER"
      using m2(5,6) m1(8) w(7) by (simp add: mx_used_def mx_consts)
    have "queue_samples m2 @ mx_window m2 = out @ xs" unfolding m2(3,4) using out1 by simp
    then have "stream_inv (ts + of_nat (length xs)) (out @ xs) m2"
      unfolding stream_inv_def using m2 m1 w wts l u2 by auto
    with True m1(1,2) used m2(1) show ?thesis by auto
  qed
qed

lemma mx_fits_next:
  assumes "mx_win m" "mx_writeTimestamp m = ts" "length xs < 4000" "mx_used m \<le> NUM_SAMPLES_TRIGGER"
  shows "mx_fits (pcm_chunk ts sq xs) ts m"
proof -
  have "sint (of_nat (length xs) :: u32) = int (length xs)"
    using assms(3) by (simp add: signed_of_nat signed_take_bit_int_eq_self)
  moreover have "0 \<le> mx_used m" using assms(1) by (simp add: mx_win_def)
  ultimately show ?thesis
    using assms by (simp add: mx_fits_def mx_FreeSpace_def mx_UsedSpace_used mx_consts)
qed

lemma stream_step:
  assumes "stream_inv ts out m" "packet_ok xs" "uint ts + int (length xs) < 2 ^ 32"
  shows "\<exists>m'. mx_AudioChunkIn tnc (Some (pcm_chunk ts sq xs)) m = Done m' \<and>
    stream_inv (ts + of_nat (length xs)) (out @ xs) m'"
proof -
  from assms(1) obtain l where s: "mx_win m" "\<not> mx_error m" "mx_channels m = []" "mx_numOut m = 1"
    "mx_writeTimestamp m = ts" "mx_trigger m = NUM_SAMPLES_TRIGGER" "mx_holdoff m = NUM_SAMPLES_SHIPMENT_HOLDOFF"
    "mx_used m \<le> NUM_SAMPLES_TRIGGER" "queue_samples m @ mx_window m = out" "mx_lastS1 m = Some l"
    "uint (mx_lastTimestampS1 m) + 20 < uint ts" by (auto simp: stream_inv_def)
  have no20: "ts - mx_lastTimestampS1 m \<noteq> 20"
  proof
    assume "ts - mx_lastTimestampS1 m = 20"
    then have "uint (ts - mx_lastTimestampS1 m) = 20" by simp
    with s(11) show False by (simp add: uint_sub_if_size word_size split: if_splits)
  qed
  let ?c = "pcm_chunk ts sq xs"
  define m1 where "m1 = m\<lparr>mx_statsS1 := mx_DoStats (sq, ts) l (mx_statsS1 m), mx_lastS1 := Some (sq, ts),
      mx_processed := mx_processed m + length xs\<rparr>"
  have side: "mx_side1 ?c m = (?c, ts, m1)"
    using s(3,10) no20 by (simp add: mx_side1_def Let_def m1_def)
  have f1: "mx_win m1" "\<not> mx_error m1" "mx_channels m1 = []" "mx_numOut m1 = 1" "mx_writeTimestamp m1 = ts"
    "mx_trigger m1 = NUM_SAMPLES_TRIGGER" "mx_holdoff m1 = NUM_SAMPLES_SHIPMENT_HOLDOFF"
    "mx_used m1 \<le> NUM_SAMPLES_TRIGGER" "queue_samples m1 @ mx_window m1 = out" "mx_lastS1 m1 \<noteq> None"
    "mx_lastTimestampS1 m1 = mx_lastTimestampS1 m" using s by (simp_all add: m1_def)
  have l1: "uint (mx_lastTimestampS1 m1) + 20 < uint ts + int (length xs)" using s(11) f1(11) by simp
  from stream_store [OF f1(1-10) assms(2,3) l1, of sq tnc] obtain m2 where m2:
    "mx_StoreRtpPacket ?c ts m1 = Done m2" "mx_win m2"
    "if mx_used m2 > NUM_SAMPLES_TRIGGER
     then \<exists>m3. mx_CreateShipment tnc 0 False m2 = Done m3 \<and> stream_inv (ts + of_nat (length xs)) (out @ xs) m3
     else stream_inv (ts + of_nat (length xs)) (out @ xs) m2" by blast
  have nz: "mx_writeTimestamp m1 \<noteq> 0"
  proof
    assume "mx_writeTimestamp m1 = 0"
    then have "uint ts = 0" using f1(5) by simp
    with s(11) uint_ge_0 [of "mx_lastTimestampS1 m"] show False by linarith
  qed
  have ge: "mx_readTimestamp m1 \<le> ts" using f1(1,5) by (simp add: mx_win_def mx_used_def word_le_def)
  have fit: "mx_fits ?c ts m1" using mx_fits_next [OF f1(1,5) _ f1(8)] assms(2) by (simp add: packet_ok_def)
  have trig: "mx_trigger m2 = NUM_SAMPLES_TRIGGER"
  proof -
    have "mx_trigger m2 = mx_trigger m1"
      using m2(1) f1(3) by (auto simp: mx_StoreRtpPacket_def Let_def split: if_splits)
    then show ?thesis using f1(6) by simp
  qed
  have "mx_place tnc ?c ts m1 = (if mx_used m2 > NUM_SAMPLES_TRIGGER
      then mx_CreateShipment tnc 0 False m2 else Done m2)"
    using nz ge fit m2(1) trig mx_UsedSpace_used [OF m2(2)] by (simp add: mx_place_def mx_consts)
  with m2(3) side mx_In_pcm [OF s(2) assms(2) s(3,4), of tnc ts sq] show ?thesis
    by (auto split: if_splits)
qed

lemma stream_first:
  assumes "0 < uint ts" "packet_ok xs" "uint ts + int (length xs) < 2 ^ 32"
  shows "\<exists>m'. mx_AudioChunkIn tnc (Some (pcm_chunk ts sq xs)) RtpMixer_new = Done m' \<and>
    stream_inv (ts + of_nat (length xs)) xs m' \<and> mx_used m' = int (length xs)"
proof -
  let ?c = "pcm_chunk ts sq xs"
  define m1 where "m1 = RtpMixer_new\<lparr>mx_lastTimestampS1 := ts, mx_lastS1 := Some (sq, ts),
      mx_processed := length xs, mx_writeTimestamp := ts, mx_readTimestamp := ts, mx_oneS1 := True\<rparr>"
  have f1: "mx_win m1" "\<not> mx_error m1" "mx_channels m1 = []" "mx_numOut m1 = 1" "mx_writeTimestamp m1 = ts"
    "mx_trigger m1 = NUM_SAMPLES_TRIGGER" "mx_holdoff m1 = NUM_SAMPLES_SHIPMENT_HOLDOFF"
    "mx_used m1 \<le> NUM_SAMPLES_TRIGGER" "queue_samples m1 @ mx_window m1 = []" "mx_lastS1 m1 \<noteq> None"
    by (simp_all add: m1_def RtpMixer_new_def mx_win_def mx_used_def mx_consts queue_samples_def mx_window_def)
  have l1: "uint (mx_lastTimestampS1 m1) + 20 < uint ts + int (length xs)"
    using assms(2) by (simp add: m1_def RtpMixer_new_def packet_ok_def)
  from stream_store [OF f1 assms(2,3) l1, of sq tnc] obtain m2 where m2:
    "mx_StoreRtpPacket ?c ts m1 = Done m2" "mx_used m2 = mx_used m1 + int (length xs)"
    "if mx_used m2 > NUM_SAMPLES_TRIGGER
     then \<exists>m3. mx_CreateShipment tnc 0 False m2 = Done m3 \<and> stream_inv (ts + of_nat (length xs)) ([] @ xs) m3
     else stream_inv (ts + of_nat (length xs)) ([] @ xs) m2" by blast
  have "mx_used m1 = 0" by (simp add: m1_def mx_used_def)
  with m2(2) have used: "mx_used m2 = int (length xs)" by simp
  with assms(2) have "\<not> mx_used m2 > NUM_SAMPLES_TRIGGER" by (simp add: packet_ok_def mx_consts)
  with m2(3) have inv: "stream_inv (ts + of_nat (length xs)) xs m2" by simp
  have "mx_AudioChunkIn tnc (Some ?c) RtpMixer_new = mx_StoreRtpPacket ?c ts m1"
  proof -
    have "mx_side1 ?c RtpMixer_new = (?c, ts, RtpMixer_new\<lparr>mx_lastTimestampS1 := ts,
        mx_lastS1 := Some (sq, ts), mx_processed := length xs\<rparr>)"
      by (simp add: mx_side1_def Let_def RtpMixer_new_def)
    moreover have "mx_AudioChunkIn tnc (Some ?c) RtpMixer_new =
        (case mx_side1 ?c RtpMixer_new of (c1, cts, m2) \<Rightarrow> mx_place tnc c1 cts m2)"
      by (rule mx_In_pcm) (use assms(2) in \<open>simp_all add: RtpMixer_new_def\<close>)
    ultimately show ?thesis by (simp add: mx_place_def m1_def RtpMixer_new_def)
  qed
  with m2(1) inv used show ?thesis by auto
qed

lemma stream_feed:
  "stream_inv ts out m \<Longrightarrow> \<forall>(sq, xs)\<in>set ps. packet_ok xs \<Longrightarrow>
    uint ts + int (length (concat (map snd ps))) < 2 ^ 32 \<Longrightarrow>
    \<exists>m'. mx_feed tnc ts ps m = Done m' \<and>
      stream_inv (ts + of_nat (length (concat (map snd ps)))) (out @ concat (map snd ps)) m'"
proof (induction ps arbitrary: ts out m)
  case (Cons q ps)
  obtain sq xs where q: "q = (sq, xs)" by force
  have ok: "packet_ok xs" "uint ts + int (length xs) < 2 ^ 32" using Cons.prems q by auto
  from stream_step [OF Cons.prems(1) ok, of tnc sq] obtain m1 where m1:
    "mx_AudioChunkIn tnc (Some (pcm_chunk ts sq xs)) m = Done m1"
    "stream_inv (ts + of_nat (length xs)) (out @ xs) m1" by blast
  have "uint (ts + of_nat (length xs)) + int (length (concat (map snd ps))) < 2 ^ 32"
    unfolding uint_add_nat [OF ok(2)] using Cons.prems(3) q by simp
  from Cons.IH [OF m1(2) _ this] Cons.prems(2) m1(1) q show ?case by (auto simp: add.assoc)
qed simp

text \<open>
  C25. End to end, one side: packets with consecutive timestamps, each of more than 20 and fewer
  than 4000 samples, are accepted without error, and after the end-of-stream marker the queue
  holds exactly their samples, in order, none lost, repeated or altered.
\<close>

theorem mixer_stream_identity:
  assumes "0 < uint ts" "ps \<noteq> []" "\<forall>(sq, xs)\<in>set ps. packet_ok xs"
    "uint ts + int (length (concat (map snd ps))) < 2 ^ 32"
  shows "\<exists>m m'. mx_feed tnc ts ps RtpMixer_new = Done m \<and>
    mx_AudioChunkIn tnc (Some eos_chunk) m = Done m' \<and> queue_samples m' = concat (map snd ps)"
proof -
  obtain sq xs qs where ps: "ps = (sq, xs) # qs" using assms(2) by (cases ps) auto
  have ok: "packet_ok xs" "uint ts + int (length xs) < 2 ^ 32" using assms(3,4) ps by auto
  from stream_first [OF assms(1) ok, of tnc sq] obtain m1 where m1:
    "mx_AudioChunkIn tnc (Some (pcm_chunk ts sq xs)) RtpMixer_new = Done m1"
    "stream_inv (ts + of_nat (length xs)) xs m1" by blast
  have "uint (ts + of_nat (length xs)) + int (length (concat (map snd qs))) < 2 ^ 32"
    unfolding uint_add_nat [OF ok(2)] using assms(4) ps by simp
  from stream_feed [OF m1(2) _ this, of tnc] assms(3) ps obtain m where m:
    "mx_feed tnc (ts + of_nat (length xs)) qs m1 = Done m"
    "stream_inv (ts + of_nat (length xs) + of_nat (length (concat (map snd qs)))) (concat (map snd ps)) m" by auto
  have w: "mx_win m" "0 \<le> mx_used m" "\<not> mx_error m" using m(2) by (auto simp: stream_inv_def mx_win_def)
  from mx_Ship_correct [OF w(1), of "mx_used m" True tnc] w(2) obtain m' where
    m': "mx_CreateShipment tnc 0 True m = Done m'"
    "queue_samples m' = queue_samples m @ take (nat (mx_used m)) (mx_window m)" by auto
  have "queue_samples m' = concat (map snd ps)"
    using m'(2) m(2) by (simp add: stream_inv_def)
  moreover have "mx_AudioChunkIn tnc (Some eos_chunk) m = Done m'"
    using w(3) m'(1) by (simp add: mx_AudioChunkIn_def eos_chunk_def)
  ultimately show ?thesis using m(1) m1(1) ps by auto
qed

theorem mixer_stream_identity_witness:
  "\<exists>m m'. mx_feed 1 1000 [(1, replicate 160 5), (2, replicate 160 (-7))] RtpMixer_new = Done m \<and>
    mx_AudioChunkIn 1 (Some eos_chunk) m = Done m' \<and> queue_samples m' = replicate 160 5 @ replicate 160 (-7)"
  using mixer_stream_identity [of 1000 "[(1, replicate 160 5), (2, replicate 160 (-7))]" 1]
  by (simp add: packet_ok_def is_sample_def)

subsection \<open>A chunk that fills the buffer exactly\<close>

lemma exact_fill_store:
  assumes "mx_win m" "mx_channels m = []" "mx_used m = 160" "mx_writeTimestamp m = 1160" "length ys = 160"
  shows "\<exists>m'. mx_StoreRtpPacket (pcm_chunk 16840 sq ys) 16840 m = Done m' \<and> mx_queue m' = mx_queue m \<and>
    mx_writePtr m' = mx_readPtr m' \<and> mx_trigger m' = mx_trigger m \<and> mx_error m' = mx_error m"
proof -
  have w: "0 \<le> mx_writePtr m" "mx_writePtr m < mx_N" "mx_writePtr m = (mx_readPtr m + 160) mod mx_N"
    "0 \<le> mx_readPtr m" "mx_readPtr m < mx_N" using assms(1,3) by (auto simp: mx_win_def)
  have "mx_writePtr (mx_silence 15840 m) = (mx_writePtr m + 15840) mod mx_N"
    using mx_silence_ptr [OF w(1,2), of 15840] by simp
  also have "\<dots> = (mx_readPtr m + 160 + 15840) mod mx_N" unfolding w(3) by (rule mod_add_left_eq)
  also have "\<dots> = (mx_readPtr m + mx_N) mod mx_N" by (simp add: NUM_SAMPLES_CIRCULAR_BUFFER_def add.assoc)
  also have "\<dots> = mx_readPtr m" using w by simp
  finally show ?thesis using assms(2,4,5)
    by (simp add: mx_StoreRtpPacket_def Let_def NUM_SAMPLES_CIRCULAR_BUFFER_def)
qed

text \<open>The second packet ends exactly where the free space does, is accepted, and the buffer looks empty.\<close>

lemma exact_fill_accepted:
  assumes "stream_inv 1160 (replicate 160 9) m1" "mx_used m1 = 160"
  shows "\<exists>m2. mx_AudioChunkIn 1 (Some (pcm_chunk 16840 2 (replicate 160 9))) m1 = Done m2 \<and>
    mx_writePtr m2 = mx_readPtr m2 \<and> \<not> mx_error m2 \<and> queue_samples m2 = []"
proof -
  have ok: "packet_ok (replicate 160 9)" by (simp add: packet_ok_def is_sample_def)
  have s: "mx_win m1" "\<not> mx_error m1" "mx_channels m1 = []" "mx_numOut m1 = 1" "mx_writeTimestamp m1 = 1160"
    "mx_trigger m1 = NUM_SAMPLES_TRIGGER" "queue_samples m1 @ mx_window m1 = replicate 160 9"
    "uint (mx_lastTimestampS1 m1) + 20 < 1160" using assms(1) by (auto simp: stream_inv_def)
  obtain l where l: "mx_lastS1 m1 = Some l" using assms(1) by (auto simp: stream_inv_def)
  have q1: "queue_samples m1 = []" using arg_cong [OF s(7), of length] assms(2) by simp
  have no20: "16840 - mx_lastTimestampS1 m1 \<noteq> 20"
  proof
    assume "16840 - mx_lastTimestampS1 m1 = 20"
    then have "uint (16840 - mx_lastTimestampS1 m1) = 20" by simp
    with s(8) show False by (simp add: uint_sub_if_size word_size split: if_splits)
  qed
  let ?c = "pcm_chunk 16840 2 (replicate 160 9)"
  define m1' where "m1' = m1\<lparr>mx_statsS1 := mx_DoStats (2, 16840) l (mx_statsS1 m1), mx_lastS1 := Some (2, 16840),
      mx_processed := mx_processed m1 + 160\<rparr>"
  have side: "mx_side1 ?c m1 = (?c, 16840, m1')"
    using s(3) l no20 by (simp add: mx_side1_def Let_def m1'_def)
  have f: "mx_win m1'" "mx_channels m1' = []" "mx_used m1' = 160" "mx_writeTimestamp m1' = 1160"
    "\<not> mx_error m1'" "mx_trigger m1' = 12000" "queue_samples m1' = []"
    using s assms(2) q1 by (simp_all add: m1'_def mx_consts)
  from exact_fill_store [OF f(1-4), of "replicate 160 9" 2] obtain m2 where m2:
    "mx_StoreRtpPacket ?c 16840 m1' = Done m2" "mx_queue m2 = mx_queue m1'" "mx_writePtr m2 = mx_readPtr m2"
    "mx_trigger m2 = mx_trigger m1'" "mx_error m2 = mx_error m1'" by auto
  have rts: "uint (mx_readTimestamp m1') = 1000" using f(3,4) by (simp add: mx_used_def)
  have "mx_readTimestamp m1' \<le> 16840" using rts by (simp add: word_le_def)
  moreover have "mx_fits ?c 16840 m1'"
    using f(3) mx_UsedSpace_used [OF f(1)] f(4)
    by (simp add: mx_fits_def mx_FreeSpace_def NUM_SAMPLES_CIRCULAR_BUFFER_def)
  ultimately have "mx_place 1 ?c 16840 m1' = Done m2"
    using f(4,6) m2 by (simp add: mx_place_def mx_UsedSpace_def)
  then have "mx_AudioChunkIn 1 (Some ?c) m1 = Done m2"
    using side mx_In_pcm [OF s(2) ok s(3,4), of 1 16840 2] by simp
  moreover have "queue_samples m2 = queue_samples m1'" using m2(2) by (simp only: queue_samples_def)
  ultimately show ?thesis using m2(3,5) f(5,7) by auto
qed

text \<open>
  A chunk that ends exactly one buffer length (16000 samples) after the read position passes
  the fit test and makes the write pointer meet the read pointer, which reads as an empty buffer:
  two packets of 160 samples with a gap of 15680 samples between them leave nothing to ship at the
  end of the stream, all their audio is lost.
\<close>

theorem mixer_exact_fill_loses_audio:
  "\<exists>m1 m2 m3. mx_AudioChunkIn 1 (Some (pcm_chunk 1000 1 (replicate 160 9))) RtpMixer_new = Done m1 \<and>
    mx_AudioChunkIn 1 (Some (pcm_chunk 16840 2 (replicate 160 9))) m1 = Done m2 \<and>
    mx_AudioChunkIn 1 (Some eos_chunk) m2 = Done m3 \<and> queue_samples m3 = []"
proof -
  have ok: "packet_ok (replicate 160 9)" by (simp add: packet_ok_def is_sample_def)
  from stream_first [OF _ ok, of 1000 1 1] obtain m1 where m1:
    "mx_AudioChunkIn 1 (Some (pcm_chunk 1000 1 (replicate 160 9))) RtpMixer_new = Done m1"
    "stream_inv 1160 (replicate 160 9) m1" "mx_used m1 = 160" by auto
  obtain m2 where m2: "mx_AudioChunkIn 1 (Some (pcm_chunk 16840 2 (replicate 160 9))) m1 = Done m2"
    "mx_writePtr m2 = mx_readPtr m2" "\<not> mx_error m2" "queue_samples m2 = []"
    using exact_fill_accepted [OF m1(2,3)] by blast
  define m3 where "m3 = mx_ship_piece 1 (mx_readPtr m2) 0 m2"
  have "mx_AudioChunkIn 1 (Some eos_chunk) m2 = Done m3"
    using m2(2,3) by (simp add: mx_AudioChunkIn_def eos_chunk_def mx_CreateShipment_def Let_def m3_def)
  moreover have "queue_samples m3 = queue_samples m2 @ samples_at (mx_buffer m2) (mx_readPtr m2) 0"
    unfolding m3_def by (rule mx_ship_piece_queue) (simp_all add: NUM_SAMPLES_CIRCULAR_BUFFER_def)
  ultimately show ?thesis using m1(1) m2(1,4) by (auto simp: samples_at_def)
qed

subsection \<open>Any input\<close>

text \<open>The weak invariant: both pointers point into the buffer; channels exist only for tape output.\<close>

definition mx_safe :: "int \<Rightarrow> RtpMixer \<Rightarrow> bool" where
  "mx_safe tnc m \<longleftrightarrow> 0 \<le> mx_writePtr m \<and> mx_writePtr m < mx_N \<and> 0 \<le> mx_readPtr m \<and> mx_readPtr m < mx_N \<and>
     0 \<le> mx_holdoff m \<and> mx_holdoff m < mx_N \<and> (mx_channels m = [] \<or> (mx_numOut m = 2 \<and> tnc > 1))"

text \<open>The payload of the chunk is shorter than announced.\<close>

definition ck_short :: "mx_chunk \<Rightarrow> bool" where
  "ck_short c \<longleftrightarrow> length (ck_samples c) < ck_numSamples c"

text \<open>Safe but for one allowed cause of undefined behaviour.\<close>

definition safe_outcome :: "int \<Rightarrow> bool \<Rightarrow> RtpMixer outcome \<Rightarrow> bool" where
  "safe_outcome tnc u r \<longleftrightarrow> (case r of Done m' \<Rightarrow> mx_safe tnc m' | Thrown \<Rightarrow> False | Undefined \<Rightarrow> u)"

lemma safe_outcome_simps:
  "safe_outcome tnc u (Done m) = mx_safe tnc m" "safe_outcome tnc u Undefined = u"
  by (simp_all add: safe_outcome_def)

lemma mx_safe_Ship: "mx_safe tnc m \<Longrightarrow> safe_outcome tnc u (mx_CreateShipment tnc 0 force m)"
proof -
  assume s: "mx_safe tnc m"
  let ?r = "mx_readPtr m"
  define stop where "stop = (if force then mx_writePtr m else ptr_sub (mx_writePtr m) (mx_holdoff m))"
  have stop: "0 \<le> stop" "stop < mx_N" using s by (auto simp: stop_def ptr_sub_mod mx_safe_def)
  have r: "0 \<le> ?r" "?r < mx_N" using s by (auto simp: mx_safe_def)
  have "ptr_add ?r (mx_N - ?r) = 0" by (simp add: ptr_add_def)
  then show ?thesis
    using s stop r
    by (auto simp: mx_CreateShipment_def Let_def stop_def [symmetric] safe_outcome_def mx_safe_def ptr_add_def)
qed

lemma mx_safe_Store:
  assumes "mx_safe tnc m" "valid_channel c m"
  shows "safe_outcome tnc (ck_short c) (mx_StoreRtpPacket c cts m)"
proof -
  have "0 \<le> mx_writePtr (mx_silence n m)" "mx_writePtr (mx_silence n m) < mx_N" for n
    using assms(1) mx_silence_ptr [of m n] by (auto simp: mx_safe_def)
  moreover have "mx_channels (mx_silence n m) = [] \<longleftrightarrow> mx_channels m = []" for n
    using mx_silence_fields(9) [of n m] by (metis length_0_conv)
  moreover have "mx_channels (mx_mix vs p ch x) = [] \<longleftrightarrow> mx_channels x = []" for vs p ch x
    using mx_mix_fields(10) [of vs p ch x] by (metis length_0_conv)
  ultimately show ?thesis
    using assms by (auto simp: mx_StoreRtpPacket_def Let_def safe_outcome_def mx_safe_def valid_channel_def ck_short_def)
qed

lemma mx_safe_Manage:
  assumes "mx_safe tnc m" "valid_channel c m"
  shows "safe_outcome tnc (ck_short c) (mx_ManageOutOfRangeTimestamp tnc c m)"
proof (cases "ck_channel c = 1")
  case True
  from mx_safe_Ship [OF assms(1), of False True] obtain m1 where m1: "mx_CreateShipment tnc 0 True m = Done m1"
    "mx_safe tnc m1" by (auto simp: safe_outcome_def mx_CreateShipment_def Let_def)
  have "mx_channels m1 = mx_channels m" using m1(1) by (auto simp: mx_CreateShipment_def Let_def)
  then have "valid_channel c (mx_Reset (ck_timestamp c) m1)" using assms(2) by (simp add: valid_channel_def mx_Reset_def)
  moreover have "mx_safe tnc (mx_Reset (ck_timestamp c) m1)" using m1(2) by (simp add: mx_safe_def mx_Reset_def)
  ultimately have "safe_outcome tnc (ck_short c) (mx_StoreRtpPacket c (ck_timestamp c) (mx_Reset (ck_timestamp c) m1))"
    by (intro mx_safe_Store)
  with True m1(1) show ?thesis
    by (auto simp: mx_ManageOutOfRangeTimestamp_def safe_outcome_def mx_safe_def split: outcome.splits)
next
  case False
  with assms show ?thesis
    by (auto simp: mx_ManageOutOfRangeTimestamp_def safe_outcome_def mx_safe_def valid_channel_def Let_def)
qed

lemma mx_safe_place:
  assumes "mx_safe tnc m" "valid_channel c m"
  shows "safe_outcome tnc (ck_short c) (mx_place tnc c cts m)"
proof -
  have st: "safe_outcome tnc (ck_short c) (mx_StoreRtpPacket c cts m)" by (rule mx_safe_Store [OF assms])
  have "mx_safe tnc (m\<lparr>mx_writeTimestamp := a, mx_readTimestamp := b, mx_oneS1 := d\<rparr>)" for a b d
    using assms(1) by (simp add: mx_safe_def)
  moreover have "valid_channel c (m\<lparr>mx_writeTimestamp := a, mx_readTimestamp := b, mx_oneS1 := d\<rparr>)" for a b d
    using assms(2) by (simp add: valid_channel_def)
  ultimately have "safe_outcome tnc (ck_short c) (mx_StoreRtpPacket c cts
      (m\<lparr>mx_writeTimestamp := a, mx_readTimestamp := b, mx_oneS1 := d\<rparr>))" for a b d
    by (intro mx_safe_Store)
  moreover have "safe_outcome tnc (ck_short c) (case mx_StoreRtpPacket c cts m of
      Done m1 \<Rightarrow> if mx_UsedSpace m1 > mx_trigger m1 mod 2 ^ 32
                 then mx_CreateShipment tnc 0 False m1 else Done m1 | r \<Rightarrow> r)"
    using st mx_safe_Ship
    by (cases "mx_StoreRtpPacket c cts m") (simp_all add: safe_outcome_simps)
  ultimately show ?thesis
    using mx_safe_Manage [OF assms] assms(1) by (simp add: mx_place_def safe_outcome_simps)
qed

definition mx_core :: "RtpMixer \<Rightarrow> int \<times> int \<times> int \<times> nat \<times> int" where
  "mx_core m = (mx_writePtr m, mx_readPtr m, mx_holdoff m, length (mx_channels m), mx_numOut m)"

lemma mx_core_safe: "mx_core m = mx_core m' \<Longrightarrow> mx_safe tnc m = mx_safe tnc m'"
  unfolding mx_core_def mx_safe_def by (metis length_0_conv prod.inject)

lemma mx_core_valid: "mx_core m = mx_core m' \<Longrightarrow> valid_channel c m = valid_channel c m'"
  unfolding mx_core_def valid_channel_def by (metis length_0_conv prod.inject)

lemma ck_short_timestamp [simp]: "ck_short (c\<lparr>ck_timestamp := t\<rparr>) = ck_short c"
  by (cases "ck_encoding c") (simp_all add: ck_short_def ck_numSamples_def)

lemma mx_side1_core:
  "mx_side1 c m = (c1, t, m1) \<Longrightarrow> mx_core m1 = mx_core m \<and> ck_channel c1 = ck_channel c \<and> ck_short c1 = ck_short c"
  by (auto simp: mx_side1_def mx_core_def mx_channel_stats_def mx_set_last_def Let_def
      split: option.splits if_splits)

lemma mx_side2_core:
  "mx_side2 c m = (c1, t, m1) \<Longrightarrow> mx_core m1 = mx_core m \<and> ck_channel c1 = ck_channel c \<and> ck_short c1 = ck_short c"
  by (auto simp: mx_side2_def mx_core_def mx_channel_stats_def mx_set_last_def Let_def
      split: option.splits if_splits)

lemma mx_sideN_core:
  "mx_sideN c m = Done (c1, t, m1) \<Longrightarrow> mx_core m1 = mx_core m \<and> ck_channel c1 = ck_channel c \<and> ck_short c1 = ck_short c"
  by (auto simp: mx_sideN_def mx_core_def mx_channel_stats_def mx_set_last_def Let_def
      split: option.splits if_splits)

lemma mx_sideN_defined: "valid_channel c m \<Longrightarrow> \<exists>r. mx_sideN c m = Done r"
  by (auto simp: mx_sideN_def valid_channel_def Let_def split: option.splits prod.splits)

text \<open>A chunk on channel 0 after separate channels were created.\<close>

definition ck_stray :: "mx_chunk \<Rightarrow> RtpMixer \<Rightarrow> bool" where
  "ck_stray c m \<longleftrightarrow> ck_channel c = 0 \<and> mx_channels m \<noteq> []"

text \<open>The chunks that get past the checks at the top of \<open>AudioChunkIn\<close>.\<close>

definition mx_takes :: "mx_chunk \<Rightarrow> RtpMixer \<Rightarrow> bool" where
  "mx_takes c m \<longleftrightarrow> \<not> mx_error m \<and> \<not> ck_eos c \<and> ck_encoding c = MxPcm \<and> ck_numSamples c \<noteq> 0 \<and> ck_numBytes c \<le> 100000"

lemma mx_CreateChannels_ok:
  assumes "mx_safe tnc m" "\<not> ck_stray c m"
  shows "mx_safe tnc (if mx_numOut m = 2 then mx_CreateChannels tnc (ck_channel c) m else m) \<and>
    valid_channel c (if mx_numOut m = 2 then mx_CreateChannels tnc (ck_channel c) m else m)"
  using assms by (auto simp: mx_safe_def valid_channel_def mx_CreateChannels_def ck_stray_def)

lemma mx_In_takes:
  "mx_takes c m \<Longrightarrow> mx_AudioChunkIn tnc (Some c) m =
    (let m1 = (if mx_numOut m = 2 then mx_CreateChannels tnc (ck_channel c) m else m)
     in case mx_sides c m1 of
          Done (c1, cts, m2) \<Rightarrow> mx_place tnc c1 cts m2
        | Thrown \<Rightarrow> Thrown | Undefined \<Rightarrow> Undefined)"
  by (auto simp: mx_takes_def mx_AudioChunkIn_def)

text \<open>A stray chunk is looked up at index -1 of the channel table.\<close>

lemma mx_In_stray:
  assumes "mx_takes c m" "ck_stray c m"
  shows "mx_AudioChunkIn tnc (Some c) m = Undefined"
  using assms(2) by (simp add: mx_In_takes [OF assms(1)] mx_sides_def mx_sideN_def ck_stray_def Let_def mx_CreateChannels_def)

lemma mx_In_safe:
  assumes s: "mx_safe tnc m" and t: "mx_takes c m" "\<not> ck_stray c m"
  shows "safe_outcome tnc (ck_short c) (mx_AudioChunkIn tnc (Some c) m)"
proof -
  define m1 where "m1 = (if mx_numOut m = 2 then mx_CreateChannels tnc (ck_channel c) m else m)"
  have m1: "mx_safe tnc m1" "valid_channel c m1" using mx_CreateChannels_ok [OF s t(2)] by (simp_all add: m1_def)
  have "\<not> (ck_channel c = 2 \<and> length (mx_channels m1) = 1)" using m1(2) by (auto simp: valid_channel_def)
  then have "\<exists>r. mx_sides c m1 = Done r"
    using mx_sideN_defined [OF m1(2)] by (auto simp: mx_sides_def simp del: split_paired_Ex)
  then obtain c1 ts m2 where side: "mx_sides c m1 = Done (c1, ts, m2)" by (metis prod_cases3)
  then have core: "mx_core m2 = mx_core m1" "ck_channel c1 = ck_channel c" "ck_short c1 = ck_short c"
    unfolding mx_sides_def
    by (auto split: if_splits dest: mx_side1_core mx_side2_core mx_sideN_core)
  have "mx_safe tnc m2" using core m1(1) mx_core_safe [of m2 m1 tnc] by simp
  moreover have "valid_channel c1 m2"
    using core(1,2) m1(2) mx_core_valid [of m2 m1 c] by (simp add: valid_channel_def)
  ultimately show ?thesis
    using mx_safe_place [of tnc m2 c1 ts] side core(3) by (simp add: mx_In_takes [OF t(1)] m1_def [symmetric] Let_def)
qed



end
