(* ===== verification/OrkEnums.thy ===== *)
theory OrkEnums
  imports OrkPrelude
begin

text \<open>
  The enumerations of orkbasecxx/AudioCapture.h and AudioTape.h and their conversions to and from
  text (AudioCapture.cpp, AudioTape.cpp). A C enum is a datatype with the source's enumerators; a
  variable of such a type only ever holds one of them, so the \<open>int\<close> parameter of an
  \<open>XToString\<close> is the datatype. The contract of a pair of conversions is the locale
  \<open>enum_codec\<close>, interpreted for each of them.
\<close>

section \<open>The contract of a pair of conversions\<close>

text \<open>
  \<open>named\<close> are the enumerators that have a name of their own, \<open>unknown\<close> is the result for a text
  that names none of them. Recognition ignores case.
\<close>

locale enum_codec =
  fixes to_string :: "'e \<Rightarrow> string" and to_enum :: "string \<Rightarrow> 'e"
    and named :: "'e \<Rightarrow> bool" and unknown :: 'e
  assumes name_read: "named e \<Longrightarrow> to_enum (to_string e) = e"
    and case_ignored: "ci_eq s t \<Longrightarrow> to_enum s = to_enum t"
    and recognised: "to_enum s = unknown \<or> (named (to_enum s) \<and> ci_eq s (to_string (to_enum s)))"
begin

lemma to_enum_iff: "named e \<Longrightarrow> e \<noteq> unknown \<Longrightarrow> to_enum s = e \<longleftrightarrow> ci_eq s (to_string e)"
  using recognised [of s] case_ignored [of s "to_string e"] name_read [of e] by auto

lemma names_differ: "named e \<Longrightarrow> named e' \<Longrightarrow> ci_eq (to_string e) (to_string e') \<longleftrightarrow> e = e'"
  using case_ignored [of "to_string e" "to_string e'"] name_read [of e] name_read [of e'] by auto

lemma unknown_iff:
  "\<not> named unknown \<Longrightarrow> to_enum s = unknown \<longleftrightarrow> (\<forall>e. named e \<longrightarrow> \<not> ci_eq s (to_string e))"
  using recognised [of s] to_enum_iff [of _ s] name_read case_ignored by metis

end

section \<open>Directions and sides\<close>

datatype DirectionEnum = DirIn | DirOut | DirUnkn

definition DirectionToShortString :: "DirectionEnum \<Rightarrow> string" where
  "DirectionToShortString d = (case d of DirIn \<Rightarrow> ''I'' | DirOut \<Rightarrow> ''O'' | DirUnkn \<Rightarrow> ''U'')"

definition DirectionToString :: "DirectionEnum \<Rightarrow> string" where
  "DirectionToString d = (case d of DirIn \<Rightarrow> ''in'' | DirOut \<Rightarrow> ''out'' | DirUnkn \<Rightarrow> ''unkn'')"

definition DirectionToEnum :: "string \<Rightarrow> DirectionEnum" where
  "DirectionToEnum dir =
     (if ci_eq dir ''in'' then DirIn else if ci_eq dir ''out'' then DirOut else DirUnkn)"

datatype LocalSideEnum = LocalSideUnkn | LocalSideSide1 | LocalSideSide2 | LocalSideBoth
  | LocalSideInvalid

definition LocalSideToString :: "LocalSideEnum \<Rightarrow> string" where
  "LocalSideToString e = (case e of
       LocalSideUnkn \<Rightarrow> ''unknown'' | LocalSideSide1 \<Rightarrow> ''side1'' | LocalSideSide2 \<Rightarrow> ''side2''
     | LocalSideBoth \<Rightarrow> ''both'' | LocalSideInvalid \<Rightarrow> ''invalid'')"

definition LocalSideToEnum :: "string \<Rightarrow> LocalSideEnum" where
  "LocalSideToEnum s =
     (if ci_eq s ''unknown'' then LocalSideUnkn
      else if ci_eq s ''side1'' then LocalSideSide1
      else if ci_eq s ''side2'' then LocalSideSide2
      else if ci_eq s ''both'' then LocalSideBoth
      else LocalSideInvalid)"

datatype AudioKeepDirectionEnum = AudioKeepDirectionBoth | AudioKeepDirectionLocal
  | AudioKeepDirectionRemote | AudioKeepDirectionNone | AudioKeepDirectionInvalid

definition AudioKeepDirectionToString :: "AudioKeepDirectionEnum \<Rightarrow> string" where
  "AudioKeepDirectionToString e = (case e of
       AudioKeepDirectionBoth \<Rightarrow> ''both'' | AudioKeepDirectionLocal \<Rightarrow> ''local''
     | AudioKeepDirectionRemote \<Rightarrow> ''remote'' | AudioKeepDirectionNone \<Rightarrow> ''none''
     | AudioKeepDirectionInvalid \<Rightarrow> ''invalid'')"

definition AudioKeepDirectionToEnum :: "string \<Rightarrow> AudioKeepDirectionEnum" where
  "AudioKeepDirectionToEnum s =
     (if ci_eq s ''both'' then AudioKeepDirectionBoth
      else if ci_eq s ''local'' then AudioKeepDirectionLocal
      else if ci_eq s ''remote'' then AudioKeepDirectionRemote
      else if ci_eq s ''none'' then AudioKeepDirectionNone
      else AudioKeepDirectionInvalid)"

definition AudioKeepDirectionIsDefault :: "string \<Rightarrow> bool" where
  "AudioKeepDirectionIsDefault s = ci_eq s ''both''"

section \<open>Capture events\<close>

datatype EventTypeEnum = EtUnknown | EtStart | EtStop | EtDirection | EtRemoteParty | EtLocalParty
  | EtLocalEntryPoint | EtKeyValue | EtLocalIp | EtRemoteIp | EtLocalMac | EtRemoteMac | EtOrkUid
  | EtEndMetadata | EtReady | EtUpdate | EtCallId | EtLocalSide | EtAudioKeepDirection | EtHold
  | EtResume | EtInvalid

record CaptureEvent =
  ev_timestamp :: int
  ev_offsetMs :: int
  ev_type :: EventTypeEnum
  ev_key :: string
  ev_value :: string

definition CaptureEvent_new :: CaptureEvent where
  "CaptureEvent_new =
     \<lparr>ev_timestamp = 0, ev_offsetMs = 0, ev_type = EtUnknown, ev_key = [], ev_value = []\<rparr>"

definition EventTypeToString :: "EventTypeEnum \<Rightarrow> string" where
  "EventTypeToString e = (case e of
       EtUnknown \<Rightarrow> ''unknown'' | EtStart \<Rightarrow> ''start'' | EtStop \<Rightarrow> ''stop'' | EtHold \<Rightarrow> ''hold''
     | EtResume \<Rightarrow> ''resume'' | EtDirection \<Rightarrow> ''direction'' | EtRemoteParty \<Rightarrow> ''remoteparty''
     | EtLocalParty \<Rightarrow> ''localparty'' | EtLocalEntryPoint \<Rightarrow> ''localentrypoint''
     | EtKeyValue \<Rightarrow> ''keyvalue'' | EtLocalIp \<Rightarrow> ''localip'' | EtRemoteIp \<Rightarrow> ''remoteip''
     | EtLocalMac \<Rightarrow> ''localmac'' | EtRemoteMac \<Rightarrow> ''remotemac'' | EtOrkUid \<Rightarrow> ''orkuid''
     | EtEndMetadata \<Rightarrow> ''endmetadata'' | EtReady \<Rightarrow> ''ready'' | EtUpdate \<Rightarrow> ''update''
     | EtCallId \<Rightarrow> ''callid'' | EtLocalSide \<Rightarrow> ''localside''
     | EtAudioKeepDirection \<Rightarrow> ''audiokeepdirection'' | EtInvalid \<Rightarrow> ''invalid'')"

definition EventTypeToEnum :: "string \<Rightarrow> EventTypeEnum" where
  "EventTypeToEnum s =
     (if ci_eq s ''start'' then EtStart
      else if ci_eq s ''stop'' then EtStop
      else if ci_eq s ''hold'' then EtHold
      else if ci_eq s ''resume'' then EtResume
      else if ci_eq s ''direction'' then EtDirection
      else if ci_eq s ''remoteparty'' then EtRemoteParty
      else if ci_eq s ''localparty'' then EtLocalParty
      else if ci_eq s ''localentrypoint'' then EtLocalEntryPoint
      else if ci_eq s ''keyvalue'' then EtKeyValue
      else if ci_eq s ''localip'' then EtLocalIp
      else if ci_eq s ''remoteip'' then EtRemoteIp
      else if ci_eq s ''localmac'' then EtLocalMac
      else if ci_eq s ''remotemac'' then EtRemoteMac
      else if ci_eq s ''orkuid'' then EtOrkUid
      else if ci_eq s ''endmetadata'' then EtEndMetadata
      else if ci_eq s ''ready'' then EtReady
      else if ci_eq s ''update'' then EtUpdate
      else if ci_eq s ''callid'' then EtCallId
      else if ci_eq s ''localside'' then EtLocalSide
      else if ci_eq s ''audiokeepdirection'' then EtAudioKeepDirection
      else EtUnknown)"

section \<open>File formats, media types, tape attributes\<close>

datatype FileFormatEnum = FfUnknown | FfNative | FfGsm | FfUlaw | FfAlaw | FfPcmWav | FfOpus
  | FfInvalid

definition FileFormatToEnum :: "string \<Rightarrow> FileFormatEnum" where
  "FileFormatToEnum s =
     (if ci_eq s ''native'' then FfNative
      else if ci_eq s ''GSM'' then FfGsm
      else if ci_eq s ''ulaw'' then FfUlaw
      else if ci_eq s ''alaw'' then FfAlaw
      else if ci_eq s ''pcmwav'' then FfPcmWav
      else if ci_eq s ''opus'' then FfOpus
      else FfUnknown)"

definition FileFormatToString :: "FileFormatEnum \<Rightarrow> string" where
  "FileFormatToString f = (case f of
       FfNative \<Rightarrow> ''native'' | FfGsm \<Rightarrow> ''GSM'' | FfUlaw \<Rightarrow> ''ulaw'' | FfAlaw \<Rightarrow> ''alaw''
     | FfPcmWav \<Rightarrow> ''pcmwav'' | FfOpus \<Rightarrow> ''opus'' | _ \<Rightarrow> ''unknown'')"

definition FileFormatGetExtension :: "FileFormatEnum \<Rightarrow> string outcome" where
  "FileFormatGetExtension f = (case f of
       FfGsm \<Rightarrow> Done ''.wav'' | FfUlaw \<Rightarrow> Done ''.wav'' | FfAlaw \<Rightarrow> Done ''.wav''
     | FfPcmWav \<Rightarrow> Done ''.wav'' | FfOpus \<Rightarrow> Done ''.opus'' | _ \<Rightarrow> Thrown)"

datatype MediaTypeEnum = UnKnownType | AudioType | VideoType | InstantMessageType

definition MediaTypeToEnum :: "string \<Rightarrow> MediaTypeEnum" where
  "MediaTypeToEnum s =
     (if ci_eq s ''audio'' then AudioType
      else if ci_eq s ''video'' then VideoType
      else if ci_eq s ''im'' then InstantMessageType
      else UnKnownType)"

definition MediaTypeToString :: "MediaTypeEnum \<Rightarrow> string" where
  "MediaTypeToString m = (case m of
       AudioType \<Rightarrow> ''audio'' | VideoType \<Rightarrow> ''video'' | InstantMessageType \<Rightarrow> ''im''
     | UnKnownType \<Rightarrow> ''unknown'')"

datatype TapeAttributeEnum = TaUnknown | TaNativeCallId | TaTrackingId | TaDirection
  | TaShortDirection | TaRemoteParty | TaLocalParty | TaLocalEntryPoint | TaLocalIp | TaRemoteIp
  | TaHostname | TaYear | TaDay | TaMonth | TaHour | TaMin | TaSec

definition TapeAttributeToString :: "TapeAttributeEnum \<Rightarrow> string" where
  "TapeAttributeToString a = (case a of
       TaNativeCallId \<Rightarrow> ''[nativecallid]'' | TaTrackingId \<Rightarrow> ''[trackingid]''
     | TaDirection \<Rightarrow> ''[direction]'' | TaShortDirection \<Rightarrow> ''[shortdirection]''
     | TaRemoteParty \<Rightarrow> ''[remoteparty]'' | TaLocalParty \<Rightarrow> ''[localparty]''
     | TaLocalEntryPoint \<Rightarrow> ''[localentrypoint]'' | TaLocalIp \<Rightarrow> ''[localip]''
     | TaRemoteIp \<Rightarrow> ''[remoteip]'' | TaHostname \<Rightarrow> ''[hostname]'' | TaYear \<Rightarrow> ''[year]''
     | TaDay \<Rightarrow> ''[day]'' | TaMonth \<Rightarrow> ''[month]'' | TaHour \<Rightarrow> ''[hour]'' | TaMin \<Rightarrow> ''[min]''
     | TaSec \<Rightarrow> ''[sec]'' | TaUnknown \<Rightarrow> ''[UnknownAttribute]'')"

definition TapeAttributeToEnum :: "string \<Rightarrow> TapeAttributeEnum" where
  "TapeAttributeToEnum s =
     (if ci_eq s ''[nativecallid]'' then TaNativeCallId
      else if ci_eq s ''[trackingid]'' then TaTrackingId
      else if ci_eq s ''[direction]'' then TaDirection
      else if ci_eq s ''[shortdirection]'' then TaShortDirection
      else if ci_eq s ''[remoteparty]'' then TaRemoteParty
      else if ci_eq s ''[localparty]'' then TaLocalParty
      else if ci_eq s ''[localentrypoint]'' then TaLocalEntryPoint
      else if ci_eq s ''[localip]'' then TaLocalIp
      else if ci_eq s ''[remoteip]'' then TaRemoteIp
      else if ci_eq s ''[hostname]'' then TaHostname
      else if ci_eq s ''[year]'' then TaYear
      else if ci_eq s ''[day]'' then TaDay
      else if ci_eq s ''[month]'' then TaMonth
      else if ci_eq s ''[hour]'' then TaHour
      else if ci_eq s ''[min]'' then TaMin
      else if ci_eq s ''[sec]'' then TaSec
      else TaUnknown)"

section \<open>The conversions meet the contract\<close>

text \<open>
  Each \<open>XToEnum\<close> is a first match in a table of names; the contract follows from facts about
  the table that evaluate.
\<close>

fun first_match :: "(string \<times> 'e) list \<Rightarrow> 'e \<Rightarrow> string \<Rightarrow> 'e" where
  "first_match [] d s = d"
| "first_match ((n, e) # t) d s = (if ci_eq s n then e else first_match t d s)"

lemma first_match_cong: "ci_eq s t \<Longrightarrow> first_match tb d s = first_match tb d t"
  by (induction tb d s rule: first_match.induct) (auto simp: ci_eq_def)

lemma first_match_result:
  "first_match tb d s = d \<or> (\<exists>n e. (n, e) \<in> set tb \<and> ci_eq s n \<and> first_match tb d s = e)"
  by (induction tb d s rule: first_match.induct) auto

lemma enum_codecI:
  assumes "\<And>s. to_enum s = first_match tb unknown s"
    and "list_all (\<lambda>(n, e). to_string e = n \<and> named e) tb"
    and "\<And>e. named e \<Longrightarrow> first_match tb unknown (to_string e) = e"
  shows "enum_codec to_string to_enum named unknown"
proof
  fix s t e
  show "named e \<Longrightarrow> to_enum (to_string e) = e" by (simp add: assms(1,3))
  show "ci_eq s t \<Longrightarrow> to_enum s = to_enum t" by (simp add: assms(1) first_match_cong)
  show "to_enum s = unknown \<or> (named (to_enum s) \<and> ci_eq s (to_string (to_enum s)))"
    using first_match_result [of tb unknown s] assms(2) by (auto simp: assms(1) list_all_iff)
qed

lemma lower_letters:
  "to_lower CHR ''a'' = CHR ''a''" "to_lower CHR ''b'' = CHR ''b''"
  "to_lower CHR ''c'' = CHR ''c''" "to_lower CHR ''d'' = CHR ''d''"
  "to_lower CHR ''e'' = CHR ''e''" "to_lower CHR ''f'' = CHR ''f''"
  "to_lower CHR ''g'' = CHR ''g''" "to_lower CHR ''h'' = CHR ''h''"
  "to_lower CHR ''i'' = CHR ''i''" "to_lower CHR ''k'' = CHR ''k''"
  "to_lower CHR ''l'' = CHR ''l''" "to_lower CHR ''m'' = CHR ''m''"
  "to_lower CHR ''n'' = CHR ''n''" "to_lower CHR ''o'' = CHR ''o''"
  "to_lower CHR ''p'' = CHR ''p''" "to_lower CHR ''q'' = CHR ''q''"
  "to_lower CHR ''r'' = CHR ''r''" "to_lower CHR ''s'' = CHR ''s''"
  "to_lower CHR ''t'' = CHR ''t''" "to_lower CHR ''u'' = CHR ''u''"
  "to_lower CHR ''v'' = CHR ''v''" "to_lower CHR ''w'' = CHR ''w''"
  "to_lower CHR ''x'' = CHR ''x''" "to_lower CHR ''y'' = CHR ''y''"
  "to_lower CHR ''z'' = CHR ''z''" "to_lower CHR ''1'' = CHR ''1''"
  "to_lower CHR ''2'' = CHR ''2''" "to_lower CHR ''['' = CHR ''[''"
  "to_lower CHR '']'' = CHR '']''" "to_lower CHR ''G'' = CHR ''g''"
  "to_lower CHR ''S'' = CHR ''s''" "to_lower CHR ''M'' = CHR ''m''"
  "to_lower CHR ''U'' = CHR ''u''" "to_lower CHR ''A'' = CHR ''a''"
  by (simp_all add: to_lower_def is_upper_def char_of_def bit_0)

lemmas ci_literal = ci_eq_def c_str_def lower_letters

interpretation dir: enum_codec DirectionToString DirectionToEnum "\<lambda>_. True" DirUnkn
proof (rule enum_codecI [of _ "[(''in'', DirIn), (''out'', DirOut)]"])
  fix e
  show "first_match [(''in'', DirIn), (''out'', DirOut)] DirUnkn (DirectionToString e) = e"
    by (cases e) (simp_all add: DirectionToString_def ci_literal)
qed (simp_all add: DirectionToEnum_def DirectionToString_def)

definition local_side_names :: "(string \<times> LocalSideEnum) list" where
  "local_side_names = [(''unknown'', LocalSideUnkn), (''side1'', LocalSideSide1),
     (''side2'', LocalSideSide2), (''both'', LocalSideBoth)]"

interpretation side: enum_codec LocalSideToString LocalSideToEnum
  "\<lambda>e. e \<noteq> LocalSideInvalid" LocalSideInvalid
proof (rule enum_codecI [of _ local_side_names])
  fix e
  show "e \<noteq> LocalSideInvalid \<Longrightarrow>
      first_match local_side_names LocalSideInvalid (LocalSideToString e) = e"
    by (cases e) (simp_all add: local_side_names_def LocalSideToString_def ci_literal)
qed (simp_all add: LocalSideToEnum_def LocalSideToString_def local_side_names_def)

definition keep_direction_names :: "(string \<times> AudioKeepDirectionEnum) list" where
  "keep_direction_names = [(''both'', AudioKeepDirectionBoth), (''local'', AudioKeepDirectionLocal),
     (''remote'', AudioKeepDirectionRemote), (''none'', AudioKeepDirectionNone)]"

interpretation keep: enum_codec AudioKeepDirectionToString AudioKeepDirectionToEnum
  "\<lambda>e. e \<noteq> AudioKeepDirectionInvalid" AudioKeepDirectionInvalid
proof (rule enum_codecI [of _ keep_direction_names])
  fix e
  show "e \<noteq> AudioKeepDirectionInvalid \<Longrightarrow>
      first_match keep_direction_names AudioKeepDirectionInvalid (AudioKeepDirectionToString e) = e"
    by (cases e) (simp_all add: keep_direction_names_def AudioKeepDirectionToString_def ci_literal)
qed (simp_all add: AudioKeepDirectionToEnum_def AudioKeepDirectionToString_def keep_direction_names_def)

definition event_type_names :: "(string \<times> EventTypeEnum) list" where
  "event_type_names = map (\<lambda>e. (EventTypeToString e, e))
     [EtStart, EtStop, EtHold, EtResume, EtDirection, EtRemoteParty, EtLocalParty,
      EtLocalEntryPoint, EtKeyValue, EtLocalIp, EtRemoteIp, EtLocalMac, EtRemoteMac, EtOrkUid,
      EtEndMetadata, EtReady, EtUpdate, EtCallId, EtLocalSide, EtAudioKeepDirection]"

interpretation evt: enum_codec EventTypeToString EventTypeToEnum "\<lambda>e. e \<noteq> EtInvalid" EtUnknown
proof (rule enum_codecI [of _ event_type_names])
  fix e
  show "e \<noteq> EtInvalid \<Longrightarrow> first_match event_type_names EtUnknown (EventTypeToString e) = e"
    by (cases e) (simp_all add: event_type_names_def EventTypeToString_def ci_literal)
qed (simp_all add: EventTypeToEnum_def EventTypeToString_def event_type_names_def)

definition file_format_names :: "(string \<times> FileFormatEnum) list" where
  "file_format_names = map (\<lambda>e. (FileFormatToString e, e))
     [FfNative, FfGsm, FfUlaw, FfAlaw, FfPcmWav, FfOpus]"

interpretation ff: enum_codec FileFormatToString FileFormatToEnum "\<lambda>f. f \<noteq> FfInvalid" FfUnknown
proof (rule enum_codecI [of _ file_format_names])
  fix e
  show "e \<noteq> FfInvalid \<Longrightarrow> first_match file_format_names FfUnknown (FileFormatToString e) = e"
    by (cases e) (simp_all add: file_format_names_def FileFormatToString_def ci_literal)
qed (simp_all add: FileFormatToEnum_def FileFormatToString_def file_format_names_def)

definition media_type_names :: "(string \<times> MediaTypeEnum) list" where
  "media_type_names = [(''audio'', AudioType), (''video'', VideoType), (''im'', InstantMessageType)]"

interpretation media: enum_codec MediaTypeToString MediaTypeToEnum "\<lambda>_. True" UnKnownType
proof (rule enum_codecI [of _ media_type_names])
  fix e
  show "first_match media_type_names UnKnownType (MediaTypeToString e) = e"
    by (cases e) (simp_all add: media_type_names_def MediaTypeToString_def ci_literal)
qed (simp_all add: MediaTypeToEnum_def MediaTypeToString_def media_type_names_def)

definition tape_attribute_names :: "(string \<times> TapeAttributeEnum) list" where
  "tape_attribute_names = map (\<lambda>a. (TapeAttributeToString a, a))
     [TaNativeCallId, TaTrackingId, TaDirection, TaShortDirection, TaRemoteParty, TaLocalParty,
      TaLocalEntryPoint, TaLocalIp, TaRemoteIp, TaHostname, TaYear, TaDay, TaMonth, TaHour, TaMin,
      TaSec]"

interpretation ta: enum_codec TapeAttributeToString TapeAttributeToEnum "\<lambda>_. True" TaUnknown
proof (rule enum_codecI [of _ tape_attribute_names])
  fix e
  show "first_match tape_attribute_names TaUnknown (TapeAttributeToString e) = e"
    by (cases e) (simp_all add: tape_attribute_names_def TapeAttributeToString_def ci_literal)
qed (simp_all add: TapeAttributeToEnum_def TapeAttributeToString_def tape_attribute_names_def)

text \<open>
  Every enumerator with a name reads back from it, and a text is read as an enumerator exactly
  when it is the enumerator's name up to case: for event types, directions, kept sides, file
  formats, media types and the attributes of a tape's file name.
\<close>

theorem enum_names_roundtrip:
  assumes "e \<notin> {EtUnknown, EtInvalid}" "d \<noteq> DirUnkn" "k \<noteq> AudioKeepDirectionInvalid"
    "l \<noteq> LocalSideInvalid" "f \<notin> {FfUnknown, FfInvalid}" "m \<noteq> UnKnownType" "a \<noteq> TaUnknown"
  shows "(EventTypeToEnum s = e \<longleftrightarrow> ci_eq s (EventTypeToString e)) \<and>
    (DirectionToEnum s = d \<longleftrightarrow> ci_eq s (DirectionToString d)) \<and>
    (AudioKeepDirectionToEnum s = k \<longleftrightarrow> ci_eq s (AudioKeepDirectionToString k)) \<and>
    (LocalSideToEnum s = l \<longleftrightarrow> ci_eq s (LocalSideToString l)) \<and>
    (FileFormatToEnum s = f \<longleftrightarrow> ci_eq s (FileFormatToString f)) \<and>
    (MediaTypeToEnum s = m \<longleftrightarrow> ci_eq s (MediaTypeToString m)) \<and>
    (TapeAttributeToEnum s = a \<longleftrightarrow> ci_eq s (TapeAttributeToString a))"
  using assms evt.to_enum_iff [of e s] dir.to_enum_iff [of d s] keep.to_enum_iff [of k s]
    side.name_read [of l] side.recognised [of s] side.case_ignored [of s "LocalSideToString l"]
    keep.name_read [of k] keep.recognised [of s]
    ff.to_enum_iff [of f s] media.to_enum_iff [of m s] ta.to_enum_iff [of a s]
  by auto

theorem enum_names_roundtrip_witness:
  "EventTypeToEnum ''STOP'' = EtStop \<longleftrightarrow> ci_eq ''STOP'' (EventTypeToString EtStop)"
  using enum_names_roundtrip [of EtStop DirIn AudioKeepDirectionBoth LocalSideBoth FfGsm AudioType
      TaDay "''STOP''"]
  by simp

end
