(* ===== verification/OrkChunk.thy ===== *)
theory OrkChunk
  imports OrkPrelude
begin

text \<open>
  Audio chunks (the classes \<open>AudioChunk\<close> and \<open>AudioChunkDetails\<close> of orkbasecxx/AudioCapture.cpp):
  a buffer owned by the chunk, an optional table of per-channel buffers, and the details that are
  written to disk as they lie in memory. A pointer is \<open>None\<close> when it is NULL, otherwise the bytes
  it points to. Whether an allocation of \<open>n\<close> bytes succeeds is the argument \<open>alloc\<close>. The floating
  point methods (\<open>GetDurationSec\<close>, \<open>ComputeRms\<close>, \<open>ComputeRmsDb\<close>) are not modelled here.
\<close>

section \<open>Details\<close>

text \<open>
  An encoding is kept as the 32-bit number of the enumerator: details read from a file may hold
  any value.
\<close>

type_synonym AudioEncodingEnum = u32

abbreviation (input) UnknownAudio :: AudioEncodingEnum where "UnknownAudio \<equiv> 0"
abbreviation (input) PcmAudio :: AudioEncodingEnum where "PcmAudio \<equiv> 1"
abbreviation (input) AlawAudio :: AudioEncodingEnum where "AlawAudio \<equiv> 2"
abbreviation (input) UlawAudio :: AudioEncodingEnum where "UlawAudio \<equiv> 3"

definition MEDIA_CHUNK_MARKER :: u32 where
  "MEDIA_CHUNK_MARKER = 0x2A2A2A2A"

record AudioChunkDetails =
  cd_marker :: u32
  cd_encoding :: AudioEncodingEnum
  cd_numBytes :: u32
  cd_timestamp :: u32
  cd_arrivalTimestamp :: u32
  cd_sequenceNumber :: u32
  cd_sampleRate :: u32
  cd_rtpPayloadType :: u8
  cd_channel :: u8

definition AudioChunkDetails_Clear :: AudioChunkDetails where
  "AudioChunkDetails_Clear = \<lparr>cd_marker = MEDIA_CHUNK_MARKER, cd_encoding = UnknownAudio,
     cd_numBytes = 0, cd_timestamp = 0, cd_arrivalTimestamp = 0, cd_sequenceNumber = 0,
     cd_sampleRate = 8000, cd_rtpPayloadType = - 1, cd_channel = 0\<rparr>"

section \<open>Chunks\<close>

record AudioChunk =
  ac_details :: AudioChunkDetails
  ac_buffer :: "u8 list option"
  ac_numChannels :: int
  ac_channels :: "u8 list option list option"

definition AudioChunk_new :: AudioChunk where
  "AudioChunk_new = \<lparr>ac_details = AudioChunkDetails_Clear, ac_buffer = None, ac_numChannels = 0,
     ac_channels = None\<rparr>"

definition AudioChunk_new_channels :: "(nat \<Rightarrow> bool) \<Rightarrow> int \<Rightarrow> AudioChunk outcome" where
  "AudioChunk_new_channels alloc numChannels =
     (let n = (if numChannels \<le> 0 then 1 else numChannels)
      in if \<not> alloc (8 * nat n) then Thrown
         else Done \<lparr>ac_details = AudioChunkDetails_Clear\<lparr>cd_channel := 100\<rparr>, ac_buffer = None,
           ac_numChannels = n, ac_channels = Some (replicate (nat n) None)\<rparr>)"

text \<open>\<open>FreeAll\<close> reads the channel table of every chunk that has channels, present or not.\<close>

definition FreeAll :: "AudioChunk \<Rightarrow> AudioChunk outcome" where
  "FreeAll c =
     (let c1 = c\<lparr>ac_buffer := None\<rparr>
      in if ac_numChannels c = 0 then Done c1
         else case ac_channels c of
             None \<Rightarrow> if ac_numChannels c > 0 then Undefined else Done c1
           | Some chs \<Rightarrow>
               if length chs < nat (ac_numChannels c) then Undefined
               else Done (c1\<lparr>ac_channels := None\<rparr>))"

definition CreateMultiChannelBuffers ::
    "(nat \<Rightarrow> bool) \<Rightarrow> AudioChunkDetails \<Rightarrow> AudioChunk \<Rightarrow> AudioChunk outcome" where
  "CreateMultiChannelBuffers alloc details c =
     (if ac_numChannels c \<le> 0 then Done c
      else case ac_channels c of
          None \<Rightarrow> Undefined
        | Some chs \<Rightarrow>
            let n = nat (ac_numChannels c); nb = unat (cd_numBytes details)
            in if length chs < n then Undefined
               else if \<not> alloc nb then Thrown
               else Done (c\<lparr>ac_channels :=
                      Some (replicate n (Some (replicate nb 0)) @ drop n chs)\<rparr>))"

definition CreateBuffer :: "(nat \<Rightarrow> bool) \<Rightarrow> AudioChunkDetails \<Rightarrow> AudioChunk \<Rightarrow> AudioChunk outcome" where
  "CreateBuffer alloc details c =
     (case FreeAll c of
        Done c1 \<Rightarrow>
          let nb = unat (cd_numBytes details)
          in if nb = 0 then Thrown
             else (case CreateMultiChannelBuffers alloc details
                      (c1\<lparr>ac_buffer := (if alloc nb then Some (replicate nb 0) else None)\<rparr>) of
                 Done c2 \<Rightarrow>
                   (if ac_buffer c2 = None then Thrown else Done (c2\<lparr>ac_details := details\<rparr>))
               | r \<Rightarrow> r)
      | r \<Rightarrow> r)"

definition SetBuffer ::
    "(nat \<Rightarrow> bool) \<Rightarrow> u8 list option \<Rightarrow> AudioChunkDetails \<Rightarrow> AudioChunk \<Rightarrow> AudioChunk outcome" where
  "SetBuffer alloc pBuffer details c =
     (let c1 = (if ac_buffer c = None then c
                else c\<lparr>ac_buffer := None, ac_details := (ac_details c)\<lparr>cd_numBytes := 0\<rparr>\<rparr>);
          nb = unat (cd_numBytes details)
      in case pBuffer of
          None \<Rightarrow> Done c1
        | Some src \<Rightarrow>
            if nb = 0 then Done c1
            else if \<not> alloc nb then Thrown
            else if length src < nb then Undefined
            else Done (c1\<lparr>ac_buffer := Some (take nb src), ac_details := details\<rparr>))"

definition SetBuffer_chan ::
    "(nat \<Rightarrow> bool) \<Rightarrow> u8 list option \<Rightarrow> AudioChunkDetails \<Rightarrow> int \<Rightarrow> AudioChunk \<Rightarrow> AudioChunk outcome" where
  "SetBuffer_chan alloc pBuffer details chan c =
     (if chan > ac_numChannels c \<or> chan < 1 then Thrown
      else case ac_channels c of
          None \<Rightarrow> Undefined
        | Some chs \<Rightarrow>
            let i = nat (chan - 1); nb = unat (cd_numBytes details)
            in if length chs \<le> i then Undefined
               else case pBuffer of
                   None \<Rightarrow> Done (c\<lparr>ac_channels := Some (chs[i := None])\<rparr>)
                 | Some src \<Rightarrow>
                     if nb = 0 then Done (c\<lparr>ac_channels := Some (chs[i := None])\<rparr>)
                     else if \<not> alloc nb then Thrown
                     else if length src < nb then Undefined
                     else Done (c\<lparr>ac_channels := Some (chs[i := Some (take nb src)])\<rparr>))"

text \<open>The \<open>unsigned int\<close> sizes are returned as \<open>int\<close>.\<close>

definition GetNumBytes :: "AudioChunk \<Rightarrow> int" where
  "GetNumBytes c = sint (cd_numBytes (ac_details c))"

definition GetNumSamples :: "AudioChunk \<Rightarrow> int outcome" where
  "GetNumSamples c =
     (let d = ac_details c
      in if cd_encoding d = PcmAudio then Done (sint (cd_numBytes d div 2))
         else if cd_encoding d = AlawAudio \<or> cd_encoding d = UlawAudio
         then Done (sint (cd_numBytes d))
         else Thrown)"

definition GetEncoding :: "AudioChunk \<Rightarrow> AudioEncodingEnum" where
  "GetEncoding c = cd_encoding (ac_details c)"

definition GetSampleRate :: "AudioChunk \<Rightarrow> int" where
  "GetSampleRate c = sint (cd_sampleRate (ac_details c))"

definition SetDetails :: "AudioChunkDetails \<Rightarrow> AudioChunk \<Rightarrow> AudioChunk" where
  "SetDetails d c = c\<lparr>ac_details := d\<rparr>"

section \<open>The buffer matches the details\<close>

text \<open>
  \<open>chunk_ok\<close>: the buffer, when there is one, has as many bytes as the details say, and the channel
  table, when the chunk has channels, is there with one entry per channel.
\<close>

definition chunk_ok :: "AudioChunk \<Rightarrow> bool" where
  "chunk_ok c \<longleftrightarrow>
     (case ac_buffer c of None \<Rightarrow> True | Some b \<Rightarrow> length b = unat (cd_numBytes (ac_details c))) \<and>
     0 \<le> ac_numChannels c \<and>
     (if ac_numChannels c = 0 then ac_channels c = None
      else \<exists>chs. ac_channels c = Some chs \<and> length chs = nat (ac_numChannels c))"

text \<open>All operations that change a chunk; \<open>OpFree\<close> is also what the destructor does.\<close>

datatype chunk_op = OpCreate AudioChunkDetails | OpSet "u8 list option" AudioChunkDetails
  | OpSetChan "u8 list option" AudioChunkDetails int | OpFree | OpMulti AudioChunkDetails
  | OpDetails AudioChunkDetails

definition chunk_do :: "(nat \<Rightarrow> bool) \<Rightarrow> chunk_op \<Rightarrow> AudioChunk \<Rightarrow> AudioChunk outcome" where
  "chunk_do alloc x c = (case x of
       OpCreate d \<Rightarrow> CreateBuffer alloc d c
     | OpSet src d \<Rightarrow> SetBuffer alloc src d c
     | OpSetChan src d i \<Rightarrow> SetBuffer_chan alloc src d i c
     | OpFree \<Rightarrow> FreeAll c
     | OpMulti d \<Rightarrow> CreateMultiChannelBuffers alloc d c
     | OpDetails d \<Rightarrow> Done (SetDetails d c))"

text \<open>The caller's buffer is shorter than its details announce, and is going to be copied.\<close>

definition overread :: "(nat \<Rightarrow> bool) \<Rightarrow> u8 list option \<Rightarrow> AudioChunkDetails \<Rightarrow> bool" where
  "overread alloc src d \<longleftrightarrow> (case src of None \<Rightarrow> False
     | Some b \<Rightarrow> length b < unat (cd_numBytes d) \<and> alloc (unat (cd_numBytes d)))"

text \<open>The calls with undefined behaviour, and those that leave a chunk whose buffers do not match.\<close>

fun chunk_misuse :: "(nat \<Rightarrow> bool) \<Rightarrow> chunk_op \<Rightarrow> AudioChunk \<Rightarrow> bool" where
  "chunk_misuse alloc (OpCreate d) c \<longleftrightarrow> ac_numChannels c \<noteq> 0 \<and> cd_numBytes d \<noteq> 0"
| "chunk_misuse alloc (OpSet src d) c \<longleftrightarrow> overread alloc src d"
| "chunk_misuse alloc (OpSetChan src d i) c \<longleftrightarrow> 1 \<le> i \<and> i \<le> ac_numChannels c \<and> overread alloc src d"
| "chunk_misuse alloc _ c \<longleftrightarrow> False"

fun chunk_mismatch :: "chunk_op \<Rightarrow> AudioChunk \<Rightarrow> bool" where
  "chunk_mismatch OpFree c \<longleftrightarrow> ac_numChannels c \<noteq> 0"
| "chunk_mismatch (OpDetails d) c \<longleftrightarrow> (case ac_buffer c of None \<Rightarrow> False | Some b \<Rightarrow> length b \<noteq> unat (cd_numBytes d))"
| "chunk_mismatch _ c \<longleftrightarrow> False"

lemma chunk_ok_new [ork_inv]: "chunk_ok AudioChunk_new"
  by (simp add: chunk_ok_def AudioChunk_new_def)

lemma chunk_ok_new_channels [ork_inv]:
  "AudioChunk_new_channels alloc n = Done c \<Longrightarrow> chunk_ok c"
  by (auto simp: chunk_ok_def AudioChunk_new_channels_def Let_def split: if_splits)

lemma CreateBuffer_mono:
  "ac_numChannels c = 0 \<Longrightarrow> CreateBuffer alloc d c =
    (if cd_numBytes d = 0 \<or> \<not> alloc (unat (cd_numBytes d)) then Thrown
     else Done (c\<lparr>ac_buffer := Some (replicate (unat (cd_numBytes d)) 0), ac_details := d\<rparr>))"
  by (auto simp: CreateBuffer_def FreeAll_def CreateMultiChannelBuffers_def Let_def
      unat_eq_0)

lemma CreateBuffer_multi:
  assumes "chunk_ok c" "ac_numChannels c \<noteq> 0"
  shows "CreateBuffer alloc d c = (if cd_numBytes d = 0 then Thrown else Undefined)"
  using assms
  by (auto simp: CreateBuffer_def FreeAll_def CreateMultiChannelBuffers_def chunk_ok_def Let_def
      unat_eq_0)

text \<open>What a call shows: it is undefined exactly in case \<open>u\<close>, and the chunk it leaves matches except in case \<open>v\<close>.\<close>

definition call_shows :: "bool \<Rightarrow> bool \<Rightarrow> AudioChunk outcome \<Rightarrow> bool" where
  "call_shows u v r \<longleftrightarrow> (r = Undefined \<longleftrightarrow> u) \<and> (\<forall>c'. r = Done c' \<longrightarrow> (chunk_ok c' \<longleftrightarrow> \<not> v))"

lemma call_shows_simps [simp]:
  "call_shows u v Undefined = u" "call_shows u v Thrown = (\<not> u)" "call_shows u v (Done c) = (\<not> u \<and> (chunk_ok c \<longleftrightarrow> \<not> v))"
  by (auto simp: call_shows_def)

lemma SetBuffer_shows:
  assumes "chunk_ok c"
  shows "call_shows (overread alloc src d) False (SetBuffer alloc src d c)"
  using assms
  by (cases src; cases "ac_buffer c"; cases "unat (cd_numBytes d) = 0"; cases "alloc (unat (cd_numBytes d))")
    (simp_all add: SetBuffer_def chunk_ok_def overread_def Let_def)

lemma SetBuffer_chan_shows:
  assumes "chunk_ok c"
  shows "call_shows (1 \<le> i \<and> i \<le> ac_numChannels c \<and> overread alloc src d) False (SetBuffer_chan alloc src d i c)"
proof (cases "i > ac_numChannels c \<or> i < 1")
  case False
  with assms obtain chs where chs: "ac_channels c = Some chs" "\<not> length chs \<le> nat (i - 1)"
    "length chs = nat (ac_numChannels c)" "ac_numChannels c \<noteq> 0"
    by (auto simp: chunk_ok_def split: if_splits)
  with assms False chs(2) [unfolded chs(3)] show ?thesis
    by (cases src; cases "unat (cd_numBytes d) = 0"; cases "alloc (unat (cd_numBytes d))")
      (simp_all add: SetBuffer_chan_def chunk_ok_def overread_def Let_def split: option.splits)
qed (auto simp: SetBuffer_chan_def)

lemma other_calls_show:
  assumes "chunk_ok c"
  shows "call_shows (ac_numChannels c \<noteq> 0 \<and> cd_numBytes d \<noteq> 0) False (CreateBuffer alloc d c)"
    "call_shows False (ac_numChannels c \<noteq> 0) (FreeAll c)"
    "call_shows False False (CreateMultiChannelBuffers alloc d c)"
    "call_shows False (chunk_mismatch (OpDetails d) c) (Done (SetDetails d c))"
proof -
  show "call_shows (ac_numChannels c \<noteq> 0 \<and> cd_numBytes d \<noteq> 0) False (CreateBuffer alloc d c)"
    using assms by (cases "ac_numChannels c = 0") (auto simp: CreateBuffer_mono CreateBuffer_multi chunk_ok_def)
  show "call_shows False (ac_numChannels c \<noteq> 0) (FreeAll c)"
    using assms by (auto simp: FreeAll_def chunk_ok_def Let_def)
  show "call_shows False False (CreateMultiChannelBuffers alloc d c)"
    using assms by (cases "ac_buffer c") (auto simp: CreateMultiChannelBuffers_def chunk_ok_def Let_def)
  show "call_shows False (chunk_mismatch (OpDetails d) c) (Done (SetDetails d c))"
    using assms by (auto simp: SetDetails_def chunk_ok_def split: option.splits)
qed



text \<open>
  \<open>CreateBuffer\<close> on a chunk with separate channels always fails: it frees the channel table and
  then stores the new channel buffers through the NULL pointer (or throws when asked for no bytes),
  although \<open>CreateMultiChannelBuffers\<close> alone, on the same chunk, gives every channel its buffer.
\<close>

theorem CreateBuffer_of_channels_undefined:
  assumes "chunk_ok c" "ac_numChannels c > 0" "cd_numBytes d \<noteq> 0" "alloc (unat (cd_numBytes d))"
  shows "CreateBuffer alloc d c = Undefined \<and>
    (\<exists>c' chs. CreateMultiChannelBuffers alloc d c = Done c' \<and> ac_channels c' = Some chs \<and>
      chs = replicate (nat (ac_numChannels c)) (Some (replicate (unat (cd_numBytes d)) 0)))"
  using assms
  by (auto simp: CreateBuffer_multi) (auto simp: CreateMultiChannelBuffers_def chunk_ok_def Let_def)

theorem CreateBuffer_of_channels_undefined_witness:
  "\<exists>c. AudioChunk_new_channels (\<lambda>_. True) 2 = Done c \<and>
    CreateBuffer (\<lambda>_. True) (AudioChunkDetails_Clear\<lparr>cd_numBytes := 320\<rparr>) c = Undefined"
proof -
  obtain c where c: "AudioChunk_new_channels (\<lambda>_. True) 2 = Done c" "ac_numChannels c = 2"
    by (simp add: AudioChunk_new_channels_def)
  have "CreateBuffer (\<lambda>_. True) (AudioChunkDetails_Clear\<lparr>cd_numBytes := 320\<rparr>) c = Undefined"
    using CreateBuffer_of_channels_undefined [OF chunk_ok_new_channels [OF c(1)], of
        "AudioChunkDetails_Clear\<lparr>cd_numBytes := 320\<rparr>" "\<lambda>_. True"] c(2)
    by (simp add: AudioChunkDetails_Clear_def)
  with c show ?thesis by blast
qed

end
