(* ===== verification/OrkMcf.thy ===== *)
theory OrkMcf
  imports OrkChunk
begin

text \<open>
  Media chunk files (orkbasecxx/audiofile/MediaChunkFile.cpp): the capture file a tape writes, a
  sequence of chunks, each as its \<open>AudioChunkDetails\<close> the way they lie in memory (x86-64 layout,
  32 bytes) followed by the buffer. Chunks are queued and flushed in batches.

  The \<open>std::fstream\<close> is a record: the bytes of the file, the read position, the error bits, and
  how many more bytes the disk takes (a write past that is the stream error). The two padding bytes
  of the details are an argument. Creation of directories, permissions and ownership of the file
  are left out.
\<close>

section \<open>The layout of the details in memory\<close>

definition le32 :: "u32 \<Rightarrow> u8 list" where
  "le32 w = [ucast w, ucast (drop_bit 8 w), ucast (drop_bit 16 w), ucast (drop_bit 24 w)]"

definition rd32 :: "u8 list \<Rightarrow> nat \<Rightarrow> u32" where
  "rd32 bs i = ucast (bs ! i) OR push_bit 8 (ucast (bs ! (i + 1)))
     OR push_bit 16 (ucast (bs ! (i + 2))) OR push_bit 24 (ucast (bs ! (i + 3)))"

definition details_bytes :: "u8 \<times> u8 \<Rightarrow> AudioChunkDetails \<Rightarrow> u8 list" where
  "details_bytes pad d =
     le32 (cd_marker d) @ le32 (cd_encoding d) @ le32 (cd_numBytes d) @ le32 (cd_timestamp d)
     @ le32 (cd_arrivalTimestamp d) @ le32 (cd_sequenceNumber d) @ le32 (cd_sampleRate d)
     @ [cd_rtpPayloadType d, cd_channel d, fst pad, snd pad]"

definition details_of_bytes :: "u8 list \<Rightarrow> AudioChunkDetails" where
  "details_of_bytes bs = \<lparr>cd_marker = rd32 bs 0, cd_encoding = rd32 bs 4, cd_numBytes = rd32 bs 8,
     cd_timestamp = rd32 bs 12, cd_arrivalTimestamp = rd32 bs 16, cd_sequenceNumber = rd32 bs 20,
     cd_sampleRate = rd32 bs 24, cd_rtpPayloadType = bs ! 28, cd_channel = bs ! 29\<rparr>"

lemma rd32_le32: "rd32 (le32 w @ bs) 0 = w"
proof (rule bit_word_eqI)
  fix n
  assume n: "n < LENGTH(32)"
  have bits: "bit (rd32 (le32 w @ bs) 0) n \<longleftrightarrow>
      (n < 8 \<and> bit w n) \<or> (8 \<le> n \<and> n - 8 < 8 \<and> bit w n) \<or>
      (16 \<le> n \<and> n - 16 < 8 \<and> bit w n) \<or> (24 \<le> n \<and> n - 24 < 8 \<and> bit w n)"
    using n by (auto simp: rd32_def le32_def bit_or_iff bit_push_bit_iff bit_ucast_iff bit_drop_bit_eq)
  have "n < 8 \<or> (8 \<le> n \<and> n - 8 < 8) \<or> (16 \<le> n \<and> n - 16 < 8) \<or> (24 \<le> n \<and> n - 24 < 8)"
    using n by simp linarith
  with bits show "bit (rd32 (le32 w @ bs) 0) n = bit w n" by blast
qed

lemma length_le32 [simp]: "length (le32 w) = 4"
  by (simp add: le32_def)

lemma rd32_skip: "length xs = i \<Longrightarrow> rd32 (xs @ bs) i = rd32 bs 0"
  by (simp add: rd32_def nth_append numeral_2_eq_2)

lemma details_roundtrip: "details_of_bytes (details_bytes pad d @ bs) = d"
proof -
  have skip: "rd32 (xs @ le32 w @ ys) (length xs) = w" for xs w ys
    by (simp add: rd32_skip rd32_le32)
  show ?thesis
    using skip [of "[]"] skip [of "le32 _"] skip [of "le32 _ @ le32 _"]
      skip [of "le32 _ @ le32 _ @ le32 _"] skip [of "le32 _ @ le32 _ @ le32 _ @ le32 _"]
      skip [of "le32 _ @ le32 _ @ le32 _ @ le32 _ @ le32 _"]
      skip [of "le32 _ @ le32 _ @ le32 _ @ le32 _ @ le32 _ @ le32 _"]
    by (cases d) (simp add: details_of_bytes_def details_bytes_def nth_append)
qed

section \<open>Streams\<close>

record mcf_stream =
  ms_open :: bool
  ms_eof :: bool
  ms_fail :: bool
  ms_bytes :: "u8 list"
  ms_pos :: nat
  ms_room :: nat

definition ms_good :: "mcf_stream \<Rightarrow> bool" where
  "ms_good s \<longleftrightarrow> \<not> ms_eof s \<and> \<not> ms_fail s"

definition stream_write :: "u8 list \<Rightarrow> mcf_stream \<Rightarrow> mcf_stream" where
  "stream_write bs s =
     (if \<not> ms_good s then s
      else s\<lparr>ms_bytes := ms_bytes s @ take (ms_room s) bs, ms_room := ms_room s - length bs,
             ms_fail := (ms_room s < length bs)\<rparr>)"

definition stream_read :: "nat \<Rightarrow> mcf_stream \<Rightarrow> u8 list \<times> mcf_stream" where
  "stream_read n s =
     (if \<not> ms_good s then ([], s\<lparr>ms_fail := True\<rparr>)
      else if ms_pos s + n \<le> length (ms_bytes s)
      then (take n (drop (ms_pos s) (ms_bytes s)), s\<lparr>ms_pos := ms_pos s + n\<rparr>)
      else (drop (ms_pos s) (ms_bytes s),
            s\<lparr>ms_pos := length (ms_bytes s), ms_eof := True, ms_fail := True\<rparr>))"

section \<open>The file\<close>

record MediaChunkFile =
  mf_filename :: string
  mf_write :: bool
  mf_sampleRate :: int
  mf_stream :: mcf_stream
  mf_queue :: "AudioChunk list"
  mf_queueSize :: "64 word"

definition stream_closed :: mcf_stream where
  "stream_closed = \<lparr>ms_open = False, ms_eof = False, ms_fail = False, ms_bytes = [], ms_pos = 0,
     ms_room = 0\<rparr>"

definition MediaChunkFile_new :: MediaChunkFile where
  "MediaChunkFile_new = \<lparr>mf_filename = [], mf_write = False, mf_sampleRate = 0,
     mf_stream = stream_closed, mf_queue = [], mf_queueSize = 0\<rparr>"

text \<open>
  The loop of \<open>FlushToDisk\<close>: what is left of the queue, the stream, and \<open>writeError\<close>. Queued
  references are never NULL (\<open>WriteChunk\<close> returns on a NULL one).
\<close>

fun flush_loop ::
    "u8 \<times> u8 \<Rightarrow> AudioChunk list \<Rightarrow> mcf_stream \<Rightarrow> (AudioChunk list \<times> mcf_stream \<times> bool) outcome" where
  "flush_loop pad [] s = Done ([], s, False)"
| "flush_loop pad (c # q) s =
     (case ac_buffer c of
        None \<Rightarrow> flush_loop pad q s
      | Some b \<Rightarrow>
          let s1 = stream_write (details_bytes pad (ac_details c)) s
          in if \<not> ms_good s1 then Done (q, s1, True)
             else if GetNumBytes c < 0 \<or> length b < nat (GetNumBytes c) then Undefined
             else
               let s2 = stream_write (take (nat (GetNumBytes c)) b) s1
               in if \<not> ms_good s2 then Done (q, s2, True) else flush_loop pad q s2)"

definition FlushToDisk :: "u8 \<times> u8 \<Rightarrow> MediaChunkFile \<Rightarrow> (MediaChunkFile \<times> bool) outcome" where
  "FlushToDisk pad f =
     (case flush_loop pad (mf_queue f) (mf_stream f) of
        Done (q, s, e) \<Rightarrow> Done (f\<lparr>mf_queue := q, mf_stream := s, mf_queueSize := 0\<rparr>, e)
      | Thrown \<Rightarrow> Thrown | Undefined \<Rightarrow> Undefined)"

definition Mcf_Close :: "u8 \<times> u8 \<Rightarrow> MediaChunkFile \<Rightarrow> MediaChunkFile outcome" where
  "Mcf_Close pad f =
     (if ms_open (mf_stream f) then
        (case FlushToDisk pad f of
           Done (f', _) \<Rightarrow> Done (f'\<lparr>mf_stream := (mf_stream f')\<lparr>ms_open := False\<rparr>\<rparr>)
         | Thrown \<Rightarrow> Thrown | Undefined \<Rightarrow> Undefined)
      else Done f)"

text \<open>\<open>WriteChunk\<close>: the file afterwards, and whether the call threw.\<close>

definition Mcf_WriteChunk ::
    "int \<Rightarrow> u8 \<times> u8 \<Rightarrow> AudioChunk option \<Rightarrow> MediaChunkFile \<Rightarrow> (MediaChunkFile \<times> bool) outcome" where
  "Mcf_WriteChunk batchKB pad chunkRef f =
     (case chunkRef of
        None \<Rightarrow> Done (f, False)
      | Some c \<Rightarrow>
          if cd_numBytes (ac_details c) = 0 then Done (f, False)
          else
            let f1 = f\<lparr>mf_queueSize := mf_queueSize f + word_of_int (GetNumBytes c),
                       mf_queue := mf_queue f @ [c]\<rparr>
            in if mf_queueSize f1 > ucast (word_of_int (batchKB * 1024) :: u32) then
                 (if ms_open (mf_stream f1) then FlushToDisk pad f1 else Done (f1, True))
               else Done (f1, False))"

text \<open>\<open>Open\<close>: \<open>disk\<close> is the file found (reading) or the room on the disk (writing), if it opens.\<close>

definition Mcf_Open ::
    "string \<Rightarrow> bool \<Rightarrow> int \<Rightarrow> (u8 list \<times> nat) option \<Rightarrow> MediaChunkFile \<Rightarrow> MediaChunkFile \<times> bool" where
  "Mcf_Open filename write sampleRate disk f =
     (let f1 = (if mf_sampleRate f = 0 then f\<lparr>mf_sampleRate := sampleRate\<rparr> else f);
          f2 = (if ci_eq (mf_filename f1) filename then f1
                else f1\<lparr>mf_filename := filename @ ''.mcf''\<rparr>);
          f3 = f2\<lparr>mf_write := write\<rparr>
      in if ms_open (mf_stream f3)
         then (f3\<lparr>mf_stream := (mf_stream f3)\<lparr>ms_fail := True\<rparr>\<rparr>, False)
         else case disk of
             None \<Rightarrow> (f3\<lparr>mf_stream := (mf_stream f3)\<lparr>ms_fail := True\<rparr>\<rparr>, True)
           | Some (bytes, room) \<Rightarrow>
               (f3\<lparr>mf_stream := \<lparr>ms_open = True, ms_eof = False, ms_fail = False,
                   ms_bytes = (if write then [] else bytes), ms_pos = 0, ms_room = room\<rparr>\<rparr>, False))"

text \<open>
  \<open>ReadChunkMono\<close>: the result, the chunk and the file. The inner \<open>numRead\<close> of the source shadows
  the outer one, so a chunk counts as the 32 bytes of its details.
\<close>

definition Mcf_ReadChunkMono ::
    "(nat \<Rightarrow> bool) \<Rightarrow> MediaChunkFile \<Rightarrow> (int \<times> AudioChunk \<times> MediaChunkFile) outcome" where
  "Mcf_ReadChunkMono alloc f =
     (if \<not> ms_open (mf_stream f) then Thrown
      else
        let (hdr, s1) = stream_read 32 (mf_stream f);
            f1 = f\<lparr>mf_stream := s1\<rparr>
        in if ms_eof s1 then Done (0, AudioChunk_new, f1)
           else if ms_fail s1 then Done (32, AudioChunk_new, f1)
           else
             let d = details_of_bytes hdr
             in if cd_marker d \<noteq> MEDIA_CHUNK_MARKER then Thrown
                else if cd_numBytes d \<ge> 100000 then Thrown
                else
                  let (body, s2) = stream_read (unat (cd_numBytes d)) s1
                  in if ms_fail s2 then Thrown
                     else (case SetBuffer alloc (Some body) d AudioChunk_new of
                         Done c \<Rightarrow> Done (32, c, f\<lparr>mf_stream := s2\<rparr>)
                       | Thrown \<Rightarrow> Thrown | Undefined \<Rightarrow> Undefined))"

section \<open>What is written can be read\<close>

definition storable :: "AudioChunk \<Rightarrow> bool" where
  "storable c \<longleftrightarrow> (\<exists>b. ac_buffer c = Some b \<and> length b = unat (cd_numBytes (ac_details c))) \<and>
     0 < unat (cd_numBytes (ac_details c)) \<and> unat (cd_numBytes (ac_details c)) < 2 ^ 31"

definition chunk_bytes :: "u8 \<times> u8 \<Rightarrow> AudioChunk \<Rightarrow> u8 list" where
  "chunk_bytes pad c = details_bytes pad (ac_details c) @ the (ac_buffer c)"

abbreviation chunks_bytes :: "u8 \<times> u8 \<Rightarrow> AudioChunk list \<Rightarrow> u8 list" where
  "chunks_bytes pad cs \<equiv> concat (map (chunk_bytes pad) cs)"

lemma length_details_bytes [simp]: "length (details_bytes pad d) = 32"
  by (simp add: details_bytes_def le32_def)

lemma sint_small: "unat w < 2 ^ 31 \<Longrightarrow> sint w = int (unat w)" for w :: u32
proof -
  assume "unat w < 2 ^ 31"
  then have "int (unat w) < int (2 ^ 31)" by (simp only: of_nat_less_iff)
  then have "uint w < 2 ^ 31" by simp
  moreover have "- (2 ^ 31) \<le> uint w" by (rule order_trans [OF _ uint_ge_0]) simp
  ultimately have "signed_take_bit 31 (uint w) = uint w" by (intro signed_take_bit_int_eq_self)
  then show ?thesis by (simp add: sint_uint)
qed

lemma GetNumBytes_storable: "storable c \<Longrightarrow> GetNumBytes c = int (unat (cd_numBytes (ac_details c)))"
  unfolding storable_def GetNumBytes_def by (blast intro: sint_small)

lemma stream_write_room:
  "ms_good s \<Longrightarrow> length bs \<le> ms_room s \<Longrightarrow>
    stream_write bs s = s\<lparr>ms_bytes := ms_bytes s @ bs, ms_room := ms_room s - length bs, ms_fail := False\<rparr>"
  by (simp add: stream_write_def)

lemma ms_good_write: "ms_good s \<Longrightarrow> ms_good (s\<lparr>ms_bytes := b, ms_room := r, ms_fail := False\<rparr>)"
  by (simp add: ms_good_def)

text \<open>With enough room on the disk a flush appends the bytes of all queued chunks.\<close>

lemma flush_loop_room:
  "ms_good s \<Longrightarrow> list_all storable q \<Longrightarrow> length (chunks_bytes pad q) \<le> ms_room s \<Longrightarrow>
    flush_loop pad q s = Done ([], s\<lparr>ms_bytes := ms_bytes s @ chunks_bytes pad q,
      ms_room := ms_room s - length (chunks_bytes pad q), ms_fail := False\<rparr>, False)"
proof (induction q arbitrary: s)
  case Nil
  then show ?case by (simp add: ms_good_def)
next
  case (Cons c q)
  from Cons.prems(2) obtain b where b: "ac_buffer c = Some b" "storable c"
    "length b = unat (cd_numBytes (ac_details c))" by (auto simp: storable_def)
  let ?s1 = "s\<lparr>ms_bytes := ms_bytes s @ details_bytes pad (ac_details c), ms_room := ms_room s - 32,
    ms_fail := False\<rparr>"
  let ?s2 = "s\<lparr>ms_bytes := ms_bytes s @ chunk_bytes pad c, ms_room := ms_room s - 32 - length b,
    ms_fail := False\<rparr>"
  have len: "length (chunk_bytes pad c) = 32 + length b" by (simp add: chunk_bytes_def b)
  with Cons.prems(3) have room: "32 + length b + length (chunks_bytes pad q) \<le> ms_room s" by simp
  have w1: "stream_write (details_bytes pad (ac_details c)) s = ?s1"
    using Cons.prems(1) room by (simp add: stream_write_room)
  have w2: "stream_write b ?s1 = ?s2"
    using Cons.prems(1) room by (simp add: stream_write_room ms_good_write chunk_bytes_def b)
  have "flush_loop pad (c # q) s = flush_loop pad q ?s2"
    using Cons.prems(1) w2
    by (simp add: b w1 ms_good_write GetNumBytes_storable Let_def flip: b(3))
  also have "\<dots> = Done ([], ?s2\<lparr>ms_bytes := ms_bytes ?s2 @ chunks_bytes pad q,
      ms_room := ms_room ?s2 - length (chunks_bytes pad q), ms_fail := False\<rparr>, False)"
    using Cons.prems(1,2) room by (intro Cons.IH) (simp_all add: ms_good_write)
  finally show ?case by (simp add: len add.assoc diff_diff_left)
qed

text \<open>
  The bytes the file will have once the queue is flushed, and the state in which \<open>n\<close> more bytes
  still fit.
\<close>

definition disk_image :: "u8 \<times> u8 \<Rightarrow> MediaChunkFile \<Rightarrow> u8 list" where
  "disk_image pad f = ms_bytes (mf_stream f) @ chunks_bytes pad (mf_queue f)"

definition writable :: "u8 \<times> u8 \<Rightarrow> nat \<Rightarrow> MediaChunkFile \<Rightarrow> bool" where
  "writable pad n f \<longleftrightarrow> ms_open (mf_stream f) \<and> ms_good (mf_stream f) \<and> list_all storable (mf_queue f) \<and>
     length (chunks_bytes pad (mf_queue f)) + n \<le> ms_room (mf_stream f)"

lemma FlushToDisk_room:
  assumes "writable pad n f"
  shows "\<exists>f'. FlushToDisk pad f = Done (f', False) \<and> writable pad n f' \<and> mf_queue f' = [] \<and>
    disk_image pad f' = disk_image pad f"
proof -
  have "n \<le> ms_room (mf_stream f) - length (chunks_bytes pad (mf_queue f))"
    using assms unfolding writable_def by linarith
  with assms show ?thesis
    by (simp add: FlushToDisk_def writable_def flush_loop_room disk_image_def ms_good_write)
qed

lemma WriteChunk_room:
  assumes "writable pad (length (chunk_bytes pad c) + n) f" "storable c"
  shows "\<exists>f'. Mcf_WriteChunk kb pad (Some c) f = Done (f', False) \<and> writable pad n f' \<and>
    disk_image pad f' = disk_image pad f @ chunk_bytes pad c"
proof -
  let ?f1 = "f\<lparr>mf_queueSize := mf_queueSize f + word_of_int (GetNumBytes c), mf_queue := mf_queue f @ [c]\<rparr>"
  have w: "writable pad n ?f1" "disk_image pad ?f1 = disk_image pad f @ chunk_bytes pad c"
    using assms by (simp_all add: writable_def disk_image_def)
  have nz: "cd_numBytes (ac_details c) \<noteq> 0" using assms(2) by (auto simp: storable_def)
  obtain f' where "FlushToDisk pad ?f1 = Done (f', False)" "writable pad n f'"
    "disk_image pad f' = disk_image pad ?f1"
    using FlushToDisk_room [OF w(1)] by blast
  with w nz show ?thesis
    by (auto simp: Mcf_WriteChunk_def Let_def writable_def)
qed

primrec Mcf_write_all ::
    "int \<Rightarrow> u8 \<times> u8 \<Rightarrow> AudioChunk list \<Rightarrow> MediaChunkFile \<Rightarrow> MediaChunkFile outcome" where
  "Mcf_write_all kb pad [] f = Done f"
| "Mcf_write_all kb pad (c # cs) f =
     (case Mcf_WriteChunk kb pad (Some c) f of
        Done (f', False) \<Rightarrow> Mcf_write_all kb pad cs f'
      | Done (f', True) \<Rightarrow> Thrown | Thrown \<Rightarrow> Thrown | Undefined \<Rightarrow> Undefined)"

lemma write_all_room:
  "writable pad (length (chunks_bytes pad cs) + n) f \<Longrightarrow> list_all storable cs \<Longrightarrow>
    \<exists>f'. Mcf_write_all kb pad cs f = Done f' \<and> writable pad n f' \<and>
      disk_image pad f' = disk_image pad f @ chunks_bytes pad cs"
proof (induction cs arbitrary: f)
  case (Cons c cs)
  then obtain f1 where f1: "Mcf_WriteChunk kb pad (Some c) f = Done (f1, False)"
    "writable pad (length (chunks_bytes pad cs) + n) f1"
    "disk_image pad f1 = disk_image pad f @ chunk_bytes pad c"
    using WriteChunk_room [of pad c "length (chunks_bytes pad cs) + n" f kb]
    by (auto simp: add.assoc)
  with Cons.IH [OF f1(2)] Cons.prems(2) show ?case by auto
qed simp

section \<open>Reading\<close>

definition readable :: "AudioChunk \<Rightarrow> bool" where
  "readable c \<longleftrightarrow> storable c \<and> cd_marker (ac_details c) = MEDIA_CHUNK_MARKER \<and>
     cd_numBytes (ac_details c) < 100000"

definition as_read :: "AudioChunk \<Rightarrow> AudioChunk" where
  "as_read c = AudioChunk_new\<lparr>ac_details := ac_details c, ac_buffer := ac_buffer c\<rparr>"

text \<open>Small allocations succeed.\<close>

definition allocates :: "(nat \<Rightarrow> bool) \<Rightarrow> bool" where
  "allocates alloc \<longleftrightarrow> (\<forall>n < 100000. alloc n)"

primrec Mcf_read_all ::
    "(nat \<Rightarrow> bool) \<Rightarrow> nat \<Rightarrow> MediaChunkFile \<Rightarrow> (AudioChunk list \<times> MediaChunkFile) outcome" where
  "Mcf_read_all alloc 0 f = Done ([], f)"
| "Mcf_read_all alloc (Suc n) f =
     (case Mcf_ReadChunkMono alloc f of
        Done (r, c, f') \<Rightarrow> (case Mcf_read_all alloc n f' of
            Done (cs, f'') \<Rightarrow> Done (c # cs, f'') | Thrown \<Rightarrow> Thrown | Undefined \<Rightarrow> Undefined)
      | Thrown \<Rightarrow> Thrown | Undefined \<Rightarrow> Undefined)"

text \<open>The file is open for reading and \<open>rest\<close> is what follows the read position.\<close>

definition reading :: "u8 list \<Rightarrow> MediaChunkFile \<Rightarrow> bool" where
  "reading rest f \<longleftrightarrow> ms_open (mf_stream f) \<and> ms_good (mf_stream f) \<and>
     ms_pos (mf_stream f) \<le> length (ms_bytes (mf_stream f)) \<and>
     drop (ms_pos (mf_stream f)) (ms_bytes (mf_stream f)) = rest"

lemma stream_read_some:
  assumes "ms_good s" "ms_pos s \<le> length (ms_bytes s)" "drop (ms_pos s) (ms_bytes s) = xs @ ys"
  shows "stream_read (length xs) s = (xs, s\<lparr>ms_pos := ms_pos s + length xs\<rparr>) \<and>
    ms_pos s + length xs \<le> length (ms_bytes s) \<and>
    drop (ms_pos s + length xs) (ms_bytes s) = ys"
proof -
  from assms(3) have "length (ms_bytes s) - ms_pos s = length xs + length ys"
    by (metis length_append length_drop)
  with assms(2) have le: "ms_pos s + length xs \<le> length (ms_bytes s)" by linarith
  have "drop (length xs) (drop (ms_pos s) (ms_bytes s)) = ys" by (simp add: assms(3))
  then have "drop (ms_pos s + length xs) (ms_bytes s) = ys" by (simp add: add.commute)
  with le assms show ?thesis by (simp add: stream_read_def)
qed

text \<open>Reading the chunk that comes next, or finding the end of the file.\<close>

lemma read_header:
  assumes "reading (chunk_bytes pad c @ rest) f"
  obtains s1 where "stream_read 32 (mf_stream f) = (details_bytes pad (ac_details c), s1)"
    "reading (the (ac_buffer c) @ rest) (f\<lparr>mf_stream := s1\<rparr>)"
proof
  let ?s = "mf_stream f"
  have *: "drop (ms_pos ?s) (ms_bytes ?s) = details_bytes pad (ac_details c) @ the (ac_buffer c) @ rest"
    using assms by (simp add: reading_def chunk_bytes_def)
  note st = stream_read_some [OF _ _ *]
  show "stream_read 32 ?s = (details_bytes pad (ac_details c), ?s\<lparr>ms_pos := ms_pos ?s + 32\<rparr>)"
    using st assms by (simp add: reading_def)
  show "reading (the (ac_buffer c) @ rest) (f\<lparr>mf_stream := ?s\<lparr>ms_pos := ms_pos ?s + 32\<rparr>\<rparr>)"
    using st assms by (simp add: reading_def ms_good_def)
qed

lemma readingD:
  "reading rest f \<Longrightarrow> ms_open (mf_stream f) \<and> \<not> ms_eof (mf_stream f) \<and> \<not> ms_fail (mf_stream f)"
  by (simp add: reading_def ms_good_def)

lemma ReadChunk_next:
  assumes r: "reading (chunk_bytes pad c @ rest) f" and c: "readable c" and alloc: "allocates alloc"
  shows "\<exists>f'. Mcf_ReadChunkMono alloc f = Done (32, as_read c, f') \<and> reading rest f'"
proof -
  obtain s1 where s1: "stream_read 32 (mf_stream f) = (details_bytes pad (ac_details c), s1)"
    "reading (the (ac_buffer c) @ rest) (f\<lparr>mf_stream := s1\<rparr>)"
    by (rule read_header [OF r])
  from c obtain b where b: "ac_buffer c = Some b" "length b = unat (cd_numBytes (ac_details c))"
    "0 < unat (cd_numBytes (ac_details c))" by (auto simp: readable_def storable_def)
  let ?s2 = "s1\<lparr>ms_pos := ms_pos s1 + length b\<rparr>"
  have rd: "stream_read (length b) s1 = (b, ?s2)" "reading rest (f\<lparr>mf_stream := ?s2\<rparr>)"
    using stream_read_some [of s1 b rest] s1(2) by (auto simp: reading_def ms_good_def b)
  have d: "details_of_bytes (details_bytes pad (ac_details c)) = ac_details c"
    using details_roundtrip [of pad _ "[]"] by simp
  have "cd_numBytes (ac_details c) < 100000" using c by (simp add: readable_def)
  then have "unat (cd_numBytes (ac_details c)) < 100000" by (simp add: word_less_nat_alt)
  then have "SetBuffer alloc (Some b) (ac_details c) AudioChunk_new = Done (as_read c)"
    using b alloc by (simp add: SetBuffer_def AudioChunk_new_def as_read_def allocates_def)
  moreover have "\<not> cd_numBytes (ac_details c) \<ge> 100000" "cd_marker (ac_details c) = MEDIA_CHUNK_MARKER"
    using c by (simp_all add: readable_def not_le)
  ultimately have "Mcf_ReadChunkMono alloc f = Done (32, as_read c, f\<lparr>mf_stream := ?s2\<rparr>)"
    using readingD [OF r] readingD [OF s1(2)] readingD [OF rd(2)] rd(1)
    by (simp add: Mcf_ReadChunkMono_def s1(1) d Let_def flip: b(2))
  with rd(2) show ?thesis by blast
qed

lemma ReadChunk_end:
  assumes "reading rest f" "length rest < 32"
  shows "\<exists>f'. Mcf_ReadChunkMono alloc f = Done (0, AudioChunk_new, f')"
proof -
  have "\<not> ms_pos (mf_stream f) + 32 \<le> length (ms_bytes (mf_stream f))"
    using assms by (auto simp: reading_def)
  with assms show ?thesis
    by (simp add: Mcf_ReadChunkMono_def stream_read_def reading_def Let_def)
qed

lemma ReadChunk_too_big:
  assumes r: "reading (chunk_bytes pad c @ rest) f" and c: "cd_numBytes (ac_details c) \<ge> 100000"
  shows "Mcf_ReadChunkMono alloc f = Thrown"
proof -
  obtain s1 where s1: "stream_read 32 (mf_stream f) = (details_bytes pad (ac_details c), s1)"
    "reading (the (ac_buffer c) @ rest) (f\<lparr>mf_stream := s1\<rparr>)"
    by (rule read_header [OF r])
  have d: "details_of_bytes (details_bytes pad (ac_details c)) = ac_details c"
    using details_roundtrip [of pad _ "[]"] by simp
  show ?thesis
    using readingD [OF r] readingD [OF s1(2)] c
    by (simp add: Mcf_ReadChunkMono_def s1(1) d Let_def)
qed

lemma read_all_chunks:
  "reading (chunks_bytes pad cs @ rest) f \<Longrightarrow> list_all readable cs \<Longrightarrow> allocates alloc \<Longrightarrow>
    \<exists>f'. Mcf_read_all alloc (length cs) f = Done (map as_read cs, f') \<and> reading rest f'"
proof (induction cs arbitrary: f)
  case (Cons c cs)
  then obtain f1 where f1: "Mcf_ReadChunkMono alloc f = Done (32, as_read c, f1)"
    "reading (chunks_bytes pad cs @ rest) f1"
    using ReadChunk_next [of pad c "chunks_bytes pad cs @ rest" f alloc] by auto
  with Cons.IH [OF f1(2)] Cons.prems(2,3) show ?case by auto
qed simp

section \<open>The capture file of a tape\<close>

lemma Open_reading: "reading bytes (fst (Mcf_Open name False rate (Some (bytes, room)) MediaChunkFile_new))"
  by (simp add: Mcf_Open_def MediaChunkFile_new_def stream_closed_def reading_def ms_good_def Let_def)

lemma Open_writable:
  "n \<le> room \<Longrightarrow> writable pad n (fst (Mcf_Open name True rate (Some (old, room)) MediaChunkFile_new)) \<and>
    disk_image pad (fst (Mcf_Open name True rate (Some (old, room)) MediaChunkFile_new)) = []"
  by (simp add: Mcf_Open_def MediaChunkFile_new_def stream_closed_def writable_def ms_good_def
      disk_image_def Let_def)

lemma write_and_close:
  assumes "list_all storable cs" "length (chunks_bytes pad cs) \<le> room"
  shows "\<exists>f1 f2. Mcf_write_all kb pad cs (fst (Mcf_Open name True rate (Some (old, room)) MediaChunkFile_new))
      = Done f1 \<and> Mcf_Close pad f1 = Done f2 \<and> ms_bytes (mf_stream f2) = chunks_bytes pad cs"
proof -
  let ?f0 = "fst (Mcf_Open name True rate (Some (old, room)) MediaChunkFile_new)"
  have "writable pad (length (chunks_bytes pad cs) + 0) ?f0" using Open_writable assms(2) by simp
  then obtain f1 where f1: "Mcf_write_all kb pad cs ?f0 = Done f1" "writable pad 0 f1"
    "disk_image pad f1 = chunks_bytes pad cs"
    using write_all_room [OF _ assms(1), of pad 0 ?f0 kb] Open_writable [OF assms(2)] by auto
  obtain f' where f': "FlushToDisk pad f1 = Done (f', False)" "mf_queue f' = []"
    "disk_image pad f' = disk_image pad f1" using FlushToDisk_room [OF f1(2)] by blast
  have "Mcf_Close pad f1 = Done (f'\<lparr>mf_stream := (mf_stream f')\<lparr>ms_open := False\<rparr>\<rparr>)"
    using f1(2) f'(1) by (simp add: Mcf_Close_def writable_def)
  with f1 f' show ?thesis by (auto simp: disk_image_def)
qed

text \<open>
  C22. A capture file gives back the recorded chunks: chunks with a buffer of the announced length
  (not empty, below 100000 bytes) written to a new file in any number, whatever the batch size, are
  read back in order, details and audio unchanged, and then the end of the file is reported - as
  long as the disk takes all bytes.
\<close>

theorem mcf_roundtrip:
  assumes "list_all readable cs" "length (chunks_bytes pad cs) \<le> room" "allocates alloc"
  shows "\<exists>f1 f2 f3 f4. Mcf_write_all kb pad cs
        (fst (Mcf_Open name True rate (Some (old, room)) MediaChunkFile_new)) = Done f1 \<and>
    Mcf_Close pad f1 = Done f2 \<and>
    Mcf_read_all alloc (length cs)
        (fst (Mcf_Open name False rate (Some (ms_bytes (mf_stream f2), 0)) MediaChunkFile_new))
      = Done (map as_read cs, f3) \<and>
    Mcf_ReadChunkMono alloc f3 = Done (0, AudioChunk_new, f4)"
proof -
  have "list_all storable cs" using assms(1) by (simp add: list_all_iff readable_def)
  then obtain f1 f2 where w: "Mcf_write_all kb pad cs
        (fst (Mcf_Open name True rate (Some (old, room)) MediaChunkFile_new)) = Done f1"
    "Mcf_Close pad f1 = Done f2" "ms_bytes (mf_stream f2) = chunks_bytes pad cs"
    using write_and_close [OF _ assms(2)] by blast
  have "reading (chunks_bytes pad cs @ [])
      (fst (Mcf_Open name False rate (Some (ms_bytes (mf_stream f2), 0)) MediaChunkFile_new))"
    using Open_reading [of "ms_bytes (mf_stream f2)"] w(3) by simp
  from read_all_chunks [OF this assms(1,3)] obtain f3 where f3: "Mcf_read_all alloc (length cs)
      (fst (Mcf_Open name False rate (Some (ms_bytes (mf_stream f2), 0)) MediaChunkFile_new))
      = Done (map as_read cs, f3)" "reading [] f3" by blast
  from ReadChunk_end [OF f3(2)] obtain f4 where "Mcf_ReadChunkMono alloc f3 = Done (0, AudioChunk_new, f4)"
    by auto
  with w f3 show ?thesis by blast
qed

definition example_chunk :: "u8 list \<Rightarrow> u32 \<Rightarrow> AudioChunk" where
  "example_chunk b ts = AudioChunk_new\<lparr>ac_details := AudioChunkDetails_Clear\<lparr>cd_encoding := UlawAudio,
     cd_numBytes := of_nat (length b), cd_timestamp := ts\<rparr>, ac_buffer := Some b\<rparr>"

theorem mcf_roundtrip_witness:
  "\<exists>f1 f2 f3 f4. Mcf_write_all 200 (0, 0) [example_chunk [7, 8, 9] 160, example_chunk [1] 320]
        (fst (Mcf_Open ''tape'' True 8000 (Some ([], 1000)) MediaChunkFile_new)) = Done f1 \<and>
    Mcf_Close (0, 0) f1 = Done f2 \<and>
    Mcf_read_all (\<lambda>_. True) (length [example_chunk [7, 8, 9] 160, example_chunk [1] 320])
        (fst (Mcf_Open ''tape'' False 8000 (Some (ms_bytes (mf_stream f2), 0)) MediaChunkFile_new))
      = Done (map as_read [example_chunk [7, 8, 9] 160, example_chunk [1] 320], f3) \<and>
    Mcf_ReadChunkMono (\<lambda>_. True) f3 = Done (0, AudioChunk_new, f4)"
proof -
  let ?cs = "[example_chunk [7, 8, 9] 160, example_chunk [1] 320]"
  have "list_all readable ?cs" "length (chunks_bytes (0, 0) ?cs) \<le> 1000" "allocates (\<lambda>_. True)"
    by (simp_all add: readable_def storable_def example_chunk_def AudioChunk_new_def allocates_def
        AudioChunkDetails_Clear_def chunk_bytes_def)
  from mcf_roundtrip [OF this, of 200 "''tape''" 8000 "[]"] show ?thesis
    .
qed

text \<open>
  A chunk of 100000 bytes or more is written like any other, but the reader throws when it gets
  to it: the chunks before it are read, everything from it on is lost.
\<close>

theorem mcf_big_chunk_unreadable:
  assumes "list_all readable cs" "storable big" "cd_numBytes (ac_details big) \<ge> 100000"
    "list_all storable rest" "length (chunks_bytes pad (cs @ big # rest)) \<le> room" "allocates alloc"
  shows "\<exists>f1 f2 f3. Mcf_write_all kb pad (cs @ big # rest)
        (fst (Mcf_Open name True rate (Some (old, room)) MediaChunkFile_new)) = Done f1 \<and>
    Mcf_Close pad f1 = Done f2 \<and>
    Mcf_read_all alloc (length cs)
        (fst (Mcf_Open name False rate (Some (ms_bytes (mf_stream f2), 0)) MediaChunkFile_new))
      = Done (map as_read cs, f3) \<and>
    Mcf_ReadChunkMono alloc f3 = Thrown"
proof -
  have "list_all storable (cs @ big # rest)"
    using assms(1,2,4) by (auto simp: list_all_iff readable_def)
  then obtain f1 f2 where w: "Mcf_write_all kb pad (cs @ big # rest)
        (fst (Mcf_Open name True rate (Some (old, room)) MediaChunkFile_new)) = Done f1"
    "Mcf_Close pad f1 = Done f2" "ms_bytes (mf_stream f2) = chunks_bytes pad (cs @ big # rest)"
    using write_and_close [OF _ assms(5)] by blast
  have "reading (chunks_bytes pad cs @ chunk_bytes pad big @ chunks_bytes pad rest)
      (fst (Mcf_Open name False rate (Some (ms_bytes (mf_stream f2), 0)) MediaChunkFile_new))"
    using Open_reading [of "ms_bytes (mf_stream f2)"] w(3) by simp
  from read_all_chunks [OF this assms(1,6)] obtain f3 where f3: "Mcf_read_all alloc (length cs)
      (fst (Mcf_Open name False rate (Some (ms_bytes (mf_stream f2), 0)) MediaChunkFile_new))
      = Done (map as_read cs, f3)" "reading (chunk_bytes pad big @ chunks_bytes pad rest) f3" by blast
  from ReadChunk_too_big [OF f3(2) assms(3), of alloc] w f3 show ?thesis by blast
qed

definition big_chunk :: AudioChunk where
  "big_chunk = example_chunk (replicate 100000 0) 0"

theorem mcf_big_chunk_unreadable_witness:
  "\<exists>f1 f2 f3. Mcf_write_all 200 (0, 0) [big_chunk]
        (fst (Mcf_Open ''tape'' True 8000 (Some ([], 200000)) MediaChunkFile_new)) = Done f1 \<and>
    Mcf_Close (0, 0) f1 = Done f2 \<and>
    Mcf_read_all (\<lambda>_. True) 0
        (fst (Mcf_Open ''tape'' False 8000 (Some (ms_bytes (mf_stream f2), 0)) MediaChunkFile_new))
      = Done ([], f3) \<and>
    Mcf_ReadChunkMono (\<lambda>_. True) f3 = Thrown"
proof -
  have "storable big_chunk" "cd_numBytes (ac_details big_chunk) \<ge> 100000"
    "length (chunks_bytes (0, 0) ([] @ big_chunk # [])) \<le> 200000" "allocates (\<lambda>_. True)"
    by (simp_all add: storable_def big_chunk_def example_chunk_def AudioChunk_new_def allocates_def
        AudioChunkDetails_Clear_def chunk_bytes_def del: replicate.simps)
  from mcf_big_chunk_unreadable [of "[]" big_chunk "[]" "(0, 0)" 200000 "\<lambda>_. True", OF _ this(1,2) _ this(3,4),
      of 200 "''tape''" 8000 "[]"]
  show ?thesis by simp
qed

end
