(* ===== verification/OrkTape.thy ===== *)
theory OrkTape
  imports OrkEnums OrkChunk OrkUtils
begin

text \<open>
  Tapes (orkbasecxx/AudioTape.cpp) and the party filter (orkbasecxx/PartyFilter.cpp): a tape
  collects the audio chunks and the capture events of one call, writes the chunks to a capture file,
  and produces the messages that report the call.

  The virtual \<open>AudioFile\<close> is a record of its methods, \<open>file_ops\<close>, over any type of file. The
  current time, the local-time conversion of APR and the existing files are arguments. A tape's
  mutex protects the queue operations; \<open>Write\<close> is modelled with no chunk added in its middle.
  Logging is left out.
\<close>

section \<open>Configuration\<close>

record tape_config =
  cfg_audioKeepDirectionIncomingDefault :: string
  cfg_audioKeepDirectionOutgoingDefault :: string
  cfg_audioKeepDirectionDefault :: string
  cfg_audioOutputPath :: string
  cfg_audioOutputPathMcf :: string
  cfg_captureFileBatchSizeKByte :: int
  cfg_captureFileSizeLimitKb :: int
  cfg_partyFilter :: "string list"
  cfg_partyFilterMap :: "(char \<times> char) list"
  cfg_remotePartyMaxDigits :: int
  cfg_dtmfReportingDetailed :: bool
  cfg_dynamicTags :: "string list"
  cfg_tagsListUseInitialValue :: "string list"
  cfg_storageAudioFormat :: FileFormatEnum
  cfg_directionForcePrefix :: string
  cfg_directionForceMinLength :: int
  cfg_holdResumeReportEvents :: bool
  cfg_holdResumeReportDuration :: bool
  cfg_serviceName :: string
  cfg_tapeFileNaming :: "string list"
  cfg_tapePathNaming :: "string list"

section \<open>The party filter\<close>

definition PartyFilterActive :: "tape_config \<Rightarrow> bool" where
  "PartyFilterActive cfg \<longleftrightarrow> cfg_partyFilter cfg \<noteq> []"

definition party_value :: "string \<Rightarrow> int" where
  "party_value party = (case StringToInt party of Some v \<Rightarrow> v | None \<Rightarrow> 0)"

text \<open>One pattern, through a buffer of 1024 characters: a range \<open>a-b\<close> or an exact text.\<close>

definition party_pattern_matches :: "string \<Rightarrow> string \<Rightarrow> bool" where
  "party_pattern_matches party pattern =
     (let buf = take 1023 (c_str pattern);
          (lval, rval) = (case find_char CHR ''-'' buf of
              Some i \<Rightarrow> (take i buf, drop (i + 1) buf) | None \<Rightarrow> (buf, []))
      in if lval = [] then False
         else if rval \<noteq> []
         then fst (strtol10 lval) \<le> party_value party \<and> party_value party \<le> fst (strtol10 rval)
         else lval = c_str party)"

fun party_loop :: "string \<Rightarrow> string list \<Rightarrow> bool" where
  "party_loop party [] = False"
| "party_loop party (p # ps) = (if party_pattern_matches party p then True else party_loop party ps)"

definition PartyFilterMatches :: "tape_config \<Rightarrow> string \<Rightarrow> bool" where
  "PartyFilterMatches cfg party = party_loop party (cfg_partyFilter cfg)"

text \<open>
  The loop that replaces a character of a party by another, or removes it when the other is a
  question mark. It does not end when a character that occurs is replaced by itself.
\<close>

partial_function (option) replace_char :: "char \<Rightarrow> char \<Rightarrow> string \<Rightarrow> string option" where
  "replace_char a b s =
     (case find_char a s of
        None \<Rightarrow> Some s
      | Some pos \<Rightarrow>
          if b \<noteq> CHR ''?'' then replace_char a b (s[pos := b])
          else replace_char a b (take pos s @ drop (pos + 1) s))"

fun map_party :: "(char \<times> char) list \<Rightarrow> string \<Rightarrow> string option" where
  "map_party [] s = Some s"
| "map_party ((a, b) # m) s =
     (case replace_char a b s of None \<Rightarrow> None | Some s' \<Rightarrow> map_party m s')"

section \<open>Tapes\<close>

datatype StateEnum = StateUnknown | StateCreated | StateActive | StateStopped | StateError
  | StateInvalid

record AudioDirectionMarks =
  adm_timestamp :: int
  adm_nextTimestampMark :: int
  adm_keep :: AudioKeepDirectionEnum

record exp_time =
  tm_year :: int
  tm_mon :: int
  tm_mday :: int
  tm_hour :: int
  tm_min :: int
  tm_sec :: int

record TapeMsg =
  tm_recId :: string
  tm_stage :: string
  tm_timestamp :: int
  tm_fileName :: string
  tm_capturePort :: string
  tm_localParty :: string
  tm_localEntryPoint :: string
  tm_remoteParty :: string
  tm_direction :: string
  tm_audioKeepDirection :: string
  tm_duration :: int
  tm_serviceName :: string
  tm_localIp :: string
  tm_remoteIp :: string
  tm_nativeCallId :: string
  tm_tags :: "(string \<times> string) list"
  tm_onDemand :: bool
  tm_live :: bool

text \<open>\<open>onDemand\<close> has no initial value in the source; the argument \<open>u\<close> is what is there.\<close>

definition TapeMsg_new :: "tape_config \<Rightarrow> bool \<Rightarrow> TapeMsg" where
  "TapeMsg_new cfg u = \<lparr>tm_recId = [], tm_stage = [], tm_timestamp = 0, tm_fileName = [],
     tm_capturePort = [], tm_localParty = [], tm_localEntryPoint = [], tm_remoteParty = [],
     tm_direction = DirectionToString DirUnkn,
     tm_audioKeepDirection = AudioKeepDirectionToString AudioKeepDirectionBoth, tm_duration = 0,
     tm_serviceName = cfg_serviceName cfg, tm_localIp = [], tm_remoteIp = [], tm_nativeCallId = [],
     tm_tags = [], tm_onDemand = u, tm_live = True\<rparr>"

text \<open>\<open>TapeMsg::Clone\<close>: the service name is not copied but taken from the configuration again.\<close>

definition TapeMsg_Clone :: "tape_config \<Rightarrow> TapeMsg \<Rightarrow> TapeMsg" where
  "TapeMsg_Clone cfg m = m\<lparr>tm_serviceName := cfg_serviceName cfg\<rparr>"

definition TapeMsg_IsValid :: "TapeMsg \<Rightarrow> bool" where
  "TapeMsg_IsValid m \<longleftrightarrow> tm_recId m \<noteq> []"

definition TapeMsg_IsRealtime :: "TapeMsg \<Rightarrow> bool" where
  "TapeMsg_IsRealtime m \<longleftrightarrow> ci_eq (tm_stage m) ''start'' \<or> ci_eq (tm_stage m) ''stop''"

record 'f AudioTape =
  tp_marks :: "AudioDirectionMarks list"
  tp_portId :: string
  tp_localParty :: string
  tp_localEntryPoint :: string
  tp_remoteParty :: string
  tp_direction :: DirectionEnum
  tp_localSide :: LocalSideEnum
  tp_keepDirection :: AudioKeepDirectionEnum
  tp_beginDate :: int
  tp_duration :: int
  tp_localIp :: string
  tp_remoteIp :: string
  tp_trackingId :: string
  tp_nativeCallId :: string
  tp_state :: StateEnum
  tp_numErrors :: int
  tp_onDemand :: bool
  tp_keep :: bool
  tp_isExternal :: bool
  tp_isDoneProcessed :: bool
  tp_isQueued :: bool
  tp_fromProcessMcf :: bool
  tp_lastHoldTs :: int
  tp_holdDuration :: int
  tp_filePath :: string
  tp_fileIdentifier :: string
  tp_fileExtension :: string
  tp_time :: exp_time
  tp_chunkQueue :: "AudioChunk list"
  tp_pushCount :: int
  tp_popCount :: int
  tp_highMark :: int
  tp_rejectedCount :: int
  tp_queueDataSize :: u32
  tp_queueErrorReported :: bool
  tp_eventQueue :: "CaptureEvent list"
  tp_toSendEventQueue :: "CaptureEvent list"
  tp_audioFile :: "'f option"
  tp_shouldStop :: bool
  tp_readyForBatch :: bool
  tp_orkUid :: string
  tp_tags :: "(string \<times> string) list"
  tp_bytesWritten :: int
  tp_lastLogWarning :: int
  tp_passedPartyFilter :: bool

text \<open>The methods of \<open>AudioFile\<close>: \<open>new\<close> of the two classes, and calls that may throw.\<close>

record 'f file_ops =
  fo_new_pcm :: 'f
  fo_new_mcf :: 'f
  fo_extension :: "'f \<Rightarrow> string"
  fo_open :: "string \<Rightarrow> int \<Rightarrow> 'f \<Rightarrow> 'f \<times> bool"
  fo_write :: "AudioChunk \<Rightarrow> 'f \<Rightarrow> 'f \<times> bool"
  fo_close :: "'f \<Rightarrow> 'f"

section \<open>File names\<close>

text \<open>\<open>Format("%.2d")\<close> of a non-negative number.\<close>

definition pad_dec :: "nat \<Rightarrow> int \<Rightarrow> string" where
  "pad_dec n i = (let d = show_nat (nat i) in replicate (n - length d) CHR ''0'' @ d)"

definition capture_path :: "exp_time \<Rightarrow> string" where
  "capture_path d = pad_dec 4 (tm_year d + 1900) @ ''/'' @ pad_dec 2 (tm_mon d + 1) @ ''/''
     @ pad_dec 2 (tm_mday d) @ ''/'' @ pad_dec 2 (tm_hour d) @ ''/''"

definition capture_identifier :: "exp_time \<Rightarrow> string \<Rightarrow> string" where
  "capture_identifier d port = pad_dec 4 (tm_year d + 1900) @ pad_dec 2 (tm_mon d + 1)
     @ pad_dec 2 (tm_mday d) @ ''_'' @ pad_dec 2 (tm_hour d) @ pad_dec 2 (tm_min d)
     @ pad_dec 2 (tm_sec d) @ ''_'' @ c_str port"

definition GenerateCaptureFilePathAndIdentifier ::
    "(int \<Rightarrow> exp_time) \<Rightarrow> 'f AudioTape \<Rightarrow> 'f AudioTape" where
  "GenerateCaptureFilePathAndIdentifier lt t =
     (let d = lt (tp_beginDate t)
      in t\<lparr>tp_filePath := capture_path d, tp_fileIdentifier := capture_identifier d (tp_portId t),
           tp_time := d\<rparr>)"

definition PopulateTimeInfo :: "(int \<Rightarrow> exp_time) \<Rightarrow> 'f AudioTape \<Rightarrow> 'f AudioTape" where
  "PopulateTimeInfo lt t = t\<lparr>tp_time := lt (tp_beginDate t)\<rparr>"

text \<open>
  The names the collision loop tries: the file itself, then the identifier with \<open>-1\<close>, \<open>-2\<close>, ....
  The loop ends because only finitely many files exist.
\<close>

definition collision_name :: "string \<Rightarrow> string \<Rightarrow> string \<Rightarrow> nat \<Rightarrow> string" where
  "collision_name path ident ext i =
     (if i = 0 then path @ ident @ ext
      else path @ (c_str ident @ ''-'' @ show_nat i) @ ext)"

lemma show_nat_inj: "show_nat m = show_nat n \<Longrightarrow> m = n"
  by (metis fst_conv read_digits_show_nat)

definition names_left :: "string list \<Rightarrow> string \<Rightarrow> string \<Rightarrow> string \<Rightarrow> nat \<Rightarrow> nat" where
  "names_left files path ident ext i =
     card {j. 1 \<le> j \<and> i \<le> j \<and> collision_name path ident ext j \<in> set files} + (if i = 0 then 1 else 0)"

lemma names_left_decreases:
  assumes "collision_name path ident ext i \<in> set files"
  shows "names_left files path ident ext (Suc i) < names_left files path ident ext i"
proof (cases "i = 0")
  case True
  have "{j. 1 \<le> j \<and> (0::nat) \<le> j \<and> collision_name path ident ext j \<in> set files} =
      {j. 1 \<le> j \<and> Suc 0 \<le> j \<and> collision_name path ident ext j \<in> set files}" by auto
  with True show ?thesis by (simp add: names_left_def)
next
  case False
  let ?A = "\<lambda>i. {j. 1 \<le> j \<and> i \<le> j \<and> collision_name path ident ext j \<in> set files}"
  have "inj_on (collision_name path ident ext) {1..}"
    by (auto simp: inj_on_def collision_name_def intro: show_nat_inj)
  then have "finite {j \<in> {1..}. collision_name path ident ext j \<in> set files}"
    by (intro finite_inverse_image_gen) auto
  then have "finite (?A i)" by (rule rev_finite_subset) auto
  moreover have "i \<in> ?A i" "i \<notin> ?A (Suc i)" "?A (Suc i) \<subseteq> ?A i" using assms False by auto
  then have "?A (Suc i) \<subset> ?A i" by blast
  ultimately have "card (?A (Suc i)) < card (?A i)" by (rule psubset_card_mono)
  then show ?thesis using False unfolding names_left_def by simp
qed

function collision_index :: "string list \<Rightarrow> string \<Rightarrow> string \<Rightarrow> string \<Rightarrow> nat \<Rightarrow> nat" where
  "collision_index files path ident ext i =
     (if collision_name path ident ext i \<in> set files
      then collision_index files path ident ext (Suc i) else i)"
  by auto
termination
  by (relation "measure (\<lambda>(files, path, ident, ext, i). names_left files path ident ext i)")
    (simp_all add: names_left_decreases)

declare collision_index.simps [simp del]

text \<open>A file that exists makes the tape take its unique id into its name.\<close>

definition PreventFileIdentifierCollision ::
    "string list \<Rightarrow> string \<Rightarrow> string \<Rightarrow> 'f AudioTape \<Rightarrow> 'f AudioTape" where
  "PreventFileIdentifierCollision files path ext t =
     (let fileIndex = collision_index files path (tp_fileIdentifier t) ext 0
      in if fileIndex \<noteq> 0
         then t\<lparr>tp_fileIdentifier := tp_fileIdentifier t @ ''-'' @ tp_orkUid t\<rparr> else t)"

definition GetIdentifier :: "'f AudioTape \<Rightarrow> string" where
  "GetIdentifier t = tp_fileIdentifier t"

definition GetFilename :: "'f AudioTape \<Rightarrow> string" where
  "GetFilename t = tp_filePath t @ tp_fileIdentifier t @ tp_fileExtension t"

section \<open>Construction, chunks and writing\<close>

definition initial_keep_direction :: "tape_config \<Rightarrow> AudioKeepDirectionEnum" where
  "initial_keep_direction cfg =
     (if \<not> AudioKeepDirectionIsDefault (cfg_audioKeepDirectionIncomingDefault cfg)
      then AudioKeepDirectionToEnum (cfg_audioKeepDirectionIncomingDefault cfg)
      else if \<not> AudioKeepDirectionIsDefault (cfg_audioKeepDirectionOutgoingDefault cfg)
      then AudioKeepDirectionToEnum (cfg_audioKeepDirectionOutgoingDefault cfg)
      else AudioKeepDirectionToEnum (cfg_audioKeepDirectionDefault cfg))"

definition AudioTape_new ::
    "tape_config \<Rightarrow> (int \<Rightarrow> exp_time) \<Rightarrow> int \<Rightarrow> string \<Rightarrow> 'f AudioTape" where
  "AudioTape_new cfg lt now portId =
     GenerateCaptureFilePathAndIdentifier lt
       \<lparr>tp_marks = [], tp_portId = portId, tp_localParty = [], tp_localEntryPoint = [],
        tp_remoteParty = [], tp_direction = DirUnkn, tp_localSide = LocalSideUnkn,
        tp_keepDirection = initial_keep_direction cfg, tp_beginDate = now, tp_duration = 0,
        tp_localIp = [], tp_remoteIp = [], tp_trackingId = portId, tp_nativeCallId = [],
        tp_state = StateCreated, tp_numErrors = 0, tp_onDemand = False, tp_keep = True,
        tp_isExternal = False, tp_isDoneProcessed = False, tp_isQueued = False,
        tp_fromProcessMcf = False, tp_lastHoldTs = 0, tp_holdDuration = 0, tp_filePath = [],
        tp_fileIdentifier = [], tp_fileExtension = [], tp_time = lt now, tp_chunkQueue = [],
        tp_pushCount = 0, tp_popCount = 0, tp_highMark = 0, tp_rejectedCount = 0,
        tp_queueDataSize = 0, tp_queueErrorReported = False, tp_eventQueue = [],
        tp_toSendEventQueue = [], tp_audioFile = None, tp_shouldStop = False,
        tp_readyForBatch = False, tp_orkUid = [], tp_tags = [], tp_bytesWritten = 0,
        tp_lastLogWarning = 0, tp_passedPartyFilter = False\<rparr>"

definition Tape_AddAudioChunk :: "tape_config \<Rightarrow> AudioChunk \<Rightarrow> 'f AudioTape \<Rightarrow> 'f AudioTape" where
  "Tape_AddAudioChunk cfg c t =
     (if tp_state t = StateCreated \<or> tp_state t = StateActive then
        (if tp_queueDataSize t \<ge> word_of_int (cfg_captureFileBatchSizeKByte cfg * 3 * 1024)
         then t\<lparr>tp_queueErrorReported := True, tp_rejectedCount := tp_rejectedCount t + 1\<rparr>
         else
           let q = tp_chunkQueue t @ [c]
           in t\<lparr>tp_chunkQueue := q,
                tp_queueDataSize := tp_queueDataSize t + word_of_int (GetNumBytes c),
                tp_pushCount := tp_pushCount t + 1,
                tp_highMark := (if int (length q) > tp_highMark t then int (length q)
                                else tp_highMark t)\<rparr>)
      else t)"

text \<open>Whether a chunk is taken into the queue.\<close>

definition accepts :: "tape_config \<Rightarrow> 'f AudioTape \<Rightarrow> bool" where
  "accepts cfg t \<longleftrightarrow> (tp_state t = StateCreated \<or> tp_state t = StateActive) \<and>
     \<not> tp_queueDataSize t \<ge> word_of_int (cfg_captureFileBatchSizeKByte cfg * 3 * 1024)"

text \<open>The removal of the oldest chunk, as both loops of \<open>Write\<close> do it.\<close>

definition pop_chunk :: "AudioChunk \<Rightarrow> AudioChunk list \<Rightarrow> 'f AudioTape \<Rightarrow> 'f AudioTape" where
  "pop_chunk c q t = t\<lparr>tp_chunkQueue := q, tp_popCount := tp_popCount t + 1,
     tp_queueDataSize := tp_queueDataSize t - word_of_int (GetNumBytes c)\<rparr>"

fun discard_loop :: "AudioChunk list \<Rightarrow> 'f AudioTape \<Rightarrow> 'f AudioTape" where
  "discard_loop [] t = t"
| "discard_loop (c # q) t = discard_loop q (pop_chunk c q t)"

text \<open>
  The body of the \<open>try\<close> block: opening the capture file for the first chunk, then writing. An
  exception only counts (\<open>count_error\<close>).
\<close>

definition count_error :: "'f AudioTape \<Rightarrow> 'f AudioTape" where
  "count_error t = t\<lparr>tp_numErrors := tp_numErrors t + 1\<rparr>"

definition open_capture_file ::
    "tape_config \<Rightarrow> 'f file_ops \<Rightarrow> string list \<Rightarrow> AudioChunk \<Rightarrow> 'f AudioTape \<Rightarrow> 'f AudioTape \<times> bool" where
  "open_capture_file cfg ops files c t =
     (let f = (if GetEncoding c = PcmAudio then fo_new_pcm ops else fo_new_mcf ops);
          t1 = t\<lparr>tp_state := StateActive, tp_audioFile := Some f\<rparr>;
          file = cfg_audioOutputPathMcf cfg @ ''/'' @ tp_filePath t1 @ tp_fileIdentifier t1;
          t2 = PreventFileIdentifierCollision files
                 (cfg_audioOutputPath cfg @ ''/'' @ tp_filePath t1) (fo_extension ops f) t1;
          (f', thrown) = fo_open ops file (GetSampleRate c) f;
          t3 = t2\<lparr>tp_audioFile := Some f'\<rparr>
      in if thrown then (t3, True)
         else if cfg_storageAudioFormat cfg = FfNative
         then (t3\<lparr>tp_fileExtension := fo_extension ops f'\<rparr>, False)
         else (case FileFormatGetExtension (cfg_storageAudioFormat cfg) of
             Done e \<Rightarrow> (t3\<lparr>tp_fileExtension := e\<rparr>, False) | _ \<Rightarrow> (t3, True)))"

definition append_chunk ::
    "tape_config \<Rightarrow> 'f file_ops \<Rightarrow> int \<Rightarrow> AudioChunk \<Rightarrow> 'f AudioTape \<Rightarrow> 'f AudioTape outcome" where
  "append_chunk cfg ops now c t =
     (if tp_bytesWritten t div 1024 > cfg_captureFileSizeLimitKb cfg then
        Done (if now - tp_lastLogWarning t > 3600 then t\<lparr>tp_lastLogWarning := now\<rparr> else t)
      else case tp_audioFile t of
          None \<Rightarrow> Undefined
        | Some f \<Rightarrow>
            let (f', thrown) = fo_write ops c f; t1 = t\<lparr>tp_audioFile := Some f'\<rparr>
            in Done (if thrown then count_error t1
                     else t1\<lparr>tp_bytesWritten := tp_bytesWritten t1 + GetNumBytes c\<rparr>))"

definition write_one ::
    "tape_config \<Rightarrow> 'f file_ops \<Rightarrow> string list \<Rightarrow> int \<Rightarrow> AudioChunk \<Rightarrow> 'f AudioTape
      \<Rightarrow> 'f AudioTape outcome" where
  "write_one cfg ops files now c t =
     (let (t1, thrown) =
        (if tp_state t = StateCreated then open_capture_file cfg ops files c t else (t, False))
      in if thrown then Done (count_error t1)
         else if tp_state t1 = StateActive then append_chunk cfg ops now c t1 else Done t1)"

fun write_loop ::
    "tape_config \<Rightarrow> 'f file_ops \<Rightarrow> string list \<Rightarrow> int \<Rightarrow> AudioChunk list \<Rightarrow> 'f AudioTape
      \<Rightarrow> 'f AudioTape outcome" where
  "write_loop cfg ops files now [] t = Done t"
| "write_loop cfg ops files now (c # q) t =
     (if tp_state t = StateStopped \<or> tp_state t = StateError then Done t
      else case write_one cfg ops files now c (pop_chunk c q t) of
          Done t1 \<Rightarrow> write_loop cfg ops files now q t1
        | r \<Rightarrow> r)"

text \<open>The end of \<open>Write\<close>: a tape that should stop is closed.\<close>

definition stop_if_asked :: "'f file_ops \<Rightarrow> 'f AudioTape \<Rightarrow> 'f AudioTape" where
  "stop_if_asked ops t =
     (if (tp_shouldStop t \<and> tp_state t \<noteq> StateStopped) \<or> tp_state t = StateError then
        (let t2 = t\<lparr>tp_state := StateStopped\<rparr>
         in case tp_audioFile t2 of
             None \<Rightarrow> t2
           | Some f \<Rightarrow>
               let t3 = t2\<lparr>tp_audioFile := Some (fo_close ops f)\<rparr>
               in if tp_bytesWritten t3 > 0 then t3\<lparr>tp_readyForBatch := True\<rparr> else t3)
      else t)"

definition Write ::
    "tape_config \<Rightarrow> 'f file_ops \<Rightarrow> string list \<Rightarrow> int \<Rightarrow> 'f AudioTape \<Rightarrow> 'f AudioTape outcome" where
  "Write cfg ops files now t =
     (if \<not> tp_passedPartyFilter t \<and> PartyFilterActive cfg then
        (let t1 = (if tp_state t = StateCreated then t\<lparr>tp_state := StateActive\<rparr> else t)
         in Done (discard_loop (tp_chunkQueue t1) t1))
      else case write_loop cfg ops files now (tp_chunkQueue t) t of
          Done t1 \<Rightarrow> Done (stop_if_asked ops t1)
        | r \<Rightarrow> r)"

definition SetShouldStop :: "'f AudioTape \<Rightarrow> 'f AudioTape" where
  "SetShouldStop t = t\<lparr>tp_shouldStop := True\<rparr>"

definition IsStoppedAndValid :: "'f AudioTape \<Rightarrow> bool" where
  "IsStoppedAndValid t \<longleftrightarrow> tp_state t = StateStopped"

definition IsReadyForBatchProcessing :: "'f AudioTape \<Rightarrow> bool \<times> 'f AudioTape" where
  "IsReadyForBatchProcessing t =
     (if tp_readyForBatch t then (True, t\<lparr>tp_readyForBatch := False\<rparr>) else (False, t))"

section \<open>Capture events and messages\<close>

definition cut_remote_party :: "tape_config \<Rightarrow> 'f AudioTape \<Rightarrow> 'f AudioTape" where
  "cut_remote_party cfg t =
     (let n = cfg_remotePartyMaxDigits cfg; r = tp_remoteParty t
      in if n > 0 \<and> int (length r) > n \<and> \<not> ci_eq r (tp_remoteIp t)
         then t\<lparr>tp_remoteParty := drop (length r - nat n) r\<rparr> else t)"

text \<open>The last mark of a kept direction ends where the new one begins.\<close>

definition add_mark :: "int \<Rightarrow> AudioKeepDirectionEnum \<Rightarrow> AudioDirectionMarks list \<Rightarrow> AudioDirectionMarks list" where
  "add_mark now k ms =
     (if ms = [] then [] else butlast ms @ [(last ms)\<lparr>adm_nextTimestampMark := now\<rparr>])
     @ [\<lparr>adm_timestamp = now, adm_nextTimestampMark = 0, adm_keep = k\<rparr>]"

definition test_party :: "tape_config \<Rightarrow> string \<Rightarrow> bool \<Rightarrow> bool" where
  "test_party cfg party passed =
     (if \<not> passed \<and> PartyFilterActive cfg then PartyFilterMatches cfg party else passed)"

definition on_key_value :: "string \<Rightarrow> string \<Rightarrow> 'f AudioTape \<Rightarrow> 'f AudioTape" where
  "on_key_value key v t =
     (if ci_eq key ''ondemand'' then
        (if ci_eq v ''true'' then t\<lparr>tp_onDemand := True\<rparr>
         else if ci_eq v ''false'' then t\<lparr>tp_onDemand := False\<rparr> else t)
      else if ci_eq key ''Keep'' then t\<lparr>tp_keep := ci_eq v ''1''\<rparr>
      else t)"

definition apply_event ::
    "tape_config \<Rightarrow> (int \<Rightarrow> exp_time) \<Rightarrow> int \<Rightarrow> CaptureEvent \<Rightarrow> 'f AudioTape \<Rightarrow> 'f AudioTape outcome" where
  "apply_event cfg lt now e t =
     (case ev_type e of
        EtStart \<Rightarrow>
          (let t1 = t\<lparr>tp_trackingId := ev_value e\<rparr>
           in Done (if tp_state t1 = StateCreated
                    then GenerateCaptureFilePathAndIdentifier lt (t1\<lparr>tp_beginDate := ev_timestamp e\<rparr>)
                    else t1))
      | EtStop \<Rightarrow>
          Done (cut_remote_party cfg
            (t\<lparr>tp_shouldStop := True, tp_duration := ev_timestamp e - tp_beginDate t\<rparr>))
      | EtLocalSide \<Rightarrow> Done (t\<lparr>tp_localSide := LocalSideToEnum (ev_value e)\<rparr>)
      | EtAudioKeepDirection \<Rightarrow>
          (let k = AudioKeepDirectionToEnum (ev_value e)
           in Done (t\<lparr>tp_keepDirection := k, tp_marks := add_mark now k (tp_marks t)\<rparr>))
      | EtDirection \<Rightarrow> Done (t\<lparr>tp_direction := DirectionToEnum (ev_value e)\<rparr>)
      | EtRemoteParty \<Rightarrow>
          (let t1 = t\<lparr>tp_passedPartyFilter :=
                        test_party cfg (ev_value e) (tp_passedPartyFilter t)\<rparr>
           in case map_party (cfg_partyFilterMap cfg) (ev_value e) of
                Some p \<Rightarrow> Done (t1\<lparr>tp_remoteParty := p\<rparr>) | None \<Rightarrow> Undefined)
      | EtLocalParty \<Rightarrow>
          (let t1 = t\<lparr>tp_passedPartyFilter :=
                        test_party cfg (ev_value e) (tp_passedPartyFilter t)\<rparr>
           in case map_party (cfg_partyFilterMap cfg) (ev_value e) of
                Some p \<Rightarrow> Done (t1\<lparr>tp_localParty := p\<rparr>) | None \<Rightarrow> Undefined)
      | EtLocalEntryPoint \<Rightarrow> Done (t\<lparr>tp_localEntryPoint := ev_value e\<rparr>)
      | EtLocalIp \<Rightarrow> Done (t\<lparr>tp_localIp := ev_value e\<rparr>)
      | EtRemoteIp \<Rightarrow> Done (t\<lparr>tp_remoteIp := ev_value e\<rparr>)
      | EtOrkUid \<Rightarrow>
          (let t1 = t\<lparr>tp_orkUid := ev_value e\<rparr>
           in Done (if tp_state t1 = StateCreated then t1\<lparr>tp_fileIdentifier := tp_orkUid t1\<rparr> else t1))
      | EtCallId \<Rightarrow> Done (t\<lparr>tp_nativeCallId := ev_value e\<rparr>)
      | EtKeyValue \<Rightarrow> Done (on_key_value (ev_key e) (ev_value e) t)
      | _ \<Rightarrow> Done t)"

text \<open>Assignment to an entry of a \<open>std::map\<close> that exists.\<close>

definition smap_update :: "'k \<Rightarrow> 'v \<Rightarrow> ('k \<times> 'v) list \<Rightarrow> ('k \<times> 'v) list" where
  "smap_update k v m = map (\<lambda>(k', v'). (k', if k' = k then v else v')) m"

definition store_tag ::
    "tape_config \<Rightarrow> string \<Rightarrow> string \<Rightarrow> (string \<times> string) list \<Rightarrow> (string \<times> string) list" where
  "store_tag cfg key v tags =
     (if \<not> cfg_dtmfReportingDetailed cfg \<and> ci_eq key ''dtmfdigit'' then tags
      else if list_ex (ci_eq key) (cfg_dynamicTags cfg) then tags
      else if map_of tags key = None then smap_insert key v tags
      else if key \<in> set (cfg_tagsListUseInitialValue cfg) then tags
      else smap_update key v tags)"

text \<open>The loop that maps a party need not end; a loop without any effect is undefined in C++.\<close>

definition Tape_AddCaptureEvent ::
    "tape_config \<Rightarrow> (int \<Rightarrow> exp_time) \<Rightarrow> int \<Rightarrow> CaptureEvent \<Rightarrow> bool \<Rightarrow> 'f AudioTape
      \<Rightarrow> 'f AudioTape outcome" where
  "Tape_AddCaptureEvent cfg lt now e send t =
     (case apply_event cfg lt now e t of
        Done t1 \<Rightarrow>
          let t2 = t1\<lparr>tp_eventQueue := tp_eventQueue t1 @ [e]\<rparr>;
              t3 = (if send then t2\<lparr>tp_toSendEventQueue := tp_toSendEventQueue t2 @ [e]\<rparr> else t2)
          in Done (if ev_type e = EtKeyValue \<and> ev_value e \<noteq> [] \<and> ev_key e \<noteq> []
                   then t3\<lparr>tp_tags := store_tag cfg (ev_key e) (ev_value e) (tp_tags t3)\<rparr> else t3)
      | r \<Rightarrow> r)"

definition forced_outgoing :: "tape_config \<Rightarrow> string \<Rightarrow> bool" where
  "forced_outgoing cfg party \<longleftrightarrow>
     0 \<le> cfg_directionForceMinLength cfg \<and>
     int (length party) \<ge> cfg_directionForceMinLength cfg \<and>
     starts_with (c_str (cfg_directionForcePrefix cfg)) party"

definition PopulateTapeMessage ::
    "tape_config \<Rightarrow> EventTypeEnum \<Rightarrow> 'f AudioTape \<Rightarrow> TapeMsg \<Rightarrow> TapeMsg" where
  "PopulateTapeMessage cfg et t m =
     (if \<not> tp_passedPartyFilter t \<and> PartyFilterActive cfg then m
      else
        let m1 = m\<lparr>tm_recId := tp_orkUid t, tm_fileName := GetFilename t,
                   tm_stage := EventTypeToString et, tm_capturePort := tp_portId t,
                   tm_localParty := tp_localParty t, tm_localEntryPoint := tp_localEntryPoint t,
                   tm_remoteParty := tp_remoteParty t,
                   tm_direction := DirectionToString (tp_direction t)\<rparr>;
            m2 = (if cfg_directionForcePrefix cfg = [] then m1
                  else if forced_outgoing cfg (tp_localParty t)
                  then m1\<lparr>tm_direction := ''out'', tm_remoteParty := tp_localParty t,
                          tm_localParty := tp_remoteParty t\<rparr>
                  else if forced_outgoing cfg (tp_remoteParty t) then m1\<lparr>tm_direction := ''out''\<rparr>
                  else m1)
        in m2\<lparr>tm_audioKeepDirection := AudioKeepDirectionToString (tp_keepDirection t),
              tm_duration := to_int32 (tp_duration t), tm_timestamp := tp_beginDate t,
              tm_localIp := tp_localIp t, tm_remoteIp := tp_remoteIp t,
              tm_nativeCallId := tp_nativeCallId t, tm_onDemand := tp_onDemand t,
              tm_tags := fold (\<lambda>(k, v). smap_insert k v) (tp_tags t) (tm_tags m2)\<rparr>)"

text \<open>
  \<open>GetMessage\<close> takes one event off the queue of events to send and reports it; \<open>None\<close> is a message
  reference left NULL.
\<close>

definition reports_stage :: "EventTypeEnum \<Rightarrow> bool" where
  "reports_stage et \<longleftrightarrow> et \<in> {EtStop, EtStart, EtUpdate, EtHold, EtResume}"

definition GetMessage ::
    "tape_config \<Rightarrow> bool \<Rightarrow> 'f AudioTape \<Rightarrow> TapeMsg option \<times> 'f AudioTape" where
  "GetMessage cfg u t =
     (if \<not> tp_passedPartyFilter t \<and> PartyFilterActive cfg then (None, t)
      else case tp_toSendEventQueue t of
          [] \<Rightarrow>
            (Some (if tp_fromProcessMcf t \<or> tp_isExternal t \<or> tp_bytesWritten t > 0
                   then PopulateTapeMessage cfg EtReady t (TapeMsg_new cfg u) else TapeMsg_new cfg u), t)
        | e # q \<Rightarrow>
            let t1 = t\<lparr>tp_toSendEventQueue := q\<rparr>
            in (Some (if reports_stage (ev_type e)
                      then PopulateTapeMessage cfg (ev_type e) t1 (TapeMsg_new cfg u)
                      else TapeMsg_new cfg u), t1))"

definition GetDetails :: "tape_config \<Rightarrow> 'f AudioTape \<Rightarrow> TapeMsg \<Rightarrow> TapeMsg" where
  "GetDetails cfg t m = PopulateTapeMessage cfg EtStop t m"

definition PopulateTag :: "string \<Rightarrow> string \<Rightarrow> 'f AudioTape \<Rightarrow> 'f AudioTape" where
  "PopulateTag key v t = t\<lparr>tp_tags := smap_insert key v (tp_tags t)\<rparr>"

section \<open>The final name of a recording\<close>

definition or_else :: "string \<Rightarrow> string \<Rightarrow> string" where
  "or_else s d = (if s \<noteq> [] then s else d)"

text \<open>What one element of a naming scheme adds; an empty element makes \<open>substr\<close> throw.\<close>

definition naming_piece :: "string \<Rightarrow> 'f AudioTape \<Rightarrow> string \<Rightarrow> string outcome" where
  "naming_piece hostname t element =
     (case TapeAttributeToEnum element of
        TaNativeCallId \<Rightarrow> Done (or_else (tp_nativeCallId t) ''nonativecallid'')
      | TaTrackingId \<Rightarrow> Done (or_else (tp_trackingId t) ''notrackingid'')
      | TaDirection \<Rightarrow> Done (DirectionToString (tp_direction t))
      | TaShortDirection \<Rightarrow> Done (DirectionToShortString (tp_direction t))
      | TaRemoteParty \<Rightarrow> Done (or_else (tp_remoteParty t) ''noremoteparty'')
      | TaLocalParty \<Rightarrow> Done (or_else (tp_localParty t) ''nolocalparty'')
      | TaLocalEntryPoint \<Rightarrow> Done (or_else (tp_localEntryPoint t) ''nolocalentrypoint'')
      | TaLocalIp \<Rightarrow> Done (or_else (tp_localIp t) ''nolocalip'')
      | TaRemoteIp \<Rightarrow> Done (or_else (tp_remoteIp t) ''noremoteip'')
      | TaHostname \<Rightarrow> Done (or_else hostname ''nohostname'')
      | TaYear \<Rightarrow> Done (pad_dec 4 (tm_year (tp_time t) + 1900))
      | TaDay \<Rightarrow> Done (pad_dec 2 (tm_mday (tp_time t)))
      | TaMonth \<Rightarrow> Done (pad_dec 2 (tm_mon (tp_time t) + 1))
      | TaHour \<Rightarrow> Done (pad_dec 2 (tm_hour (tp_time t)))
      | TaMin \<Rightarrow> Done (pad_dec 2 (tm_min (tp_time t)))
      | TaSec \<Rightarrow> Done (pad_dec 2 (tm_sec (tp_time t)))
      | TaUnknown \<Rightarrow>
          if element = [] then Thrown
          else (case map_of (tp_tags t) (take (length element - 2) (drop 1 element)) of
              Some v \<Rightarrow> Done v | None \<Rightarrow> Done element))"

fun naming_loop :: "string \<Rightarrow> 'f AudioTape \<Rightarrow> string list \<Rightarrow> string outcome" where
  "naming_loop hostname t [] = Done []"
| "naming_loop hostname t (e # es) =
     (case naming_piece hostname t e of
        Done p \<Rightarrow> (case naming_loop hostname t es of Done r \<Rightarrow> Done (p @ r) | r \<Rightarrow> r)
      | r \<Rightarrow> r)"

text \<open>The directories of the new path are made with \<open>FileRecursiveMkdir\<close>, not repeated here.\<close>

definition GenerateFinalFilePath ::
    "tape_config \<Rightarrow> string \<Rightarrow> 'f AudioTape \<Rightarrow> 'f AudioTape outcome" where
  "GenerateFinalFilePath cfg hostname t =
     (if cfg_tapePathNaming cfg = [] then Done t
      else case naming_loop hostname t (cfg_tapePathNaming cfg) of
          Done p \<Rightarrow> Done (if p \<noteq> [] then t\<lparr>tp_filePath := p\<rparr> else t)
        | Thrown \<Rightarrow> Thrown | Undefined \<Rightarrow> Undefined)"

definition final_identifier ::
    "tape_config \<Rightarrow> string \<Rightarrow> 'f AudioTape \<Rightarrow> 'f AudioTape outcome" where
  "final_identifier cfg hostname t =
     (if cfg_tapeFileNaming cfg = [] then Done t
      else case naming_loop hostname t (cfg_tapeFileNaming cfg) of
          Done p \<Rightarrow> Done (if p \<noteq> [] then t\<lparr>tp_fileIdentifier := FileEscapeName p\<rparr> else t)
        | Thrown \<Rightarrow> Thrown | Undefined \<Rightarrow> Undefined)"

text \<open>The host name in a path may be the fully qualified one (\<open>hostpath\<close>), in a file name never.\<close>

definition GenerateFinalFilePathAndIdentifier ::
    "tape_config \<Rightarrow> string list \<Rightarrow> string \<Rightarrow> string \<Rightarrow> 'f AudioTape \<Rightarrow> 'f AudioTape outcome" where
  "GenerateFinalFilePathAndIdentifier cfg files hostname hostpath t =
     (case final_identifier cfg hostname t of
        Done t1 \<Rightarrow>
          (case (if cfg_tapePathNaming cfg \<noteq> [] then GenerateFinalFilePath cfg hostpath t1 else Done t1) of
             Done t2 \<Rightarrow>
               Done (if cfg_tapePathNaming cfg \<noteq> [] \<or> cfg_tapeFileNaming cfg \<noteq> []
                     then PreventFileIdentifierCollision files
                       (cfg_audioOutputPath cfg @ ''/'' @ tp_filePath t2 @ ''/'') (tp_fileExtension t2) t2
                     else t2)
           | r \<Rightarrow> r)
      | r \<Rightarrow> r)"

section \<open>The mapping of party characters\<close>

lemma find_char_split:
  assumes "find_char a s = Some i"
  obtains u v where "s = u @ a # v" "a \<notin> set u" "i = length u"
proof
  from find_char_Some [OF assms] show "s = take i s @ a # drop (Suc i) s" "a \<notin> set (take i s)"
    "i = length (take i s)"
    by (auto simp: id_take_nth_drop [symmetric])
qed

lemma replace_char_result:
  assumes "a \<noteq> b \<or> b = CHR ''?''"
  shows "replace_char a b s = Some (if b = CHR ''?'' then filter (\<lambda>c. c \<noteq> a) s
    else map (\<lambda>c. if c = a then b else c) s)"
proof (induction "length (filter ((=) a) s)" arbitrary: s rule: less_induct)
  case less
  show ?case
  proof (cases "find_char a s")
    case None
    then have "a \<notin> set s" by simp
    then have "filter (\<lambda>c. c \<noteq> a) s = s" "map (\<lambda>c. if c = a then b else c) s = s"
      by (auto intro: map_idI simp: filter_id_conv)
    then show ?thesis unfolding replace_char.simps [of a b s] None by simp
  next
    case (Some i)
    then obtain u v where s: "s = u @ a # v" "a \<notin> set u" "i = length u" by (rule find_char_split)
    have u: "filter (\<lambda>c. c \<noteq> a) u = u" "map (\<lambda>c. if c = a then b else c) u = u"
      using s(2) by (auto intro!: map_idI simp: filter_id_conv)
    show ?thesis
    proof (cases "b = CHR ''?''")
      case True
      have "replace_char a b s = replace_char a b (u @ v)"
        unfolding replace_char.simps [of a b s] Some using s True by simp
      with less [of "u @ v"] s True u show ?thesis by simp
    next
      case False
      have "replace_char a b s = replace_char a b (u @ b # v)"
        unfolding replace_char.simps [of a b s] Some using s False by simp
      with less [of "u @ b # v"] s False u assms show ?thesis by simp
    qed
  qed
qed

lemmas replace_char_induct = replace_char.raw_induct [rotated, consumes 1, case_names step]

lemma replace_char_returns:
  "replace_char a b s = Some y \<Longrightarrow> \<not> (a = b \<and> a \<noteq> CHR ''?'' \<and> a \<in> set s)"
proof (induction a b s y rule: replace_char_induct)
  case (step rc a b s y)
  show ?case
  proof
    assume *: "a = b \<and> a \<noteq> CHR ''?'' \<and> a \<in> set s"
    then obtain i where i: "find_char a s = Some i" by (metis find_char_None option.exhaust)
    then have "s[i := b] = s" using find_char_Some [OF i] * list_update_id [of s i] by simp
    moreover from * have "b \<noteq> CHR ''?''" by blast
    ultimately have "rc a b s = Some y" using step(2) i by simp
    with step(1) * show False by blast
  qed
qed

lemma replace_char_loops: "a \<noteq> CHR ''?'' \<Longrightarrow> a \<in> set s \<Longrightarrow> replace_char a a s = None"
  using replace_char_returns [of a a s] by (cases "replace_char a a s") auto

text \<open>
  What becomes of a character: the pairs of the map are applied in turn; \<open>None\<close> is a removed character.
\<close>

fun fate :: "(char \<times> char) list \<Rightarrow> char \<Rightarrow> char option" where
  "fate [] c = Some c"
| "fate ((a, b) # m) c =
     (if c = a \<and> b = CHR ''?'' then None else fate m (if c = a then b else c))"

text \<open>The party holds a character that is mapped to itself, when the turn of that pair comes.\<close>

fun stuck :: "(char \<times> char) list \<Rightarrow> string \<Rightarrow> bool" where
  "stuck [] s \<longleftrightarrow> False"
| "stuck ((a, b) # m) s \<longleftrightarrow> a = b \<and> b \<noteq> CHR ''?'' \<and> a \<in> set s \<or> stuck m (List.map_filter (fate [(a, b)]) s)"

lemma fate_one:
  "List.map_filter (fate [(a, b)]) s =
    (if b = CHR ''?'' then filter (\<lambda>c. c \<noteq> a) s else map (\<lambda>c. if c = a then b else c) s)"
  by (induction s) (auto simp: List.map_filter_simps)

lemma fate_Cons: "List.map_filter (fate ((a, b) # m)) s = List.map_filter (fate m) (List.map_filter (fate [(a, b)]) s)"
  by (induction s) (auto simp: List.map_filter_simps split: option.split)

lemma replace_char_fate:
  "replace_char a b s =
    (if a = b \<and> b \<noteq> CHR ''?'' \<and> a \<in> set s then None else Some (List.map_filter (fate [(a, b)]) s))"
proof (cases "a \<noteq> b \<or> b = CHR ''?''")
  case True
  then show ?thesis unfolding replace_char_result [OF True] fate_one by auto
next
  case False
  have "a \<notin> set s \<Longrightarrow> replace_char a b s = Some s"
    unfolding replace_char.simps [of a b s] by (simp flip: find_char_None)
  moreover have "map (\<lambda>c. if c = a then a else c) s = s" by (rule map_idI) simp
  ultimately show ?thesis using False by (auto simp: replace_char_loops fate_one)
qed

text \<open>
  C35. The mapping of a party, for any character map and any party. Every character goes through the pairs of
  the map in order, each replaces it or, for a question mark, removes it, and nothing else changes. The
  loops do not end exactly when a pair maps a character, other than the question mark, to itself and the
  party, as the pairs before have left it, contains that character.
\<close>

theorem party_mapping:
  "map_party m s = (if stuck m s then None else Some (List.map_filter (fate m) s))"
proof (induction m arbitrary: s)
  case Nil
  show ?case by (induction s) (simp_all add: List.map_filter_simps)
next
  case (Cons x m)
  obtain a b where x: "x = (a, b)" by force
  show ?case unfolding x map_party.simps replace_char_fate stuck.simps fate_Cons [of a b m]
    by (auto simp: Cons.IH)
qed

theorem party_mapping_witness:
  "map_party [(CHR ''+'', CHR ''0''), (CHR ''-'', CHR ''?'')] ''+1-+2'' = Some ''0102'' \<and>
    map_party [(CHR ''-'', CHR ''+''), (CHR ''+'', CHR ''+'')] ''1-2'' = None \<and>
    map_party [(CHR ''+'', CHR ''+'')] ''1-2'' = Some ''1-2''"
  by (simp only: party_mapping) (simp add: List.map_filter_simps)

end
