(* ===== verification/OrkTapeRuns.thy ===== *)
theory OrkTapeRuns
  imports OrkTape OrkMcf
begin

text \<open>
  What a tape does over its life: any sequence of chunks, events, writes and polls. The contract
  between a tape and its capture file is the locale \<open>audio_store\<close> (what a successful \<open>Open\<close>,
  \<open>WriteChunk\<close> and \<open>Close\<close> promise); it is interpreted with the media chunk file of OrkMcf, so that
  the properties of the tape hold of the file it really writes.
\<close>

section \<open>The contract of a capture file\<close>

text \<open>
  \<open>fits n f\<close>: the file is open for writing and \<open>n\<close> more bytes find room; \<open>stored f\<close>: the bytes
  written or queued for writing; \<open>on_disk f\<close>: those written; \<open>enc c\<close>: the bytes of one chunk.
\<close>

locale audio_store =
  fixes ops :: "'f file_ops" and room :: nat and fits :: "nat \<Rightarrow> 'f \<Rightarrow> bool"
    and stored :: "'f \<Rightarrow> u8 list" and on_disk :: "'f \<Rightarrow> u8 list" and enc :: "AudioChunk \<Rightarrow> u8 list"
    and valid :: "AudioChunk \<Rightarrow> bool"
  assumes valid_chunk: "valid c \<Longrightarrow> GetEncoding c \<noteq> PcmAudio \<and> 0 \<le> GetNumBytes c"
    and open_ok: "\<exists>f. fo_open ops name rate (fo_new_mcf ops) = (f, False) \<and> fits room f \<and> stored f = []"
    and write_ok: "fits (length (enc c) + n) f \<Longrightarrow> valid c \<Longrightarrow>
      \<exists>f'. fo_write ops c f = (f', False) \<and> fits n f' \<and> stored f' = stored f @ enc c"
    and close_ok: "fits n f \<Longrightarrow> on_disk (fo_close ops f) = stored f"
    and fits_less: "fits n f \<Longrightarrow> m \<le> n \<Longrightarrow> fits m f"

definition chunk_sizes :: "AudioChunk list \<Rightarrow> int" where
  "chunk_sizes cs = sum_list (map GetNumBytes cs)"

lemma chunk_sizes_simps [simp]:
  "chunk_sizes [] = 0" "chunk_sizes (c # cs) = GetNumBytes c + chunk_sizes cs"
  "chunk_sizes (cs @ ds) = chunk_sizes cs + chunk_sizes ds"
  by (simp_all add: chunk_sizes_def)

text \<open>A configuration without party filter, whose storage format has a file extension.\<close>

definition plain_config :: "tape_config \<Rightarrow> bool" where
  "plain_config cfg \<longleftrightarrow> \<not> PartyFilterActive cfg \<and>
     cfg_storageAudioFormat cfg \<notin> {FfUnknown, FfInvalid}"

lemma extension_known:
  "plain_config cfg \<Longrightarrow> cfg_storageAudioFormat cfg \<noteq> FfNative \<Longrightarrow>
    \<exists>e. FileFormatGetExtension (cfg_storageAudioFormat cfg) = Done e"
  by (cases "cfg_storageAudioFormat cfg") (auto simp: plain_config_def FileFormatGetExtension_def)

section \<open>The life of a tape\<close>

datatype tape_op = AddChunk AudioChunk | DoWrite int | DoEvent int CaptureEvent bool | AskStop
  | TakeReady | TakeMessage bool

definition tape_do ::
    "tape_config \<Rightarrow> 'f file_ops \<Rightarrow> (int \<Rightarrow> exp_time) \<Rightarrow> string list \<Rightarrow> tape_op \<Rightarrow> 'f AudioTape
      \<Rightarrow> 'f AudioTape outcome" where
  "tape_do cfg ops lt files x t = (case x of
       AddChunk c \<Rightarrow> Done (Tape_AddAudioChunk cfg c t)
     | DoWrite now \<Rightarrow> Write cfg ops files now t
     | DoEvent now e send \<Rightarrow> Tape_AddCaptureEvent cfg lt now e send t
     | AskStop \<Rightarrow> Done (SetShouldStop t)
     | TakeReady \<Rightarrow> Done (snd (IsReadyForBatchProcessing t))
     | TakeMessage u \<Rightarrow> Done (snd (GetMessage cfg u t)))"

text \<open>A run collects the chunks the tape accepted and the answers of \<open>IsReadyForBatchProcessing\<close>.\<close>

fun tape_run ::
    "tape_config \<Rightarrow> 'f file_ops \<Rightarrow> (int \<Rightarrow> exp_time) \<Rightarrow> string list \<Rightarrow> tape_op list \<Rightarrow>
      'f AudioTape \<times> AudioChunk list \<times> bool list \<Rightarrow>
      ('f AudioTape \<times> AudioChunk list \<times> bool list) outcome" where
  "tape_run cfg ops lt files [] s = Done s"
| "tape_run cfg ops lt files (x # xs) (t, acc, rdy) =
     (case tape_do cfg ops lt files x t of
        Done t' \<Rightarrow> tape_run cfg ops lt files xs
          (t', (case x of AddChunk c \<Rightarrow> if accepts cfg t then acc @ [c] else acc | _ \<Rightarrow> acc),
           (case x of TakeReady \<Rightarrow> rdy @ [fst (IsReadyForBatchProcessing t)] | _ \<Rightarrow> rdy))
      | Thrown \<Rightarrow> Thrown | Undefined \<Rightarrow> Undefined)"

section \<open>Fields the operations leave alone\<close>

text \<open>The part of a tape that recording is about.\<close>

definition rec_part :: "'f AudioTape \<Rightarrow> StateEnum \<times> AudioChunk list \<times> u32 \<times> 'f option \<times> int \<times> bool" where
  "rec_part t = (tp_state t, tp_chunkQueue t, tp_queueDataSize t, tp_audioFile t, tp_bytesWritten t,
     tp_readyForBatch t)"

lemma rec_part_update [simp]:
  "rec_part (t\<lparr>tp_trackingId := x_trackingId\<rparr>) = rec_part t"
  "rec_part (t\<lparr>tp_beginDate := x_beginDate\<rparr>) = rec_part t"
  "rec_part (t\<lparr>tp_localSide := x_localSide\<rparr>) = rec_part t"
  "rec_part (t\<lparr>tp_keepDirection := x_keepDirection\<rparr>) = rec_part t"
  "rec_part (t\<lparr>tp_marks := x_marks\<rparr>) = rec_part t"
  "rec_part (t\<lparr>tp_direction := x_direction\<rparr>) = rec_part t"
  "rec_part (t\<lparr>tp_passedPartyFilter := x_passedPartyFilter\<rparr>) = rec_part t"
  "rec_part (t\<lparr>tp_remoteParty := x_remoteParty\<rparr>) = rec_part t"
  "rec_part (t\<lparr>tp_localParty := x_localParty\<rparr>) = rec_part t"
  "rec_part (t\<lparr>tp_localEntryPoint := x_localEntryPoint\<rparr>) = rec_part t"
  "rec_part (t\<lparr>tp_localIp := x_localIp\<rparr>) = rec_part t"
  "rec_part (t\<lparr>tp_remoteIp := x_remoteIp\<rparr>) = rec_part t"
  "rec_part (t\<lparr>tp_orkUid := x_orkUid\<rparr>) = rec_part t"
  "rec_part (t\<lparr>tp_fileIdentifier := x_fileIdentifier\<rparr>) = rec_part t"
  "rec_part (t\<lparr>tp_nativeCallId := x_nativeCallId\<rparr>) = rec_part t"
  "rec_part (t\<lparr>tp_eventQueue := x_eventQueue\<rparr>) = rec_part t"
  "rec_part (t\<lparr>tp_toSendEventQueue := x_toSendEventQueue\<rparr>) = rec_part t"
  "rec_part (t\<lparr>tp_tags := x_tags\<rparr>) = rec_part t"
  "rec_part (t\<lparr>tp_shouldStop := x_shouldStop\<rparr>) = rec_part t"
  "rec_part (t\<lparr>tp_duration := x_duration\<rparr>) = rec_part t"
  "rec_part (t\<lparr>tp_onDemand := x_onDemand\<rparr>) = rec_part t"
  "rec_part (t\<lparr>tp_keep := x_keep\<rparr>) = rec_part t"
  by (simp_all add: rec_part_def)

lemma rec_part_simps [simp]:
  "rec_part (SetShouldStop t) = rec_part t"
  "rec_part (GenerateCaptureFilePathAndIdentifier lt t) = rec_part t"
  "rec_part (cut_remote_party cfg t) = rec_part t"
  "rec_part (on_key_value k v t) = rec_part t"
  "rec_part (count_error t) = rec_part t"
  "rec_part (PreventFileIdentifierCollision files p e t) = rec_part t"
  by (simp_all add: rec_part_def SetShouldStop_def GenerateCaptureFilePathAndIdentifier_def Let_def
      cut_remote_party_def on_key_value_def count_error_def PreventFileIdentifierCollision_def)

lemma apply_event_rec: "apply_event cfg lt now e t = Done t' \<Longrightarrow> rec_part t' = rec_part t"
  by (cases "ev_type e") (auto simp: apply_event_def Let_def split: option.splits if_splits)

lemma AddCaptureEvent_rec:
  "Tape_AddCaptureEvent cfg lt now e send t = Done t' \<Longrightarrow> rec_part t' = rec_part t"
  by (auto simp: Tape_AddCaptureEvent_def Let_def dest!: apply_event_rec split: outcome.splits if_splits)

lemma GetMessage_rec: "rec_part (snd (GetMessage cfg u t)) = rec_part t"
  by (auto simp: GetMessage_def Let_def split: list.splits)

lemma rec_partD:
  "rec_part t = rec_part t' \<Longrightarrow> tp_state t = tp_state t' \<and> tp_chunkQueue t = tp_chunkQueue t' \<and>
    tp_queueDataSize t = tp_queueDataSize t' \<and> tp_audioFile t = tp_audioFile t' \<and>
    tp_bytesWritten t = tp_bytesWritten t' \<and> tp_readyForBatch t = tp_readyForBatch t'"
  by (simp add: rec_part_def)

section \<open>Accepted chunks reach the file\<close>

text \<open>
  \<open>recording\<close>: the file holds the accepted chunks up to those still queued. \<open>n\<close> and \<open>m\<close> are the
  encoded bytes and the audio bytes of chunks yet to come, \<open>lim\<close> the limit on audio bytes.
\<close>

definition recording ::
    "nat \<Rightarrow> (nat \<Rightarrow> 'f \<Rightarrow> bool) \<Rightarrow> ('f \<Rightarrow> u8 list) \<Rightarrow> ('f \<Rightarrow> u8 list) \<Rightarrow> (AudioChunk \<Rightarrow> u8 list) \<Rightarrow>
      (AudioChunk \<Rightarrow> bool) \<Rightarrow> int \<Rightarrow> AudioChunk list \<Rightarrow> nat \<Rightarrow> int \<Rightarrow> 'f AudioTape \<Rightarrow> bool" where
  "recording room fits stored on_disk enc valid lim acc n m t \<longleftrightarrow>
     (let q = tp_chunkQueue t; encs = (\<lambda>cs. concat (map enc cs)) in
      list_all valid q \<and> 0 \<le> m \<and>
      (if tp_state t = StateCreated then
         tp_audioFile t = None \<and> tp_bytesWritten t = 0 \<and> acc = q \<and>
         length (encs q) + n \<le> room \<and> chunk_sizes q + m \<le> lim
       else if tp_state t = StateActive then
         (\<exists>f w. tp_audioFile t = Some f \<and> stored f = encs w \<and> acc = w @ q \<and>
            fits (length (encs q) + n) f \<and> tp_bytesWritten t = chunk_sizes w \<and>
            0 \<le> chunk_sizes w \<and> chunk_sizes w + chunk_sizes q + m \<le> lim)
       else tp_state t = StateStopped \<and> q = [] \<and>
         (case tp_audioFile t of None \<Rightarrow> acc = [] | Some f \<Rightarrow> on_disk f = encs acc)))"

lemma recording_rec_part:
  "rec_part t = rec_part t' \<Longrightarrow> recording room fits stored on_disk enc valid lim acc n m t =
    recording room fits stored on_disk enc valid lim acc n m t'"
  by (simp add: recording_def rec_part_def)

lemma recording_ready [simp]:
  "recording room fits stored on_disk enc valid lim acc n m (t\<lparr>tp_readyForBatch := b\<rparr>) =
    recording room fits stored on_disk enc valid lim acc n m t"
  by (simp add: recording_def)

context audio_store
begin

lemma sizes_nonneg: "list_all valid cs \<Longrightarrow> 0 \<le> chunk_sizes cs"
  by (induction cs) (auto simp: valid_chunk)

lemma append_ok:
  assumes "tp_audioFile t = Some f" "fits (length (enc c) + n) f" "valid c"
    "tp_bytesWritten t \<le> 1024 * cfg_captureFileSizeLimitKb cfg"
  shows "\<exists>f'. append_chunk cfg ops now c t =
      Done (t\<lparr>tp_audioFile := Some f', tp_bytesWritten := tp_bytesWritten t + GetNumBytes c\<rparr>) \<and>
    fits n f' \<and> stored f' = stored f @ enc c"
proof -
  have "\<not> tp_bytesWritten t div 1024 > cfg_captureFileSizeLimitKb cfg" using assms(4) by linarith
  moreover obtain f' where "fo_write ops c f = (f', False)" "fits n f'" "stored f' = stored f @ enc c"
    using write_ok [OF assms(2,3)] by blast
  ultimately show ?thesis using assms(1) by (intro exI [of _ f']) (simp add: append_chunk_def)
qed

lemma open_tape:
  assumes "plain_config cfg" "valid c"
  shows "\<exists>f t1. open_capture_file cfg ops files c t = (t1, False) \<and> tp_state t1 = StateActive \<and>
    tp_audioFile t1 = Some f \<and> fits room f \<and> stored f = [] \<and> tp_chunkQueue t1 = tp_chunkQueue t \<and>
    tp_bytesWritten t1 = tp_bytesWritten t"
proof -
  obtain f where f: "fits room f" "stored f = []"
    "fo_open ops (cfg_audioOutputPathMcf cfg @ ''/'' @ tp_filePath t @ tp_fileIdentifier t)
      (GetSampleRate c) (fo_new_mcf ops) = (f, False)"
    using open_ok by blast
  let ?t1 = "t\<lparr>tp_state := StateActive, tp_audioFile := Some (fo_new_mcf ops)\<rparr>"
  let ?t2 = "PreventFileIdentifierCollision files (cfg_audioOutputPath cfg @ ''/'' @ tp_filePath t)
    (fo_extension ops (fo_new_mcf ops)) ?t1"
  have "rec_part ?t2 = rec_part ?t1" by (rule rec_part_simps)
  then have "tp_state ?t2 = StateActive \<and> tp_chunkQueue ?t2 = tp_chunkQueue t \<and>
    tp_bytesWritten ?t2 = tp_bytesWritten t" by (simp add: rec_part_def)
  with f valid_chunk [OF assms(2)] extension_known [OF assms(1)] show ?thesis
    by (cases "cfg_storageAudioFormat cfg = FfNative") (auto simp: open_capture_file_def Let_def)
qed

lemma write_one_ok:
  assumes "plain_config cfg" "lim \<le> 1024 * cfg_captureFileSizeLimitKb cfg"
    "recording room fits stored on_disk enc valid lim acc n m t" "tp_chunkQueue t = c # q"
  shows "\<exists>t'. write_one cfg ops files now c (pop_chunk c q t) = Done t' \<and>
    recording room fits stored on_disk enc valid lim acc n m t' \<and> tp_chunkQueue t' = q \<and>
    tp_state t' = StateActive"
proof -
  let ?t0 = "pop_chunk c q t" and ?encs = "\<lambda>cs. concat (map enc cs)"
  have v: "valid c" "list_all valid q" "0 \<le> m" using assms(3,4) by (auto simp: recording_def Let_def)
  note nonneg = sizes_nonneg [OF v(2)] valid_chunk [OF v(1)]
  obtain t1 f w where t1: "(if tp_state ?t0 = StateCreated then open_capture_file cfg ops files c ?t0
      else (?t0, False)) = (t1, False)"
    "tp_state t1 = StateActive" "tp_audioFile t1 = Some f" "tp_chunkQueue t1 = q"
    "fits (length (enc c) + (length (?encs q) + n)) f" "stored f = ?encs w" "acc = w @ c # q"
    "tp_bytesWritten t1 = chunk_sizes w" "0 \<le> chunk_sizes w"
    "chunk_sizes w + GetNumBytes c + chunk_sizes q + m \<le> lim"
  proof (cases "tp_state t = StateCreated")
    case True
    obtain f t1 where o: "open_capture_file cfg ops files c ?t0 = (t1, False)"
      "tp_state t1 = StateActive" "tp_audioFile t1 = Some f" "fits room f" "stored f = []"
      "tp_chunkQueue t1 = tp_chunkQueue ?t0" "tp_bytesWritten t1 = tp_bytesWritten ?t0"
      using open_tape [OF assms(1) v(1), of files ?t0] by blast
    have "fits (length (enc c) + (length (?encs q) + n)) f"
      using True assms(3,4) by (intro fits_less [OF o(4)]) (simp add: recording_def add.assoc)
    with o True assms(3,4) that [of t1 f "[]"] show ?thesis
      by (simp add: recording_def pop_chunk_def)
  next
    case False
    with assms(3,4) obtain f w where "tp_state t = StateActive" "tp_audioFile t = Some f"
      "fits (length (?encs (c # q)) + n) f" "stored f = ?encs w" "acc = w @ c # q"
      "tp_bytesWritten t = chunk_sizes w" "0 \<le> chunk_sizes w"
      "chunk_sizes w + chunk_sizes (c # q) + m \<le> lim"
      by (auto simp: recording_def Let_def split: if_splits)
    with False that [of ?t0 f w] show ?thesis by (simp add: pop_chunk_def add.assoc)
  qed
  have "tp_bytesWritten t1 \<le> 1024 * cfg_captureFileSizeLimitKb cfg"
    using t1(8,10) v(3) nonneg assms(2) by linarith
  from append_ok [OF t1(3,5) v(1) this, of now] obtain f' where f': "append_chunk cfg ops now c t1 =
      Done (t1\<lparr>tp_audioFile := Some f', tp_bytesWritten := tp_bytesWritten t1 + GetNumBytes c\<rparr>)"
    "fits (length (?encs q) + n) f'" "stored f' = stored f @ enc c" by blast
  have "recording room fits stored on_disk enc valid lim acc n m
      (t1\<lparr>tp_audioFile := Some f', tp_bytesWritten := tp_bytesWritten t1 + GetNumBytes c\<rparr>)"
    using t1 f'(2,3) v nonneg
    by (simp add: recording_def)
  with t1(1,2,4) f'(1) show ?thesis by (simp add: write_one_def)
qed

lemma write_loop_ok:
  assumes "plain_config cfg" "lim \<le> 1024 * cfg_captureFileSizeLimitKb cfg"
  shows "recording room fits stored on_disk enc valid lim acc n m t \<Longrightarrow> tp_chunkQueue t = q \<Longrightarrow>
    \<exists>t'. write_loop cfg ops files now q t = Done t' \<and>
      recording room fits stored on_disk enc valid lim acc n m t' \<and> tp_chunkQueue t' = []"
proof (induction q arbitrary: t)
  case (Cons c q)
  obtain t1 where t1: "write_one cfg ops files now c (pop_chunk c q t) = Done t1"
    "recording room fits stored on_disk enc valid lim acc n m t1" "tp_chunkQueue t1 = q"
    using write_one_ok [OF assms Cons.prems] by blast
  have "tp_state t \<noteq> StateStopped" "tp_state t \<noteq> StateError"
    using Cons.prems by (auto simp: recording_def)
  with Cons.IH [OF t1(2,3)] t1(1) show ?case by simp
qed simp

lemma Write_ok:
  assumes "plain_config cfg" "lim \<le> 1024 * cfg_captureFileSizeLimitKb cfg"
    "recording room fits stored on_disk enc valid lim acc n m t"
  shows "\<exists>t'. Write cfg ops files now t = Done t' \<and> recording room fits stored on_disk enc valid lim acc n m t'"
proof -
  obtain t1 where t1: "write_loop cfg ops files now (tp_chunkQueue t) t = Done t1"
    "recording room fits stored on_disk enc valid lim acc n m t1" "tp_chunkQueue t1 = []"
    using write_loop_ok [OF assms refl] by blast
  have "recording room fits stored on_disk enc valid lim acc n m (stop_if_asked ops t1)"
    using t1(2,3) close_ok
    by (auto simp: stop_if_asked_def recording_def Let_def split: option.splits if_splits)
  with t1(1) assms(1) show ?thesis by (simp add: Write_def plain_config_def)
qed

lemma recording_less:
  "recording room fits stored on_disk enc valid lim acc n m t \<Longrightarrow> n' \<le> n \<Longrightarrow> 0 \<le> m' \<Longrightarrow> m' \<le> m \<Longrightarrow>
    recording room fits stored on_disk enc valid lim acc n' m' t"
  by (auto simp: recording_def Let_def split: if_splits option.splits elim!: fits_less)

lemma AddChunk_ok:
  assumes rec: "recording room fits stored on_disk enc valid lim acc (length (enc c) + n) (GetNumBytes c + m) t"
    and c: "valid c" "0 \<le> m"
  shows "recording room fits stored on_disk enc valid lim (if accepts cfg t then acc @ [c] else acc) n m
    (Tape_AddAudioChunk cfg c t)"
proof (cases "accepts cfg t")
  case True
  then consider "tp_state t = StateCreated" | "tp_state t = StateActive" by (auto simp: accepts_def)
  then show ?thesis
  proof cases
    case 1
    with rec c True show ?thesis
      by (simp add: accepts_def Tape_AddAudioChunk_def recording_def Let_def add.assoc)
  next
    case 2
    with rec obtain f w where f: "tp_audioFile t = Some f" "stored f = concat (map enc w)"
      "acc = w @ tp_chunkQueue t" "list_all valid (tp_chunkQueue t)"
      "fits (length (concat (map enc (tp_chunkQueue t))) + (length (enc c) + n)) f"
      "tp_bytesWritten t = chunk_sizes w" "0 \<le> chunk_sizes w"
      "chunk_sizes w + chunk_sizes (tp_chunkQueue t) + (GetNumBytes c + m) \<le> lim"
      by (auto simp: recording_def Let_def)
    with 2 True c show ?thesis
      by (simp add: accepts_def Tape_AddAudioChunk_def recording_def Let_def add.assoc)
  qed
next
  case False
  then have "rec_part (Tape_AddAudioChunk cfg c t) = rec_part t"
    by (auto simp: accepts_def Tape_AddAudioChunk_def rec_part_def)
  moreover have "recording room fits stored on_disk enc valid lim acc n m t"
    using recording_less [OF rec] valid_chunk [OF c(1)] c(2) by simp
  ultimately show ?thesis using False recording_rec_part by simp blast
qed

end

text \<open>The chunks a sequence of operations adds.\<close>

fun added :: "tape_op list \<Rightarrow> AudioChunk list" where
  "added [] = []"
| "added (AddChunk c # xs) = c # added xs"
| "added (_ # xs) = added xs"

text \<open>No character is mapped to itself.\<close>

definition party_map_ok :: "tape_config \<Rightarrow> bool" where
  "party_map_ok cfg \<longleftrightarrow> list_all (\<lambda>(a, b). a \<noteq> b \<or> b = CHR ''?'') (cfg_partyFilterMap cfg)"

lemma map_party_total: "list_all (\<lambda>(a, b). a \<noteq> b \<or> b = CHR ''?'') m \<Longrightarrow> \<exists>s'. map_party m s = Some s'"
proof (induction m arbitrary: s)
  case (Cons p m)
  obtain a b where p: "p = (a, b)" by (cases p)
  with Cons show ?case by (simp add: replace_char_result)
qed simp

lemma apply_event_total: "party_map_ok cfg \<Longrightarrow> \<exists>t'. apply_event cfg lt now e t = Done t'"
  using map_party_total [of "cfg_partyFilterMap cfg" "ev_value e"]
  by (cases "ev_type e") (auto simp: apply_event_def Let_def party_map_ok_def)

lemma AddCaptureEvent_total:
  assumes "party_map_ok cfg"
  shows "\<exists>t'. Tape_AddCaptureEvent cfg lt now e send t = Done t' \<and> rec_part t' = rec_part t"
proof -
  obtain t1 where "apply_event cfg lt now e t = Done t1" using apply_event_total [OF assms] by blast
  then obtain t' where "Tape_AddCaptureEvent cfg lt now e send t = Done t'"
    by (simp add: Tape_AddCaptureEvent_def Let_def)
  with AddCaptureEvent_rec show ?thesis by blast
qed

context audio_store
begin

lemma tape_do_ok:
  assumes "plain_config cfg" "party_map_ok cfg" "lim \<le> 1024 * cfg_captureFileSizeLimitKb cfg"
    "list_all valid (added (x # xs))"
    "recording room fits stored on_disk enc valid lim acc
       (length (concat (map enc (added (x # xs))))) (chunk_sizes (added (x # xs))) t"
  shows "\<exists>t'. tape_do cfg ops lt files x t = Done t' \<and>
    recording room fits stored on_disk enc valid lim
      (case x of AddChunk c \<Rightarrow> if accepts cfg t then acc @ [c] else acc | _ \<Rightarrow> acc)
      (length (concat (map enc (added xs)))) (chunk_sizes (added xs)) t'"
proof (cases x)
  case (AddChunk c)
  with assms(4,5) show ?thesis
    using AddChunk_ok [of lim acc c _ _ t cfg] sizes_nonneg [of "added xs"]
    by (simp add: tape_do_def)
next
  case (DoWrite now)
  with assms(5) Write_ok [OF assms(1,3)] show ?thesis by (simp add: tape_do_def)
next
  case (DoEvent now e send)
  obtain t' where "Tape_AddCaptureEvent cfg lt now e send t = Done t'" "rec_part t' = rec_part t"
    using AddCaptureEvent_total [OF assms(2)] by blast
  with DoEvent assms(5) recording_rec_part [of t' t] show ?thesis by (simp add: tape_do_def)
next
  case AskStop
  with assms(5) recording_rec_part [of "SetShouldStop t" t] show ?thesis by (simp add: tape_do_def)
next
  case TakeReady
  with assms(5) show ?thesis
    by (simp add: tape_do_def IsReadyForBatchProcessing_def)
next
  case (TakeMessage u)
  with assms(5) show ?thesis by (simp add: tape_do_def recording_rec_part [OF GetMessage_rec])
qed

lemma tape_run_ok:
  assumes "plain_config cfg" "party_map_ok cfg" "lim \<le> 1024 * cfg_captureFileSizeLimitKb cfg"
  shows "list_all valid (added xs) \<Longrightarrow>
    recording room fits stored on_disk enc valid lim acc
      (length (concat (map enc (added xs)))) (chunk_sizes (added xs)) t \<Longrightarrow>
    \<exists>t' acc' rdy'. tape_run cfg ops lt files xs (t, acc, rdy) = Done (t', acc', rdy') \<and>
      recording room fits stored on_disk enc valid lim acc' 0 0 t'"
proof (induction xs arbitrary: t acc rdy)
  case (Cons x xs)
  obtain t1 where t1: "tape_do cfg ops lt files x t = Done t1"
    "recording room fits stored on_disk enc valid lim
      (case x of AddChunk c \<Rightarrow> if accepts cfg t then acc @ [c] else acc | _ \<Rightarrow> acc)
      (length (concat (map enc (added xs)))) (chunk_sizes (added xs)) t1"
    using tape_do_ok [OF assms Cons.prems] by blast
  have "list_all valid (added xs)" using Cons.prems(1) by (cases x) auto
  from Cons.IH [OF this t1(2)] t1(1) show ?case by simp
qed simp

lemma recording_new:
  "n \<le> room \<Longrightarrow> 0 \<le> m \<Longrightarrow> m \<le> lim \<Longrightarrow>
    recording room fits stored on_disk enc valid lim [] n m (AudioTape_new cfg lt now port)"
  by (simp add: recording_def AudioTape_new_def GenerateCaptureFilePathAndIdentifier_def Let_def)

end

section \<open>The media chunk file keeps the contract\<close>

text \<open>
  The methods of the two file classes behind one reference: the media chunk file of OrkMcf, and
  any other class \<open>g\<close> (libsndfile's) for PCM audio.
\<close>

definition mcf_store ::
    "int \<Rightarrow> u8 \<times> u8 \<Rightarrow> nat \<Rightarrow> 'g file_ops \<Rightarrow> (MediaChunkFile + 'g) file_ops" where
  "mcf_store kb pad room g = \<lparr>
     fo_new_pcm = Inr (fo_new_pcm g),
     fo_new_mcf = Inl MediaChunkFile_new,
     fo_extension = (\<lambda>f. case f of Inl _ \<Rightarrow> ''.mcf'' | Inr x \<Rightarrow> fo_extension g x),
     fo_open = (\<lambda>name rate f. case f of
         Inl m \<Rightarrow> map_prod Inl id (Mcf_Open name True rate (Some ([], room)) m)
       | Inr x \<Rightarrow> map_prod Inr id (fo_open g name rate x)),
     fo_write = (\<lambda>c f. case f of
         Inl m \<Rightarrow> (case Mcf_WriteChunk kb pad (Some c) m of
                     Done (m', thrown) \<Rightarrow> (Inl m', thrown) | _ \<Rightarrow> (Inl m, True))
       | Inr x \<Rightarrow> map_prod Inr id (fo_write g c x)),
     fo_close = (\<lambda>f. case f of
         Inl m \<Rightarrow> (case Mcf_Close pad m of Done m' \<Rightarrow> Inl m' | _ \<Rightarrow> Inl m)
       | Inr x \<Rightarrow> Inr (fo_close g x))\<rparr>"

definition mcf_fits :: "u8 \<times> u8 \<Rightarrow> nat \<Rightarrow> MediaChunkFile + 'g \<Rightarrow> bool" where
  "mcf_fits pad n f = (case f of Inl m \<Rightarrow> writable pad n m | Inr _ \<Rightarrow> False)"

definition mcf_stored :: "u8 \<times> u8 \<Rightarrow> MediaChunkFile + 'g \<Rightarrow> u8 list" where
  "mcf_stored pad f = (case f of Inl m \<Rightarrow> disk_image pad m | Inr _ \<Rightarrow> [])"

definition mcf_on_disk :: "MediaChunkFile + 'g \<Rightarrow> u8 list" where
  "mcf_on_disk f = (case f of Inl m \<Rightarrow> ms_bytes (mf_stream m) | Inr _ \<Rightarrow> [])"

definition coded_chunk :: "AudioChunk \<Rightarrow> bool" where
  "coded_chunk c \<longleftrightarrow> storable c \<and> GetEncoding c \<noteq> PcmAudio"

lemma Mcf_Close_stored:
  assumes "writable pad n m"
  shows "\<exists>m'. Mcf_Close pad m = Done m' \<and> ms_bytes (mf_stream m') = disk_image pad m"
proof -
  obtain m' where m': "FlushToDisk pad m = Done (m', False)" "mf_queue m' = []"
    "disk_image pad m' = disk_image pad m" using FlushToDisk_room [OF assms] by blast
  with assms show ?thesis by (simp add: Mcf_Close_def writable_def disk_image_def)
qed

lemma Open_no_throw: "\<not> snd (Mcf_Open name write rate (Some d) MediaChunkFile_new)"
  by (cases d) (simp add: Mcf_Open_def MediaChunkFile_new_def stream_closed_def Let_def)

interpretation mcfs: audio_store "mcf_store kb pad room g" room "mcf_fits pad" "mcf_stored pad"
  mcf_on_disk "chunk_bytes pad" coded_chunk
  for kb pad room and g :: "'g file_ops"
proof
  fix c name rate n m and f :: "MediaChunkFile + 'g"
  show "coded_chunk c \<Longrightarrow> GetEncoding c \<noteq> PcmAudio \<and> 0 \<le> GetNumBytes c"
    by (simp add: coded_chunk_def GetNumBytes_storable)
  show "\<exists>f. fo_open (mcf_store kb pad room g) name rate (fo_new_mcf (mcf_store kb pad room g)) = (f, False) \<and>
      mcf_fits pad room f \<and> mcf_stored pad f = []"
    using Open_writable [of room room pad name rate "[]"] Open_no_throw [of name True rate "([], room)"]
    by (cases "Mcf_Open name True rate (Some ([], room)) MediaChunkFile_new")
      (simp add: mcf_store_def mcf_fits_def mcf_stored_def)
  show "\<exists>f'. fo_write (mcf_store kb pad room g) c f = (f', False) \<and> mcf_fits pad n f' \<and>
        mcf_stored pad f' = mcf_stored pad f @ chunk_bytes pad c"
    if "mcf_fits pad (length (chunk_bytes pad c) + n) f" "coded_chunk c"
  proof -
    from that(1) obtain x where f: "f = Inl x" "writable pad (length (chunk_bytes pad c) + n) x"
      by (auto simp: mcf_fits_def split: sum.splits)
    from WriteChunk_room [OF f(2), of kb] that(2) obtain x' where
      "Mcf_WriteChunk kb pad (Some c) x = Done (x', False)" "writable pad n x'"
      "disk_image pad x' = disk_image pad x @ chunk_bytes pad c" by (auto simp: coded_chunk_def)
    with f(1) show ?thesis
      by (intro exI [of _ "Inl x'"]) (simp add: mcf_store_def mcf_fits_def mcf_stored_def)
  qed
  show "mcf_on_disk (fo_close (mcf_store kb pad room g) f) = mcf_stored pad f" if "mcf_fits pad n f"
  proof -
    from that obtain x where f: "f = Inl x" "writable pad n x"
      by (auto simp: mcf_fits_def split: sum.splits)
    with Mcf_Close_stored [OF f(2)] show ?thesis
      by (auto simp: mcf_store_def mcf_stored_def mcf_on_disk_def)
  qed
  show "mcf_fits pad n f \<Longrightarrow> m \<le> n \<Longrightarrow> mcf_fits pad m f"
    by (auto simp: mcf_fits_def writable_def split: sum.splits)
qed

text \<open>
  C1. A recorded call is complete: from the creation of a tape through any interleaving of chunks,
  events, writes and polls, no operation fails, every chunk the tape accepted is in the capture file
  or queued for it, once and in order, and when the tape has stopped the file on disk is exactly the
  accepted chunks - for calls without PCM chunks, without party filter, within the size limit and
  the space on the disk.
\<close>

theorem tape_records_accepted:
  assumes "plain_config cfg" "party_map_ok cfg" "list_all coded_chunk (added xs)"
    "length (chunks_bytes pad (added xs)) \<le> room"
    "chunk_sizes (added xs) \<le> 1024 * cfg_captureFileSizeLimitKb cfg"
  shows "\<exists>t acc rdy. tape_run cfg (mcf_store kb pad room g) lt files xs
      (AudioTape_new cfg lt now port, [], []) = Done (t, acc, rdy) \<and>
    (case tp_audioFile t of
       None \<Rightarrow> acc = tp_chunkQueue t
     | Some f \<Rightarrow> if tp_state t = StateStopped
         then mcf_on_disk f = chunks_bytes pad acc \<and> tp_chunkQueue t = []
         else mcf_stored pad f @ chunks_bytes pad (tp_chunkQueue t) = chunks_bytes pad acc)"
proof -
  let ?rec = "recording room (mcf_fits pad) (mcf_stored pad) mcf_on_disk (chunk_bytes pad) coded_chunk
    (1024 * cfg_captureFileSizeLimitKb cfg)"
  have "?rec [] (length (chunks_bytes pad (added xs))) (chunk_sizes (added xs))
      (AudioTape_new cfg lt now port)"
    using assms(3-5) mcfs.sizes_nonneg by (intro mcfs.recording_new) auto
  from mcfs.tape_run_ok [OF assms(1,2) order_refl assms(3) this]
  obtain t acc rdy where "tape_run cfg (mcf_store kb pad room g) lt files xs
      (AudioTape_new cfg lt now port, [], []) = Done (t, acc, rdy)" "?rec acc 0 0 t"
    by blast
  then show ?thesis
    by (intro exI [of _ t] exI [of _ acc] exI [of _ rdy])
      (auto simp: recording_def Let_def split: if_splits option.splits)
qed

definition example_config :: tape_config where
  "example_config = \<lparr>cfg_audioKeepDirectionIncomingDefault = ''both'',
     cfg_audioKeepDirectionOutgoingDefault = ''both'', cfg_audioKeepDirectionDefault = ''both'',
     cfg_audioOutputPath = ''/audio'', cfg_audioOutputPathMcf = ''/mcf'',
     cfg_captureFileBatchSizeKByte = 200, cfg_captureFileSizeLimitKb = 300000, cfg_partyFilter = [],
     cfg_partyFilterMap = [], cfg_remotePartyMaxDigits = 0, cfg_dtmfReportingDetailed = False,
     cfg_dynamicTags = [], cfg_tagsListUseInitialValue = [], cfg_storageAudioFormat = FfGsm,
     cfg_directionForcePrefix = [], cfg_directionForceMinLength = 0,
     cfg_holdResumeReportEvents = False, cfg_holdResumeReportDuration = False,
     cfg_serviceName = ''ork'', cfg_tapeFileNaming = [], cfg_tapePathNaming = []\<rparr>"

definition example_time :: "int \<Rightarrow> exp_time" where
  "example_time now = \<lparr>tm_year = 124, tm_mon = 0, tm_mday = 1, tm_hour = 0, tm_min = 0, tm_sec = 0\<rparr>"

definition null_file :: "unit file_ops" where
  "null_file = \<lparr>fo_new_pcm = (), fo_new_mcf = (), fo_extension = (\<lambda>_. []), fo_open = (\<lambda>_ _ f. (f, False)),
     fo_write = (\<lambda>_ f. (f, False)), fo_close = id\<rparr>"

lemma example_plain: "plain_config example_config" "party_map_ok example_config"
  by (simp_all add: plain_config_def PartyFilterActive_def example_config_def party_map_ok_def)

lemma example_coded: "coded_chunk (example_chunk [7, 8] ts)"
  by (simp add: coded_chunk_def storable_def example_chunk_def AudioChunk_new_def GetEncoding_def
      AudioChunkDetails_Clear_def)

theorem tape_records_accepted_witness:
  "\<exists>t acc rdy. tape_run example_config (mcf_store 200 (0, 0) 1000 null_file) example_time []
      [AddChunk (example_chunk [7, 8] 0), DoWrite 5, AddChunk (example_chunk [7, 8] 2), AskStop, DoWrite 6]
      (AudioTape_new example_config example_time 5 ''port'', [], []) = Done (t, acc, rdy) \<and>
    (case tp_audioFile t of
       None \<Rightarrow> acc = tp_chunkQueue t
     | Some f \<Rightarrow> if tp_state t = StateStopped
         then mcf_on_disk f = chunks_bytes (0, 0) acc \<and> tp_chunkQueue t = []
         else mcf_stored (0, 0) f @ chunks_bytes (0, 0) (tp_chunkQueue t) = chunks_bytes (0, 0) acc)"
proof (rule tape_records_accepted [OF example_plain])
  let ?xs = "[AddChunk (example_chunk [7, 8] 0), DoWrite 5, AddChunk (example_chunk [7, 8] 2), AskStop, DoWrite 6]"
  show "list_all coded_chunk (added ?xs)" by (simp add: example_coded)
  show "length (chunks_bytes (0, 0) (added ?xs)) \<le> 1000"
    by (simp add: chunk_bytes_def example_chunk_def)
  show "chunk_sizes (added ?xs) \<le> 1024 * cfg_captureFileSizeLimitKb example_config"
    by (simp add: example_config_def example_chunk_def GetNumBytes_def)
qed

section \<open>A tape is handed over at most once\<close>

text \<open>Everything but the last step of \<open>Write\<close> leaves the ready flag alone.\<close>

lemma open_capture_file_ready:
  "open_capture_file cfg ops files c t = (t', b) \<Longrightarrow> tp_readyForBatch t' = tp_readyForBatch t"
  by (auto simp: open_capture_file_def Let_def PreventFileIdentifierCollision_def
      split: if_splits prod.splits outcome.splits)

lemma append_chunk_ready:
  "append_chunk cfg ops now c t = Done t' \<Longrightarrow> tp_readyForBatch t' = tp_readyForBatch t"
  by (auto simp: append_chunk_def Let_def count_error_def split: if_splits prod.splits option.splits)

lemma write_one_ready:
  "write_one cfg ops files now c t = Done t' \<Longrightarrow> tp_readyForBatch t' = tp_readyForBatch t"
  by (auto simp: write_one_def count_error_def split: if_splits prod.splits
      dest!: open_capture_file_ready append_chunk_ready)

lemma write_loop_ready:
  "write_loop cfg ops files now q t = Done t' \<Longrightarrow> tp_readyForBatch t' = tp_readyForBatch t"
proof (induction q arbitrary: t)
  case (Cons c q)
  then show ?case
    by (auto simp: pop_chunk_def split: if_splits outcome.splits dest!: write_one_ready)
qed simp

lemma discard_loop_fields [simp]:
  "tp_state (discard_loop q t) = tp_state t"
  "tp_bytesWritten (discard_loop q t) = tp_bytesWritten t"
  "tp_readyForBatch (discard_loop q t) = tp_readyForBatch t"
  by (induction q t rule: discard_loop.induct) (simp_all add: pop_chunk_def)

lemma write_loop_stopped: "tp_state t = StateStopped \<Longrightarrow> write_loop cfg ops files now q t = Done t"
  by (cases q) simp_all

lemma Write_stopped:
  "tp_state t = StateStopped \<Longrightarrow> Write cfg ops files now t = Done t' \<Longrightarrow>
    tp_state t' = StateStopped \<and> tp_bytesWritten t' = tp_bytesWritten t \<and>
    tp_readyForBatch t' = tp_readyForBatch t"
  by (auto simp: Write_def Let_def write_loop_stopped stop_if_asked_def split: if_splits)

lemma Write_makes_ready:
  assumes "Write cfg ops files now t = Done t'" "tp_readyForBatch t'" "\<not> tp_readyForBatch t"
  shows "tp_state t' = StateStopped \<and> tp_bytesWritten t' > 0"
proof (cases "\<not> tp_passedPartyFilter t \<and> PartyFilterActive cfg")
  case True
  with assms show ?thesis by (auto simp: Write_def Let_def split: if_splits)
next
  case False
  with assms(1) obtain t1 where t1: "write_loop cfg ops files now (tp_chunkQueue t) t = Done t1"
    "t' = stop_if_asked ops t1" by (auto simp: Write_def split: outcome.splits)
  with assms(2,3) write_loop_ready [OF t1(1)] show ?thesis
    by (auto simp: stop_if_asked_def Let_def split: if_splits option.splits)
qed

definition handed_over :: "bool list \<Rightarrow> 'f AudioTape \<Rightarrow> bool" where
  "handed_over rdy t \<longleftrightarrow> length (filter id rdy) + (if tp_readyForBatch t then 1 else 0) \<le> 1 \<and>
     (tp_readyForBatch t \<or> True \<in> set rdy \<longrightarrow> tp_state t = StateStopped \<and> tp_bytesWritten t > 0)"

lemma handed_over_rec_part:
  "rec_part t' = rec_part t \<Longrightarrow> handed_over rdy t' = handed_over rdy t"
  by (auto dest!: rec_partD simp: handed_over_def)

lemma not_ready_yet: "True \<notin> set rdy \<Longrightarrow> filter id rdy = []"
  by (auto simp: filter_empty_conv)

lemma handed_over_Write:
  assumes "handed_over rdy t" "Write cfg ops files now t = Done t'"
  shows "handed_over rdy t'"
proof (cases "tp_state t = StateStopped")
  case True
  with assms Write_stopped [OF True assms(2)] show ?thesis by (simp add: handed_over_def)
next
  case False
  with assms(1) have none: "\<not> tp_readyForBatch t" "True \<notin> set rdy" by (auto simp: handed_over_def)
  with Write_makes_ready [OF assms(2)] not_ready_yet [OF none(2)] show ?thesis
    by (auto simp: handed_over_def)
qed

lemma handed_over_do:
  assumes "handed_over rdy t" "tape_do cfg ops lt files x t = Done t'"
  shows "handed_over (case x of TakeReady \<Rightarrow> rdy @ [fst (IsReadyForBatchProcessing t)] | _ \<Rightarrow> rdy) t'"
proof (cases x)
  case (AddChunk c)
  have "handed_over rdy (Tape_AddAudioChunk cfg c t)"
    using assms(1) by (auto simp: handed_over_def Tape_AddAudioChunk_def Let_def)
  with AddChunk assms(2) show ?thesis by (simp add: tape_do_def)
next
  case (DoWrite now)
  with assms handed_over_Write show ?thesis by (auto simp: tape_do_def)
next
  case (DoEvent now e send)
  with assms show ?thesis
    by (auto simp: tape_do_def dest!: AddCaptureEvent_rec handed_over_rec_part)
next
  case AskStop
  with assms handed_over_rec_part [of "SetShouldStop t" t rdy] show ?thesis by (auto simp: tape_do_def)
next
  case TakeReady
  with assms show ?thesis
    by (auto simp: tape_do_def IsReadyForBatchProcessing_def handed_over_def)
next
  case (TakeMessage u)
  with assms handed_over_rec_part [OF GetMessage_rec [of cfg u t], of rdy] show ?thesis
    by (auto simp: tape_do_def)
qed

lemma handed_over_run:
  "handed_over rdy t \<Longrightarrow> tape_run cfg ops lt files xs (t, acc, rdy) = Done (t', acc', rdy') \<Longrightarrow>
    handed_over rdy' t'"
proof (induction xs arbitrary: t acc rdy)
  case (Cons x xs)
  from Cons.prems(2) obtain t1 where t1: "tape_do cfg ops lt files x t = Done t1"
    "tape_run cfg ops lt files xs (t1,
       (case x of AddChunk c \<Rightarrow> if accepts cfg t then acc @ [c] else acc | _ \<Rightarrow> acc),
       (case x of TakeReady \<Rightarrow> rdy @ [fst (IsReadyForBatchProcessing t)] | _ \<Rightarrow> rdy)) = Done (t', acc', rdy')"
    by (auto split: outcome.splits)
  show ?case by (rule Cons.IH [OF handed_over_do [OF Cons.prems(1) t1(1)] t1(2)])
qed simp

text \<open>
  C33. Whatever happens to a tape, and whatever its file does, it is given to batch processing at
  most once, and only when it has stopped and has written audio.
\<close>

theorem tape_ready_once:
  assumes "tape_run cfg ops lt files xs (AudioTape_new cfg lt now port, [], []) = Done (t, acc, rdy)"
  shows "length (filter id rdy) \<le> 1 \<and>
    (True \<in> set rdy \<longrightarrow> tp_state t = StateStopped \<and> tp_bytesWritten t > 0 \<and> \<not> tp_readyForBatch t)"
proof -
  have "handed_over [] (AudioTape_new cfg lt now port)"
    by (simp add: handed_over_def AudioTape_new_def GenerateCaptureFilePathAndIdentifier_def Let_def)
  from handed_over_run [OF this assms] have h: "handed_over rdy t" .
  have "True \<in> set rdy \<Longrightarrow> filter id rdy \<noteq> []" by (auto simp: filter_empty_conv)
  with h show ?thesis by (cases "filter id rdy") (auto simp: handed_over_def)
qed

theorem tape_ready_once_witness:
  "\<exists>t acc rdy. tape_run example_config null_file example_time []
      [AddChunk (example_chunk [7, 8] 0), AskStop, DoWrite 5, TakeReady, DoWrite 6, TakeReady]
      (AudioTape_new example_config example_time 5 ''port'', [], []) = Done (t, acc, rdy) \<and>
    rdy = [True, False] \<and> length (filter id rdy) \<le> 1"
proof -
  let ?run = "tape_run example_config null_file example_time []
      [AddChunk (example_chunk [7, 8] 0), AskStop, DoWrite 5, TakeReady, DoWrite 6, TakeReady]
      (AudioTape_new example_config example_time 5 ''port'', [], [])"
  obtain t acc where r: "?run = Done (t, acc, [True, False])"
    by (simp add: tape_do_def AudioTape_new_def GenerateCaptureFilePathAndIdentifier_def
        example_config_def Tape_AddAudioChunk_def example_chunk_def AudioChunk_new_def
        GetNumBytes_def SetShouldStop_def Write_def PartyFilterActive_def write_one_def
        open_capture_file_def null_file_def PreventFileIdentifierCollision_def append_chunk_def
        stop_if_asked_def IsReadyForBatchProcessing_def GetEncoding_def pop_chunk_def
        AudioChunkDetails_Clear_def FileFormatGetExtension_def collision_index.simps Let_def)
  from tape_ready_once [OF r] r show ?thesis by blast
qed

section \<open>The queue of a tape is bounded\<close>

text \<open>
  \<open>queue_ok\<close>: the counters agree with the queue, and what is queued stays below the limit plus one
  chunk. \<open>lim\<close> is the limit in bytes and \<open>big\<close> the size of the largest chunk.
\<close>

definition queue_ok :: "int \<Rightarrow> int \<Rightarrow> 'f AudioTape \<Rightarrow> bool" where
  "queue_ok lim big t \<longleftrightarrow>
     tp_queueDataSize t = word_of_int (chunk_sizes (tp_chunkQueue t)) \<and>
     tp_pushCount t - tp_popCount t = int (length (tp_chunkQueue t)) \<and>
     int (length (tp_chunkQueue t)) \<le> tp_highMark t \<and>
     list_all (\<lambda>c. 0 \<le> GetNumBytes c \<and> GetNumBytes c \<le> big) (tp_chunkQueue t) \<and>
     chunk_sizes (tp_chunkQueue t) < lim + big"

lemma chunk_sizes_nonneg: "list_all (\<lambda>c. 0 \<le> GetNumBytes c \<and> GetNumBytes c \<le> big) q \<Longrightarrow> 0 \<le> chunk_sizes q"
  by (induction q) auto

lemma queue_ok_same:
  "queue_ok lim big t \<Longrightarrow> tp_chunkQueue t' = tp_chunkQueue t \<Longrightarrow>
    tp_queueDataSize t' = tp_queueDataSize t \<Longrightarrow> tp_pushCount t' = tp_pushCount t \<Longrightarrow>
    tp_popCount t' = tp_popCount t \<Longrightarrow> tp_highMark t' = tp_highMark t \<Longrightarrow> queue_ok lim big t'"
  by (simp add: queue_ok_def)

lemma queue_ok_pop:
  "queue_ok lim big t \<Longrightarrow> tp_chunkQueue t = c # q \<Longrightarrow> queue_ok lim big (pop_chunk c q t)"
  by (auto simp: queue_ok_def pop_chunk_def)

text \<open>The counters of the queue, which only adding and popping change.\<close>

definition queue_part :: "'f AudioTape \<Rightarrow> AudioChunk list \<times> u32 \<times> int \<times> int \<times> int" where
  "queue_part t = (tp_chunkQueue t, tp_queueDataSize t, tp_pushCount t, tp_popCount t, tp_highMark t)"

lemma queue_ok_part: "queue_part t' = queue_part t \<Longrightarrow> queue_ok lim big t' = queue_ok lim big t"
  by (simp add: queue_part_def queue_ok_def)

lemma open_capture_file_queue:
  "open_capture_file cfg ops files c t = (t', b) \<Longrightarrow> queue_part t' = queue_part t"
  by (auto simp: open_capture_file_def Let_def PreventFileIdentifierCollision_def queue_part_def
      split: if_splits prod.splits outcome.splits)

lemma append_chunk_queue:
  "append_chunk cfg ops now c t = Done t' \<Longrightarrow> queue_part t' = queue_part t"
  by (auto simp: append_chunk_def Let_def count_error_def queue_part_def
      split: if_splits prod.splits option.splits)

lemma write_one_queue:
  "write_one cfg ops files now c t = Done t' \<Longrightarrow> queue_part t' = queue_part t"
  by (auto simp: write_one_def count_error_def queue_part_def [of "_\<lparr>tp_numErrors := _\<rparr>"]
      queue_part_def [symmetric]
      split: if_splits prod.splits dest!: open_capture_file_queue append_chunk_queue)

lemma write_loop_queue_ok:
  "queue_ok lim big t \<Longrightarrow> tp_chunkQueue t = q \<Longrightarrow> write_loop cfg ops files now q t = Done t' \<Longrightarrow>
    queue_ok lim big t'"
proof (induction q arbitrary: t)
  case (Cons c q)
  show ?case
  proof (cases "tp_state t = StateStopped \<or> tp_state t = StateError")
    case False
    with Cons.prems(3) obtain t1 where t1: "write_one cfg ops files now c (pop_chunk c q t) = Done t1"
      "write_loop cfg ops files now q t1 = Done t'" by (auto split: outcome.splits)
    have "queue_ok lim big t1" "tp_chunkQueue t1 = q"
      using queue_ok_pop [OF Cons.prems(1,2)] queue_ok_part [OF write_one_queue [OF t1(1)]]
        write_one_queue [OF t1(1)]
      by (simp_all add: queue_part_def pop_chunk_def)
    from Cons.IH [OF this t1(2)] show ?thesis .
  qed (use Cons.prems in auto)
qed simp

lemma discard_loop_queue_ok:
  "queue_ok lim big t \<Longrightarrow> tp_chunkQueue t = q \<Longrightarrow> queue_ok lim big (discard_loop q t)"
proof (induction q arbitrary: t)
  case (Cons c q)
  from Cons.IH [OF queue_ok_pop [OF Cons.prems]] show ?case by (simp add: pop_chunk_def)
qed simp

lemma Write_queue_ok:
  assumes "queue_ok lim big t" "Write cfg ops files now t = Done t'"
  shows "queue_ok lim big t'"
proof (cases "\<not> tp_passedPartyFilter t \<and> PartyFilterActive cfg")
  case True
  let ?t1 = "if tp_state t = StateCreated then t\<lparr>tp_state := StateActive\<rparr> else t"
  have "queue_ok lim big ?t1" using assms(1) by (rule queue_ok_same) simp_all
  from discard_loop_queue_ok [OF this refl] assms(2) True show ?thesis by (simp add: Write_def Let_def)
next
  case False
  with assms(2) obtain t1 where t1: "write_loop cfg ops files now (tp_chunkQueue t) t = Done t1"
    "t' = stop_if_asked ops t1" by (auto simp: Write_def split: outcome.splits)
  have "queue_ok lim big t1" by (rule write_loop_queue_ok [OF assms(1) refl t1(1)])
  then show ?thesis unfolding t1(2)
    by (rule queue_ok_same) (auto simp: stop_if_asked_def Let_def split: option.splits)
qed

lemma AddAudioChunk_queue_ok:
  assumes "queue_ok lim big t" "0 \<le> GetNumBytes c" "GetNumBytes c \<le> big"
    "lim = cfg_captureFileBatchSizeKByte cfg * 3 * 1024" "0 \<le> lim" "lim + big < 2 ^ 32"
  shows "queue_ok lim big (Tape_AddAudioChunk cfg c t)"
proof (cases "accepts cfg t")
  case True
  have size: "0 \<le> chunk_sizes (tp_chunkQueue t)" "chunk_sizes (tp_chunkQueue t) < 2 ^ 32"
    using assms(1,6) chunk_sizes_nonneg by (auto simp: queue_ok_def)
  have "word_of_int (chunk_sizes (tp_chunkQueue t)) < (word_of_int lim :: u32)"
    using True assms(1,4) by (simp add: accepts_def queue_ok_def not_le)
  with size assms(2,3,5,6) have "chunk_sizes (tp_chunkQueue t) < lim"
    by (simp add: word_less_def uint_word_of_int take_bit_int_eq_self)
  with True assms(1-4) show ?thesis
    by (auto simp: accepts_def Tape_AddAudioChunk_def queue_ok_def Let_def)
next
  case False
  then show ?thesis using assms(1)
    by (intro queue_ok_same [OF assms(1)]) (auto simp: accepts_def Tape_AddAudioChunk_def)
qed

lemma AddCaptureEvent_queue:
  "Tape_AddCaptureEvent cfg lt now e send t = Done t' \<Longrightarrow> queue_part t' = queue_part t"
proof -
  have upd: "apply_event cfg lt now e t = Done t1 \<Longrightarrow> queue_part t1 = queue_part t" for t1
    by (cases "ev_type e")
      (auto simp: apply_event_def Let_def queue_part_def GenerateCaptureFilePathAndIdentifier_def
        cut_remote_party_def on_key_value_def split: option.splits if_splits)
  assume "Tape_AddCaptureEvent cfg lt now e send t = Done t'"
  then obtain t1 where "apply_event cfg lt now e t = Done t1" "queue_part t' = queue_part t1"
    by (auto simp: Tape_AddCaptureEvent_def Let_def queue_part_def split: outcome.splits)
  with upd show ?thesis by simp
qed

lemma queue_ok_do:
  assumes "queue_ok lim big t" "tape_do cfg ops lt files x t = Done t'"
    "list_all (\<lambda>c. 0 \<le> GetNumBytes c \<and> GetNumBytes c \<le> big) (added [x])"
    "lim = cfg_captureFileBatchSizeKByte cfg * 3 * 1024" "0 \<le> lim" "lim + big < 2 ^ 32"
  shows "queue_ok lim big t'"
proof (cases x)
  case (AddChunk c)
  with assms AddAudioChunk_queue_ok [of lim big t c cfg] show ?thesis by (simp add: tape_do_def)
next
  case (DoWrite now)
  with assms(1,2) Write_queue_ok show ?thesis by (auto simp: tape_do_def)
next
  case (DoEvent now e send)
  with assms(2) have "queue_part t' = queue_part t" by (simp add: tape_do_def AddCaptureEvent_queue)
  with assms(1) queue_ok_part show ?thesis by blast
next
  case AskStop
  with assms(1,2) show ?thesis by (auto simp: tape_do_def SetShouldStop_def queue_ok_def)
next
  case TakeReady
  with assms(1,2) show ?thesis by (auto simp: tape_do_def IsReadyForBatchProcessing_def queue_ok_def)
next
  case (TakeMessage u)
  with assms(1,2) show ?thesis
    by (auto simp: tape_do_def GetMessage_def Let_def queue_ok_def split: if_splits list.splits)
qed

lemma queue_ok_run:
  assumes "lim = cfg_captureFileBatchSizeKByte cfg * 3 * 1024" "0 \<le> lim" "lim + big < 2 ^ 32"
  shows "queue_ok lim big t \<Longrightarrow>
    list_all (\<lambda>c. 0 \<le> GetNumBytes c \<and> GetNumBytes c \<le> big) (added xs) \<Longrightarrow>
    tape_run cfg ops lt files xs (t, acc, rdy) = Done (t', acc', rdy') \<Longrightarrow> queue_ok lim big t'"
proof (induction xs arbitrary: t acc rdy)
  case (Cons x xs)
  from Cons.prems(3) obtain t1 acc1 rdy1 where t1: "tape_do cfg ops lt files x t = Done t1"
    "tape_run cfg ops lt files xs (t1, acc1, rdy1) = Done (t', acc', rdy')"
    by (auto split: outcome.splits)
  have xs: "list_all (\<lambda>c. 0 \<le> GetNumBytes c \<and> GetNumBytes c \<le> big) (added [x])"
    "list_all (\<lambda>c. 0 \<le> GetNumBytes c \<and> GetNumBytes c \<le> big) (added xs)"
    using Cons.prems(2) by (cases x; simp)+
  from Cons.IH [OF queue_ok_do [OF Cons.prems(1) t1(1) xs(1) assms] xs(2) t1(2)] show ?case .
qed simp

text \<open>
  C34. A tape never holds more than three batches and one chunk in memory, whatever the disk does:
  the queued audio stays below the limit plus the largest chunk, the size counter (a wrapping
  \<open>unsigned int\<close>) is exact, and pushes minus pops is the length of the queue.
\<close>

theorem tape_queue_bounded:
  assumes "tape_run cfg ops lt files xs (AudioTape_new cfg lt now port, [], []) = Done (t, acc, rdy)"
    "list_all (\<lambda>c. 0 \<le> GetNumBytes c \<and> GetNumBytes c \<le> big) (added xs)"
    "0 \<le> cfg_captureFileBatchSizeKByte cfg" "0 < cfg_captureFileBatchSizeKByte cfg * 3 * 1024 + big"
    "cfg_captureFileBatchSizeKByte cfg * 3 * 1024 + big < 2 ^ 32"
  shows "chunk_sizes (tp_chunkQueue t) < cfg_captureFileBatchSizeKByte cfg * 3 * 1024 + big \<and>
    uint (tp_queueDataSize t) = chunk_sizes (tp_chunkQueue t) \<and>
    tp_pushCount t - tp_popCount t = int (length (tp_chunkQueue t)) \<and>
    int (length (tp_chunkQueue t)) \<le> tp_highMark t"
proof -
  let ?lim = "cfg_captureFileBatchSizeKByte cfg * 3 * 1024"
  have lim: "0 \<le> ?lim" using assms(3) by simp
  have "queue_ok ?lim big (AudioTape_new cfg lt now port)"
    using assms(4)
    by (simp add: queue_ok_def AudioTape_new_def GenerateCaptureFilePathAndIdentifier_def Let_def)
  from queue_ok_run [OF refl lim assms(5) this assms(2,1)] have ok: "queue_ok ?lim big t" .
  then have "0 \<le> chunk_sizes (tp_chunkQueue t)" "chunk_sizes (tp_chunkQueue t) < ?lim + big"
    using chunk_sizes_nonneg by (auto simp: queue_ok_def)
  moreover from this assms(5) have
    "uint (word_of_int (chunk_sizes (tp_chunkQueue t)) :: u32) = chunk_sizes (tp_chunkQueue t)"
    by (simp add: uint_word_of_int take_bit_int_eq_self)
  ultimately show ?thesis using ok by (simp add: queue_ok_def)
qed

theorem tape_queue_bounded_witness:
  "\<exists>t acc rdy. tape_run example_config null_file example_time []
      [AddChunk (example_chunk [7, 8] 0), AddChunk (example_chunk [7, 8] 2)]
      (AudioTape_new example_config example_time 5 ''port'', [], []) = Done (t, acc, rdy) \<and>
    chunk_sizes (tp_chunkQueue t) = 4 \<and> uint (tp_queueDataSize t) = chunk_sizes (tp_chunkQueue t)"
proof -
  let ?xs = "[AddChunk (example_chunk [7, 8] 0), AddChunk (example_chunk [7, 8] 2)]"
  obtain t acc rdy where r: "tape_run example_config null_file example_time [] ?xs
      (AudioTape_new example_config example_time 5 ''port'', [], []) = Done (t, acc, rdy)"
    "chunk_sizes (tp_chunkQueue t) = 4"
    by (simp add: tape_do_def AudioTape_new_def GenerateCaptureFilePathAndIdentifier_def
        example_config_def Tape_AddAudioChunk_def example_chunk_def GetNumBytes_def Let_def)
  have "list_all (\<lambda>c. 0 \<le> GetNumBytes c \<and> GetNumBytes c \<le> 2) (added ?xs)"
    by (simp add: GetNumBytes_def example_chunk_def)
  from tape_queue_bounded [OF r(1) this] r show ?thesis by (simp add: example_config_def)
qed

section \<open>A party that passes the filter late\<close>

text \<open>
  With a party filter, a tape that is written before any of its parties is known gets the state
  of a tape with an open file, but has none. When a party then passes the filter, the next chunk is
  written through the NULL file reference.
\<close>

theorem late_party_match_crashes:
  assumes "PartyFilterActive cfg" "PartyFilterMatches cfg party"
    "map_party (cfg_partyFilterMap cfg) party = Some p"
    "0 \<le> cfg_captureFileSizeLimitKb cfg"
    "word_of_int (cfg_captureFileBatchSizeKByte cfg * 3 * 1024) \<noteq> (0 :: u32)"
  shows "tape_run cfg ops lt files
    [DoWrite t1, DoEvent t2 (CaptureEvent_new\<lparr>ev_type := EtRemoteParty, ev_value := party\<rparr>) False,
     AddChunk c, DoWrite t3] (AudioTape_new cfg lt now port, [], []) = Undefined"
  using assms
  by (simp add: tape_do_def AudioTape_new_def GenerateCaptureFilePathAndIdentifier_def Let_def
      Write_def Tape_AddCaptureEvent_def apply_event_def CaptureEvent_new_def test_party_def
      Tape_AddAudioChunk_def write_one_def append_chunk_def pop_chunk_def not_le word_neq_0_conv)

theorem late_party_match_crashes_witness:
  "tape_run (example_config\<lparr>cfg_partyFilter := [''100-199'']\<rparr>) null_file example_time []
    [DoWrite 1, DoEvent 2 (CaptureEvent_new\<lparr>ev_type := EtRemoteParty, ev_value := ''150''\<rparr>) False,
     AddChunk (example_chunk [7] 0), DoWrite 3] (AudioTape_new (example_config\<lparr>cfg_partyFilter := [''100-199'']\<rparr>)
       example_time 0 ''port'', [], []) = Undefined"
proof (rule late_party_match_crashes)
  show "PartyFilterMatches (example_config\<lparr>cfg_partyFilter := [''100-199'']\<rparr>) ''150''"
    by (simp add: PartyFilterMatches_def party_pattern_matches_def example_config_def c_str_def
        strtol10_def party_value_def StringToInt_def is_digit_def is_space_def digit_val_def
        clamp_long_def to_int32_def Let_def)
qed (simp_all add: PartyFilterActive_def example_config_def)

end
