(* ===== verification/OrkTapeNames.thy ===== *)
theory OrkTapeNames
  imports OrkTape
begin

text \<open>
  What the names of capture files and recordings can be: the collision loop of
  \<open>PreventFileIdentifierCollision\<close> and the naming schemes of \<open>GenerateFinalFilePathAndIdentifier\<close>.
\<close>

section \<open>The collision loop\<close>

lemma collision_index_free:
  "collision_name path ident ext (collision_index files path ident ext i) \<notin> set files \<and>
    i \<le> collision_index files path ident ext i \<and>
    (\<forall>j. i \<le> j \<and> j < collision_index files path ident ext i \<longrightarrow>
      collision_name path ident ext j \<in> set files)"
proof (induction files path ident ext i rule: collision_index.induct)
  case (1 files path ident ext i)
  show ?case
  proof (cases "collision_name path ident ext i \<in> set files")
    case True
    then have "collision_index files path ident ext i = collision_index files path ident ext (Suc i)"
      by (simp add: collision_index.simps [of files path ident ext i])
    with "1.IH" [OF True] True show ?thesis
      by (metis Suc_leI Suc_leD le_neq_implies_less)
  next
    case False
    then show ?thesis by (auto simp: collision_index.simps [of files path ident ext i])
  qed
qed

text \<open>
  The loop that looks for a free file name ends at the first free one of the numbered names; the
  identifier takes the unique id of the recording exactly when the plain name exists. The number
  found is not used and the name with the unique id is not checked: it may exist as well.
\<close>

theorem file_collision:
  "collision_name path (tp_fileIdentifier t) ext
      (LEAST i. collision_name path (tp_fileIdentifier t) ext i \<notin> set files) \<notin> set files \<and>
    collision_index files path (tp_fileIdentifier t) ext 0 =
      (LEAST i. collision_name path (tp_fileIdentifier t) ext i \<notin> set files) \<and>
    tp_fileIdentifier (PreventFileIdentifierCollision files path ext t) =
      (if path @ tp_fileIdentifier t @ ext \<in> set files
       then tp_fileIdentifier t @ ''-'' @ tp_orkUid t else tp_fileIdentifier t)"
proof -
  let ?i = "collision_index files path (tp_fileIdentifier t) ext 0"
  have free: "collision_name path (tp_fileIdentifier t) ext ?i \<notin> set files"
    and below: "j < ?i \<Longrightarrow> collision_name path (tp_fileIdentifier t) ext j \<in> set files" for j
    using collision_index_free [of path "tp_fileIdentifier t" ext files 0] by auto
  have least: "(LEAST i. collision_name path (tp_fileIdentifier t) ext i \<notin> set files) = ?i"
    using free below by (intro Least_equality) (auto simp: not_less [symmetric])
  have "?i \<noteq> 0 \<longleftrightarrow> path @ tp_fileIdentifier t @ ext \<in> set files"
    using free below [of 0] by (cases ?i) (auto simp: collision_name_def)
  with free least show ?thesis by (simp add: PreventFileIdentifierCollision_def Let_def)
qed

section \<open>Recordings stay where they should\<close>

lemma hex_digits_no_slash: "i < 16 \<Longrightarrow> hex_digits ! i \<noteq> CHR ''/''"
  by (simp add: hex_digits_def nth_Cons' split: if_splits)

lemma FileEscapeName_no_slash: "CHR ''/'' \<notin> set (FileEscapeName s)"
proof -
  have "chr_code c < 256" for c :: char by simp
  then have "chr_code c div 16 < 16" for c :: char by (simp add: less_mult_imp_div_less)
  then have "CHR ''/'' \<notin> set (if url_ok c then [c]
      else [CHR ''%'', hex_digits ! (chr_code c div 16), hex_digits ! (chr_code c mod 16)])" for c
    using hex_digits_no_slash [of "chr_code c div 16"] hex_digits_no_slash [of "chr_code c mod 16"]
    by (auto simp: url_ok_def url_ok_chars_def)
  then show ?thesis
    unfolding FileEscapeName_def set_concat set_map by blast
qed

lemma final_identifier_result:
  assumes "final_identifier cfg hostname t = Done t'" "cfg_tapeFileNaming cfg \<noteq> []"
    "naming_loop hostname t (cfg_tapeFileNaming cfg) = Done p" "p \<noteq> []"
  shows "tp_fileIdentifier t' = FileEscapeName p \<and> tp_orkUid t' = tp_orkUid t"
  using assms by (auto simp: final_identifier_def)

lemma GenerateFinalFilePath_identifier:
  "GenerateFinalFilePath cfg hostname t = Done t' \<Longrightarrow>
    tp_fileIdentifier t' = tp_fileIdentifier t \<and> tp_orkUid t' = tp_orkUid t"
  by (auto simp: GenerateFinalFilePath_def split: if_splits outcome.splits)

text \<open>
  A file naming scheme never gives a file name with a directory separator, whatever the parties,
  tags and addresses of the call are: they are escaped, and only the recording's own unique id is
  added after that.
\<close>

theorem recording_name_safe:
  assumes "GenerateFinalFilePathAndIdentifier cfg files hostname hostpath t = Done t'"
    "cfg_tapeFileNaming cfg \<noteq> []" "naming_loop hostname t (cfg_tapeFileNaming cfg) = Done p" "p \<noteq> []"
    "CHR ''/'' \<notin> set (tp_orkUid t)"
  shows "CHR ''/'' \<notin> set (tp_fileIdentifier t') \<and>
    tp_fileIdentifier t' \<in> {FileEscapeName p, FileEscapeName p @ ''-'' @ tp_orkUid t}"
proof -
  from assms(1) obtain t1 t2 where t: "final_identifier cfg hostname t = Done t1"
    "(if cfg_tapePathNaming cfg \<noteq> [] then GenerateFinalFilePath cfg hostpath t1 else Done t1) = Done t2"
    "t' = PreventFileIdentifierCollision files
       (cfg_audioOutputPath cfg @ ''/'' @ tp_filePath t2 @ ''/'') (tp_fileExtension t2) t2"
    using assms(2)
    by (auto simp: GenerateFinalFilePathAndIdentifier_def split: outcome.splits if_splits)
  have "tp_fileIdentifier t2 = FileEscapeName p \<and> tp_orkUid t2 = tp_orkUid t"
    using t(2) final_identifier_result [OF t(1) assms(2-4)] GenerateFinalFilePath_identifier [of cfg hostpath t1 t2]
    by (auto split: if_splits)
  with assms(5) FileEscapeName_no_slash [of p] show ?thesis
    by (auto simp: t(3) PreventFileIdentifierCollision_def Let_def)
qed

definition named_tape :: "string \<Rightarrow> unit AudioTape" where
  "named_tape party = \<lparr>tp_marks = [], tp_portId = ''p'', tp_localParty = ''204'', tp_localEntryPoint = [],
     tp_remoteParty = party, tp_direction = DirIn, tp_localSide = LocalSideUnkn,
     tp_keepDirection = AudioKeepDirectionBoth, tp_beginDate = 0, tp_duration = 0, tp_localIp = [],
     tp_remoteIp = [], tp_trackingId = ''t'', tp_nativeCallId = [], tp_state = StateStopped,
     tp_numErrors = 0, tp_onDemand = False, tp_keep = True, tp_isExternal = False,
     tp_isDoneProcessed = False, tp_isQueued = False, tp_fromProcessMcf = False, tp_lastHoldTs = 0,
     tp_holdDuration = 0, tp_filePath = [], tp_fileIdentifier = ''id'', tp_fileExtension = ''.wav'',
     tp_time = \<lparr>tm_year = 124, tm_mon = 0, tm_mday = 1, tm_hour = 0, tm_min = 0, tm_sec = 0\<rparr>,
     tp_chunkQueue = [], tp_pushCount = 0, tp_popCount = 0, tp_highMark = 0, tp_rejectedCount = 0,
     tp_queueDataSize = 0, tp_queueErrorReported = False, tp_eventQueue = [],
     tp_toSendEventQueue = [], tp_audioFile = None, tp_shouldStop = True, tp_readyForBatch = False,
     tp_orkUid = ''uid'', tp_tags = [], tp_bytesWritten = 9, tp_lastLogWarning = 0,
     tp_passedPartyFilter = False\<rparr>"

definition naming_config :: "string list \<Rightarrow> string list \<Rightarrow> tape_config" where
  "naming_config names paths = \<lparr>cfg_audioKeepDirectionIncomingDefault = ''both'',
     cfg_audioKeepDirectionOutgoingDefault = ''both'', cfg_audioKeepDirectionDefault = ''both'',
     cfg_audioOutputPath = ''/audio'', cfg_audioOutputPathMcf = ''/mcf'',
     cfg_captureFileBatchSizeKByte = 200, cfg_captureFileSizeLimitKb = 300000, cfg_partyFilter = [],
     cfg_partyFilterMap = [], cfg_remotePartyMaxDigits = 0, cfg_dtmfReportingDetailed = False,
     cfg_dynamicTags = [], cfg_tagsListUseInitialValue = [], cfg_storageAudioFormat = FfGsm,
     cfg_directionForcePrefix = [], cfg_directionForceMinLength = 0,
     cfg_holdResumeReportEvents = False, cfg_holdResumeReportDuration = False,
     cfg_serviceName = ''ork'', cfg_tapeFileNaming = names, cfg_tapePathNaming = paths\<rparr>"

lemma remoteparty_piece:
  "naming_piece h (named_tape party) ''[remoteparty]'' = Done (or_else party ''noremoteparty'')"
  using ta.name_read [of TaRemoteParty]
  by (simp add: naming_piece_def TapeAttributeToString_def named_tape_def)

theorem recording_name_safe_witness:
  "\<exists>t'. GenerateFinalFilePathAndIdentifier (naming_config [''[remoteparty]''] []) [] ''h'' ''h''
      (named_tape ''../a'') = Done t' \<and> CHR ''/'' \<notin> set (tp_fileIdentifier t')"
proof -
  have p: "naming_loop ''h'' (named_tape ''../a'')
      (cfg_tapeFileNaming (naming_config [''[remoteparty]''] [])) = Done ''../a''"
    by (simp add: naming_config_def remoteparty_piece or_else_def)
  then obtain t' where "GenerateFinalFilePathAndIdentifier (naming_config [''[remoteparty]''] []) [] ''h'' ''h''
      (named_tape ''../a'') = Done t'"
    by (simp add: GenerateFinalFilePathAndIdentifier_def final_identifier_def naming_config_def)
  with recording_name_safe [OF this _ p] show ?thesis by (simp add: naming_config_def named_tape_def)
qed

text \<open>A path naming scheme has no such protection: a party can name any directory.\<close>

theorem recording_path_unescaped:
  "\<exists>t'. GenerateFinalFilePathAndIdentifier (naming_config [] [''[remoteparty]'']) [] ''h'' ''h''
      (named_tape ''../../etc'') = Done t' \<and> tp_filePath t' = ''../../etc''"
  by (simp add: GenerateFinalFilePathAndIdentifier_def final_identifier_def naming_config_def
      GenerateFinalFilePath_def remoteparty_piece or_else_def PreventFileIdentifierCollision_def Let_def)

end
