(* ===== verification/OrkPort.thy ===== *)
theory OrkPort
  imports OrkTape Complex_Main
begin

text \<open>
  Capture ports (orkbasecxx/CapturePort.cpp): a port receives the audio chunks and the capture events
  of one source, creates a tape per call, and sends the tape's messages to reporting and the tape to
  immediate processing. Tapes and ports are shared objects: they live in a store, and a reference is
  an address in it.

  The filters of a port are objects with methods \<open>filter_ops\<close>. The time is an argument; the calls of
  \<open>time(NULL)\<close> within one operation give the same second. Levels and durations (\<open>double\<close>) are
  rationals, without rounding; a sample rate is not zero. Logging is left out.
\<close>

section \<open>The objects a port uses\<close>

record 'f port_world =
  w_tapes :: "'f AudioTape list"
  w_immediate :: "nat list"
  w_permits :: nat
  w_messages :: "TapeMsg list"

record 'g filter_ops =
  flt_chunk :: "AudioChunk option \<Rightarrow> 'g \<Rightarrow> 'g \<times> AudioChunk option"
  flt_event :: "CaptureEvent \<Rightarrow> 'g \<Rightarrow> 'g \<times> CaptureEvent"

record 'g port_env =
  pe_tape :: tape_config
  pe_audioOutputEnable :: bool
  pe_audioSegmentation :: bool
  pe_audioSegmentDuration :: int
  pe_vad :: bool
  pe_vadHighThresholdDb :: rat
  pe_vadLowThresholdDb :: rat
  pe_vadHoldOnSec :: rat
  pe_localtime :: "int \<Rightarrow> exp_time"
  pe_filter :: "'g filter_ops"
  pe_rmsDb :: "AudioChunk \<Rightarrow> rat"
  pe_uninit :: bool

record 'g CapturePort =
  cp_id :: string
  cp_tape :: "nat option"
  cp_capturing :: bool
  cp_vadBelowThresholdSec :: rat
  cp_vadUp :: bool
  cp_lastUpdated :: int
  cp_filters :: "'g list"
  cp_decoders :: "'g option list"
  cp_captureEvents :: "CaptureEvent list"
  cp_needSendStop :: bool
  cp_segmentNumber :: int

definition RTP_PAYLOAD_TYPE_MAX :: nat where
  "RTP_PAYLOAD_TYPE_MAX = 127"

text \<open>\<open>LoadFilters\<close>: the registry gives a new filter by name, or a decoder by payload type, if any.\<close>

definition LoadFilters ::
    "'g port_env \<Rightarrow> string list \<Rightarrow> (string \<Rightarrow> 'g option) \<Rightarrow> (nat \<Rightarrow> 'g option) \<Rightarrow> 'g list \<times> 'g option list" where
  "LoadFilters env names by_name by_type =
     (List.map_filter by_name names,
      if pe_vad env then map by_type [0..<RTP_PAYLOAD_TYPE_MAX] else [])"

definition CapturePort_new ::
    "'g port_env \<Rightarrow> string list \<Rightarrow> (string \<Rightarrow> 'g option) \<Rightarrow> (nat \<Rightarrow> 'g option) \<Rightarrow> string \<Rightarrow> 'g CapturePort" where
  "CapturePort_new env names by_name by_type portId =
     (let (fs, ds) = LoadFilters env names by_name by_type
      in \<lparr>cp_id = portId, cp_tape = None, cp_capturing = False, cp_vadBelowThresholdSec = 0,
          cp_vadUp = False, cp_lastUpdated = 0, cp_filters = fs, cp_decoders = ds,
          cp_captureEvents = [], cp_needSendStop = False, cp_segmentNumber = 0\<rparr>)"

text \<open>Each filter of a list works on what the one before it left.\<close>

fun run_filters :: "('x \<Rightarrow> 'g \<Rightarrow> 'g \<times> 'x) \<Rightarrow> 'g list \<Rightarrow> 'x \<Rightarrow> 'g list \<times> 'x" where
  "run_filters f [] x = ([], x)"
| "run_filters f (g # gs) x =
     (let (g', x') = f x g; (gs', x'') = run_filters f gs x' in (g' # gs', x''))"

definition FilterAudioChunk ::
    "'g port_env \<Rightarrow> AudioChunk option \<Rightarrow> 'g CapturePort \<Rightarrow> 'g CapturePort \<times> AudioChunk option" where
  "FilterAudioChunk env c p =
     (let (gs, c') = run_filters (flt_chunk (pe_filter env)) (cp_filters p) c
      in (p\<lparr>cp_filters := gs\<rparr>, c'))"

definition FilterCaptureEvent ::
    "'g port_env \<Rightarrow> CaptureEvent \<Rightarrow> 'g CapturePort \<Rightarrow> 'g CapturePort \<times> CaptureEvent" where
  "FilterCaptureEvent env e p =
     (let (gs, e') = run_filters (flt_event (pe_filter env)) (cp_filters p) e
      in (p\<lparr>cp_filters := gs\<rparr>, e'))"

definition QueueCaptureEvent :: "CaptureEvent \<Rightarrow> 'g CapturePort \<Rightarrow> 'g CapturePort" where
  "QueueCaptureEvent e p = p\<lparr>cp_captureEvents := cp_captureEvents p @ [e]\<rparr>"

definition ClearEventQueue :: "'g CapturePort \<Rightarrow> 'g CapturePort" where
  "ClearEventQueue p = p\<lparr>cp_captureEvents := []\<rparr>"

section \<open>Reporting and immediate processing\<close>

definition the_tape :: "nat \<Rightarrow> 'f port_world \<Rightarrow> 'f AudioTape" where
  "the_tape a w = w_tapes w ! a"

definition put_tape :: "nat \<Rightarrow> 'f AudioTape \<Rightarrow> 'f port_world \<Rightarrow> 'f port_world" where
  "put_tape a t w = w\<lparr>w_tapes := (w_tapes w)[a := t]\<rparr>"

text \<open>\<open>Reporting::AddMessage\<close> serialises the message it is given, which must not be NULL.\<close>

definition Reporting_AddMessage :: "TapeMsg option \<Rightarrow> 'f port_world \<Rightarrow> 'f port_world outcome" where
  "Reporting_AddMessage m w =
     (case m of None \<Rightarrow> Undefined | Some x \<Rightarrow> Done (w\<lparr>w_messages := w_messages w @ [x]\<rparr>))"

text \<open>\<open>GetMessage\<close> on a tape and \<open>AddMessage\<close> of the result.\<close>

definition report :: "'g port_env \<Rightarrow> nat \<Rightarrow> 'f port_world \<Rightarrow> 'f port_world outcome" where
  "report env a w =
     (let (m, t) = GetMessage (pe_tape env) (pe_uninit env) (the_tape a w)
      in Reporting_AddMessage m (put_tape a t w))"

text \<open>\<open>ImmediateProcessing::Push\<close>: a tape is queued once, the semaphore is released each time.\<close>

definition ImmediateProcessing_Push :: "nat option \<Rightarrow> 'f port_world \<Rightarrow> 'f port_world" where
  "ImmediateProcessing_Push r w =
     (case r of
        None \<Rightarrow> w
      | Some a \<Rightarrow>
          let t = the_tape a w;
              w1 = (if tp_isQueued t then w
                    else (put_tape a (t\<lparr>tp_isQueued := True\<rparr>) w)\<lparr>w_immediate := w_immediate w @ [a]\<rparr>)
          in w1\<lparr>w_permits := w_permits w1 + 1\<rparr>)"

text \<open>\<open>ImmediateProcessing::Pop\<close>, once the semaphore let it pass.\<close>

definition ImmediateProcessing_Pop :: "'f port_world \<Rightarrow> nat option \<times> 'f port_world" where
  "ImmediateProcessing_Pop w =
     (case w_immediate w of
        [] \<Rightarrow> (None, w)
      | a # q \<Rightarrow> (Some a, put_tape a ((the_tape a w)\<lparr>tp_isQueued := False\<rparr>) (w\<lparr>w_immediate := q\<rparr>)))"

section \<open>Capture events\<close>

text \<open>Adding an event to the tape at an address.\<close>

definition tape_event ::
    "'g port_env \<Rightarrow> int \<Rightarrow> nat \<Rightarrow> CaptureEvent \<Rightarrow> bool \<Rightarrow> 'f port_world \<Rightarrow> 'f port_world outcome" where
  "tape_event env now a e send w =
     and_then (Tape_AddCaptureEvent (pe_tape env) (pe_localtime env) now e send (the_tape a w))
       (\<lambda>t. Done (put_tape a t w))"

definition new_tape :: "'g port_env \<Rightarrow> int \<Rightarrow> string \<Rightarrow> 'f port_world \<Rightarrow> nat \<times> 'f port_world" where
  "new_tape env now portId w =
     (length (w_tapes w),
      w\<lparr>w_tapes := w_tapes w @ [AudioTape_new (pe_tape env) (pe_localtime env) now portId]\<rparr>)"

definition on_start ::
    "'g port_env \<Rightarrow> int \<Rightarrow> CaptureEvent \<Rightarrow> 'g CapturePort \<Rightarrow> 'f port_world
      \<Rightarrow> ('g CapturePort \<times> 'f port_world) outcome" where
  "on_start env now e p w =
     (let p1 = p\<lparr>cp_capturing := True\<rparr>;
          w1 = (case cp_tape p1 of None \<Rightarrow> w | Some a \<Rightarrow> put_tape a (SetShouldStop (the_tape a w)) w);
          (a, w2) = new_tape env now (cp_id p1) w1
      in and_then (tape_event env now a e True w2) (\<lambda>w3. Done (p1\<lparr>cp_tape := Some a\<rparr>, w3)))"

definition on_stop ::
    "'g port_env \<Rightarrow> int \<Rightarrow> nat \<Rightarrow> CaptureEvent \<Rightarrow> 'g CapturePort \<Rightarrow> 'f port_world
      \<Rightarrow> ('g CapturePort \<times> 'f port_world) outcome" where
  "on_stop env now a e p w =
     (let t = the_tape a w;
          w1 = (if cfg_holdResumeReportDuration (pe_tape env)
                then put_tape a (PopulateTag ''holdduration'' (IntToString (tp_holdDuration t)) t) w else w)
      in and_then (tape_event env now a e True w1) (\<lambda>w2.
         and_then (report env a w2) (\<lambda>w3.
         Done (p\<lparr>cp_capturing := False, cp_needSendStop := False\<rparr>,
               ImmediateProcessing_Push (cp_tape p) w3))))"

text \<open>The \<open>int\<close> members that hold times keep the low 32 bits.\<close>

definition on_hold ::
    "'g port_env \<Rightarrow> int \<Rightarrow> nat \<Rightarrow> CaptureEvent \<Rightarrow> 'f port_world \<Rightarrow> 'f port_world outcome" where
  "on_hold env now a e w =
     (let t = the_tape a w
      in if tp_lastHoldTs t \<noteq> 0 then Done w
         else
           let w1 = put_tape a (t\<lparr>tp_lastHoldTs := to_int32 now\<rparr>) w
           in if cfg_holdResumeReportEvents (pe_tape env)
              then and_then (tape_event env now a e True w1) (report env a) else Done w1)"

definition on_resume ::
    "'g port_env \<Rightarrow> int \<Rightarrow> nat \<Rightarrow> CaptureEvent \<Rightarrow> 'f port_world \<Rightarrow> 'f port_world outcome" where
  "on_resume env now a e w =
     (let t = the_tape a w;
          held = tp_lastHoldTs t > 0;
          w1 = (if held then put_tape a (t\<lparr>tp_holdDuration :=
                  to_int32 (tp_holdDuration t + (now - tp_lastHoldTs t))\<rparr>) w else w)
      in and_then (if cfg_holdResumeReportEvents (pe_tape env) \<and> held
                   then and_then (tape_event env now a e True w1) (report env a) else Done w1)
           (\<lambda>w2. Done (put_tape a ((the_tape a w2)\<lparr>tp_lastHoldTs := 0\<rparr>) w2)))"

definition Port_AddCaptureEvent ::
    "'g port_env \<Rightarrow> int \<Rightarrow> CaptureEvent \<Rightarrow> 'g CapturePort \<times> 'f port_world
      \<Rightarrow> ('g CapturePort \<times> 'f port_world) outcome" where
  "Port_AddCaptureEvent env now ev0 s =
     (let (p0, w) = s;
          (pf, e) = FilterCaptureEvent env ev0 p0;
          p = pf\<lparr>cp_lastUpdated := now\<rparr>
      in if ev_type e = EtStart then on_start env now e p w
         else case cp_tape p of
             None \<Rightarrow> Done (p, w)
           | Some a \<Rightarrow>
               (case ev_type e of
                  EtStop \<Rightarrow> on_stop env now a e p w
                | EtHold \<Rightarrow> and_then (on_hold env now a e w) (\<lambda>w'. Done (p, w'))
                | EtResume \<Rightarrow> and_then (on_resume env now a e w) (\<lambda>w'. Done (p, w'))
                | EtEndMetadata \<Rightarrow>
                    and_then (report env a w) (\<lambda>w'. Done (p\<lparr>cp_needSendStop := True\<rparr>, w'))
                | EtUpdate \<Rightarrow>
                    and_then (and_then (tape_event env now a e True w) (report env a))
                      (\<lambda>w'. Done (p, w'))
                | _ \<Rightarrow> and_then (tape_event env now a e False w) (\<lambda>w'. Done (p, w'))))"

section \<open>Audio\<close>

definition port_event :: "EventTypeEnum \<Rightarrow> int \<Rightarrow> string \<Rightarrow> CaptureEvent" where
  "port_event et ts v = CaptureEvent_new\<lparr>ev_type := et, ev_timestamp := ts, ev_value := v\<rparr>"

text \<open>Queued events go to a new tape; a unique id gets the number of the segment.\<close>

fun ReportEventBacklog ::
    "'g port_env \<Rightarrow> int \<Rightarrow> CaptureEvent list \<Rightarrow> 'g CapturePort \<times> 'f port_world
      \<Rightarrow> ('g CapturePort \<times> 'f port_world) outcome" where
  "ReportEventBacklog env now [] s = Done s"
| "ReportEventBacklog env now (e # es) s =
     (if ev_type e = EtOrkUid then
        (let (p, w) = s;
             p1 = p\<lparr>cp_segmentNumber := cp_segmentNumber p + 1\<rparr>;
             uid = c_str (ev_value e) @ ''_'' @ IntToString (cp_segmentNumber p1)
         in and_then (Port_AddCaptureEvent env now (CaptureEvent_new\<lparr>ev_type := EtOrkUid, ev_value := uid\<rparr>) (p1, w))
              (ReportEventBacklog env now es))
      else and_then (Port_AddCaptureEvent env now e s) (ReportEventBacklog env now es))"

text \<open>A new tape for the port, its start event, and the queued events.\<close>

definition start_tape ::
    "'g port_env \<Rightarrow> int \<Rightarrow> 'g CapturePort \<times> 'f port_world \<Rightarrow> ('g CapturePort \<times> 'f port_world) outcome" where
  "start_tape env now s =
     (let (p, w) = s;
          (a, w1) = new_tape env now (cp_id p) w
      in and_then (Port_AddCaptureEvent env now (port_event EtStart now (cp_id p)) (p\<lparr>cp_tape := Some a\<rparr>, w1))
           (\<lambda>s1. ReportEventBacklog env now (cp_captureEvents (fst s1)) s1))"

definition segment_audio ::
    "'g port_env \<Rightarrow> int \<Rightarrow> 'g CapturePort \<times> 'f port_world \<Rightarrow> ('g CapturePort \<times> 'f port_world) outcome" where
  "segment_audio env now s =
     (case cp_tape (fst s) of
        None \<Rightarrow> start_tape env now s
      | Some a \<Rightarrow>
          if now - tp_beginDate (the_tape a (snd s)) \<ge> pe_audioSegmentDuration env
          then and_then (Port_AddCaptureEvent env now (port_event EtStop now []) s) (start_tape env now)
          else Done s)"

text \<open>\<open>GetDurationSec\<close>.\<close>

definition duration_sec :: "AudioChunk \<Rightarrow> rat outcome" where
  "duration_sec c = and_then (GetNumSamples c)
     (\<lambda>n. Done (of_int n / of_int (uint (cd_sampleRate (ac_details c)))))"

text \<open>The chunk the detector looks at: a coded one goes through the decoder of its payload type.\<close>

definition vad_chunk ::
    "'g port_env \<Rightarrow> AudioChunk \<Rightarrow> 'g CapturePort \<Rightarrow> ('g CapturePort \<times> AudioChunk option) outcome" where
  "vad_chunk env c p =
     (if GetEncoding c = PcmAudio then Done (p, Some c)
      else
        let pt = sint (cd_rtpPayloadType (ac_details c))
        in if pt < 0 \<or> pt \<ge> int (length (cp_decoders p)) then Thrown
           else case cp_decoders p ! nat pt of
               None \<Rightarrow> Done (p, None)
             | Some g \<Rightarrow>
                 let (g', c') = flt_chunk (pe_filter env) (Some c) g
                 in Done (p\<lparr>cp_decoders := (cp_decoders p)[nat pt := Some g']\<rparr>, c'))"

definition vad_ongoing ::
    "'g port_env \<Rightarrow> int \<Rightarrow> AudioChunk \<Rightarrow> 'g CapturePort \<times> 'f port_world
      \<Rightarrow> ('g CapturePort \<times> 'f port_world) outcome" where
  "vad_ongoing env now c s =
     (let (p, w) = s
      in and_then (if pe_rmsDb env c < pe_vadLowThresholdDb env
                   then and_then (duration_sec c) (\<lambda>d. Done (cp_vadBelowThresholdSec p + d)) else Done 0)
         (\<lambda>below.
           let p1 = p\<lparr>cp_vadBelowThresholdSec := below\<rparr>
           in if below > pe_vadHoldOnSec env then
                and_then (Port_AddCaptureEvent env now (port_event EtStop now []) (p1\<lparr>cp_vadUp := False\<rparr>, w))
                  (\<lambda>(p2, w2). if cp_tape p2 = None then Undefined else Done (p2\<lparr>cp_tape := None\<rparr>, w2))
              else Done (p1, w)))"

definition vad_idle ::
    "'g port_env \<Rightarrow> int \<Rightarrow> AudioChunk \<Rightarrow> 'g CapturePort \<times> 'f port_world
      \<Rightarrow> ('g CapturePort \<times> 'f port_world) outcome" where
  "vad_idle env now c s =
     (let (p, w) = s
      in if pe_rmsDb env c > pe_vadHighThresholdDb env then
           (let p1 = p\<lparr>cp_vadBelowThresholdSec := 0, cp_vadUp := True\<rparr>
            in if cp_tape p1 = None then start_tape env now (p1, w) else Done (p1, w))
         else Done (p, w))"

definition detect_voice ::
    "'g port_env \<Rightarrow> int \<Rightarrow> AudioChunk option \<Rightarrow> 'g CapturePort \<times> 'f port_world
      \<Rightarrow> ('g CapturePort \<times> 'f port_world) outcome" where
  "detect_voice env now chunk s =
     (case chunk of
        None \<Rightarrow> Undefined
      | Some c \<Rightarrow> and_then (vad_chunk env c (fst s)) (\<lambda>(p, tmp).
          case tmp of
            None \<Rightarrow> Done (p, snd s)
          | Some c' \<Rightarrow> if cp_vadUp p then vad_ongoing env now c' (p, snd s)
                       else vad_idle env now c' (p, snd s)))"

text \<open>The chunk goes to the tape, and the tape to immediate processing.\<close>

definition record_chunk ::
    "'g port_env \<Rightarrow> AudioChunk option \<Rightarrow> 'g CapturePort \<times> 'f port_world
      \<Rightarrow> ('g CapturePort \<times> 'f port_world) outcome" where
  "record_chunk env chunk s =
     (let (p, w) = s
      in case cp_tape p of
          None \<Rightarrow> Done (p, w)
        | Some a \<Rightarrow>
            if \<not> cp_capturing p then Done (p, w)
            else case chunk of
                None \<Rightarrow> if accepts (pe_tape env) (the_tape a w) then Undefined
                  else Done (p, ImmediateProcessing_Push (Some a) w)
              | Some c \<Rightarrow> Done (p, ImmediateProcessing_Push (Some a)
                  (put_tape a (Tape_AddAudioChunk (pe_tape env) c (the_tape a w)) w)))"

definition Port_AddAudioChunk ::
    "'g port_env \<Rightarrow> int \<Rightarrow> AudioChunk option \<Rightarrow> 'g CapturePort \<times> 'f port_world
      \<Rightarrow> ('g CapturePort \<times> 'f port_world) outcome" where
  "Port_AddAudioChunk env now chunk0 s =
     (let (p1, chunk) = FilterAudioChunk env chunk0 ((fst s)\<lparr>cp_lastUpdated := now\<rparr>);
          s1 = (p1, snd s)
      in if \<not> pe_audioOutputEnable env then Done s1
         else and_then
           (if pe_audioSegmentation env then segment_audio env now s1
            else if pe_vad env then detect_voice env now chunk s1 else Done s1)
           (record_chunk env chunk))"

section \<open>Expiry\<close>

definition IsExpired :: "int \<Rightarrow> 'g CapturePort \<times> 'f port_world \<Rightarrow> bool" where
  "IsExpired now s =
     (let (p, w) = s
      in if now - cp_lastUpdated p > 10 * 60 then
           (case cp_tape p of None \<Rightarrow> True | Some a \<Rightarrow> tp_state (the_tape a w) \<noteq> StateActive)
         else False)"

definition Finalize ::
    "'g port_env \<Rightarrow> int \<Rightarrow> 'g CapturePort \<times> 'f port_world \<Rightarrow> ('g CapturePort \<times> 'f port_world) outcome" where
  "Finalize env now s =
     (if cp_needSendStop (fst s) then
        and_then (Port_AddCaptureEvent env now (port_event EtStop now []) s) (\<lambda>(p, w).
          case cp_tape p of
            None \<Rightarrow> Undefined
          | Some a \<Rightarrow> and_then (report env a w) (\<lambda>w'. Done (p\<lparr>cp_needSendStop := False\<rparr>, w')))
      else Done s)"

text \<open>
  The registry of ports: addresses of ports by name, in the order of the names. A port that is
  removed may still be referred to by a session.
\<close>

record 'g CapturePorts =
  cs_ports :: "(string \<times> nat) list"
  cs_lastHooveringTime :: int

record ('g, 'f) port_system =
  ps_ports :: "'g CapturePort list"
  ps_registry :: "'g CapturePorts"
  ps_world :: "'f port_world"

definition the_port :: "nat \<Rightarrow> ('g, 'f) port_system \<Rightarrow> 'g CapturePort \<times> 'f port_world" where
  "the_port i S = (ps_ports S ! i, ps_world S)"

definition put_port ::
    "nat \<Rightarrow> 'g CapturePort \<times> 'f port_world \<Rightarrow> ('g, 'f) port_system \<Rightarrow> ('g, 'f) port_system" where
  "put_port i s S = S\<lparr>ps_ports := (ps_ports S)[i := fst s], ps_world := snd s\<rparr>"

fun dismiss ::
    "'g port_env \<Rightarrow> int \<Rightarrow> nat list \<Rightarrow> ('g, 'f) port_system \<Rightarrow> ('g, 'f) port_system outcome" where
  "dismiss env now [] S = Done S"
| "dismiss env now (i # is) S =
     and_then (Finalize env now (the_port i S)) (\<lambda>s.
       let S1 = put_port i s S
       in dismiss env now is (S1\<lparr>ps_registry := (ps_registry S1)\<lparr>cs_ports :=
            filter (\<lambda>(k, _). k \<noteq> cp_id (fst s)) (cs_ports (ps_registry S1))\<rparr>\<rparr>))"

definition Hoover :: "'g port_env \<Rightarrow> int \<Rightarrow> ('g, 'f) port_system \<Rightarrow> ('g, 'f) port_system outcome" where
  "Hoover env now S =
     (if now - cs_lastHooveringTime (ps_registry S) > 10 then
        (let S1 = S\<lparr>ps_registry := (ps_registry S)\<lparr>cs_lastHooveringTime := now\<rparr>\<rparr>;
             toDismiss = filter (\<lambda>i. IsExpired now (the_port i S1)) (map snd (cs_ports (ps_registry S1)))
         in dismiss env now toDismiss S1)
      else Done S)"

definition GetPort ::
    "'g port_env \<Rightarrow> int \<Rightarrow> string \<Rightarrow> ('g, 'f) port_system \<Rightarrow> (nat option \<times> ('g, 'f) port_system) outcome" where
  "GetPort env now portId S =
     and_then (Hoover env now S) (\<lambda>S1. Done (map_of (cs_ports (ps_registry S1)) portId, S1))"

definition AddAndReturnPort ::
    "'g port_env \<Rightarrow> string list \<Rightarrow> (string \<Rightarrow> 'g option) \<Rightarrow> (nat \<Rightarrow> 'g option) \<Rightarrow> int \<Rightarrow> string
      \<Rightarrow> ('g, 'f) port_system \<Rightarrow> (nat \<times> ('g, 'f) port_system) outcome" where
  "AddAndReturnPort env names by_name by_type now portId S =
     and_then (GetPort env now portId S) (\<lambda>(r, S1).
       case r of
         Some i \<Rightarrow> Done (i, S1)
       | None \<Rightarrow>
           let i = length (ps_ports S1)
           in Done (i, S1\<lparr>ps_ports := ps_ports S1 @ [CapturePort_new env names by_name by_type portId],
                ps_registry := (ps_registry S1)\<lparr>cs_ports :=
                  smap_insert portId i (cs_ports (ps_registry S1))\<rparr>\<rparr>))"

end
