(* ===== verification/OrkPortRuns.thy ===== *)
theory OrkPortRuns
  imports OrkPort OrkTapeRuns
begin

text \<open>
  What a capture port does over its life: exactly which sequences of calls are undefined, the messages of a
  call, the end of a voice-activated recording, the expiry of ports, and what the party filter does
  to a rejected call.
\<close>

section \<open>Safe sequences of calls\<close>

datatype ('f, 'g) port_op = PEvent int CaptureEvent | PChunk int AudioChunk | PQueue CaptureEvent
  | PClear | PFinalize int | PTapeChanges nat "'f AudioTape"

text \<open>\<open>PTapeChanges\<close> is anything another thread does to a tape.\<close>

definition port_do ::
    "'g port_env \<Rightarrow> ('f, 'g) port_op \<Rightarrow> 'g CapturePort \<times> 'f port_world
      \<Rightarrow> ('g CapturePort \<times> 'f port_world) outcome" where
  "port_do env x s = (case x of
       PEvent now e \<Rightarrow> Port_AddCaptureEvent env now e s
     | PChunk now c \<Rightarrow> Port_AddAudioChunk env now (Some c) s
     | PQueue e \<Rightarrow> Done (QueueCaptureEvent e (fst s), snd s)
     | PClear \<Rightarrow> Done (ClearEventQueue (fst s), snd s)
     | PFinalize now \<Rightarrow> Finalize env now s
     | PTapeChanges a t \<Rightarrow> Done (fst s, put_tape a t (snd s)))"

text \<open>
  A configuration without party filter; \<open>keeps g\<close> says of a filter that it does not change the type
  of an event, now or later. A filter may swallow chunks, as the mixer does while its queue is empty.
\<close>

definition env_plain :: "'g port_env \<Rightarrow> bool" where
  "env_plain env \<longleftrightarrow> \<not> PartyFilterActive (pe_tape env) \<and> party_map_ok (pe_tape env)"

definition keeps_ok :: "'g port_env \<Rightarrow> ('g \<Rightarrow> bool) \<Rightarrow> bool" where
  "keeps_ok env keeps \<longleftrightarrow> (\<forall>g. keeps g \<longrightarrow>
     (\<forall>c. keeps (fst (flt_chunk (pe_filter env) c g))) \<and>
     (\<forall>e. keeps (fst (flt_event (pe_filter env) e g)) \<and> ev_type (snd (flt_event (pe_filter env) e g)) = ev_type e))"

definition port_ok :: "('g \<Rightarrow> bool) \<Rightarrow> 'g CapturePort \<times> 'f port_world \<Rightarrow> bool" where
  "port_ok keeps s \<longleftrightarrow>
     (case cp_tape (fst s) of
        None \<Rightarrow> \<not> cp_needSendStop (fst s) \<and> \<not> cp_vadUp (fst s)
      | Some a \<Rightarrow> a < length (w_tapes (snd s))) \<and>
     list_all keeps (cp_filters (fst s))"

lemma keeps_event:
  "keeps_ok env keeps \<Longrightarrow> keeps g \<Longrightarrow> flt_event (pe_filter env) e g = (g', e') \<Longrightarrow>
    keeps g' \<and> ev_type e' = ev_type e"
  unfolding keeps_ok_def by (metis fst_conv snd_conv)

lemma keeps_chunk:
  "keeps_ok env keeps \<Longrightarrow> keeps g \<Longrightarrow> flt_chunk (pe_filter env) c g = (g', c') \<Longrightarrow> keeps g'"
  unfolding keeps_ok_def by (metis fst_conv)

lemma FilterCaptureEvent_keeps:
  assumes "keeps_ok env keeps" "list_all keeps (cp_filters p)" "FilterCaptureEvent env e p = (p', e')"
  shows "\<exists>gs. p' = p\<lparr>cp_filters := gs\<rparr> \<and> list_all keeps gs \<and> ev_type e' = ev_type e"
proof -
  have "list_all keeps fs \<Longrightarrow> run_filters (flt_event (pe_filter env)) fs e = (gs, e') \<Longrightarrow>
      list_all keeps gs \<and> ev_type e' = ev_type e" for fs gs e e'
  proof (induction fs arbitrary: gs e)
    case (Cons f fs)
    obtain f1 e1 gs1 e2 where r: "flt_event (pe_filter env) e f = (f1, e1)"
      "run_filters (flt_event (pe_filter env)) fs e1 = (gs1, e2)" by (metis surj_pair)
    with Cons keeps_event [OF assms(1) _ r(1)] show ?case by auto
  qed simp
  with assms(2,3) show ?thesis by (auto simp: FilterCaptureEvent_def split: prod.splits)
qed

lemma FilterAudioChunk_keeps:
  assumes "keeps_ok env keeps" "list_all keeps (cp_filters p)" "FilterAudioChunk env c p = (p', c')"
  shows "\<exists>gs. p' = p\<lparr>cp_filters := gs\<rparr> \<and> list_all keeps gs"
proof -
  have "list_all keeps fs \<Longrightarrow> run_filters (flt_chunk (pe_filter env)) fs c = (gs, c') \<Longrightarrow>
      list_all keeps gs" for fs gs c c'
  proof (induction fs arbitrary: gs c)
    case (Cons f fs)
    obtain f1 c1 gs1 c2 where r: "flt_chunk (pe_filter env) c f = (f1, c1)"
      "run_filters (flt_chunk (pe_filter env)) fs c1 = (gs1, c2)" by (metis surj_pair)
    with Cons keeps_chunk [OF assms(1) _ r(1)] show ?case by auto
  qed auto
  with assms(2,3) show ?thesis by (auto simp: FilterAudioChunk_def split: prod.splits)
qed

section \<open>Calls on the objects of a port\<close>

lemma length_put_tape [simp]: "length (w_tapes (put_tape a t w)) = length (w_tapes w)"
  by (simp add: put_tape_def)

lemma w_messages_put_tape [simp]: "w_messages (put_tape a t w) = w_messages w"
  by (simp add: put_tape_def)

lemma the_tape_put_tape [simp]: "a < length (w_tapes w) \<Longrightarrow> the_tape a (put_tape a t w) = t"
  by (simp add: put_tape_def the_tape_def)

lemma Push_world [simp]:
  "length (w_tapes (ImmediateProcessing_Push r w)) = length (w_tapes w)"
  "w_messages (ImmediateProcessing_Push r w) = w_messages w"
  by (simp_all add: ImmediateProcessing_Push_def Let_def split: option.splits)

text \<open>Without party filter a message is always there to report, and an event always applies.\<close>

lemma report_plain:
  assumes "env_plain env"
  shows "\<exists>m t. GetMessage (pe_tape env) (pe_uninit env) (the_tape a w) = (Some m, t) \<and>
    report env a w = Done ((put_tape a t w)\<lparr>w_messages := w_messages w @ [m]\<rparr>)"
  using assms
  by (simp add: env_plain_def report_def GetMessage_def Let_def Reporting_AddMessage_def split: list.split)

lemma report_plain_length:
  "env_plain env \<Longrightarrow> \<exists>w'. report env a w = Done w' \<and> length (w_tapes w') = length (w_tapes w)"
  using report_plain [of env a w] by auto

lemma tape_event_plain:
  assumes "env_plain env"
  shows "\<exists>t. Tape_AddCaptureEvent (pe_tape env) (pe_localtime env) now e send (the_tape a w) = Done t \<and>
    tape_event env now a e send w = Done (put_tape a t w)"
proof -
  have "party_map_ok (pe_tape env)" using assms by (simp add: env_plain_def)
  from AddCaptureEvent_total [OF this, of "pe_localtime env" now e send "the_tape a w"] show ?thesis
    by (auto simp: tape_event_def)
qed

definition world_step :: "'f port_world \<Rightarrow> 'f port_world outcome \<Rightarrow> bool" where
  "world_step w r \<longleftrightarrow> (\<exists>w'. r = Done w' \<and> length (w_tapes w') = length (w_tapes w))"

lemma world_step_Done [intro]: "length (w_tapes w') = length (w_tapes w) \<Longrightarrow> world_step w (Done w')"
  by (auto simp: world_step_def)

lemma world_step_bind:
  "world_step w r \<Longrightarrow> (\<And>w'. length (w_tapes w') = length (w_tapes w) \<Longrightarrow> world_step w' (f w')) \<Longrightarrow>
    world_step w (and_then r f)"
  unfolding world_step_def by fastforce

lemma world_step_report: "env_plain env \<Longrightarrow> world_step w (report env a w)"
  using report_plain_length [of env a w] by (simp add: world_step_def)

lemma world_step_event: "env_plain env \<Longrightarrow> world_step w (tape_event env now a e send w)"
  using tape_event_plain [of env now e send a w] by (auto simp: world_step_def)

lemma world_step_put: "world_step (put_tape a t w) r \<Longrightarrow> world_step w r"
  by (simp add: world_step_def)

lemmas world_steps = world_step_report world_step_event world_step_bind world_step_Done

lemma on_hold_plain: "env_plain env \<Longrightarrow> world_step w (on_hold env now a e w)"
  by (auto simp: on_hold_def Let_def intro!: world_steps intro: world_step_put)

lemma on_resume_plain: "env_plain env \<Longrightarrow> world_step w (on_resume env now a e w)"
  by (auto simp: on_resume_def Let_def intro!: world_steps intro: world_step_put)

text \<open>Every event but a start leaves the port's tape as it is; a start gives it a new one.\<close>

lemma on_stop_plain:
  assumes "env_plain env"
  shows "\<exists>w'. on_stop env now a e p w = Done (p\<lparr>cp_capturing := False, cp_needSendStop := False\<rparr>, w') \<and>
    length (w_tapes w') = length (w_tapes w)"
proof -
  let ?w1 = "if cfg_holdResumeReportDuration (pe_tape env)
    then put_tape a (PopulateTag ''holdduration'' (IntToString (tp_holdDuration (the_tape a w))) (the_tape a w)) w
    else w"
  obtain w2 where w2: "tape_event env now a e True ?w1 = Done w2" "length (w_tapes w2) = length (w_tapes ?w1)"
    using world_step_event [OF assms, of ?w1 now a e True] by (auto simp: world_step_def)
  obtain w3 where w3: "report env a w2 = Done w3" "length (w_tapes w3) = length (w_tapes w2)"
    using world_step_report [OF assms, of w2 a] by (auto simp: world_step_def)
  from w2 w3 show ?thesis by (simp add: on_stop_def Let_def)
qed

lemma on_start_plain:
  assumes "env_plain env"
  shows "\<exists>w' a. on_start env now e p w = Done (p\<lparr>cp_capturing := True, cp_tape := Some a\<rparr>, w') \<and>
    a < length (w_tapes w') \<and> length (w_tapes w') = Suc (length (w_tapes w))"
proof -
  let ?w1 = "case cp_tape p of None \<Rightarrow> w | Some a \<Rightarrow> put_tape a (SetShouldStop (the_tape a w)) w"
  let ?a = "length (w_tapes ?w1)"
  let ?w2 = "snd (new_tape env now (cp_id p) ?w1)"
  have len: "length (w_tapes ?w1) = length (w_tapes w)" by (simp split: option.split)
  have len2: "length (w_tapes ?w2) = Suc (length (w_tapes ?w1))" by (simp add: new_tape_def)
  obtain w3 where "tape_event env now ?a e True ?w2 = Done w3" "length (w_tapes w3) = length (w_tapes ?w2)"
    using world_step_event [OF assms, of ?w2 now ?a e True] by (auto simp: world_step_def)
  then have "on_start env now e p w = Done (p\<lparr>cp_capturing := True, cp_tape := Some ?a\<rparr>, w3)"
    "length (w_tapes w3) = Suc (length (w_tapes w))" "?a < length (w_tapes w3)"
    using len len2 by (simp_all add: on_start_def new_tape_def Let_def)
  then show ?thesis by blast
qed

definition event_keeps :: "CaptureEvent \<Rightarrow> 'g CapturePort \<Rightarrow> 'g CapturePort \<Rightarrow> bool" where
  "event_keeps e p p' \<longleftrightarrow>
     (cp_tape p' = None \<longleftrightarrow> cp_tape p = None \<and> ev_type e \<noteq> EtStart) \<and> cp_vadUp p' = cp_vadUp p \<and>
     (ev_type e = EtStop \<longrightarrow> cp_tape p \<noteq> None \<longrightarrow> \<not> cp_needSendStop p') \<and>
     cp_captureEvents p' = cp_captureEvents p \<and> cp_id p' = cp_id p \<and> cp_decoders p' = cp_decoders p"

lemma Port_AddCaptureEvent_ok:
  assumes env: "env_plain env" "keeps_ok env keeps" and ok: "port_ok keeps (p, w)"
  shows "\<exists>p' w'. Port_AddCaptureEvent env now e (p, w) = Done (p', w') \<and> port_ok keeps (p', w') \<and>
    event_keeps e p p' \<and> length (w_tapes w) \<le> length (w_tapes w')"
proof -
  obtain gs e' where f: "FilterCaptureEvent env e p = (p\<lparr>cp_filters := gs\<rparr>, e')"
    "list_all keeps gs" "ev_type e' = ev_type e"
    using FilterCaptureEvent_keeps [OF env(2), of p e] ok
    by (cases "FilterCaptureEvent env e p") (auto simp: port_ok_def)
  let ?p = "p\<lparr>cp_filters := gs, cp_lastUpdated := now\<rparr>"
  show ?thesis
  proof (cases "ev_type e = EtStart")
    case True
    from on_start_plain [OF env(1), of now e' ?p w] f True show ?thesis
      by (auto simp: Port_AddCaptureEvent_def port_ok_def event_keeps_def)
  next
    case start: False
    show ?thesis
    proof (cases "cp_tape p")
      case None
      with start f ok show ?thesis by (simp add: Port_AddCaptureEvent_def port_ok_def event_keeps_def)
    next
      case (Some a)
      have a: "a < length (w_tapes w)" using ok Some by (simp add: port_ok_def)
      note r = world_step_bind [OF world_step_event [OF env(1), of w now a e' True] world_step_report [OF env(1), of _ a]]
        world_step_event [OF env(1), of w now a e' False] world_step_report [OF env(1), of w a]
        on_hold_plain [OF env(1), of w now a e'] on_resume_plain [OF env(1), of w now a e']
      show ?thesis
      proof (cases "ev_type e = EtStop")
        case True
        with on_stop_plain [OF env(1), of now a e' ?p w] f Some a show ?thesis
          by (auto simp: Port_AddCaptureEvent_def port_ok_def event_keeps_def)
      next
        case False
        with r start f Some a show ?thesis
          by (cases "ev_type e") (auto simp: Port_AddCaptureEvent_def port_ok_def event_keeps_def world_step_def)
      qed
    qed
  qed
qed

section \<open>No call is undefined\<close>

definition sound :: "('s \<Rightarrow> bool) \<Rightarrow> 's outcome \<Rightarrow> bool" where
  "sound P r \<longleftrightarrow> r \<noteq> Undefined \<and> (\<forall>s. r = Done s \<longrightarrow> P s)"

lemma sound_simps [simp]: "sound P (Done s) \<longleftrightarrow> P s" "sound P Thrown" "\<not> sound P Undefined"
  by (auto simp: sound_def)

lemma sound_bind:
  "sound P r \<Longrightarrow> (\<And>s. P s \<Longrightarrow> sound Q (f s)) \<Longrightarrow> sound Q (and_then r f)"
  by (cases r) (auto simp: sound_def)

lemma sound_mono: "sound P r \<Longrightarrow> (\<And>s. P s \<Longrightarrow> Q s) \<Longrightarrow> sound Q r"
  by (simp add: sound_def)

lemma sound_event:
  assumes "env_plain env" "keeps_ok env keeps" "port_ok keeps s"
  shows "sound (\<lambda>s'. port_ok keeps s' \<and> event_keeps e (fst s) (fst s')) (Port_AddCaptureEvent env now e s)"
  using Port_AddCaptureEvent_ok [OF assms(1,2), of "fst s" "snd s" now e] assms(3) by auto

definition port_recording :: "('g \<Rightarrow> bool) \<Rightarrow> 'g CapturePort \<times> 'f port_world \<Rightarrow> bool" where
  "port_recording keeps s \<longleftrightarrow> port_ok keeps s \<and> cp_tape (fst s) \<noteq> None"

lemma recording_after:
  "port_ok keeps s' \<and> event_keeps e (fst s) (fst s') \<Longrightarrow> cp_tape (fst s) \<noteq> None \<or> ev_type e = EtStart \<Longrightarrow>
    port_recording keeps s'"
  by (auto simp: port_recording_def event_keeps_def)

lemma sound_backlog:
  fixes s :: "'g CapturePort \<times> 'f port_world"
  assumes "env_plain env" "keeps_ok env keeps" "port_recording keeps s"
  shows "sound (port_recording keeps) (ReportEventBacklog env now es s)"
  using assms(3)
proof (induction es arbitrary: s)
  case (Cons e es)
  obtain p w where s: "s = (p, w)" by force
  have next_event: "sound (port_recording keeps)
      (and_then (Port_AddCaptureEvent env now e1 s1) (ReportEventBacklog env now es))"
    if rec: "port_recording keeps s1" for s1 :: "'g CapturePort \<times> 'f port_world" and e1
  proof (rule sound_bind)
    show "sound (\<lambda>s'. port_ok keeps s' \<and> event_keeps e1 (fst s1) (fst s')) (Port_AddCaptureEvent env now e1 s1)"
      by (rule sound_event [OF assms(1,2)]) (use rec in \<open>simp add: port_recording_def\<close>)
    show "sound (port_recording keeps) (ReportEventBacklog env now es s2)"
      if "port_ok keeps s2 \<and> event_keeps e1 (fst s1) (fst s2)" for s2 :: "'g CapturePort \<times> 'f port_world"
      using rec by (intro Cons.IH, intro recording_after [OF that]) (simp add: port_recording_def)
  qed
  have "port_recording keeps (p\<lparr>cp_segmentNumber := cp_segmentNumber p + 1\<rparr>, w)"
    using Cons.prems s by (auto simp: port_recording_def port_ok_def)
  with Cons.prems s next_event show ?case by (simp add: Let_def)
qed simp

lemma sound_start_tape:
  assumes "env_plain env" "keeps_ok env keeps" "list_all keeps (cp_filters (fst s))"
  shows "sound (port_recording keeps) (start_tape env now s)"
proof -
  obtain p w where s: "s = (p, w)" by force
  obtain a w1 where n: "new_tape env now (cp_id p) w = (a, w1)" "a < length (w_tapes w1)"
    by (auto simp: new_tape_def)
  have "port_ok keeps (p\<lparr>cp_tape := Some a\<rparr>, w1)" using assms(3) n s by (simp add: port_ok_def)
  from sound_event [OF assms(1,2) this] show ?thesis
    unfolding start_tape_def s Let_def n(1) prod.case
    by (rule sound_bind) (rule sound_backlog [OF assms(1,2)], erule recording_after, simp)
qed

lemma sound_segment:
  assumes "env_plain env" "keeps_ok env keeps" "port_ok keeps s"
  shows "sound (port_ok keeps) (segment_audio env now s)"
proof -
  have st: "port_ok keeps s1 \<Longrightarrow> sound (port_ok keeps) (start_tape env now s1)" for s1
    by (rule sound_mono [OF sound_start_tape [OF assms(1,2)]]) (auto simp: port_ok_def port_recording_def)
  have "sound (port_ok keeps) (and_then (Port_AddCaptureEvent env now (port_event EtStop now []) s) (start_tape env now))"
    by (rule sound_bind [OF sound_event [OF assms]]) (rule st, simp)
  with st [OF assms(3)] assms(3) show ?thesis by (simp add: segment_audio_def split: option.split)
qed

lemma port_ok_cong [simp]:
  "port_ok keeps (p\<lparr>cp_vadBelowThresholdSec := x\<rparr>, w) = port_ok keeps (p, w)"
  "port_ok keeps (p\<lparr>cp_decoders := ds\<rparr>, w) = port_ok keeps (p, w)"
  "port_ok keeps (p\<lparr>cp_captureEvents := es\<rparr>, w) = port_ok keeps (p, w)"
  "port_ok keeps (p\<lparr>cp_lastUpdated := now\<rparr>, w) = port_ok keeps (p, w)"
  by (simp_all add: port_ok_def split: option.split)

lemma GetNumSamples_defined: "GetNumSamples c \<noteq> Undefined"
  by (simp add: GetNumSamples_def Let_def)

lemma sound_vad_ongoing:
  assumes "env_plain env" "keeps_ok env keeps" "port_ok keeps (p, w)" "cp_vadUp p"
  shows "sound (port_ok keeps) (vad_ongoing env now c (p, w))"
proof -
  have "sound (port_ok keeps) (if b > pe_vadHoldOnSec env then
        and_then (Port_AddCaptureEvent env now (port_event EtStop now []) (p\<lparr>cp_vadBelowThresholdSec := b, cp_vadUp := False\<rparr>, w))
          (\<lambda>(p2, w2). if cp_tape p2 = None then Undefined else Done (p2\<lparr>cp_tape := None\<rparr>, w2))
      else Done (p\<lparr>cp_vadBelowThresholdSec := b\<rparr>, w))" for b
  proof -
    have "port_ok keeps (p\<lparr>cp_vadBelowThresholdSec := b, cp_vadUp := False\<rparr>, w)"
      using assms(3,4) by (auto simp: port_ok_def split: option.splits)
    from sound_event [OF assms(1,2) this, of "port_event EtStop now []" now]
    have "sound (port_ok keeps)
        (and_then (Port_AddCaptureEvent env now (port_event EtStop now []) (p\<lparr>cp_vadBelowThresholdSec := b, cp_vadUp := False\<rparr>, w))
          (\<lambda>(p2, w2). if cp_tape p2 = None then Undefined else Done (p2\<lparr>cp_tape := None\<rparr>, w2)))"
      by (rule sound_bind)
        (use assms(3,4) in \<open>auto simp: port_ok_def event_keeps_def port_event_def split: option.splits\<close>)
    with assms(3) show ?thesis by simp
  qed
  then show ?thesis
    by (cases "GetNumSamples c") (simp_all add: vad_ongoing_def duration_sec_def Let_def GetNumSamples_defined)
qed

lemma sound_vad_idle:
  assumes "env_plain env" "keeps_ok env keeps" "port_ok keeps (p, w)"
  shows "sound (port_ok keeps) (vad_idle env now c (p, w))"
proof -
  have "sound (port_ok keeps) (start_tape env now (p\<lparr>cp_vadBelowThresholdSec := 0, cp_vadUp := True\<rparr>, w))"
    by (rule sound_mono [OF sound_start_tape [OF assms(1,2)]])
      (use assms(3) in \<open>auto simp: port_ok_def port_recording_def\<close>)
  with assms(3) show ?thesis by (auto simp: vad_idle_def Let_def port_ok_def)
qed

lemma vad_chunk_keeps:
  "sound (\<lambda>(p', tmp). \<exists>ds. p' = p\<lparr>cp_decoders := ds\<rparr>) (vad_chunk env c p)"
proof -
  have "\<exists>ds. p = p\<lparr>cp_decoders := ds\<rparr>" by (rule exI [of _ "cp_decoders p"]) simp
  then show ?thesis by (auto simp: vad_chunk_def Let_def split: option.split prod.split)
qed

lemma sound_detect:
  assumes "env_plain env" "keeps_ok env keeps" "port_ok keeps s"
  shows "sound (port_ok keeps) (detect_voice env now (Some c) s)"
proof -
  obtain p w where s: "s = (p, w)" by force
  show ?thesis
    unfolding detect_voice_def s option.case fst_conv
    by (rule sound_bind [OF vad_chunk_keeps])
      (use assms s in \<open>auto split: option.split intro!: sound_vad_ongoing sound_vad_idle\<close>)
qed

lemma sound_record:
  "port_ok keeps s \<Longrightarrow> sound (port_ok keeps) (record_chunk env (Some c) s)"
  by (auto simp: record_chunk_def port_ok_def split: option.split prod.split)

text \<open>
  The port records: its tape takes chunks. A chunk that the filters swallow is dereferenced by the
  voice activity detection, and by such a tape.
\<close>

definition taping :: "'g port_env \<Rightarrow> 'g CapturePort \<times> 'f port_world \<Rightarrow> bool" where
  "taping env s \<longleftrightarrow> cp_capturing (fst s) \<and>
     (case cp_tape (fst s) of None \<Rightarrow> False | Some a \<Rightarrow> accepts (pe_tape env) (the_tape a (snd s)))"

definition chunk_crashes ::
    "'g port_env \<Rightarrow> int \<Rightarrow> AudioChunk \<Rightarrow> 'g CapturePort \<times> 'f port_world \<Rightarrow> bool" where
  "chunk_crashes env now c s \<longleftrightarrow>
     (let (p, c') = FilterAudioChunk env (Some c) ((fst s)\<lparr>cp_lastUpdated := now\<rparr>)
      in c' = None \<and> pe_audioOutputEnable env \<and>
         (if pe_audioSegmentation env
          then \<exists>s2. segment_audio env now (p, snd s) = Done s2 \<and> taping env s2
          else pe_vad env \<or> taping env (p, snd s)))"

lemma record_swallowed:
  "record_chunk env None s = Undefined \<longleftrightarrow> taping env s"
  "port_ok keeps s \<Longrightarrow> record_chunk env None s = Done s' \<Longrightarrow> port_ok keeps s'"
  by (auto simp: record_chunk_def taping_def port_ok_def split: option.splits prod.splits if_splits)

lemma chunk_exact:
  assumes "env_plain env" "keeps_ok env keeps" "port_ok keeps s"
  shows "(Port_AddAudioChunk env now (Some c) s = Undefined \<longleftrightarrow> chunk_crashes env now c s) \<and>
    (\<forall>s'. Port_AddAudioChunk env now (Some c) s = Done s' \<longrightarrow> port_ok keeps s')"
proof -
  obtain p w where s: "s = (p, w)" by force
  obtain gs d where f: "FilterAudioChunk env (Some c) (p\<lparr>cp_lastUpdated := now\<rparr>)
      = (p\<lparr>cp_lastUpdated := now, cp_filters := gs\<rparr>, d)" "list_all keeps gs"
    using FilterAudioChunk_keeps [OF assms(2), of "p\<lparr>cp_lastUpdated := now\<rparr>" "Some c"] assms(3) s
    by (cases "FilterAudioChunk env (Some c) (p\<lparr>cp_lastUpdated := now\<rparr>)") (auto simp: port_ok_def)
  let ?s = "(p\<lparr>cp_lastUpdated := now, cp_filters := gs\<rparr>, w)"
  have ok: "port_ok keeps ?s" using assms(3) f(2) s by (simp add: port_ok_def split: option.splits)
  define prep where "prep = (if pe_audioSegmentation env then segment_audio env now ?s
      else if pe_vad env then detect_voice env now d ?s else Done ?s)"
  have add: "Port_AddAudioChunk env now (Some c) s =
      (if pe_audioOutputEnable env then and_then prep (record_chunk env d) else Done ?s)"
    using f(1) s by (simp add: Port_AddAudioChunk_def prep_def)
  have seg: "sound (port_ok keeps) (segment_audio env now ?s)" by (rule sound_segment [OF assms(1,2) ok])
  show ?thesis
  proof (cases d)
    case None
    have "(and_then prep (record_chunk env d) = Undefined \<longleftrightarrow> pe_audioOutputEnable env \<longrightarrow> chunk_crashes env now c s) \<and>
      (\<forall>s'. and_then prep (record_chunk env d) = Done s' \<longrightarrow> port_ok keeps s')" if "pe_audioOutputEnable env"
      using seg ok f(1) s None that record_swallowed(1) [where env = env] record_swallowed(2) [where env = env and keeps = keeps]
      by (cases "segment_audio env now ?s")
        (auto simp: prep_def chunk_crashes_def detect_voice_def)
    with add ok f(1) s show ?thesis by (auto simp: chunk_crashes_def)
  next
    case (Some d')
    have "sound (port_ok keeps) prep"
      using ok seg sound_detect [OF assms(1,2) ok, of now d'] Some by (simp add: prep_def)
    from sound_bind [OF this sound_record] have "sound (port_ok keeps) (and_then prep (record_chunk env d))"
      unfolding Some .
    with add ok f(1) s Some show ?thesis by (auto simp: sound_def chunk_crashes_def)
  qed
qed

lemma sound_finalize:
  assumes "env_plain env" "keeps_ok env keeps" "port_ok keeps s"
  shows "sound (port_ok keeps) (Finalize env now s)"
proof (cases "cp_needSendStop (fst s)")
  case True
  have "sound (\<lambda>s'. port_ok keeps s' \<and> event_keeps (port_event EtStop now []) (fst s) (fst s'))
    (Port_AddCaptureEvent env now (port_event EtStop now []) s)"
    by (rule sound_event [OF assms])
  from this show ?thesis
    unfolding Finalize_def if_P [OF True]
  proof (rule sound_bind)
    fix s' assume s': "port_ok keeps s' \<and> event_keeps (port_event EtStop now []) (fst s) (fst s')"
    obtain p w where p: "s' = (p, w)" by force
    obtain a where a: "cp_tape p = Some a"
      using s' assms(3) True p by (cases "cp_tape p") (auto simp: port_ok_def event_keeps_def split: option.splits)
    obtain w' where "report env a w = Done w'" "length (w_tapes w') = length (w_tapes w)"
      using report_plain_length [OF assms(1)] by blast
    with s' p a show "sound (port_ok keeps) (case s' of (p, w) \<Rightarrow> case cp_tape p of None \<Rightarrow> Undefined
        | Some a \<Rightarrow> and_then (report env a w) (\<lambda>w'. Done (p\<lparr>cp_needSendStop := False\<rparr>, w')))"
      by (auto simp: port_ok_def)
  qed
qed (use assms(3) in \<open>simp add: Finalize_def\<close>)

section \<open>Ports under the contract\<close>

definition port_inv :: "'g port_env \<Rightarrow> ('g \<Rightarrow> bool) \<Rightarrow> 'g CapturePort \<times> 'f port_world \<Rightarrow> bool" where
  "port_inv env keeps s \<longleftrightarrow> env_plain env \<and> keeps_ok env keeps \<and> port_ok keeps s"

text \<open>The only operation of a port that can go wrong is a chunk its filters swallow.\<close>

definition port_bad :: "'g port_env \<Rightarrow> ('f, 'g) port_op \<Rightarrow> 'g CapturePort \<times> 'f port_world \<Rightarrow> bool" where
  "port_bad env x s \<longleftrightarrow> (case x of PChunk now c \<Rightarrow> chunk_crashes env now c s | _ \<Rightarrow> False)"

lemma port_do_exact:
  assumes "port_inv env keeps s"
  shows "(port_do env x s = Undefined \<longleftrightarrow> port_bad env x s) \<and>
    (\<forall>s'. port_do env x s = Done s' \<longrightarrow> port_inv env keeps s')"
proof -
  note a = assms [unfolded port_inv_def]
  have "(port_do env x s = Undefined \<longleftrightarrow> port_bad env x s) \<and> (\<forall>s'. port_do env x s = Done s' \<longrightarrow> port_ok keeps s')"
  proof (cases x)
    case (PEvent now e)
    have "sound (port_ok keeps) (Port_AddCaptureEvent env now e s)"
      by (rule sound_mono [OF sound_event]) (use a in auto)
    with PEvent show ?thesis by (simp add: port_do_def port_bad_def sound_def)
  next
    case (PChunk now c)
    with a chunk_exact [of env keeps s now c] show ?thesis by (simp add: port_do_def port_bad_def)
  next
    case (PFinalize now)
    with a sound_finalize [of env keeps s now] show ?thesis by (simp add: port_do_def port_bad_def sound_def)
  qed (use a in \<open>auto simp: port_do_def port_bad_def QueueCaptureEvent_def ClearEventQueue_def port_ok_def split: option.splits\<close>)
  with a show ?thesis by (auto simp: port_inv_def)
qed

interpretation port: exact_calls "port_do env" "port_inv env keeps" "\<lambda>_. True" "port_bad env" for env keeps
proof unfold_locales
  show "port_inv env keeps s \<Longrightarrow> port_do env x s = Undefined \<longleftrightarrow> port_bad env x s"
    for s :: "'a CapturePort \<times> 'b port_world" and x
    using port_do_exact [of env keeps s x] by simp
  show "port_inv env keeps s \<Longrightarrow> port_do env x s = Done s' \<Longrightarrow> port_inv env keeps s'"
    for s s' :: "'a CapturePort \<times> 'b port_world" and x
    using port_do_exact [of env keeps s x] by simp
qed

text \<open>
  C26. Which runs of a port are undefined. For any sequence of events, chunks, queued events,
  finalisations and changes of tapes by other threads, on a new port, without a party filter and
  with filters that do not change event types, whatever segmentation, voice activity detection and
  hold settings are on: the run is undefined exactly when it comes to a chunk that the filters
  swallow (the mixer does, while it has nothing to ship) and that the port then dereferences, which
  it does when it detects voice activity or when its tape takes chunks. And a port that waits to
  send a stop, or hears a voice, always has a tape.
\<close>

theorem port_undefined_iff:
  assumes "env_plain env" "keeps_ok env keeps" "list_all keeps (fst (LoadFilters env names by_name by_type))"
  shows "(run_calls (port_do env) ops (CapturePort_new env names by_name by_type portId, w) = Undefined \<longleftrightarrow>
      (\<exists>pre now c post s. ops = pre @ PChunk now c # post \<and>
         run_calls (port_do env) pre (CapturePort_new env names by_name by_type portId, w) = Done s \<and>
         chunk_crashes env now c s)) \<and>
    (\<forall>p w'. run_calls (port_do env) ops (CapturePort_new env names by_name by_type portId, w) = Done (p, w') \<longrightarrow>
       cp_needSendStop p \<or> cp_vadUp p \<longrightarrow> cp_tape p \<noteq> None)"
proof -
  let ?s = "(CapturePort_new env names by_name by_type portId, w)"
  have i: "port_inv env keeps ?s"
    using assms by (auto simp: port_inv_def port_ok_def CapturePort_new_def split: prod.splits)
  have all: "list_all (\<lambda>_. True) ops" by (simp add: list_all_iff)
  have "cp_tape p \<noteq> None" if "run_calls (port_do env) ops ?s = Done (p, w')" "cp_needSendStop p \<or> cp_vadUp p" for p w'
    using port.run_keeps [OF i all that(1)] that(2) by (auto simp: port_inv_def port_ok_def split: option.splits)
  moreover have "(\<exists>pre x post s. ops = pre @ x # post \<and> run_calls (port_do env) pre ?s = Done s \<and> port_bad env x s) \<longleftrightarrow>
      (\<exists>pre now c post s. ops = pre @ PChunk now c # post \<and> run_calls (port_do env) pre ?s = Done s \<and>
         chunk_crashes env now c s)"
    by (auto simp: port_bad_def split: port_op.splits) (metis port_op.exhaust)+
  ultimately show ?thesis using port.run_undefined_iff [OF i all] by blast
qed

text \<open>An example: a filter that counts what passes.\<close>

definition counting_filter :: "nat filter_ops" where
  "counting_filter = \<lparr>flt_chunk = (\<lambda>c n. (Suc n, c)), flt_event = (\<lambda>e n. (Suc n, e))\<rparr>"

definition example_env :: "nat port_env" where
  "example_env = \<lparr>pe_tape = example_config, pe_audioOutputEnable = True, pe_audioSegmentation = False,
     pe_audioSegmentDuration = 600, pe_vad = True, pe_vadHighThresholdDb = -30, pe_vadLowThresholdDb = -35,
     pe_vadHoldOnSec = 1, pe_localtime = example_time, pe_filter = counting_filter,
     pe_rmsDb = (\<lambda>c. -50), pe_uninit = False\<rparr>"

definition empty_world :: "'f port_world" where
  "empty_world = \<lparr>w_tapes = [], w_immediate = [], w_permits = 0, w_messages = []\<rparr>"

lemma example_env_ok: "env_plain example_env" "keeps_ok example_env (\<lambda>_. True)"
  using example_plain
  by (simp_all add: env_plain_def keeps_ok_def example_env_def counting_filter_def plain_config_def)

text \<open>And a filter that swallows every chunk: with the detection of the example on, its first chunk is fatal.\<close>

definition swallowing_env :: "nat port_env" where
  "swallowing_env = example_env\<lparr>pe_filter := \<lparr>flt_chunk = (\<lambda>c n. (Suc n, None)), flt_event = (\<lambda>e n. (n, e))\<rparr>\<rparr>"

theorem port_undefined_iff_witness:
  "run_calls (port_do example_env) [PEvent 7 (port_event EtStart 7 ''id''), PEvent 8 (port_event EtEndMetadata 8 []),
       PFinalize 9]
     (CapturePort_new example_env [''count''] (\<lambda>_. Some 0) (\<lambda>_. None) ''port'', empty_world :: unit port_world)
     \<noteq> Undefined \<and>
   run_calls (port_do swallowing_env) [PChunk 7 AudioChunk_new]
     (CapturePort_new swallowing_env [''mixer''] (\<lambda>_. Some 0) (\<lambda>_. None) ''port'', empty_world :: unit port_world)
     = Undefined"
proof -
  let ?p = "(CapturePort_new swallowing_env [''mixer''] (\<lambda>_. Some 0) (\<lambda>_. None) ''port'', empty_world :: unit port_world)"
  have l: "list_all (\<lambda>_. True) (fst (LoadFilters env ns (\<lambda>_. Some 0) (\<lambda>_. None)))" for env :: "nat port_env" and ns
    by (simp add: list_all_iff)
  have ok: "env_plain swallowing_env" "keeps_ok swallowing_env (\<lambda>_. True)"
    using example_env_ok(1) by (simp_all add: swallowing_env_def env_plain_def keeps_ok_def)
  have "chunk_crashes swallowing_env 7 AudioChunk_new ?p"
    by (simp add: chunk_crashes_def swallowing_env_def example_env_def FilterAudioChunk_def CapturePort_new_def
        LoadFilters_def List.map_filter_def)
  then have "\<exists>pre now c post s. [PChunk 7 AudioChunk_new :: (unit, nat) port_op] = pre @ PChunk now c # post \<and>
      run_calls (port_do swallowing_env) pre ?p = Done s \<and> chunk_crashes swallowing_env now c s"
    by (intro exI [of _ "[]"] exI [of _ 7] exI [of _ AudioChunk_new] exI [of _ ?p]) simp
  with port_undefined_iff [OF ok l, of "[PChunk 7 AudioChunk_new]" "[''mixer'']" "''port''" empty_world]
    port_undefined_iff [OF example_env_ok l, of "[PEvent 7 (port_event EtStart 7 ''id''),
      PEvent 8 (port_event EtEndMetadata 8 []), PFinalize 9]" "[''count'']" "''port''" "empty_world :: unit port_world"]
  show ?thesis by (auto simp: Cons_eq_append_conv)
qed

section \<open>The messages of a call\<close>

definition sent :: "CaptureEvent \<Rightarrow> string list" where
  "sent e = (if ev_type e \<in> {EtStart, EtUpdate, EtStop} then [EventTypeToString (ev_type e)] else [])"

text \<open>
  Tape \<open>a\<close> has \<open>k\<close> events left to report; the stages reported and to report are \<open>stages\<close>, and the call
  began at \<open>b\<close>.
\<close>

definition tape_state :: "nat \<Rightarrow> string list \<Rightarrow> nat \<Rightarrow> int \<Rightarrow> 'f port_world \<Rightarrow> bool" where
  "tape_state a stages k b w \<longleftrightarrow>
     (let q = tp_toSendEventQueue (the_tape a w)
      in a < length (w_tapes w) \<and> length q = k \<and> list_all (\<lambda>e. reports_stage (ev_type e)) q \<and>
         map tm_stage (w_messages w) @ map (\<lambda>e. EventTypeToString (ev_type e)) q = stages \<and>
         tp_beginDate (the_tape a w) = b)"

definition call_state :: "string list \<Rightarrow> nat \<Rightarrow> int \<Rightarrow> 'g CapturePort \<times> 'f port_world \<Rightarrow> bool" where
  "call_state stages k b s \<longleftrightarrow>
     (\<exists>a. cp_tape (fst s) = Some a \<and> tape_state a stages k b (snd s)) \<and> cp_filters (fst s) = []"

lemma apply_event_queue:
  "apply_event cfg lt now e t = Done t1 \<Longrightarrow> ev_type e \<noteq> EtStart \<Longrightarrow>
    tp_toSendEventQueue t1 = tp_toSendEventQueue t \<and> tp_beginDate t1 = tp_beginDate t"
  by (cases "ev_type e")
    (auto simp: apply_event_def Let_def on_key_value_def cut_remote_party_def split: option.splits if_splits)

lemma Tape_AddCaptureEvent_queue:
  "Tape_AddCaptureEvent cfg lt now e send t = Done t1 \<Longrightarrow> ev_type e \<noteq> EtStart \<Longrightarrow>
    tp_toSendEventQueue t1 = tp_toSendEventQueue t @ (if send then [e] else []) \<and>
    tp_beginDate t1 = tp_beginDate t"
  by (auto simp: Tape_AddCaptureEvent_def Let_def dest: apply_event_queue split: outcome.splits if_splits)

lemma PopulateTapeMessage_stage:
  "\<not> PartyFilterActive cfg \<Longrightarrow> tm_stage (PopulateTapeMessage cfg et t m) = EventTypeToString et"
  by (simp add: PopulateTapeMessage_def Let_def)

text \<open>Reporting takes the first event of the queue.\<close>

lemma report_first:
  assumes "env_plain env" "a < length (w_tapes w)"
    "tp_toSendEventQueue (the_tape a w) = e # q" "reports_stage (ev_type e)"
  shows "\<exists>w' m. report env a w = Done w' \<and> length (w_tapes w') = length (w_tapes w) \<and>
    w_messages w' = w_messages w @ [m] \<and> tm_stage m = EventTypeToString (ev_type e) \<and>
    the_tape a w' = (the_tape a w)\<lparr>tp_toSendEventQueue := q\<rparr>"
  using assms
  by (simp add: report_def GetMessage_def Let_def env_plain_def Reporting_AddMessage_def
      PopulateTapeMessage_stage the_tape_def put_tape_def)

lemma event_queue:
  assumes "env_plain env" "a < length (w_tapes w)" "ev_type e \<noteq> EtStart"
  shows "\<exists>w'. tape_event env now a e send w = Done w' \<and> length (w_tapes w') = length (w_tapes w) \<and>
    w_messages w' = w_messages w \<and>
    tp_toSendEventQueue (the_tape a w') = tp_toSendEventQueue (the_tape a w) @ (if send then [e] else []) \<and>
    tp_beginDate (the_tape a w') = tp_beginDate (the_tape a w)"
proof -
  obtain t where t: "Tape_AddCaptureEvent (pe_tape env) (pe_localtime env) now e send (the_tape a w) = Done t"
    "tape_event env now a e send w = Done (put_tape a t w)"
    using tape_event_plain [OF assms(1), of now e send a w] by blast
  from Tape_AddCaptureEvent_queue [OF t(1) assms(3)] t(2) assms(2) show ?thesis by simp
qed

lemma tape_state_report:
  assumes "env_plain env" "tape_state a st (Suc k) b w"
  shows "\<exists>w'. report env a w = Done w' \<and> tape_state a st k b w'"
proof -
  obtain e q where q: "tp_toSendEventQueue (the_tape a w) = e # q"
    using assms(2) by (cases "tp_toSendEventQueue (the_tape a w)") (auto simp: tape_state_def)
  with report_first [OF assms(1) _ q] assms(2) show ?thesis by (auto simp: tape_state_def)
qed

lemma tape_state_event:
  assumes "env_plain env" "tape_state a st k b w" "ev_type e \<noteq> EtStart"
  shows "reports_stage (ev_type e) \<Longrightarrow> \<exists>w'. tape_event env now a e True w = Done w' \<and>
      tape_state a (st @ [EventTypeToString (ev_type e)]) (Suc k) b w'"
    and "\<exists>w'. tape_event env now a e False w = Done w' \<and> tape_state a st k b w'"
proof -
  have a: "a < length (w_tapes w)" using assms(2) by (simp add: tape_state_def Let_def)
  show "\<exists>w'. tape_event env now a e True w = Done w' \<and>
      tape_state a (st @ [EventTypeToString (ev_type e)]) (Suc k) b w'" if "reports_stage (ev_type e)"
    using event_queue [OF assms(1) a assms(3), of now True] assms(2) that by (auto simp: tape_state_def Let_def)
  show "\<exists>w'. tape_event env now a e False w = Done w' \<and> tape_state a st k b w'"
    using event_queue [OF assms(1) a assms(3), of now False] assms(2) by (auto simp: tape_state_def Let_def)
qed

lemma tape_state_event_report:
  assumes "env_plain env" "tape_state a st k b w" "ev_type e \<noteq> EtStart" "reports_stage (ev_type e)"
  shows "\<exists>w'. and_then (tape_event env now a e True w) (report env a) = Done w' \<and>
      tape_state a (st @ [EventTypeToString (ev_type e)]) k b w'"
  using tape_state_event(1) [OF assms, of now] tape_state_report [OF assms(1)] by fastforce

definition call_event :: "CaptureEvent \<Rightarrow> bool" where
  "call_event e \<longleftrightarrow> ev_type e \<notin> {EtStart, EtStop, EtHold, EtResume}"

lemma no_filters: "cp_filters p = [] \<Longrightarrow> FilterCaptureEvent env e p = (p, e)"
  by (simp add: FilterCaptureEvent_def)

lemma call_step:
  assumes "env_plain env" "call_state st k b s" "call_event e" "ev_type e = EtEndMetadata \<Longrightarrow> 0 < k"
  shows "\<exists>s'. Port_AddCaptureEvent env now e s = Done s' \<and>
    call_state (st @ sent e) (if ev_type e = EtEndMetadata then k - 1 else k) b s'"
proof -
  obtain p w a where s: "s = (p, w)" "cp_tape p = Some a" "tape_state a st k b w" "cp_filters p = []"
    using assms(2) by (cases s) (auto simp: call_state_def)
  note unf = Port_AddCaptureEvent_def no_filters s(1,2,4)
  consider (meta) "ev_type e = EtEndMetadata" | (update) "ev_type e = EtUpdate"
    | (info) "ev_type e \<notin> {EtEndMetadata, EtUpdate}" by blast
  then show ?thesis
  proof cases
    case meta
    then obtain n where "k = Suc n" using assms(4) gr0_implies_Suc by blast
    with tape_state_report [OF assms(1), of a st n b w] s(3) meta show ?thesis
      by (auto simp: unf call_state_def sent_def)
  next
    case update
    with tape_state_event_report [OF assms(1) s(3), of e now] show ?thesis
      by (auto simp: unf call_state_def sent_def reports_stage_def)
  next
    case info
    with assms(3) tape_state_event(2) [OF assms(1) s(3), of e now] show ?thesis
      by (cases "ev_type e") (auto simp: unf call_state_def sent_def call_event_def)
  qed
qed

definition ends_metadata :: "CaptureEvent list \<Rightarrow> nat" where
  "ends_metadata es = length (filter (\<lambda>e. ev_type e = EtEndMetadata) es)"

lemma call_steps:
  assumes "env_plain env"
  shows "call_state st k b s \<Longrightarrow> list_all call_event es \<Longrightarrow> ends_metadata es \<le> k \<Longrightarrow>
    \<exists>s'. run_calls (port_do env) (map (PEvent now) es) s = Done s' \<and>
      call_state (st @ concat (map sent es)) (k - ends_metadata es) b s'"
proof (induction es arbitrary: s st k)
  case (Cons e es)
  have k: "ev_type e = EtEndMetadata \<Longrightarrow> 0 < k" using Cons.prems(3) by (simp add: ends_metadata_def)
  obtain s1 where s1: "Port_AddCaptureEvent env now e s = Done s1"
    "call_state (st @ sent e) (if ev_type e = EtEndMetadata then k - 1 else k) b s1"
    using call_step [OF assms Cons.prems(1) _ k, where now = now] Cons.prems(2) by fastforce
  from Cons.IH [OF s1(2)] Cons.prems(2,3) s1(1) show ?case
    by (auto simp: port_do_def ends_metadata_def split: if_splits)
qed (simp add: ends_metadata_def)

lemma fresh_tape:
  "tp_state (AudioTape_new cfg lt now portId) = StateCreated"
  "tp_toSendEventQueue (AudioTape_new cfg lt now portId) = []"
  by (simp_all add: AudioTape_new_def Let_def GenerateCaptureFilePathAndIdentifier_def)

lemma cut_remote_party_passed [simp]: "tp_passedPartyFilter (cut_remote_party cfg t) = tp_passedPartyFilter t"
  by (simp add: cut_remote_party_def Let_def)

lemma call_start:
  fixes w :: "'f port_world"
  assumes "env_plain env" "cp_filters p = []" "ev_type e = EtStart"
  shows "\<exists>s'. Port_AddCaptureEvent env now e (p, w) = Done s' \<and>
    call_state (map tm_stage (w_messages w) @ sent e) 1 (ev_timestamp e) s'"
proof -
  let ?w1 = "case cp_tape p of None \<Rightarrow> w | Some a \<Rightarrow> put_tape a (SetShouldStop (the_tape a w)) w"
  let ?a = "length (w_tapes ?w1)"
  let ?w2 = "?w1\<lparr>w_tapes := w_tapes ?w1 @ [AudioTape_new (pe_tape env) (pe_localtime env) now (cp_id p)]\<rparr>"
  let ?t = "AudioTape_new (pe_tape env) (pe_localtime env) now (cp_id p) :: 'f AudioTape"
  obtain t where t: "Tape_AddCaptureEvent (pe_tape env) (pe_localtime env) now e True ?t = Done t"
    "tp_toSendEventQueue t = [e]" "tp_beginDate t = ev_timestamp e"
    using assms(3)
    by (simp add: fresh_tape Tape_AddCaptureEvent_def apply_event_def Let_def GenerateCaptureFilePathAndIdentifier_def)
  have at: "the_tape ?a ?w2 = ?t" by (simp add: the_tape_def)
  have ev: "tape_event env now ?a e True ?w2 = Done (put_tape ?a t ?w2)"
    using t(1) by (simp add: tape_event_def at)
  have "w_messages ?w1 = w_messages w" by (simp split: option.split)
  with t(2,3) ev assms show ?thesis
    by (auto simp: Port_AddCaptureEvent_def no_filters on_start_def new_tape_def Let_def call_state_def
        tape_state_def sent_def reports_stage_def)
qed

lemma tape_state_put_tag:
  "tape_state a st k b w \<Longrightarrow> tape_state a st k b (put_tape a (PopulateTag key v (the_tape a w)) w)"
  by (simp add: tape_state_def Let_def PopulateTag_def)

lemma call_stop:
  assumes "env_plain env" "call_state st k b s" "ev_type e = EtStop"
  shows "\<exists>p w. Port_AddCaptureEvent env now e s = Done (p, w) \<and>
    (\<exists>q. map tm_stage (w_messages w) @ q = st @ sent e \<and> length q = k) \<and> \<not> cp_capturing p"
proof -
  obtain p w a where s: "s = (p, w)" "cp_tape p = Some a" "tape_state a st k b w" "cp_filters p = []"
    using assms(2) by (cases s) (auto simp: call_state_def)
  let ?w1 = "if cfg_holdResumeReportDuration (pe_tape env)
    then put_tape a (PopulateTag ''holdduration'' (IntToString (tp_holdDuration (the_tape a w))) (the_tape a w)) w
    else w"
  have "tape_state a st k b ?w1" using s(3) tape_state_put_tag [OF s(3)] by simp
  then obtain w2 where w2: "and_then (tape_event env now a e True ?w1) (report env a) = Done w2"
    "tape_state a (st @ sent e) k b w2"
    using tape_state_event_report [OF assms(1), of a st k b ?w1 e now] assms(3)
    by (auto simp: sent_def reports_stage_def)
  have "Port_AddCaptureEvent env now e s
      = Done (p\<lparr>cp_lastUpdated := now, cp_capturing := False, cp_needSendStop := False\<rparr>,
          ImmediateProcessing_Push (Some a) w2)"
    using w2(1) s assms(3)
    by (cases "tape_event env now a e True ?w1")
      (auto simp: Port_AddCaptureEvent_def no_filters on_stop_def Let_def split: if_splits)
  moreover have "\<exists>q. map tm_stage (w_messages w2) @ q = st @ sent e \<and> length q = k"
    using w2(2) unfolding tape_state_def Let_def by (metis length_map)
  ultimately show ?thesis by auto
qed

lemma messages_of_call:
  assumes "env_plain env" "cp_filters p = []" "ev_type start = EtStart" "ev_type stop = EtStop"
    "list_all call_event es" "ends_metadata es = 1"
  shows "\<exists>p' w'. run_calls (port_do env) (map (PEvent now) (start # es @ [stop])) (p, w) = Done (p', w') \<and>
    map tm_stage (w_messages w') =
      map tm_stage (w_messages w) @ ''start'' # concat (map sent es) @ [''stop''] \<and>
    \<not> cp_capturing p'"
proof -
  let ?st = "map tm_stage (w_messages w) @ sent start"
  obtain s1 where s1: "Port_AddCaptureEvent env now start (p, w) = Done s1"
    "call_state ?st 1 (ev_timestamp start) s1"
    using call_start [OF assms(1-3)] by blast
  obtain s2 where s2: "run_calls (port_do env) (map (PEvent now) es) s1 = Done s2"
    "call_state (?st @ concat (map sent es)) 0 (ev_timestamp start) s2"
    using call_steps [OF assms(1) s1(2) assms(5), of now] assms(6) by auto
  obtain p' w' where s3: "Port_AddCaptureEvent env now stop s2 = Done (p', w')" "\<not> cp_capturing p'"
    "map tm_stage (w_messages w') = ?st @ concat (map sent es) @ sent stop"
    using call_stop [OF assms(1) s2(2) assms(4), of now] by auto
  show ?thesis
  proof (intro exI conjI)
    show "run_calls (port_do env) (map (PEvent now) (start # es @ [stop])) (p, w) = Done (p', w')"
      using s1(1) s2(1) s3(1) by (simp add: run_calls_append port_do_def)
    show "map tm_stage (w_messages w') =
      map tm_stage (w_messages w) @ ''start'' # concat (map sent es) @ [''stop'']"
      using s3(3) assms(3,4) by (simp add: sent_def EventTypeToString_def)
  qed (rule s3(2))
qed

text \<open>
  C4. The messages of a call. A call whose metadata ends exactly once, wherever that is between its
  start and its stop, and that is not put on hold, is reported completely and in order: one message
  for its start, one for each update and one for its stop, with these stages, and nothing for the
  other events. This needs no party filter and no port filters.
\<close>

theorem port_reports_call:
  assumes "env_plain env" "cp_filters p = []" "ev_type start = EtStart" "ev_type stop = EtStop"
    "list_all call_event es" "ends_metadata es = 1"
  shows "\<exists>p' w'. run_calls (port_do env) (map (PEvent now) (start # es @ [stop])) (p, w) = Done (p', w') \<and>
    map tm_stage (w_messages w') =
      map tm_stage (w_messages w) @ ''start'' # concat (map sent es) @ [''stop''] \<and>
    \<not> cp_capturing p'"
  by (rule messages_of_call [OF assms])

definition call_example :: "CaptureEvent list" where
  "call_example = [port_event EtRemoteParty 3 ''200'', port_event EtEndMetadata 3 [],
     port_event EtUpdate 4 [], port_event EtCallId 5 ''x'']"

definition example_port :: "nat CapturePort" where
  "example_port = CapturePort_new example_env [] (\<lambda>_. None) (\<lambda>_. None) ''port''"

theorem port_reports_call_witness:
  "\<exists>p' w'. run_calls (port_do example_env)
      (map (PEvent 9) (port_event EtStart 3 ''id'' # call_example @ [port_event EtStop 8 []]))
      (example_port, empty_world :: unit port_world) = Done (p', w') \<and>
    map tm_stage (w_messages w') =
      map tm_stage (w_messages (empty_world :: unit port_world)) @
      ''start'' # concat (map sent call_example) @ [''stop''] \<and>
    \<not> cp_capturing p'"
  by (rule port_reports_call [OF example_env_ok(1)])
    (simp_all add: example_port_def CapturePort_new_def LoadFilters_def List.map_filter_def port_event_def
      call_example_def call_event_def ends_metadata_def CaptureEvent_new_def)

text \<open>
  C38. A call the party filter rejects crashes the recorder. With a party filter that the tape of the
  port has not passed, \<open>GetMessage\<close> leaves the message reference NULL, and the stop event, the end
  of the metadata and every update hand that NULL to \<open>Reporting::AddMessage\<close>, which dereferences it.
\<close>

theorem rejected_call_crashes:
  assumes "PartyFilterActive (pe_tape env)" "cp_filters p = []" "cp_tape p = Some a"
    "a < length (w_tapes w)" "\<not> tp_passedPartyFilter (the_tape a w)" "party_map_ok (pe_tape env)"
    "ev_type e \<in> {EtStop, EtEndMetadata, EtUpdate}"
  shows "Port_AddCaptureEvent env now e (p, w) = Undefined"
proof -
  have null: "report env a w1 = Undefined" if "\<not> tp_passedPartyFilter (the_tape a w1)" for w1 :: "'b port_world"
    using that assms(1) by (simp add: report_def GetMessage_def Reporting_AddMessage_def)
  have event: "and_then (tape_event env now a e True w1) (report env a) = Undefined"
    if w1: "\<not> tp_passedPartyFilter (the_tape a w1)" "a < length (w_tapes w1)" "ev_type e \<noteq> EtEndMetadata"
    for w1 :: "'b port_world"
  proof -
    obtain t where t: "Tape_AddCaptureEvent (pe_tape env) (pe_localtime env) now e True (the_tape a w1) = Done t"
      using AddCaptureEvent_total [OF assms(6)] by blast
    then have "tp_passedPartyFilter t = tp_passedPartyFilter (the_tape a w1)"
      using w1(3) assms(7)
      by (auto simp: Tape_AddCaptureEvent_def apply_event_def Let_def)
    with t w1 show ?thesis by (simp add: tape_event_def null)
  qed
  have stop: "on_stop env now a e q w = Undefined" if "ev_type e = EtStop" for q
  proof -
    let ?w1 = "if cfg_holdResumeReportDuration (pe_tape env)
      then put_tape a (PopulateTag ''holdduration'' (IntToString (tp_holdDuration (the_tape a w))) (the_tape a w)) w
      else w"
    have "and_then (tape_event env now a e True ?w1) (report env a) = Undefined"
      using assms(4,5) that by (intro event) (auto simp: PopulateTag_def)
    then show ?thesis by (cases "tape_event env now a e True ?w1") (simp_all add: on_stop_def Let_def)
  qed
  from assms(7) show ?thesis
    using null [OF assms(5)] event [OF assms(5,4)] stop
    by (auto simp: Port_AddCaptureEvent_def no_filters assms(2,3))
qed

definition filtered_env :: "nat port_env" where
  "filtered_env = example_env\<lparr>pe_tape := example_config\<lparr>cfg_partyFilter := [''100-199'']\<rparr>\<rparr>"

theorem rejected_call_crashes_witness:
  "Port_AddCaptureEvent filtered_env 9 (port_event EtStop 9 [])
     (example_port\<lparr>cp_tape := Some 0\<rparr>,
      (empty_world :: unit port_world)\<lparr>w_tapes := [AudioTape_new example_config example_time 5 ''port'']\<rparr>)
     = Undefined"
  by (rule rejected_call_crashes [where a = 0])
    (simp_all add: filtered_env_def example_env_def example_config_def PartyFilterActive_def party_map_ok_def
      example_port_def CapturePort_new_def LoadFilters_def List.map_filter_def the_tape_def port_event_def
      AudioTape_new_def GenerateCaptureFilePathAndIdentifier_def CaptureEvent_new_def Let_def)

section \<open>Voice activity detection\<close>

definition pcm_sec :: "AudioChunk \<Rightarrow> rat" where
  "pcm_sec c = of_int (sint (cd_numBytes (ac_details c) div 2)) / of_int (uint (cd_sampleRate (ac_details c)))"

definition silent :: "'g port_env \<Rightarrow> AudioChunk \<Rightarrow> bool" where
  "silent env c \<longleftrightarrow> GetEncoding c = PcmAudio \<and> pe_rmsDb env c < pe_vadLowThresholdDb env"

lemma duration_pcm: "GetEncoding c = PcmAudio \<Longrightarrow> duration_sec c = Done (pcm_sec c)"
  by (simp add: duration_sec_def GetNumSamples_def GetEncoding_def pcm_sec_def Let_def)

text \<open>A port without filters that records only while it hears a voice.\<close>

definition vad_env :: "'g port_env \<Rightarrow> bool" where
  "vad_env env \<longleftrightarrow> env_plain env \<and> pe_audioOutputEnable env \<and> \<not> pe_audioSegmentation env \<and> pe_vad env \<and>
     pe_vadLowThresholdDb env \<le> pe_vadHighThresholdDb env"

lemma silent_idle:
  assumes "vad_env env" "silent env c" "cp_filters p = []" "cp_tape p = None" "\<not> cp_vadUp p"
  shows "port_do env (PChunk now c) (p, w) = Done (p\<lparr>cp_lastUpdated := now\<rparr>, w)"
  using assms
  by (simp add: vad_env_def silent_def port_do_def Port_AddAudioChunk_def FilterAudioChunk_def
      detect_voice_def vad_chunk_def vad_idle_def record_chunk_def not_less)

lemma silent_idle_run:
  assumes "vad_env env"
  shows "list_all (silent env) cs \<Longrightarrow> cp_filters p = [] \<Longrightarrow> cp_tape p = None \<Longrightarrow> \<not> cp_vadUp p \<Longrightarrow>
    \<exists>p'. run_calls (port_do env) (map (PChunk now) cs) (p, w) = Done (p', w) \<and>
      cp_tape p' = None \<and> \<not> cp_vadUp p'"
proof (induction cs arbitrary: p)
  case (Cons c cs)
  then show ?case using silent_idle [OF assms, of c p now w] by simp
qed simp

lemma push_stop:
  "a < length (w_tapes w) \<Longrightarrow> tp_shouldStop (the_tape a w) \<Longrightarrow>
    tp_shouldStop (the_tape a (ImmediateProcessing_Push (Some a) w))"
  by (simp add: ImmediateProcessing_Push_def the_tape_def put_tape_def Let_def)

lemma on_stop_tape:
  assumes "env_plain env" "a < length (w_tapes w)" "cp_tape p = Some a" "ev_type e = EtStop"
  shows "\<exists>w'. on_stop env now a e p w = Done (p\<lparr>cp_capturing := False, cp_needSendStop := False\<rparr>, w') \<and>
    tp_shouldStop (the_tape a w')"
proof -
  let ?w1 = "if cfg_holdResumeReportDuration (pe_tape env)
    then put_tape a (PopulateTag ''holdduration'' (IntToString (tp_holdDuration (the_tape a w))) (the_tape a w)) w
    else w"
  obtain t where t: "Tape_AddCaptureEvent (pe_tape env) (pe_localtime env) now e True (the_tape a ?w1) = Done t"
    "tape_event env now a e True ?w1 = Done (put_tape a t ?w1)"
    using tape_event_plain [OF assms(1)] by blast
  have "tp_shouldStop t" using t(1) assms(4)
    by (auto simp: Tape_AddCaptureEvent_def apply_event_def cut_remote_party_def Let_def)
  moreover obtain m t2 where
    m: "GetMessage (pe_tape env) (pe_uninit env) (the_tape a (put_tape a t ?w1)) = (Some m, t2)"
      "report env a (put_tape a t ?w1) = Done ((put_tape a t2 (put_tape a t ?w1))\<lparr>w_messages := w_messages (put_tape a t ?w1) @ [m]\<rparr>)"
    using report_plain [OF assms(1)] by blast
  ultimately have "tp_shouldStop t2" using assms(2)
    by (auto simp: GetMessage_def Let_def split: if_splits list.splits)
  then have "tp_shouldStop (the_tape a (ImmediateProcessing_Push (Some a)
      ((put_tape a t2 (put_tape a t ?w1))\<lparr>w_messages := w_messages (put_tape a t ?w1) @ [m]\<rparr>)))"
    using assms(2) by (intro push_stop) (simp_all add: put_tape_def the_tape_def)
  moreover have "on_stop env now a e p w = Done (p\<lparr>cp_capturing := False, cp_needSendStop := False\<rparr>,
      ImmediateProcessing_Push (Some a)
      ((put_tape a t2 (put_tape a t ?w1))\<lparr>w_messages := w_messages (put_tape a t ?w1) @ [m]\<rparr>))"
    by (simp only: on_stop_def Let_def t(2) and_then.simps m(2) assms(3))
  ultimately show ?thesis by blast
qed

text \<open>A silent chunk of a recording port either ends the recording or adds to the silence.\<close>

lemma silent_ongoing:
  assumes "vad_env env" "silent env c" "cp_filters p = []" "cp_tape p = Some a" "cp_vadUp p"
    "a < length (w_tapes w)"
  shows "if cp_vadBelowThresholdSec p + pcm_sec c > pe_vadHoldOnSec env
    then \<exists>p' w'. port_do env (PChunk now c) (p, w) = Done (p', w') \<and> cp_filters p' = [] \<and>
      cp_tape p' = None \<and> \<not> cp_vadUp p' \<and> tp_shouldStop (the_tape a w')
    else \<exists>p' w'. port_do env (PChunk now c) (p, w) = Done (p', w') \<and> cp_filters p' = [] \<and>
      cp_tape p' = Some a \<and> cp_vadUp p' \<and> a < length (w_tapes w') \<and>
      cp_vadBelowThresholdSec p' = cp_vadBelowThresholdSec p + pcm_sec c"
proof -
  note unf = port_do_def Port_AddAudioChunk_def FilterAudioChunk_def detect_voice_def vad_chunk_def
    vad_ongoing_def record_chunk_def no_filters
  note env = assms(1,2) [unfolded vad_env_def silent_def]
  show ?thesis
  proof (cases "cp_vadBelowThresholdSec p + pcm_sec c > pe_vadHoldOnSec env")
    case True
    let ?p = "p\<lparr>cp_vadBelowThresholdSec := cp_vadBelowThresholdSec p + pcm_sec c, cp_vadUp := False, cp_lastUpdated := now\<rparr>"
    have same: "p\<lparr>cp_filters := []\<rparr> = p" using assms(3) by simp
    have "ev_type (port_event EtStop now []) = EtStop" "env_plain env"
      using env by (simp_all add: port_event_def)
    with on_stop_tape [of env a w ?p "port_event EtStop now []" now] assms(4,6)
    obtain w' where "on_stop env now a (port_event EtStop now []) ?p w =
        Done (?p\<lparr>cp_capturing := False, cp_needSendStop := False\<rparr>, w')" "tp_shouldStop (the_tape a w')"
      by auto
    with True env assms(3-5) show ?thesis
      by (simp add: unf duration_pcm Port_AddCaptureEvent_def same \<open>ev_type (port_event EtStop now []) = EtStop\<close>)
  next
    case False
    with env assms(3-6) show ?thesis by (simp add: unf duration_pcm)
  qed
qed

text \<open>
  C32. A voice-activated recording ends. When a port with voice activity detection hears a voice and
  then gets PCM chunks below the low threshold whose total duration, added to the silence so far,
  exceeds the hold-on time, the recording is over after these chunks: its tape has been told to stop
  and the port waits, without a tape, for the next voice.
\<close>

theorem vad_silence_stops:
  assumes "vad_env env" "list_all (silent env) cs" "cp_filters p = []" "cp_tape p = Some a" "cp_vadUp p"
    "a < length (w_tapes w)"
    "cp_vadBelowThresholdSec p + sum_list (map pcm_sec cs) > pe_vadHoldOnSec env"
    "cp_vadBelowThresholdSec p \<le> pe_vadHoldOnSec env"
  shows "\<exists>p' w'. run_calls (port_do env) (map (PChunk now) cs) (p, w) = Done (p', w') \<and>
    cp_tape p' = None \<and> \<not> cp_vadUp p' \<and> tp_shouldStop (the_tape a w')"
  using assms(2-)
proof (induction cs arbitrary: p w)
  case (Cons c cs)
  note step = silent_ongoing [OF assms(1), of c p a w now]
  show ?case
  proof (cases "cp_vadBelowThresholdSec p + pcm_sec c > pe_vadHoldOnSec env")
    case True
    then obtain p1 w1 where s1: "port_do env (PChunk now c) (p, w) = Done (p1, w1)" "cp_filters p1 = []"
      "cp_tape p1 = None" "\<not> cp_vadUp p1" "tp_shouldStop (the_tape a w1)"
      using step Cons.prems by auto
    have "list_all (silent env) cs" using Cons.prems(1) by simp
    from silent_idle_run [OF assms(1) this s1(2-4), of now w1] s1(1,5) show ?thesis by auto
  next
    case False
    then obtain p1 w1 where s1: "port_do env (PChunk now c) (p, w) = Done (p1, w1)" "cp_filters p1 = []"
      "cp_tape p1 = Some a" "cp_vadUp p1" "a < length (w_tapes w1)"
      "cp_vadBelowThresholdSec p1 = cp_vadBelowThresholdSec p + pcm_sec c"
      using step Cons.prems by auto
    have "list_all (silent env) cs" using Cons.prems(1) by simp
    from Cons.IH [OF this s1(2-5)] s1(1,6) Cons.prems(6) False show ?thesis by (simp add: add.assoc)
  qed
qed simp

text \<open>A tenth of a second of PCM silence, eleven times.\<close>

definition silent_chunk :: AudioChunk where
  "silent_chunk = AudioChunk_new\<lparr>ac_details := AudioChunkDetails_Clear
     \<lparr>cd_encoding := PcmAudio, cd_numBytes := 1600\<rparr>\<rparr>"

theorem vad_silence_stops_witness:
  "\<exists>p' w'. run_calls (port_do example_env) (map (PChunk 9) (replicate 11 silent_chunk))
      (example_port\<lparr>cp_tape := Some 0, cp_vadUp := True\<rparr>,
       (empty_world :: unit port_world)\<lparr>w_tapes := [AudioTape_new example_config example_time 5 ''port'']\<rparr>)
        = Done (p', w') \<and>
    cp_tape p' = None \<and> \<not> cp_vadUp p' \<and> tp_shouldStop (the_tape 0 w')"
proof (rule vad_silence_stops)
  show "vad_env example_env"
    using example_env_ok(1) by (simp add: vad_env_def) (simp add: example_env_def)
  show "list_all (silent example_env) (replicate 11 silent_chunk)"
    by (simp add: list_all_iff silent_def silent_chunk_def GetEncoding_def example_env_def)
  have "pcm_sec silent_chunk = 1 / 10"
    by (simp add: pcm_sec_def silent_chunk_def AudioChunkDetails_Clear_def)
  then show "cp_vadBelowThresholdSec (example_port\<lparr>cp_tape := Some 0, cp_vadUp := True\<rparr>) +
      sum_list (map pcm_sec (replicate 11 silent_chunk)) > pe_vadHoldOnSec example_env"
    by (simp add: sum_list_replicate example_port_def CapturePort_new_def LoadFilters_def example_env_def)
qed (simp_all add: example_port_def CapturePort_new_def LoadFilters_def List.map_filter_def example_env_def)

section \<open>The registry of ports\<close>

definition system_ok :: "('g \<Rightarrow> bool) \<Rightarrow> ('g, 'f) port_system \<Rightarrow> bool" where
  "system_ok keeps S \<longleftrightarrow>
     (\<forall>p \<in> set (ps_ports S). port_ok keeps (p, ps_world S)) \<and>
     distinct (map fst (cs_ports (ps_registry S))) \<and>
     (\<forall>(k, i) \<in> set (cs_ports (ps_registry S)). i < length (ps_ports S) \<and> cp_id (ps_ports S ! i) = k)"

lemma port_ok_larger:
  "port_ok keeps (p, w) \<Longrightarrow> length (w_tapes w) \<le> length (w_tapes w') \<Longrightarrow> port_ok keeps (p, w')"
  by (auto simp: port_ok_def split: option.splits)

lemma Finalize_ok:
  assumes "env_plain env" "keeps_ok env keeps" "port_ok keeps (p, w)"
  shows "\<exists>p' w'. Finalize env now (p, w) = Done (p', w') \<and> port_ok keeps (p', w') \<and>
    cp_id p' = cp_id p \<and> \<not> cp_needSendStop p' \<and> length (w_tapes w) \<le> length (w_tapes w')"
proof (cases "cp_needSendStop p")
  case True
  obtain p1 w1 where s1: "Port_AddCaptureEvent env now (port_event EtStop now []) (p, w) = Done (p1, w1)"
    "port_ok keeps (p1, w1)" "event_keeps (port_event EtStop now []) p p1"
    "length (w_tapes w) \<le> length (w_tapes w1)"
    using Port_AddCaptureEvent_ok [OF assms, of now "port_event EtStop now []"] by blast
  obtain a where a: "cp_tape p1 = Some a"
    using s1(3) assms(3) True by (cases "cp_tape p1") (auto simp: port_ok_def event_keeps_def split: option.splits)
  obtain w2 where w2: "report env a w1 = Done w2" "length (w_tapes w2) = length (w_tapes w1)"
    using report_plain_length [OF assms(1)] by blast
  have "port_ok keeps (p1\<lparr>cp_needSendStop := False\<rparr>, w2)" using s1(2) a w2(2) by (simp add: port_ok_def)
  with s1 a w2 True show ?thesis by (simp add: Finalize_def event_keeps_def)
qed (use assms(3) in \<open>simp add: Finalize_def\<close>)

lemma system_ok_put:
  assumes "system_ok keeps S" "i < length (ps_ports S)" "port_ok keeps (p, w)" "cp_id p = cp_id (ps_ports S ! i)"
    "length (w_tapes (ps_world S)) \<le> length (w_tapes w)"
  shows "system_ok keeps (put_port i (p, w) S)"
  using assms port_ok_larger [OF _ assms(5), of keeps]
  by (auto simp: system_ok_def put_port_def nth_list_update dest!: set_update_subset_insert [THEN subsetD])

lemma system_ok_remove:
  "system_ok keeps S \<Longrightarrow> system_ok keeps (S\<lparr>ps_registry := (ps_registry S)
    \<lparr>cs_ports := filter P (cs_ports (ps_registry S))\<rparr>\<rparr>)"
  by (auto simp: system_ok_def distinct_map_filter)

lemma dismiss_ok:
  assumes "env_plain env" "keeps_ok env keeps"
  shows "system_ok keeps S \<Longrightarrow> list_all (\<lambda>i. i < length (ps_ports S)) is \<Longrightarrow>
    \<exists>S'. dismiss env now is S = Done S' \<and> system_ok keeps S' \<and>
      ps_registry S' = (ps_registry S)\<lparr>cs_ports := filter (\<lambda>(k, _). k \<notin> (\<lambda>i. cp_id (ps_ports S ! i)) ` set is)
        (cs_ports (ps_registry S))\<rparr>"
proof (induction "is" arbitrary: S)
  case (Cons i "is")
  have i: "i < length (ps_ports S)" "port_ok keeps (ps_ports S ! i, ps_world S)"
    using Cons.prems by (simp_all add: system_ok_def)
  obtain p w where f: "Finalize env now (the_port i S) = Done (p, w)" "port_ok keeps (p, w)"
    "cp_id p = cp_id (ps_ports S ! i)" "length (w_tapes (ps_world S)) \<le> length (w_tapes w)"
    using Finalize_ok [OF assms i(2), of now] by (auto simp: the_port_def)
  let ?S = "put_port i (p, w) S"
  let ?S1 = "?S\<lparr>ps_registry := (ps_registry ?S)\<lparr>cs_ports :=
    filter (\<lambda>(k, _). k \<noteq> cp_id p) (cs_ports (ps_registry ?S))\<rparr>\<rparr>"
  have ok: "system_ok keeps ?S1" by (intro system_ok_remove system_ok_put Cons.prems(1) i(1) f(2-4))
  have ids: "cp_id (ps_ports ?S1 ! j) = cp_id (ps_ports S ! j)" for j
    using f(3) i(1) by (cases "j = i") (simp_all add: put_port_def nth_list_update list_update_beyond)
  have "list_all (\<lambda>i. i < length (ps_ports ?S1)) is" using Cons.prems(2) by (simp add: put_port_def)
  from Cons.IH [OF ok this] obtain S' where S': "dismiss env now is ?S1 = Done S'" "system_ok keeps S'"
    "ps_registry S' = (ps_registry ?S1)\<lparr>cs_ports := filter (\<lambda>(k, _). k \<notin> (\<lambda>i. cp_id (ps_ports ?S1 ! i)) ` set is)
        (cs_ports (ps_registry ?S1))\<rparr>" by blast
  have "ps_registry S' = (ps_registry S)\<lparr>cs_ports := filter (\<lambda>(k, _). k \<notin> (\<lambda>i. cp_id (ps_ports S ! i)) ` set (i # is))
        (cs_ports (ps_registry S))\<rparr>"
    unfolding S'(3) ids using f(3) by (simp add: put_port_def case_prod_unfold conj_ac)
  with S'(1,2) f(1) show ?case by (simp add: Let_def)
qed (simp_all add: case_prod_unfold)

text \<open>When the registry is due for hoovering, exactly the expired ports are dismissed.\<close>

definition hoover_due :: "int \<Rightarrow> ('g, 'f) port_system \<Rightarrow> bool" where
  "hoover_due now S \<longleftrightarrow> now - cs_lastHooveringTime (ps_registry S) > 10"

lemma Hoover_ok:
  assumes "env_plain env" "keeps_ok env keeps" "system_ok keeps S" "hoover_due now S"
  shows "\<exists>S'. Hoover env now S = Done S' \<and> system_ok keeps S' \<and>
    ps_registry S' = \<lparr>cs_ports = filter (\<lambda>(k, i). \<not> IsExpired now (the_port i S)) (cs_ports (ps_registry S)),
      cs_lastHooveringTime = now\<rparr>"
proof -
  let ?reg = "cs_ports (ps_registry S)"
  let ?S1 = "S\<lparr>ps_registry := (ps_registry S)\<lparr>cs_lastHooveringTime := now\<rparr>\<rparr>"
  let ?is = "filter (\<lambda>i. IsExpired now (the_port i S)) (map snd ?reg)"
  have ok: "system_ok keeps ?S1" using assms(3) by (simp add: system_ok_def)
  have "list_all (\<lambda>i. i < length (ps_ports ?S1)) ?is"
    using assms(3) by (auto simp: system_ok_def list_all_iff)
  from dismiss_ok [OF assms(1,2) ok this, of now] obtain S' where S': "dismiss env now ?is ?S1 = Done S'"
    "system_ok keeps S'"
    "ps_registry S' = (ps_registry ?S1)\<lparr>cs_ports := filter (\<lambda>(k, _). k \<notin> (\<lambda>i. cp_id (ps_ports ?S1 ! i)) ` set ?is)
        (cs_ports (ps_registry ?S1))\<rparr>" by blast
  have same: "(k \<notin> (\<lambda>i. cp_id (ps_ports S ! i)) ` set ?is) = (\<not> IsExpired now (the_port i S))"
    if ki: "(k, i) \<in> set ?reg" for k i
  proof -
    have names: "cp_id (ps_ports S ! j) = n" if "(n, j) \<in> set ?reg" for n j
      using that assms(3) by (auto simp: system_ok_def)
    have dist: "distinct (map fst ?reg)" using assms(3) by (simp add: system_ok_def)
    show ?thesis
    proof (rule arg_cong [where f = Not], rule iffI)
      assume "k \<in> (\<lambda>i. cp_id (ps_ports S ! i)) ` set ?is"
      then obtain j n where j: "k = cp_id (ps_ports S ! j)" "(n, j) \<in> set ?reg" "IsExpired now (the_port j S)"
        by auto
      with names have "(k, j) \<in> set ?reg" by simp
      with eq_key_imp_eq_value [OF dist ki] j(3) show "IsExpired now (the_port i S)" by blast
    next
      assume "IsExpired now (the_port i S)"
      with ki have "i \<in> set ?is" by force
      with names [OF ki] show "k \<in> (\<lambda>i. cp_id (ps_ports S ! i)) ` set ?is" by blast
    qed
  qed
  have "filter (\<lambda>(k, _). k \<notin> (\<lambda>i. cp_id (ps_ports S ! i)) ` set ?is) ?reg
      = filter (\<lambda>(k, i). \<not> IsExpired now (the_port i S)) ?reg"
    by (rule filter_cong) (use same in auto)
  with S' assms(4) show ?thesis by (simp add: Hoover_def hoover_due_def the_port_def Let_def)
qed

lemma map_of_filter_value:
  "distinct (map fst m) \<Longrightarrow> map_of (filter (\<lambda>(k, i). P i) m) x =
    (case map_of m x of None \<Rightarrow> None | Some i \<Rightarrow> if P i then Some i else None)"
  by (induction m) (force simp: map_of_eq_None_iff split: option.split)+

text \<open>
  Looking up a port. With a sound registry, \<open>GetPort\<close> is never undefined, keeps the registry sound,
  and finds the port registered under the name unless, when at least eleven seconds have passed since
  the registry was last hoovered, that port has expired; and the expired ports are then the only ones
  that leave the registry.
\<close>

theorem GetPort_expiry:
  assumes "env_plain env" "keeps_ok env keeps" "system_ok keeps S"
  shows "\<exists>S'. GetPort env now portId S =
      Done (case map_of (cs_ports (ps_registry S)) portId of None \<Rightarrow> None
        | Some i \<Rightarrow> if hoover_due now S \<and> IsExpired now (the_port i S) then None else Some i, S') \<and>
    system_ok keeps S' \<and>
    cs_ports (ps_registry S') = filter (\<lambda>(k, i). \<not> (hoover_due now S \<and> IsExpired now (the_port i S)))
      (cs_ports (ps_registry S))"
proof (cases "hoover_due now S")
  case False
  then show ?thesis using assms(3)
    by (auto simp: GetPort_def Hoover_def hoover_due_def case_prod_unfold split: option.split)
next
  case True
  obtain S' where S': "Hoover env now S = Done S'" "system_ok keeps S'"
    "cs_ports (ps_registry S') = filter (\<lambda>(k, i). \<not> IsExpired now (the_port i S)) (cs_ports (ps_registry S))"
    using Hoover_ok [OF assms True] by auto
  have "distinct (map fst (cs_ports (ps_registry S)))" using assms(3) by (simp add: system_ok_def)
  then have "map_of (filter (\<lambda>(k, i). \<not> IsExpired now (the_port i S)) (cs_ports (ps_registry S))) portId
      = (case map_of (cs_ports (ps_registry S)) portId of None \<Rightarrow> None
          | Some i \<Rightarrow> if \<not> IsExpired now (the_port i S) then Some i else None)"
    by (rule map_of_filter_value)
  with S' True show ?thesis by (simp add: GetPort_def split: option.split)
qed

definition example_system :: "(nat, unit) port_system" where
  "example_system = \<lparr>ps_ports = [example_port, example_port\<lparr>cp_id := ''other'', cp_lastUpdated := 900\<rparr>],
     ps_registry = \<lparr>cs_ports = [(''other'', 1), (''port'', 0)], cs_lastHooveringTime = 0\<rparr>,
     ps_world = empty_world\<rparr>"

theorem GetPort_expiry_witness:
  "\<exists>S'. GetPort example_env 1000 ''port'' example_system =
      Done (case map_of (cs_ports (ps_registry example_system)) ''port'' of None \<Rightarrow> None
        | Some i \<Rightarrow> if hoover_due 1000 example_system \<and> IsExpired 1000 (the_port i example_system)
            then None else Some i, S') \<and>
    system_ok (\<lambda>_. True) S' \<and>
    cs_ports (ps_registry S') =
      filter (\<lambda>(k, i). \<not> (hoover_due 1000 example_system \<and> IsExpired 1000 (the_port i example_system)))
        (cs_ports (ps_registry example_system))"
  by (rule GetPort_expiry [OF example_env_ok])
    (simp add: system_ok_def example_system_def port_ok_def example_port_def CapturePort_new_def LoadFilters_def
      List.map_filter_def)

end
