(* ===== verification/OrkSipTcp.thy ===== *)
theory OrkSipTcp
  imports OrkPrelude
begin

text \<open>
  SIP over TCP (audiocaptureplugins/common/SipTcp.cpp, SafeBuffer.cpp): the search routines, the
  splitting of a byte stream into SIP messages by their Content-Length, and the reassembly of
  streams from TCP segments. The handlers that a complete message is passed to belong to other
  parts of the program: here a message that is found is delivered, in order.

  A pointer into memory is an offset in a list of bytes that also holds what lies behind the end of
  the packet, because the searches compare beyond it; a comparison that leaves this memory is
  undefined. Allocation succeeds. The text of a packet, read up to a NUL by \<open>starts_with\<close>, ends
  within the memory. Time is an argument.
\<close>

section \<open>Searching memory\<close>

text \<open>\<open>strncasecmp\<close> with the whole pattern; \<open>None\<close> is a read behind the memory.\<close>

fun match_ci :: "string \<Rightarrow> string \<Rightarrow> bool option" where
  "match_ci [] mem = Some True"
| "match_ci (p # ps) [] = None"
| "match_ci (p # ps) (c # cs) = (if to_lower p = to_lower c then match_ci ps cs else Some False)"

text \<open>The positions that \<open>memchr\<close> stops at are tried in turn.\<close>

fun try_at :: "string \<Rightarrow> string \<Rightarrow> nat list \<Rightarrow> nat option outcome" where
  "try_at pat mem [] = Done None"
| "try_at pat mem (i # is) =
     (case match_ci pat (drop i mem) of
        None \<Rightarrow> Undefined
      | Some True \<Rightarrow> Done (Some i)
      | Some False \<Rightarrow> try_at pat mem is)"

text \<open>\<open>memFindAfter\<close> looks for the first byte of the pattern in its own case, but from the second
  position on only; \<open>memFindStr\<close> in both cases.\<close>

definition memFindAfter :: "string \<Rightarrow> string \<Rightarrow> nat \<Rightarrow> nat \<Rightarrow> nat option outcome" where
  "memFindAfter pat mem start stop =
     and_then (try_at pat mem
         (if start < stop then start # filter (\<lambda>i. mem ! i = hd pat) [Suc start..<stop] else []))
       (\<lambda>r. Done (map_option (\<lambda>i. i + length pat) r))"

definition memFindStr :: "string \<Rightarrow> string \<Rightarrow> nat \<Rightarrow> nat \<Rightarrow> nat option outcome" where
  "memFindStr pat mem start stop =
     try_at pat mem
       (if start < stop then start # filter (\<lambda>i. to_lower (mem ! i) = to_lower (hd pat)) [Suc start..<stop]
        else [])"

text \<open>\<open>memFindEOL\<close> tests the byte before the limit.\<close>

definition memFindEOL :: "string \<Rightarrow> nat \<Rightarrow> nat \<Rightarrow> nat outcome" where
  "memFindEOL mem start limit =
     (let c = (case List.find (\<lambda>i. i \<ge> length mem \<or> mem ! i = CR \<or> mem ! i = LF \<or> i \<ge> limit)
                 [start..<Suc (max start limit)] of Some i \<Rightarrow> i | None \<Rightarrow> start)
      in if c \<ge> length mem then Undefined
         else if mem ! c = CR \<or> mem ! c = LF then Done c else Done start)"

section \<open>Buffers and streams\<close>

text \<open>A \<open>SafeBuffer\<close> keeps a NUL behind its bytes.\<close>

definition SafeBuffer_Store :: "string \<Rightarrow> string \<Rightarrow> string" where
  "SafeBuffer_Store buf b = buf"

definition SafeBuffer_Add :: "string \<Rightarrow> string \<Rightarrow> string" where
  "SafeBuffer_Add buf b = (if length b = 0 then SafeBuffer_Store buf b else b @ buf)"

definition SafeBuffer_memory :: "string \<Rightarrow> string" where
  "SafeBuffer_memory b = b @ [NUL]"

record SipTcpStream =
  st_senderIp :: u32
  st_receiverIp :: u32
  st_senderPort :: u16
  st_receiverPort :: u16
  st_expectingSeqNo :: "64 word"
  st_lastSeqNo :: "64 word"
  st_offset :: nat
  st_entryTime :: int
  st_tcpBuffer :: string

text \<open>
  A TCP packet: addresses, ports and sequence number in host order, the memory from its payload on,
  and the payload length computed from the IP packet length, which a bad header can make negative.
\<close>

record tcp_packet =
  pk_src :: u32
  pk_dest :: u32
  pk_sport :: u16
  pk_dport :: u16
  pk_seq :: u32
  pk_mem :: string
  pk_len :: int

section \<open>Splitting a stream into messages\<close>

text \<open>\<open>sscanf\<close> with \<open>%d\<close>; \<open>None\<close> when nothing is converted.\<close>

definition scan_int :: "string \<Rightarrow> int option" where
  "scan_int s =
     (let t = dropWhile is_space s;
          u = (if t \<noteq> [] \<and> (hd t = CHR ''-'' \<or> hd t = CHR ''+'') then tl t else t)
      in if u = [] \<or> \<not> is_digit (hd u) then None else Some (to_int32 (fst (strtol10 s))))"

definition content_length_tag :: string where
  "content_length_tag = ''Content-Length: ''"

definition header_end_tag :: string where
  "header_end_tag = [CR, LF, CR, LF]"

text \<open>
  The loop of \<open>ParseSipStream\<close>. It need not end: \<open>None\<close> is a call that does not return. A length that
  was not read, or an end before the buffer, is undefined. An end before the start delivers a message
  that is too short for every handler.
\<close>

partial_function (option) sip_stream ::
    "string \<Rightarrow> nat \<Rightarrow> nat \<Rightarrow> string list \<Rightarrow> (nat \<times> string list) outcome option" where
  "sip_stream mem stop start out =
     (case memFindAfter content_length_tag mem start stop of
        Done (Some i) \<Rightarrow>
          (case memFindAfter header_end_tag mem i stop of
             Done (Some j) \<Rightarrow>
               (case scan_int (drop i mem) of
                  None \<Rightarrow> Some Undefined
                | Some n \<Rightarrow>
                    if int j + n > int stop then Some (Done (start, out))
                    else if int j + n < 0 then Some Undefined
                    else sip_stream mem stop (nat (int j + n))
                           (out @ [take (nat (int j + n) - start) (drop start mem)]))
           | Done None \<Rightarrow> Some (Done (start, out))
           | _ \<Rightarrow> Some Undefined)
      | Done None \<Rightarrow> Some (Done (start, out))
      | _ \<Rightarrow> Some Undefined)"

definition ParseSipStream :: "string \<Rightarrow> nat \<Rightarrow> (nat \<times> string list) outcome option" where
  "ParseSipStream mem stop = sip_stream mem stop 0 []"

section \<open>Reassembly\<close>

text \<open>Sequencing of calls that may not return.\<close>

fun ret_then :: "'a outcome option \<Rightarrow> ('a \<Rightarrow> 'b outcome option) \<Rightarrow> 'b outcome option" where
  "ret_then None f = None"
| "ret_then (Some (Done x)) f = f x"
| "ret_then (Some Thrown) f = Some Thrown"
| "ret_then (Some Undefined) f = Some Undefined"

definition same_flow :: "SipTcpStream \<Rightarrow> tcp_packet \<Rightarrow> bool" where
  "same_flow s p \<longleftrightarrow> st_senderIp s = pk_src p \<and> st_receiverIp s = pk_dest p \<and>
     st_senderPort s = pk_sport p \<and> st_receiverPort s = pk_dport p"

definition sip_starts :: "string list" where
  "sip_starts = [''INVITE'', ''ACK'', ''BYE'', ''SIP/2.0 200'', ''SIP/2.0 183 Session Progress'', ''REFER'',
     ''INFO'', ''SUBSCRIBE'', ''SIP/2.0 302 Moved Temporarily'', ''NOTIFY'', ''SIP/2.0 4'', ''SIP/2.0 5'',
     ''SIP/2.0 6'', ''CANCEL '']"

definition is_sip_start :: "tcp_packet \<Rightarrow> bool" where
  "is_sip_start p \<longleftrightarrow> pk_len p \<ge> 31 \<and> list_ex (\<lambda>m. starts_with m (c_str (pk_mem p))) sip_starts"

definition SipTcpStream_new :: "int \<Rightarrow> tcp_packet \<Rightarrow> nat \<Rightarrow> SipTcpStream" where
  "SipTcpStream_new now p off =
     \<lparr>st_senderIp = pk_src p, st_receiverIp = pk_dest p, st_senderPort = pk_sport p,
      st_receiverPort = pk_dport p, st_expectingSeqNo = ucast (pk_seq p + word_of_int (pk_len p)),
      st_lastSeqNo = ucast (pk_seq p), st_offset = off, st_entryTime = now,
      st_tcpBuffer = SafeBuffer_Add (take (nat (pk_len p)) (pk_mem p)) []\<rparr>"

text \<open>Continuing a stream: the packet is added and the part behind the offset is parsed.\<close>

definition continue_stream ::
    "tcp_packet \<Rightarrow> SipTcpStream \<Rightarrow> (SipTcpStream \<times> string list) outcome option" where
  "continue_stream p s =
     (if pk_len p < 0 \<or> length (pk_mem p) < nat (pk_len p) then Some Undefined
      else
        let b = SafeBuffer_Add (take (nat (pk_len p)) (pk_mem p)) (st_tcpBuffer s)
        in ret_then (ParseSipStream (drop (st_offset s) (SafeBuffer_memory b)) (length b - st_offset s))
             (\<lambda>(n, out). Some (Done (s\<lparr>st_tcpBuffer := b, st_offset := st_offset s + n,
                st_expectingSeqNo := st_expectingSeqNo s + word_of_int (pk_len p)\<rparr>, out))))"

definition stream_gone :: "int \<Rightarrow> SipTcpStream \<Rightarrow> bool" where
  "stream_gone now s \<longleftrightarrow> st_offset s = length (st_tcpBuffer s) \<or> now - st_entryTime s \<ge> 60"

fun continue_streams ::
    "int \<Rightarrow> tcp_packet \<Rightarrow> SipTcpStream list \<Rightarrow> (bool \<times> SipTcpStream list \<times> string list) outcome option" where
  "continue_streams now p [] = Some (Done (False, [], []))"
| "continue_streams now p (s # ss) =
     (let hit = (same_flow s p \<and> st_expectingSeqNo s = ucast (pk_seq p))
      in ret_then (if hit then continue_stream p s else Some (Done (s, []))) (\<lambda>(s1, out).
         ret_then (continue_streams now p ss) (\<lambda>(r, kept, outs).
         Some (Done (hit \<or> r, if stream_gone now s1 then kept else s1 # kept, out @ outs)))))"

definition TrySipTcp ::
    "int \<Rightarrow> tcp_packet \<Rightarrow> SipTcpStream list \<Rightarrow> (bool \<times> SipTcpStream list \<times> string list) outcome option" where
  "TrySipTcp now p ss =
     (if list_ex (\<lambda>s. same_flow s p \<and> st_lastSeqNo s \<ge> ucast (pk_seq p)) ss then Some (Done (True, ss, []))
      else if is_sip_start p then
        (if length (pk_mem p) < nat (pk_len p) then Some Undefined
         else ret_then (ParseSipStream (pk_mem p) (nat (pk_len p))) (\<lambda>(n, out).
           Some (Done (True, if int n \<noteq> pk_len p then ss @ [SipTcpStream_new now p n] else ss, out))))
      else continue_streams now p ss)"

section \<open>What the searches find\<close>

lemma to_lower_NUL: "to_lower c = to_lower NUL \<longleftrightarrow> c = NUL"
proof -
  have a: "chr_code (to_lower c) = 0 \<longleftrightarrow> chr_code c = 0" by (auto simp: to_lower_def is_upper_def)
  have b: "to_lower NUL = NUL" by (simp add: to_lower_def is_upper_def)
  have "(d = NUL) = (chr_code d = 0)" for d
    using of_char_eq_iff [of d NUL, where ?'a = nat] by simp
  with a b show ?thesis by metis
qed

lemma match_ci_length: "match_ci pat s = Some True \<Longrightarrow> length pat \<le> length s"
  by (induction pat s rule: match_ci.induct) (auto split: if_splits)

lemma match_ci_append: "length pat \<le> length s \<Longrightarrow> match_ci pat (s @ u) = match_ci pat s"
  by (induction pat s rule: match_ci.induct) auto

lemma match_ci_NUL:
  "NUL \<notin> set pat \<Longrightarrow> match_ci pat (s @ NUL # r) = Some (match_ci pat s = Some True)"
proof (induction pat s rule: match_ci.induct)
  case (2 p ps)
  then show ?case by (auto simp: to_lower_NUL)
qed auto

lemma try_at_find:
  "(\<And>i. i \<in> set is \<Longrightarrow> match_ci pat (drop i mem) = Some (P i)) \<Longrightarrow> try_at pat mem is = Done (List.find P is)"
proof (induction "is")
  case (Cons i "is")
  have "match_ci pat (drop i mem) = Some (P i)" by (rule Cons.prems) simp
  moreover have "try_at pat mem is = Done (List.find P is)" by (rule Cons.IH) (rule Cons.prems, simp)
  ultimately show ?case by (cases "P i") simp_all
qed simp

lemma find_filter: "List.find P (filter Q xs) = List.find (\<lambda>x. Q x \<and> P x) xs"
  by (induction xs) auto

text \<open>The end of the first match in a text, counted from its beginning.\<close>

definition match_at :: "string \<Rightarrow> string \<Rightarrow> nat \<Rightarrow> nat \<Rightarrow> bool" where
  "match_at pat t start i \<longleftrightarrow> (i = start \<or> t ! i = hd pat) \<and> match_ci pat (drop i t) = Some True"

definition first_match :: "string \<Rightarrow> string \<Rightarrow> nat \<Rightarrow> nat option" where
  "first_match pat t start =
     map_option (\<lambda>i. i + length pat) (List.find (match_at pat t start) [start..<length t])"

lemma memFindAfter_text:
  assumes "NUL \<notin> set pat" "start \<le> length t"
  shows "memFindAfter pat (t @ NUL # r) start (length t) = Done (first_match pat t start)"
proof -
  let ?mem = "t @ NUL # r" and ?P = "\<lambda>i. match_ci pat (drop i t) = Some True"
  let ?is = "if start < length t then start # filter (\<lambda>i. ?mem ! i = hd pat) [Suc start..<length t] else []"
  have "try_at pat ?mem ?is = Done (List.find ?P ?is)"
    by (rule try_at_find) (auto simp: match_ci_NUL [OF assms(1)])
  moreover have "List.find ?P ?is = List.find (match_at pat t start) [start..<length t]"
  proof (cases "start < length t")
    case True
    have "List.find (\<lambda>i. ?mem ! i = hd pat \<and> ?P i) [Suc start..<length t]
        = List.find (match_at pat t start) [Suc start..<length t]"
      by (rule find_cong) (auto simp: match_at_def nth_append)
    with True show ?thesis by (simp add: find_filter upt_conv_Cons match_at_def)
  next
    case False
    then show ?thesis by simp
  qed
  ultimately show ?thesis by (simp add: memFindAfter_def first_match_def)
qed

lemma find_upt:
  "List.find P [a..<b] = Some i \<longleftrightarrow> a \<le> i \<and> i < b \<and> P i \<and> (\<forall>k. a \<le> k \<and> k < i \<longrightarrow> \<not> P k)"
proof (induction "b - a" arbitrary: a)
  case (Suc n)
  then have "List.find P [Suc a..<b] = Some i \<longleftrightarrow>
      Suc a \<le> i \<and> i < b \<and> P i \<and> (\<forall>k. Suc a \<le> k \<and> k < i \<longrightarrow> \<not> P k)" by simp
  moreover have "a < b" using Suc.hyps(2) by simp
  ultimately have "List.find P [a..<b] = Some i \<longleftrightarrow> (if P a then i = a else
      Suc a \<le> i \<and> i < b \<and> P i \<and> (\<forall>k. Suc a \<le> k \<and> k < i \<longrightarrow> \<not> P k))"
    by (auto simp: upt_conv_Cons)
  moreover have "(\<forall>k. a \<le> k \<and> k < i \<longrightarrow> \<not> P k) \<longleftrightarrow>
      (a < i \<longrightarrow> \<not> P a) \<and> (\<forall>k. Suc a \<le> k \<and> k < i \<longrightarrow> \<not> P k)"
    by (metis Suc_le_eq le_neq_implies_less le_refl less_imp_le)
  ultimately show ?case using \<open>a < b\<close> by (cases "P a") (auto simp: le_less Suc_le_eq)
qed simp

lemma first_match_iff:
  "first_match pat t start = Some j \<longleftrightarrow>
    (\<exists>i. j = i + length pat \<and> start \<le> i \<and> i < length t \<and> match_at pat t start i \<and>
      (\<forall>k. start \<le> k \<and> k < i \<longrightarrow> \<not> match_at pat t start k))"
  by (auto simp: first_match_def find_upt)

lemma match_at_end: "match_at pat t start i \<Longrightarrow> i < length t \<Longrightarrow> i + length pat \<le> length t"
  using match_ci_length [of pat "drop i t"] by (simp add: match_at_def)

lemma match_at_take:
  assumes "pat \<noteq> []" "i + length pat \<le> n" "n \<le> length t"
  shows "match_at pat (take n t) start i = match_at pat t start i"
proof -
  have "drop i t = drop i (take n t) @ drop n t"
    using assms(2) by (metis append_take_drop_id drop_take drop_drop add.commute le_add1 le_add_diff_inverse2 le_trans)
  then have "match_ci pat (drop i t) = match_ci pat (drop i (take n t))"
    using match_ci_append [of pat "drop i (take n t)"] assms(2,3) by simp
  moreover have "i < n" using assms(1,2) by (cases pat) auto
  ultimately show ?thesis by (simp add: match_at_def)
qed

text \<open>A longer text has the same first match; a text cut before its end has none.\<close>

lemma first_match_take:
  assumes "pat \<noteq> []" "first_match pat t start = Some j" "n \<le> length t"
  shows "first_match pat (take n t) start = (if j \<le> n then Some j else None)"
proof -
  obtain i where i: "j = i + length pat" "start \<le> i" "i < length t" "match_at pat t start i"
    "\<And>k. start \<le> k \<Longrightarrow> k < i \<Longrightarrow> \<not> match_at pat t start k"
    using assms(2) by (auto simp: first_match_iff)
  note take = match_at_take [OF assms(1) _ assms(3), of _ start]
  show ?thesis
  proof (cases "j \<le> n")
    case True
    have "\<not> match_at pat (take n t) start k" if "start \<le> k" "k < i" for k
      using take [of k] i(1) i(5) [OF that] that True by simp
    moreover have "match_at pat (take n t) start i" using take [of i] i(1,4) True by simp
    moreover have "i < n" using i(1) True assms(1) by (cases pat) auto
    ultimately show ?thesis using True i(1-3) assms(3) by (simp add: first_match_iff)
  next
    case False
    have "first_match pat (take n t) start \<noteq> Some k" for k
    proof
      assume "first_match pat (take n t) start = Some k"
      then obtain l where l: "k = l + length pat" "start \<le> l" "l < n" "match_at pat (take n t) start l"
        by (auto simp: first_match_iff)
      then have "l + length pat \<le> n" using match_at_end [OF l(4)] assms(3) by simp
      with take [of l] l(4) False i(1) have "match_at pat t start l" "l < i" by simp_all
      with i(5) l(2) show False by blast
    qed
    with False show ?thesis by (cases "first_match pat (take n t) start") auto
  qed
qed

lemma first_match_append:
  assumes "pat \<noteq> []" "first_match pat t start = Some j"
  shows "first_match pat (t @ u) start = Some j"
proof -
  obtain i where i: "j = i + length pat" "start \<le> i" "i < length t" "match_at pat t start i"
    "\<And>k. start \<le> k \<Longrightarrow> k < i \<Longrightarrow> \<not> match_at pat t start k"
    using assms(2) by (auto simp: first_match_iff)
  have same: "match_at pat (t @ u) start k = match_at pat t start k" if "k + length pat \<le> length t" for k
    using match_at_take [OF assms(1) that, of "t @ u" start] by simp
  have "i + length pat \<le> length t" by (rule match_at_end [OF i(4,3)])
  with same i show ?thesis by (auto simp: first_match_iff intro!: exI [of _ i])
qed

lemma first_match_shift:
  "first_match pat (a @ t) (length a + s) = map_option (\<lambda>j. length a + j) (first_match pat t s)"
proof -
  have "[length a + s..<length a + n] = map ((+) (length a)) [s..<n]" for n by (induction n) auto
  moreover have "List.find P (map f xs) = map_option f (List.find (\<lambda>x. P (f x)) xs)"
    for P :: "nat \<Rightarrow> bool" and f :: "nat \<Rightarrow> nat" and xs by (induction xs) auto
  moreover have "match_at pat (a @ t) (length a + s) (length a + i) = match_at pat t s i" for i
    by (simp add: match_at_def)
  ultimately show ?thesis
    by (simp add: first_match_def option.map_comp comp_def add.assoc)
qed

lemma memFindAfter_shift:
  assumes "NUL \<notin> set pat" "s \<le> length t"
  shows "memFindAfter pat (a @ t @ NUL # r) (length a + s) (length a + length t) =
    Done (map_option (\<lambda>j. length a + j) (first_match pat t s))"
  using memFindAfter_text [OF assms(1), of "length a + s" "a @ t" r] assms(2) by (simp add: first_match_shift)

section \<open>Messages\<close>

text \<open>A message: a header with its Content-Length, an empty line, and as many bytes.\<close>

definition sip_message :: "string \<Rightarrow> bool" where
  "sip_message m \<longleftrightarrow>
     (case first_match content_length_tag m 0 of
        None \<Rightarrow> False
      | Some i \<Rightarrow>
          (case first_match header_end_tag m i of
             None \<Rightarrow> False
           | Some j \<Rightarrow>
               (case read_digits 0 (take (j - i) (drop i m)) of
                  (n, r) \<Rightarrow> is_digit (m ! i) \<and> r \<noteq> [] \<and> j + n = length m \<and> n < 2 ^ 31)))"

lemma sip_messageE:
  assumes "sip_message m"
  obtains i j n r where "first_match content_length_tag m 0 = Some i"
    "first_match header_end_tag m i = Some j" "i < j" "is_digit (m ! i)" "j + n = length m" "n < 2 ^ 31"
    "read_digits 0 (take (j - i) (drop i m)) = (n, r)" "r \<noteq> []"
proof -
  obtain i j where ij: "first_match content_length_tag m 0 = Some i" "first_match header_end_tag m i = Some j"
    using assms by (auto simp: sip_message_def split: option.splits)
  obtain n r where rd: "read_digits 0 (take (j - i) (drop i m)) = (n, r)" by force
  have lt: "i < j" using ij(2) by (auto simp: first_match_iff header_end_tag_def)
  have "is_digit (m ! i)" "j + n = length m" "n < 2 ^ 31" "r \<noteq> []"
    using ij rd assms by (simp_all add: sip_message_def)
  from that [OF ij lt this(1-3) rd this(4)] show ?thesis .
qed

lemma read_digits_more: "read_digits acc s = (n, r) \<Longrightarrow> r \<noteq> [] \<Longrightarrow> read_digits acc (s @ u) = (n, r @ u)"
  by (induction acc s rule: read_digits.induct) (auto split: if_splits)

lemma scan_header:
  assumes "read_digits 0 s = (n, r)" "r \<noteq> []" "s \<noteq> []" "is_digit (hd s)" "n < 2 ^ 31"
  shows "scan_int (s @ u) = Some (int n)"
proof -
  have rd: "read_digits 0 (s @ u) = (n, r @ u)" by (rule read_digits_more [OF assms(1,2)])
  have ns: "\<not> is_space (hd s)" "hd s \<noteq> CHR ''-''" "hd s \<noteq> CHR ''+''"
    using assms(4) digit_not_space digit_not_sign by auto
  have "dropWhile is_space (s @ u) = s @ u" using ns(1) assms(3) by (cases s) auto
  moreover have "is_int32 (int n)" using assms(5) by (simp add: is_int32_def)
  ultimately show ?thesis using rd ns assms(3,4)
    by (simp add: scan_int_def strtol10_def Let_def clamp_long_id to_int32_id)
qed

lemma tags: "NUL \<notin> set content_length_tag" "NUL \<notin> set header_end_tag" "content_length_tag \<noteq> []" "header_end_tag \<noteq> []"
  by (simp_all add: content_length_tag_def header_end_tag_def)

text \<open>The text \<open>t\<close> behind the position starts with the header of a message.\<close>

lemma sip_stream_header:
  assumes "first_match content_length_tag t 0 = Some i" "first_match header_end_tag t i = Some j"
    "i < j" "j \<le> length t" "is_digit (t ! i)" "read_digits 0 (take (j - i) (drop i t)) = (n, r)" "r \<noteq> []" "n < 2 ^ 31"
  shows "sip_stream (a @ t @ NUL # rest) (length a + length t) (length a) out =
    (if j + n > length t then Some (Done (length a, out))
     else sip_stream (a @ t @ NUL # rest) (length a + length t) (length a + (j + n)) (out @ [take (j + n) t]))"
proof -
  let ?mem = "a @ t @ NUL # rest"
  have f: "memFindAfter content_length_tag ?mem (length a) (length a + length t) = Done (Some (length a + i))"
    using memFindAfter_shift [OF tags(1), of 0 t a rest] assms(1) by simp
  have g: "memFindAfter header_end_tag ?mem (length a + i) (length a + length t) = Done (Some (length a + j))"
    using memFindAfter_shift [OF tags(2), of i t a rest] assms(2-4) by simp
  let ?h = "take (j - i) (drop i t)"
  have h: "drop i t = ?h @ drop (j - i) (drop i t)" by (rule append_take_drop_id [symmetric])
  have "?h \<noteq> []" "hd ?h = t ! i" using assms(3,4) by (simp_all add: hd_drop_conv_nth hd_take)
  then have "scan_int (?h @ (drop (j - i) (drop i t) @ NUL # rest)) = Some (int n)"
    using assms(5-8) by (intro scan_header) auto
  moreover have "drop (length a + i) ?mem = ?h @ (drop (j - i) (drop i t) @ NUL # rest)"
    using assms(3,4) h by (simp flip: append_assoc)
  ultimately have s: "scan_int (drop (length a + i) ?mem) = Some (int n)" by (simp only:)
  show ?thesis
  proof (cases "j + n > length t")
    case True
    with f g s show ?thesis by (subst sip_stream.simps) simp
  next
    case False
    then have "nat (int (length a + j) + int n) = length a + (j + n)" "take (j + n) (t @ NUL # rest) = take (j + n) t"
      by simp_all
    with False f g s show ?thesis by (subst sip_stream.simps) (simp add: add.assoc)
  qed
qed

lemma sip_stream_nothing:
  assumes "first_match content_length_tag t 0 = None \<or>
    (\<exists>i \<le> length t. first_match content_length_tag t 0 = Some i \<and> first_match header_end_tag t i = None)"
  shows "sip_stream (a @ t @ NUL # rest) (length a + length t) (length a) out = Some (Done (length a, out))"
proof -
  let ?mem = "a @ t @ NUL # rest"
  have f: "memFindAfter content_length_tag ?mem (length a) (length a + length t)
      = Done (map_option (\<lambda>j. length a + j) (first_match content_length_tag t 0))"
    using memFindAfter_shift [OF tags(1), of 0 t a rest] by simp
  from assms show ?thesis
  proof
    assume "first_match content_length_tag t 0 = None"
    with f show ?thesis by (subst sip_stream.simps) simp
  next
    assume "\<exists>i \<le> length t. first_match content_length_tag t 0 = Some i \<and> first_match header_end_tag t i = None"
    then obtain i where i: "i \<le> length t" "first_match content_length_tag t 0 = Some i"
      "first_match header_end_tag t i = None" by blast
    with f memFindAfter_shift [OF tags(2) i(1), of a rest] show ?thesis by (subst sip_stream.simps) simp
  qed
qed

text \<open>The stream takes a complete message, and stops at an incomplete one.\<close>

lemma sip_stream_message:
  assumes "sip_message m"
  shows "sip_stream (a @ (m @ t) @ NUL # rest) (length a + length (m @ t)) (length a) out =
    sip_stream ((a @ m) @ t @ NUL # rest) (length (a @ m) + length t) (length (a @ m)) (out @ [m])"
proof -
  obtain i j n r where m: "first_match content_length_tag m 0 = Some i" "first_match header_end_tag m i = Some j"
    "i < j" "is_digit (m ! i)" "j + n = length m" "n < 2 ^ 31"
    "read_digits 0 (take (j - i) (drop i m)) = (n, r)" "r \<noteq> []"
    using assms by (rule sip_messageE)
  have "first_match content_length_tag (m @ t) 0 = Some i" "first_match header_end_tag (m @ t) i = Some j"
    by (rule first_match_append [OF tags(3) m(1)], rule first_match_append [OF tags(4) m(2)])
  moreover have "i < length m" using m(3,5) by simp
  ultimately have "sip_stream (a @ (m @ t) @ NUL # rest) (length a + length (m @ t)) (length a) out =
    (if j + n > length (m @ t) then Some (Done (length a, out))
     else sip_stream (a @ (m @ t) @ NUL # rest) (length a + length (m @ t)) (length a + (j + n)) (out @ [take (j + n) (m @ t)]))"
    using m(3-8) by (intro sip_stream_header) (auto simp: nth_append)
  with m(5) show ?thesis by (simp add: add.assoc)
qed

lemma sip_stream_partial:
  assumes "sip_message m" "c < length m"
  shows "sip_stream (a @ take c m @ NUL # rest) (length a + c) (length a) out = Some (Done (length a, out))"
proof -
  obtain i j n r where m: "first_match content_length_tag m 0 = Some i" "first_match header_end_tag m i = Some j"
    "i < j" "is_digit (m ! i)" "j + n = length m" "n < 2 ^ 31"
    "read_digits 0 (take (j - i) (drop i m)) = (n, r)" "r \<noteq> []"
    using assms(1) by (rule sip_messageE)
  let ?t = "take c m"
  have len: "length ?t = c" using assms(2) by simp
  have f: "first_match content_length_tag ?t 0 = (if i \<le> c then Some i else None)"
    "first_match header_end_tag ?t i = (if j \<le> c then Some j else None)"
    using first_match_take [OF tags(3) m(1)] first_match_take [OF tags(4) m(2)] assms(2) by simp_all
  show ?thesis
  proof (cases "j \<le> c")
    case True
    have "take (j - i) (drop i ?t) = take (j - i) (drop i m)" using True m(3) by (simp add: drop_take min_def)
    then have rd: "read_digits 0 (take (j - i) (drop i ?t)) = (n, r)" using m(7) by (simp only:)
    have dg: "is_digit (?t ! i)" using m(3,4) True by simp
    have "sip_stream (a @ ?t @ NUL # rest) (length a + length ?t) (length a) out =
      (if j + n > length ?t then Some (Done (length a, out))
       else sip_stream (a @ ?t @ NUL # rest) (length a + length ?t) (length a + (j + n)) (out @ [take (j + n) ?t]))"
      by (rule sip_stream_header [OF _ _ m(3) _ dg rd m(8,6)]) (use f True m(3,5) in \<open>simp_all add: len\<close>)
    with m(5) assms(2) len show ?thesis by simp
  next
    case False
    with f len have "sip_stream (a @ ?t @ NUL # rest) (length a + length ?t) (length a) out = Some (Done (length a, out))"
      by (intro sip_stream_nothing) auto
    then show ?thesis by (simp only: len)
  qed
qed

text \<open>A part of a stream of messages: complete ones, then a part of the next.\<close>

definition stream_part :: "string list \<Rightarrow> string \<Rightarrow> bool" where
  "stream_part ms p \<longleftrightarrow> list_all sip_message ms \<and> (p = [] \<or> (\<exists>m c. sip_message m \<and> c < length m \<and> p = take c m))"

lemma sip_stream_part:
  "stream_part ms p \<Longrightarrow>
    sip_stream (a @ (concat ms @ p) @ NUL # rest) (length a + length (concat ms @ p)) (length a) out =
      Some (Done (length a + length (concat ms), out @ ms))"
proof (induction ms arbitrary: a out)
  case Nil
  show ?case
  proof (cases "p = []")
    case True
    have "first_match content_length_tag [] 0 = None" by (simp add: first_match_def)
    with True sip_stream_nothing [of "[]" a rest out] show ?thesis by simp
  next
    case False
    then obtain m c where "sip_message m" "c < length m" "p = take c m" using Nil by (auto simp: stream_part_def)
    with sip_stream_partial [of m c a rest out] show ?thesis by simp
  qed
next
  case (Cons m ms)
  have m: "sip_message m" and part: "stream_part ms p" using Cons.prems by (auto simp: stream_part_def)
  have "sip_stream (a @ (m @ (concat ms @ p)) @ NUL # rest) (length a + length (m @ (concat ms @ p))) (length a) out =
    sip_stream ((a @ m) @ (concat ms @ p) @ NUL # rest) (length (a @ m) + length (concat ms @ p)) (length (a @ m)) (out @ [m])"
    by (rule sip_stream_message [OF m])
  also have "\<dots> = Some (Done (length (a @ m) + length (concat ms), (out @ [m]) @ ms))" by (rule Cons.IH [OF part])
  finally show ?case by (simp add: add.assoc)
qed

lemma ParseSipStream_part:
  "stream_part ms p \<Longrightarrow> ParseSipStream ((concat ms @ p) @ NUL # rest) (length (concat ms @ p)) =
    Some (Done (length (concat ms), ms))"
  using sip_stream_part [of ms p "[]" rest "[]"] by (simp add: ParseSipStream_def)

section \<open>Streams cut into segments\<close>

text \<open>Segments of one flow, from a sequence number on; a NUL follows each payload in memory.\<close>

definition segment :: "tcp_packet \<Rightarrow> nat \<Rightarrow> string \<Rightarrow> tcp_packet" where
  "segment q s x = q\<lparr>pk_seq := of_nat s, pk_mem := x @ NUL # pk_mem q, pk_len := int (length x)\<rparr>"

fun segments :: "tcp_packet \<Rightarrow> nat \<Rightarrow> string list \<Rightarrow> tcp_packet list" where
  "segments q s [] = []"
| "segments q s (x # xs) = segment q s x # segments q (s + length x) xs"

text \<open>A part of a message that is not empty and not complete.\<close>

definition partial :: "string \<Rightarrow> string \<Rightarrow> bool" where
  "partial p m \<longleftrightarrow> (\<exists>c. 0 < c \<and> c < length m \<and> p = take c m)"

lemma partial_length: "partial p m \<Longrightarrow> 0 < length p \<and> length p < length m"
  by (auto simp: partial_def)

lemma cut_stream:
  "x @ r = concat ms \<Longrightarrow>
    \<exists>k p. k \<le> length ms \<and> x = concat (take k ms) @ p \<and> (p = [] \<or> k < length ms \<and> partial p (ms ! k))"
proof (induction ms arbitrary: x)
  case (Cons m ms)
  show ?case
  proof (cases "length m \<le> length x")
    case True
    have eq: "x @ r = m @ concat ms" using Cons.prems by simp
    then have "m = take (length m) x" using True by (metis append_eq_append_conv_if append_eq_conv_conj)
    then obtain y where y: "x = m @ y" by (metis append_take_drop_id)
    with eq have "y @ r = concat ms" by simp
    from Cons.IH [OF this] obtain k p where
      "k \<le> length ms" "y = concat (take k ms) @ p" "p = [] \<or> k < length ms \<and> partial p (ms ! k)" by blast
    with y show ?thesis by (intro exI [of _ "Suc k"] exI [of _ p]) auto
  next
    case False
    have "x = take (length x) (m @ concat ms)" using Cons.prems by (metis append_eq_conv_conj concat.simps(2))
    with False have "x = take (length x) m" by simp
    moreover have "x = [] \<or> 0 < length x" by auto
    ultimately have "x = [] \<or> partial x m" using False by (auto simp: partial_def not_le)
    then show ?thesis by (intro exI [of _ 0] exI [of _ x]) auto
  qed
qed auto

lemma cut_stream_part:
  assumes "list_all sip_message ms" "k \<le> length ms" "p = [] \<or> k < length ms \<and> partial p (ms ! k)"
  shows "stream_part (take k ms) p"
  using assms by (auto simp: stream_part_def partial_def list_all_length)

text \<open>No segment boundary but the last falls between two messages.\<close>

definition cuts_inside :: "string \<Rightarrow> string list \<Rightarrow> string list \<Rightarrow> bool" where
  "cuts_inside p xs ms \<longleftrightarrow> (\<forall>k l. 0 < k \<and> k < length xs \<longrightarrow> p @ concat (take k xs) \<noteq> concat (take l ms))"

lemma cuts_inside_next:
  assumes "cuts_inside p (x # xs) ms" "p @ x = concat (take k ms) @ p'"
  shows "cuts_inside p' xs (drop k ms)"
proof -
  have "p' @ concat (take j xs) \<noteq> concat (take l (drop k ms))" if "0 < j" "j < length xs" for j l
  proof
    assume "p' @ concat (take j xs) = concat (take l (drop k ms))"
    then have "(p @ x) @ concat (take j xs) = concat (take k ms) @ concat (take l (drop k ms))"
      unfolding assms(2) by simp
    then have "p @ concat (take (Suc j) (x # xs)) = concat (take (k + l) ms)"
      by (simp add: take_add)
    with assms(1) that show False unfolding cuts_inside_def by (metis Suc_less_eq length_Cons zero_less_Suc)
  qed
  then show ?thesis by (simp add: cuts_inside_def)
qed

text \<open>The stream kept between two segments.\<close>

definition open_stream :: "tcp_packet \<Rightarrow> int \<Rightarrow> nat \<Rightarrow> nat \<Rightarrow> string \<Rightarrow> string \<Rightarrow> SipTcpStream" where
  "open_stream q now s0 s a p =
     \<lparr>st_senderIp = pk_src q, st_receiverIp = pk_dest q, st_senderPort = pk_sport q,
      st_receiverPort = pk_dport q, st_expectingSeqNo = of_nat s, st_lastSeqNo = of_nat s0,
      st_offset = length a, st_entryTime = now, st_tcpBuffer = a @ p\<rparr>"

lemma seq_word: "s < 2 ^ 32 \<Longrightarrow> ucast (of_nat s :: u32) = (of_nat s :: 64 word)"
proof -
  assume "s < 2 ^ 32"
  then have "unat (of_nat s :: u32) = s" by (simp add: unat_of_nat take_bit_nat_eq_self)
  then show ?thesis by (metis of_nat_unat)
qed

lemma seq_later:
  assumes "s0 < s" "s < 2 ^ 32"
  shows "\<not> (of_nat s0 :: 64 word) \<ge> ucast (of_nat s :: u32)"
proof -
  have "unat (of_nat s :: 64 word) = s" "unat (of_nat s0 :: 64 word) = s0"
    using assms by (simp_all add: unat_of_nat take_bit_nat_eq_self)
  with assms(1) show ?thesis by (simp add: seq_word [OF assms(2)] word_le_nat_alt)
qed

text \<open>Where a cut leaves the stream: at its end when nothing follows, else inside a message.\<close>

lemma cut_complete:
  assumes "list_all sip_message ms" "k \<le> length ms" "concat ms = concat (take k ms) @ p"
    "p = [] \<or> k < length ms \<and> partial p (ms ! k)"
  shows "p = [] \<and> take k ms = ms"
proof (cases "k < length ms")
  case True
  have rest: "concat (drop k ms) = ms ! k @ concat (drop (Suc k) ms)"
    using True by (metis Cons_nth_drop_Suc concat.simps(2))
  have "concat (take k ms) @ concat (drop k ms) = concat (take k ms) @ p"
    using assms(3) by (simp flip: concat_append)
  with rest have p: "p = ms ! k @ concat (drop (Suc k) ms)" by simp
  have "ms ! k \<noteq> []" using assms(1) True by (auto simp: list_all_length sip_message_def first_match_def)
  with p assms(4) partial_length [of p "ms ! k"] show ?thesis by auto
qed (use assms in auto)

lemma cut_rest:
  assumes "list_all sip_message ms" "p0 @ x = concat (take k ms) @ p" "(p0 @ x) @ concat xs = concat ms"
    "xs \<noteq> []" "cuts_inside p0 (x # xs) ms" "p = [] \<or> k < length ms \<and> partial p (ms ! k)"
  shows "p \<noteq> []" "partial p (ms ! k)" "drop k ms = ms ! k # drop (Suc k) ms" "list_all sip_message (drop k ms)"
    "p @ concat xs = concat (drop k ms)" "cuts_inside p xs (drop k ms)"
proof -
  show p: "p \<noteq> []"
  proof
    assume "p = []"
    with assms(2) have "p0 @ concat (take 1 (x # xs)) = concat (take k ms)" by simp
    moreover have "0 < (1::nat) \<and> 1 < length (x # xs)" using assms(4) by simp
    ultimately show False using assms(5) unfolding cuts_inside_def by blast
  qed
  with assms(6) show "partial p (ms ! k)" "drop k ms = ms ! k # drop (Suc k) ms"
    by (auto simp: Cons_nth_drop_Suc)
  show "list_all sip_message (drop k ms)" using assms(1) by (metis append_take_drop_id list_all_append)
  have "concat (take k ms) @ p @ concat xs = concat (take k ms) @ concat (drop k ms)"
    using assms(2,3) by (simp flip: concat_append append_assoc)
  then show "p @ concat xs = concat (drop k ms)" by simp
  show "cuts_inside p xs (drop k ms)" by (rule cuts_inside_next [OF assms(5,2)])
qed

lemma continue_step:
  assumes "stream_part dn p'" "p @ x = concat dn @ p'" "p \<noteq> []"
  shows "continue_stream (segment q s x) (open_stream q now s0 s a p) =
    Some (Done (open_stream q now s0 (s + length x) (a @ concat dn) p', dn))"
proof -
  have b: "SafeBuffer_Add x (a @ p) = a @ concat dn @ p'"
    using assms(2,3) by (simp add: SafeBuffer_Add_def)
  have "ParseSipStream ((concat dn @ p') @ [NUL]) (length (concat dn @ p')) = Some (Done (length (concat dn), dn))"
    by (rule ParseSipStream_part [OF assms(1)])
  with b show ?thesis
    by (simp add: continue_stream_def segment_def open_stream_def SafeBuffer_memory_def)
qed

lemma stream_gone_open:
  "stream_gone now (open_stream q t s0 s a p) \<longleftrightarrow> p = [] \<or> now - t \<ge> 60"
  by (simp add: stream_gone_def open_stream_def)

lemma try_continue:
  assumes "stream_part dn p'" "p @ x = concat dn @ p'" "p \<noteq> []" "s0 < s" "s < 2 ^ 32"
    "\<not> is_sip_start (segment q s x)" "now < t + 60"
  shows "TrySipTcp now (segment q s x) [open_stream q t s0 s a p] = Some (Done (True,
    if p' = [] then [] else [open_stream q t s0 (s + length x) (a @ concat dn) p'], dn))"
proof -
  let ?s = "open_stream q t s0 s a p" and ?p = "segment q s x"
  have flow: "same_flow ?s ?p" "st_expectingSeqNo ?s = ucast (pk_seq ?p)"
    "\<not> st_lastSeqNo ?s \<ge> ucast (pk_seq ?p)"
    using seq_word [OF assms(5)] seq_later [OF assms(4,5)] by (simp_all add: same_flow_def open_stream_def segment_def)
  have "stream_gone now (open_stream q t s0 (s + length x) (a @ concat dn) p') \<longleftrightarrow> p' = []"
    using assms(7) by (simp add: stream_gone_open)
  with flow assms(6) continue_step [OF assms(1-3), of q s t s0 a] show ?thesis
    by (simp add: TrySipTcp_def)
qed

text \<open>
  What is still to come of a burst of messages, of which the part \<open>p\<close> of the first is in the buffer:
  the segments \<open>xs\<close>, from the sequence number \<open>s\<close> on.
\<close>

definition stream_rest :: "tcp_packet \<Rightarrow> nat \<Rightarrow> nat \<Rightarrow> string \<Rightarrow> string list \<Rightarrow> string list \<Rightarrow> bool" where
  "stream_rest q s0 s p xs ms \<longleftrightarrow> ms \<noteq> [] \<and> partial p (hd ms) \<and> list_all sip_message ms \<and>
     p @ concat xs = concat ms \<and> cuts_inside p xs ms \<and> s0 < s \<and> s + length (concat xs) < 2 ^ 32 \<and>
     (\<forall>x \<in> set xs. \<forall>n. \<not> is_sip_start (segment q n x))"

lemma stream_rest_more: "stream_rest q s0 s p xs ms \<Longrightarrow> xs \<noteq> [] \<and> p \<noteq> []"
  using partial_length [of p "hd ms"] by (cases ms) (auto simp: stream_rest_def)

text \<open>
  What the segment before \<open>xs\<close> does: it delivers the messages it completes and leaves a stream exactly
  when more is to come.
\<close>

definition delivers :: "tcp_packet \<Rightarrow> int \<Rightarrow> nat \<Rightarrow> nat \<Rightarrow> string list \<Rightarrow> string list
    \<Rightarrow> (bool \<times> SipTcpStream list \<times> string list) outcome option \<Rightarrow> bool" where
  "delivers q t s0 s xs ms r \<longleftrightarrow>
     (\<exists>a p dn ms'. r = Some (Done (True, if xs = [] then [] else [open_stream q t s0 s a p], dn)) \<and>
        ms = dn @ ms' \<and> (if xs = [] then ms' = [] else stream_rest q s0 s p xs ms'))"

lemma deliversI:
  assumes "r = Some (Done (True, if p' = [] then [] else [open_stream q t s0 s a p'], take k ms))"
    "list_all sip_message ms" "k \<le> length ms" "p @ x = concat (take k ms) @ p'" "(p @ x) @ concat xs = concat ms"
    "p' = [] \<or> k < length ms \<and> partial p' (ms ! k)" "cuts_inside p (x # xs) ms" "s0 < s"
    "s + length (concat xs) < 2 ^ 32" "\<forall>x \<in> set xs. \<forall>n. \<not> is_sip_start (segment q n x)"
  shows "delivers q t s0 s xs ms r"
proof (cases "xs = []")
  case True
  then have "concat ms = concat (take k ms) @ p'" using assms(4,5) by simp
  from cut_complete [OF assms(2,3) this assms(6)] True assms(1) show ?thesis by (simp add: delivers_def)
next
  case False
  note rest = cut_rest [OF assms(2,4,5) False assms(7,6)]
  have "stream_rest q s0 s p' xs (drop k ms)"
    using rest(2,4-6) assms(8-10) by (auto simp: stream_rest_def rest(3))
  then show ?thesis using assms(1) rest(1) False
    by (simp add: delivers_def) (intro exI [of _ a] exI [of _ p'] conjI exI [of _ "drop k ms"]; simp)
qed

lemma burst_continue:
  assumes "stream_rest q s0 s p (x # xs) ms" "now < t + 60"
  shows "delivers q t s0 (s + length x) xs ms (TrySipTcp now (segment q s x) [open_stream q t s0 s a p])"
proof -
  have r: "list_all sip_message ms" "(p @ x) @ concat xs = concat ms" "cuts_inside p (x # xs) ms" "s0 < s"
    "s + length x + length (concat xs) < 2 ^ 32" "\<forall>y \<in> set (x # xs). \<forall>n. \<not> is_sip_start (segment q n y)" "p \<noteq> []"
    using assms(1) stream_rest_more [OF assms(1)] by (auto simp: stream_rest_def)
  from cut_stream [OF r(2)] obtain k p' where k: "k \<le> length ms" "p @ x = concat (take k ms) @ p'"
    "p' = [] \<or> k < length ms \<and> partial p' (ms ! k)" by blast
  have sp: "stream_part (take k ms) p'" by (rule cut_stream_part [OF r(1) k(1,3)])
  have "TrySipTcp now (segment q s x) [open_stream q t s0 s a p] = Some (Done (True,
    if p' = [] then [] else [open_stream q t s0 (s + length x) (a @ concat (take k ms)) p'], take k ms))"
    using r(4-6) assms(2) by (intro try_continue [OF sp k(2) r(7)]) simp_all
  then show ?thesis using r k by (intro deliversI [where p = p and x = x]) simp_all
qed

text \<open>
  A burst of messages in segments: the first segment begins a message, no later one looks as if it
  did, no cut but the last falls between two messages, and the sequence numbers do not wrap.
\<close>

definition sip_segments :: "tcp_packet \<Rightarrow> nat \<Rightarrow> string list \<Rightarrow> string list \<Rightarrow> bool" where
  "sip_segments q s xs ms \<longleftrightarrow> xs \<noteq> [] \<and> hd xs \<noteq> [] \<and> list_all sip_message ms \<and> concat xs = concat ms \<and>
     is_sip_start (segment q s (hd xs)) \<and> (\<forall>y \<in> set (tl xs). \<forall>n. \<not> is_sip_start (segment q n y)) \<and>
     cuts_inside [] xs ms \<and> s + length (concat ms) < 2 ^ 32"

lemma burst_begin:
  assumes "sip_segments q s (x # xs) ms"
  shows "delivers q now s (s + length x) xs ms (TrySipTcp now (segment q s x) [])"
proof -
  have a: "list_all sip_message ms" "([] @ x) @ concat xs = concat ms" "x \<noteq> []" "is_sip_start (segment q s x)"
    "\<forall>y \<in> set xs. \<forall>n. \<not> is_sip_start (segment q n y)" "cuts_inside [] (x # xs) ms" "s + length (concat ms) < 2 ^ 32"
    using assms by (simp_all add: sip_segments_def)
  from cut_stream [of x "concat xs" ms] a(2) obtain k p where k: "k \<le> length ms" "x = concat (take k ms) @ p"
    "p = [] \<or> k < length ms \<and> partial p (ms ! k)" by auto
  have sp: "stream_part (take k ms) p" by (rule cut_stream_part [OF a(1) k(1,3)])
  have total: "s + length x + length (concat xs) < 2 ^ 32"
    using arg_cong [OF a(2), of length] a(7) by simp
  then have small: "s + length x < 2 ^ 32" by simp
  have parse: "ParseSipStream (pk_mem (segment q s x)) (length x) = Some (Done (length (concat (take k ms)), take k ms))"
    using ParseSipStream_part [OF sp, of "pk_mem q"] k(2) by (simp add: segment_def)
  have new: "SipTcpStream_new now (segment q s x) (length (concat (take k ms)))
      = open_stream q now s (s + length x) (concat (take k ms)) p"
  proof -
    have "of_nat s + word_of_int (int (length x)) = (of_nat (s + length x) :: u32)" by simp
    moreover have "ucast (of_nat (s + length x) :: u32) = (of_nat (s + length x) :: 64 word)"
      by (rule seq_word [OF small])
    moreover have "ucast (of_nat s :: u32) = (of_nat s :: 64 word)" using small by (intro seq_word) simp
    ultimately show ?thesis using k(2)
      by (simp add: SipTcpStream_new_def open_stream_def segment_def SafeBuffer_Add_def SafeBuffer_Store_def)
  qed
  have len: "pk_len (segment q s x) = int (length x)" "length x \<le> length (pk_mem (segment q s x))"
    "(length (concat (take k ms)) = length x) = (p = [])" using k(2) by (simp_all add: segment_def)
  have "TrySipTcp now (segment q s x) [] = Some (Done (True,
      if p = [] then [] else [open_stream q now s (s + length x) (concat (take k ms)) p], take k ms))"
    using a(4) parse new len by (simp add: TrySipTcp_def)
  then show ?thesis using a k(1,3) k(2) total by (intro deliversI [where p = "[]" and x = x]) simp_all
qed

section \<open>Many flows at once\<close>

type_synonym flow_key = "u32 \<times> u32 \<times> u16 \<times> u16"

definition flow_key :: "tcp_packet \<Rightarrow> flow_key" where
  "flow_key p = (pk_src p, pk_dest p, pk_sport p, pk_dport p)"

definition stream_key :: "SipTcpStream \<Rightarrow> flow_key" where
  "stream_key s = (st_senderIp s, st_receiverIp s, st_senderPort s, st_receiverPort s)"

lemma same_flow_key: "same_flow s p \<longleftrightarrow> stream_key s = flow_key p"
  by (simp add: same_flow_def stream_key_def flow_key_def)

text \<open>The packets of all flows as they come, each with its time, and what was delivered at each.\<close>

fun tcp_run :: "(int \<times> tcp_packet) list \<Rightarrow> SipTcpStream list
    \<Rightarrow> (SipTcpStream list \<times> (tcp_packet \<times> string list) list) outcome option" where
  "tcp_run [] ss = Some (Done (ss, []))"
| "tcp_run (e # es) ss =
     ret_then (TrySipTcp (fst e) (snd e) ss) (\<lambda>(_, ss1, out).
       ret_then (tcp_run es ss1) (\<lambda>(ss2, log). Some (Done (ss2, (snd e, out) # log))))"

text \<open>
  A flow of its own: bursts of messages, each within a minute, and between them packets that do not
  begin a message.
\<close>

inductive sip_flow :: "(int \<times> tcp_packet) list \<Rightarrow> string list \<Rightarrow> bool" where
  flow_end: "sip_flow [] []"
| flow_other: "\<not> is_sip_start (snd e) \<Longrightarrow> sip_flow es ms \<Longrightarrow> sip_flow (e # es) ms"
| flow_burst: "map snd es1 = segments q s xs \<Longrightarrow> sip_segments q s xs ms1 \<Longrightarrow>
    list_all (\<lambda>e. fst e < fst (hd es1) + 60) es1 \<Longrightarrow> sip_flow es ms \<Longrightarrow> sip_flow (es1 @ es) (ms1 @ ms)"

text \<open>The streams that are open of a flow fit what is still to come of it.\<close>

definition flow_at :: "SipTcpStream list \<Rightarrow> (int \<times> tcp_packet) list \<Rightarrow> string list \<Rightarrow> bool" where
  "flow_at ss es ms \<longleftrightarrow> ss = [] \<and> sip_flow es ms \<or>
     (\<exists>q t s0 s a p xs es1 es2 ms1 ms2. ss = [open_stream q t s0 s a p] \<and> stream_rest q s0 s p xs ms1 \<and>
        map snd es1 = segments q s xs \<and> list_all (\<lambda>e. fst e < t + 60) es1 \<and> sip_flow es2 ms2 \<and>
        es = es1 @ es2 \<and> ms = ms1 @ ms2)"

definition flow_steps :: "(int \<times> tcp_packet) list \<Rightarrow> string list
    \<Rightarrow> (bool \<times> SipTcpStream list \<times> string list) outcome option \<Rightarrow> bool" where
  "flow_steps es ms r \<longleftrightarrow> (\<exists>b ss out ms'. r = Some (Done (b, ss, out)) \<and> ms = out @ ms' \<and> flow_at ss es ms')"

lemma flow_stepsI: "r = Some (Done (b, ss, out)) \<Longrightarrow> ms = out @ ms' \<Longrightarrow> flow_at ss es ms' \<Longrightarrow> flow_steps es ms r"
  by (auto simp: flow_steps_def)

lemma flow_delivers:
  assumes "delivers q t s0 s xs ms1 r" "map snd es1 = segments q s xs" "list_all (\<lambda>e. fst e < t + 60) es1"
    "sip_flow es2 ms2"
  shows "flow_steps (es1 @ es2) (ms1 @ ms2) r"
proof -
  obtain a p dn ms' where d: "r = Some (Done (True, if xs = [] then [] else [open_stream q t s0 s a p], dn))"
    "ms1 = dn @ ms'" "if xs = [] then ms' = [] else stream_rest q s0 s p xs ms'"
    using assms(1) unfolding delivers_def by blast
  have "flow_at (if xs = [] then [] else [open_stream q t s0 s a p]) (es1 @ es2) (ms' @ ms2)"
    using d(3) assms(2-4) by (cases "xs = []") (simp_all add: flow_at_def, blast)
  with d show ?thesis by (intro flow_stepsI) simp_all
qed

lemma flow_step:
  assumes "flow_at ss (e # es) ms"
  shows "flow_steps es ms (TrySipTcp (fst e) (snd e) ss)"
  using assms unfolding flow_at_def
proof (elim disjE conjE exE)
  assume idle: "ss = []" "sip_flow (e # es) ms"
  from idle(2) show ?thesis
  proof cases
    case flow_other
    with idle(1) have "TrySipTcp (fst e) (snd e) ss = Some (Done (False, [], []))" "flow_at [] es ms"
      by (simp_all add: TrySipTcp_def flow_at_def)
    then show ?thesis by (intro flow_stepsI [where ss = "[]" and ms' = ms and out = "[]" and b = False]) simp_all
  next
    case (flow_burst es1 q s xs ms1 es2 ms2)
    obtain x xs' where xs: "xs = x # xs'" using flow_burst(4) by (cases xs) (auto simp: sip_segments_def)
    obtain es1' where es1: "es1 = e # es1'" using flow_burst(1,3) xs by (cases es1) auto
    have "flow_steps (es1' @ es2) (ms1 @ ms2) (TrySipTcp (fst e) (snd e) [])"
      using flow_burst(3-6) burst_begin [of q s x xs' ms1 "fst e"] by (intro flow_delivers) (simp_all add: xs es1)
    with idle(1) flow_burst(1,2) es1 show ?thesis by simp
  qed
next
  fix q t s0 s a p xs es1 es2 ms1 ms2
  assume o: "ss = [open_stream q t s0 s a p]" "stream_rest q s0 s p xs ms1" "map snd es1 = segments q s xs"
    "list_all (\<lambda>e. fst e < t + 60) es1" "sip_flow es2 ms2" "e # es = es1 @ es2" "ms = ms1 @ ms2"
  obtain x xs' where xs: "xs = x # xs'" using stream_rest_more [OF o(2)] by (cases xs) auto
  obtain es1' where es1: "es1 = e # es1'" using o(3,6) xs by (cases es1) auto
  have "flow_steps (es1' @ es2) (ms1 @ ms2) (TrySipTcp (fst e) (snd e) [open_stream q t s0 s a p])"
    using o(2-5) burst_continue [of q s0 s p x xs' ms1 "fst e" t a] unfolding xs es1
    by (intro flow_delivers [where t = t and xs = xs']) auto
  with o(1,6,7) es1 show ?thesis by simp
qed

lemma flow_done: "flow_at ss [] ms \<Longrightarrow> ss = [] \<and> ms = []"
proof -
  have none: "segments q s xs = [] \<longleftrightarrow> xs = []" "[] = segments q s xs \<longleftrightarrow> xs = []" for q s xs
    by (cases xs; simp)+
  have "sip_flow es ms \<Longrightarrow> es = [] \<Longrightarrow> ms = []" for es ms
    by (induction rule: sip_flow.induct) (auto simp: sip_segments_def none)
  then show "flow_at ss [] ms \<Longrightarrow> ss = [] \<and> ms = []"
    using stream_rest_more none unfolding flow_at_def by fastforce
qed

text \<open>While a flow is open, its stream is not dropped.\<close>

lemma flow_fresh:
  assumes "flow_at ss es ms" "list_all (\<lambda>e. now \<le> fst e) es"
  shows "list_all (\<lambda>s. \<not> stream_gone now s) ss"
  using assms(1) unfolding flow_at_def
proof (elim disjE conjE exE)
  fix q t s0 s a p xs es1 es2 ms1 ms2
  assume o: "ss = [open_stream q t s0 s a p]" "stream_rest q s0 s p xs ms1" "map snd es1 = segments q s xs"
    "list_all (\<lambda>e. fst e < t + 60) es1" "es = es1 @ es2"
  have "xs \<noteq> []" "p \<noteq> []" using stream_rest_more [OF o(2)] by auto
  then have "es1 \<noteq> []" using o(3) by (cases xs) auto
  then have "now < t + 60" using o(4,5) assms(2) by (cases es1) auto
  with o(1) \<open>p \<noteq> []\<close> show ?thesis by (simp add: stream_gone_open)
qed simp

text \<open>A packet only touches the streams of its flow, as long as the others are not to be dropped.\<close>

definition of_flow :: "flow_key \<Rightarrow> SipTcpStream list \<Rightarrow> SipTcpStream list" where
  "of_flow k ss = filter (\<lambda>s. stream_key s = k) ss"

lemma of_flow_simps [simp]:
  "of_flow k [] = []" "of_flow k (s # ss) = (if stream_key s = k then s # of_flow k ss else of_flow k ss)"
  "of_flow k (ss @ ts) = of_flow k ss @ of_flow k ts"
  by (simp_all add: of_flow_def)

lemma continue_stream_key: "continue_stream p s = Some (Done (s', out)) \<Longrightarrow> stream_key s' = stream_key s"
  by (auto simp: continue_stream_def stream_key_def Let_def split: if_splits elim!: ret_then.elims)

lemma ret_then_Done: "ret_then r f = Some (Done y) \<longleftrightarrow> (\<exists>x. r = Some (Done x) \<and> f x = Some (Done y))"
  by (cases "(r, f)" rule: ret_then.cases) auto

lemma continue_others:
  assumes "list_all (\<lambda>s. stream_key s \<noteq> flow_key p \<longrightarrow> \<not> stream_gone now s) ss"
    "continue_streams now p (of_flow (flow_key p) ss) = Some (Done (b, mine, out))"
  shows "\<exists>ss'. continue_streams now p ss = Some (Done (b, ss', out)) \<and>
    (\<forall>k. of_flow k ss' = (if k = flow_key p then mine else of_flow k ss))"
  using assms
proof (induction ss arbitrary: b mine out)
  case (Cons s ss)
  show ?case
  proof (cases "stream_key s = flow_key p")
    case True
    let ?hit = "same_flow s p \<and> st_expectingSeqNo s = ucast (pk_seq p)"
    have "ret_then (if ?hit then continue_stream p s else Some (Done (s, []))) (\<lambda>(s1, out).
         ret_then (continue_streams now p (of_flow (flow_key p) ss)) (\<lambda>(r, kept, outs).
         Some (Done (?hit \<or> r, if stream_gone now s1 then kept else s1 # kept, out @ outs))))
      = Some (Done (b, mine, out))"
      using Cons.prems(2) unfolding of_flow_simps if_P [OF True] continue_streams.simps Let_def .
    then obtain s1 out1 b1 kept outs where c:
      "(if ?hit then continue_stream p s else Some (Done (s, []))) = Some (Done (s1, out1))"
      "continue_streams now p (of_flow (flow_key p) ss) = Some (Done (b1, kept, outs))"
      "b = (?hit \<or> b1)" "mine = (if stream_gone now s1 then kept else s1 # kept)" "out = out1 @ outs"
      unfolding ret_then_Done split_paired_Ex prod.case by blast
    have key: "stream_key s1 = flow_key p" using c(1) True continue_stream_key by (auto split: if_splits)
    have "list_all (\<lambda>s. stream_key s \<noteq> flow_key p \<longrightarrow> \<not> stream_gone now s) ss" using Cons.prems(1) by simp
    from Cons.IH [OF this c(2)] obtain ss' where ss': "continue_streams now p ss = Some (Done (b1, ss', outs))"
      "\<And>k. of_flow k ss' = (if k = flow_key p then kept else of_flow k ss)" by blast
    have "continue_streams now p (s # ss) = Some (Done (b, if stream_gone now s1 then ss' else s1 # ss', out))"
      using c ss'(1) by (simp add: Let_def)
    moreover have "of_flow k (if stream_gone now s1 then ss' else s1 # ss') =
        (if k = flow_key p then mine else of_flow k (s # ss))" for k
      using ss'(2) [of k] c(4) key True by auto
    ultimately show ?thesis by blast
  next
    case False
    then have "\<not> stream_gone now s" "continue_streams now p (of_flow (flow_key p) ss) = Some (Done (b, mine, out))"
      "list_all (\<lambda>s. stream_key s \<noteq> flow_key p \<longrightarrow> \<not> stream_gone now s) ss"
      using Cons.prems by simp_all
    from Cons.IH [OF this(3,2)] obtain ss' where ss': "continue_streams now p ss = Some (Done (b, ss', out))"
      "\<And>k. of_flow k ss' = (if k = flow_key p then mine else of_flow k ss)" by blast
    have "continue_streams now p (s # ss) = Some (Done (b, s # ss', out))"
      using False \<open>\<not> stream_gone now s\<close> ss'(1) by (simp add: Let_def same_flow_key)
    moreover have "of_flow k (s # ss') = (if k = flow_key p then mine else of_flow k (s # ss))" for k
      using ss'(2) [of k] False by auto
    ultimately show ?thesis by blast
  qed
qed simp

lemma try_others:
  assumes "list_all (\<lambda>s. stream_key s \<noteq> flow_key p \<longrightarrow> \<not> stream_gone now s) ss"
    "TrySipTcp now p (of_flow (flow_key p) ss) = Some (Done (b, mine, out))"
  shows "\<exists>ss'. TrySipTcp now p ss = Some (Done (b, ss', out)) \<and>
    (\<forall>k. of_flow k ss' = (if k = flow_key p then mine else of_flow k ss))"
proof -
  have seen: "list_ex (\<lambda>s. same_flow s p \<and> st_lastSeqNo s \<ge> ucast (pk_seq p)) (of_flow (flow_key p) ss) \<longleftrightarrow>
      list_ex (\<lambda>s. same_flow s p \<and> st_lastSeqNo s \<ge> ucast (pk_seq p)) ss"
    by (auto simp: list_ex_iff of_flow_def same_flow_key)
  have key: "stream_key (SipTcpStream_new now p n) = flow_key p" for n
    by (simp add: stream_key_def SipTcpStream_new_def flow_key_def)
  show ?thesis
  proof (cases "list_ex (\<lambda>s. same_flow s p \<and> st_lastSeqNo s \<ge> ucast (pk_seq p)) ss")
    case True
    with assms(2) seen show ?thesis by (auto simp: TrySipTcp_def)
  next
    case fresh: False
    show ?thesis
    proof (cases "is_sip_start p")
      case True
      with assms(2) fresh seen key show ?thesis by (auto simp: TrySipTcp_def ret_then_Done split: if_splits)
    next
      case False
      with assms(2) fresh seen have "continue_streams now p (of_flow (flow_key p) ss) = Some (Done (b, mine, out))"
        by (simp add: TrySipTcp_def)
      from continue_others [OF assms(1) this] fresh False show ?thesis by (simp add: TrySipTcp_def)
    qed
  qed
qed

text \<open>
  C21. SIP messages over TCP. Packets of any number of flows arrive in any interleaving, in the order of
  their times. Each flow sends bursts of SIP messages, cut into segments in any way as long as the
  first segment of a burst begins a message, no later one looks as if it did, no cut inside a burst
  falls between two messages, the sequence numbers do not wrap and a burst takes less than a minute;
  in memory a NUL follows a payload; between its bursts a flow may send anything that does not begin
  a message. Then the messages of every flow are delivered complete and in order, by the packets of
  that flow, and no stream is left over.
\<close>

theorem sip_tcp_reassembly:
  assumes "sorted (map fst es)" "\<forall>k. sip_flow (filter (\<lambda>e. flow_key (snd e) = k) es) (msgs k)"
  shows "\<exists>log. tcp_run es [] = Some (Done ([], log)) \<and>
    (\<forall>k. concat (map snd (filter (\<lambda>l. flow_key (fst l) = k) log)) = msgs k)"
proof -
  have "sorted (map fst es) \<Longrightarrow>
      \<forall>k. flow_at (of_flow k ss) (filter (\<lambda>e. flow_key (snd e) = k) es) (msgs k) \<Longrightarrow>
      \<exists>log. tcp_run es ss = Some (Done ([], log)) \<and>
        (\<forall>k. concat (map snd (filter (\<lambda>l. flow_key (fst l) = k) log)) = msgs k)" for ss
  proof (induction es arbitrary: ss msgs)
    case Nil
    have none: "of_flow k ss = [] \<and> msgs k = []" for k
      using Nil(2) by (intro flow_done) (simp del: split_paired_All)
    have "ss = []" using none [of "stream_key (hd ss)"] by (cases ss) auto
    with none show ?case by simp
  next
    case (Cons e es)
    let ?k = "flow_key (snd e)" and ?rest = "\<lambda>k. filter (\<lambda>e. flow_key (snd e) = k) es"
    have "flow_at (of_flow ?k ss) (e # ?rest ?k) (msgs ?k)" using Cons.prems(2) [rule_format, of ?k] by simp
    from flow_step [OF this] obtain b mine out ms' where m:
      "TrySipTcp (fst e) (snd e) (of_flow ?k ss) = Some (Done (b, mine, out))" "msgs ?k = out @ ms'"
      "flow_at mine (?rest ?k) ms'" unfolding flow_steps_def by blast
    have others: "flow_at (of_flow k ss) (?rest k) (msgs k)" if "k \<noteq> ?k" for k
      using Cons.prems(2) [rule_format, of k] that by simp
    have "\<not> stream_gone (fst e) s" if "s \<in> set ss" "stream_key s \<noteq> ?k" for s
    proof -
      have "list_all (\<lambda>e'. fst e \<le> fst e') (?rest (stream_key s))" using Cons.prems(1) by (simp add: list_all_iff)
      from flow_fresh [OF others [OF that(2)] this] that(1) show ?thesis by (simp add: list_all_iff of_flow_def)
    qed
    then have "list_all (\<lambda>s. stream_key s \<noteq> ?k \<longrightarrow> \<not> stream_gone (fst e) s) ss" by (simp add: list_all_iff)
    from try_others [OF this m(1)] obtain ss' where ss': "TrySipTcp (fst e) (snd e) ss = Some (Done (b, ss', out))"
      "\<And>k. of_flow k ss' = (if k = ?k then mine else of_flow k ss)" by blast
    have "\<forall>k. flow_at (of_flow k ss') (?rest k) ((msgs(?k := ms')) k)" using ss'(2) m(3) others by simp
    with Cons.IH [of ss' "msgs(?k := ms')"] Cons.prems(1) obtain log where log: "tcp_run es ss' = Some (Done ([], log))"
      "\<And>k. concat (map snd (filter (\<lambda>l. flow_key (fst l) = k) log)) = (msgs(?k := ms')) k" by auto
    show ?case
      using ss'(1) log m(2) by (intro exI [of _ "(snd e, out) # log"]) auto
  qed
  then show ?thesis using assms by (simp add: flow_at_def)
qed

definition example_flow :: tcp_packet where
  "example_flow = \<lparr>pk_src = 1, pk_dest = 2, pk_sport = 5060, pk_dport = 5060, pk_seq = 0, pk_mem = [], pk_len = 0\<rparr>"

definition example_message :: string where
  "example_message = ''INVITE sip:200@b SIP/2.0'' @ [CR, LF] @ ''Content-Length: 3'' @ [CR, LF, CR, LF] @ ''v=0''"

lemma sip_messageI:
  "first_match content_length_tag m 0 = Some i \<Longrightarrow> first_match header_end_tag m i = Some j \<Longrightarrow>
    read_digits 0 (take (j - i) (drop i m)) = (n, r) \<Longrightarrow> is_digit (m ! i) \<Longrightarrow> r \<noteq> [] \<Longrightarrow> j + n = length m \<Longrightarrow>
    n < 2 ^ 31 \<Longrightarrow> sip_message m"
  by (simp add: sip_message_def)

lemma example_message_ok: "sip_message example_message"
proof (rule sip_messageI)
  show "first_match content_length_tag example_message 0 = Some 42" by code_simp
  show "first_match header_end_tag example_message 42 = Some 47" by code_simp
  show "read_digits 0 (take (47 - 42) (drop 42 example_message)) = (3, [CR, LF, CR, LF])" by code_simp
  show "is_digit (example_message ! 42)" by code_simp
qed (simp_all add: example_message_def)

lemma example_segments: "sip_segments q s [take 35 example_message, drop 35 example_message] [example_message]"
  if "s \<le> 100"
  unfolding sip_segments_def
proof (intro conjI)
  let ?m = example_message
  have len: "length ?m = 50" by (simp add: example_message_def)
  show "list_all sip_message [?m]" using example_message_ok by simp
  have "is_sip_start (segment q s x) = is_sip_start (segment example_flow 100 x)"
    if "x \<noteq> []" "NUL \<notin> set x" for x
    using that by (simp add: is_sip_start_def segment_def c_str_def takeWhile_tail)
  moreover have "is_sip_start (segment example_flow 100 (take 35 ?m))" by code_simp
  ultimately show "is_sip_start (segment q s (hd [take 35 ?m, drop 35 ?m]))"
    by (simp add: example_message_def)
  have "pk_len (segment q n y) = int (length y)" for n y by (simp add: segment_def)
  then show "\<forall>y \<in> set (tl [take 35 ?m, drop 35 ?m]). \<forall>n. \<not> is_sip_start (segment q n y)"
    by (simp add: is_sip_start_def example_message_def)
  show "cuts_inside [] [take 35 ?m, drop 35 ?m] [?m]"
    unfolding cuts_inside_def
  proof (intro allI impI)
    fix k l assume "0 < k \<and> k < length [take 35 ?m, drop 35 ?m]"
    then have "k = 1" by simp
    then have "length ([] @ concat (take k [take 35 ?m, drop 35 ?m])) = 35" using len by simp
    moreover have "length (concat (take l [?m])) \<noteq> 35" using len by (cases l) simp_all
    ultimately show "[] @ concat (take k [take 35 ?m, drop 35 ?m]) \<noteq> concat (take l [?m])" by metis
  qed
  show "s + length (concat [?m]) < 2 ^ 32" using that len by simp
qed (simp_all add: example_message_def)

text \<open>Two callers behind one address, whose segments arrive interleaved.\<close>

definition example_flow2 :: tcp_packet where
  "example_flow2 = example_flow\<lparr>pk_sport := 5070\<rparr>"

definition example_traffic :: "(int \<times> tcp_packet) list" where
  "example_traffic =
     [(7, segment example_flow 100 (take 35 example_message)), (8, segment example_flow2 40 (take 35 example_message)),
      (9, segment example_flow2 75 (drop 35 example_message)), (10, segment example_flow 135 (drop 35 example_message))]"

theorem sip_tcp_reassembly_witness:
  "\<exists>log. tcp_run example_traffic [] = Some (Done ([], log)) \<and>
    concat (map snd (filter (\<lambda>l. flow_key (fst l) = flow_key example_flow) log)) = [example_message] \<and>
    concat (map snd (filter (\<lambda>l. flow_key (fst l) = flow_key example_flow2) log)) = [example_message]"
proof -
  let ?m = example_message
  define msgs where "msgs k = (if k \<in> {flow_key example_flow, flow_key example_flow2} then [?m] else [])" for k
  have key: "flow_key (segment q n x) = flow_key q" for q n x by (simp add: flow_key_def segment_def)
  have two: "flow_key example_flow2 \<noteq> flow_key example_flow"
    by (simp add: flow_key_def example_flow2_def example_flow_def)
  have seg: "segments q s [take 35 ?m, drop 35 ?m] = [segment q s (take 35 ?m), segment q (s + 35) (drop 35 ?m)]" for q s
  proof -
    have "length (take 35 ?m) = 35" by (simp add: example_message_def)
    then show ?thesis by simp
  qed
  have flow: "sip_flow [(t, segment q s (take 35 ?m)), (u, segment q (s + 35) (drop 35 ?m))] [?m]"
    if "s \<le> 100" "u < t + 60" for q s t u
    using flow_burst [OF _ example_segments [OF that(1)] _ flow_end, of "[(t, segment q s (take 35 ?m)), (u, segment q (s + 35) (drop 35 ?m))]" q]
      that(2) seg [of q s] by simp
  have "sip_flow (filter (\<lambda>e. flow_key (snd e) = k) example_traffic) (msgs k)" for k
    using flow [of 100 10 7 example_flow] flow [of 40 9 8 example_flow2] two flow_end
    by (auto simp: example_traffic_def key msgs_def)
  moreover have "sorted (map fst example_traffic)" by (simp add: example_traffic_def)
  ultimately obtain log where log: "tcp_run example_traffic [] = Some (Done ([], log))"
    "\<And>k. concat (map snd (filter (\<lambda>l. flow_key (fst l) = k) log)) = msgs k"
    using sip_tcp_reassembly by blast
  then show ?thesis by (intro exI [of _ log]) (simp add: msgs_def)
qed

section \<open>What goes wrong\<close>

lemmas sip_stream_induct = sip_stream.raw_induct [rotated, consumes 1, case_names step]

lemma sip_stream_loops:
  assumes "memFindAfter content_length_tag mem 0 stop = Done (Some i)"
    "memFindAfter header_end_tag mem i stop = Done (Some j)" "scan_int (drop i mem) = Some (- int j)"
  shows "sip_stream mem stop 0 out = None"
proof -
  have "\<not> (m = mem \<and> st = stop \<and> s = 0)" if "sip_stream m st s out = Some r" for m st s out r
    using that
  proof (induction m st s out r rule: sip_stream_induct)
    case (step f m st s out r)
    show ?case
    proof
      assume "m = mem \<and> st = stop \<and> s = 0"
      with step(2) assms have "f mem stop 0 (out @ [[]]) = Some r" by simp
      with step(1) show False by blast
    qed
  qed
  then show ?thesis by (metis option.exhaust)
qed

text \<open>
  A packet that stops the recorder. A packet that begins a SIP message whose Content-Length is
  minus the length of its header makes \<open>ParseSipStream\<close> go back to the beginning of the packet for
  ever: the call does not return.
\<close>

theorem sip_tcp_negative_length_hangs:
  assumes "is_sip_start (segment q s x)" "list_all (\<lambda>st. \<not> same_flow st (segment q s x)) ss"
    "memFindAfter content_length_tag (pk_mem (segment q s x)) 0 (length x) = Done (Some i)"
    "memFindAfter header_end_tag (pk_mem (segment q s x)) i (length x) = Done (Some j)"
    "scan_int (drop i (pk_mem (segment q s x))) = Some (- int j)"
  shows "TrySipTcp now (segment q s x) ss = None"
proof -
  have "\<not> list_ex (\<lambda>st. same_flow st (segment q s x) \<and> st_lastSeqNo st \<ge> ucast (pk_seq (segment q s x))) ss"
    using assms(2) by (auto simp: list_ex_iff list_all_iff)
  moreover have "pk_len (segment q s x) = int (length x)" "length x \<le> length (pk_mem (segment q s x))"
    by (simp_all add: segment_def)
  ultimately show ?thesis
    using assms(1) sip_stream_loops [OF assms(3-5)] by (simp add: TrySipTcp_def ParseSipStream_def)
qed

definition negative_message :: string where
  "negative_message = ''INVITE sip:200@b SIP/2.0'' @ [CR, LF] @ ''Content-Length: -49'' @ [CR, LF, CR, LF]"

theorem sip_tcp_negative_length_hangs_witness:
  "TrySipTcp 7 (segment example_flow 100 negative_message) [] = None"
  by (rule sip_tcp_negative_length_hangs [where i = 42 and j = 49]) code_simp+

text \<open>
  The sequence number of a stream does not wrap. When a segment ends at or behind sequence number
  \<open>2 ^ 32\<close>, the stream then waits for a number that no packet can have: a later segment that does not
  begin a message is never added to it.
\<close>

theorem sip_tcp_sequence_wrap:
  assumes "continue_stream p s = Some (Done (s1, out))" "st_expectingSeqNo s = ucast (pk_seq p)"
    "2 ^ 32 \<le> uint (pk_seq p) + pk_len p" "pk_len p < 2 ^ 32" "\<not> is_sip_start p1"
  shows "\<exists>b ss. TrySipTcp now p1 [s1] = Some (Done (b, ss, []))"
proof -
  have e: "st_expectingSeqNo s1 = ucast (pk_seq p) + word_of_int (pk_len p)"
  proof -
    let ?b = "SafeBuffer_Add (take (nat (pk_len p)) (pk_mem p)) (st_tcpBuffer s)"
    show ?thesis using assms(1,2)
      by (cases "ParseSipStream (drop (st_offset s) (SafeBuffer_memory ?b)) (length ?b - st_offset s)" rule: option.exhaust)
        (auto simp: continue_stream_def Let_def split: if_splits elim: ret_then.elims)
  qed
  have up: "uint (ucast x :: 64 word) = uint x" for x :: u32 by (rule uint_up_ucast) (simp add: is_up)
  have "uint (ucast (pk_seq p) + word_of_int (pk_len p) :: 64 word) = uint (pk_seq p) + pk_len p"
    using assms(3,4) uint_lt2p [of "pk_seq p"] by (simp add: uint_word_ariths uint_word_of_int take_bit_eq_mod up)
  moreover have "uint (ucast (pk_seq p1) :: 64 word) < 2 ^ 32"
    using uint_lt2p [of "pk_seq p1"] by (simp add: up)
  ultimately have "st_expectingSeqNo s1 \<noteq> ucast (pk_seq p1)" using e assms(3) by auto
  with assms(5) show ?thesis by (simp add: TrySipTcp_def) blast
qed

text \<open>The example message, cut so that its second segment ends at the last sequence number.\<close>

theorem sip_tcp_sequence_wrap_witness:
  "\<exists>s1. continue_stream (segment example_flow (2 ^ 32 - 8) ''ength: 3'')
      (open_stream example_flow 7 (2 ^ 32 - 43) (2 ^ 32 - 8) [] (take 35 example_message)) = Some (Done (s1, [])) \<and>
    (\<exists>b ss. TrySipTcp 7 (segment example_flow 0 (drop 43 example_message)) [s1] = Some (Done (b, ss, [])))"
proof -
  let ?m = example_message and ?p = "segment example_flow (2 ^ 32 - 8) ''ength: 3''"
  let ?s = "open_stream example_flow 7 (2 ^ 32 - 43) (2 ^ 32 - 8) [] (take 35 ?m)"
  have len: "length ?m = 50" by (simp add: example_message_def)
  have p: "stream_part [] (take 43 ?m)"
    using example_message_ok len by (auto simp: stream_part_def intro!: exI [of _ ?m] exI [of _ 43])
  have "take 35 ?m @ ''ength: 3'' = concat [] @ take 43 ?m" "take 35 ?m \<noteq> []"
    by (simp_all add: example_message_def)
  from continue_step [OF p this, of example_flow "2 ^ 32 - 8" 7 "2 ^ 32 - 43" "[]"]
  obtain s1 where s1: "continue_stream ?p ?s = Some (Done (s1, []))" by blast
  have "\<exists>b ss. TrySipTcp 7 (segment example_flow 0 (drop 43 ?m)) [s1] = Some (Done (b, ss, []))"
  proof (rule sip_tcp_sequence_wrap [OF s1])
    show "st_expectingSeqNo ?s = ucast (pk_seq ?p)" by (simp add: open_stream_def segment_def)
    show "2 ^ 32 \<le> uint (pk_seq ?p) + pk_len ?p" by (simp add: segment_def)
    show "pk_len ?p < 2 ^ 32" by (simp add: segment_def)
    show "\<not> is_sip_start (segment example_flow 0 (drop 43 ?m))" using len by (simp add: is_sip_start_def segment_def)
  qed
  with s1 show ?thesis by blast
qed

end
