(* ===== verification/OrkDtmf.thy ===== *)
theory OrkDtmf
  imports OrkUtils OrkChunk OrkEnums Complex_Main
begin

text \<open>
  Sessions of the capture plugins (audiocaptureplugins/common/OrkSession.cpp, DtmfHandling.cpp,
  AcpConfig.cpp): which channel an RTP packet belongs to, whether the channels must be swapped,
  telephone events, and the commands that callers give with them.

  The begin of a session is not in the future. The virtual methods \<open>Start\<close>, \<open>ReportMetadata\<close> and \<open>TriggerOnDemandViaDtmf\<close> belong to the derived
  classes and are arguments, as are the decoders, the level of a chunk and the time. The callback
  that takes capture events appends to a list. Logging is left out.
\<close>

section \<open>Configuration\<close>

datatype CtiMatchingCriteriaEnum = MatchLocalParty | MatchRemoteParty | MatchCtiRemoteParty | MatchUcid
  | MatchUcidTimestamp | MatchXrefci | MatchTag | MatchNone

record AcpConfig =
  acp_onDemandViaDtmf :: string
  acp_onDemandPauseViaDtmf :: string
  acp_dtmfReportFullStringAsTag :: bool
  acp_rtpEventPayloadTypeDefaultValue :: int
  acp_s1s2Deterministic :: bool
  acp_s1IsLocal :: bool
  acp_mediaGateways :: IpRanges
  acp_ctiDrivenEnable :: bool
  acp_ctiMatchingCriteria :: "string list"
  acp_ctiTagPair :: "string list"
  acp_ctiTapeTag :: string
  acp_ctiMetadataTag :: string
  acp_ctiMatchingCriteriaList :: "CtiMatchingCriteriaEnum list"
  acp_sessionStartsOnS2ActivityDb :: rat

definition cti_criterion :: "AcpConfig \<Rightarrow> string \<Rightarrow> CtiMatchingCriteriaEnum" where
  "cti_criterion c s =
     (if ci_eq s ''localparty'' then MatchLocalParty
      else if ci_eq s ''remoteparty'' then MatchRemoteParty
      else if ci_eq s ''ctiremoteparty'' then MatchCtiRemoteParty
      else if ci_eq s ''ucid'' then MatchUcid
      else if ci_eq s ''ucid-timestamp'' then MatchUcidTimestamp
      else if ci_eq s ''x-refci'' then MatchXrefci
      else if ci_eq s ''tag'' then (if length (acp_ctiTagPair c) = 2 then MatchTag else MatchNone)
      else MatchNone)"

definition default_criteria :: "CtiMatchingCriteriaEnum list" where
  "default_criteria = [MatchUcid, MatchUcidTimestamp]"

fun cti_criteria_loop :: "string list \<Rightarrow> AcpConfig \<Rightarrow> AcpConfig" where
  "cti_criteria_loop [] c = c"
| "cti_criteria_loop (s # ss) c =
     (let k = cti_criterion c s;
          c1 = (if k = MatchTag then c\<lparr>acp_ctiTapeTag := hd (acp_ctiTagPair c), acp_ctiMetadataTag := last (acp_ctiTagPair c)\<rparr>
                else c);
          c2 = (if k \<noteq> MatchNone then c1\<lparr>acp_ctiMatchingCriteriaList := acp_ctiMatchingCriteriaList c1 @ [k]\<rparr> else c1)
      in cti_criteria_loop ss c2)"

text \<open>\<open>Validate\<close>; the last setting, \<open>m_discardUnidirectionalCalls\<close>, belongs to the base configuration.
  An exception of \<open>Compute\<close> leaves.\<close>

definition AcpConfig_Validate :: "AcpConfig \<times> bool \<Rightarrow> (AcpConfig \<times> bool) outcome" where
  "AcpConfig_Validate s =
     (let (c, discard) = s
      in case IpRanges_Compute (acp_mediaGateways c) of
          Inl _ \<Rightarrow> Thrown
        | Inr gw \<Rightarrow>
            let c1 = c\<lparr>acp_mediaGateways := gw\<rparr>;
                s2 = acp_sessionStartsOnS2ActivityDb c1 \<noteq> 0;
                c2 = (if s2 then c1\<lparr>acp_s1s2Deterministic := True, acp_s1IsLocal := True\<rparr> else c1);
                c3 = (if \<not> acp_ctiDrivenEnable c2 then c2
                      else if acp_ctiMatchingCriteria c2 = []
                      then c2\<lparr>acp_ctiMatchingCriteriaList := acp_ctiMatchingCriteriaList c2 @ default_criteria\<rparr>
                      else
                        let c' = cti_criteria_loop (acp_ctiMatchingCriteria c2) c2
                        in if acp_ctiMatchingCriteriaList c' = []
                           then c'\<lparr>acp_ctiMatchingCriteriaList := default_criteria\<rparr> else c')
            in Done (c3\<lparr>acp_onDemandViaDtmf := trim (acp_onDemandViaDtmf c3),
                        acp_onDemandPauseViaDtmf := trim (acp_onDemandPauseViaDtmf c3)\<rparr>, discard \<or> s2))"

definition IsMediaGateway :: "AcpConfig \<Rightarrow> in_addr \<Rightarrow> bool" where
  "IsMediaGateway c addr =
     (if \<not> IpRanges_Empty (acp_mediaGateways c) then IpRanges_Matches (acp_mediaGateways c) addr else False)"

section \<open>Sessions\<close>

record RtpPacketInfo =
  rp_sourceMac :: "u8 list"
  rp_destMac :: "u8 list"
  rp_sourceIp :: in_addr
  rp_destIp :: in_addr
  rp_sourcePort :: u16
  rp_destPort :: u16
  rp_payloadType :: u16
  rp_payload :: "u8 list"
  rp_seqNum :: u16
  rp_ssrc :: u32
  rp_timestamp :: u32
  rp_arrivalTimestamp :: int

record OrkSession =
  os_started :: bool
  os_stopped :: bool
  os_capturePort :: string
  os_trackingId :: string
  os_beginDate :: int
  os_dtmfDigitString :: string
  os_currentRtpEventTs :: u32
  os_telephoneEventPayloadType :: int
  os_keepRtp :: bool
  os_onDemand :: bool
  os_startWhenReceiveS2 :: bool
  os_nonLookBackSessionStarted :: bool
  os_side1 :: "RtpPacketInfo option"
  os_side2 :: "RtpPacketInfo option"
  os_localIp :: in_addr
  os_payloadTypeMap :: "u8 list"
  os_ctiDriven :: bool

record 'a session_virtuals =
  sv_Start :: "'a OrkSession_scheme \<Rightarrow> 'a OrkSession_scheme"
  sv_ReportMetadata :: "'a OrkSession_scheme \<Rightarrow> 'a OrkSession_scheme"
  sv_TriggerOnDemand :: "'a OrkSession_scheme \<Rightarrow> 'a OrkSession_scheme"

record base_config =
  bc_lookBackRecording :: bool
  bc_discardUnidirectionalCalls :: bool
  bc_dtmfReportingDetailed :: bool

definition OrkSession_new :: "base_config \<Rightarrow> AcpConfig \<Rightarrow> in_addr \<Rightarrow> OrkSession" where
  "OrkSession_new bc c localIp =
     \<lparr>os_started = False, os_stopped = False, os_capturePort = [], os_trackingId = [], os_beginDate = 0,
      os_dtmfDigitString = [], os_currentRtpEventTs = 0,
      os_telephoneEventPayloadType = acp_rtpEventPayloadTypeDefaultValue c,
      os_keepRtp = bc_lookBackRecording bc, os_onDemand = False, os_startWhenReceiveS2 = False,
      os_nonLookBackSessionStarted = False, os_side1 = None, os_side2 = None, os_localIp = localIp,
      os_payloadTypeMap = map (\<lambda>i. of_nat (i + 96)) [0..<32], os_ctiDriven = False\<rparr>"

text \<open>An entry of the map that was seen in the SDP replaces the default.\<close>

definition UpdateRtpPayloadMap :: "u8 list \<Rightarrow> 'a OrkSession_scheme \<Rightarrow> 'a OrkSession_scheme" where
  "UpdateRtpPayloadMap m s =
     s\<lparr>os_payloadTypeMap := map2 (\<lambda>new old. if new \<noteq> 0 then new else old) m (os_payloadTypeMap s)\<rparr>"

definition ShouldSwapChannels :: "AcpConfig \<Rightarrow> 'a OrkSession_scheme \<Rightarrow> bool outcome" where
  "ShouldSwapChannels c s =
     (let s1_shouldBeLocal = acp_s1IsLocal c
      in case os_side1 s of None \<Rightarrow> Undefined | Some p1 \<Rightarrow>
         case os_side2 s of None \<Rightarrow> Undefined | Some p2 \<Rightarrow>
           Done (if \<not> IpRanges_Empty (acp_mediaGateways c)
                 then (IsMediaGateway c (rp_sourceIp p1) \<and> s1_shouldBeLocal) \<or>
                      (IsMediaGateway c (rp_sourceIp p2) \<and> \<not> s1_shouldBeLocal)
                 else (rp_sourceIp p2 = os_localIp s \<and> s1_shouldBeLocal) \<or>
                      (rp_sourceIp p1 = os_localIp s \<and> \<not> s1_shouldBeLocal)))"

section \<open>The channel of a packet\<close>

text \<open>The decoders of the session and the level of a chunk; a decoder that gives no chunk is silence.\<close>

record session_audio =
  sa_decoders :: "(AudioChunk \<Rightarrow> AudioChunk option) option list"
  sa_rmsDb :: "AudioChunk \<Rightarrow> rat"

definition packet_details :: "'a OrkSession_scheme \<Rightarrow> RtpPacketInfo \<Rightarrow> AudioChunkDetails outcome" where
  "packet_details s p =
     (let pt = unat (rp_payloadType p)
      in if pt \<ge> 96 \<and> pt - 96 \<ge> length (os_payloadTypeMap s) then Undefined
         else Done (AudioChunkDetails_Clear\<lparr>cd_arrivalTimestamp := word_of_int (rp_arrivalTimestamp p),
           cd_numBytes := of_nat (length (rp_payload p)), cd_timestamp := rp_timestamp p,
           cd_sequenceNumber := ucast (rp_seqNum p), cd_channel := 2, cd_encoding := AlawAudio,
           cd_rtpPayloadType := (if pt \<ge> 96 then os_payloadTypeMap s ! (pt - 96) else ucast (rp_payloadType p))\<rparr>))"

definition s2_level :: "(nat \<Rightarrow> bool) \<Rightarrow> session_audio \<Rightarrow> 'a OrkSession_scheme \<Rightarrow> RtpPacketInfo \<Rightarrow> rat outcome" where
  "s2_level alloc sa s p =
     and_then (packet_details s p) (\<lambda>d.
     and_then (SetBuffer alloc (Some (rp_payload p)) d AudioChunk_new) (\<lambda>c.
       if GetEncoding c = PcmAudio then Done (sa_rmsDb sa c)
       else
         let pt = sint (cd_rtpPayloadType d)
         in if pt < 0 \<or> pt \<ge> int (length (sa_decoders sa)) then Thrown
            else case sa_decoders sa ! nat pt of
                None \<Rightarrow> Done 0
              | Some decode \<Rightarrow>
                  (case decode c of None \<Rightarrow> Done 0 | Some c' \<Rightarrow> Done (sa_rmsDb sa c'))))"

definition begin_session :: "'a session_virtuals \<Rightarrow> base_config \<Rightarrow> 'a OrkSession_scheme \<Rightarrow> 'a OrkSession_scheme" where
  "begin_session sv bc s =
     (let s1 = sv_ReportMetadata sv (sv_Start sv s)
      in if \<not> bc_lookBackRecording bc then s1\<lparr>os_nonLookBackSessionStarted := True\<rparr> else s1)"

definition same_stream :: "RtpPacketInfo \<Rightarrow> RtpPacketInfo \<Rightarrow> bool" where
  "same_stream p q \<longleftrightarrow> rp_ssrc p = rp_ssrc q \<and> rp_destIp p = rp_destIp q"

text \<open>The result is the channel, 0 for neither, and whether it is the first packet of its side.\<close>

definition DetectChannel ::
    "(nat \<Rightarrow> bool) \<Rightarrow> session_audio \<Rightarrow> 'a session_virtuals \<Rightarrow> base_config \<Rightarrow> AcpConfig \<Rightarrow> RtpPacketInfo
      \<Rightarrow> 'a OrkSession_scheme \<Rightarrow> (nat \<times> bool \<times> 'a OrkSession_scheme) outcome" where
  "DetectChannel alloc sa sv bc c p s =
     (case os_side1 s of
        None \<Rightarrow> Done (1, True, s\<lparr>os_side1 := Some p\<rparr>)
      | Some p1 \<Rightarrow>
          if same_stream p p1 then Done (1, False, s)
          else case os_side2 s of
              None \<Rightarrow>
                let s1 = s\<lparr>os_side2 := Some p\<rparr>
                in Done (2, True,
                     if acp_sessionStartsOnS2ActivityDb c \<noteq> 0 then s1
                     else if bc_discardUnidirectionalCalls bc \<and> os_startWhenReceiveS2 s1 then begin_session sv bc s1
                     else s1)
            | Some p2 \<Rightarrow>
                if same_stream p p2 then
                  (if \<not> os_started s \<and> acp_sessionStartsOnS2ActivityDb c \<noteq> 0 then
                     and_then (s2_level alloc sa s p) (\<lambda>db.
                       Done (2, False,
                         if db > acp_sessionStartsOnS2ActivityDb c then begin_session sv bc s else s))
                   else Done (2, False, s))
                else Done (0, False, s))"

section \<open>Telephone events\<close>

datatype DtmfDigitEnum = DtmfDigitZero | DtmfDigitOne | DtmfDigitTwo | DtmfDigitThree | DtmfDigitFour
  | DtmfDigitFive | DtmfDigitSix | DtmfDigitSeven | DtmfDigitEight | DtmfDigitNine | DtmfDigitStart
  | DtmfDigitSharp | DtmfDigitUnknown

definition dtmf_digits :: "string list" where
  "dtmf_digits = [''0'', ''1'', ''2'', ''3'', ''4'', ''5'', ''6'', ''7'', ''8'', ''9'', ''*'', ''#'']"

text \<open>The number of an enumeration value is its position.\<close>

definition DtmfDigitToEnum :: "string \<Rightarrow> nat" where
  "DtmfDigitToEnum msg = (case List.find (\<lambda>i. ci_eq msg (dtmf_digits ! i)) [0..<12] of Some i \<Rightarrow> i | None \<Rightarrow> 12)"

definition DtmfDigitToString :: "nat \<Rightarrow> string" where
  "DtmfDigitToString e = (if e < 12 then dtmf_digits ! e else ''unknown'')"

text \<open>Commands: what the new string of digits asks for, and what happens to the recording state.\<close>

definition has_command :: "string \<Rightarrow> string \<Rightarrow> bool" where
  "has_command digits command \<longleftrightarrow> command \<noteq> [] \<and> find_str command digits \<noteq> None"

definition dtmf_command :: "AcpConfig \<Rightarrow> 'a session_virtuals \<Rightarrow> 'a OrkSession_scheme \<Rightarrow> 'a OrkSession_scheme" where
  "dtmf_command c sv s =
     (if acp_onDemandViaDtmf c = [] then s
      else
        let od0 = has_command (os_dtmfDigitString s) (acp_onDemandViaDtmf c);
            pause0 = has_command (os_dtmfDigitString s) (acp_onDemandPauseViaDtmf c);
            s1 = (if od0 \<or> pause0 then s\<lparr>os_dtmfDigitString := []\<rparr> else s);
            same = (acp_onDemandPauseViaDtmf c = acp_onDemandViaDtmf c);
            od = (od0 \<and> \<not> (same \<and> os_keepRtp s1));
            pause = (pause0 \<and> \<not> (same \<and> od0 \<and> \<not> os_keepRtp s1));
            trigger = (sv_TriggerOnDemand sv s1)\<lparr>os_onDemand := True, os_keepRtp := True\<rparr>
        in case (os_onDemand s1, os_keepRtp s1) of
             (False, False) \<Rightarrow> if od then trigger else s1
           | (False, True) \<Rightarrow> if od then trigger
               else if pause then s1\<lparr>os_onDemand := False, os_keepRtp := False\<rparr> else s1
           | (True, False) \<Rightarrow> if od then trigger else s1
           | (True, True) \<Rightarrow> if pause then s1\<lparr>os_onDemand := True, os_keepRtp := False\<rparr> else s1)"

definition add_digit :: "string \<Rightarrow> 'a OrkSession_scheme \<Rightarrow> 'a OrkSession_scheme" where
  "add_digit digit s =
     s\<lparr>os_dtmfDigitString := (if length (os_dtmfDigitString s) > 100 then [] else os_dtmfDigitString s) @ digit\<rparr>"

definition key_value :: "string \<Rightarrow> string \<Rightarrow> CaptureEvent" where
  "key_value k v = CaptureEvent_new\<lparr>ev_type := EtKeyValue, ev_key := k, ev_value := v\<rparr>"

definition dtmf_details_text ::
    "string \<Rightarrow> u32 \<Rightarrow> nat \<Rightarrow> nat \<Rightarrow> u32 \<Rightarrow> int \<Rightarrow> int \<Rightarrow> string" where
  "dtmf_details_text digit ts duration volume seqNo ms channel =
     ''event:'' @ IntToString (int (DtmfDigitToEnum digit)) @ '' timestamp:'' @ show_nat (unat ts) @
     '' duration:'' @ show_nat duration @ '' volume:'' @ show_nat volume @
     '' seqno:'' @ IntToString (sint seqNo) @ '' offsetms:'' @ IntToString ms @ '' channel:'' @ IntToString channel"

text \<open>The events that are reported for a digit.\<close>

definition dtmf_reports ::
    "base_config \<Rightarrow> AcpConfig \<Rightarrow> int \<Rightarrow> int \<Rightarrow> string \<Rightarrow> nat \<Rightarrow> nat \<Rightarrow> u32 \<Rightarrow> u32 \<Rightarrow> 'a OrkSession_scheme
      \<Rightarrow> CaptureEvent list" where
  "dtmf_reports bc c now channel digit duration volume ts seqNo s =
     (let ms = to_int32 ((now - os_beginDate s) * 1000);
          detailed = bc_dtmfReportingDetailed bc
      in (if detailed then [key_value (''RtpDtmfEvent_'' @ show_nat (unat ts))
                              (dtmf_details_text digit ts duration volume seqNo ms channel)] else []) @
         (if acp_dtmfReportFullStringAsTag c
          then [(key_value ''dtmfstring'' (os_dtmfDigitString s))\<lparr>ev_offsetMs := ms\<rparr>] else []) @
         [(key_value ''dtmfdigit''
             (if detailed then digit @ ''_'' @ show_nat volume @ ''_'' @ show_nat duration @ ''_'' @ IntToString channel
              else digit))\<lparr>ev_offsetMs := ms\<rparr>])"

definition ReportDtmfDigit ::
    "base_config \<Rightarrow> AcpConfig \<Rightarrow> 'a session_virtuals \<Rightarrow> int \<Rightarrow> int \<Rightarrow> string \<Rightarrow> nat \<Rightarrow> nat \<Rightarrow> u32 \<Rightarrow> u32
      \<Rightarrow> 'a OrkSession_scheme \<Rightarrow> 'a OrkSession_scheme \<times> CaptureEvent list" where
  "ReportDtmfDigit bc c sv now channel digit duration volume ts seqNo s =
     (let s1 = dtmf_command c sv (add_digit digit s)
      in (s1, dtmf_reports bc c now channel digit duration volume ts seqNo s1))"

text \<open>The payload of a telephone event: event, flags with the volume, duration.\<close>

definition HandleRtpEvent ::
    "base_config \<Rightarrow> AcpConfig \<Rightarrow> 'a session_virtuals \<Rightarrow> int \<Rightarrow> int \<Rightarrow> u8 list \<Rightarrow> u32 \<Rightarrow> u32
      \<Rightarrow> 'a OrkSession_scheme \<Rightarrow> 'a OrkSession_scheme \<times> CaptureEvent list" where
  "HandleRtpEvent bc c sv now channel payload rtpTimestamp seqNum s =
     (case payload of
        b0 # b1 # b2 # b3 # _ \<Rightarrow>
          if os_currentRtpEventTs s \<noteq> rtpTimestamp \<and> b1 AND 0x80 \<noteq> 0
          then ReportDtmfDigit bc c sv now channel (DtmfDigitToString (unat b0)) (unat b2 * 256 + unat b3)
                 (unat (b1 AND 0x3F)) rtpTimestamp seqNum (s\<lparr>os_currentRtpEventTs := rtpTimestamp\<rparr>)
          else (s, [])
      | _ \<Rightarrow> (s, []))"

section \<open>An event is reported once\<close>

fun rtp_events ::
    "base_config \<Rightarrow> AcpConfig \<Rightarrow> 'a session_virtuals \<Rightarrow> int \<Rightarrow> int \<Rightarrow> u32 \<Rightarrow> (u8 list \<times> u32) list
      \<Rightarrow> 'a OrkSession_scheme \<Rightarrow> 'a OrkSession_scheme \<times> CaptureEvent list" where
  "rtp_events bc c sv now channel ts [] s = (s, [])"
| "rtp_events bc c sv now channel ts ((p, n) # ps) s =
     (let (s1, out) = HandleRtpEvent bc c sv now channel p ts n s;
          (s2, outs) = rtp_events bc c sv now channel ts ps s1
      in (s2, out @ outs))"

definition is_end :: "u8 list \<Rightarrow> bool" where
  "is_end p \<longleftrightarrow> 4 \<le> length p \<and> (p ! 1) AND 0x80 \<noteq> 0"

lemma payload_bytes: "4 \<le> length p \<Longrightarrow> \<exists>a b c d r. p = a # b # c # d # r"
  by (auto simp: numeral_eq_Suc Suc_le_length_iff)

lemma HandleRtpEvent_not_end: "\<not> is_end p \<Longrightarrow> HandleRtpEvent bc c sv now ch p ts n s = (s, [])"
  by (auto simp: HandleRtpEvent_def is_end_def split: list.splits)

lemma HandleRtpEvent_same_ts: "os_currentRtpEventTs s = ts \<Longrightarrow> HandleRtpEvent bc c sv now ch p ts n s = (s, [])"
  by (auto simp: HandleRtpEvent_def split: list.splits)

lemma rtp_events_same_ts: "os_currentRtpEventTs s = ts \<Longrightarrow> rtp_events bc c sv now ch ts ps s = (s, [])"
  by (induction ps) (auto simp: HandleRtpEvent_same_ts)

definition keeps_event_ts :: "'a session_virtuals \<Rightarrow> bool" where
  "keeps_event_ts sv \<longleftrightarrow> (\<forall>s. os_currentRtpEventTs (sv_TriggerOnDemand sv s) = os_currentRtpEventTs s)"

lemma dtmf_command_ts:
  "keeps_event_ts sv \<Longrightarrow> os_currentRtpEventTs (dtmf_command c sv s) = os_currentRtpEventTs s"
  by (cases "os_onDemand s"; cases "os_keepRtp s") (auto simp: dtmf_command_def keeps_event_ts_def Let_def)

lemma HandleRtpEvent_end:
  assumes "is_end p" "os_currentRtpEventTs s \<noteq> ts" "keeps_event_ts sv"
  shows "os_currentRtpEventTs (fst (HandleRtpEvent bc c sv now ch p ts n s)) = ts"
proof -
  obtain a b d e r where "p = a # b # d # e # r" using assms(1) payload_bytes [of p] by (auto simp: is_end_def)
  with assms show ?thesis
    by (simp add: HandleRtpEvent_def is_end_def ReportDtmfDigit_def dtmf_command_ts add_digit_def Let_def)
qed

text \<open>
  C28. A telephone event is reported once. The packets of one event carry the same RTP timestamp, and
  the last one is usually sent several times; whatever packets with a new timestamp arrive, they have
  exactly the effect of the first one with the end bit, and none if there is none.
\<close>

theorem dtmf_event_once:
  assumes "os_currentRtpEventTs s \<noteq> ts" "keeps_event_ts sv"
  shows "rtp_events bc c sv now ch ts ps s =
    (case List.find (\<lambda>(p, n). is_end p) ps of
       None \<Rightarrow> (s, []) | Some (p, n) \<Rightarrow> HandleRtpEvent bc c sv now ch p ts n s)"
  using assms(1)
proof (induction ps)
  case (Cons q ps)
  obtain p n where q: "q = (p, n)" by force
  show ?case
  proof (cases "is_end p")
    case True
    with HandleRtpEvent_end [OF True Cons.prems assms(2), of bc c now ch n] q
    show ?thesis by (cases "HandleRtpEvent bc c sv now ch p ts n s") (simp add: rtp_events_same_ts)
  next
    case False
    with Cons q show ?thesis by (simp add: HandleRtpEvent_not_end)
  qed
qed simp

section \<open>The commands\<close>

text \<open>
  The abstract recording state, and the commands: record, pause, both at once, and one string that
  toggles.
\<close>

datatype control = Idle | Automatic | Paused | Recording
datatype command = NoCommand | Record | Pause | Both | Toggle

definition ctl :: "'a OrkSession_scheme \<Rightarrow> control" where
  "ctl s = (if os_onDemand s then (if os_keepRtp s then Recording else Paused)
            else if os_keepRtp s then Automatic else Idle)"

definition command_of :: "AcpConfig \<Rightarrow> string \<Rightarrow> command" where
  "command_of c digits =
     (let od = has_command digits (acp_onDemandViaDtmf c); pause = has_command digits (acp_onDemandPauseViaDtmf c)
      in if acp_onDemandViaDtmf c = [] then NoCommand
         else if od \<and> pause then (if acp_onDemandPauseViaDtmf c = acp_onDemandViaDtmf c then Toggle else Both)
         else if od then Record else if pause then Pause else NoCommand)"

fun obey :: "command \<Rightarrow> control \<Rightarrow> control" where
  "obey NoCommand x = x"
| "obey Record x = Recording"
| "obey Pause x = (case x of Automatic \<Rightarrow> Idle | Recording \<Rightarrow> Paused | y \<Rightarrow> y)"
| "obey Both x = (if x = Recording then Paused else Recording)"
| "obey Toggle x = (case x of Automatic \<Rightarrow> Idle | Recording \<Rightarrow> Paused | _ \<Rightarrow> Recording)"

text \<open>A reported digit does to the recording state what the command in the digit string requires.\<close>

lemma dtmf_control_step:
  "ctl (fst (ReportDtmfDigit bc c sv now ch digit dur vol ts sn s)) =
    obey (command_of c (os_dtmfDigitString (add_digit digit s))) (ctl s)"
proof -
  let ?s = "add_digit digit s"
  have s: "os_onDemand ?s = os_onDemand s" "os_keepRtp ?s = os_keepRtp s" by (simp_all add: add_digit_def)
  have "ctl (dtmf_command c sv ?s) = obey (command_of c (os_dtmfDigitString ?s)) (ctl s)"
  proof (cases "os_onDemand s"; cases "os_keepRtp s")
  qed (auto simp: dtmf_command_def command_of_def ctl_def s Let_def)
  then show ?thesis by (simp add: ReportDtmfDigit_def Let_def)
qed

text \<open>
  The abstract machine: a recording state and the digits since the last command. It looks for the two
  command strings anywhere in the digits, forgets the digits when it finds one, and starts again when
  there are more than a hundred.
\<close>

definition contains :: "string \<Rightarrow> string \<Rightarrow> bool" where
  "contains w ds \<longleftrightarrow> w \<noteq> [] \<and> (\<exists>u v. ds = u @ w @ v)"

definition asked :: "string \<Rightarrow> string \<Rightarrow> string \<Rightarrow> command" where
  "asked record pause ds =
     (if record = [] then NoCommand
      else case (contains record ds, contains pause ds) of
        (True, True) \<Rightarrow> if record = pause then Toggle else Both
      | (True, False) \<Rightarrow> Record | (False, True) \<Rightarrow> Pause | (False, False) \<Rightarrow> NoCommand)"

definition dtmf_machine :: "string \<Rightarrow> string \<Rightarrow> string \<Rightarrow> control \<times> string \<Rightarrow> control \<times> string" where
  "dtmf_machine record pause digit x =
     (let ds = (if length (snd x) > 100 then [] else snd x) @ digit; k = asked record pause ds
      in (obey k (fst x), if k = NoCommand then ds else []))"

text \<open>A digit with what is reported about it: time, channel, digit, duration, volume, timestamp, sequence number.\<close>

type_synonym dtmf_press = "int \<times> int \<times> string \<times> nat \<times> nat \<times> u32 \<times> u32"

definition press ::
    "base_config \<Rightarrow> AcpConfig \<Rightarrow> 'a session_virtuals \<Rightarrow> dtmf_press \<Rightarrow> 'a OrkSession_scheme \<Rightarrow> 'a OrkSession_scheme option" where
  "press bc c sv x s = (case x of (now, ch, digit, dur, vol, ts, sn) \<Rightarrow>
     Some (fst (ReportDtmfDigit bc c sv now ch digit dur vol ts sn s)))"

definition pressed :: "dtmf_press \<Rightarrow> string" where
  "pressed x = (case x of (now, ch, digit, _) \<Rightarrow> digit)"

definition dtmf_view :: "'a OrkSession_scheme \<Rightarrow> control \<times> string" where
  "dtmf_view s = (ctl s, os_dtmfDigitString s)"

definition keeps_digits :: "'a session_virtuals \<Rightarrow> bool" where
  "keeps_digits sv \<longleftrightarrow> (\<forall>s. os_dtmfDigitString (sv_TriggerOnDemand sv s) = os_dtmfDigitString s)"

lemma has_command_contains: "has_command ds w = contains w ds"
  by (simp add: has_command_def contains_def find_str_None)

lemma command_asked: "command_of c ds = asked (acp_onDemandViaDtmf c) (acp_onDemandPauseViaDtmf c) ds"
  by (simp add: command_of_def asked_def has_command_contains Let_def)

lemma dtmf_command_digits:
  assumes "keeps_digits sv"
  shows "os_dtmfDigitString (dtmf_command c sv s) =
    (if command_of c (os_dtmfDigitString s) = NoCommand then os_dtmfDigitString s else [])"
  using assms
  by (cases "os_onDemand s"; cases "os_keepRtp s") (auto simp: dtmf_command_def command_of_def keeps_digits_def Let_def)

lemma dtmf_step:
  assumes "keeps_digits sv" "press bc c sv x s = Some s'"
  shows "dtmf_view s' = dtmf_machine (acp_onDemandViaDtmf c) (acp_onDemandPauseViaDtmf c) (pressed x) (dtmf_view s)"
proof -
  obtain now ch digit dur vol ts sn where x: "x = (now, ch, digit, dur, vol, ts, sn)" by (cases x)
  let ?ds = "os_dtmfDigitString (add_digit digit s)"
  have "s' = fst (ReportDtmfDigit bc c sv now ch digit dur vol ts sn s)" using assms(2) by (simp add: press_def x)
  moreover from this have "os_dtmfDigitString s' = (if command_of c ?ds = NoCommand then ?ds else [])"
    by (simp add: ReportDtmfDigit_def Let_def dtmf_command_digits [OF assms(1)])
  ultimately show ?thesis
    by (simp add: dtmf_view_def dtmf_machine_def dtmf_control_step command_asked pressed_def x add_digit_def Let_def)
qed

interpretation dtmf: simulation "press bc c sv" "\<lambda>_. keeps_digits sv" dtmf_view
    "\<lambda>x. dtmf_machine (acp_onDemandViaDtmf c) (acp_onDemandPauseViaDtmf c) (pressed x)" for bc c sv
  by unfold_locales (auto simp: dtmf_step press_def split: prod.splits)

text \<open>
  C24. Digit collection and recording commands. Any sequence of reported digits drives a session as the
  abstract machine says, whose state is one of four recording states with the digits collected since
  the last command: digits are appended in order; a command string among them changes the recording
  state (the record command always ends in recording, the pause command pauses what records, one string
  for both toggles) and clears the digits; without a command nothing changes; more than a hundred digits
  are dropped before the next one. The trigger of the derived class leaves the digits alone.
\<close>

theorem dtmf_control_refines:
  assumes "keeps_digits sv"
  shows "\<exists>s'. run_ops (press bc c sv) xs s = Some s' \<and>
    dtmf_view s' = fold (\<lambda>x. dtmf_machine (acp_onDemandViaDtmf c) (acp_onDemandPauseViaDtmf c) (pressed x)) xs (dtmf_view s)"
  using dtmf.run_simulates [OF assms] by blast

definition example_virtuals :: "unit session_virtuals" where
  "example_virtuals = \<lparr>sv_Start = (\<lambda>s. s\<lparr>os_started := True\<rparr>), sv_ReportMetadata = (\<lambda>s. s),
     sv_TriggerOnDemand = (\<lambda>s. s\<lparr>os_keepRtp := True\<rparr>)\<rparr>"

definition example_base :: base_config where
  "example_base = \<lparr>bc_lookBackRecording = True, bc_discardUnidirectionalCalls = False, bc_dtmfReportingDetailed = False\<rparr>"

definition example_acp :: AcpConfig where
  "example_acp = \<lparr>acp_onDemandViaDtmf = ''*1'', acp_onDemandPauseViaDtmf = ''*2'', acp_dtmfReportFullStringAsTag = False,
     acp_rtpEventPayloadTypeDefaultValue = 101, acp_s1s2Deterministic = False, acp_s1IsLocal = True,
     acp_mediaGateways = \<lparr>m_asciiIpRanges = [], m_ipRangePrefixes = [], m_ipRangeBitWidths = []\<rparr>,
     acp_ctiDrivenEnable = False, acp_ctiMatchingCriteria = [], acp_ctiTagPair = [], acp_ctiTapeTag = [],
     acp_ctiMetadataTag = [], acp_ctiMatchingCriteriaList = [], acp_sessionStartsOnS2ActivityDb = 0\<rparr>"

definition example_session :: OrkSession where
  "example_session = OrkSession_new example_base example_acp (192, 168, 0, 1)"

theorem dtmf_control_refines_witness:
  "\<exists>s'. run_ops (press example_base example_acp example_virtuals)
      [(10, 1, ''*'', 800, 10, 1, 1), (11, 1, ''2'', 800, 10, 2, 2), (12, 1, ''*'', 800, 10, 3, 3), (13, 1, ''1'', 800, 10, 4, 4)]
      example_session = Some s' \<and>
    dtmf_view s' = fold (\<lambda>x. dtmf_machine ''*1'' ''*2'' (pressed x))
      [(10, 1, ''*'', 800, 10, 1, 1), (11, 1, ''2'', 800, 10, 2, 2), (12, 1, ''*'', 800, 10, 3, 3), (13, 1, ''1'', 800, 10, 4, 4)]
      (dtmf_view example_session)"
proof -
  have "keeps_digits example_virtuals" by (simp add: keeps_digits_def example_virtuals_def)
  note m = dtmf_control_refines [OF this, where bc = example_base and c = example_acp]
  have "acp_onDemandViaDtmf example_acp = ''*1''" "acp_onDemandPauseViaDtmf example_acp = ''*2''"
    by (simp_all add: example_acp_def)
  from m [unfolded this] show ?thesis .
qed

theorem dtmf_event_once_witness:
  "rtp_events example_base example_acp example_virtuals 10 1 800
     [([1, 10, 0, 160], 1), ([1, 138, 3, 32], 2), ([1, 138, 3, 32], 3)] example_session =
   HandleRtpEvent example_base example_acp example_virtuals 10 1 [1, 138, 3, 32] 800 2 example_session"
proof -
  have "os_currentRtpEventTs example_session \<noteq> 800" by (simp add: example_session_def OrkSession_new_def)
  moreover have "keeps_event_ts example_virtuals" by (simp add: keeps_event_ts_def example_virtuals_def)
  ultimately show ?thesis
    using dtmf_event_once [of example_session 800 example_virtuals example_base example_acp 10 1
        "[([1, 10, 0, 160], 1), ([1, 138, 3, 32], 2), ([1, 138, 3, 32], 3)]"]
    by (simp add: is_end_def)
qed

text \<open>
  A command can be lost. The digit string is cleared before a digit is added when it has more than
  100 digits, so a command whose first digit is the 101st is not recognised: here \<open>*1\<close> after a hundred
  other digits leaves the recording idle.
\<close>

theorem dtmf_command_lost:
  fixes c :: AcpConfig
  assumes "acp_onDemandViaDtmf c = ''*1''" "acp_onDemandPauseViaDtmf c = ''*2''"
    "os_dtmfDigitString s = replicate 100 CHR ''5''" "ctl s = Idle"
  shows "ctl (fst (ReportDtmfDigit bc c sv now ch ''1'' d2 v2 t2 n2
    (fst (ReportDtmfDigit bc c sv now ch ''*'' d1 v1 t1 n1 s)))) = Idle"
proof -
  let ?s1 = "add_digit ''*'' s"
  have d1: "os_dtmfDigitString ?s1 = replicate 100 CHR ''5'' @ ''*''" by (simp add: add_digit_def assms(3))
  have nf: "find_str [CHR ''*'', x] (replicate n CHR ''5'' @ ''*'') = None" for x n
    by (induction n) auto
  have "command_of c (os_dtmfDigitString ?s1) = NoCommand"
    by (simp only: command_of_def has_command_def d1 assms(1,2) nf) simp
  moreover have od: "os_onDemand ?s1 = False" "os_keepRtp ?s1 = False"
    using assms(4) by (simp_all add: ctl_def add_digit_def split: if_splits)
  moreover have none: "\<not> has_command (os_dtmfDigitString ?s1) (acp_onDemandViaDtmf c)"
    "\<not> has_command (os_dtmfDigitString ?s1) (acp_onDemandPauseViaDtmf c)"
    by (simp_all only: has_command_def d1 assms(1,2) nf) simp_all
  ultimately have s1: "dtmf_command c sv ?s1 = ?s1" using assms(1) by (simp add: dtmf_command_def Let_def)
  have "os_dtmfDigitString (add_digit ''1'' ?s1) = ''1''" by (simp add: add_digit_def assms(3))
  then have "command_of c (os_dtmfDigitString (add_digit ''1'' ?s1)) = NoCommand"
    by (simp add: command_of_def has_command_def assms(1,2))
  with dtmf_control_step [of bc c sv now ch "''1''" d2 v2 t2 n2 ?s1] s1 od show ?thesis
    by (simp add: ReportDtmfDigit_def Let_def ctl_def)
qed

theorem dtmf_command_lost_witness:
  "ctl (fst (ReportDtmfDigit example_base example_acp example_virtuals 10 1 ''1'' 0 0 2 2
    (fst (ReportDtmfDigit example_base example_acp example_virtuals 10 1 ''*'' 0 0 1 1
      (example_session\<lparr>os_dtmfDigitString := replicate 100 CHR ''5'', os_keepRtp := False\<rparr>))))) = Idle"
  by (rule dtmf_command_lost)
    (simp_all add: example_acp_def example_session_def OrkSession_new_def ctl_def)

section \<open>Channels\<close>

text \<open>The channel that the two sides of a session give to a packet.\<close>

definition channel_of :: "'a OrkSession_scheme \<Rightarrow> RtpPacketInfo \<Rightarrow> nat" where
  "channel_of s p =
     (if (\<exists>q. os_side1 s = Some q \<and> same_stream p q) then 1
      else if (\<exists>q. os_side2 s = Some q \<and> same_stream p q) then 2 else 0)"

definition keeps_sides :: "'a session_virtuals \<Rightarrow> bool" where
  "keeps_sides sv \<longleftrightarrow> (\<forall>s. os_side1 (sv_Start sv s) = os_side1 s \<and> os_side2 (sv_Start sv s) = os_side2 s \<and>
     os_side1 (sv_ReportMetadata sv s) = os_side1 s \<and> os_side2 (sv_ReportMetadata sv s) = os_side2 s)"

fun detect_all ::
    "(nat \<Rightarrow> bool) \<Rightarrow> session_audio \<Rightarrow> 'a session_virtuals \<Rightarrow> base_config \<Rightarrow> AcpConfig \<Rightarrow> RtpPacketInfo list
      \<Rightarrow> 'a OrkSession_scheme \<Rightarrow> (nat list \<times> 'a OrkSession_scheme) outcome" where
  "detect_all alloc sa sv bc c [] s = Done ([], s)"
| "detect_all alloc sa sv bc c (p # ps) s =
     and_then (DetectChannel alloc sa sv bc c p s) (\<lambda>(n, _, s1).
     and_then (detect_all alloc sa sv bc c ps s1) (\<lambda>(ns, s2). Done (n # ns, s2)))"

text \<open>The sides of a session only become known; the second one after the first.\<close>

definition sides_grow :: "'a OrkSession_scheme \<Rightarrow> 'a OrkSession_scheme \<Rightarrow> bool" where
  "sides_grow s s' \<longleftrightarrow> (\<forall>q. os_side1 s = Some q \<longrightarrow> os_side1 s' = Some q) \<and>
     (\<forall>q. os_side2 s = Some q \<longrightarrow> os_side2 s' = Some q)"

lemma begin_session_sides:
  "keeps_sides sv \<Longrightarrow> os_side1 (begin_session sv bc s) = os_side1 s \<and> os_side2 (begin_session sv bc s) = os_side2 s"
  by (simp add: begin_session_def keeps_sides_def Let_def)

lemma same_stream_refl [simp]: "same_stream p p"
  by (simp add: same_stream_def)

lemma DetectChannel_sides:
  assumes "DetectChannel alloc sa sv bc c p s = Done (n, b, s1)" "keeps_sides sv"
  shows "sides_grow s s1" "sides_grow s1 s2 \<Longrightarrow> channel_of s2 p = n"
proof -
  have "sides_grow s s1 \<and> n = channel_of s1 p \<and> os_side1 s1 \<noteq> None \<and> (n = 1 \<or> os_side2 s1 \<noteq> None)"
    using assms(1) begin_session_sides [OF assms(2)]
    by (auto simp: DetectChannel_def sides_grow_def channel_of_def Let_def split: option.splits if_splits)
  then show "sides_grow s s1" "sides_grow s1 s2 \<Longrightarrow> channel_of s2 p = n"
    by (auto simp: sides_grow_def channel_of_def split: if_splits)
qed

lemma detect_all_channels:
  assumes "keeps_sides sv"
  shows "detect_all alloc sa sv bc c ps s = Done (ns, s2) \<Longrightarrow> sides_grow s s2 \<and> ns = map (channel_of s2) ps"
proof (induction ps arbitrary: s ns)
  case (Cons p ps)
  then obtain n b s1 ms where d: "DetectChannel alloc sa sv bc c p s = Done (n, b, s1)"
    "detect_all alloc sa sv bc c ps s1 = Done (ms, s2)" "ns = n # ms" by auto
  from Cons.IH [OF d(2)] have ih: "sides_grow s1 s2" "ms = map (channel_of s2) ps" by auto
  from DetectChannel_sides [OF d(1) assms] ih d(3) show ?case by (auto simp: sides_grow_def)
qed (auto simp: sides_grow_def)

text \<open>
  Channels are stable. In a session, packets of one stream (same synchronisation source and
  destination) always get the same channel, and packets of two streams never share channel 1 or 2,
  whatever arrives and whenever the session starts.
\<close>

theorem detect_channel_stable:
  assumes "keeps_sides sv" "detect_all alloc sa sv bc c ps s = Done (ns, s2)" "i < length ps" "j < length ps"
  shows "(same_stream (ps ! i) (ps ! j) \<longrightarrow> ns ! i = ns ! j) \<and>
    (ns ! i = ns ! j \<and> ns ! i \<noteq> 0 \<longrightarrow> same_stream (ps ! i) (ps ! j))"
proof -
  have "ns ! i = channel_of s2 (ps ! i)" "ns ! j = channel_of s2 (ps ! j)"
    using detect_all_channels [OF assms(1,2)] assms(3,4) by simp_all
  then show ?thesis by (auto simp: channel_of_def same_stream_def split: if_splits)
qed

definition example_packet :: "u32 \<Rightarrow> RtpPacketInfo" where
  "example_packet ssrc = \<lparr>rp_sourceMac = [], rp_destMac = [], rp_sourceIp = (10, 0, 0, 1), rp_destIp = (10, 0, 0, 2), rp_sourcePort = 7000,
     rp_destPort = 8000, rp_payloadType = 0, rp_payload = [], rp_seqNum = 1, rp_ssrc = ssrc, rp_timestamp = 0,
     rp_arrivalTimestamp = 0\<rparr>"

theorem detect_channel_stable_witness:
  "\<exists>ns s2. detect_all (\<lambda>_. True) \<lparr>sa_decoders = [], sa_rmsDb = (\<lambda>_. 0)\<rparr> example_virtuals example_base example_acp
      [example_packet 5, example_packet 6, example_packet 5] example_session = Done (ns, s2) \<and> ns ! 0 = ns ! 2"
proof -
  let ?ps = "[example_packet 5, example_packet 6, example_packet 5]"
  obtain ns s2 where r: "detect_all (\<lambda>_. True) \<lparr>sa_decoders = [], sa_rmsDb = (\<lambda>_. 0)\<rparr> example_virtuals
      example_base example_acp ?ps example_session = Done (ns, s2)"
    by (simp add: DetectChannel_def example_session_def OrkSession_new_def same_stream_def example_packet_def
        example_acp_def example_base_def)
  have "keeps_sides example_virtuals" by (simp add: keeps_sides_def example_virtuals_def)
  from detect_channel_stable [OF this r, of 0 2] r show ?thesis by auto
qed

end
