(* ===== verification/OrkDirection.thy ===== *)
theory OrkDirection
  imports OrkUtils OrkTapeRuns OrkMcf
begin

text \<open>
  The chain of tape processors (orkbasecxx/TapeProcessor.cpp) and the processor that silences one
  side of a recording (orkbasecxx/DirectionSelector.cpp): the table of area codes, the choice of the
  kept side, and the rewriting of the capture file.

  The registered processors are singletons, so a reference to one is its name. The disk is a map
  from file names to contents; a file that is written appears with its final contents when it is
  closed. The recording is a media chunk file; a path is the same string for every call that takes
  it, and the room on the disk is an argument (\<open>None\<close>: no file can be created).
\<close>

section \<open>The chain of processors\<close>

record tape_chain =
  tc_registered :: "string list"
  tc_first :: "string option"
  tc_next :: "string \<Rightarrow> string option"

definition TapeProcessorRegistry_new :: tape_chain where
  "TapeProcessorRegistry_new = \<lparr>tc_registered = [], tc_first = None, tc_next = (\<lambda>_. None)\<rparr>"

definition RegisterTapeProcessor :: "string \<Rightarrow> tape_chain \<Rightarrow> tape_chain" where
  "RegisterTapeProcessor p t = t\<lparr>tc_registered := tc_registered t @ [p]\<rparr>"

definition GetNewTapeProcessor :: "string \<Rightarrow> tape_chain \<Rightarrow> string option" where
  "GetNewTapeProcessor n t = List.find (\<lambda>p. ci_eq p n) (tc_registered t)"

definition SetNextProcessor :: "string \<Rightarrow> string \<Rightarrow> tape_chain \<Rightarrow> tape_chain" where
  "SetNextProcessor p q t = t\<lparr>tc_next := (tc_next t)(p := Some q)\<rparr>"

fun chain_loop :: "string list \<Rightarrow> string option \<Rightarrow> tape_chain \<Rightarrow> tape_chain" where
  "chain_loop [] prev t = t"
| "chain_loop (n # ns) prev t =
     (case GetNewTapeProcessor n t of
        None \<Rightarrow> chain_loop ns prev t
      | Some p \<Rightarrow>
          let t1 = (if tc_first t = None then t\<lparr>tc_first := Some p\<rparr> else t);
              t2 = (case prev of Some q \<Rightarrow> SetNextProcessor q p t1 | None \<Rightarrow> t1)
          in chain_loop ns (Some p) t2)"

definition CreateProcessingChain :: "string list \<Rightarrow> tape_chain \<Rightarrow> tape_chain" where
  "CreateProcessingChain names t = chain_loop names None t"

text \<open>
  The processor that a tape is queued at, if any; the skipped processor passes the tape on, so the
  call may not return (\<open>None\<close>).
\<close>

partial_function (option) RunNextProcessor ::
    "tape_chain \<Rightarrow> bool \<Rightarrow> MediaTypeEnum \<Rightarrow> string \<Rightarrow> string option option" where
  "RunNextProcessor t external media p =
     (case tc_next t p of
        None \<Rightarrow> Some None
      | Some q \<Rightarrow>
          if external \<and> media \<noteq> AudioType \<and> media \<noteq> VideoType \<and> ci_eq q ''CommandProcessing''
          then RunNextProcessor t external media q
          else Some (Some q))"

declare RunNextProcessor.simps [code]

definition RunProcessingChain ::
    "tape_chain \<Rightarrow> bool \<Rightarrow> MediaTypeEnum \<Rightarrow> string option option" where
  "RunProcessingChain t external media =
     (case tc_first t of
        None \<Rightarrow> Some None
      | Some p \<Rightarrow>
          if \<not> external then Some (Some p)
          else if ci_eq p ''BatchProcessing'' then RunNextProcessor t external media p
          else Some None)"

text \<open>
  The first \<open>n\<close> processors that work on a tape, when every one passes it on after its work.
\<close>

primrec visits_from ::
    "nat \<Rightarrow> tape_chain \<Rightarrow> bool \<Rightarrow> MediaTypeEnum \<Rightarrow> string option option \<Rightarrow> string list" where
  "visits_from 0 t e m at = []"
| "visits_from (Suc n) t e m at =
     (case at of
        Some (Some p) \<Rightarrow> p # visits_from n t e m (RunNextProcessor t e m p)
      | _ \<Rightarrow> [])"

definition visits :: "nat \<Rightarrow> tape_chain \<Rightarrow> bool \<Rightarrow> MediaTypeEnum \<Rightarrow> string list" where
  "visits n t e m = visits_from n t e m (RunProcessingChain t e m)"

lemma visits_from_None [simp]: "visits_from n t e m (Some None) = []"
  by (cases n) simp_all

section \<open>Area codes\<close>

definition ProcessAreaCodesMap ::
    "string \<Rightarrow> (string \<times> string) list \<Rightarrow> (string \<times> string) list" where
  "ProcessAreaCodesMap line m =
     (case find_char CHR '':'' line of
        None \<Rightarrow> m
      | Some i \<Rightarrow>
          let side = drop (Suc i) line;
              code = trim (take i line);
              sideKept = trim side
          in if \<not> StringIsPhoneNumber code
                \<or> AudioKeepDirectionToEnum sideKept = AudioKeepDirectionInvalid
             then m
             else omap_insert str_less code side m)"

text \<open>\<open>fgets\<close> into a buffer of \<open>n + 1\<close> bytes: the line read and what follows it.\<close>

fun fgets :: "nat \<Rightarrow> string \<Rightarrow> string \<times> string" where
  "fgets 0 s = ([], s)"
| "fgets (Suc n) [] = ([], [])"
| "fgets (Suc n) (c # s) =
     (if c = LF then ([c], s) else (let (l, r) = fgets n s in (c # l, r)))"

lemma fgets_length: "fgets n s = (l, r) \<Longrightarrow> length l + length r = length s"
  by (induction n s arbitrary: l r rule: fgets.induct) (auto split: if_splits prod.splits)

lemma fgets_progress: "s \<noteq> [] \<Longrightarrow> length (snd (fgets (Suc n) s)) < length s"
  by (cases s) (auto split: prod.split dest: fgets_length)

definition map_line :: "string \<Rightarrow> (string \<times> string) list \<Rightarrow> (string \<times> string) list" where
  "map_line buf m =
     (let s = c_str buf
      in if length s > 4
         then ProcessAreaCodesMap (if last s = LF then butlast s else s) m
         else m)"

function area_loop :: "string \<Rightarrow> (string \<times> string) list \<Rightarrow> (string \<times> string) list" where
  "area_loop s m =
     (if s = [] then m
      else area_loop (snd (fgets 1023 s)) (map_line (fst (fgets 1023 s)) m))"
  by pat_completeness auto

termination
  by (relation "measure (length \<circ> fst)") (auto simp: fgets_progress numeral_eq_Suc simp del: fgets.simps)

declare area_loop.simps [simp del]

text \<open>\<open>LoadAreaCodesMap\<close>: the files found in the working directory and in /etc.\<close>

definition LoadAreaCodesMap ::
    "string option \<Rightarrow> string option \<Rightarrow> (string \<times> string) list \<Rightarrow> (string \<times> string) list" where
  "LoadAreaCodesMap local_file etc_file m =
     (case local_file of
        Some s \<Rightarrow> area_loop s m
      | None \<Rightarrow> (case etc_file of Some s \<Rightarrow> area_loop s m | None \<Rightarrow> m))"

section \<open>The side that is kept\<close>

fun find_side :: "(string \<times> string) list \<Rightarrow> string \<Rightarrow> string option" where
  "find_side [] remote = None"
| "find_side ((code, side) # m) remote =
     (if find_str code remote = Some 0 then Some side else find_side m remote)"

definition default_mark :: "string \<Rightarrow> AudioDirectionMarks list \<Rightarrow> AudioDirectionMarks" where
  "default_mark side marks =
     \<lparr>adm_timestamp = 1,
      adm_nextTimestampMark = (case marks of [] \<Rightarrow> 0 | k # _ \<Rightarrow> adm_timestamp k),
      adm_keep = AudioKeepDirectionToEnum side\<rparr>"

definition mark_default_side ::
    "(string \<times> string) list \<Rightarrow> string \<Rightarrow> AudioDirectionMarks list \<Rightarrow> AudioDirectionMarks list" where
  "mark_default_side codes remote marks =
     (case find_side codes remote of
        Some side \<Rightarrow> default_mark side marks # marks
      | None \<Rightarrow> marks)"

text \<open>The test of a mark against the arrival time, and what it blanks.\<close>

definition mark_covers :: "AudioDirectionMarks \<Rightarrow> AudioChunkDetails \<Rightarrow> bool" where
  "mark_covers k d \<longleftrightarrow>
     uint (cd_arrivalTimestamp d) \<ge> adm_timestamp k \<and>
     (uint (cd_arrivalTimestamp d) < adm_nextTimestampMark k \<or> adm_nextTimestampMark k = 0)"

definition mark_blanks :: "LocalSideEnum \<Rightarrow> AudioKeepDirectionEnum \<Rightarrow> u8 \<Rightarrow> bool" where
  "mark_blanks ls keep channel =
     (if ls = LocalSideSide1 then
        (if keep = AudioKeepDirectionLocal \<and> channel = 2 then True
         else keep = AudioKeepDirectionRemote \<and> channel = 1)
      else if ls = LocalSideSide2 then
        (if keep = AudioKeepDirectionLocal \<and> channel = 1 then True
         else keep = AudioKeepDirectionRemote \<and> channel = 2)
      else False)"

text \<open>\<open>memset(m_pBuffer, 0, m_numBytes)\<close>\<close>

definition blank_chunk :: "AudioChunkDetails \<Rightarrow> AudioChunk \<Rightarrow> AudioChunk outcome" where
  "blank_chunk d c =
     (let n = unat (cd_numBytes d)
      in case ac_buffer c of
          None \<Rightarrow> if n = 0 then Done c else Undefined
        | Some b \<Rightarrow> if length b < n then Undefined
                    else Done (c\<lparr>ac_buffer := Some (replicate n 0 @ drop n b)\<rparr>))"

fun marks_loop ::
    "LocalSideEnum \<Rightarrow> AudioDirectionMarks list \<Rightarrow> AudioChunkDetails \<Rightarrow> AudioChunk \<Rightarrow> AudioChunk outcome" where
  "marks_loop ls [] d c = Done c"
| "marks_loop ls (k # ks) d c =
     (if adm_timestamp k = 0 then marks_loop ls ks d c
      else if mark_covers k d \<and> mark_blanks ls (adm_keep k) (cd_channel d)
      then and_then (blank_chunk d c) (marks_loop ls ks d)
      else marks_loop ls ks d c)"

section \<open>Rewriting a recording\<close>

text \<open>
  One round of the loop over the chunks: it ends with the two files and whether a call threw, or goes
  on. The loop does not end (\<open>None\<close>) when the stream fails without its end being reached.
\<close>

type_synonym filter_end = "(MediaChunkFile \<times> MediaChunkFile \<times> bool) outcome"

definition filter_round ::
    "(nat \<Rightarrow> bool) \<Rightarrow> int \<Rightarrow> u8 \<times> u8 \<Rightarrow> LocalSideEnum \<Rightarrow> AudioDirectionMarks list \<Rightarrow>
     MediaChunkFile \<Rightarrow> MediaChunkFile \<Rightarrow> filter_end + MediaChunkFile \<times> MediaChunkFile" where
  "filter_round alloc kb pad ls marks src dst =
     (case Mcf_ReadChunkMono alloc src of
        Thrown \<Rightarrow> Inl (Done (src, dst, True))
      | Undefined \<Rightarrow> Inl Undefined
      | Done (n, c, src1) \<Rightarrow>
          if n = 0 then Inl (Done (src1, dst, False))
          else (case and_then (marks_loop ls marks (ac_details c) c)
                   (\<lambda>c1. Mcf_WriteChunk kb pad (Some c1) dst) of
              Done (dst1, thrown) \<Rightarrow>
                if thrown then Inl (Done (src1, dst1, True)) else Inr (src1, dst1)
            | Thrown \<Rightarrow> Inl (Done (src1, dst, True))
            | Undefined \<Rightarrow> Inl Undefined))"

partial_function (option) filter_loop ::
    "(nat \<Rightarrow> bool) \<Rightarrow> int \<Rightarrow> u8 \<times> u8 \<Rightarrow> LocalSideEnum \<Rightarrow> AudioDirectionMarks list \<Rightarrow>
     MediaChunkFile \<Rightarrow> MediaChunkFile \<Rightarrow> filter_end option" where
  "filter_loop alloc kb pad ls marks src dst =
     (case filter_round alloc kb pad ls marks src dst of
        Inl r \<Rightarrow> Some r
      | Inr p \<Rightarrow> filter_loop alloc kb pad ls marks (fst p) (snd p))"

declare filter_loop.simps [code]

type_synonym disk = "string \<Rightarrow> u8 list option"

record direction_env =
  de_codes :: "(string \<times> string) list"
  de_outputPath :: string
  de_alloc :: "nat \<Rightarrow> bool"
  de_batchKB :: int
  de_pad :: "u8 \<times> u8"
  de_room :: "nat option"

definition tape_file :: "direction_env \<Rightarrow> 'f AudioTape \<Rightarrow> string" where
  "tape_file env t = de_outputPath env @ ''/'' @ GetFilename t"

definition disk_rename :: "string \<Rightarrow> string \<Rightarrow> disk \<Rightarrow> disk" where
  "disk_rename a b fs = (case fs a of None \<Rightarrow> fs | Some x \<Rightarrow> fs(a := None, b := Some x))"

definition disk_read :: "string \<Rightarrow> disk \<Rightarrow> (u8 list \<times> nat) option" where
  "disk_read a fs = map_option (\<lambda>x. (x, 0)) (fs a)"

text \<open>
  The end of the work on a tape that failed: the \<open>catch\<close> block closes the recording, and the file
  being written is closed by its destructor. The tape is not passed on.
\<close>

definition selection_failed ::
    "direction_env \<Rightarrow> MediaChunkFile AudioTape \<Rightarrow> MediaChunkFile \<Rightarrow> MediaChunkFile \<Rightarrow> disk \<Rightarrow>
     (bool \<times> MediaChunkFile AudioTape \<times> disk) outcome" where
  "selection_failed env t src dst fs =
     and_then (Mcf_Close (de_pad env) src) (\<lambda>src1.
     and_then (Mcf_Close (de_pad env) dst) (\<lambda>dst1.
       Done (False, t\<lparr>tp_audioFile := Some src1\<rparr>,
         if ms_open (mf_stream dst) then fs(mf_filename dst1 := Some (ms_bytes (mf_stream dst1)))
         else fs)))"

definition selection_done ::
    "direction_env \<Rightarrow> MediaChunkFile AudioTape \<Rightarrow> string \<Rightarrow> string \<Rightarrow> MediaChunkFile \<Rightarrow>
     MediaChunkFile \<Rightarrow> disk \<Rightarrow> (bool \<times> MediaChunkFile AudioTape \<times> disk) outcome" where
  "selection_done env t orig tmp src dst fs =
     and_then (Mcf_Close (de_pad env) dst) (\<lambda>dst1.
     let fs1 = fs(mf_filename dst1 := Some (ms_bytes (mf_stream dst1)));
         fs2 = fs1(tmp := None)
     in and_then (Mcf_Close (de_pad env) src) (\<lambda>src1.
       Done (True, t\<lparr>tp_fileExtension := ''.mcf'',
           tp_audioFile := Some (src1\<lparr>mf_filename := orig\<rparr>)\<rparr>, fs2)))"

definition selection_end ::
    "direction_env \<Rightarrow> MediaChunkFile AudioTape \<Rightarrow> string \<Rightarrow> string \<Rightarrow> disk \<Rightarrow> filter_end option \<Rightarrow>
     (bool \<times> MediaChunkFile AudioTape \<times> disk) outcome option" where
  "selection_end env t orig tmp fs r =
     map_option (\<lambda>r. and_then r (\<lambda>(src, dst, thrown).
       if thrown then selection_failed env t src dst fs
       else selection_done env t orig tmp src dst fs)) r"

text \<open>
  The work of \<open>ThreadHandler\<close> on one tape: whether the tape is passed to the next processor, the
  tape and the disk afterwards.
\<close>

definition select_direction ::
    "direction_env \<Rightarrow> MediaChunkFile AudioTape \<Rightarrow> disk \<Rightarrow>
     (bool \<times> MediaChunkFile AudioTape \<times> disk) outcome option" where
  "select_direction env t0 fs0 =
     (let t1 = t0\<lparr>tp_marks := mark_default_side (de_codes env) (tp_remoteParty t0) (tp_marks t0),
                 tp_fileExtension := ''.mcf''\<rparr>;
          orig = tape_file env t1;
          origWoExt = de_outputPath env @ ''/'' @ tp_filePath t1 @ GetIdentifier t1;
          t2 = t1\<lparr>tp_fileExtension := ''.tmp''\<rparr>;
          tmp = tape_file env t2;
          fs1 = disk_rename orig tmp fs0
      in case tp_audioFile t2 of
          None \<Rightarrow> Some Undefined
        | Some f \<Rightarrow>
            let (src, failed) = Mcf_Open tmp False 8000 (disk_read tmp fs1) (f\<lparr>mf_filename := tmp\<rparr>)
            in if failed then Some (selection_failed env t2 src MediaChunkFile_new fs1)
               else
                 let (dst, dst_failed) =
                       Mcf_Open origWoExt True 8000 (map_option (\<lambda>r. ([], r)) (de_room env))
                         MediaChunkFile_new
                 in if dst_failed then Some (selection_failed env t2 src dst fs1)
                 else selection_end env t2 orig tmp fs1
                   (filter_loop (de_alloc env) (de_batchKB env) (de_pad env)
                      (tp_localSide t2) (tp_marks t2) src dst))"

section \<open>The order of the processors\<close>

text \<open>The processors that the names of the setting stand for, and what follows one in a list.\<close>

definition found_processors :: "tape_chain \<Rightarrow> string list \<Rightarrow> string list" where
  "found_processors t names = List.map_filter (\<lambda>n. GetNewTapeProcessor n t) names"

definition nxt :: "string list \<Rightarrow> string \<Rightarrow> string option" where
  "nxt xs = map_of (rev (zip xs (tl xs)))"

lemma nxt_short [simp]: "nxt [] p = None" "nxt [x] p = None"
  by (simp_all add: nxt_def)

lemma nxt_Cons2: "nxt (x # y # zs) p =
    (case nxt (y # zs) p of Some q \<Rightarrow> Some q | None \<Rightarrow> if p = x then Some y else None)"
  by (simp add: nxt_def map_add_def split: option.split)

lemma nxt_outside: "p \<notin> set (butlast xs) \<Longrightarrow> nxt xs p = None"
proof (induction xs rule: induct_list012)
  case (3 x y zs)
  then show ?case by (simp add: nxt_Cons2 split: if_splits)
qed simp_all

lemma nxt_inside: "p \<in> set (butlast xs) \<Longrightarrow> \<exists>q \<in> set xs. nxt xs p = Some q"
proof (induction xs rule: induct_list012)
  case (3 x y zs)
  have b: "butlast (x # y # zs) = x # butlast (y # zs)" by simp
  show ?case
  proof (cases "p \<in> set (butlast (y # zs))")
    case True
    from "3.IH"(2) [OF this] show ?thesis by (auto simp: nxt_Cons2)
  next
    case False
    with "3.prems" have "p = x" unfolding b by simp
    with nxt_outside [OF False] show ?thesis by (simp add: nxt_Cons2)
  qed
qed simp_all

lemma nxt_distinct:
  "distinct (ys @ p # zs) \<Longrightarrow> nxt (ys @ p # zs) p = (case zs of [] \<Rightarrow> None | z # _ \<Rightarrow> Some z)"
proof (induction ys)
  case Nil
  then have "nxt zs p = None" by (intro nxt_outside) (auto dest: in_set_butlastD)
  then show ?case by (cases zs) (simp_all add: nxt_Cons2)
next
  case (Cons y ys)
  obtain w ws where w: "ys @ p # zs = w # ws" by (cases ys) auto
  have "nxt (w # ws) p = (case zs of [] \<Rightarrow> None | z # _ \<Rightarrow> Some z)" using Cons by (simp flip: w)
  moreover have "p \<noteq> y" using Cons.prems by auto
  ultimately show ?case by (simp add: w nxt_Cons2 split: list.split)
qed

lemma nxt_later:
  "last xs \<notin> set (butlast xs) \<Longrightarrow> p \<in> set (drop i xs) \<Longrightarrow> nxt xs p = Some q \<Longrightarrow>
    q \<in> set (drop (Suc i) xs)"
proof (induction xs arbitrary: i rule: induct_list012)
  case (3 x y zs)
  have tail: "last (y # zs) \<notin> set (butlast (y # zs))" using "3.prems"(1) by auto
  show ?case
  proof (cases i)
    case 0
    show ?thesis
    proof (cases "nxt (y # zs) p")
      case None
      with "3.prems"(3) 0 show ?thesis by (simp add: nxt_Cons2 split: if_splits)
    next
      case (Some r)
      then have "p \<in> set (butlast (y # zs))" using nxt_outside by fastforce
      then have "p \<in> set (drop 0 (y # zs))" using in_set_butlastD by fastforce
      from "3.IH"(2) [OF tail this] Some "3.prems"(3) 0 show ?thesis by (auto simp: nxt_Cons2)
    qed
  next
    case (Suc j)
    then have p: "p \<in> set (drop j (y # zs))" using "3.prems"(2) by simp
    have "nxt (y # zs) p = Some q"
    proof (cases "nxt (y # zs) p")
      case None
      with nxt_inside [of p "y # zs"] have "p \<notin> set (butlast (y # zs))" by auto
      moreover have "p \<in> set (y # zs)" using p in_set_dropD by fast
      ultimately have "p = last (y # zs)"
        by (metis append_butlast_last_id in_set_conv_decomp in_set_conv_nth list.distinct(1)
            set_ConsD Un_iff set_append empty_iff empty_set)
      moreover have "p = x" using None "3.prems"(3) by (simp add: nxt_Cons2 split: if_splits)
      ultimately show ?thesis using "3.prems"(1) by auto
    qed (use "3.prems"(3) in \<open>simp add: nxt_Cons2\<close>)
    from "3.IH"(2) [OF tail p this] Suc show ?thesis by simp
  qed
qed simp_all

lemma chain_loop_result:
  "let t' = chain_loop names prev t; xs = found_processors t names;
       ps = (case prev of None \<Rightarrow> xs | Some q \<Rightarrow> q # xs)
   in tc_registered t' = tc_registered t \<and>
      tc_first t' = (case tc_first t of Some f \<Rightarrow> Some f | None \<Rightarrow> (case xs of [] \<Rightarrow> None | x # _ \<Rightarrow> Some x)) \<and>
      tc_next t' = (\<lambda>p. case nxt ps p of Some q \<Rightarrow> Some q | None \<Rightarrow> tc_next t p)"
proof (induction names prev t rule: chain_loop.induct)
  case (1 prev t)
  then show ?case
    by (auto simp: found_processors_def map_filter_simps split: option.split)
next
  case (2 n ns prev t)
  show ?case
  proof (cases "GetNewTapeProcessor n t")
    case None
    with "2.IH"(1) show ?thesis by (simp add: found_processors_def map_filter_simps)
  next
    case (Some p)
    let ?t1 = "if tc_first t = None then t\<lparr>tc_first := Some p\<rparr> else t"
    let ?t2 = "case prev of Some q \<Rightarrow> SetNextProcessor q p ?t1 | None \<Rightarrow> ?t1"
    have reg: "tc_registered ?t2 = tc_registered t"
      "tc_first ?t2 = (case tc_first t of None \<Rightarrow> Some p | Some f \<Rightarrow> Some f)"
      "tc_next ?t2 = (case prev of None \<Rightarrow> tc_next t | Some q \<Rightarrow> (tc_next t)(q := Some p))"
      by (auto simp: SetNextProcessor_def split: option.split)
    have same: "found_processors ?t2 ns = found_processors t ns"
      by (simp only: found_processors_def GetNewTapeProcessor_def reg)
    have found: "found_processors t (n # ns) = p # found_processors t ns"
      using Some by (simp add: found_processors_def map_filter_simps)
    show ?thesis
      using "2.IH"(2) [OF Some refl refl]
      by (auto simp: Some Let_def same reg(1,2) found nxt_Cons2 fun_eq_iff SetNextProcessor_def
          split: option.split)
  qed
qed

lemma chain_created:
  assumes "tc_first t = None" "tc_next t = (\<lambda>_. None)"
  shows "tc_first (CreateProcessingChain names t) =
      (case found_processors t names of [] \<Rightarrow> None | x # _ \<Rightarrow> Some x)"
    "tc_next (CreateProcessingChain names t) = nxt (found_processors t names)"
  using chain_loop_result [of names None t] assms
  by (auto simp: CreateProcessingChain_def Let_def split: option.split)

lemma RunNextProcessor_recorded:
  "RunNextProcessor t False m p = Some (tc_next t p)"
  by (subst RunNextProcessor.simps) (simp split: option.split)

text \<open>The tapes that skip command processing, and the processors that they are given to.\<close>

definition skipping :: "bool \<Rightarrow> MediaTypeEnum \<Rightarrow> string list \<Rightarrow> string list" where
  "skipping external media ps =
     (if external \<and> media \<noteq> AudioType \<and> media \<noteq> VideoType
      then filter (\<lambda>p. \<not> ci_eq p ''CommandProcessing'') ps else ps)"

lemma RunNextProcessor_chain:
  "tc_next t = nxt (ys @ p # zs) \<Longrightarrow> distinct (ys @ p # zs) \<Longrightarrow>
    RunNextProcessor t e m p = Some (case skipping e m zs of [] \<Rightarrow> None | z # _ \<Rightarrow> Some z)"
proof (induction zs arbitrary: ys p)
  case Nil
  then show ?case
    by (subst RunNextProcessor.simps) (simp add: nxt_distinct skipping_def)
next
  case (Cons z zs)
  have nx: "tc_next t p = Some z" using Cons.prems nxt_distinct [of ys p "z # zs"] by simp
  have "RunNextProcessor t e m z = Some (case skipping e m zs of [] \<Rightarrow> None | z # _ \<Rightarrow> Some z)"
    using Cons.IH [of "ys @ [p]" z] Cons.prems by simp
  with nx show ?case by (subst RunNextProcessor.simps) (auto simp: skipping_def)
qed

lemma visits_chain:
  "tc_next t = nxt (ys @ zs) \<Longrightarrow> distinct (ys @ zs) \<Longrightarrow>
    visits_from n t e m (Some (case skipping e m zs of [] \<Rightarrow> None | z # _ \<Rightarrow> Some z)) =
      take n (skipping e m zs)"
proof (induction zs arbitrary: ys n)
  case Nil
  then show ?case by (cases n) (simp_all add: skipping_def)
next
  case (Cons z zs)
  have IH: "visits_from k t e m (Some (case skipping e m zs of [] \<Rightarrow> None | z # _ \<Rightarrow> Some z)) =
      take k (skipping e m zs)" for k
    using Cons.IH [of "ys @ [z]"] Cons.prems by simp
  show ?case
  proof (cases "e \<and> m \<noteq> AudioType \<and> m \<noteq> VideoType \<and> ci_eq z ''CommandProcessing''")
    case True
    then have "skipping e m (z # zs) = skipping e m zs" by (simp add: skipping_def)
    then show ?thesis using IH by simp
  next
    case False
    then have "skipping e m (z # zs) = z # skipping e m zs" by (auto simp: skipping_def)
    then show ?thesis
      using IH RunNextProcessor_chain [OF Cons.prems, of e m] by (cases n) simp_all
  qed
qed

text \<open>
  C27. The processors work on a tape in the order of the setting. When no processor is named twice,
  a recorded tape goes through the registered processors among the names, in order, each once. An
  imported tape is given up unless the first processor is batch processing, which it skips; an
  imported tape that is neither audio nor video skips command processing as well.
\<close>

theorem processing_chain_order:
  assumes "tc_first t = None" "tc_next t = (\<lambda>_. None)" "distinct (found_processors t names)"
  shows "visits n (CreateProcessingChain names t) external media =
    take n (case found_processors t names of
        [] \<Rightarrow> []
      | p # ps \<Rightarrow>
          if \<not> external then p # ps
          else if ci_eq p ''BatchProcessing'' then skipping True media ps else [])"
proof (cases "found_processors t names")
  case Nil
  then show ?thesis
    using chain_created [OF assms(1,2), of names]
    by (simp add: visits_def RunProcessingChain_def)
next
  case (Cons p ps)
  note c = chain_created [OF assms(1,2), of names, unfolded Cons]
  have d: "distinct ([] @ p # ps)" using assms(3) Cons by simp
  have n: "tc_next (CreateProcessingChain names t) = nxt ([] @ p # ps)" using c(2) by simp
  have rec: "visits_from n (CreateProcessingChain names t) False media (Some (Some p)) = take n (p # ps)"
    using visits_chain [OF n d, of n False media] by (simp add: skipping_def)
  have imp: "RunNextProcessor (CreateProcessingChain names t) True media p =
      Some (case skipping True media ps of [] \<Rightarrow> None | z # _ \<Rightarrow> Some z)"
    by (rule RunNextProcessor_chain [OF n d])
  have rest: "visits_from n (CreateProcessingChain names t) True media
      (Some (case skipping True media ps of [] \<Rightarrow> None | z # _ \<Rightarrow> Some z)) = take n (skipping True media ps)"
    using visits_chain [of _ "[p]" ps n True media] n d by simp
  show ?thesis
    using c(1) rec imp rest Cons
    by (cases external) (simp_all add: visits_def RunProcessingChain_def)
qed

definition example_chain :: tape_chain where
  "example_chain = RegisterTapeProcessor ''Reporting'' (RegisterTapeProcessor ''CommandProcessing''
     (RegisterTapeProcessor ''BatchProcessing'' TapeProcessorRegistry_new))"

lemmas chain_eval = example_chain_def RegisterTapeProcessor_def TapeProcessorRegistry_new_def
  found_processors_def GetNewTapeProcessor_def map_filter_simps skipping_def

lemma upper_letters: "to_lower CHR ''B'' = CHR ''b''" "to_lower CHR ''P'' = CHR ''p''"
  by code_simp+

theorem processing_chain_order_witness:
  "visits 9 (CreateProcessingChain [''batchprocessing'', ''Unknown'', ''CommandProcessing'', ''Reporting'']
      example_chain) True InstantMessageType = [''Reporting'']"
proof -
  have "found_processors example_chain [''batchprocessing'', ''Unknown'', ''CommandProcessing'', ''Reporting'']
      = [''BatchProcessing'', ''CommandProcessing'', ''Reporting'']"
    by (simp add: chain_eval ci_literal upper_letters)
  with processing_chain_order [of example_chain
      "[''batchprocessing'', ''Unknown'', ''CommandProcessing'', ''Reporting'']" 9 True InstantMessageType]
  show ?thesis by (simp add: skipping_def ci_literal) (simp add: chain_eval)
qed

text \<open>
  A tape that was recorded comes to the end of the chain exactly when the last processor of the
  setting is not named before: otherwise the tape goes round for ever.
\<close>

theorem processing_chain_ends:
  assumes "tc_first t = None" "tc_next t = (\<lambda>_. None)" "found_processors t names \<noteq> []"
  shows "(\<exists>n. length (visits n (CreateProcessingChain names t) False media) < n) \<longleftrightarrow>
    last (found_processors t names) \<notin> set (butlast (found_processors t names))"
proof -
  let ?xs = "found_processors t names" and ?t = "CreateProcessingChain names t"
  note c = chain_created [OF assms(1,2), of names]
  have start: "visits n ?t False media = visits_from n ?t False media (Some (Some (hd ?xs)))" for n
    using c(1) assms(3) by (simp add: visits_def RunProcessingChain_def split: list.split)
  have forever: "length (visits_from n ?t False media (Some (Some p))) = n"
    if "last ?xs \<in> set (butlast ?xs)" "p \<in> set ?xs" for n p
    using that(2)
  proof (induction n arbitrary: p)
    case (Suc n)
    have "p \<in> set (butlast ?xs @ [last ?xs])" using Suc.prems assms(3) by simp
    then have "p \<in> set (butlast ?xs)" using that(1) by auto
    from nxt_inside [OF this] Suc.IH show ?case by (auto simp: RunNextProcessor_recorded c(2))
  qed simp
  have ends: "length (visits_from n ?t False media (Some (Some p))) \<le> length ?xs - i"
    if "last ?xs \<notin> set (butlast ?xs)" "p \<in> set (drop i ?xs)" for n i p
    using that(2)
  proof (induction n arbitrary: i p)
    case (Suc n)
    have i: "i < length ?xs" using Suc.prems by (cases "i < length ?xs") auto
    show ?case
    proof (cases "nxt ?xs p")
      case None
      with i show ?thesis by (cases n) (simp_all add: RunNextProcessor_recorded c(2))
    next
      case (Some q)
      from Suc.IH [OF nxt_later [OF that(1) Suc.prems Some]] i Some show ?thesis
        by (simp add: RunNextProcessor_recorded c(2))
    qed
  qed simp
  have hd: "hd ?xs \<in> set (drop 0 ?xs)" using assms(3) by simp
  show ?thesis
    using forever [of "hd ?xs"] ends [OF _ hd, of "Suc (length ?xs)"] hd
    by (auto simp: start intro: exI [of _ "Suc (length ?xs)"])
qed

theorem processing_chain_ends_witness:
  "\<nexists>n. length (visits n (CreateProcessingChain [''Reporting'', ''BatchProcessing'', ''Reporting'']
      example_chain) False AudioType) < n"
proof -
  have "found_processors example_chain [''Reporting'', ''BatchProcessing'', ''Reporting'']
      = [''Reporting'', ''BatchProcessing'', ''Reporting'']"
    by (simp add: chain_eval ci_literal)
  with processing_chain_ends [of example_chain "[''Reporting'', ''BatchProcessing'', ''Reporting'']" AudioType]
  show ?thesis by (simp add: chain_eval)
qed

section \<open>The table of area codes\<close>

definition code_table :: "(string \<times> string) list \<Rightarrow> bool" where
  "code_table m \<longleftrightarrow> sorted_wrt str_less (map fst m) \<and> list_all (\<lambda>(k, _). StringIsPhoneNumber k) m"

lemma omap_insert_members:
  "list_all P m \<Longrightarrow> P (k, v) \<Longrightarrow> list_all P (omap_insert lt k v m)"
  by (induction lt k v m rule: omap_insert.induct) auto

lemma omap_insert_table:
  "code_table m \<Longrightarrow> StringIsPhoneNumber k \<Longrightarrow> code_table (omap_insert str_less k v m)"
  unfolding code_table_def
  by (auto intro!: omap_insert_members omap_insert_sorted intro: str_less_trans str_less_total)

lemma area_loop_table: "code_table m \<Longrightarrow> code_table (area_loop s m)"
proof (induction s m rule: area_loop.induct)
  case (1 s m)
  have "code_table (map_line (fst (fgets 1023 s)) m)"
    using "1.prems" by (auto simp: map_line_def ProcessAreaCodesMap_def Let_def
        intro: omap_insert_table split: option.split)
  with "1.IH" "1.prems" show ?case by (subst area_loop.simps) simp
qed

lemma find_str_0: "find_str p s = Some 0 \<longleftrightarrow> starts_with p s"
  by (cases s) (auto simp: starts_with_iff)

lemma find_side_table:
  "code_table m \<Longrightarrow> find_side m remote = Some side \<longleftrightarrow>
    (\<exists>code. (code, side) \<in> set m \<and> starts_with code remote \<and>
       (\<forall>(code', side') \<in> set m. starts_with code' remote \<longrightarrow> length code \<le> length code'))"
proof (induction m remote rule: find_side.induct)
  case (2 code0 side0 m remote)
  have m: "code_table m" "\<forall>(k, v) \<in> set m. str_less code0 k"
    using "2.prems" by (auto simp: code_table_def)
  show ?case
  proof (cases "starts_with code0 remote")
    case False
    with "2.IH" m(1) show ?thesis by (auto simp: find_str_0)
  next
    case True
    then obtain u where u: "remote = code0 @ u" by (auto simp: starts_with_iff)
    have longer: "length code0 < length k" if "(k, v) \<in> set m" "starts_with k remote" for k v
    proof (rule ccontr)
      assume "\<not> length code0 < length k"
      with that(2) obtain w where w: "code0 = k @ w" unfolding u starts_with_iff
        by (metis append_eq_append_conv_if append_take_drop_id linorder_not_less)
      from m(2) that(1) have less: "str_less code0 k" by auto
      show False
      proof (cases "w = []")
        case False
        from str_less_trans [OF less str_less_prefix [OF this, of k]] w str_less_irrefl show False by simp
      qed (use less w str_less_irrefl in simp)
    qed
    from True show ?thesis
      by (auto simp: find_str_0 dest!: longer)
  qed
qed simp

text \<open>
  The side that is kept by default: of the area codes read from the file that the remote party
  begins with, the shortest decides, whatever the order of the lines; and every code in the table is
  a phone number.
\<close>

theorem area_code_choice:
  "(find_side (LoadAreaCodesMap local_file etc_file []) remote = Some side \<longleftrightarrow>
    (\<exists>code. (code, side) \<in> set (LoadAreaCodesMap local_file etc_file []) \<and> starts_with code remote \<and>
       (\<forall>(code', side') \<in> set (LoadAreaCodesMap local_file etc_file []).
          starts_with code' remote \<longrightarrow> length code \<le> length code'))) \<and>
   list_all (\<lambda>(k, _). StringIsPhoneNumber k) (LoadAreaCodesMap local_file etc_file [])"
proof -
  have "code_table (LoadAreaCodesMap local_file etc_file [])"
    by (auto simp: LoadAreaCodesMap_def code_table_def [of "[]"] intro: area_loop_table split: option.split)
  from find_side_table [OF this] this show ?thesis by (simp add: code_table_def)
qed

theorem area_code_choice_witness:
  "find_side (LoadAreaCodesMap None (Some (''212:remote'' @ LF # ''2:local'' @ LF # ''33:both'')) []) ''2125551234''
    = Some ''local''"
proof -
  let ?f = "Some (''212:remote'' @ LF # ''2:local'' @ LF # ''33:both'')"
  have "LoadAreaCodesMap None ?f [] = [(''2'', ''local''), (''212'', ''remote''), (''33'', ''both'')]"
    by code_simp
  with area_code_choice [of None ?f "''2125551234''" "''local''"] show ?thesis by auto
qed

lemma trim_no_space: "list_all (\<lambda>c. \<not> is_space c) s \<Longrightarrow> trim s = s"
  using hd_in_set [of s] last_in_set [of s]
  by (cases "s = []") (auto simp: trim_def trim_left_id trim_right_id list_all_iff)

lemma keep_name_no_space:
  assumes "AudioKeepDirectionToEnum s \<noteq> AudioKeepDirectionInvalid" "NUL \<notin> set s"
  shows "trim s = s"
proof (rule trim_no_space)
  have "map to_lower s \<in> {''both'', ''local'', ''remote'', ''none''}"
    using assms by (simp add: AudioKeepDirectionToEnum_def ci_eq_def c_str_id split: if_splits)
      (simp_all add: c_str_def lower_letters)
  moreover have "list_all (\<lambda>c. \<not> is_space c) n" if "n \<in> {''both'', ''local'', ''remote'', ''none''}" for n
    using that by (auto simp: is_space_def)
  ultimately have "list_all (\<lambda>c. \<not> is_space (to_lower c)) s" by (fastforce simp: list_all_iff)
  moreover have "is_space c \<Longrightarrow> is_space (to_lower c)" for c
    by (auto simp: is_space_def to_lower_def is_upper_def)
  ultimately show "list_all (\<lambda>c. \<not> is_space c) s" by (auto simp: list_all_iff)
qed

lemma phone_number_chars:
  "StringIsPhoneNumber s \<Longrightarrow> CHR '':'' \<notin> set s \<and> trim s = s"
proof -
  assume p: "StringIsPhoneNumber s"
  have "\<not> is_space c" if "c \<in> set s" for c
  proof -
    from p that have "is_digit c \<or> c \<in> set ''-*#()''" by (simp add: StringIsPhoneNumber_def list_all_iff)
    then show ?thesis by (elim disjE) (simp add: is_digit_def is_space_def, auto simp: is_space_def)
  qed
  then have "trim s = s" by (intro trim_no_space) (simp add: list_all_iff)
  moreover have "CHR '':'' \<notin> set s"
    using p by (auto simp: StringIsPhoneNumber_def list_all_iff is_digit_def dest!: bspec)
  ultimately show ?thesis by blast
qed

lemma find_char_append: "c \<notin> set s \<Longrightarrow> find_char c (s @ c # t) = Some (length s)"
  by (induction s) auto

text \<open>
  A kept side that is written with blanks around it, or that is read from a file with CR LF line
  ends, passes the check of the line, which trims it, but is stored untrimmed and means no side
  later: the line takes effect, and nothing is silenced.
\<close>

theorem area_side_untrimmed:
  assumes "StringIsPhoneNumber code" "NUL \<notin> set side" "trim side \<noteq> side"
    "AudioKeepDirectionToEnum (trim side) \<noteq> AudioKeepDirectionInvalid"
  shows "ProcessAreaCodesMap (code @ CHR '':'' # side) [] = [(code, side)] \<and>
    marks_loop ls (mark_default_side [(code, side)] (code @ rest) []) d c = Done c"
proof -
  have keep: "AudioKeepDirectionToEnum side = AudioKeepDirectionInvalid"
    using keep_name_no_space [OF _ assms(2)] assms(3) by blast
  have "find_str code (code @ rest) = Some 0" by (simp add: find_str_0 starts_with_iff)
  then show ?thesis
    using assms phone_number_chars [OF assms(1)]
    by (simp add: ProcessAreaCodesMap_def find_char_append mark_default_side_def default_mark_def
        keep mark_blanks_def)
qed

theorem area_side_untrimmed_witness:
  "ProcessAreaCodesMap (''212'' @ CHR '':'' # '' local'') [] = [(''212'', '' local'')] \<and>
    marks_loop LocalSideSide1 (mark_default_side [(''212'', '' local'')] (''212'' @ ''5551234'') [])
      (AudioChunkDetails_Clear\<lparr>cd_channel := 2, cd_arrivalTimestamp := 5\<rparr>) AudioChunk_new = Done AudioChunk_new"
  by (rule area_side_untrimmed) code_simp+

section \<open>The rewritten recording\<close>

text \<open>
  What one chunk becomes: the same, or silence, when a mark (with a time) that holds at its arrival
  keeps the other side.
\<close>

definition local_channel :: "LocalSideEnum \<Rightarrow> u8 option" where
  "local_channel ls =
     (if ls = LocalSideSide1 then Some 1 else if ls = LocalSideSide2 then Some 2 else None)"

definition silent_channel :: "LocalSideEnum \<Rightarrow> AudioKeepDirectionEnum \<Rightarrow> u8 option" where
  "silent_channel ls keep =
     (if keep = AudioKeepDirectionLocal then map_option (\<lambda>n. 3 - n) (local_channel ls)
      else if keep = AudioKeepDirectionRemote then local_channel ls else None)"

definition holds_at :: "int \<Rightarrow> AudioDirectionMarks \<Rightarrow> bool" where
  "holds_at now k \<longleftrightarrow> adm_timestamp k \<noteq> 0 \<and> adm_timestamp k \<le> now \<and>
     (adm_nextTimestampMark k \<noteq> 0 \<longrightarrow> now < adm_nextTimestampMark k)"

definition filtered :: "LocalSideEnum \<Rightarrow> AudioDirectionMarks list \<Rightarrow> AudioChunk \<Rightarrow> AudioChunk" where
  "filtered ls marks c =
     (if \<exists>k \<in> set marks. holds_at (uint (cd_arrivalTimestamp (ac_details c))) k \<and>
           silent_channel ls (adm_keep k) = Some (cd_channel (ac_details c))
      then c\<lparr>ac_buffer := Some (replicate (unat (cd_numBytes (ac_details c))) 0)\<rparr> else c)"

lemma blanking_spec:
  "adm_timestamp k \<noteq> 0 \<and> mark_covers k d \<and> mark_blanks ls (adm_keep k) (cd_channel d) \<longleftrightarrow>
    holds_at (uint (cd_arrivalTimestamp d)) k \<and> silent_channel ls (adm_keep k) = Some (cd_channel d)"
  by (auto simp: mark_covers_def mark_blanks_def holds_at_def silent_channel_def local_channel_def)

lemma same_buffer [simp]: "ac_buffer c = Some b \<Longrightarrow> c\<lparr>ac_buffer := Some b\<rparr> = (c :: AudioChunk)"
  by (cases c) simp

lemma marks_loop_blank:
  "ac_buffer c = Some (replicate (unat (cd_numBytes d)) 0) \<Longrightarrow> marks_loop ls marks d c = Done c"
  by (induction marks) (simp_all add: blank_chunk_def Let_def)

lemma marks_loop_filtered:
  "ac_buffer c = Some b \<Longrightarrow> length b = unat (cd_numBytes (ac_details c)) \<Longrightarrow>
    marks_loop ls marks (ac_details c) c = Done (filtered ls marks c)"
proof (induction marks)
  case Nil
  then show ?case by (simp add: filtered_def)
next
  case (Cons k ks)
  let ?hit = "\<lambda>k. holds_at (uint (cd_arrivalTimestamp (ac_details c))) k \<and>
    silent_channel ls (adm_keep k) = Some (cd_channel (ac_details c))"
  show ?case
  proof (cases "?hit k")
    case True
    then show ?thesis
      using Cons.prems blanking_spec [of k "ac_details c" ls]
      by (simp add: filtered_def blank_chunk_def Let_def marks_loop_blank)
  next
    case False
    then have "filtered ls (k # ks) c = filtered ls ks c" by (simp only: filtered_def) auto
    with False Cons show ?thesis using blanking_spec [of k "ac_details c" ls] by auto
  qed
qed

lemma filtered_storable: "readable c \<Longrightarrow> storable (filtered ls marks (as_read c))"
  by (auto simp: filtered_def as_read_def readable_def storable_def)

lemma length_filtered:
  "readable c \<Longrightarrow> length (chunk_bytes pad (filtered ls marks (as_read c))) = length (chunk_bytes pad c)"
  by (auto simp: filtered_def as_read_def readable_def storable_def chunk_bytes_def)

lemma filtered_bytes:
  "chunk_bytes pad (filtered ls marks (as_read c)) = chunk_bytes pad (filtered ls marks c)"
  by (auto simp: filtered_def as_read_def chunk_bytes_def)

lemma WriteChunk_name: "Mcf_WriteChunk kb pad c f = Done (f', e) \<Longrightarrow> mf_filename f' = mf_filename f"
  by (auto simp: Mcf_WriteChunk_def FlushToDisk_def Let_def split: option.splits if_splits outcome.splits)

lemma ReadChunk_queue: "Mcf_ReadChunkMono alloc f = Done (n, c, f') \<Longrightarrow> mf_queue f' = mf_queue f"
  by (auto simp: Mcf_ReadChunkMono_def Let_def split: if_splits prod.splits outcome.splits)

lemma filter_round_chunk:
  assumes "reading (chunk_bytes pad c @ rest) src" "readable c" "allocates alloc"
    "writable pad (length (chunk_bytes pad c) + n) dst"
  shows "\<exists>src1 dst1. filter_round alloc kb pad ls marks src dst = Inr (src1, dst1) \<and>
    reading rest src1 \<and> mf_queue src1 = mf_queue src \<and> writable pad n dst1 \<and>
    mf_filename dst1 = mf_filename dst \<and>
    disk_image pad dst1 = disk_image pad dst @ chunk_bytes pad (filtered ls marks c)"
proof -
  obtain src1 where src1: "Mcf_ReadChunkMono alloc src = Done (32, as_read c, src1)" "reading rest src1"
    using ReadChunk_next [OF assms(1-3)] by blast
  from assms(2) obtain b where "ac_buffer c = Some b" "length b = unat (cd_numBytes (ac_details c))"
    by (auto simp: readable_def storable_def)
  then have m: "marks_loop ls marks (ac_details (as_read c)) (as_read c) =
      Done (filtered ls marks (as_read c))"
    by (intro marks_loop_filtered) (simp_all add: as_read_def)
  obtain dst1 where dst1: "Mcf_WriteChunk kb pad (Some (filtered ls marks (as_read c))) dst = Done (dst1, False)"
    "writable pad n dst1"
    "disk_image pad dst1 = disk_image pad dst @ chunk_bytes pad (filtered ls marks (as_read c))"
    using WriteChunk_room [OF _ filtered_storable [OF assms(2)], of pad ls marks n dst kb] assms(4)
    by (auto simp: length_filtered [OF assms(2)])
  show ?thesis
    using src1 m dst1 ReadChunk_queue [OF src1(1)] WriteChunk_name [OF dst1(1)]
    by (simp add: filter_round_def filtered_bytes)
qed

lemma filter_loop_chunks:
  "reading (chunks_bytes pad cs @ rest) src \<Longrightarrow> list_all readable cs \<Longrightarrow> allocates alloc \<Longrightarrow>
    writable pad (length (chunks_bytes pad cs)) dst \<Longrightarrow>
    \<exists>src1 dst1. filter_loop alloc kb pad ls marks src dst = filter_loop alloc kb pad ls marks src1 dst1 \<and>
      reading rest src1 \<and> mf_queue src1 = mf_queue src \<and> writable pad 0 dst1 \<and>
      mf_filename dst1 = mf_filename dst \<and>
      disk_image pad dst1 = disk_image pad dst @ chunks_bytes pad (map (filtered ls marks) cs)"
proof (induction cs arbitrary: src dst)
  case Nil
  then show ?case by auto
next
  case (Cons c cs)
  have r: "reading (chunk_bytes pad c @ (chunks_bytes pad cs @ rest)) src"
    and w: "writable pad (length (chunk_bytes pad c) + length (chunks_bytes pad cs)) dst"
    and c: "readable c" and cs: "list_all readable cs"
    using Cons.prems by simp_all
  obtain src1 dst1 where round: "filter_round alloc kb pad ls marks src dst = Inr (src1, dst1)"
    "reading (chunks_bytes pad cs @ rest) src1" "mf_queue src1 = mf_queue src"
    "writable pad (length (chunks_bytes pad cs)) dst1" "mf_filename dst1 = mf_filename dst"
    "disk_image pad dst1 = disk_image pad dst @ chunk_bytes pad (filtered ls marks c)"
    using filter_round_chunk [OF r c Cons.prems(3) w, of kb ls marks] by blast
  have "filter_loop alloc kb pad ls marks src dst = filter_loop alloc kb pad ls marks src1 dst1"
    by (subst filter_loop.simps) (simp add: round(1))
  with Cons.IH [OF round(2) cs Cons.prems(3) round(4)] round show ?case by auto
qed

text \<open>The loop to the end of the file, and to a chunk that is too big to be read.\<close>

lemma filter_loop_end:
  assumes "reading (chunks_bytes pad cs) src" "list_all readable cs" "allocates alloc"
    "writable pad (length (chunks_bytes pad cs)) dst"
  shows "\<exists>src1 dst1. filter_loop alloc kb pad ls marks src dst = Some (Done (src1, dst1, False)) \<and>
      mf_queue src1 = mf_queue src \<and> writable pad 0 dst1 \<and> mf_filename dst1 = mf_filename dst \<and>
      disk_image pad dst1 = disk_image pad dst @ chunks_bytes pad (map (filtered ls marks) cs)"
proof -
  have r: "reading (chunks_bytes pad cs @ []) src" using assms(1) by simp
  obtain src1 dst1 where l: "filter_loop alloc kb pad ls marks src dst =
      filter_loop alloc kb pad ls marks src1 dst1"
    "reading [] src1" "mf_queue src1 = mf_queue src" "writable pad 0 dst1"
    "mf_filename dst1 = mf_filename dst"
    "disk_image pad dst1 = disk_image pad dst @ chunks_bytes pad (map (filtered ls marks) cs)"
    using filter_loop_chunks [OF r assms(2-4), of kb ls marks] by blast
  obtain src2 where "Mcf_ReadChunkMono alloc src1 = Done (0, AudioChunk_new, src2)"
    using ReadChunk_end [OF l(2), of alloc] by auto
  with l(3) ReadChunk_queue [OF this] have "filter_loop alloc kb pad ls marks src1 dst1 =
      Some (Done (src2, dst1, False)) \<and> mf_queue src2 = mf_queue src"
    by (subst filter_loop.simps) (simp add: filter_round_def)
  with l show ?thesis by auto
qed

lemma filter_loop_too_big:
  assumes "reading (chunks_bytes pad cs @ chunk_bytes pad big @ rest) src" "list_all readable cs"
    "cd_numBytes (ac_details big) \<ge> 100000" "allocates alloc"
    "writable pad (length (chunks_bytes pad cs)) dst"
  shows "\<exists>src1 dst1. filter_loop alloc kb pad ls marks src dst = Some (Done (src1, dst1, True)) \<and>
      mf_queue src1 = mf_queue src \<and> writable pad 0 dst1 \<and> mf_filename dst1 = mf_filename dst \<and>
      disk_image pad dst1 = disk_image pad dst @ chunks_bytes pad (map (filtered ls marks) cs)"
proof -
  obtain src1 dst1 where l: "filter_loop alloc kb pad ls marks src dst =
      filter_loop alloc kb pad ls marks src1 dst1"
    "reading (chunk_bytes pad big @ rest) src1" "mf_queue src1 = mf_queue src" "writable pad 0 dst1"
    "mf_filename dst1 = mf_filename dst"
    "disk_image pad dst1 = disk_image pad dst @ chunks_bytes pad (map (filtered ls marks) cs)"
    using filter_loop_chunks [OF assms(1,2,4,5), of kb ls marks] by blast
  have "filter_loop alloc kb pad ls marks src1 dst1 = Some (Done (src1, dst1, True))"
    by (subst filter_loop.simps) (simp add: filter_round_def ReadChunk_too_big [OF l(2) assms(3)])
  with l show ?thesis by auto
qed

text \<open>The name of a recording on the disk, and its name while it is rewritten.\<close>

definition recording_file :: "direction_env \<Rightarrow> 'f AudioTape \<Rightarrow> string" where
  "recording_file env t = de_outputPath env @ ''/'' @ tp_filePath t @ tp_fileIdentifier t @ ''.mcf''"

definition working_file :: "direction_env \<Rightarrow> 'f AudioTape \<Rightarrow> string" where
  "working_file env t = de_outputPath env @ ''/'' @ tp_filePath t @ tp_fileIdentifier t @ ''.tmp''"

lemma recording_not_working [simp]: "recording_file env t \<noteq> working_file env t"
  by (simp add: recording_file_def working_file_def)

definition tape_marks :: "direction_env \<Rightarrow> 'f AudioTape \<Rightarrow> AudioDirectionMarks list" where
  "tape_marks env t = mark_default_side (de_codes env) (tp_remoteParty t) (tp_marks t)"

text \<open>The recording of a stopped tape is on the disk and can be rewritten.\<close>

definition recorded_as ::
    "direction_env \<Rightarrow> MediaChunkFile AudioTape \<Rightarrow> u8 list \<Rightarrow> disk \<Rightarrow> bool" where
  "recorded_as env t bytes fs \<longleftrightarrow>
     fs (recording_file env t) = Some bytes \<and> NUL \<notin> set (de_outputPath env) \<and>
     (\<exists>f. tp_audioFile t = Some f \<and> \<not> ms_open (mf_stream f) \<and> mf_queue f = []) \<and>
     (\<exists>r. de_room env = Some r \<and> length bytes \<le> r) \<and> allocates (de_alloc env)"

lemma tape_file_names:
  "tape_file env (t\<lparr>tp_marks := m, tp_fileExtension := ''.mcf''\<rparr>) = recording_file env t"
  "tape_file env (t\<lparr>tp_marks := m, tp_fileExtension := ''.tmp''\<rparr>) = working_file env t"
  by (simp_all add: tape_file_def GetFilename_def recording_file_def working_file_def)

text \<open>What the files are opened with, and what is done with the result of the loop.\<close>

definition working_tape :: "direction_env \<Rightarrow> 'f AudioTape \<Rightarrow> 'f AudioTape" where
  "working_tape env t = t\<lparr>tp_marks := tape_marks env t, tp_fileExtension := ''.tmp''\<rparr>"

definition working_disk :: "direction_env \<Rightarrow> 'f AudioTape \<Rightarrow> u8 list \<Rightarrow> disk \<Rightarrow> disk" where
  "working_disk env t bytes fs = fs(recording_file env t := None, working_file env t := Some bytes)"

lemma Mcf_Open_read:
  "\<not> ms_open (mf_stream f) \<Longrightarrow>
    \<exists>src. Mcf_Open name False rate (Some (bytes, room)) f = (src, False) \<and> reading bytes src \<and>
      mf_queue src = mf_queue f"
  by (simp add: Mcf_Open_def reading_def ms_good_def Let_def)

lemma Mcf_Open_write:
  "\<not> ci_eq [] name \<Longrightarrow>
    \<exists>dst. Mcf_Open name True rate (Some ([], room)) MediaChunkFile_new = (dst, False) \<and>
      mf_filename dst = name @ ''.mcf''"
  by (simp add: Mcf_Open_def MediaChunkFile_new_def stream_closed_def Let_def)

lemma select_opened:
  assumes "recorded_as env t bytes fs"
  obtains src dst where "reading bytes src" "mf_queue src = []"
    "\<And>n. n \<le> length bytes \<Longrightarrow> writable (de_pad env) n dst" "disk_image (de_pad env) dst = []"
    "mf_filename dst = recording_file env t"
    "select_direction env t fs = selection_end env (working_tape env t) (recording_file env t)
       (working_file env t) (working_disk env t bytes fs)
       (filter_loop (de_alloc env) (de_batchKB env) (de_pad env) (tp_localSide t) (tape_marks env t) src dst)"
proof -
  obtain f r where f: "tp_audioFile t = Some f" "\<not> ms_open (mf_stream f)" "mf_queue f = []"
    and r: "de_room env = Some r" "length bytes \<le> r"
    using assms by (auto simp: recorded_as_def)
  define wo where "wo = de_outputPath env @ ''/'' @ tp_filePath t @ tp_fileIdentifier t"
  define new where "new = MediaChunkFile_new"
  have wo: "wo @ ''.mcf'' = recording_file env t" by (simp add: wo_def recording_file_def)
  have ne: "\<not> ci_eq [] wo"
    using assms by (cases "de_outputPath env") (auto simp: recorded_as_def ci_eq_def c_str_def wo_def)
  obtain src where src: "Mcf_Open (working_file env t) False 8000 (Some (bytes, 0))
      (f\<lparr>mf_filename := working_file env t\<rparr>) = (src, False)" "reading bytes src" "mf_queue src = []"
    using Mcf_Open_read [of "f\<lparr>mf_filename := working_file env t\<rparr>" "working_file env t" 8000 bytes 0] f
    by auto
  obtain dst where dst: "Mcf_Open wo True 8000 (Some ([], r)) new = (dst, False)"
    "mf_filename dst = recording_file env t"
    using Mcf_Open_write [OF ne] unfolding new_def wo by blast
  have room: "writable (de_pad env) n dst" "disk_image (de_pad env) dst = []" if "n \<le> length bytes" for n
    using Open_writable [of n r "de_pad env" wo 8000 "[]"] that r(2) dst(1) by (simp_all add: new_def)
  have "select_direction env t fs = selection_end env (working_tape env t) (recording_file env t)
       (working_file env t) (working_disk env t bytes fs)
       (filter_loop (de_alloc env) (de_batchKB env) (de_pad env) (tp_localSide t) (tape_marks env t) src dst)"
    using assms f(1) r(1) src(1) dst(1)
    unfolding wo_def new_def
    by (simp add: select_direction_def tape_file_names recorded_as_def GetIdentifier_def
        disk_rename_def disk_read_def Let_def working_tape_def working_disk_def flip: tape_marks_def)
  with src(2,3) dst(2) room that show ?thesis by blast
qed

lemma Mcf_Close_empty: "mf_queue f = [] \<Longrightarrow> \<exists>f'. Mcf_Close pad f = Done f'"
  by (simp add: Mcf_Close_def FlushToDisk_def)

lemma Mcf_Close_written:
  assumes "writable pad 0 f"
  shows "\<exists>f'. Mcf_Close pad f = Done f' \<and> ms_bytes (mf_stream f') = disk_image pad f \<and>
    mf_filename f' = mf_filename f"
proof -
  obtain f' where f': "FlushToDisk pad f = Done (f', False)" "mf_queue f' = []"
    "disk_image pad f' = disk_image pad f" using FlushToDisk_room [OF assms] by blast
  moreover have "mf_filename f' = mf_filename f"
    using f'(1) by (auto simp: FlushToDisk_def split: outcome.splits)
  ultimately show ?thesis
    using assms by (simp add: Mcf_Close_def writable_def disk_image_def)
qed

text \<open>
  C20. The recording that is passed on is the filtered recording: after the work on a tape, the file
  under the name of the recording holds its chunks in order, each unchanged or, when a mark of the
  tape covers its arrival and keeps the other side, with the same details and silence; the working
  file is gone, no other file is touched, and only the marks, the extension and the file reference
  of the tape differ.
\<close>

theorem direction_filters_recording:
  assumes "recorded_as env t (chunks_bytes (de_pad env) cs) fs" "list_all readable cs"
  shows "\<exists>f. select_direction env t fs = Some (Done (True,
      t\<lparr>tp_marks := tape_marks env t, tp_fileExtension := ''.mcf'', tp_audioFile := Some f\<rparr>,
      fs(recording_file env t :=
           Some (chunks_bytes (de_pad env) (map (filtered (tp_localSide t) (tape_marks env t)) cs)),
         working_file env t := None)))"
proof -
  let ?new = "chunks_bytes (de_pad env) (map (filtered (tp_localSide t) (tape_marks env t)) cs)"
  have alloc: "allocates (de_alloc env)" using assms(1) by (simp add: recorded_as_def)
  obtain src dst where o: "reading (chunks_bytes (de_pad env) cs) src" "mf_queue src = []"
    "writable (de_pad env) (length (chunks_bytes (de_pad env) cs)) dst"
    "disk_image (de_pad env) dst = []" "mf_filename dst = recording_file env t" and
    sel: "select_direction env t fs = selection_end env (working_tape env t) (recording_file env t)
       (working_file env t) (working_disk env t (chunks_bytes (de_pad env) cs) fs)
       (filter_loop (de_alloc env) (de_batchKB env) (de_pad env) (tp_localSide t) (tape_marks env t) src dst)"
    using select_opened [OF assms(1)] by blast
  obtain src1 dst1 where l: "filter_loop (de_alloc env) (de_batchKB env) (de_pad env) (tp_localSide t)
      (tape_marks env t) src dst = Some (Done (src1, dst1, False))"
    "mf_queue src1 = mf_queue src" "writable (de_pad env) 0 dst1" "mf_filename dst1 = mf_filename dst"
    "disk_image (de_pad env) dst1 = disk_image (de_pad env) dst @ ?new"
    using filter_loop_end [OF o(1) assms(2) alloc o(3)] by blast
  obtain dst2 where dst2: "Mcf_Close (de_pad env) dst1 = Done dst2" "ms_bytes (mf_stream dst2) = ?new"
    "mf_filename dst2 = recording_file env t"
    using Mcf_Close_written [OF l(3)] l(4,5) o(4,5) by auto
  obtain src2 where "Mcf_Close (de_pad env) src1 = Done src2"
    using Mcf_Close_empty [of src1 "de_pad env"] l(2) o(2) by auto
  with sel l(1) dst2 show ?thesis
    by (simp add: selection_end_def selection_done_def Let_def working_tape_def working_disk_def
        fun_upd_twist) (rule exI, rule refl)
qed

text \<open>
  A chunk that is too big to be read stops the rewriting: the tape is never passed on and keeps
  the extension of the working file, the original recording stays under that name, and the file
  under the name of the recording ends before that chunk.
\<close>

theorem direction_filter_gives_up:
  assumes "recorded_as env t (chunks_bytes (de_pad env) (cs @ big # rest)) fs" "list_all readable cs"
    "cd_numBytes (ac_details big) \<ge> 100000"
  shows "\<exists>f. select_direction env t fs = Some (Done (False,
      t\<lparr>tp_marks := tape_marks env t, tp_fileExtension := ''.tmp'', tp_audioFile := Some f\<rparr>,
      fs(working_file env t := Some (chunks_bytes (de_pad env) (cs @ big # rest)),
         recording_file env t :=
           Some (chunks_bytes (de_pad env) (map (filtered (tp_localSide t) (tape_marks env t)) cs)))))"
proof -
  let ?new = "chunks_bytes (de_pad env) (map (filtered (tp_localSide t) (tape_marks env t)) cs)"
  let ?old = "chunks_bytes (de_pad env) (cs @ big # rest)"
  have alloc: "allocates (de_alloc env)" using assms(1) by (simp add: recorded_as_def)
  have len: "length (chunks_bytes (de_pad env) cs) \<le> length ?old" by simp
  obtain src dst where o: "reading ?old src" "mf_queue src = []"
    "writable (de_pad env) (length (chunks_bytes (de_pad env) cs)) dst"
    "disk_image (de_pad env) dst = []" "mf_filename dst = recording_file env t" and
    sel: "select_direction env t fs = selection_end env (working_tape env t) (recording_file env t)
       (working_file env t) (working_disk env t (?old) fs)
       (filter_loop (de_alloc env) (de_batchKB env) (de_pad env) (tp_localSide t) (tape_marks env t) src dst)"
    using select_opened [OF assms(1)] len by metis
  have r: "reading (chunks_bytes (de_pad env) cs @ chunk_bytes (de_pad env) big @
      chunks_bytes (de_pad env) rest) src" using o(1) by simp
  obtain src1 dst1 where l: "filter_loop (de_alloc env) (de_batchKB env) (de_pad env) (tp_localSide t)
      (tape_marks env t) src dst = Some (Done (src1, dst1, True))"
    "mf_queue src1 = mf_queue src" "writable (de_pad env) 0 dst1" "mf_filename dst1 = mf_filename dst"
    "disk_image (de_pad env) dst1 = disk_image (de_pad env) dst @ ?new"
    using filter_loop_too_big [OF r assms(2,3) alloc o(3)] by blast
  obtain dst2 where dst2: "Mcf_Close (de_pad env) dst1 = Done dst2" "ms_bytes (mf_stream dst2) = ?new"
    "mf_filename dst2 = recording_file env t"
    using Mcf_Close_written [OF l(3)] l(4,5) o(4,5) by auto
  obtain src2 where "Mcf_Close (de_pad env) src1 = Done src2"
    using Mcf_Close_empty [of src1 "de_pad env"] l(2) o(2) by auto
  with sel l(1,3) dst2 show ?thesis
    by (simp add: selection_end_def selection_failed_def writable_def Let_def working_tape_def
        working_disk_def fun_upd_twist) (rule exI, rule refl)
qed

definition example_env :: direction_env where
  "example_env = \<lparr>de_codes = [(''212'', ''local'')], de_outputPath = ''/rec'', de_alloc = (\<lambda>_. True),
     de_batchKB = 200, de_pad = (0, 0), de_room = Some 200000\<rparr>"

definition example_recording :: "u32 \<Rightarrow> u8 \<Rightarrow> AudioChunk" where
  "example_recording arrival channel = AudioChunk_new\<lparr>ac_details := AudioChunkDetails_Clear\<lparr>
     cd_numBytes := 2, cd_arrivalTimestamp := arrival, cd_channel := channel\<rparr>, ac_buffer := Some [7, 8]\<rparr>"

definition example_selected :: "MediaChunkFile AudioTape" where
  "example_selected = (AudioTape_new example_config example_time 0 ''p'')\<lparr>tp_filePath := ''2024/'',
     tp_fileIdentifier := ''a'', tp_remoteParty := ''2125551234'', tp_marks := [], tp_localSide := LocalSideSide1, tp_audioFile := Some MediaChunkFile_new\<rparr>"

lemmas selected_eval = example_env_def example_recording_def example_selected_def recorded_as_def
  recording_file_def working_file_def allocates_def MediaChunkFile_new_def stream_closed_def
  chunk_bytes_def AudioChunk_new_def AudioChunkDetails_Clear_def

lemma example_marks: "tape_marks example_env example_selected = [default_mark ''local'' []]"
  by (simp add: tape_marks_def mark_default_side_def example_env_def example_selected_def)

lemma example_filtered:
  "map (filtered LocalSideSide1 [default_mark ''local'' []]) [example_recording 5 1, example_recording 5 2] =
    [example_recording 5 1, (example_recording 5 2)\<lparr>ac_buffer := Some [0, 0]\<rparr>]"
proof -
  have two: "replicate 2 0 = [0, 0 :: u8]" by (simp add: numeral_2_eq_2)
  show ?thesis
    by (simp add: filtered_def holds_at_def silent_channel_def local_channel_def default_mark_def example_recording_def
        AudioChunk_new_def AudioChunkDetails_Clear_def AudioKeepDirectionToEnum_def ci_literal two)
qed

theorem direction_filters_recording_witness:
  "\<exists>f. select_direction example_env example_selected
      [''/rec/2024/a.mcf'' \<mapsto> chunks_bytes (0, 0) [example_recording 5 1, example_recording 5 2]] =
    Some (Done (True, example_selected\<lparr>tp_marks := [default_mark ''local'' []],
        tp_fileExtension := ''.mcf'', tp_audioFile := Some f\<rparr>,
      [''/rec/2024/a.mcf'' \<mapsto> chunks_bytes (0, 0)
         [example_recording 5 1, (example_recording 5 2)\<lparr>ac_buffer := Some [0, 0]\<rparr>]]))"
proof -
  let ?cs = "[example_recording 5 1, example_recording 5 2]"
  let ?fs = "[''/rec/2024/a.mcf'' \<mapsto> chunks_bytes (de_pad example_env) ?cs]"
  have "recorded_as example_env example_selected (chunks_bytes (de_pad example_env) ?cs) ?fs"
    by (simp add: selected_eval)
  moreover have "list_all readable ?cs"
    by (simp add: readable_def storable_def selected_eval)
  ultimately have "\<exists>f. select_direction example_env example_selected ?fs = Some (Done (True,
      example_selected\<lparr>tp_marks := tape_marks example_env example_selected,
        tp_fileExtension := ''.mcf'', tp_audioFile := Some f\<rparr>,
      ?fs(recording_file example_env example_selected := Some (chunks_bytes (de_pad example_env)
           (map (filtered (tp_localSide example_selected) (tape_marks example_env example_selected)) ?cs)),
         working_file example_env example_selected := None)))"
    by (rule direction_filters_recording)
  moreover have "de_pad example_env = (0, 0)" "tp_localSide example_selected = LocalSideSide1"
    "recording_file example_env example_selected = ''/rec/2024/a.mcf''"
    "working_file example_env example_selected = ''/rec/2024/a.tmp''"
    by (simp_all add: selected_eval)
  ultimately show ?thesis
    unfolding example_marks by (simp only: example_filtered) (simp add: fun_upd_twist)
qed

theorem direction_filter_gives_up_witness:
  "\<exists>f. select_direction example_env example_selected
      [''/rec/2024/a.mcf'' \<mapsto> chunks_bytes (0, 0) [example_recording 5 2, big_chunk]] =
    Some (Done (False, example_selected\<lparr>tp_marks := [default_mark ''local'' []],
        tp_fileExtension := ''.tmp'', tp_audioFile := Some f\<rparr>,
      [''/rec/2024/a.tmp'' \<mapsto> chunks_bytes (0, 0) [example_recording 5 2, big_chunk],
       ''/rec/2024/a.mcf'' \<mapsto> chunks_bytes (0, 0)
         [(example_recording 5 2)\<lparr>ac_buffer := Some [0, 0]\<rparr>]]))"
proof -
  let ?fs = "[''/rec/2024/a.mcf'' \<mapsto>
    chunks_bytes (de_pad example_env) ([example_recording 5 2] @ big_chunk # [])]"
  have big: "length (the (ac_buffer big_chunk)) = 100000" "cd_numBytes (ac_details big_chunk) \<ge> 100000"
    by (simp_all add: big_chunk_def example_chunk_def AudioChunk_new_def AudioChunkDetails_Clear_def
        del: replicate.simps)
  have "recorded_as example_env example_selected
      (chunks_bytes (de_pad example_env) ([example_recording 5 2] @ big_chunk # [])) ?fs"
    using big(1) by (simp add: selected_eval)
  moreover have "list_all readable [example_recording 5 2]"
    by (simp add: readable_def storable_def selected_eval)
  ultimately have "\<exists>f. select_direction example_env example_selected ?fs = Some (Done (False,
      example_selected\<lparr>tp_marks := tape_marks example_env example_selected,
        tp_fileExtension := ''.tmp'', tp_audioFile := Some f\<rparr>,
      ?fs(working_file example_env example_selected :=
            Some (chunks_bytes (de_pad example_env) ([example_recording 5 2] @ big_chunk # [])),
         recording_file example_env example_selected := Some (chunks_bytes (de_pad example_env)
           (map (filtered (tp_localSide example_selected) (tape_marks example_env example_selected))
             [example_recording 5 2])))))"
    using big(2) by (rule direction_filter_gives_up)
  moreover have "de_pad example_env = (0, 0)" "tp_localSide example_selected = LocalSideSide1"
    "recording_file example_env example_selected = ''/rec/2024/a.mcf''"
    "working_file example_env example_selected = ''/rec/2024/a.tmp''"
    by (simp_all add: selected_eval)
  moreover have "map (filtered LocalSideSide1 [default_mark ''local'' []]) [example_recording 5 2] =
      [(example_recording 5 2)\<lparr>ac_buffer := Some [0, 0]\<rparr>]"
    using example_filtered by simp
  ultimately show ?thesis
    unfolding example_marks by simp
qed

section \<open>Skipping a side during transcoding\<close>

text \<open>
  \<open>BatchProcessing::SkipChunk\<close>: whether the chunk is left out, given the kept direction and the
  local side of the tape, and the channel to skip.
\<close>

definition skip_decision :: "AudioKeepDirectionEnum \<Rightarrow> LocalSideEnum \<Rightarrow> AudioChunkDetails \<Rightarrow> bool" where
  "skip_decision keep ls d =
     (case keep of
        AudioKeepDirectionBoth \<Rightarrow> False
      | AudioKeepDirectionLocal \<Rightarrow>
          (case ls of
             LocalSideUnkn \<Rightarrow> False
           | LocalSideSide1 \<Rightarrow> cd_channel d \<noteq> 1
           | LocalSideSide2 \<Rightarrow> cd_channel d \<noteq> 2
           | LocalSideBoth \<Rightarrow> False
           | LocalSideInvalid \<Rightarrow> False)
      | AudioKeepDirectionRemote \<Rightarrow>
          (case ls of
             LocalSideUnkn \<Rightarrow> False
           | LocalSideSide1 \<Rightarrow> cd_channel d = 1
           | LocalSideSide2 \<Rightarrow> cd_channel d = 2
           | LocalSideBoth \<Rightarrow> True
           | LocalSideInvalid \<Rightarrow> False)
      | AudioKeepDirectionNone \<Rightarrow> True
      | AudioKeepDirectionInvalid \<Rightarrow> False)"

definition SkipChunk :: "AudioKeepDirectionEnum \<Rightarrow> LocalSideEnum \<Rightarrow> AudioChunkDetails \<Rightarrow> bool \<times> int" where
  "SkipChunk keep ls d =
     (let skip = skip_decision keep ls d in (skip, if skip then uint (cd_channel d) else 0))"

text \<open>
  The two processors that suppress a side decide alike on the channels 1 and 2, except that the
  direction selector keeps everything when no side shall be kept, or when only the remote side shall
  be kept and both sides are local.
\<close>

theorem skip_agrees_with_blanking:
  assumes "cd_channel d = 1 \<or> cd_channel d = 2"
  shows "fst (SkipChunk keep ls d) \<longleftrightarrow>
    mark_blanks ls keep (cd_channel d) \<or> keep = AudioKeepDirectionNone \<or>
    (keep = AudioKeepDirectionRemote \<and> ls = LocalSideBoth)"
  using assms by (cases keep; cases ls) (auto simp: SkipChunk_def skip_decision_def mark_blanks_def)

theorem skip_agrees_with_blanking_witness:
  "fst (SkipChunk AudioKeepDirectionNone LocalSideSide1 (AudioChunkDetails_Clear\<lparr>cd_channel := 2\<rparr>)) \<longleftrightarrow>
    mark_blanks LocalSideSide1 AudioKeepDirectionNone 2 \<or> True"
  using skip_agrees_with_blanking [of "AudioChunkDetails_Clear\<lparr>cd_channel := 2\<rparr>" AudioKeepDirectionNone
      LocalSideSide1] by (simp add: AudioChunkDetails_Clear_def)

end
