(* ===== verification/OrkVoipSession.thy ===== *)
theory OrkVoipSession
  imports OrkDtmf OrkTape
begin

text \<open>
  A session of the VoIP plugin (audiocaptureplugins/voip/VoIpSession.cpp, class \<open>VoIpSession\<close>): one
  call, known by signalling or by its RTP alone. It works out the parties and the direction, starts
  when enough packets have been seen, sends events and audio to its capture port, notices
  discontinuities and pauses of the streams, and stops.

  The session extends \<open>OrkSession\<close> (\<open>OrkDtmf\<close>), as its class does. A method runs on the session
  extended by what it shares: the maps of the registry \<open>VoIpSessions\<close>, the INVITE objects (an address
  in a store, since two references may name the same object), and the calls of the two callbacks, in
  order. The clock does not advance within a call. Memory that the constructor leaves uninitialised is
  an argument. Logging, and \<open>m_loggedSsrcMap\<close>, which only logging uses, are left out; texts that
  \<open>Format\<close> builds are shorter than its buffer of 1024 characters.
\<close>

type_synonym u64 = "64 word"

section \<open>Configuration\<close>

record VoIpConfig =
  vc_acp :: AcpConfig
  vc_base :: base_config
  vc_holdResumeReportDuration :: bool
  vc_holdResumeReportEvents :: bool
  vc_speexPayloadTypes :: "string list"
  vc_rtpDiscontinuityDetect :: bool
  vc_rtpDiscontinuityMinSeqDelta :: int
  vc_rtpSeqGapThreshold :: int
  vc_rtpBreakupOnStreamPause :: bool
  vc_rtpMinAmountOfPacketsBeforeStart :: int
  vc_rtpTrackByUdpPortOnly :: bool
  vc_rtpAllowMultipleMappings :: bool
  vc_rtpReportDtmf :: bool
  vc_rtpDtmfOnlyLocal :: bool
  vc_trackRawRtpSessionInNonLookBackMode :: bool
  vc_lanMasks :: "u32 list"
  vc_rtpTrackUsingIpAddresses :: "u32 list"
  vc_sangomaEnable :: bool
  vc_sangomaTxTcpPortStart :: int
  vc_sangomaTcpPortDelta :: int
  vc_inInMode :: bool
  vc_useMacIfNoLocalParty :: bool
  vc_localPartyForceLocalIp :: bool
  vc_localPartyForceLocalMac :: bool
  vc_localPartyUseName :: bool
  vc_partiesUseName :: bool
  vc_localPartyAddLocalIp :: bool
  vc_localPartyNameMapEnable :: bool
  vc_sipDomains :: "string list"
  vc_sipDirectionReferenceIpAddresses :: IpRanges
  vc_sipDirectionReferenceUserAgents :: "string list"
  vc_sipRequestUriAsLocalParty :: bool
  vc_sipReportNamesAsTags :: bool
  vc_sipMetadataUseLastInvite :: bool
  vc_sipRemotePartyFrom200OKEnable :: bool
  vc_sipOnDemandFieldName :: string
  vc_sipOnDemandFieldValue :: string
  vc_sipOnDemandFieldValueOff :: string
  vc_sipInfoDtmfRfc2976Detect :: bool
  vc_sipAllowMetadataUpdateOnRtpChange :: bool
  vc_sipAllowMediaAddressTransfer :: bool
  vc_necVoipGatewayNames :: "string list"
  vc_dahdiIntercept :: bool
  vc_holdReportStats :: bool
  vc_skinnyNameAsLocalParty :: bool
  vc_skinnyReportTags :: "string list"
  vc_skinnyIgnoreHold :: bool
  vc_skinnyAllowMediaAddressTransfer :: bool
  vc_SkinnyTrackConferencesTransfers :: bool
  vc_skinnyRtpSearchesForCallInfo :: bool
  vc_skinnyBehindNat :: bool
  vc_urlExtractorEnable :: bool
  vc_remotePartyUseExtractedKey :: string
  vc_mediaAddressBlockedIpRanges :: IpRanges
  vc_mediaAddressAllowedIpRanges :: IpRanges
  vc_mediaAddressUseSecondRtpAddress :: bool
  vc_rtpSessionTimeoutSec :: int
  vc_rtpSessionWithSignallingTimeoutSec :: int
  vc_rtpSessionOnHoldTimeOutSec :: int
  vc_rtpSessionWithSignallingInitialTimeoutSec :: int
  vc_lanIpRanges :: IpRanges
  vc_sipIgnoredMediaAddresses :: IpRanges
  vc_sipTrackMediaAddressOnSender :: bool
  vc_sipInviteCanPutOffHold :: bool
  vc_sipCallPickUpSupport :: bool
  vc_sipDynamicMediaAddress :: bool
  vc_sipNotifySupport :: bool
  vc_sipUse200OkMediaAddress :: bool
  vc_transferTimeOutInSec :: int
  vc_skinnyAllowCallInfoUpdate :: bool
  vc_skinnyAllowLateCallInfo :: bool
  vc_skinnyCallInfoStopsPrevious :: bool
  vc_skinnyCallInfoStopsPreviousToleranceSec :: int
  vc_skinnyIgnoreOpenReceiveChannelAck :: bool
  vc_skinnyDynamicMediaAddress :: bool
  vc_skinnyIgnoreStopMediaTransmission :: bool

text \<open>\<open>s_addr\<close>: the four bytes as the number they are in the memory of a little-endian machine.\<close>

definition s_addr :: "in_addr \<Rightarrow> u32" where
  "s_addr a = (case a of (b0, b1, b2, b3) \<Rightarrow>
     of_nat (b0 + b1 * 2 ^ 8 + b2 * 2 ^ 16 + b3 * 2 ^ 24))"

definition IsPartOfLan :: "VoIpConfig \<Rightarrow> in_addr \<Rightarrow> bool" where
  "IsPartOfLan c a = list_ex (\<lambda>m. s_addr a AND m = s_addr a) (vc_lanMasks c)"

definition IsRtpTrackingIpAddress :: "VoIpConfig \<Rightarrow> in_addr \<Rightarrow> bool" where
  "IsRtpTrackingIpAddress c a = list_ex (\<lambda>x. s_addr a = x) (vc_rtpTrackUsingIpAddresses c)"

definition Craft64bitMediaAddress :: "VoIpConfig \<Rightarrow> in_addr \<Rightarrow> u16 \<Rightarrow> u64" where
  "Craft64bitMediaAddress c ip port =
     (if \<not> vc_rtpTrackByUdpPortOnly c then push_bit 16 (ucast (s_addr ip)) OR ucast port
      else ucast port)"

section \<open>Signalling information\<close>

record SipInviteInfo =
  si_sipMethod :: string
  si_senderIp :: in_addr
  si_originalSenderIp :: in_addr
  si_receiverIp :: in_addr
  si_fromRtpIp :: in_addr
  si_senderMac :: "u8 list"
  si_receiverMac :: "u8 list"
  si_fromRtpPort :: string
  si_from :: string
  si_to :: string
  si_callId :: string
  si_replacesId :: string
  si_requestUri :: string
  si_validated :: bool
  si_attrSendonly :: bool
  si_extractedFields :: "(string \<times> string) list"
  si_telephoneEventPayloadType :: int
  si_fromDomain :: string
  si_toDomain :: string
  si_fromName :: string
  si_toName :: string
  si_userAgent :: string
  si_sipDialedNumber :: string
  si_sipRemoteParty :: string
  si_contact :: string
  si_contactName :: string
  si_contactDomain :: string
  si_SipGroupPickUpPatternDetected :: bool
  si_payloadTypeMap :: "u8 list"
  si_recvTime :: int

record SipByeInfo =
  sb_callId :: string
  sb_senderIp :: in_addr
  sb_receiverIp :: in_addr
  sb_from :: string
  sb_to :: string

record SipNotifyInfo =
  sn_callId :: string
  sn_senderIp :: in_addr
  sn_receiverIp :: in_addr
  sn_dsp :: string
  sn_onHoldMarker :: bool
  sn_offHoldMarker :: bool
  sn_pkey :: int

record SipInfo =
  sf_callId :: string
  sf_dtmfDigit :: string
  sf_cSeq :: string
  sf_onDemand :: bool
  sf_onDemandOff :: bool

record RtcpSrcDescription =
  rc_sourceIp :: in_addr
  rc_destIp :: in_addr
  rc_sourcePort :: u16
  rc_destPort :: u16
  rc_cnameUsername :: string
  rc_cnameDomain :: string

record VoIpEndpointInfo =
  vi_extension :: string
  vi_latestCallId :: string
  vi_ip :: in_addr
  vi_skinnyPort :: u16
  vi_lastConferencePressed :: int
  vi_lastConnectedWithConference :: int
  vi_origOrkUid :: string
  vi_urlExtractionMap :: "string \<Rightarrow> (string \<times> int) option"
  vi_preInviteNotify :: "SipNotifyInfo option"

section \<open>The session\<close>

datatype ProtocolEnum = ProtRawRtp | ProtSip | ProtSkinny | ProtUnkn

definition ProtocolToEnum :: "string \<Rightarrow> ProtocolEnum" where
  "ProtocolToEnum s =
     (if ci_eq s ''RawRtp'' then ProtRawRtp
      else if ci_eq s ''Sip'' then ProtSip
      else if ci_eq s ''Skinny'' then ProtSkinny
      else ProtUnkn)"

definition ProtocolToString :: "ProtocolEnum \<Rightarrow> string" where
  "ProtocolToString p = (case p of
       ProtRawRtp \<Rightarrow> ''RawRtp'' | ProtSip \<Rightarrow> ''Sip'' | ProtSkinny \<Rightarrow> ''Skinny'' | ProtUnkn \<Rightarrow> ''Unkn'')"

record VoIpSession = OrkSession +
  vs_ipAndPort :: u64
  vs_rtpIp :: in_addr
  vs_callId :: string
  vs_invite :: "nat option"
  vs_creationDate :: int
  vs_lastUpdated :: int
  vs_lastKeepAlive :: int
  vs_protocol :: ProtocolEnum
  vs_remotePartyNecSip :: string
  vs_localParty :: string
  vs_remoteParty :: string
  vs_localEntryPoint :: string
  vs_localPartyName :: string
  vs_remotePartyName :: string
  vs_localPartyReported :: bool
  vs_remotePartyReported :: bool
  vs_rtcpLocalParty :: bool
  vs_rtcpRemoteParty :: bool
  vs_direction :: DirectionEnum
  vs_localSide :: LocalSideEnum
  vs_numRtpPackets :: int
  vs_numIgnoredRtpPackets :: int
  vs_metadataProcessed :: bool
  vs_highestRtpSeqNumDelta :: int
  vs_minRtpSeqDelta :: int
  vs_minRtpTimestampDelta :: int
  vs_rtpNumMissingPkts :: u32
  vs_rtpNumSeqGaps :: u32
  vs_endPointIp :: in_addr
  vs_endPointSignallingPort :: u16
  vs_skinnyPassThruPartyId :: int
  vs_sipLastInvite :: int
  vs_skinnyLastCallInfoTime :: int
  vs_skinnyLineInstance :: int
  vs_onHold :: bool
  vs_mediaAddresses :: "u64 list"
  vs_lastRtpStreamStart :: int
  vs_holdDuration :: int
  vs_holdBegin :: int
  vs_sipDialedNumber :: string
  vs_sipRemoteParty :: string
  vs_isCallPickUp :: bool
  vs_numAlienRtpPacketsS1 :: u32
  vs_numAlienRtpPacketsS2 :: u32
  vs_ssrcCandidate :: u32
  vs_ssrcCandidateTimestamp :: u32
  vs_hasReceivedCallInfo :: bool
  vs_mappedS1S2 :: bool
  vs_lastRtpPacket :: "RtpPacketInfo option"
  vs_remoteIp :: in_addr
  vs_localMac :: "u8 list"
  vs_remoteMac :: "u8 list"
  vs_orkUid :: string
  vs_hasDuplicateRtp :: bool
  vs_rtpAddressList :: "TcpAddress list"
  vs_invites :: "nat list"
  vs_tags :: "(string \<times> string) list"
  vs_lastSipInfo :: "SipInfo option"

text \<open>The calls of \<open>g_captureEventCallBack\<close> and \<open>g_audioChunkCallBack\<close>, with the capture port.\<close>

datatype callback = EventCallback CaptureEvent string | ChunkCallback AudioChunk string

record session_run = VoIpSession +
  sr_localPartyMap :: "string \<Rightarrow> string option"
  sr_localPartyNameMap :: "string \<Rightarrow> string"
  sr_endpoints :: "(u64 \<times> VoIpEndpointInfo) list"
  sr_invites :: "nat \<Rightarrow> SipInviteInfo"
  sr_out :: "callback list"

record voip_env =
  ve_config :: VoIpConfig
  ve_now :: int
  ve_nowUsec :: int
  ve_localTime :: "int \<Rightarrow> exp_time"
  ve_alloc :: "nat \<Rightarrow> bool"
  ve_audio :: session_audio

definition VoIpSession_new :: "voip_env \<Rightarrow> string \<Rightarrow> VoIpSession \<Rightarrow> VoIpSession" where
  "VoIpSession_new e trackingId junk =
     (let c = ve_config e
      in OrkSession.extend
       ((OrkSession_new (vc_base c) (vc_acp c) (os_localIp junk))
          \<lparr>os_trackingId := trackingId, os_startWhenReceiveS2 := False,
           os_keepRtp := bc_lookBackRecording (vc_base c), os_nonLookBackSessionStarted := False\<rparr>)
       (VoIpSession.fields 0 (0, 0, 0, 0) [] None (ve_nowUsec e) (ve_now e) (ve_now e) ProtUnkn [] [] [] [] [] []
          False False False False DirUnkn LocalSideUnkn 0 0 False 0
          (vc_rtpDiscontinuityMinSeqDelta c) (vc_rtpDiscontinuityMinSeqDelta c * 160) 0 0
          (vs_endPointIp junk) (vs_endPointSignallingPort junk) 0 (ve_nowUsec e) (ve_nowUsec e) 0 False []
          0 0 (vs_holdBegin junk) [] [] False 0 0 (- 1) (vs_ssrcCandidateTimestamp junk) False False None
          (vs_remoteIp junk) (replicate 6 0) (replicate 6 0) [] False [] [] [] None))"

section \<open>Shared maps and callbacks\<close>

definition emit :: "CaptureEvent \<Rightarrow> session_run \<Rightarrow> session_run" where
  "emit e s = s\<lparr>sr_out := sr_out s @ [EventCallback e (os_capturePort s)]\<rparr>"

definition event :: "EventTypeEnum \<Rightarrow> string \<Rightarrow> CaptureEvent" where
  "event t v = CaptureEvent_new\<lparr>ev_type := t, ev_value := v\<rparr>"

definition GetLocalPartyMap :: "session_run \<Rightarrow> string \<Rightarrow> string" where
  "GetLocalPartyMap s party = (case sr_localPartyMap s party of Some p \<Rightarrow> p | None \<Rightarrow> party)"

definition SaveLocalPartyMap :: "string \<Rightarrow> string \<Rightarrow> session_run \<Rightarrow> session_run" where
  "SaveLocalPartyMap old new s =
     (if sr_localPartyMap s old = None
      then s\<lparr>sr_localPartyMap := (sr_localPartyMap s)(old \<mapsto> new)\<rparr> else s)"

definition GetVoIpEndpointInfo ::
    "VoIpConfig \<Rightarrow> in_addr \<Rightarrow> u16 \<Rightarrow> (u64 \<times> VoIpEndpointInfo) list \<Rightarrow> VoIpEndpointInfo option" where
  "GetVoIpEndpointInfo c ip port endpoints = map_of endpoints (Craft64bitMediaAddress c ip port)"

definition GetVoIpEndpointInfoByIp ::
    "in_addr \<Rightarrow> (u64 \<times> VoIpEndpointInfo) list \<Rightarrow> VoIpEndpointInfo option" where
  "GetVoIpEndpointInfoByIp ip endpoints =
     map_option snd (List.find (\<lambda>(_, e). vi_ip e = ip) endpoints)"

definition MatchesReferenceAddresses :: "VoIpConfig \<Rightarrow> in_addr \<Rightarrow> bool" where
  "MatchesReferenceAddresses c ip = IpRanges_Matches (vc_sipDirectionReferenceIpAddresses c) ip"

definition MatchesSipDomain :: "VoIpConfig \<Rightarrow> string \<Rightarrow> bool" where
  "MatchesSipDomain c domain = list_ex (\<lambda>d. ci_eq d domain) (vc_sipDomains c)"

definition IsInSkinnyReportingList :: "VoIpConfig \<Rightarrow> string \<Rightarrow> bool" where
  "IsInSkinnyReportingList c item = list_ex (\<lambda>d. ci_eq d item) (vc_skinnyReportTags c)"

definition hex_digit :: "nat \<Rightarrow> char" where
  "hex_digit n = ''0123456789abcdef'' ! n"

definition hex2 :: "u8 \<Rightarrow> string" where
  "hex2 b = [hex_digit (unat b div 16), hex_digit (unat b mod 16)]"

text \<open>\<open>MemMacToHumanReadable\<close> appends to its output.\<close>

definition MemMacToHumanReadable :: "u8 list \<Rightarrow> string \<Rightarrow> string" where
  "MemMacToHumanReadable mac out =
     foldl (\<lambda>o' b. (if o' \<noteq> [] then o' @ '':'' else o') @ hex2 b) out mac"

definition at_ip :: "string \<Rightarrow> in_addr \<Rightarrow> string" where
  "at_ip party ip = c_str party @ ''@'' @ IpToString ip"

section \<open>Start and stop\<close>

definition GenerateOrkUid :: "voip_env \<Rightarrow> session_run \<Rightarrow> session_run" where
  "GenerateOrkUid e s =
     (let t = ve_localTime e (os_beginDate s)
      in s\<lparr>vs_orkUid := pad_dec 4 (tm_year t + 1900) @ pad_dec 2 (tm_mon t + 1) @ pad_dec 2 (tm_mday t)
        @ ''_'' @ pad_dec 2 (tm_hour t) @ pad_dec 2 (tm_min t) @ pad_dec 2 (tm_sec t) @ ''_''
        @ c_str (os_trackingId s)\<rparr>)"

definition SkinnyTrackConferencesTransfers :: "voip_env \<Rightarrow> string \<Rightarrow> session_run \<Rightarrow> session_run" where
  "SkinnyTrackConferencesTransfers e capturePort s =
     (let c = ve_config e; key = Craft64bitMediaAddress c (vs_endPointIp s) (vs_endPointSignallingPort s)
      in case GetVoIpEndpointInfo c (vs_endPointIp s) (vs_endPointSignallingPort s) (sr_endpoints s) of
          None \<Rightarrow> s
        | Some ep \<Rightarrow>
            if ve_now e - vi_lastConferencePressed ep > 3 \<and> ve_now e - vi_lastConnectedWithConference ep > 3
            then s\<lparr>sr_endpoints := map (\<lambda>(k, x). if k = key then (k, x\<lparr>vi_origOrkUid := []\<rparr>) else (k, x))
                     (sr_endpoints s)\<rparr>
            else if vi_origOrkUid ep \<noteq> []
            then s\<lparr>sr_out := sr_out s @ [EventCallback (key_value ''orig-orkuid'' (vi_origOrkUid ep)) capturePort]\<rparr>
            else s)"

definition Session_Start :: "voip_env \<Rightarrow> session_run \<Rightarrow> session_run" where
  "Session_Start e s =
     (let s1 = s\<lparr>os_beginDate := ve_now e\<rparr>;
          s2 = (if \<not> os_started s1 then GenerateOrkUid e s1 else s1);
          s3 = s2\<lparr>os_started := True\<rparr>;
          s4 = emit ((event EtStart (os_trackingId s3))\<lparr>ev_timestamp := os_beginDate s3\<rparr>) s3
      in if vc_SkinnyTrackConferencesTransfers (ve_config e)
         then SkinnyTrackConferencesTransfers e (os_capturePort s4) s4 else s4)"

text \<open>A side is local when its source is no reference address or the address of an endpoint.\<close>

definition is_local_source :: "voip_env \<Rightarrow> session_run \<Rightarrow> in_addr \<Rightarrow> bool" where
  "is_local_source e s ip \<longleftrightarrow>
     \<not> MatchesReferenceAddresses (ve_config e) ip \<or> GetVoIpEndpointInfoByIp ip (sr_endpoints s) \<noteq> None"

definition stop_local_side :: "voip_env \<Rightarrow> session_run \<Rightarrow> LocalSideEnum" where
  "stop_local_side e s =
     (let l1 = (case os_side1 s of
                  Some p \<Rightarrow> if is_local_source e s (rp_sourceIp p) then LocalSideSide1 else vs_localSide s
                | None \<Rightarrow> vs_localSide s)
      in case os_side2 s of
           Some p \<Rightarrow>
             if is_local_source e s (rp_sourceIp p)
             then (if l1 = LocalSideSide1 then LocalSideBoth else LocalSideSide2) else l1
         | None \<Rightarrow> l1)"

definition stop_extracted_party :: "voip_env \<Rightarrow> session_run \<Rightarrow> session_run" where
  "stop_extracted_party e s =
     (let c = ve_config e
      in if \<not> vc_urlExtractorEnable c then s
         else case (case GetVoIpEndpointInfo c (os_localIp s) 0 (sr_endpoints s) of
                      Some ep \<Rightarrow> Some ep | None \<Rightarrow> GetVoIpEndpointInfo c (vs_remoteIp s) 0 (sr_endpoints s)) of
             None \<Rightarrow> s
           | Some ep \<Rightarrow>
               (case vi_urlExtractionMap ep (vc_remotePartyUseExtractedKey c) of
                  None \<Rightarrow> s
                | Some (value, ts) \<Rightarrow>
                    if ts \<ge> vs_creationDate s div 1000000 \<and> ts \<le> vs_lastUpdated s
                    then emit (event EtRemoteParty value) (s\<lparr>vs_remoteParty := value\<rparr>) else s))"

definition Session_Stop :: "voip_env \<Rightarrow> session_run \<Rightarrow> session_run" where
  "Session_Stop e s =
     (if os_started s \<and> \<not> os_stopped s then
        let s1 = s\<lparr>vs_localSide := stop_local_side e s\<rparr>;
            s2 = stop_extracted_party e s1;
            s3 = emit (event EtLocalSide (LocalSideToString (vs_localSide s2))) s2;
            s4 = emit ((event EtStop [])\<lparr>ev_timestamp := vs_lastUpdated s3\<rparr>) s3
        in s4\<lparr>os_stopped := True\<rparr>
      else s)"

section \<open>Who talks to whom\<close>

definition cname_party :: "VoIpConfig \<Rightarrow> RtcpSrcDescription \<Rightarrow> string" where
  "cname_party c r =
     (let realm = takeWhile (\<lambda>x. x \<noteq> CHR ''.'') (take 255 (c_str (rc_cnameDomain r)))
      in c_str (rc_cnameUsername r) @ ''@'' @ realm)"

definition Session_ReportRtcpSrcDescription ::
    "voip_env \<Rightarrow> RtcpSrcDescription \<Rightarrow> session_run \<Rightarrow> session_run" where
  "Session_ReportRtcpSrcDescription e r s =
     (let c = ve_config e;
          name = (if vc_inInMode c then cname_party c r else rc_cnameUsername r)
      in if \<not> vs_rtcpLocalParty s then
           let s1 = s\<lparr>vs_rtcpLocalParty := True, vs_localParty := GetLocalPartyMap s name\<rparr>
           in if vs_localPartyReported s1 then
                let s2 = (if vc_localPartyAddLocalIp c
                          then s1\<lparr>vs_localParty := at_ip (vs_localParty s1) (os_localIp s1)\<rparr> else s1)
                in emit (event EtLocalParty (vs_localParty s2)) s2
              else s1
         else if \<not> vs_rtcpRemoteParty s then
           (if ci_eq name (vs_localParty s) then s
            else
              let s1 = s\<lparr>vs_rtcpRemoteParty := True, vs_remoteParty := GetLocalPartyMap s name\<rparr>
              in if vs_remotePartyReported s1 then emit (event EtRemoteParty (vs_remoteParty s1)) s1 else s1)
         else s)"

definition raw_rtp_source_is_local :: "VoIpConfig \<Rightarrow> RtpPacketInfo \<Rightarrow> bool" where
  "raw_rtp_source_is_local c p =
     (if IsMediaGateway (vc_acp c) (rp_sourceIp p) then
        (if IsMediaGateway (vc_acp c) (rp_destIp p) then False
         else if IsPartOfLan c (rp_destIp p) then False else True)
      else if IsPartOfLan c (rp_sourceIp p) then True else False)"

definition ProcessMetadataRawRtp :: "voip_env \<Rightarrow> RtpPacketInfo \<Rightarrow> session_run \<Rightarrow> session_run" where
  "ProcessMetadataRawRtp e p s0 =
     (let c = ve_config e;
          s = s0\<lparr>os_capturePort := (if vc_sangomaEnable c then show_nat (unat (rp_sourcePort p) mod 1000)
                                    else os_trackingId s0)\<rparr>;
          fromLocal = raw_rtp_source_is_local c p;
          (lip, lmac, rip, rmac) =
            (if fromLocal then (rp_sourceIp p, rp_sourceMac p, rp_destIp p, rp_destMac p)
             else (rp_destIp p, rp_destMac p, rp_sourceIp p, rp_sourceMac p));
          s1 = (if \<not> vs_rtcpLocalParty s
                then s\<lparr>vs_localParty := (if vc_useMacIfNoLocalParty c then MemMacToHumanReadable lmac (vs_localParty s)
                                         else GetLocalPartyMap s (IpToString lip))\<rparr> else s);
          s2 = (if \<not> vs_rtcpRemoteParty s1
                then s1\<lparr>vs_remoteParty := GetLocalPartyMap s1 (IpToString rip)\<rparr> else s1)
      in s2\<lparr>os_localIp := lip, vs_remoteIp := rip, vs_localMac := lmac, vs_remoteMac := rmac\<rparr>)"

text \<open>The request URI stands for the local party when it differs from \<open>To\<close>.\<close>

definition uri_is_local :: "VoIpConfig \<Rightarrow> SipInviteInfo \<Rightarrow> bool" where
  "uri_is_local c i \<longleftrightarrow> vc_sipRequestUriAsLocalParty c \<and> \<not> ci_eq (si_requestUri i) (si_to i) \<and>
     si_requestUri i \<noteq> []"

definition uri_parties :: "SipInviteInfo \<Rightarrow> session_run \<Rightarrow> session_run" where
  "uri_parties i s =
     s\<lparr>vs_localParty := GetLocalPartyMap s (si_requestUri i), vs_remoteParty := GetLocalPartyMap s (si_from i),
       vs_direction := DirIn, vs_localEntryPoint := si_to i\<rparr>"

definition default_names :: "string \<Rightarrow> string \<Rightarrow> session_run \<Rightarrow> session_run" where
  "default_names localName remoteName s =
     s\<lparr>vs_remotePartyName := (if remoteName = [] then vs_remoteParty s else remoteName),
       vs_localPartyName := (if localName = [] then vs_localParty s else localName)\<rparr>"

definition ProcessMetadataSipIncoming :: "VoIpConfig \<Rightarrow> SipInviteInfo \<Rightarrow> session_run \<Rightarrow> session_run" where
  "ProcessMetadataSipIncoming c i s =
     (let s1 = (if uri_is_local c i then uri_parties i s
                else s\<lparr>vs_remoteParty := GetLocalPartyMap s (si_from i),
                       vs_localParty := GetLocalPartyMap s (si_to i), vs_direction := DirIn\<rparr>);
          s2 = default_names (si_toName i) (si_fromName i) s1
      in s2\<lparr>os_localIp := si_receiverIp i, vs_remoteIp := si_senderIp i, os_capturePort := os_trackingId s2,
            vs_localMac := si_receiverMac i, vs_remoteMac := si_senderMac i\<rparr>)"

definition ProcessMetadataSipOutgoing :: "VoIpConfig \<Rightarrow> SipInviteInfo \<Rightarrow> session_run \<Rightarrow> session_run" where
  "ProcessMetadataSipOutgoing c i s =
     (let s1 = (if uri_is_local c i then uri_parties i s
                else s\<lparr>vs_remoteParty := GetLocalPartyMap s (si_to i),
                       vs_localParty := GetLocalPartyMap s (si_from i), vs_direction := DirOut\<rparr>);
          s2 = default_names (si_fromName i) (si_toName i) s1
      in s2\<lparr>os_localIp := si_senderIp i, vs_remoteIp := si_receiverIp i, os_capturePort := os_trackingId s2,
            vs_localMac := si_senderMac i, vs_remoteMac := si_receiverMac i\<rparr>)"

definition sip_is_incoming :: "VoIpConfig \<Rightarrow> SipInviteInfo \<Rightarrow> bool" where
  "sip_is_incoming c i =
     (if m_asciiIpRanges (vc_sipDirectionReferenceIpAddresses c) \<noteq> []
      then MatchesReferenceAddresses c (si_senderIp i)
      else if MatchesSipDomain c (si_fromDomain i) \<and> MatchesSipDomain c (si_toDomain i) then False
      else if MatchesSipDomain c (si_fromDomain i) then False
      else if MatchesSipDomain c (si_toDomain i) then True
      else MatchesStringList (si_userAgent i) (vc_sipDirectionReferenceUserAgents c))"

definition ProcessMetadataSip :: "voip_env \<Rightarrow> session_run \<Rightarrow> session_run outcome" where
  "ProcessMetadataSip e s =
     (let c = ve_config e
      in case vs_invite s of
          None \<Rightarrow> Undefined
        | Some a \<Rightarrow>
            let i = sr_invites s a
            in if vs_sipDialedNumber s \<noteq> [] then
                 Done ((ProcessMetadataSipOutgoing c i s)
                   \<lparr>vs_remoteParty := si_sipDialedNumber i, vs_localParty := si_to i, vs_direction := DirOut\<rparr>)
               else
                 let s1 = (if sip_is_incoming c i then ProcessMetadataSipIncoming c i s
                           else ProcessMetadataSipOutgoing c i s);
                     s2 = (if si_SipGroupPickUpPatternDetected i then s1\<lparr>vs_direction := DirIn\<rparr> else s1)
                 in Done (if vs_sipRemoteParty s2 \<noteq> [] then s2\<lparr>vs_remoteParty := vs_sipRemoteParty s2\<rparr> else s2))"

definition ProcessMetadataSkinny :: "RtpPacketInfo \<Rightarrow> session_run \<Rightarrow> session_run" where
  "ProcessMetadataSkinny p s0 =
     (let s = s0\<lparr>os_capturePort := os_trackingId s0\<rparr>
      in if vs_endPointIp s = rp_destIp p
         then s\<lparr>os_localIp := rp_destIp p, vs_remoteIp := rp_sourceIp p, vs_localMac := rp_destMac p,
                vs_remoteMac := rp_sourceMac p\<rparr>
         else s\<lparr>os_localIp := rp_sourceIp p, vs_remoteIp := rp_destIp p, vs_localMac := rp_sourceMac p,
                vs_remoteMac := rp_destMac p\<rparr>)"

section \<open>Reporting metadata\<close>

text \<open>The local party as it is reported: its name or itself, with the address if that is wanted.\<close>

definition report_local_party :: "VoIpConfig \<Rightarrow> bool \<Rightarrow> session_run \<Rightarrow> session_run" where
  "report_local_party c useName s =
     (if useName then
        let s1 = (if vc_localPartyAddLocalIp c
                  then s\<lparr>vs_localPartyName := at_ip (vs_localPartyName s) (os_localIp s)\<rparr> else s)
        in emit (event EtLocalParty (vs_localPartyName s1)) s1
      else
        let s1 = (if vc_localPartyAddLocalIp c
                  then s\<lparr>vs_localParty := at_ip (vs_localParty s) (os_localIp s)\<rparr> else s)
        in emit (event EtLocalParty (vs_localParty s1)) s1)"

definition report_names :: "VoIpConfig \<Rightarrow> session_run \<Rightarrow> session_run" where
  "report_names c s =
     (if vc_sipReportNamesAsTags c
      then emit (key_value ''remotename'' (vs_remotePartyName s)) (emit (key_value ''localname'' (vs_localPartyName s)) s)
      else s)"

definition report_remote_party :: "VoIpConfig \<Rightarrow> session_run \<Rightarrow> session_run" where
  "report_remote_party c s =
     (emit (event EtRemoteParty
         (if vc_partiesUseName c \<and> vs_remotePartyName s \<noteq> [] then vs_remotePartyName s else vs_remoteParty s)) s)
       \<lparr>vs_remotePartyReported := True\<rparr>"

definition report_entry_point :: "session_run \<Rightarrow> session_run" where
  "report_entry_point s =
     (if vs_localEntryPoint s \<noteq> [] then emit (event EtLocalEntryPoint (vs_localEntryPoint s)) s else s)"

definition UpdateMetadataSkinny :: "VoIpConfig \<Rightarrow> session_run \<Rightarrow> session_run" where
  "UpdateMetadataSkinny c s =
     (let s1 = report_local_party c (vc_skinnyNameAsLocalParty c \<and> vs_localPartyName s \<noteq> []) s;
          s2 = emit (event EtRemoteParty (vs_remoteParty s1)) s1
      in emit (event EtUpdate []) s2)"

definition ReportMetadataUpdateSkinny :: "VoIpConfig \<Rightarrow> session_run \<Rightarrow> session_run" where
  "ReportMetadataUpdateSkinny c s =
     (let s1 = report_names c (report_entry_point (report_remote_party c s))
      in if os_started s1 then emit (event EtUpdate (vs_remoteParty s1)) s1 else s1)"

text \<open>The INVITE that the new stream belongs to: of those not validated yet, the oldest that matches.\<close>

fun matching_invite ::
    "(nat \<Rightarrow> SipInviteInfo) \<Rightarrow> in_addr \<Rightarrow> nat list \<Rightarrow> nat option \<Rightarrow> nat option" where
  "matching_invite st ip [] found = found"
| "matching_invite st ip (a # as) found =
     (if si_validated (st a) then found
      else matching_invite st ip as (if ip = si_receiverIp (st a) then Some a else found))"

definition UpdateMetadataSipOnRtpChange ::
    "VoIpConfig \<Rightarrow> RtpPacketInfo \<Rightarrow> bool \<Rightarrow> session_run \<Rightarrow> session_run outcome" where
  "UpdateMetadataSipOnRtpChange c p sourceRtpAddressIsNew s =
     (case matching_invite (sr_invites s) (if sourceRtpAddressIsNew then rp_sourceIp p else rp_destIp p)
             (vs_invites s) None of
        None \<Rightarrow> Done s
      | Some a \<Rightarrow>
          let s0 = s\<lparr>sr_invites := (sr_invites s)(a := (sr_invites s a)\<lparr>si_validated := True\<rparr>)\<rparr>;
              i = sr_invites s0 a
          in case vs_invite s0 of
              None \<Rightarrow> Undefined
            | Some m \<Rightarrow>
                let mi = sr_invites s0 m;
                    s1 = (if vc_sipRequestUriAsLocalParty c \<and> \<not> ci_eq (si_requestUri mi) (si_to mi)
                          then uri_parties mi s0
                          else s0\<lparr>vs_remoteParty := GetLocalPartyMap s0 (si_from i),
                                  vs_localParty := GetLocalPartyMap s0 (si_to i)\<rparr>);
                    s2 = default_names (si_toName mi) (si_fromName mi) s1;
                    s3 = s2\<lparr>os_localIp := si_receiverIp i, vs_localMac := si_receiverMac i\<rparr>;
                    s4 = report_local_party c False s3;
                    s5 = emit (event EtRemoteParty (vs_remoteParty s4)) s4;
                    s6 = report_names c s5;
                    s7 = emit (event EtLocalIp (IpToString (os_localIp s6))) s6
                in Done (emit (event EtUpdate []) s7))"

text \<open>The local party is worked out in steps; the last one may use the name seen for an address.\<close>

definition fill_local_party :: "VoIpConfig \<Rightarrow> session_run \<Rightarrow> session_run" where
  "fill_local_party c s =
     (let ip = IpToString (os_localIp s);
          s1 = (if vc_localPartyForceLocalIp c then s\<lparr>vs_localParty := GetLocalPartyMap s ip\<rparr>
                else if vs_localParty s = [] \<and> vs_protocol s = ProtSkinny then
                  (case GetVoIpEndpointInfo c (vs_endPointIp s) (vs_endPointSignallingPort s) (sr_endpoints s) of
                     Some ep \<Rightarrow> s\<lparr>vs_localParty := GetLocalPartyMap s (vi_extension ep)\<rparr> | None \<Rightarrow> s)
                else s);
          s2 = (if vs_localParty s1 = [] then
                  s1\<lparr>vs_localParty := (if vc_useMacIfNoLocalParty c then MemMacToHumanReadable (vs_localMac s1) []
                                       else GetLocalPartyMap s1 ip)\<rparr>
                else s1)
      in if vc_localPartyForceLocalMac c
         then s2\<lparr>vs_localParty := GetLocalPartyMap s2 (MemMacToHumanReadable (vs_localMac s2) [])\<rparr> else s2)"

definition map_local_name :: "VoIpConfig \<Rightarrow> session_run \<Rightarrow> session_run" where
  "map_local_name c s =
     (let ip = IpToString (os_localIp s); known = sr_localPartyNameMap s ip
      in if \<not> vc_localPartyNameMapEnable c then s
         else if vs_localPartyName s \<noteq> vs_localParty s \<and> vs_localPartyName s \<noteq> [] \<and> vs_localPartyName s \<noteq> known
         then s\<lparr>sr_localPartyNameMap := (sr_localPartyNameMap s)(ip := vs_localPartyName s)\<rparr>
         else if known \<noteq> [] \<and> vs_localPartyName s \<noteq> known then s\<lparr>vs_localPartyName := known\<rparr>
         else s)"

definition ReportMetadata :: "voip_env \<Rightarrow> session_run \<Rightarrow> session_run" where
  "ReportMetadata e s =
     (let c = ve_config e;
          localIp = IpToString (os_localIp s); remoteIp = IpToString (vs_remoteIp s);
          s1 = fill_local_party c s;
          s2 = (if vs_isCallPickUp s1
                then s1\<lparr>vs_direction := (if vs_direction s1 = DirIn then DirOut else DirIn)\<rparr> else s1);
          s3 = map_local_name c s2;
          useName = (vs_localPartyName s3 \<noteq> [] \<and>
             ((vs_protocol s3 = ProtSkinny \<and> vc_skinnyNameAsLocalParty c) \<or> vc_partiesUseName c \<or>
              vc_localPartyUseName c));
          s4 = (report_local_party c useName s3)\<lparr>vs_localPartyReported := True\<rparr>;
          s5 = report_names c (report_entry_point (report_remote_party c s4));
          s6 = emit (event EtDirection (DirectionToString (vs_direction s5))) s5;
          s7 = emit (event EtLocalIp localIp) s6;
          s8 = emit (event EtRemoteIp remoteIp) s7;
          s9 = emit (event EtOrkUid (vs_orkUid s8)) s8;
          s10 = emit (event EtCallId (vs_callId s9)) s9;
          s11 = (if os_onDemand s10 then emit (key_value ''ondemand'' ''true'') s10 else s10);
          s12 = fold (\<lambda>(k, v). emit (key_value k v)) (vs_tags s11) s11
      in emit (event EtEndMetadata []) s12)"

section \<open>Hold and on-demand recording\<close>

definition reports_hold :: "VoIpConfig \<Rightarrow> bool" where
  "reports_hold c \<longleftrightarrow> vc_holdResumeReportDuration c \<or> vc_holdResumeReportEvents c"

definition GoOnHold :: "VoIpConfig \<Rightarrow> int \<Rightarrow> session_run \<Rightarrow> session_run" where
  "GoOnHold c onHoldTime s =
     (if \<not> os_started s then s
      else
        let s1 = s\<lparr>vs_onHold := True, vs_holdBegin := onHoldTime\<rparr>
        in if reports_hold c then emit (event EtHold (os_trackingId s1)) s1 else s1)"

definition GoOffHold :: "VoIpConfig \<Rightarrow> int \<Rightarrow> session_run \<Rightarrow> session_run" where
  "GoOffHold c offHoldTime s =
     (let s1 = s\<lparr>vs_lastUpdated := offHoldTime, vs_onHold := False,
                 vs_holdDuration := vs_holdDuration s + (offHoldTime - vs_holdBegin s)\<rparr>;
          s2 = (if vc_holdReportStats c then emit (key_value ''holdtime'' (IntToString (vs_holdDuration s1))) s1 else s1)
      in if reports_hold c then emit (event EtResume (os_trackingId s2)) s2 else s2)"

definition MarkAsOnDemand :: "string \<Rightarrow> session_run \<Rightarrow> session_run" where
  "MarkAsOnDemand side s =
     (let s1 = s\<lparr>os_onDemand := True\<rparr>
      in if os_started s1 then
           emit (event EtUpdate []) (emit (event EtAudioKeepDirection side) (emit (key_value ''ondemand'' ''true'') s1))
         else s1)"

definition MarkAsOnDemandOff :: "session_run \<Rightarrow> session_run" where
  "MarkAsOnDemandOff s =
     (let s1 = s\<lparr>os_onDemand := False\<rparr>
      in if os_started s1 then emit (event EtUpdate []) (emit (key_value ''ondemand'' ''false'') s1) else s1)"

definition TriggerOnDemandViaDtmf :: "session_run \<Rightarrow> session_run" where
  "TriggerOnDemandViaDtmf s = MarkAsOnDemand ''both'' (s\<lparr>os_keepRtp := True\<rparr>)"

definition voip_virtuals where
  "voip_virtuals e = \<lparr>sv_Start = Session_Start e, sv_ReportMetadata = ReportMetadata e,
     sv_TriggerOnDemand = TriggerOnDemandViaDtmf\<rparr>"

section \<open>RTP packets\<close>

text \<open>What the check of a packet says: dismiss it, the stream is broken, or take it on a channel.\<close>

datatype rtp_verdict = Dismiss | Broken | Take nat

definition seq_delta :: "RtpPacketInfo \<Rightarrow> RtpPacketInfo \<Rightarrow> int" where
  "seq_delta p q = uint (rp_seqNum p) - uint (rp_seqNum q)"

definition rtp_discontinuity :: "VoIpConfig \<Rightarrow> session_run \<Rightarrow> RtpPacketInfo \<Rightarrow> RtpPacketInfo \<Rightarrow> bool" where
  "rtp_discontinuity c s p q \<longleftrightarrow> vc_rtpDiscontinuityDetect c \<and>
     \<bar>seq_delta p q\<bar> > vs_minRtpSeqDelta s \<and>
     \<bar>uint (rp_timestamp p) - uint (rp_timestamp q)\<bar> > vs_minRtpTimestampDelta s"

text \<open>The distance of the sequence numbers once the pause test has counted a reset.\<close>

definition reset_delta :: "RtpPacketInfo \<Rightarrow> RtpPacketInfo \<Rightarrow> int" where
  "reset_delta p q =
     (if uint (rp_seqNum p) < uint (rp_seqNum q) then 65536 - uint (rp_seqNum q) + uint (rp_seqNum p)
      else seq_delta p q)"

definition note_highest :: "int \<Rightarrow> session_run \<Rightarrow> session_run" where
  "note_highest d s = (if d > vs_highestRtpSeqNumDelta s then s\<lparr>vs_highestRtpSeqNumDelta := d\<rparr> else s)"

definition check_side1 ::
    "VoIpConfig \<Rightarrow> RtpPacketInfo \<Rightarrow> RtpPacketInfo \<Rightarrow> session_run \<Rightarrow> rtp_verdict \<times> session_run" where
  "check_side1 c p q s =
     (if rp_timestamp p = rp_timestamp q then (Dismiss, s\<lparr>vs_hasDuplicateRtp := True\<rparr>)
      else if rtp_discontinuity c s p q then (Broken, s)
      else
        let dt = sint (rp_timestamp p - rp_timestamp q);
            pause = (vc_rtpBreakupOnStreamPause c \<and> \<bar>seq_delta p q\<bar> * 160 < dt);
            d = (if pause then reset_delta p q else seq_delta p q)
        in if pause \<and> d * 160 < dt then (Broken, s)
           else
             let s1 = note_highest d s;
                 s2 = (if d > 1 \<and> d \<le> vc_rtpSeqGapThreshold c
                       then s1\<lparr>vs_rtpNumSeqGaps := vs_rtpNumSeqGaps s1 + 1,
                               vs_rtpNumMissingPkts := vs_rtpNumMissingPkts s1 + (word_of_int d - 1)\<rparr> else s1)
             in (Take 1, s2\<lparr>os_side1 := Some p, vs_numAlienRtpPacketsS1 := 0\<rparr>))"

definition check_side2 ::
    "VoIpConfig \<Rightarrow> RtpPacketInfo \<Rightarrow> RtpPacketInfo \<Rightarrow> session_run \<Rightarrow> rtp_verdict \<times> session_run" where
  "check_side2 c p q s =
     (if rp_timestamp p = rp_timestamp q then (Dismiss, s\<lparr>vs_hasDuplicateRtp := True\<rparr>)
      else if rtp_discontinuity c s p q then (Broken, s)
      else
        let dt = sint (rp_timestamp p - rp_timestamp q);
            d = (if vc_rtpBreakupOnStreamPause c then reset_delta p q else seq_delta p q)
        in if vc_rtpBreakupOnStreamPause c \<and> d * 160 < dt then (Broken, s)
           else (Take 2, (note_highest d s)\<lparr>os_side2 := Some p, vs_numAlienRtpPacketsS2 := 0\<rparr>))"

text \<open>A packet of neither stream: a new stream takes the place of a side after enough packets.\<close>

definition note_candidate :: "voip_env \<Rightarrow> RtpPacketInfo \<Rightarrow> session_run \<Rightarrow> session_run" where
  "note_candidate e p s =
     (if vs_ssrcCandidate s = - 1
      then s\<lparr>vs_ssrcCandidate := rp_ssrc p, vs_ssrcCandidateTimestamp := word_of_int (rp_arrivalTimestamp p)\<rparr>
      else if rp_ssrc p = vs_ssrcCandidate s
      then s\<lparr>vs_ssrcCandidateTimestamp := word_of_int (rp_arrivalTimestamp p),
             vs_numAlienRtpPacketsS1 := vs_numAlienRtpPacketsS1 s + 1,
             vs_numAlienRtpPacketsS2 := vs_numAlienRtpPacketsS2 s + 1\<rparr>
      else if ve_now e - uint (vs_ssrcCandidateTimestamp s) > 2
      then s\<lparr>vs_ssrcCandidate := - 1, vs_numAlienRtpPacketsS1 := 0, vs_numAlienRtpPacketsS2 := 0\<rparr>
      else s)"

definition check_alien :: "voip_env \<Rightarrow> RtpPacketInfo \<Rightarrow> session_run \<Rightarrow> rtp_verdict \<times> session_run" where
  "check_alien e p s0 =
     (let s = note_candidate e p s0
      in if vs_numAlienRtpPacketsS1 s > 10
         then (Take 1, s\<lparr>vs_numAlienRtpPacketsS1 := 0, vs_ssrcCandidate := - 1, os_side1 := Some p,
                        vs_mappedS1S2 := False, vs_lastRtpStreamStart := ve_now e\<rparr>)
         else if vs_numAlienRtpPacketsS2 s > 10
         then (Take 2, s\<lparr>vs_numAlienRtpPacketsS2 := 0, vs_ssrcCandidate := - 1, os_side2 := Some p,
                        vs_mappedS1S2 := False, vs_lastRtpStreamStart := ve_now e\<rparr>)
         else (Dismiss, s))"

definition check_packet ::
    "voip_env \<Rightarrow> RtpPacketInfo \<Rightarrow> nat \<Rightarrow> bool \<Rightarrow> session_run \<Rightarrow> (rtp_verdict \<times> session_run) outcome" where
  "check_packet e p channel first s =
     (if channel = 1 \<and> \<not> first then
        (case os_side1 s of None \<Rightarrow> Undefined | Some q \<Rightarrow> Done (check_side1 (ve_config e) p q s))
      else if channel = 2 \<and> \<not> first then
        (case os_side2 s of None \<Rightarrow> Undefined | Some q \<Rightarrow> Done (check_side2 (ve_config e) p q s))
      else if channel = 0 then Done (check_alien e p s)
      else Done (Take channel, s))"

text \<open>The steps of \<open>AddRtpPacket\<close>, in its order.\<close>

definition process_metadata :: "voip_env \<Rightarrow> RtpPacketInfo \<Rightarrow> session_run \<Rightarrow> session_run outcome" where
  "process_metadata e p s =
     (if vs_metadataProcessed s then Done s
      else
        let s1 = s\<lparr>vs_metadataProcessed := True\<rparr>
        in case vs_protocol s1 of
            ProtRawRtp \<Rightarrow> Done (ProcessMetadataRawRtp e p s1)
          | ProtSip \<Rightarrow> ProcessMetadataSip e s1
          | ProtSkinny \<Rightarrow> Done (ProcessMetadataSkinny p s1)
          | ProtUnkn \<Rightarrow> Done s1)"

definition start_now :: "voip_env \<Rightarrow> session_run \<Rightarrow> session_run" where
  "start_now e s =
     (if bc_discardUnidirectionalCalls (vc_base (ve_config e)) then s\<lparr>os_startWhenReceiveS2 := True\<rparr>
      else ReportMetadata e (Session_Start e s))"

definition non_lookback_start :: "voip_env \<Rightarrow> session_run \<Rightarrow> session_run" where
  "non_lookback_start e s =
     (let c = ve_config e
      in if \<not> bc_lookBackRecording (vc_base c) \<and> \<not> os_nonLookBackSessionStarted s \<and>
            (vs_protocol s \<noteq> ProtRawRtp \<or>
             (vc_trackRawRtpSessionInNonLookBackMode c \<and>
              vs_numIgnoredRtpPackets s = vc_rtpMinAmountOfPacketsBeforeStart c))
         then if bc_discardUnidirectionalCalls (vc_base c) then start_now e s
              else (start_now e s)\<lparr>os_nonLookBackSessionStarted := True\<rparr>
         else s)"

definition is_telephone_event :: "VoIpConfig \<Rightarrow> RtpPacketInfo \<Rightarrow> session_run \<Rightarrow> bool" where
  "is_telephone_event c p s \<longleftrightarrow> vs_protocol s = ProtSip \<and> vc_rtpReportDtmf c \<and>
     os_telephoneEventPayloadType s \<noteq> 0 \<and> uint (rp_payloadType p) = os_telephoneEventPayloadType s"

definition add_telephone_event :: "voip_env \<Rightarrow> RtpPacketInfo \<Rightarrow> session_run \<Rightarrow> session_run" where
  "add_telephone_event e p s =
     (let c = ve_config e
      in if vc_rtpDtmfOnlyLocal c \<and> rp_sourceIp p \<noteq> os_localIp s then s
         else
           let (s1, evs) = HandleRtpEvent (vc_base c) (vc_acp c) (voip_virtuals e) (ve_now e) 0
                             (rp_payload p) (rp_timestamp p) (ucast (rp_seqNum p)) s
           in fold emit evs s1)"

definition detect :: "voip_env \<Rightarrow> RtpPacketInfo \<Rightarrow> session_run \<Rightarrow> (nat \<times> bool \<times> session_run) outcome" where
  "detect e p s =
     DetectChannel (ve_alloc e) (ve_audio e) (voip_virtuals e) (vc_base (ve_config e)) (vc_acp (ve_config e)) p s"

definition ignore_packet :: "voip_env \<Rightarrow> RtpPacketInfo \<Rightarrow> session_run \<Rightarrow> session_run outcome" where
  "ignore_packet e p s =
     and_then
       (if os_nonLookBackSessionStarted s then
          Done (if ve_now e - vs_lastKeepAlive s > 1
                then emit (event EtUnknown []) (s\<lparr>vs_lastKeepAlive := ve_now e\<rparr>) else s)
        else and_then (detect e p s) (\<lambda>(_, _, s1). Done s1))
       (\<lambda>s1. Done (s1\<lparr>vs_lastUpdated := rp_arrivalTimestamp p,
                      vs_numIgnoredRtpPackets := vs_numIgnoredRtpPackets s1 + 1\<rparr>))"

text \<open>A packet during a hold: a keep-alive is dismissed, audio after an interruption ends the hold.\<close>

definition hold_step :: "VoIpConfig \<Rightarrow> RtpPacketInfo \<Rightarrow> session_run \<Rightarrow> bool \<times> session_run" where
  "hold_step c p s =
     (if \<not> vs_onHold s then (True, s)
      else case vs_lastRtpPacket s of
          None \<Rightarrow> (True, s)
        | Some q \<Rightarrow>
            if uint (rp_payloadType p) > 18 then (False, s)
            else (True, if rp_arrivalTimestamp p - rp_arrivalTimestamp q > 1
                        then GoOffHold c (rp_arrivalTimestamp p) s else s))"

definition map_channels :: "VoIpConfig \<Rightarrow> nat \<Rightarrow> session_run \<Rightarrow> (nat \<times> session_run) outcome" where
  "map_channels c channel s =
     (if acp_s1s2Deterministic (vc_acp c) \<and> \<not> vs_mappedS1S2 s \<and> os_side1 s \<noteq> None \<and> os_side2 s \<noteq> None then
        let s1 = s\<lparr>vs_mappedS1S2 := True\<rparr>
        in if vs_protocol s1 = ProtSip \<or> vs_protocol s1 = ProtSkinny then
             and_then (ShouldSwapChannels (vc_acp c) s1) (\<lambda>swap.
               Done (if swap then (channel mod 2 + 1, s1\<lparr>os_side1 := os_side2 s1, os_side2 := os_side1 s1\<rparr>)
                     else (channel, s1)))
           else Done (channel, s1)
      else Done (channel, s))"

definition note_addresses :: "VoIpConfig \<Rightarrow> RtpPacketInfo \<Rightarrow> session_run \<Rightarrow> session_run outcome" where
  "note_addresses c p s =
     (let (hasSource, l1) = HasAddressOrAdd (rp_sourceIp p) (unat (rp_sourcePort p)) (vs_rtpAddressList s);
          (hasDest, l2) = HasAddressOrAdd (rp_destIp p) (unat (rp_destPort p)) l1;
          s1 = s\<lparr>vs_rtpAddressList := l2\<rparr>
      in if (\<not> hasSource \<or> \<not> hasDest) \<and> vs_protocol s1 = ProtSip \<and> os_started s1 \<and>
            vc_sipAllowMetadataUpdateOnRtpChange c
         then UpdateMetadataSipOnRtpChange c p hasDest s1 else Done s1)"

definition enough_packets :: "VoIpConfig \<Rightarrow> session_run \<Rightarrow> bool" where
  "enough_packets c s =
     ((vs_protocol s = ProtRawRtp \<and> vs_numRtpPackets s = vc_rtpMinAmountOfPacketsBeforeStart c) \<or>
      (vs_protocol s = ProtSkinny \<and> vs_numRtpPackets s = 2) \<or>
      (vs_protocol s = ProtSip \<and>
       vs_numRtpPackets s = (if bc_discardUnidirectionalCalls (vc_base c) then 1 else 2)))"

definition send_audio :: "voip_env \<Rightarrow> RtpPacketInfo \<Rightarrow> nat \<Rightarrow> session_run \<Rightarrow> (RtpPacketInfo \<times> session_run) outcome" where
  "send_audio e p channel s =
     (let p1 = (if show_nat (unat (rp_payloadType p)) \<in> set (vc_speexPayloadTypes (ve_config e))
                then p\<lparr>rp_payloadType := word_of_int pt_SPEEX\<rparr> else p)
      in and_then (packet_details s p1) (\<lambda>d.
         and_then (SetBuffer (ve_alloc e) (Some (rp_payload p1)) (d\<lparr>cd_channel := of_nat channel\<rparr>) AudioChunk_new) (\<lambda>chunk.
         Done (p1, s\<lparr>sr_out := sr_out s @ [ChunkCallback chunk (os_capturePort s)]\<rparr>))))"

text \<open>A packet that was taken on a channel.\<close>

definition take_packet ::
    "voip_env \<Rightarrow> RtpPacketInfo \<Rightarrow> nat \<Rightarrow> session_run \<Rightarrow> (bool \<times> RtpPacketInfo \<times> session_run) outcome" where
  "take_packet e p ch s =
     and_then (map_channels (ve_config e) ch s) (\<lambda>(channel, s1).
     and_then (note_addresses (ve_config e) p
         (s1\<lparr>vs_numRtpPackets := vs_numRtpPackets s1 + 1, vs_lastUpdated := rp_arrivalTimestamp p\<rparr>)) (\<lambda>s2.
     let s3 = (if enough_packets (ve_config e) s2 \<and> bc_lookBackRecording (vc_base (ve_config e))
               then start_now e s2 else s2)
     in if os_started s3 then and_then (send_audio e p channel s3) (\<lambda>(p1, s4). Done (True, p1, s4))
        else Done (True, p, s3)))"

definition record_packet ::
    "voip_env \<Rightarrow> RtpPacketInfo \<Rightarrow> session_run \<Rightarrow> (bool \<times> RtpPacketInfo \<times> session_run) outcome" where
  "record_packet e p s =
     and_then (detect e p (s\<lparr>vs_lastRtpPacket := Some p\<rparr>)) (\<lambda>(channel, first, s1).
     and_then (check_packet e p channel first s1) (\<lambda>(verdict, s2).
       case verdict of
         Dismiss \<Rightarrow> Done (True, p, s2)
       | Broken \<Rightarrow> Done (False, p, s2)
       | Take ch \<Rightarrow> take_packet e p ch s2))"

text \<open>The result is \<open>False\<close> for a discontinuity; the packet may have got another payload type.\<close>

definition AddRtpPacket ::
    "voip_env \<Rightarrow> RtpPacketInfo \<Rightarrow> session_run \<Rightarrow> (bool \<times> RtpPacketInfo \<times> session_run) outcome" where
  "AddRtpPacket e p s =
     and_then (process_metadata e p s) (\<lambda>s0.
     let c = ve_config e; s1 = non_lookback_start e s0
     in if is_telephone_event c p s1 then Done (True, p, add_telephone_event e p s1)
        else if \<not> os_keepRtp s1 then and_then (ignore_packet e p s1) (\<lambda>s2. Done (True, p, s2))
        else
          let s2 = (if \<not> bc_lookBackRecording (vc_base c) \<and> vs_numRtpPackets s1 = 0 \<and>
                       \<not> os_nonLookBackSessionStarted s1
                    then start_now e s1 else s1)
          in if vs_protocol s2 = ProtSkinny \<and> rp_sourceIp p \<noteq> vs_endPointIp s2 \<and> rp_destIp p \<noteq> vs_endPointIp s2
             then Done (True, p, s2)
             else
               let (go, s3) = hold_step c p s2
               in if \<not> go then Done (True, p, s3) else record_packet e p s3)"

section \<open>SIP\<close>

definition Session_ReportSipBye :: "VoIpConfig \<Rightarrow> SipByeInfo \<Rightarrow> session_run \<Rightarrow> session_run" where
  "Session_ReportSipBye c bye s =
     (if \<not> vc_dahdiIntercept c then s
      else if ci_eq (vs_localParty s) ''s'' then
        let s1 = s\<lparr>vs_localParty := GetLocalPartyMap s
                     (if \<not> ci_eq (vs_remoteParty s) (sb_to bye) then sb_to bye else sb_from bye)\<rparr>
        in emit (event EtLocalParty (vs_localParty s1)) s1
      else if ci_eq (vs_remoteParty s) ''s'' then
        let s1 = s\<lparr>vs_remoteParty :=
                     (if \<not> ci_eq (vs_localParty s) (GetLocalPartyMap s (sb_to bye))
                      then GetLocalPartyMap s (sb_to bye) else GetLocalPartyMap s (sb_from bye))\<rparr>
        in emit (event EtRemoteParty (vs_remoteParty s1)) s1
      else s)"

definition IsNecExternal :: "VoIpConfig \<Rightarrow> SipInviteInfo \<Rightarrow> bool" where
  "IsNecExternal c i =
     MatchesStringList (if MatchesReferenceAddresses c (si_senderIp i) then si_from i else si_to i)
       (vc_necVoipGatewayNames c)"

definition Session_ReportSipNotify :: "VoIpConfig \<Rightarrow> SipNotifyInfo \<Rightarrow> session_run \<Rightarrow> session_run outcome" where
  "Session_ReportSipNotify c notify s =
     (case vs_invite s of
        None \<Rightarrow> Undefined
      | Some a \<Rightarrow>
          if \<not> IsNecExternal c (sr_invites s a) then Done s
          else
            let s1 = s\<lparr>vs_remotePartyNecSip := sn_dsp notify, vs_sipRemoteParty := sn_dsp notify\<rparr>
            in Done (if os_started s then emit (event EtRemoteParty (vs_remotePartyNecSip s1)) s1
                     else s1\<lparr>sr_invites := (sr_invites s1)
                            (a := (sr_invites s1 a)\<lparr>si_sipRemoteParty := sn_dsp notify\<rparr>)\<rparr>))"

definition invite_to_itself :: "SipInviteInfo \<Rightarrow> session_run \<Rightarrow> session_run" where
  "invite_to_itself i s =
     (if ci_eq (si_from i) (si_to i) \<and> si_contact i \<noteq> [] then
        let s1 = s\<lparr>vs_remoteParty := GetLocalPartyMap s (si_contact i), vs_direction := DirOut\<rparr>
        in emit (event EtDirection (DirectionToString (vs_direction s1)))
             (emit (event EtRemoteParty (vs_remoteParty s1)) s1)
      else s)"

definition update_sip_remote_party :: "VoIpConfig \<Rightarrow> SipInviteInfo \<Rightarrow> session_run \<Rightarrow> session_run" where
  "update_sip_remote_party c i s =
     (if si_sipRemoteParty i \<noteq> [] \<and> (si_sipMethod i = ''INVITE'' \<or> vc_sipRemotePartyFrom200OKEnable c) then
        (if vs_sipRemoteParty s = [] then s\<lparr>vs_sipRemoteParty := si_sipRemoteParty i\<rparr>
         else if \<not> ci_eq (vs_sipRemoteParty s) (si_sipRemoteParty i)
         then s\<lparr>vs_localEntryPoint := vs_sipRemoteParty s, vs_sipRemoteParty := si_sipRemoteParty i\<rparr>
         else s)
      else s)"

definition gather_fields :: "SipInviteInfo \<Rightarrow> session_run \<Rightarrow> session_run" where
  "gather_fields i s =
     (if os_started s then fold (\<lambda>(k, v). emit (key_value k v)) (si_extractedFields i) s
      else s\<lparr>vs_tags := fold (\<lambda>(k, v). omap_insert str_less k v) (si_extractedFields i) (vs_tags s)\<rparr>)"

definition on_demand_by_field :: "VoIpConfig \<Rightarrow> session_run \<Rightarrow> session_run" where
  "on_demand_by_field c s =
     (if vc_sipOnDemandFieldName c = [] then s
      else case map_of (vs_tags s) (vc_sipOnDemandFieldName c) of
          None \<Rightarrow> s
        | Some v \<Rightarrow> if find_str (vc_sipOnDemandFieldValue c) v \<noteq> None
                    then s\<lparr>os_keepRtp := True, os_onDemand := True\<rparr> else s)"

definition Session_ReportSipInvite :: "VoIpConfig \<Rightarrow> nat \<Rightarrow> session_run \<Rightarrow> session_run" where
  "Session_ReportSipInvite c a s =
     (let i = sr_invites s a;
          s1 = (if vc_sipMetadataUseLastInvite c \<or> vs_invite s = None then s\<lparr>vs_invite := Some a\<rparr> else s);
          s2 = invite_to_itself i s1;
          s3 = s2\<lparr>vs_invites := a # vs_invites s2\<rparr>;
          s4 = (if si_telephoneEventPayloadType i \<noteq> 0
                then s3\<lparr>os_telephoneEventPayloadType := si_telephoneEventPayloadType i\<rparr> else s3);
          s5 = update_sip_remote_party c i s4;
          s6 = UpdateRtpPayloadMap (si_payloadTypeMap i) s5
      in on_demand_by_field c (gather_fields i s6))"

definition Session_ReportSipInfo :: "voip_env \<Rightarrow> SipInfo \<Rightarrow> session_run \<Rightarrow> session_run" where
  "Session_ReportSipInfo e info s =
     (let c = ve_config e
      in if (case vs_lastSipInfo s of None \<Rightarrow> False | Some i \<Rightarrow> ci_eq (sf_cSeq i) (sf_cSeq info)) then s
         else
           let s1 = s\<lparr>vs_lastSipInfo := Some info\<rparr>;
               s2 = (if sf_dtmfDigit info \<noteq> [] \<and> vc_sipInfoDtmfRfc2976Detect c
                     then let (s', evs) = ReportDtmfDigit (vc_base c) (vc_acp c) (voip_virtuals e) (ve_now e) 0
                                (sf_dtmfDigit info) 0 0 0 0 s1
                          in fold emit evs s'
                     else s1);
               s3 = (if vc_sipOnDemandFieldValue c \<noteq> [] \<and> sf_onDemand info then MarkAsOnDemand ''both'' s2 else s2)
           in if vc_sipOnDemandFieldValueOff c \<noteq> [] \<and> sf_onDemandOff info then MarkAsOnDemandOff s3 else s3)"

text \<open>\<open>ReportSipRefer\<close> also stores the identifier in the REFER information: the second component.\<close>

definition Session_ReportSipRefer :: "session_run \<Rightarrow> session_run \<times> string" where
  "Session_ReportSipRefer s = (emit (key_value ''orig-orkuid'' (vs_orkUid s)) s, vs_orkUid s)"

definition Session_ReportSipErrorPacket :: "session_run \<Rightarrow> session_run" where
  "Session_ReportSipErrorPacket s = emit (key_value ''failed'' ''true'') s"

section \<open>Skinny, and tests\<close>

definition Session_ReportSkinnyCallInfo :: "VoIpConfig \<Rightarrow> string \<Rightarrow> in_addr \<Rightarrow> session_run \<Rightarrow> session_run" where
  "Session_ReportSkinnyCallInfo c callingPartyName ip_src s =
     (let s1 = (if IsInSkinnyReportingList c ''localpartyname''
                then s\<lparr>vs_tags := omap_insert str_less ''localpartyname'' callingPartyName (vs_tags s)\<rparr> else s)
      in if IsInSkinnyReportingList c ''callmanager''
         then s1\<lparr>vs_tags := omap_insert str_less ''callmanager'' (IpToString ip_src) (vs_tags s1)\<rparr> else s1)"

definition Session_ReportSkinnyCallStateMessage :: "voip_env \<Rightarrow> nat \<Rightarrow> session_run \<Rightarrow> session_run" where
  "Session_ReportSkinnyCallStateMessage e callState s =
     (if callState = 8 \<and> \<not> vc_skinnyIgnoreHold (ve_config e) then GoOnHold (ve_config e) (ve_now e) s else s)"

definition OrkUidMatches :: "string \<Rightarrow> 'a VoIpSession_scheme \<Rightarrow> bool" where
  "OrkUidMatches uid s = ci_eq (vs_orkUid s) uid"

definition PartyMatches :: "string \<Rightarrow> 'a VoIpSession_scheme \<Rightarrow> bool" where
  "PartyMatches party s =
     (if party \<noteq> [] then ci_eq (vs_localParty s) party \<or> ci_eq (vs_remoteParty s) party else False)"

definition NativeCallIdMatches :: "string \<Rightarrow> 'a VoIpSession_scheme \<Rightarrow> bool" where
  "NativeCallIdMatches callid s = (if callid \<noteq> [] then ci_eq (vs_callId s) callid else False)"

definition IsMatchedLocalOrRemoteIp :: "in_addr \<Rightarrow> 'a VoIpSession_scheme \<Rightarrow> bool" where
  "IsMatchedLocalOrRemoteIp ip s \<longleftrightarrow> ip = os_localIp s \<or> ip = vs_remoteIp s"

end
