(* ===== verification/OrkVoipRuns.thy ===== *)
theory OrkVoipRuns
  imports OrkVoipSession
begin

text \<open>
  What a session of the VoIP plugin does over its life: what it reports, that no call is undefined,
  how the streams of a call are followed, and the cases in which a call is not recorded.
\<close>

section \<open>What a session reports\<close>

text \<open>
  An observer of the callbacks knows whether the session has started and stopped; audio before the
  start, a stop before the start and a second stop are not allowed.
\<close>

fun observe1 :: "callback \<Rightarrow> bool \<times> bool \<Rightarrow> (bool \<times> bool) option" where
  "observe1 (EventCallback e p) (started, stopped) =
     (if ev_type e = EtStart then Some (True, stopped)
      else if ev_type e = EtStop then (if started \<and> \<not> stopped then Some (started, True) else None)
      else Some (started, stopped))"
| "observe1 (ChunkCallback c p) (started, stopped) = (if started then Some (started, stopped) else None)"

primrec observe :: "callback list \<Rightarrow> bool \<times> bool \<Rightarrow> (bool \<times> bool) option" where
  "observe [] v = Some v"
| "observe (x # xs) v = (case observe1 x v of None \<Rightarrow> None | Some v' \<Rightarrow> observe xs v')"

lemma observe_append: "observe (xs @ ys) v = (case observe xs v of None \<Rightarrow> None | Some v' \<Rightarrow> observe ys v')"
  by (induction xs arbitrary: v) (auto split: option.split)

text \<open>
  \<open>reports s t\<close>: between the states, what was sent agrees with the flags, and what the registry knows the
  session by has not changed.
\<close>

definition kept :: "'a VoIpSession_scheme \<Rightarrow> string \<times> u64 \<times> u64 list \<times> string" where
  "kept s = (os_trackingId s, vs_ipAndPort s, vs_mediaAddresses s, vs_callId s)"

definition reports :: "session_run \<Rightarrow> session_run \<Rightarrow> bool" where
  "reports s t \<longleftrightarrow> kept t = kept s \<and> (\<exists>out. sr_out t = sr_out s @ out \<and>
     observe out (os_started s, os_stopped s) = Some (os_started t, os_stopped t))"

lemma reports_refl [simp, intro]: "reports s s"
  by (simp add: reports_def)

lemma reports_trans [trans]: "reports s t \<Longrightarrow> reports t u \<Longrightarrow> reports s u"
  by (auto simp: reports_def observe_append)

lemma reports_same:
  "reports s t \<Longrightarrow> sr_out t' = sr_out t \<Longrightarrow> os_started t' = os_started t \<Longrightarrow> os_stopped t' = os_stopped t
    \<Longrightarrow> kept t' = kept t \<Longrightarrow> reports s t'"
  by (simp add: reports_def)

named_theorems quiet

lemma reports_emit [quiet]:
  "ev_type e \<noteq> EtStart \<Longrightarrow> ev_type e \<noteq> EtStop \<Longrightarrow> reports s t \<Longrightarrow> reports s (emit e t)"
  by (auto simp: reports_def kept_def emit_def observe_append)

lemma event_type [simp]: "ev_type (event t v) = t" "ev_type (key_value k v) = EtKeyValue"
  by (simp_all add: event_def key_value_def)

text \<open>The other fields do not matter.\<close>

lemma reports_fields [quiet]:
  assumes "reports s t"
  shows "reports s (os_capturePort_update f1 t)" "reports s (os_beginDate_update f2 t)"
    "reports s (os_dtmfDigitString_update f3 t)" "reports s (os_currentRtpEventTs_update f4 t)"
    "reports s (os_telephoneEventPayloadType_update f5 t)" "reports s (os_keepRtp_update f6 t)"
    "reports s (os_onDemand_update f6 t)" "reports s (os_startWhenReceiveS2_update f6 t)"
    "reports s (os_nonLookBackSessionStarted_update f6 t)" "reports s (os_side1_update f7 t)"
    "reports s (os_side2_update f7 t)" "reports s (os_localIp_update f8 t)"
    "reports s (os_payloadTypeMap_update f9 t)" "reports s (vs_localParty_update f3 t)"
    "reports s (vs_remoteParty_update f3 t)" "reports s (vs_localEntryPoint_update f3 t)"
    "reports s (vs_localPartyName_update f3 t)" "reports s (vs_remotePartyName_update f3 t)"
    "reports s (vs_localPartyReported_update f6 t)" "reports s (vs_remotePartyReported_update f6 t)"
    "reports s (vs_rtcpLocalParty_update f6 t)" "reports s (vs_rtcpRemoteParty_update f6 t)"
    "reports s (vs_direction_update f10 t)" "reports s (vs_localSide_update f11 t)"
    "reports s (vs_lastUpdated_update f2 t)" "reports s (vs_orkUid_update f3 t)"
    "reports s (vs_tags_update f12 t)" "reports s (vs_onHold_update f6 t)"
    "reports s (vs_holdBegin_update f2 t)" "reports s (vs_holdDuration_update f2 t)"
    "reports s (sr_invites_update f13 t)" "reports s (sr_localPartyNameMap_update f14 t)"
    "reports s (sr_endpoints_update f15 t)" "reports s (vs_invite_update f16 t)"
    "reports s (vs_invites_update f17 t)" "reports s (vs_sipRemoteParty_update f3 t)"
    "reports s (vs_remotePartyNecSip_update f3 t)" "reports s (vs_lastSipInfo_update f18 t)"
    "reports s (vs_remoteIp_update f8 t)" "reports s (vs_localMac_update f9 t)"
    "reports s (vs_remoteMac_update f9 t)" "reports s (vs_metadataProcessed_update f6 t)"
    "reports s (vs_lastRtpPacket_update f7 t)" "reports s (vs_lastKeepAlive_update f2 t)"
    "reports s (vs_numRtpPackets_update f2 t)" "reports s (vs_numIgnoredRtpPackets_update f2 t)"
    "reports s (vs_hasDuplicateRtp_update f6 t)" "reports s (vs_highestRtpSeqNumDelta_update f2 t)"
    "reports s (vs_rtpNumSeqGaps_update f4 t)" "reports s (vs_rtpNumMissingPkts_update f4 t)"
    "reports s (vs_numAlienRtpPacketsS1_update f4 t)" "reports s (vs_numAlienRtpPacketsS2_update f4 t)"
    "reports s (vs_ssrcCandidate_update f4 t)" "reports s (vs_ssrcCandidateTimestamp_update f4 t)"
    "reports s (vs_mappedS1S2_update f6 t)" "reports s (vs_lastRtpStreamStart_update f2 t)"
    "reports s (vs_rtpAddressList_update f19 t)" "reports s (vs_protocol_update f20 t)"
  using assms by (simp_all add: reports_def kept_def)

lemma reports_if [quiet]: "(b \<Longrightarrow> reports s t) \<Longrightarrow> (\<not> b \<Longrightarrow> reports s u) \<Longrightarrow> reports s (if b then t else u)"
  by simp

lemma reports_fold [quiet]:
  assumes "\<And>x t. x \<in> set xs \<Longrightarrow> reports s t \<Longrightarrow> reports s (f x t)" "reports s t"
  shows "reports s (fold f xs t)"
  using assms by (induction xs arbitrary: t) auto

text \<open>Most operations also leave the call as it is: its protocol, its INVITE and the payload types.\<close>

definition steady :: "session_run \<Rightarrow> session_run \<Rightarrow> bool" where
  "steady s t \<longleftrightarrow> reports s t \<and> vs_protocol t = vs_protocol s \<and> vs_invite t = vs_invite s \<and>
     os_payloadTypeMap t = os_payloadTypeMap s \<and>
     (\<forall>a. si_payloadTypeMap (sr_invites t a) = si_payloadTypeMap (sr_invites s a))"

lemma steady_refl [simp, intro]: "steady s s"
  by (simp add: steady_def)

lemma steady_trans [trans]: "steady s t \<Longrightarrow> steady t u \<Longrightarrow> steady s u"
  using reports_trans by (auto simp: steady_def)

lemma steady_emit [quiet]:
  "ev_type e \<noteq> EtStart \<Longrightarrow> ev_type e \<noteq> EtStop \<Longrightarrow> steady s t \<Longrightarrow> steady s (emit e t)"
  using reports_emit by (auto simp: steady_def emit_def)

lemma steady_fields [quiet]:
  assumes "steady s t"
  shows "steady s (os_capturePort_update f1 t)" "steady s (os_beginDate_update f2 t)"
    "steady s (os_dtmfDigitString_update f3 t)" "steady s (os_currentRtpEventTs_update f4 t)"
    "steady s (os_telephoneEventPayloadType_update f5 t)" "steady s (os_keepRtp_update f6 t)"
    "steady s (os_onDemand_update f6 t)" "steady s (os_startWhenReceiveS2_update f6 t)"
    "steady s (os_nonLookBackSessionStarted_update f6 t)" "steady s (os_side1_update f7 t)"
    "steady s (os_side2_update f7 t)" "steady s (os_localIp_update f8 t)"
     "steady s (vs_localParty_update f3 t)"
    "steady s (vs_remoteParty_update f3 t)" "steady s (vs_localEntryPoint_update f3 t)"
    "steady s (vs_localPartyName_update f3 t)" "steady s (vs_remotePartyName_update f3 t)"
    "steady s (vs_localPartyReported_update f6 t)" "steady s (vs_remotePartyReported_update f6 t)"
    "steady s (vs_rtcpLocalParty_update f6 t)" "steady s (vs_rtcpRemoteParty_update f6 t)"
    "steady s (vs_direction_update f10 t)" "steady s (vs_localSide_update f11 t)"
    "steady s (vs_lastUpdated_update f2 t)" "steady s (vs_orkUid_update f3 t)"
    "steady s (vs_tags_update f12 t)" "steady s (vs_onHold_update f6 t)"
    "steady s (vs_holdBegin_update f2 t)" "steady s (vs_holdDuration_update f2 t)"
     "steady s (sr_localPartyNameMap_update f14 t)"
    "steady s (sr_endpoints_update f15 t)"
    "steady s (vs_invites_update f17 t)" "steady s (vs_sipRemoteParty_update f3 t)"
    "steady s (vs_remotePartyNecSip_update f3 t)" "steady s (vs_lastSipInfo_update f18 t)"
    "steady s (vs_remoteIp_update f8 t)" "steady s (vs_localMac_update f9 t)"
    "steady s (vs_remoteMac_update f9 t)" "steady s (vs_metadataProcessed_update f6 t)"
    "steady s (vs_lastRtpPacket_update f7 t)" "steady s (vs_lastKeepAlive_update f2 t)"
    "steady s (vs_numRtpPackets_update f2 t)" "steady s (vs_numIgnoredRtpPackets_update f2 t)"
    "steady s (vs_hasDuplicateRtp_update f6 t)" "steady s (vs_highestRtpSeqNumDelta_update f2 t)"
    "steady s (vs_rtpNumSeqGaps_update f4 t)" "steady s (vs_rtpNumMissingPkts_update f4 t)"
    "steady s (vs_numAlienRtpPacketsS1_update f4 t)" "steady s (vs_numAlienRtpPacketsS2_update f4 t)"
    "steady s (vs_ssrcCandidate_update f4 t)" "steady s (vs_ssrcCandidateTimestamp_update f4 t)"
    "steady s (vs_mappedS1S2_update f6 t)" "steady s (vs_lastRtpStreamStart_update f2 t)"
    "steady s (vs_rtpAddressList_update f19 t)"
  using assms by (simp_all add: steady_def reports_fields)

lemma steady_event [quiet]:
  assumes "ev_type e \<noteq> EtStart" "ev_type e \<noteq> EtStop" "steady s t"
  shows "steady s (t\<lparr>sr_out := sr_out t @ [EventCallback e p]\<rparr>)"
proof -
  have "steady s ((emit e (t\<lparr>os_capturePort := p\<rparr>))\<lparr>os_capturePort := os_capturePort t\<rparr>)"
    using assms by (intro quiet)
  then show ?thesis by (simp add: emit_def)
qed

lemma steady_invite [quiet]:
  assumes "steady s t" "si_payloadTypeMap i = si_payloadTypeMap (sr_invites t a)"
  shows "steady s (t\<lparr>sr_invites := (sr_invites t)(a := i)\<rparr>)"
  using assms by (auto simp: steady_def reports_def kept_def)

lemma steady_if [quiet]: "(b \<Longrightarrow> steady s t) \<Longrightarrow> (\<not> b \<Longrightarrow> steady s u) \<Longrightarrow> steady s (if b then t else u)"
  by simp

lemma steady_fold [quiet]:
  assumes "\<And>x t. x \<in> set xs \<Longrightarrow> steady s t \<Longrightarrow> steady s (f x t)" "steady s t"
  shows "steady s (fold f xs t)"
  using assms by (induction xs arbitrary: t) auto

text \<open>Every operation of a session reports what it does to the flags.\<close>

lemma steady_start: "steady s (Session_Start e s)"
proof -
  let ?s = "(if \<not> os_started s then GenerateOrkUid e (s\<lparr>os_beginDate := ve_now e\<rparr>)
             else s\<lparr>os_beginDate := ve_now e\<rparr>)\<lparr>os_started := True\<rparr>"
  let ?t = "emit ((event EtStart (os_trackingId ?s))\<lparr>ev_timestamp := os_beginDate ?s\<rparr>) ?s"
  have t: "steady s ?t"
    by (simp add: steady_def reports_def kept_def emit_def event_def GenerateOrkUid_def Let_def)
  have "steady s (SkinnyTrackConferencesTransfers e p u)" if "steady s u" for p u
    unfolding SkinnyTrackConferencesTransfers_def Let_def using that by (simp add: quiet split: option.split)
  with t show ?thesis by (simp add: Session_Start_def Let_def)
qed

lemma steady_stop_event:
  assumes "steady s t" "os_started t" "\<not> os_stopped t" "ev_type e = EtStop"
  shows "steady s ((emit e t)\<lparr>os_stopped := True\<rparr>)"
proof -
  from assms(1) obtain out where "kept t = kept s" "sr_out t = sr_out s @ out"
    "observe out (os_started s, os_stopped s) = Some (os_started t, os_stopped t)"
    by (auto simp: steady_def reports_def)
  with assms(2-4) have "reports s ((emit e t)\<lparr>os_stopped := True\<rparr>)"
    by (auto simp: reports_def kept_def emit_def observe_append intro!: exI [of _ "out @ [EventCallback e (os_capturePort t)]"])
  then show ?thesis using assms(1) by (simp add: steady_def emit_def)
qed

lemma stop_extracted_party_flags [simp]:
  "os_started (stop_extracted_party e s) = os_started s" "os_stopped (stop_extracted_party e s) = os_stopped s"
  by (simp_all add: stop_extracted_party_def Let_def emit_def split: option.split)

lemma emit_flags [simp]: "os_started (emit e s) = os_started s" "os_stopped (emit e s) = os_stopped s"
  by (simp_all add: emit_def)

lemma steady_stop_extracted_party [quiet]: "steady s t \<Longrightarrow> steady s (stop_extracted_party e t)"
  by (auto simp: stop_extracted_party_def Let_def intro!: quiet split: option.split)

lemma steady_stop: "steady s (Session_Stop e s)"
  unfolding Session_Stop_def Let_def by (intro quiet steady_stop_event) (auto intro!: quiet)

lemma steady_report_parts [quiet]:
  assumes "steady s t"
  shows "steady s (report_local_party c b t)" "steady s (report_names c t)" "steady s (report_remote_party c t)"
    "steady s (report_entry_point t)" "steady s (uri_parties i t)" "steady s (default_names l r t)"
    "steady s (map_local_name c t)"
  using assms by (auto simp: report_local_party_def report_names_def report_remote_party_def
    report_entry_point_def uri_parties_def default_names_def map_local_name_def Let_def intro!: quiet)

lemma steady_fill_local_party [quiet]: "steady s t \<Longrightarrow> steady s (fill_local_party c t)"
  by (auto simp: fill_local_party_def Let_def intro!: quiet split: option.splits)

lemma steady_ReportMetadata [quiet]: "steady s t \<Longrightarrow> steady s (ReportMetadata e t)"
  unfolding ReportMetadata_def Let_def by (intro quiet) (auto intro!: quiet)

lemma steady_let:
  fixes a :: session_run
  assumes "steady s a" "\<And>x. steady s x \<Longrightarrow> yields (steady s) (f x)"
  shows "yields (steady s) (let x = a in f x)"
  using assms by simp

lemma steady_MarkAsOnDemand [quiet]: "steady s t \<Longrightarrow> steady s (MarkAsOnDemand side t)"
  by (auto simp: MarkAsOnDemand_def Let_def intro!: quiet)

lemma steady_MarkAsOnDemandOff [quiet]: "steady s t \<Longrightarrow> steady s (MarkAsOnDemandOff t)"
  by (auto simp: MarkAsOnDemandOff_def Let_def intro!: quiet)

lemma steady_TriggerOnDemandViaDtmf [quiet]: "steady s t \<Longrightarrow> steady s (TriggerOnDemandViaDtmf t)"
  by (auto simp: TriggerOnDemandViaDtmf_def intro!: quiet)

lemma steady_Session_Start [quiet]: "steady s t \<Longrightarrow> steady s (Session_Start e t)"
  by (rule steady_trans [OF _ steady_start])

lemma steady_begin_session [quiet]: "steady s t \<Longrightarrow> steady s (begin_session (voip_virtuals e) bc t)"
  by (auto simp: begin_session_def voip_virtuals_def Let_def intro!: quiet)

lemma steady_GoOnHold [quiet]: "steady s t \<Longrightarrow> steady s (GoOnHold c n t)"
  by (auto simp: GoOnHold_def Let_def intro!: quiet)

lemma steady_GoOffHold [quiet]: "steady s t \<Longrightarrow> steady s (GoOffHold c n t)"
  by (auto simp: GoOffHold_def Let_def intro!: quiet)

lemma steady_start_now [quiet]: "steady s t \<Longrightarrow> steady s (start_now e t)"
  by (auto simp: start_now_def intro!: quiet)

text \<open>The trigger of a VoIP session leaves the digits alone, as the machine of \<open>OrkDtmf\<close> asks.\<close>

lemma voip_keeps_digits: "keeps_digits (voip_virtuals e)"
  by (auto simp: keeps_digits_def voip_virtuals_def TriggerOnDemandViaDtmf_def MarkAsOnDemand_def emit_def Let_def)

lemma steady_ReportDtmfDigit:
  assumes "ReportDtmfDigit bc c (voip_virtuals e) now ch d dur vol ts n t = (t', evs)" "steady s t"
  shows "steady s (fold emit evs t')"
proof -
  have t': "t' = dtmf_command c (voip_virtuals e) (add_digit d t)" and
    evs: "\<And>x. x \<in> set evs \<Longrightarrow> ev_type x = EtKeyValue"
    using assms(1) by (auto simp: ReportDtmfDigit_def Let_def dtmf_reports_def key_value_def split: if_splits)
  have "steady s (case (x, y) of (False, False) \<Rightarrow> if od then t1 else u
          | (False, True) \<Rightarrow> if od then t1 else if pause then t2 else u
          | (True, False) \<Rightarrow> if od then t1 else u | (True, True) \<Rightarrow> if pause then t3 else u)"
    if "steady s u" "steady s t1" "steady s t2" "steady s t3" for u t1 t2 t3 x y od pause
    using that by (cases x; cases y) simp_all
  then have "steady s (dtmf_command c (voip_virtuals e) u)" if "steady s u" for u
    unfolding dtmf_command_def Let_def voip_virtuals_def using that by (simp add: quiet)
  moreover have "steady s (add_digit d t)" using assms(2) by (auto simp: add_digit_def intro!: quiet)
  ultimately show ?thesis unfolding t' by (intro quiet) (auto simp: evs)
qed

lemma steady_add_telephone_event [quiet]:
  assumes "steady s t" shows "steady s (add_telephone_event e p t)"
proof -
  have "steady s (fold emit evs t')"
    if "HandleRtpEvent bc c (voip_virtuals e) now ch pl ts n t = (t', evs)" for bc c now ch pl ts n t' evs
  proof -
    have "steady s (t\<lparr>os_currentRtpEventTs := ts\<rparr>)" using assms by (rule quiet)
    from that steady_ReportDtmfDigit [OF _ this] show ?thesis
      using assms by (simp add: HandleRtpEvent_def split: list.splits if_splits)
  qed
  then show ?thesis using assms by (auto simp: add_telephone_event_def Let_def split: prod.split)
qed

lemma steady_DetectChannel:
  assumes "detect e p t = Done (ch, b, t')" "steady s t"
  shows "steady s t'"
  using assms unfolding detect_def DetectChannel_def
  by (auto simp: Let_def intro!: quiet split: option.splits if_splits)

lemma steady_note_highest [quiet]: "steady s t \<Longrightarrow> steady s (note_highest d t)"
  by (auto simp: note_highest_def intro!: quiet)

lemma steady_check_side1: "steady s t \<Longrightarrow> steady s (snd (check_side1 c p q t))"
  unfolding check_side1_def Let_def by (simp add: quiet)

lemma steady_check_side2: "steady s t \<Longrightarrow> steady s (snd (check_side2 c p q t))"
  unfolding check_side2_def Let_def by (simp add: quiet)

lemma steady_check_alien: "steady s t \<Longrightarrow> steady s (snd (check_alien e p t))"
  unfolding check_alien_def note_candidate_def Let_def by (simp add: quiet)

lemma steady_check_packet:
  assumes "steady s t" shows "yields (\<lambda>(v, t'). steady s t') (check_packet e p ch first t)"
  unfolding check_packet_def
  using steady_check_side1 [OF assms] steady_check_side2 [OF assms] steady_check_alien [OF assms] assms
  by (intro outcome_intros) (simp_all add: case_prod_unfold)

lemma steady_ProcessMetadata [quiet]:
  assumes "steady s t"
  shows "steady s (ProcessMetadataRawRtp e p t)" "steady s (ProcessMetadataSkinny p t)"
    "steady s (ProcessMetadataSipIncoming c i t)" "steady s (ProcessMetadataSipOutgoing c i t)"
proof -
  note def = default_names_def uri_parties_def Let_def
  show "steady s (ProcessMetadataRawRtp e p t)"
    unfolding ProcessMetadataRawRtp_def Let_def using assms by (simp add: quiet split: prod.split)
  show "steady s (ProcessMetadataSkinny p t)"
    unfolding ProcessMetadataSkinny_def Let_def using assms by (simp add: quiet)
  show "steady s (ProcessMetadataSipIncoming c i t)"
    unfolding ProcessMetadataSipIncoming_def def using assms by (simp add: quiet)
  show "steady s (ProcessMetadataSipOutgoing c i t)"
    unfolding ProcessMetadataSipOutgoing_def def using assms by (simp add: quiet)
qed

lemma steady_ProcessMetadataSip: "steady s t \<Longrightarrow> yields (steady s) (ProcessMetadataSip e t)"
  unfolding ProcessMetadataSip_def Let_def by (intro outcome_intros; simp add: quiet)

lemma steady_process_metadata: "steady s t \<Longrightarrow> yields (steady s) (process_metadata e p t)"
  unfolding process_metadata_def Let_def
  by (auto simp: quiet intro!: outcome_intros steady_ProcessMetadataSip split: ProtocolEnum.split)

lemma steady_UpdateMetadataSipOnRtpChange:
  assumes "steady s t" shows "yields (steady s) (UpdateMetadataSipOnRtpChange c p b t)"
proof -
  have tail: "yields (steady s)
       (let s2 = default_names l r s1; s3 = s2\<lparr>os_localIp := ip, vs_localMac := mac\<rparr>;
            s4 = report_local_party c False s3;
            s5 = emit (event EtRemoteParty (vs_remoteParty s4)) s4; s6 = report_names c s5;
            s7 = emit (event EtLocalIp (IpToString (os_localIp s6))) s6
        in Done (emit (event EtUpdate []) s7))" if "steady s s1" for s1 l r ip mac
    using that by (intro steady_let yields_intros(1) quiet) simp_all
  show ?thesis
    unfolding UpdateMetadataSipOnRtpChange_def Let_def [of "sr_invites _ _"]
    using assms by (intro outcome_intros steady_let tail) (simp_all add: quiet)
qed

lemma steady_note_addresses: "steady s t \<Longrightarrow> yields (steady s) (note_addresses c p t)"
  unfolding note_addresses_def Let_def
  by (intro outcome_intros steady_UpdateMetadataSipOnRtpChange; simp add: quiet)

lemma steady_chunk:
  assumes "steady s t" "os_started t" shows "steady s (t\<lparr>sr_out := sr_out t @ [ChunkCallback c p]\<rparr>)"
proof -
  from assms(1) obtain out where "sr_out t = sr_out s @ out"
    "observe out (os_started s, os_stopped s) = Some (os_started t, os_stopped t)"
    by (auto simp: steady_def reports_def)
  with assms show ?thesis by (simp add: steady_def reports_def kept_def observe_append)
qed

lemma yields_True: "yields (\<lambda>_. True) r"
  by (simp add: yields_def)

lemma steady_send_audio:
  "steady s t \<Longrightarrow> os_started t \<Longrightarrow> yields (\<lambda>(p', t'). steady s t') (send_audio e p ch t)"
  unfolding send_audio_def Let_def
  by (rule yields_intros(4) [OF yields_True], rule yields_intros(4) [OF yields_True], rule yields_intros(1),
    simp only: prod.case, rule steady_chunk)

lemma steady_take_packet:
  assumes "steady s t" shows "yields (\<lambda>(b, p', t'). steady s t') (take_packet e p ch t)"
proof -
  have chan: "yields (\<lambda>(n, u). steady s u) (map_channels c ch t)" for c
    unfolding map_channels_def Let_def using assms
    by (intro outcome_intros) (auto simp: yields_def intro!: quiet)
  have rest: "yields (\<lambda>(b, p', t'). steady s t')
      (if os_started w then and_then (send_audio e p n w) (\<lambda>(p1, s4). Done (True, p1, s4)) else Done (True, p, w))"
    if "steady s w" for w n
    using that by (auto intro!: outcome_intros steady_send_audio)
  show ?thesis
    unfolding take_packet_def Let_def
    by (rule yields_intros(4) [OF chan]) (auto intro!: outcome_intros rest quiet
        yields_intros(4) [OF steady_note_addresses])
qed

lemma steady_detect: "steady s t \<Longrightarrow> yields (\<lambda>(ch, b, t'). steady s t') (detect e p t)"
  using steady_DetectChannel by (force simp: yields_def)

lemma steady_hold_step: "steady s t \<Longrightarrow> hold_step c p t = (b, t') \<Longrightarrow> steady s t'"
  by (auto simp: hold_step_def quiet split: option.splits if_splits)

lemma steady_record_packet:
  assumes "steady s t" shows "yields (\<lambda>(b, p', t'). steady s t') (record_packet e p t)"
proof -
  have take: "yields (\<lambda>(b, p', t'). steady s t')
      (case v of Dismiss \<Rightarrow> Done (True, p, u) | Broken \<Rightarrow> Done (False, p, u) | Take ch \<Rightarrow> take_packet e p ch u)"
    if "steady s u" for v u
    using that by (cases v) (simp_all add: outcome_intros steady_take_packet)
  have check: "yields (\<lambda>(b, p', t'). steady s t') (and_then (check_packet e p n f u) (\<lambda>(v, s2).
      case v of Dismiss \<Rightarrow> Done (True, p, s2) | Broken \<Rightarrow> Done (False, p, s2) | Take ch \<Rightarrow> take_packet e p ch s2))"
    if "steady s u" for n f u
    by (rule yields_intros(4) [OF steady_check_packet [OF that]]) (auto intro!: outcome_intros take)
  have "steady s (t\<lparr>vs_lastRtpPacket := Some p\<rparr>)" using assms by (rule quiet)
  then show ?thesis
    unfolding record_packet_def
    by (rule yields_intros(4) [OF steady_detect]) (auto intro!: outcome_intros check)
qed

lemma steady_ignore_packet: "steady s t \<Longrightarrow> yields (steady s) (ignore_packet e p t)"
  unfolding ignore_packet_def Let_def
  by (intro outcome_intros yields_intros(4) [OF steady_detect]) (auto intro!: outcome_intros quiet)

lemma steady_non_lookback_start [quiet]: "steady s t \<Longrightarrow> steady s (non_lookback_start e t)"
  by (auto simp: non_lookback_start_def Let_def intro!: quiet)

lemma steady_AddRtpPacket: "yields (\<lambda>(b, p', t). steady s t) (AddRtpPacket e p s)"
proof -
  let ?Q = "yields (\<lambda>(b, p', t). steady s t)"
  have ign: "?Q (and_then (ignore_packet e p u) (\<lambda>s2. Done (True, p, s2)))" if "steady s u" for u
    by (rule yields_intros(4) [OF steady_ignore_packet [OF that]]) (simp add: outcome_intros)
  have rec: "?Q (case hold_step c p u of (go, s3) \<Rightarrow> if \<not> go then Done (True, p, s3) else record_packet e p s3)"
    if "steady s u" for u c
    using steady_hold_step [OF that] by (auto intro!: outcome_intros steady_record_packet)
  have rest: "?Q (let c = ve_config e; s1 = non_lookback_start e u
     in if is_telephone_event c p s1 then Done (True, p, add_telephone_event e p s1)
        else if \<not> os_keepRtp s1 then and_then (ignore_packet e p s1) (\<lambda>s2. Done (True, p, s2))
        else
          let s2 = (if \<not> bc_lookBackRecording (vc_base c) \<and> vs_numRtpPackets s1 = 0 \<and>
                       \<not> os_nonLookBackSessionStarted s1
                    then start_now e s1 else s1)
          in if vs_protocol s2 = ProtSkinny \<and> rp_sourceIp p \<noteq> vs_endPointIp s2 \<and> rp_destIp p \<noteq> vs_endPointIp s2
             then Done (True, p, s2)
             else
               let (go, s3) = hold_step c p s2
               in if \<not> go then Done (True, p, s3) else record_packet e p s3)" if "steady s u" for u
    unfolding Let_def using that by (intro yields_intros(5) ign rec) (simp_all add: outcome_intros quiet)
  show ?thesis
    unfolding AddRtpPacket_def by (rule yields_intros(4) [OF steady_process_metadata [OF steady_refl] rest])
qed

section \<open>No packet is undefined\<close>

text \<open>
  A session of SIP has an INVITE, and the maps of payload types have their 32 entries. The payload
  type of a packet has seven bits.
\<close>

definition session_ok :: "session_run \<Rightarrow> bool" where
  "session_ok s \<longleftrightarrow> (vs_protocol s = ProtSip \<longrightarrow> vs_invite s \<noteq> None) \<and> length (os_payloadTypeMap s) = 32 \<and>
     (\<forall>a. length (si_payloadTypeMap (sr_invites s a)) = 32)"

definition packet_ok :: "RtpPacketInfo \<Rightarrow> bool" where
  "packet_ok p \<longleftrightarrow> unat (rp_payloadType p) < 128"

lemma session_ok_steady: "session_ok s \<Longrightarrow> steady s t \<Longrightarrow> session_ok t"
  by (simp add: session_ok_def steady_def)

lemma and_then_Undefined: "and_then m f = Undefined \<longleftrightarrow> m = Undefined \<or> (\<exists>x. m = Done x \<and> f x = Undefined)"
  by (cases m) auto

text \<open>What starting a session and reporting its metadata leave alone.\<close>

definition rtp_core where
  "rtp_core s = ((os_side1 s, os_side2 s, os_keepRtp s, os_startWhenReceiveS2 s, os_nonLookBackSessionStarted s),
     (os_capturePort s, os_trackingId s, os_payloadTypeMap s, os_stopped s),
     (vs_protocol s, vs_numRtpPackets s, vs_lastRtpPacket s, vs_mappedS1S2 s, vs_onHold s, vs_lastUpdated s),
     (vs_numAlienRtpPacketsS1 s, vs_numAlienRtpPacketsS2 s, vs_ssrcCandidate s, vs_rtpAddressList s))"

lemma core_emit [simp]: "rtp_core (emit e s) = rtp_core s"
  by (simp add: emit_def rtp_core_def)

lemma core_report_parts [simp]:
  "rtp_core (report_local_party c b s) = rtp_core s" "rtp_core (report_names c s) = rtp_core s"
  "rtp_core (report_remote_party c s) = rtp_core s" "rtp_core (report_entry_point s) = rtp_core s"
  "rtp_core (map_local_name c s) = rtp_core s" "rtp_core (fill_local_party c s) = rtp_core s"
  by (simp_all add: rtp_core_def report_local_party_def report_names_def report_remote_party_def emit_def
      report_entry_point_def map_local_name_def fill_local_party_def Let_def split: option.split)

lemma core_fold [simp]: "rtp_core (fold (\<lambda>(k, v). emit (f k v)) xs s) = rtp_core s"
  by (induction xs arbitrary: s) auto

lemma core_fields [simp]:
  "rtp_core (s\<lparr>vs_localPartyReported := b\<rparr>) = rtp_core s" "rtp_core (s\<lparr>vs_direction := d\<rparr>) = rtp_core s"
  "rtp_core (s\<lparr>os_started := b\<rparr>) = rtp_core s" "rtp_core (s\<lparr>os_beginDate := n\<rparr>) = rtp_core s"
  "rtp_core (s\<lparr>vs_orkUid := u\<rparr>) = rtp_core s"
  by (simp_all add: rtp_core_def)

lemma core_ReportMetadata [simp]: "rtp_core (ReportMetadata e s) = rtp_core s"
  by (simp add: ReportMetadata_def Let_def)

lemma core_Session_Start [simp]: "rtp_core (Session_Start e s) = rtp_core s"
proof -
  have "rtp_core (SkinnyTrackConferencesTransfers e p u) = rtp_core u" for p u
    by (simp add: SkinnyTrackConferencesTransfers_def Let_def rtp_core_def split: option.split)
  moreover have "rtp_core (GenerateOrkUid e u) = rtp_core u" for u
    by (simp add: GenerateOrkUid_def Let_def)
  ultimately show ?thesis by (simp add: Session_Start_def Let_def)
qed

lemma voip_keeps_sides: "keeps_sides (voip_virtuals e)"
  using core_ReportMetadata [of e] core_Session_Start [of e]
  by (simp add: keeps_sides_def voip_virtuals_def rtp_core_def)

lemma packet_details_defined: "session_ok s \<Longrightarrow> packet_ok p \<Longrightarrow> packet_details s p \<noteq> Undefined"
  by (auto simp: packet_details_def Let_def session_ok_def packet_ok_def)

lemma packet_details_size: "packet_details s p = Done d \<Longrightarrow> cd_numBytes d = of_nat (length (rp_payload p))"
  by (auto simp: packet_details_def Let_def split: if_splits)

lemma SetBuffer_payload: "cd_numBytes d = of_nat (length b) \<Longrightarrow> SetBuffer alloc (Some b) d c \<noteq> Undefined"
proof -
  have "unat (of_nat (length b) :: u32) \<le> length b" by (simp add: unat_of_nat)
  then show "cd_numBytes d = of_nat (length b) \<Longrightarrow> ?thesis" by (simp add: SetBuffer_def Let_def not_less)
qed

lemma s2_level_defined:
  assumes "session_ok s" "packet_ok p" shows "s2_level alloc sa s p \<noteq> Undefined"
proof -
  have "SetBuffer alloc (Some (rp_payload p)) d c \<noteq> Undefined" if "packet_details s p = Done d" for d c
    by (rule SetBuffer_payload [OF packet_details_size [OF that]])
  then show ?thesis using packet_details_defined [OF assms]
    by (auto simp: s2_level_def and_then_Undefined Let_def split: if_splits option.splits)
qed

lemma detect_defined:
  assumes "session_ok s" "packet_ok p" shows "detect e p s \<noteq> Undefined"
  using s2_level_defined [OF assms]
  by (simp add: detect_def DetectChannel_def and_then_Undefined Let_def split: option.split)

lemma detect_sides:
  assumes "detect e p s = Done (ch, first, t)"
  shows "(ch = 1 \<longrightarrow> \<not> first \<longrightarrow> os_side1 t \<noteq> None) \<and> (ch = 2 \<longrightarrow> \<not> first \<longrightarrow> os_side2 t \<noteq> None)"
proof -
  have "os_side1 (begin_session (voip_virtuals e) bc u) = os_side1 u \<and>
      os_side2 (begin_session (voip_virtuals e) bc u) = os_side2 u" for bc u
    by (rule begin_session_sides) (rule voip_keeps_sides)
  then show ?thesis using assms
    by (auto simp: detect_def DetectChannel_def Let_def split: option.splits if_splits)
qed

lemma definedI: "r \<noteq> Undefined \<Longrightarrow> yields P r \<Longrightarrow> defined P r"
  by (simp add: defined_def)

text \<open>In the following, \<open>s\<close> is where the call began and \<open>t\<close> how far it has come.\<close>

lemma defined_detect:
  assumes "session_ok s" "packet_ok p" "steady s t"
  shows "defined (\<lambda>(ch, f, u). steady s u \<and> (ch = 1 \<longrightarrow> \<not> f \<longrightarrow> os_side1 u \<noteq> None) \<and>
    (ch = 2 \<longrightarrow> \<not> f \<longrightarrow> os_side2 u \<noteq> None)) (detect e p t)"
  using detect_defined [OF session_ok_steady [OF assms(1,3)] assms(2)] steady_detect [OF assms(3)] detect_sides
  by (intro definedI) (force simp: yields_def)+

lemma defined_check_packet:
  assumes "steady s t" "ch = 1 \<longrightarrow> \<not> f \<longrightarrow> os_side1 t \<noteq> None" "ch = 2 \<longrightarrow> \<not> f \<longrightarrow> os_side2 t \<noteq> None"
  shows "defined (\<lambda>(v, u). steady s u) (check_packet e p ch f t)"
  using assms(2,3) by (intro definedI steady_check_packet assms(1)) (auto simp: check_packet_def split: option.split)

lemma defined_map_channels: "steady s t \<Longrightarrow> defined (\<lambda>(n, u). steady s u) (map_channels c ch t)"
  unfolding map_channels_def Let_def
  by (intro defined_intros defined_intros(3) [where Q = "\<lambda>_. True"])
    (auto simp: ShouldSwapChannels_def Let_def intro!: quiet defined_intros)

lemma defined_note_addresses:
  assumes "session_ok s" "steady s t" shows "defined (steady s) (note_addresses c p t)"
  using session_ok_steady [OF assms]
  by (intro definedI steady_note_addresses assms(2))
    (auto simp: note_addresses_def UpdateMetadataSipOnRtpChange_def session_ok_def Let_def
      split: option.split prod.split)

lemma defined_send_audio:
  assumes "session_ok s" "packet_ok p" "steady s t" "os_started t"
  shows "defined (\<lambda>(p', u). steady s u) (send_audio e p ch t)"
proof -
  let ?p = "if show_nat (unat (rp_payloadType p)) \<in> set (vc_speexPayloadTypes (ve_config e))
            then p\<lparr>rp_payloadType := word_of_int pt_SPEEX\<rparr> else p"
  have "packet_ok ?p" using assms(2) by (simp add: packet_ok_def pt_SPEEX_def)
  then have "packet_details t ?p \<noteq> Undefined"
    by (rule packet_details_defined [OF session_ok_steady [OF assms(1,3)]])
  moreover have "SetBuffer (ve_alloc e) (Some (rp_payload ?p)) (d\<lparr>cd_channel := n\<rparr>) AudioChunk_new \<noteq> Undefined"
    if "packet_details t ?p = Done d" for d n
    by (rule SetBuffer_payload) (simp add: packet_details_size [OF that])
  ultimately show ?thesis
    by (intro definedI steady_send_audio assms) (simp add: send_audio_def Let_def and_then_Undefined)
qed

lemma defined_take_packet:
  assumes "session_ok s" "packet_ok p" "steady s t"
  shows "defined (\<lambda>(b, p', u). steady s u) (take_packet e p ch t)"
proof -
  have rest: "defined (\<lambda>(b, p', t'). steady s t')
      (if os_started w then and_then (send_audio e p n w) (\<lambda>(p1, s4). Done (True, p1, s4)) else Done (True, p, w))"
    if "steady s w" for w n
    using that assms(1,2)
    by (intro defined_intros(4) defined_intros(3) [OF defined_send_audio]) (auto intro!: defined_intros)
  show ?thesis
    unfolding take_packet_def Let_def
    by (rule defined_intros(3) [OF defined_map_channels [OF assms(3)]])
      (auto intro!: outcome_intros rest quiet defined_intros(3) [OF defined_note_addresses [OF assms(1)]])
qed

lemma defined_record_packet:
  assumes "session_ok s" "packet_ok p" "steady s t"
  shows "defined (\<lambda>(b, p', u). steady s u) (record_packet e p t)"
proof -
  have take: "defined (\<lambda>(b, p', t'). steady s t')
      (case v of Dismiss \<Rightarrow> Done (True, p, u) | Broken \<Rightarrow> Done (False, p, u) | Take ch \<Rightarrow> take_packet e p ch u)"
    if "steady s u" for v u
    using that by (cases v) (simp_all add: outcome_intros defined_take_packet assms)
  have check: "defined (\<lambda>(b, p', t'). steady s t') (and_then (check_packet e p n f u) (\<lambda>(v, s2).
      case v of Dismiss \<Rightarrow> Done (True, p, s2) | Broken \<Rightarrow> Done (False, p, s2) | Take ch \<Rightarrow> take_packet e p ch s2))"
    if "steady s u" "n = 1 \<longrightarrow> \<not> f \<longrightarrow> os_side1 u \<noteq> None" "n = 2 \<longrightarrow> \<not> f \<longrightarrow> os_side2 u \<noteq> None" for n f u
    by (rule defined_intros(3) [OF defined_check_packet [OF that]]) (auto intro!: outcome_intros take)
  have "steady s (t\<lparr>vs_lastRtpPacket := Some p\<rparr>)" using assms(3) by (rule quiet)
  then show ?thesis
    unfolding record_packet_def
    by (rule defined_intros(3) [OF defined_detect [OF assms(1,2)]]) (intro outcome_prod check; auto)
qed

lemma defined_process_metadata: "session_ok s \<Longrightarrow> defined (steady s) (process_metadata e p s)"
  by (intro definedI steady_process_metadata)
    (auto simp: process_metadata_def ProcessMetadataSip_def session_ok_def Let_def
      split: option.split ProtocolEnum.split)

lemma defined_ignore_packet:
  assumes "session_ok s" "packet_ok p" "steady s t"
  shows "defined (steady s) (ignore_packet e p t)"
proof -
  have "ignore_packet e p t \<noteq> Undefined"
    using detect_defined [OF session_ok_steady [OF assms(1,3)] assms(2)]
    by (auto simp: ignore_packet_def and_then_Undefined Let_def)
  then show ?thesis by (rule definedI [OF _ steady_ignore_packet [OF assms(3)]])
qed

lemma defined_AddRtpPacket:
  assumes "session_ok s" "packet_ok p"
  shows "defined (\<lambda>(b, p', t). steady s t) (AddRtpPacket e p s)"
proof -
  let ?Q = "defined (\<lambda>(b, p', t). steady s t)"
  have ign: "?Q (and_then (ignore_packet e p u) (\<lambda>s2. Done (True, p, s2)))" if "steady s u" for u
    by (rule defined_intros(3) [OF defined_ignore_packet [OF assms that]]) (simp add: outcome_intros)
  have rec: "?Q (case hold_step c p u of (go, s3) \<Rightarrow> if \<not> go then Done (True, p, s3) else record_packet e p s3)"
    if "steady s u" for u c
    using steady_hold_step [OF that] by (auto intro!: outcome_intros defined_record_packet assms)
  have rest: "?Q (let c = ve_config e; s1 = non_lookback_start e u
     in if is_telephone_event c p s1 then Done (True, p, add_telephone_event e p s1)
        else if \<not> os_keepRtp s1 then and_then (ignore_packet e p s1) (\<lambda>s2. Done (True, p, s2))
        else
          let s2 = (if \<not> bc_lookBackRecording (vc_base c) \<and> vs_numRtpPackets s1 = 0 \<and>
                       \<not> os_nonLookBackSessionStarted s1
                    then start_now e s1 else s1)
          in if vs_protocol s2 = ProtSkinny \<and> rp_sourceIp p \<noteq> vs_endPointIp s2 \<and> rp_destIp p \<noteq> vs_endPointIp s2
             then Done (True, p, s2)
             else
               let (go, s3) = hold_step c p s2
               in if \<not> go then Done (True, p, s3) else record_packet e p s3)" if "steady s u" for u
    unfolding Let_def using that by (intro defined_intros(4) ign rec) (simp_all add: outcome_intros quiet)
  show ?thesis
    unfolding AddRtpPacket_def by (rule defined_intros(3) [OF defined_process_metadata [OF assms(1)] rest])
qed

section \<open>Calls of a session\<close>

text \<open>
  What the registry does to a session, in any order: its methods and the fields that it sets itself.
  A NOTIFY reaches only sessions with an INVITE.
\<close>

datatype session_call =
    CallRtp RtpPacketInfo | CallStop | CallRtcp RtcpSrcDescription
  | CallInvite nat | CallBye SipByeInfo | CallNotify SipNotifyInfo | CallInfo SipInfo | CallRefer | CallError
  | CallSkinnyInfo string in_addr | CallSkinnyState nat | CallUpdateSkinny | CallReportUpdateSkinny
  | CallHold int | CallResume int | CallOnDemand string | CallOnDemandOff | CallKeepRtp bool | CallRawRtp

fun session_do :: "voip_env \<times> session_call \<Rightarrow> session_run \<Rightarrow> session_run outcome" where
  "session_do (e, CallRtp p) s = and_then (AddRtpPacket e p s) (\<lambda>(b, p', t). Done t)"
| "session_do (e, CallStop) s = Done (Session_Stop e s)"
| "session_do (e, CallRtcp r) s = Done (Session_ReportRtcpSrcDescription e r s)"
| "session_do (e, CallInvite a) s = Done (Session_ReportSipInvite (ve_config e) a s)"
| "session_do (e, CallBye b) s = Done (Session_ReportSipBye (ve_config e) b s)"
| "session_do (e, CallNotify n) s =
     (if vs_invite s = None then Done s else Session_ReportSipNotify (ve_config e) n s)"
| "session_do (e, CallInfo i) s = Done (Session_ReportSipInfo e i s)"
| "session_do (e, CallRefer) s = Done (fst (Session_ReportSipRefer s))"
| "session_do (e, CallError) s = Done (Session_ReportSipErrorPacket s)"
| "session_do (e, CallSkinnyInfo name ip) s = Done (Session_ReportSkinnyCallInfo (ve_config e) name ip s)"
| "session_do (e, CallSkinnyState n) s = Done (Session_ReportSkinnyCallStateMessage e n s)"
| "session_do (e, CallUpdateSkinny) s = Done (UpdateMetadataSkinny (ve_config e) s)"
| "session_do (e, CallReportUpdateSkinny) s = Done (ReportMetadataUpdateSkinny (ve_config e) s)"
| "session_do (e, CallHold n) s = Done (GoOnHold (ve_config e) n s)"
| "session_do (e, CallResume n) s = Done (GoOffHold (ve_config e) n s)"
| "session_do (e, CallOnDemand side) s = Done (MarkAsOnDemand side (s\<lparr>os_keepRtp := True\<rparr>))"
| "session_do (e, CallOnDemandOff) s = Done (MarkAsOnDemandOff s)"
| "session_do (e, CallKeepRtp b) s = Done (s\<lparr>os_keepRtp := b\<rparr>)"
| "session_do (e, CallRawRtp) s = Done (s\<lparr>vs_protocol := ProtRawRtp\<rparr>)"

fun call_ok :: "voip_env \<times> session_call \<Rightarrow> bool" where
  "call_ok (e, CallRtp p) = packet_ok p"
| "call_ok (e, x) = True"

lemma steady_messages [quiet]:
  assumes "steady s t"
  shows "steady s (Session_ReportRtcpSrcDescription e r t)" "steady s (Session_ReportSipBye c b t)"
    "steady s (fst (Session_ReportSipRefer t))" "steady s (Session_ReportSipErrorPacket t)"
    "steady s (Session_ReportSkinnyCallInfo c name ip t)" "steady s (Session_ReportSkinnyCallStateMessage e n t)"
    "steady s (UpdateMetadataSkinny c t)" "steady s (ReportMetadataUpdateSkinny c t)"
  unfolding Session_ReportRtcpSrcDescription_def Session_ReportSipBye_def Session_ReportSipRefer_def
    Session_ReportSipErrorPacket_def Session_ReportSkinnyCallInfo_def Session_ReportSkinnyCallStateMessage_def
    UpdateMetadataSkinny_def ReportMetadataUpdateSkinny_def Let_def fst_conv
  using assms by (simp_all add: quiet)

lemma steady_ReportSipInfo [quiet]:
  assumes "steady s t" shows "steady s (Session_ReportSipInfo e i t)"
proof -
  let ?t = "t\<lparr>vs_lastSipInfo := Some i\<rparr>"
  have t: "steady s ?t" using assms by (rule quiet)
  have digit: "steady s (case ReportDtmfDigit bc c (voip_virtuals e) n 0 d 0 0 0 0 ?t of
      (s', evs) \<Rightarrow> fold emit evs s')" for bc c n d
    using steady_ReportDtmfDigit [OF _ t] by (simp split: prod.split)
  show ?thesis
    unfolding Session_ReportSipInfo_def Let_def using assms t by (intro quiet digit) simp_all
qed

lemma ReportSipNotify_ok:
  "vs_invite s \<noteq> None \<Longrightarrow> defined (steady s) (Session_ReportSipNotify c n s)"
  unfolding Session_ReportSipNotify_def Let_def by (intro outcome_intros quiet) simp_all

lemma ReportSipInvite_ok: "session_ok s \<Longrightarrow> session_ok (Session_ReportSipInvite c a s)"
proof -
  have gather: "session_ok u \<Longrightarrow> session_ok (on_demand_by_field c (gather_fields i u))" for i u
  proof -
    have "steady u (on_demand_by_field c (gather_fields i u))"
      unfolding on_demand_by_field_def gather_fields_def by (auto simp: quiet intro!: quiet split: option.split)
    then show "session_ok u \<Longrightarrow> ?thesis" by (rule session_ok_steady [rotated])
  qed
  show "session_ok s \<Longrightarrow> ?thesis"
    unfolding Session_ReportSipInvite_def Let_def
    by (intro gather)
      (auto simp: UpdateRtpPayloadMap_def session_ok_def update_sip_remote_party_def invite_to_itself_def emit_def Let_def)
qed

lemma reports_invite_parts [quiet]:
  assumes "reports s t"
  shows "reports s (on_demand_by_field c t)" "reports s (gather_fields i t)" "reports s (UpdateRtpPayloadMap m t)"
    "reports s (update_sip_remote_party c i t)" "reports s (invite_to_itself i t)"
proof -
  show "reports s (on_demand_by_field c t)" "reports s (UpdateRtpPayloadMap m t)"
    "reports s (update_sip_remote_party c i t)" "reports s (invite_to_itself i t)"
    unfolding on_demand_by_field_def UpdateRtpPayloadMap_def update_sip_remote_party_def invite_to_itself_def Let_def
    using assms by (simp_all add: quiet split: option.split)
  show "reports s (gather_fields i t)"
    unfolding gather_fields_def using assms by (auto intro!: quiet)
qed

lemma reports_ReportSipInvite: "reports s (Session_ReportSipInvite c a s)"
  unfolding Session_ReportSipInvite_def Let_def by (intro quiet) simp_all

lemma session_do_ok:
  assumes "session_ok s" "call_ok (e, x)"
  shows "defined (\<lambda>t. session_ok t \<and> reports s t) (session_do (e, x) s)"
proof -
  have steady: "defined (\<lambda>t. session_ok t \<and> reports s t) r" if "defined (steady s) r" for r
    using outcome_mono(2) [OF that] session_ok_steady [OF assms(1)] by (simp add: steady_def)
  have pure: "defined (\<lambda>t. session_ok t \<and> reports s t) (Done t)" if "steady s t" for t
    using that by (intro steady defined_intros(1))
  show ?thesis
  proof (cases x)
    case (CallRtp p)
    with assms have "defined (steady s) (and_then (AddRtpPacket e p s) (\<lambda>(b, p', t). Done t))"
      by (intro defined_intros(3) [OF defined_AddRtpPacket]) (auto intro!: defined_intros)
    with CallRtp steady show ?thesis by simp
  next
    case (CallInvite a)
    with ReportSipInvite_ok [OF assms(1)] reports_ReportSipInvite [of s] show ?thesis
      by (simp add: defined_intros)
  next
    case (CallNotify n)
    with ReportSipNotify_ok steady show ?thesis
      by (cases "vs_invite s = None") (auto intro!: pure)
  next
    case CallRawRtp
    with assms show ?thesis by (auto simp: session_ok_def intro!: defined_intros quiet)
  qed (simp_all add: pure steady_stop quiet)
qed

interpretation session: safe_calls session_do session_ok call_ok
proof
  fix s x
  assume "session_ok s" "call_ok x"
  with session_do_ok [of s "fst x" "snd x"] show "session_do x s \<noteq> Undefined" by (simp add: defined_def)
next
  fix s x t
  assume "session_ok s" "call_ok x" "session_do x s = Done t"
  with session_do_ok [of s "fst x" "snd x"] show "session_ok t" by (auto dest: definedD)
qed

text \<open>
  C6. No call of a session is undefined: in any order of packets, SIP and Skinny messages, hold and
  on-demand commands, with any settings, no missing INVITE, no missing packet of a side and no payload
  type outside of the map is used.
\<close>

theorem session_never_undefined:
  assumes "session_ok s" "list_all call_ok calls"
  shows "run_calls session_do calls s \<noteq> Undefined"
  by (rule session.run_defined [OF assms])

lemma run_reports:
  "session_ok s \<Longrightarrow> list_all call_ok calls \<Longrightarrow> run_calls session_do calls s = Done t \<Longrightarrow> reports s t"
proof (induction calls arbitrary: s)
  case (Cons x xs)
  then obtain u where u: "session_do x s = Done u" "run_calls session_do xs u = Done t" by auto
  with Cons.prems session_do_ok [of s "fst x" "snd x"] have "session_ok u" "reports s u" by (auto dest: definedD)
  with Cons.IH [of u] Cons.prems u(2) reports_trans show ?case by auto
qed simp

definition is_event :: "EventTypeEnum \<Rightarrow> callback \<Rightarrow> bool" where
  "is_event t x = (case x of EventCallback e p \<Rightarrow> ev_type e = t | ChunkCallback c p \<Rightarrow> False)"

lemma observe_flags:
  "observe xs (a, b) = Some (a', b') \<Longrightarrow>
    a' = (a \<or> list_ex (is_event EtStart) xs) \<and> b' = (b \<or> list_ex (is_event EtStop) xs)"
proof (induction xs arbitrary: a b)
  case (Cons x xs)
  then show ?case by (cases x) (auto simp: is_event_def split: option.splits if_splits)
qed simp

lemma observe_at:
  assumes "observe (pre @ x # post) (False, False) = Some v"
  shows "(\<forall>c p. x = ChunkCallback c p \<longrightarrow> list_ex (is_event EtStart) pre) \<and>
    (is_event EtStop x \<longrightarrow> list_ex (is_event EtStart) pre \<and> \<not> list_ex (is_event EtStop) pre)"
proof -
  obtain a b where "observe pre (False, False) = Some (a, b)" "observe1 x (a, b) \<noteq> None"
    using assms by (auto simp: observe_append split: option.splits)
  with observe_flags [OF this(1)] show ?thesis by (cases x) (auto simp: is_event_def split: if_splits)
qed

text \<open>
  C7. What a session reports is a recording: whatever happens to it, audio is sent only after a start
  event, there is at most one stop event, it comes after a start event, and it is there exactly when the session
  is marked as stopped.
\<close>

theorem session_report_order:
  assumes "session_ok s" "\<not> os_started s" "\<not> os_stopped s" "sr_out s = []"
    and "list_all call_ok calls" "run_calls session_do calls s = Done t"
  shows "(\<forall>pre c port post. sr_out t = pre @ ChunkCallback c port # post \<longrightarrow> list_ex (is_event EtStart) pre) \<and>
    (\<forall>pre x post. sr_out t = pre @ x # post \<and> is_event EtStop x \<longrightarrow>
       list_ex (is_event EtStart) pre \<and> \<not> list_ex (is_event EtStop) pre) \<and>
    (os_stopped t \<longleftrightarrow> list_ex (is_event EtStop) (sr_out t)) \<and>
    (os_started t \<longleftrightarrow> list_ex (is_event EtStart) (sr_out t))"
proof -
  have "observe (sr_out t) (False, False) = Some (os_started t, os_stopped t)"
    using run_reports [OF assms(1,5,6)] assms(2-4) by (simp add: reports_def)
  with observe_flags [OF this] observe_at show ?thesis by metis
qed

section \<open>Examples\<close>

definition no_ranges :: IpRanges where
  "no_ranges = \<lparr>m_asciiIpRanges = [], m_ipRangePrefixes = [], m_ipRangeBitWidths = []\<rparr>"

definition sample_config :: VoIpConfig where
  "sample_config = \<lparr>
    vc_acp = example_acp, vc_base = example_base, vc_holdResumeReportDuration = False,
     vc_holdResumeReportEvents = False, vc_speexPayloadTypes = [], vc_rtpDiscontinuityDetect = True,
     vc_rtpDiscontinuityMinSeqDelta = 1000, vc_rtpSeqGapThreshold = 0, vc_rtpBreakupOnStreamPause = False,
     vc_rtpMinAmountOfPacketsBeforeStart = 2, vc_rtpTrackByUdpPortOnly = False,
     vc_rtpAllowMultipleMappings = False, vc_rtpReportDtmf = False, vc_rtpDtmfOnlyLocal = False,
     vc_trackRawRtpSessionInNonLookBackMode = False, vc_lanMasks = [], vc_rtpTrackUsingIpAddresses = [],
     vc_sangomaEnable = False, vc_sangomaTxTcpPortStart = 0, vc_sangomaTcpPortDelta = 0, vc_inInMode = False,
     vc_useMacIfNoLocalParty = False, vc_localPartyForceLocalIp = False, vc_localPartyForceLocalMac = False,
     vc_localPartyUseName = False, vc_partiesUseName = False, vc_localPartyAddLocalIp = False,
     vc_localPartyNameMapEnable = False, vc_sipDomains = [], vc_sipDirectionReferenceIpAddresses = no_ranges,
     vc_sipDirectionReferenceUserAgents = [], vc_sipRequestUriAsLocalParty = False,
     vc_sipReportNamesAsTags = False, vc_sipMetadataUseLastInvite = False,
     vc_sipRemotePartyFrom200OKEnable = False, vc_sipOnDemandFieldName = [], vc_sipOnDemandFieldValue = [],
     vc_sipOnDemandFieldValueOff = [], vc_sipInfoDtmfRfc2976Detect = False,
     vc_sipAllowMetadataUpdateOnRtpChange = False, vc_sipAllowMediaAddressTransfer = False,
     vc_necVoipGatewayNames = [], vc_dahdiIntercept = False, vc_holdReportStats = False,
     vc_skinnyNameAsLocalParty = False, vc_skinnyReportTags = [], vc_skinnyIgnoreHold = False,
     vc_skinnyAllowMediaAddressTransfer = False, vc_SkinnyTrackConferencesTransfers = False,
     vc_skinnyRtpSearchesForCallInfo = False, vc_skinnyBehindNat = False, vc_urlExtractorEnable = False,
     vc_remotePartyUseExtractedKey = [], vc_mediaAddressBlockedIpRanges = no_ranges,
     vc_mediaAddressAllowedIpRanges = no_ranges, vc_mediaAddressUseSecondRtpAddress = False,
     vc_rtpSessionTimeoutSec = 10, vc_rtpSessionWithSignallingTimeoutSec = 60,
     vc_rtpSessionOnHoldTimeOutSec = 600, vc_rtpSessionWithSignallingInitialTimeoutSec = 180,
     vc_lanIpRanges = no_ranges, vc_sipIgnoredMediaAddresses = no_ranges,
     vc_sipTrackMediaAddressOnSender = False, vc_sipInviteCanPutOffHold = False, vc_sipCallPickUpSupport = False,
     vc_sipDynamicMediaAddress = False, vc_sipNotifySupport = False, vc_sipUse200OkMediaAddress = False,
     vc_transferTimeOutInSec = 0, vc_skinnyAllowCallInfoUpdate = False, vc_skinnyAllowLateCallInfo = False,
     vc_skinnyCallInfoStopsPrevious = False, vc_skinnyCallInfoStopsPreviousToleranceSec = 0,
     vc_skinnyIgnoreOpenReceiveChannelAck = False, vc_skinnyDynamicMediaAddress = False,
     vc_skinnyIgnoreStopMediaTransmission = False\<rparr>"

definition sample_env :: voip_env where
  "sample_env = \<lparr>ve_config = sample_config, ve_now = 1000, ve_nowUsec = 1000000000,
     ve_localTime = (\<lambda>_. \<lparr>tm_year = 120, tm_mon = 0, tm_mday = 2, tm_hour = 3, tm_min = 4, tm_sec = 5\<rparr>),
     ve_alloc = (\<lambda>_. True), ve_audio = \<lparr>sa_decoders = [], sa_rmsDb = (\<lambda>_. 0)\<rparr>\<rparr>"

text \<open>A raw RTP session that has just been created, in memory that held zeros.\<close>

definition zero_session :: VoIpSession where
  "zero_session = OrkSession.extend example_session
     (VoIpSession.fields 0 (0, 0, 0, 0) [] None 0 0 0 ProtUnkn [] [] [] [] [] [] False False False False DirUnkn
       LocalSideUnkn 0 0 False 0 0 0 0 0 (0, 0, 0, 0) 0 0 0 0 0 False [] 0 0 0 [] [] False 0 0 0 0 False False None
       (0, 0, 0, 0) [] [] [] False [] [] [] None)"

definition no_invite :: SipInviteInfo where
  "no_invite = \<lparr>si_sipMethod = [], si_senderIp = (0, 0, 0, 0), si_originalSenderIp = (0, 0, 0, 0),
     si_receiverIp = (0, 0, 0, 0), si_fromRtpIp = (0, 0, 0, 0), si_senderMac = [], si_receiverMac = [],
     si_fromRtpPort = [], si_from = [], si_to = [], si_callId = [], si_replacesId = [], si_requestUri = [],
     si_validated = False, si_attrSendonly = False, si_extractedFields = [], si_telephoneEventPayloadType = 0,
     si_fromDomain = [], si_toDomain = [], si_fromName = [], si_toName = [], si_userAgent = [],
     si_sipDialedNumber = [], si_sipRemoteParty = [], si_contact = [], si_contactName = [], si_contactDomain = [],
     si_SipGroupPickUpPatternDetected = False, si_payloadTypeMap = replicate 32 0, si_recvTime = 0\<rparr>"

definition fresh_run :: "voip_env \<Rightarrow> string \<Rightarrow> session_run" where
  "fresh_run e trackingId = VoIpSession.extend (VoIpSession_new e trackingId zero_session)
     (session_run.fields (\<lambda>_. None) (\<lambda>_. []) [] (\<lambda>_. no_invite) [])"

lemmas fresh_run_simps = fresh_run_def VoIpSession_new_def zero_session_def example_session_def OrkSession_new_def
  OrkSession.defs VoIpSession.defs session_run.defs Let_def

lemma fresh_run_ok:
  "session_ok (fresh_run e n)" "\<not> os_started (fresh_run e n)" "\<not> os_stopped (fresh_run e n)"
  "sr_out (fresh_run e n) = []"
  by (simp_all add: fresh_run_simps session_ok_def no_invite_def)

definition voice :: "u32 \<Rightarrow> nat \<Rightarrow> RtpPacketInfo" where
  "voice ssrc i = (example_packet ssrc)\<lparr>rp_payload := [of_nat i], rp_seqNum := of_nat i,
     rp_timestamp := of_nat (160 * i), rp_arrivalTimestamp := 1000\<rparr>"

theorem session_never_undefined_witness:
  "run_calls session_do [(sample_env, CallRtp (voice 5 1)), (sample_env, CallStop), (sample_env, CallRawRtp)]
     (fresh_run sample_env ''AAAA'') \<noteq> Undefined"
  by (rule session_never_undefined [OF fresh_run_ok(1)])
    (simp add: packet_ok_def voice_def example_packet_def)

end
