(* ===== verification/OrkVoipStreams.thy ===== *)
theory OrkVoipStreams
  imports OrkVoipRuns
begin

text \<open>
  How a session of the VoIP plugin follows the RTP streams of a call: what is recorded of two
  established streams, when a new stream takes the place of an old one, and the calls that are not
  recorded or are broken up.
\<close>

section \<open>A call with two streams\<close>

text \<open>
  A packet follows another of its stream when it is neither a discontinuity nor after a pause; one
  with the same timestamp is a retransmission.
\<close>

definition follows :: "VoIpConfig \<Rightarrow> RtpPacketInfo \<Rightarrow> RtpPacketInfo \<Rightarrow> bool" where
  "follows c q p \<longleftrightarrow> (vc_rtpDiscontinuityDetect c \<longrightarrow> \<bar>seq_delta p q\<bar> \<le> vc_rtpDiscontinuityMinSeqDelta c) \<and>
     (vc_rtpBreakupOnStreamPause c \<longrightarrow> sint (rp_timestamp p - rp_timestamp q) \<le> seq_delta p q * 160)"

fun in_streams :: "VoIpConfig \<Rightarrow> RtpPacketInfo \<Rightarrow> RtpPacketInfo \<Rightarrow> RtpPacketInfo list \<Rightarrow> bool" where
  "in_streams c q1 q2 [] = True"
| "in_streams c q1 q2 (p # ps) =
     (if same_stream p q1 then
        (if rp_timestamp p = rp_timestamp q1 then in_streams c q1 q2 ps
         else follows c q1 p \<and> in_streams c p q2 ps)
      else same_stream p q2 \<and>
        (if rp_timestamp p = rp_timestamp q2 then in_streams c q1 q2 ps
         else follows c q2 p \<and> in_streams c q1 p ps))"

text \<open>What is to be heard: every packet but the retransmissions, with its side.\<close>

fun expected :: "RtpPacketInfo \<Rightarrow> RtpPacketInfo \<Rightarrow> RtpPacketInfo list \<Rightarrow> (nat \<times> RtpPacketInfo) list" where
  "expected q1 q2 [] = []"
| "expected q1 q2 (p # ps) =
     (if same_stream p q1 then
        (if rp_timestamp p = rp_timestamp q1 then expected q1 q2 ps else (1, p) # expected p q2 ps)
      else (if rp_timestamp p = rp_timestamp q2 then expected q1 q2 ps else (2, p) # expected q1 p ps))"

definition voice_chunk :: "RtpPacketInfo \<Rightarrow> nat \<Rightarrow> AudioChunk" where
  "voice_chunk p ch = AudioChunk_new\<lparr>ac_buffer := Some (rp_payload p),
     ac_details := AudioChunkDetails_Clear\<lparr>cd_arrivalTimestamp := word_of_int (rp_arrivalTimestamp p),
       cd_numBytes := of_nat (length (rp_payload p)), cd_timestamp := rp_timestamp p,
       cd_sequenceNumber := ucast (rp_seqNum p), cd_channel := of_nat ch, cd_encoding := AlawAudio,
       cd_rtpPayloadType := ucast (rp_payloadType p)\<rparr>\<rparr>"

text \<open>A packet with a standard payload type and some payload.\<close>

definition plain_voice :: "VoIpConfig \<Rightarrow> RtpPacketInfo \<Rightarrow> bool" where
  "plain_voice c p \<longleftrightarrow> unat (rp_payloadType p) < 96 \<and>
     show_nat (unat (rp_payloadType p)) \<notin> set (vc_speexPayloadTypes c) \<and>
     0 < length (rp_payload p) \<and> length (rp_payload p) < 2 ^ 32"

text \<open>A session that is recording two streams.\<close>

definition recording :: "VoIpConfig \<Rightarrow> RtpPacketInfo \<Rightarrow> RtpPacketInfo \<Rightarrow> session_run \<Rightarrow> bool" where
  "recording c q1 q2 s \<longleftrightarrow> os_started s \<and> os_keepRtp s \<and> vs_metadataProcessed s \<and> \<not> vs_onHold s \<and>
     bc_lookBackRecording (vc_base c) \<and> acp_sessionStartsOnS2ActivityDb (vc_acp c) = 0 \<and>
     (vs_protocol s = ProtRawRtp \<or> vs_protocol s = ProtSip) \<and>
     (vs_protocol s = ProtSip \<longrightarrow> \<not> vc_sipAllowMetadataUpdateOnRtpChange c) \<and>
     (os_telephoneEventPayloadType s = 0 \<or> os_telephoneEventPayloadType s \<ge> 96) \<and>
     vs_numRtpPackets s \<ge> 2 \<and> vs_numRtpPackets s \<ge> vc_rtpMinAmountOfPacketsBeforeStart c \<and>
     (acp_s1s2Deterministic (vc_acp c) \<longrightarrow> vs_mappedS1S2 s) \<and>
     vs_minRtpSeqDelta s = vc_rtpDiscontinuityMinSeqDelta c \<and>
     os_side1 s = Some q1 \<and> os_side2 s = Some q2 \<and> \<not> same_stream q1 q2"

lemma same_stream_trans: "same_stream p q \<Longrightarrow> same_stream p r \<longleftrightarrow> same_stream q r"
  by (simp add: same_stream_def)

lemma same_stream_sym: "same_stream p q \<longleftrightarrow> same_stream q p"
  by (auto simp: same_stream_def)

lemma send_voice:
  assumes "plain_voice (ve_config e) p" "ve_alloc e = (\<lambda>_. True)"
  shows "send_audio e p ch s = Done (p, s\<lparr>sr_out := sr_out s @ [ChunkCallback (voice_chunk p ch) (os_capturePort s)]\<rparr>)"
proof -
  have "unat (of_nat (length (rp_payload p)) :: u32) = length (rp_payload p)"
    using assms(1) by (simp add: plain_voice_def unat_of_nat)
  then show ?thesis using assms
    by (simp add: send_audio_def packet_details_def SetBuffer_def plain_voice_def voice_chunk_def AudioChunk_new_def
        Let_def)
qed

lemma recordingD:
  assumes "recording c q1 q2 s"
  shows "os_started s" "os_keepRtp s" "vs_metadataProcessed s" "\<not> vs_onHold s" "bc_lookBackRecording (vc_base c)"
    "vs_protocol s \<noteq> ProtSkinny" "vs_protocol s = ProtSip \<longrightarrow> \<not> vc_sipAllowMetadataUpdateOnRtpChange c"
    "acp_s1s2Deterministic (vc_acp c) \<longrightarrow> vs_mappedS1S2 s" "os_side1 s = Some q1" "os_side2 s = Some q2"
    "vs_minRtpSeqDelta s = vc_rtpDiscontinuityMinSeqDelta c" "\<not> same_stream q1 q2"
    "acp_sessionStartsOnS2ActivityDb (vc_acp c) = 0"
    "vs_numRtpPackets s \<ge> 2" "vs_numRtpPackets s \<ge> vc_rtpMinAmountOfPacketsBeforeStart c"
    "os_telephoneEventPayloadType s = 0 \<or> os_telephoneEventPayloadType s \<ge> 96"
  using assms unfolding recording_def by (simp_all) (metis ProtocolEnum.distinct(3,7))

lemma Add_recording:
  assumes "recording (ve_config e) q1 q2 s" "unat (rp_payloadType p) < 96"
  shows "AddRtpPacket e p s = record_packet e p s"
proof -
  note r = recordingD [OF assms(1)]
  have "int (unat (rp_payloadType p)) < 96" using assms(2) by linarith
  then have "uint (rp_payloadType p) < 96" by simp
  with r(16) have "\<not> is_telephone_event (ve_config e) p s" unfolding is_telephone_event_def by auto
  moreover have "process_metadata e p s = Done s" using r(3) by (simp add: process_metadata_def)
  moreover have "non_lookback_start e s = s" using r(5) by (simp add: non_lookback_start_def)
  moreover have "hold_step (ve_config e) p s = (True, s)" using r(4) by (simp add: hold_step_def)
  ultimately show ?thesis using r(2,5,6) by (simp add: AddRtpPacket_def)
qed

lemma take_recording:
  assumes "recording (ve_config e) q1 q2 s" "plain_voice (ve_config e) p" "ve_alloc e = (\<lambda>_. True)"
  shows "\<exists>t. take_packet e p ch s = Done (True, p, t) \<and> recording (ve_config e) q1 q2 t \<and>
    sr_out t = sr_out s @ [ChunkCallback (voice_chunk p ch) (os_capturePort s)] \<and> os_capturePort t = os_capturePort s"
proof -
  note r = recordingD [OF assms(1)]
  let ?s = "s\<lparr>vs_numRtpPackets := vs_numRtpPackets s + 1, vs_lastUpdated := rp_arrivalTimestamp p\<rparr>"
  have "map_channels (ve_config e) ch s = Done (ch, s)" using r(8) by (auto simp: map_channels_def)
  moreover obtain l where "note_addresses (ve_config e) p ?s = Done (?s\<lparr>vs_rtpAddressList := l\<rparr>)" (is "_ = Done ?t")
    using r(7) by (cases "HasAddressOrAdd (rp_sourceIp p) (unat (rp_sourcePort p)) (vs_rtpAddressList s)")
      (auto simp: note_addresses_def case_prod_unfold)
  moreover have "\<not> enough_packets (ve_config e) ?t" "os_started ?t"
    using r(1,6,14,15) by (simp_all add: enough_packets_def)
  moreover have "recording (ve_config e) q1 q2 (?t\<lparr>sr_out := out\<rparr>)" for out
    using assms(1) unfolding recording_def by simp
  ultimately show ?thesis using assms(2,3) by (simp add: take_packet_def send_voice)
qed

lemma recording_fields [simp]:
  "recording c q1 q2 (s\<lparr>vs_lastRtpPacket := l\<rparr>) = recording c q1 q2 s"
  "recording c q1 q2 (s\<lparr>vs_highestRtpSeqNumDelta := n\<rparr>) = recording c q1 q2 s"
  "recording c q1 q2 (s\<lparr>vs_rtpNumSeqGaps := w\<rparr>) = recording c q1 q2 s"
  "recording c q1 q2 (s\<lparr>vs_rtpNumMissingPkts := w\<rparr>) = recording c q1 q2 s"
  "recording c q1 q2 (s\<lparr>vs_numAlienRtpPacketsS1 := w\<rparr>) = recording c q1 q2 s"
  "recording c q1 q2 (s\<lparr>vs_numAlienRtpPacketsS2 := w\<rparr>) = recording c q1 q2 s"
  "recording c q1 q2 (s\<lparr>vs_hasDuplicateRtp := b\<rparr>) = recording c q1 q2 s"
  by (simp_all add: recording_def)

lemma recording_sides:
  "recording c q1 q2 s \<Longrightarrow> same_stream p q1 \<Longrightarrow> recording c p q2 (s\<lparr>os_side1 := Some p\<rparr>)"
  "recording c q1 q2 s \<Longrightarrow> same_stream p q2 \<Longrightarrow> recording c q1 p (s\<lparr>os_side2 := Some p\<rparr>)"
  by (simp_all add: recording_def) (metis same_stream_trans same_stream_sym)+

lemma check_follows:
  assumes "recording c q1 q2 s" "follows c q p" "rp_timestamp p \<noteq> rp_timestamp q"
  shows "\<exists>u. check_side1 c p q s = (Take 1, u\<lparr>os_side1 := Some p, vs_numAlienRtpPacketsS1 := 0\<rparr>) \<and>
      recording c q1 q2 u \<and> sr_out u = sr_out s \<and> os_capturePort u = os_capturePort s"
    and "\<exists>u. check_side2 c p q s = (Take 2, u\<lparr>os_side2 := Some p, vs_numAlienRtpPacketsS2 := 0\<rparr>) \<and>
      recording c q1 q2 u \<and> sr_out u = sr_out s \<and> os_capturePort u = os_capturePort s"
proof -
  have d: "\<not> rtp_discontinuity c s p q"
    using assms(2) recordingD(11) [OF assms(1)] by (auto simp: rtp_discontinuity_def follows_def)
  let ?dt = "sint (rp_timestamp p - rp_timestamp q)"
  have b: "vc_rtpBreakupOnStreamPause c \<Longrightarrow> ?dt \<le> seq_delta p q * 160"
    using assms(2) by (simp add: follows_def)
  have "seq_delta p q \<le> \<bar>seq_delta p q\<bar>" by simp
  then have "seq_delta p q * 160 \<le> \<bar>seq_delta p q\<bar> * 160" by linarith
  moreover have "seq_delta p q \<le> reset_delta p q" by (simp add: reset_delta_def seq_delta_def)
  ultimately have one: "\<not> (vc_rtpBreakupOnStreamPause c \<and> \<bar>seq_delta p q\<bar> * 160 < ?dt)" and
    two: "\<not> (vc_rtpBreakupOnStreamPause c \<and> (if vc_rtpBreakupOnStreamPause c then reset_delta p q else n) * 160 < ?dt)" for n
    using b by auto
  show "\<exists>u. check_side1 c p q s = (Take 1, u\<lparr>os_side1 := Some p, vs_numAlienRtpPacketsS1 := 0\<rparr>) \<and>
      recording c q1 q2 u \<and> sr_out u = sr_out s \<and> os_capturePort u = os_capturePort s"
    unfolding check_side1_def Let_def if_not_P [OF assms(3)] if_not_P [OF d] if_not_P [OF one]
    using one assms(1) by (intro exI conjI) (rule if_not_P, blast, simp_all add: note_highest_def)
  show "\<exists>u. check_side2 c p q s = (Take 2, u\<lparr>os_side2 := Some p, vs_numAlienRtpPacketsS2 := 0\<rparr>) \<and>
      recording c q1 q2 u \<and> sr_out u = sr_out s \<and> os_capturePort u = os_capturePort s"
    unfolding check_side2_def Let_def if_not_P [OF assms(3)] if_not_P [OF d] if_not_P [OF two]
    using assms(1) by (intro exI conjI) (rule refl, simp_all add: note_highest_def)
qed

text \<open>One packet of an established stream: it is sent, or dismissed when it was sent before.\<close>

definition taken where
  "taken c s p ch q1 q2 r \<longleftrightarrow> (\<exists>t. r = Done (True, p, t) \<and> recording c q1 q2 t \<and>
    sr_out t = sr_out s @ [ChunkCallback (voice_chunk p ch) (os_capturePort s)] \<and> os_capturePort t = os_capturePort s)"

lemma packet_side1:
  assumes "recording (ve_config e) q1 q2 s" "plain_voice (ve_config e) p" "ve_alloc e = (\<lambda>_. True)"
    "same_stream p q1" "rp_timestamp p \<noteq> rp_timestamp q1" "follows (ve_config e) q1 p"
  shows "taken (ve_config e) s p 1 p q2 (AddRtpPacket e p s)"
proof -
  note r = recordingD [OF assms(1)]
  let ?s = "s\<lparr>vs_lastRtpPacket := Some p\<rparr>"
  have d: "detect e p ?s = Done (1, False, ?s)"
    using r(9) assms(4) by (simp add: detect_def DetectChannel_def)
  have "recording (ve_config e) q1 q2 ?s" using assms(1) by simp
  from check_follows(1) [OF this assms(6,5)] obtain u where
    u: "check_side1 (ve_config e) p q1 ?s = (Take 1, u\<lparr>os_side1 := Some p, vs_numAlienRtpPacketsS1 := 0\<rparr>)"
    "recording (ve_config e) q1 q2 u" "sr_out u = sr_out s" "os_capturePort u = os_capturePort s" by auto
  let ?u = "u\<lparr>os_side1 := Some p, vs_numAlienRtpPacketsS1 := 0\<rparr>"
  have "recording (ve_config e) p q2 ?u" using recording_sides(1) [OF u(2) assms(4)] by simp
  from take_recording [OF this assms(2,3), of 1] u have "taken (ve_config e) s p 1 p q2 (take_packet e p 1 ?u)"
    by (auto simp: taken_def)
  moreover have "record_packet e p s = take_packet e p 1 ?u"
    using r(9) d u(1) by (simp add: record_packet_def check_packet_def)
  ultimately show ?thesis
    using Add_recording [OF assms(1)] assms(2) by (simp add: plain_voice_def)
qed

lemma packet_side2:
  assumes "recording (ve_config e) q1 q2 s" "plain_voice (ve_config e) p" "ve_alloc e = (\<lambda>_. True)"
    "same_stream p q2" "rp_timestamp p \<noteq> rp_timestamp q2" "follows (ve_config e) q2 p"
  shows "taken (ve_config e) s p 2 q1 p (AddRtpPacket e p s)"
proof -
  note r = recordingD [OF assms(1)]
  let ?s = "s\<lparr>vs_lastRtpPacket := Some p\<rparr>"
  have "\<not> same_stream p q1" using r(12) same_stream_trans [OF assms(4)] same_stream_sym by metis
  then have d: "detect e p ?s = Done (2, False, ?s)"
    using r(1,9,10) assms(4) by (simp add: detect_def DetectChannel_def)
  have "recording (ve_config e) q1 q2 ?s" using assms(1) by simp
  from check_follows(2) [OF this assms(6,5)] obtain u where
    u: "check_side2 (ve_config e) p q2 ?s = (Take 2, u\<lparr>os_side2 := Some p, vs_numAlienRtpPacketsS2 := 0\<rparr>)"
    "recording (ve_config e) q1 q2 u" "sr_out u = sr_out s" "os_capturePort u = os_capturePort s" by auto
  let ?u = "u\<lparr>os_side2 := Some p, vs_numAlienRtpPacketsS2 := 0\<rparr>"
  have "recording (ve_config e) q1 p ?u" using recording_sides(2) [OF u(2) assms(4)] by simp
  from take_recording [OF this assms(2,3), of 2] u have "taken (ve_config e) s p 2 q1 p (take_packet e p 2 ?u)"
    by (auto simp: taken_def)
  moreover have "record_packet e p s = take_packet e p 2 ?u"
    using r(10) d u(1) by (simp add: record_packet_def check_packet_def)
  ultimately show ?thesis
    using Add_recording [OF assms(1)] assms(2) by (simp add: plain_voice_def)
qed

lemma packet_again:
  assumes "recording (ve_config e) q1 q2 s" "unat (rp_payloadType p) < 96"
    "same_stream p q1 \<and> rp_timestamp p = rp_timestamp q1 \<or>
     \<not> same_stream p q1 \<and> same_stream p q2 \<and> rp_timestamp p = rp_timestamp q2"
  shows "\<exists>t. AddRtpPacket e p s = Done (True, p, t) \<and> recording (ve_config e) q1 q2 t \<and>
    sr_out t = sr_out s \<and> os_capturePort t = os_capturePort s"
proof -
  note r = recordingD [OF assms(1)]
  have "record_packet e p s = Done (True, p, s\<lparr>vs_lastRtpPacket := Some p, vs_hasDuplicateRtp := True\<rparr>)"
  proof (cases "same_stream p q1")
    case True
    with r(9) assms(3) show ?thesis
      by (simp add: record_packet_def detect_def DetectChannel_def check_packet_def check_side1_def)
  next
    case False
    with r(1,9,10) assms(3) show ?thesis
      by (simp add: record_packet_def detect_def DetectChannel_def check_packet_def check_side2_def)
  qed
  with Add_recording [OF assms(1,2)] assms(1) show ?thesis by simp
qed

text \<open>
  C5. What is recorded of a call. While a session records two streams that arrive interleaved, in
  sequence within each stream (no discontinuity and no pause) and with retransmissions, every packet is
  sent exactly once, in the order of arrival, on the channel of its side, with its payload, timestamp and
  sequence number, and nothing else is sent.
\<close>

theorem session_records_streams:
  assumes "recording c q1 q2 s" "list_all (plain_voice c) (map snd eps)" "in_streams c q1 q2 (map snd eps)"
    "\<forall>e \<in> fst ` set eps. ve_config e = c \<and> ve_alloc e = (\<lambda>_. True)"
  shows "\<exists>t. run_calls session_do (map (\<lambda>(e, p). (e, CallRtp p)) eps) s = Done t \<and>
    sr_out t = sr_out s @ map (\<lambda>(ch, p). ChunkCallback (voice_chunk p ch) (os_capturePort s))
      (expected q1 q2 (map snd eps))"
  using assms
proof (induction eps arbitrary: q1 q2 s)
  case (Cons x eps)
  obtain e p where x: "x = (e, p)" by fastforce
  let ?step = "AddRtpPacket e p s"
  have e: "ve_config e = c" "ve_alloc e = (\<lambda>_. True)" and p: "plain_voice c p" "unat (rp_payloadType p) < 96"
    using Cons.prems by (auto simp: x plain_voice_def)
  have ps: "list_all (plain_voice c) (map snd eps)" "\<forall>e \<in> fst ` set eps. ve_config e = c \<and> ve_alloc e = (\<lambda>_. True)"
    using Cons.prems(2,4) by (auto simp: x)
  have again: ?case if "?step = Done (True, p, t)" "recording c r1 r2 t"
    "sr_out t = sr_out s @ out" "os_capturePort t = os_capturePort s" "in_streams c r1 r2 (map snd eps)"
    "map (\<lambda>(ch, p). ChunkCallback (voice_chunk p ch) (os_capturePort s)) (expected q1 q2 (p # map snd eps))
      = out @ map (\<lambda>(ch, p). ChunkCallback (voice_chunk p ch) (os_capturePort s)) (expected r1 r2 (map snd eps))"
    for r1 r2 t out
    using Cons.IH [OF that(2) ps(1) that(5) ps(2)] that(1,3,4,6) by (auto simp: x)
  have ins: "in_streams c q1 q2 (p # map snd eps)" using Cons.prems(3) by (simp add: x)
  show ?case
  proof (cases "same_stream p q1 \<and> rp_timestamp p = rp_timestamp q1 \<or>
     \<not> same_stream p q1 \<and> same_stream p q2 \<and> rp_timestamp p = rp_timestamp q2")
    case True
    with packet_again [of e q1 q2 s p] Cons.prems(1) e p obtain t where "?step = Done (True, p, t)" "recording c q1 q2 t"
      "sr_out t = sr_out s @ []" "os_capturePort t = os_capturePort s" by auto
    from again [OF this] ins True show ?thesis by auto
  next
    case f: False
    show ?thesis
    proof (cases "same_stream p q1")
      case True
      with f ins have t: "rp_timestamp p \<noteq> rp_timestamp q1" "follows c q1 p" "in_streams c p q2 (map snd eps)" by auto
      with True packet_side1 [of e q1 q2 s p] Cons.prems(1) e p obtain t' where
        "?step = Done (True, p, t')" "recording c p q2 t'"
        "sr_out t' = sr_out s @ [ChunkCallback (voice_chunk p 1) (os_capturePort s)]"
        "os_capturePort t' = os_capturePort s" by (auto simp: taken_def)
      from again [OF this t(3)] True t(1) show ?thesis by simp
    next
      case False
      with f ins have t: "same_stream p q2" "rp_timestamp p \<noteq> rp_timestamp q2" "follows c q2 p"
        "in_streams c q1 p (map snd eps)" by auto
      with packet_side2 [of e q1 q2 s p] Cons.prems(1) e p obtain t' where
        "?step = Done (True, p, t')" "recording c q1 p t'"
        "sr_out t' = sr_out s @ [ChunkCallback (voice_chunk p 2) (os_capturePort s)]"
        "os_capturePort t' = os_capturePort s" by (auto simp: taken_def)
      from again [OF this t(4)] False t(2) show ?thesis by simp
    qed
  qed
qed simp

section \<open>Calls that are not recorded\<close>

text \<open>
  With \<open>DiscardUnidirectionalCalls\<close> a session starts at the first packet of its second side, provided
  enough packets came before. A session whose second side came earlier is in the state \<open>missed\<close>.
\<close>

definition waits_for_s2 :: "VoIpConfig \<Rightarrow> bool" where
  "waits_for_s2 c \<longleftrightarrow> bc_lookBackRecording (vc_base c) \<and> bc_discardUnidirectionalCalls (vc_base c) \<and>
     acp_sessionStartsOnS2ActivityDb (vc_acp c) = 0"

definition missed :: "session_run \<Rightarrow> bool" where
  "missed s \<longleftrightarrow> \<not> os_started s \<and> os_keepRtp s \<and> \<not> vs_onHold s \<and> vs_protocol s = ProtRawRtp \<and>
     os_side1 s \<noteq> None \<and> os_side2 s \<noteq> None"

lemma missed_fields [simp]:
  "missed (s\<lparr>vs_lastRtpPacket := l\<rparr>) = missed s" "missed (s\<lparr>vs_numRtpPackets := n\<rparr>) = missed s"
  "missed (s\<lparr>vs_lastUpdated := n\<rparr>) = missed s" "missed (s\<lparr>vs_rtpAddressList := a\<rparr>) = missed s"
  "missed (s\<lparr>os_startWhenReceiveS2 := b\<rparr>) = missed s" "missed (s\<lparr>vs_mappedS1S2 := b\<rparr>) = missed s"
  by (simp_all add: missed_def)

lemma metadata_raw:
  assumes "vs_protocol s = ProtRawRtp"
  shows "\<exists>t. process_metadata e p s = Done t \<and> sr_out t = sr_out s \<and> rtp_core t = rtp_core (s\<lparr>os_capturePort := os_capturePort t\<rparr>)
    \<and> os_started t = os_started s"
  using assms
  by (auto simp: process_metadata_def ProcessMetadataRawRtp_def Let_def rtp_core_def split: prod.split)

lemma check_missed:
  assumes "missed s" "os_side1 s = Some q1" "os_side2 s = Some q2" "ch = 0 \<or> ch = 1 \<or> ch = 2"
  shows "\<exists>v t. check_packet e p ch False s = Done (v, t) \<and> missed t \<and> sr_out t = sr_out s"
proof -
  have "missed (snd (check_side1 c p q1 s)) \<and> sr_out (snd (check_side1 c p q1 s)) = sr_out s" for c
    using assms(1) by (simp add: check_side1_def Let_def note_highest_def missed_def)
  moreover have "missed (snd (check_side2 c p q2 s)) \<and> sr_out (snd (check_side2 c p q2 s)) = sr_out s" for c
    using assms(1) by (simp add: check_side2_def Let_def note_highest_def missed_def)
  moreover have "missed (snd (check_alien e p s)) \<and> sr_out (snd (check_alien e p s)) = sr_out s"
    using assms(1) by (simp add: check_alien_def note_candidate_def Let_def missed_def)
  ultimately show ?thesis using assms(2-4) by (auto simp: check_packet_def) (metis prod.collapse)+
qed

text \<open>Taking a packet on a raw RTP session that does not start: only counters and the start flag change.\<close>

lemma take_silent:
  assumes "vs_protocol s = ProtRawRtp" "\<not> os_started s" "waits_for_s2 (ve_config e)"
  shows "\<exists>m b l. take_packet e p ch s = Done (True, p, s\<lparr>vs_mappedS1S2 := m,
      vs_numRtpPackets := vs_numRtpPackets s + 1, vs_lastUpdated := rp_arrivalTimestamp p, vs_rtpAddressList := l,
      os_startWhenReceiveS2 := b\<rparr>) \<and>
    (vs_numRtpPackets s + 1 \<noteq> vc_rtpMinAmountOfPacketsBeforeStart (ve_config e) \<longrightarrow> b = os_startWhenReceiveS2 s)"
proof -
  obtain m where m: "map_channels (ve_config e) ch s = Done (ch, s\<lparr>vs_mappedS1S2 := m\<rparr>)"
  proof (cases "acp_s1s2Deterministic (vc_acp (ve_config e)) \<and> \<not> vs_mappedS1S2 s \<and> os_side1 s \<noteq> None \<and> os_side2 s \<noteq> None")
    case True
    with assms(1) that [of True] show ?thesis by (simp add: map_channels_def)
  next
    case False
    with that [of "vs_mappedS1S2 s"] show ?thesis by (auto simp: map_channels_def)
  qed
  let ?s = "s\<lparr>vs_mappedS1S2 := m, vs_numRtpPackets := vs_numRtpPackets s + 1, vs_lastUpdated := rp_arrivalTimestamp p\<rparr>"
  obtain l where l: "note_addresses (ve_config e) p ?s = Done (?s\<lparr>vs_rtpAddressList := l\<rparr>)" (is "_ = Done ?t")
    using assms(1) by (cases "HasAddressOrAdd (rp_sourceIp p) (unat (rp_sourcePort p)) (vs_rtpAddressList s)")
      (auto simp: note_addresses_def case_prod_unfold)
  let ?b = "if enough_packets (ve_config e) ?t then True else os_startWhenReceiveS2 s"
  have "take_packet e p ch s = Done (True, p, ?t\<lparr>os_startWhenReceiveS2 := ?b\<rparr>)"
    using m l assms by (simp add: take_packet_def start_now_def waits_for_s2_def)
  moreover have "enough_packets (ve_config e) ?t \<longleftrightarrow>
      vs_numRtpPackets s + 1 = vc_rtpMinAmountOfPacketsBeforeStart (ve_config e)"
    using assms(1) by (simp add: enough_packets_def)
  ultimately show ?thesis by (intro exI conjI) (assumption, simp)
qed

lemma take_missed:
  assumes "missed s" "waits_for_s2 (ve_config e)"
  shows "\<exists>t. take_packet e p ch s = Done (True, p, t) \<and> missed t \<and> sr_out t = sr_out s"
  using take_silent [of s e p ch] assms by (auto simp: missed_def)

lemma detect_known:
  assumes "os_side1 s = Some q1" "os_side2 s = Some q2" "acp_sessionStartsOnS2ActivityDb (vc_acp (ve_config e)) = 0"
  shows "detect e p s = Done (if same_stream p q1 then 1 else if same_stream p q2 then 2 else 0, False, s)"
  using assms by (simp add: detect_def DetectChannel_def)

lemma missed_step:
  assumes "missed s" "waits_for_s2 (ve_config e)"
  shows "\<exists>b p' t. AddRtpPacket e p s = Done (b, p', t) \<and> missed t \<and> sr_out t = sr_out s"
proof -
  have raw: "vs_protocol s = ProtRawRtp" using assms(1) by (simp add: missed_def)
  from metadata_raw [OF raw] obtain u where u: "process_metadata e p s = Done u" "sr_out u = sr_out s"
    "rtp_core u = rtp_core (s\<lparr>os_capturePort := os_capturePort u\<rparr>)" "os_started u = os_started s" by blast
  have m: "missed u" using assms(1) u(3,4) by (simp add: missed_def rtp_core_def)
  let ?u = "u\<lparr>vs_lastRtpPacket := Some p\<rparr>"
  obtain q1 q2 where q: "os_side1 u = Some q1" "os_side2 u = Some q2" using m by (auto simp: missed_def)
  obtain ch where ch: "detect e p ?u = Done (ch, False, ?u)" "ch = 0 \<or> ch = 1 \<or> ch = 2"
    using q assms(2) detect_known [of ?u q1 q2 e p] by (auto simp: waits_for_s2_def split: if_splits)
  have "missed ?u" "os_side1 ?u = Some q1" "os_side2 ?u = Some q2" using m q by simp_all
  from check_missed [OF this ch(2), of e p] obtain v t where v: "check_packet e p ch False ?u = Done (v, t)" "missed t"
    "sr_out t = sr_out u" by auto
  have "\<exists>b p' w. record_packet e p u = Done (b, p', w) \<and> missed w \<and> sr_out w = sr_out u"
  proof -
    obtain w where w: "\<And>n. take_packet e p n t = Done (True, p, w n) \<and> missed (w n) \<and> sr_out (w n) = sr_out u"
      using take_missed [OF v(2) assms(2)] v(3) by metis
    show ?thesis using v ch w by (cases v) (auto simp: record_packet_def)
  qed
  moreover have "AddRtpPacket e p s = record_packet e p u"
    using m u(1) assms(2)
    by (simp add: AddRtpPacket_def non_lookback_start_def is_telephone_event_def hold_step_def missed_def
        waits_for_s2_def)
  ultimately show ?thesis using u(2) by simp
qed

lemma missed_run:
  "missed s \<Longrightarrow> \<forall>e \<in> fst ` set eps. waits_for_s2 (ve_config e) \<Longrightarrow>
    \<exists>t. run_calls session_do (map (\<lambda>(e, p). (e, CallRtp p)) eps) s = Done t \<and> sr_out t = sr_out s"
proof (induction eps arbitrary: s)
  case (Cons x eps)
  obtain e p where x: "x = (e, p)" by fastforce
  from missed_step [of s e p] Cons.prems obtain b p' t where "AddRtpPacket e p s = Done (b, p', t)" "missed t"
    "sr_out t = sr_out s" by (auto simp: x)
  with Cons.IH [of t] Cons.prems(2) show ?case by (auto simp: x)
qed simp

text \<open>A raw RTP session that has seen no packet.\<close>

definition no_packet_yet :: "session_run \<Rightarrow> bool" where
  "no_packet_yet s \<longleftrightarrow> \<not> os_started s \<and> os_keepRtp s \<and> \<not> vs_onHold s \<and> vs_protocol s = ProtRawRtp \<and>
     vs_numRtpPackets s = 0 \<and> \<not> os_startWhenReceiveS2 s \<and> os_side1 s = None \<and> os_side2 s = None"

lemma first_of_side:
  assumes "\<not> os_started s" "os_keepRtp s" "\<not> vs_onHold s" "vs_protocol s = ProtRawRtp" "\<not> os_startWhenReceiveS2 s"
    "waits_for_s2 (ve_config e)" "vs_numRtpPackets s = n" "os_side2 s = None"
    "os_side1 s = None \<or> (\<exists>q. os_side1 s = Some q \<and> \<not> same_stream p q)"
  shows "\<exists>t. AddRtpPacket e p s = Done (True, p, t) \<and> sr_out t = sr_out s \<and> \<not> os_started t \<and> os_keepRtp t \<and>
    \<not> vs_onHold t \<and> vs_protocol t = ProtRawRtp \<and>
    (n + 1 \<noteq> vc_rtpMinAmountOfPacketsBeforeStart (ve_config e) \<longrightarrow> \<not> os_startWhenReceiveS2 t) \<and>
    (if os_side1 s = None then os_side1 t = Some p \<and> os_side2 t = None
     else os_side1 t = os_side1 s \<and> os_side2 t = Some p)"
proof -
  from metadata_raw [OF assms(4)] obtain u where u: "process_metadata e p s = Done u" "sr_out u = sr_out s"
    "rtp_core u = rtp_core (s\<lparr>os_capturePort := os_capturePort u\<rparr>)" "os_started u = os_started s" by blast
  then have f: "\<not> os_started u" "os_keepRtp u" "\<not> vs_onHold u" "vs_protocol u = ProtRawRtp"
    "\<not> os_startWhenReceiveS2 u" "vs_numRtpPackets u = n" "os_side1 u = os_side1 s" "os_side2 u = None"
    using assms by (simp_all add: rtp_core_def)
  let ?ch = "if os_side1 s = None then 1 else 2 :: nat"
  define v where "v = (if os_side1 s = None then u\<lparr>vs_lastRtpPacket := Some p, os_side1 := Some p\<rparr>
            else u\<lparr>vs_lastRtpPacket := Some p, os_side2 := Some p\<rparr>)"
  have v: "\<not> os_started v" "os_keepRtp v" "\<not> vs_onHold v" "vs_protocol v = ProtRawRtp" "sr_out v = sr_out s"
    "\<not> os_startWhenReceiveS2 v" "vs_numRtpPackets v = n"
    "if os_side1 s = None then os_side1 v = Some p \<and> os_side2 v = None
     else os_side1 v = os_side1 s \<and> os_side2 v = Some p"
    using f u(2) by (simp_all add: v_def)
  have "detect e p (u\<lparr>vs_lastRtpPacket := Some p\<rparr>) = Done (?ch, True, v)"
    using assms(6,9) f by (auto simp: detect_def DetectChannel_def waits_for_s2_def v_def)
  then have "AddRtpPacket e p s = take_packet e p ?ch v"
    using f u(1) assms(6)
    by (simp add: AddRtpPacket_def non_lookback_start_def is_telephone_event_def hold_step_def waits_for_s2_def
        record_packet_def check_packet_def)
  moreover from take_silent [OF v(4,1) assms(6), of p ?ch] obtain m b l where
    "take_packet e p ?ch v = Done (True, p, v\<lparr>vs_mappedS1S2 := m, vs_numRtpPackets := vs_numRtpPackets v + 1,
       vs_lastUpdated := rp_arrivalTimestamp p, vs_rtpAddressList := l, os_startWhenReceiveS2 := b\<rparr>)"
    "vs_numRtpPackets v + 1 \<noteq> vc_rtpMinAmountOfPacketsBeforeStart (ve_config e) \<longrightarrow> b = os_startWhenReceiveS2 v"
    by blast
  ultimately show ?thesis using v by (auto split: if_splits)
qed

text \<open>
  A call with two directions can be discarded as one with one. With \<open>DiscardUnidirectionalCalls\<close> the
  flag that lets the second side start the session is set at the packet that makes up the required
  number (50 by default), and looked at only when the first packet of the second side arrives. If the
  second packet of a raw RTP session belongs to the other side, nothing of the call is ever reported or
  recorded, however many packets follow.
\<close>

theorem discard_loses_call:
  assumes "no_packet_yet s" "\<forall>e \<in> fst ` set ((e1, p1) # (e2, p2) # eps). waits_for_s2 (ve_config e)"
    "vc_rtpMinAmountOfPacketsBeforeStart (ve_config e1) \<noteq> 1" "\<not> same_stream p2 p1"
  shows "\<exists>t. run_calls session_do (map (\<lambda>(e, p). (e, CallRtp p)) ((e1, p1) # (e2, p2) # eps)) s = Done t \<and>
    sr_out t = sr_out s"
proof -
  have w: "waits_for_s2 (ve_config e1)" "waits_for_s2 (ve_config e2)" using assms(2) by auto
  obtain t1 where t1: "AddRtpPacket e1 p1 s = Done (True, p1, t1)" "sr_out t1 = sr_out s" "\<not> os_started t1"
    "os_keepRtp t1" "\<not> vs_onHold t1" "vs_protocol t1 = ProtRawRtp" "\<not> os_startWhenReceiveS2 t1"
    "os_side1 t1 = Some p1" "os_side2 t1 = None"
    using first_of_side [of s e1 0 p1] w(1) assms(1,3) by (auto simp: no_packet_yet_def)
  obtain t2 where t2: "AddRtpPacket e2 p2 t1 = Done (True, p2, t2)" "sr_out t2 = sr_out t1" "\<not> os_started t2"
    "os_keepRtp t2" "\<not> vs_onHold t2" "vs_protocol t2 = ProtRawRtp" "os_side1 t2 = Some p1" "os_side2 t2 = Some p2"
    using first_of_side [of t1 e2 _ p2] w(2) t1(3-9) assms(4) by auto
  have "missed t2" using t2 by (simp add: missed_def)
  from missed_run [OF this, of eps] assms(2) t1 t2 show ?thesis by auto
qed

section \<open>Calls that are broken up\<close>

text \<open>A pause between two packets whose sequence numbers wrap: \<open>dt\<close> is longer than the packets explain.\<close>

definition pause_at_wrap :: "RtpPacketInfo \<Rightarrow> RtpPacketInfo \<Rightarrow> bool" where
  "pause_at_wrap q p \<longleftrightarrow> rp_seqNum p < rp_seqNum q \<and> rp_timestamp p \<noteq> rp_timestamp q \<and>
     reset_delta p q * 160 < sint (rp_timestamp p - rp_timestamp q) \<and>
     sint (rp_timestamp p - rp_timestamp q) \<le> \<bar>seq_delta p q\<bar> * 160"

text \<open>
  A pause at the wrap of the sequence numbers is noticed on one side only. With
  \<open>RtpBreakupOnStreamPause\<close>, side 2 compares the timestamps with the distance across the wrap and breaks
  the session up; side 1 first compares them with the absolute difference of the sequence numbers, so
  it misses every pause of up to that difference times 160, about 22 minutes, and records on.
\<close>

theorem pause_at_wrap_missed:
  assumes "recording (ve_config e) q1 q2 s" "plain_voice (ve_config e) p" "ve_alloc e = (\<lambda>_. True)"
    "vc_rtpBreakupOnStreamPause (ve_config e)" "\<not> vc_rtpDiscontinuityDetect (ve_config e)"
  shows "(same_stream p q1 \<and> pause_at_wrap q1 p \<longrightarrow>
      (\<exists>t. AddRtpPacket e p s = Done (True, p, t) \<and>
        sr_out t = sr_out s @ [ChunkCallback (voice_chunk p 1) (os_capturePort s)])) \<and>
    (same_stream p q2 \<and> pause_at_wrap q2 p \<longrightarrow> (\<exists>t. AddRtpPacket e p s = Done (False, p, t)))"
proof (intro conjI impI)
  note r = recordingD [OF assms(1)]
  let ?c = "ve_config e" and ?s = "s\<lparr>vs_lastRtpPacket := Some p\<rparr>"
  have add: "AddRtpPacket e p s = record_packet e p s"
    using Add_recording [OF assms(1)] assms(2) by (simp add: plain_voice_def)
  have det: "detect e p ?s = Done (if same_stream p q1 then 1 else if same_stream p q2 then 2 else 0, False, ?s)"
    by (rule detect_known) (simp_all add: r)
  {
    assume p: "same_stream p q1 \<and> pause_at_wrap q1 p"
    obtain u where u: "check_side1 ?c p q1 ?s = (Take 1, u\<lparr>os_side1 := Some p, vs_numAlienRtpPacketsS1 := 0\<rparr>)"
      "recording ?c q1 q2 u" "sr_out u = sr_out s" "os_capturePort u = os_capturePort s"
    proof -
      let ?n = "note_highest (seq_delta p q1) ?s"
      have gap: "\<not> (seq_delta p q1 > 1 \<and> seq_delta p q1 \<le> vc_rtpSeqGapThreshold ?c)"
        using p by (simp add: pause_at_wrap_def seq_delta_def word_less_def)
      have "check_side1 ?c p q1 ?s = (Take 1, ?n\<lparr>os_side1 := Some p, vs_numAlienRtpPacketsS1 := 0\<rparr>)"
        using p assms(5) gap by (auto simp: check_side1_def Let_def rtp_discontinuity_def pause_at_wrap_def)
      with that [of ?n] assms(1) show ?thesis by (simp add: note_highest_def)
    qed
    have "recording ?c p q2 (u\<lparr>os_side1 := Some p, vs_numAlienRtpPacketsS1 := 0\<rparr>)"
      using recording_sides(1) [OF u(2)] p by simp
    from take_recording [OF this assms(2,3), of 1] u p det r(9)
    show "\<exists>t. AddRtpPacket e p s = Done (True, p, t) \<and>
        sr_out t = sr_out s @ [ChunkCallback (voice_chunk p 1) (os_capturePort s)]"
      unfolding add by (auto simp: record_packet_def check_packet_def)
  }
  assume p: "same_stream p q2 \<and> pause_at_wrap q2 p"
  have "\<not> same_stream p q1" using p r(12) by (metis same_stream_trans same_stream_sym)
  moreover have "check_side2 ?c p q2 ?s = (Broken, ?s)"
    using p assms(4,5) by (simp add: check_side2_def Let_def rtp_discontinuity_def pause_at_wrap_def)
  ultimately show "\<exists>t. AddRtpPacket e p s = Done (False, p, t)"
    unfolding add using p det r(10) by (auto simp: record_packet_def check_packet_def)
qed

text \<open>While its packets are ignored, an established session keeps its streams.\<close>

lemma ignored_run:
  assumes "recording c q1 q2 (s\<lparr>os_keepRtp := True\<rparr>)" "\<not> os_keepRtp s" "\<not> os_nonLookBackSessionStarted s"
    "\<forall>e \<in> fst ` set eps. ve_config e = c" "\<forall>p \<in> snd ` set eps. unat (rp_payloadType p) < 96"
  shows "\<exists>t. run_calls session_do (map (\<lambda>(e, p). (e, CallRtp p)) eps) s = Done t \<and>
    recording c q1 q2 (t\<lparr>os_keepRtp := True\<rparr>) \<and> sr_out t = sr_out s \<and>
    vs_minRtpTimestampDelta t = vs_minRtpTimestampDelta s"
  using assms
proof (induction eps arbitrary: s)
  case (Cons x eps)
  obtain e p where x: "x = (e, p)" by fastforce
  note r = recordingD [OF Cons.prems(1), simplified]
  have e: "ve_config e = c" and p: "unat (rp_payloadType p) < 96" using Cons.prems(4,5) by (auto simp: x)
  let ?t = "s\<lparr>vs_lastUpdated := rp_arrivalTimestamp p, vs_numIgnoredRtpPackets := vs_numIgnoredRtpPackets s + 1\<rparr>"
  have "int (unat (rp_payloadType p)) < 96" using p by linarith
  then have "uint (rp_payloadType p) < 96" by simp
  with r(16) have "\<not> is_telephone_event c p s" unfolding is_telephone_event_def by auto
  moreover have "process_metadata e p s = Done s" using r(3) by (simp add: process_metadata_def)
  moreover have "non_lookback_start e s = s" using r(5) e by (simp add: non_lookback_start_def)
  moreover have "ignore_packet e p s = Done ?t"
    using Cons.prems(3) detect_known [OF r(9,10), of e p] r(13) e by (simp add: ignore_packet_def)
  ultimately have add: "AddRtpPacket e p s = Done (True, p, ?t)"
    using Cons.prems(2) e by (simp add: AddRtpPacket_def)
  have rec: "recording c q1 q2 (?t\<lparr>os_keepRtp := True\<rparr>)"
    using Cons.prems(1) unfolding recording_def by simp
  have "\<not> os_keepRtp ?t" "\<not> os_nonLookBackSessionStarted ?t" "\<forall>e \<in> fst ` set eps. ve_config e = c"
    "\<forall>p \<in> snd ` set eps. unat (rp_payloadType p) < 96" using Cons.prems(2-5) by (simp_all add: x)
  from Cons.IH [OF rec this] obtain t where
    "run_calls session_do (map (\<lambda>(e, p). (e, CallRtp p)) eps) ?t = Done t"
    "recording c q1 q2 (t\<lparr>os_keepRtp := True\<rparr>)" "sr_out t = sr_out s"
    "vs_minRtpTimestampDelta t = vs_minRtpTimestampDelta s" by auto
  with add show ?case by (auto simp: x)
qed simp

text \<open>
  A pause by command can break the session up. While capture is paused the packets are ignored, but the last
  packet of each side is kept as it was; with \<open>RtpDiscontinuityDetect\<close> the first packet after capture
  is resumed is compared with that old one, so a pause of more than \<open>RtpDiscontinuityMinSeqDelta\<close>
  packets (1000 by default, 20 seconds) counts as a discontinuity and the session is stopped.
\<close>

theorem resumed_capture_breaks_up:
  assumes "recording c q1 q2 s" "\<not> os_nonLookBackSessionStarted s"
    "\<forall>e \<in> fst ` set eps. ve_config e = c" "\<forall>p \<in> snd ` set eps. unat (rp_payloadType p) < 96"
    "ve_config e = c" "unat (rp_payloadType p) < 96" "vc_rtpDiscontinuityDetect c"
    "same_stream p q1" "\<bar>seq_delta p q1\<bar> > vc_rtpDiscontinuityMinSeqDelta c"
    "\<bar>uint (rp_timestamp p) - uint (rp_timestamp q1)\<bar> > vs_minRtpTimestampDelta s" "rp_timestamp p \<noteq> rp_timestamp q1"
  shows "\<exists>t u. run_calls session_do ((e, CallKeepRtp False) # map (\<lambda>(e, p). (e, CallRtp p)) eps
      @ [(e, CallKeepRtp True)]) s = Done t \<and> sr_out t = sr_out s \<and> AddRtpPacket e p t = Done (False, p, u)"
proof -
  let ?s = "s\<lparr>os_keepRtp := False\<rparr>"
  have "recording c q1 q2 (?s\<lparr>os_keepRtp := True\<rparr>)" using assms(1) by (simp add: recording_def)
  from ignored_run [OF this _ _ assms(3,4)] assms(2) obtain t0 where
    t0: "run_calls session_do (map (\<lambda>(e, p). (e, CallRtp p)) eps) ?s = Done t0"
    "recording c q1 q2 (t0\<lparr>os_keepRtp := True\<rparr>)" "sr_out t0 = sr_out s"
    "vs_minRtpTimestampDelta t0 = vs_minRtpTimestampDelta s" by auto
  let ?t = "t0\<lparr>os_keepRtp := True\<rparr>"
  note r = recordingD [OF t0(2)]
  have "AddRtpPacket e p ?t = record_packet e p ?t"
    using Add_recording [of e q1 q2 ?t p] t0(2) assms(5,6) by simp
  also have "\<dots> = Done (False, p, ?t\<lparr>vs_lastRtpPacket := Some p\<rparr>)"
    using detect_known [of "?t\<lparr>vs_lastRtpPacket := Some p\<rparr>" q1 q2 e p] r(9-13) t0(4) assms(5,7-11)
    by (simp add: record_packet_def check_packet_def check_side1_def rtp_discontinuity_def Let_def)
  finally have "AddRtpPacket e p ?t = Done (False, p, ?t\<lparr>vs_lastRtpPacket := Some p\<rparr>)" .
  moreover have "run_calls session_do ((e, CallKeepRtp False) # map (\<lambda>(e, p). (e, CallRtp p)) eps
      @ [(e, CallKeepRtp True)]) s = Done ?t"
    using t0(1) by (simp add: run_calls_append)
  ultimately show ?thesis using t0(3) by (intro exI conjI) (assumption, simp_all)
qed

section \<open>A new stream\<close>

text \<open>Packets of a new stream are counted; \<open>n\<close> of them after the first are in the counters.\<close>

definition candidate :: "RtpPacketInfo \<Rightarrow> nat \<Rightarrow> session_run \<Rightarrow> bool" where
  "candidate x n s \<longleftrightarrow> (if n = 0 then vs_ssrcCandidate s = - 1 \<and> vs_numAlienRtpPacketsS1 s = 0 \<and> vs_numAlienRtpPacketsS2 s = 0
     else vs_ssrcCandidate s = rp_ssrc x \<and> vs_numAlienRtpPacketsS1 s = of_nat (n - 1) \<and>
       vs_numAlienRtpPacketsS2 s = of_nat (n - 1))"

lemma alien_detect:
  assumes "recording c q1 q2 s" "same_stream p x" "\<not> same_stream x q1" "\<not> same_stream x q2" "ve_config e = c"
    "unat (rp_payloadType p) < 96"
  shows "AddRtpPacket e p s = (case check_alien e p (s\<lparr>vs_lastRtpPacket := Some p\<rparr>) of
    (v, t) \<Rightarrow> (case v of Dismiss \<Rightarrow> Done (True, p, t) | Broken \<Rightarrow> Done (False, p, t)
      | Take ch \<Rightarrow> take_packet e p ch t))"
proof -
  note r = recordingD [OF assms(1)]
  have "\<not> same_stream p q1" "\<not> same_stream p q2" using assms(2-4) same_stream_trans by blast+
  then have "detect e p (s\<lparr>vs_lastRtpPacket := Some p\<rparr>) = Done (0, False, s\<lparr>vs_lastRtpPacket := Some p\<rparr>)"
    using detect_known [of "s\<lparr>vs_lastRtpPacket := Some p\<rparr>" q1 q2 e p] r(9,10,13) assms(5) by simp
  then show ?thesis
    using Add_recording [of e q1 q2 s p] assms(1,5,6) by (simp add: record_packet_def check_packet_def split: prod.split)
qed

lemma alien_counted:
  assumes "recording c q1 q2 s" "candidate x n s" "n < 11" "same_stream p x" "\<not> same_stream x q1" "\<not> same_stream x q2"
    "rp_ssrc x \<noteq> - 1" "ve_config e = c" "unat (rp_payloadType p) < 96"
  shows "\<exists>t. AddRtpPacket e p s = Done (True, p, t) \<and> recording c q1 q2 t \<and> candidate x (Suc n) t \<and>
    sr_out t = sr_out s \<and> os_capturePort t = os_capturePort s"
proof -
  let ?t = "note_candidate e p (s\<lparr>vs_lastRtpPacket := Some p\<rparr>)"
  have x: "rp_ssrc p = rp_ssrc x" using assms(4) by (simp add: same_stream_def)
  have cand: "candidate x (Suc n) ?t"
  proof (cases n)
    case 0
    with assms(2) x show ?thesis by (simp add: candidate_def note_candidate_def)
  next
    case (Suc m)
    with assms(2,7) x show ?thesis by (simp add: candidate_def note_candidate_def)
  qed
  have "\<not> (of_nat n :: u32) > 10" using assms(3) by (simp add: word_less_nat_alt unat_of_nat)
  with cand have "check_alien e p (s\<lparr>vs_lastRtpPacket := Some p\<rparr>) = (Dismiss, ?t)"
    by (simp add: check_alien_def Let_def candidate_def)
  moreover have "recording c q1 q2 ?t \<and> sr_out ?t = sr_out s \<and> os_capturePort ?t = os_capturePort s"
    using assms(1) by (simp add: note_candidate_def recording_def)
  ultimately show ?thesis using alien_detect [OF assms(1,4-6,8,9)] cand by simp
qed

lemma alien_takes_side1:
  assumes "recording c q1 q2 s" "candidate x 11 s" "same_stream p x" "\<not> same_stream x q1" "\<not> same_stream x q2"
    "rp_ssrc x \<noteq> - 1" "ve_config e = c" "plain_voice c p" "ve_alloc e = (\<lambda>_. True)"
    "\<not> acp_s1s2Deterministic (vc_acp c)"
  shows "\<exists>t. AddRtpPacket e p s = Done (True, p, t) \<and> recording c p q2 t \<and>
    sr_out t = sr_out s @ [ChunkCallback (voice_chunk p 1) (os_capturePort s)]"
proof -
  let ?t = "note_candidate e p (s\<lparr>vs_lastRtpPacket := Some p\<rparr>)"
  let ?u = "?t\<lparr>vs_numAlienRtpPacketsS1 := 0, vs_ssrcCandidate := - 1, os_side1 := Some p,
                 vs_mappedS1S2 := False, vs_lastRtpStreamStart := ve_now e\<rparr>"
  have x: "rp_ssrc p = rp_ssrc x" using assms(3) by (simp add: same_stream_def)
  have "vs_numAlienRtpPacketsS1 ?t = 11"
    using assms(2,6) x by (simp add: candidate_def note_candidate_def)
  then have "check_alien e p (s\<lparr>vs_lastRtpPacket := Some p\<rparr>) = (Take 1, ?u)"
    by (simp add: check_alien_def Let_def)
  with alien_detect [OF assms(1,3-5,7)] assms(8) have add: "AddRtpPacket e p s = take_packet e p 1 ?u"
    by (simp add: plain_voice_def)
  have "\<not> same_stream p q2" using assms(3,5) same_stream_trans by blast
  then have "recording (ve_config e) p q2 ?u" "sr_out ?u = sr_out s" "os_capturePort ?u = os_capturePort s"
    using assms(1,7,10) by (simp_all add: note_candidate_def recording_def)
  with take_recording [of e p q2 ?u p 1] assms(7-9) show ?thesis unfolding add by auto
qed

lemma aliens_counted:
  assumes "recording c q1 q2 s" "candidate x n s" "n + length eps \<le> 11" "\<not> same_stream x q1" "\<not> same_stream x q2"
    "rp_ssrc x \<noteq> - 1" "\<forall>(e, p) \<in> set eps. ve_config e = c \<and> same_stream p x \<and> unat (rp_payloadType p) < 96"
  shows "\<exists>t. run_calls session_do (map (\<lambda>(e, p). (e, CallRtp p)) eps) s = Done t \<and> recording c q1 q2 t \<and>
    candidate x (n + length eps) t \<and> sr_out t = sr_out s \<and> os_capturePort t = os_capturePort s"
  using assms
proof (induction eps arbitrary: s n)
  case (Cons y eps)
  obtain e p where y: "y = (e, p)" by fastforce
  have e: "ve_config e = c" "same_stream p x" "unat (rp_payloadType p) < 96" "n < 11"
    "\<forall>(e, p) \<in> set eps. ve_config e = c \<and> same_stream p x \<and> unat (rp_payloadType p) < 96" "Suc n + length eps \<le> 11"
    using Cons.prems(3,7) by (auto simp: y)
  obtain t where t: "AddRtpPacket e p s = Done (True, p, t)" "recording c q1 q2 t" "candidate x (Suc n) t"
    "sr_out t = sr_out s" "os_capturePort t = os_capturePort s"
    using alien_counted [OF Cons.prems(1,2) e(4,2) Cons.prems(4-6) e(1,3)] by blast
  from Cons.IH [OF t(2,3) e(6) Cons.prems(4-6) e(5)] t show ?case by (auto simp: y)
qed simp

text \<open>
  C10. A new stream takes a side over. Twelve packets of a stream that is neither of the two recorded ones,
  while those are silent, are what it takes: the first eleven are dismissed, the twelfth is recorded on
  channel 1 and its stream takes the place of side 1; side 2 stays as it is.
\<close>

theorem new_stream_takes_side:
  assumes "recording c q1 q2 s" "candidate x 0 s" "length eps = 11" "\<not> same_stream x q1" "\<not> same_stream x q2"
    "rp_ssrc x \<noteq> - 1" "\<forall>(e, p) \<in> set eps. ve_config e = c \<and> same_stream p x \<and> unat (rp_payloadType p) < 96"
    "same_stream p x" "ve_config e = c" "ve_alloc e = (\<lambda>_. True)" "plain_voice c p" "\<not> acp_s1s2Deterministic (vc_acp c)"
  shows "\<exists>t u. run_calls session_do (map (\<lambda>(e, p). (e, CallRtp p)) eps) s = Done t \<and> sr_out t = sr_out s \<and>
    recording c q1 q2 t \<and> AddRtpPacket e p t = Done (True, p, u) \<and> recording c p q2 u \<and>
    sr_out u = sr_out t @ [ChunkCallback (voice_chunk p 1) (os_capturePort s)]"
proof -
  obtain t where t: "run_calls session_do (map (\<lambda>(e, p). (e, CallRtp p)) eps) s = Done t" "recording c q1 q2 t"
    "candidate x 11 t" "sr_out t = sr_out s" "os_capturePort t = os_capturePort s"
    using aliens_counted [OF assms(1,2) _ assms(4-7)] assms(3) by auto
  from alien_takes_side1 [OF t(2,3) assms(8,4,5,6,9,11,10,12)] t show ?thesis by fastforce
qed

section \<open>Examples\<close>

definition sample_recording :: session_run where
  "sample_recording = (fresh_run sample_env ''AAAA'')\<lparr>os_started := True, vs_metadataProcessed := True,
     vs_protocol := ProtRawRtp, vs_numRtpPackets := 60, os_side1 := Some (voice 5 1), os_side2 := Some (voice 6 1)\<rparr>"

lemma voice_simps [simp]:
  "rp_ssrc (voice n i) = n" "rp_destIp (voice n i) = (10, 0, 0, 2)" "rp_timestamp (voice n i) = of_nat (160 * i)"
  "rp_seqNum (voice n i) = of_nat i" "rp_payloadType (voice n i) = 0" "rp_payload (voice n i) = [of_nat i]"
  "same_stream (voice n i) (voice m j) \<longleftrightarrow> n = m"
  by (simp_all add: voice_def example_packet_def same_stream_def)

lemma sample_recording_ok: "recording sample_config (voice 5 1) (voice 6 1) sample_recording"
  by (simp add: recording_def sample_recording_def fresh_run_simps sample_config_def sample_env_def example_base_def
      example_acp_def)

lemma sample_env_simps [simp]: "ve_config sample_env = sample_config" "ve_alloc sample_env = (\<lambda>_. True)"
  by (simp_all add: sample_env_def)

lemma voice_plain [simp]: "plain_voice sample_config (voice n i)"
  by (simp add: plain_voice_def sample_config_def)

theorem session_records_streams_witness:
  "\<exists>t. run_calls session_do (map (\<lambda>(e, p). (e, CallRtp p)) [(sample_env, voice 5 2), (sample_env, voice 6 2),
      (sample_env, voice 5 2)]) sample_recording = Done t \<and>
    sr_out t = sr_out sample_recording @ map (\<lambda>(ch, p). ChunkCallback (voice_chunk p ch) (os_capturePort sample_recording))
      (expected (voice 5 1) (voice 6 1) [voice 5 2, voice 6 2, voice 5 2])"
  using session_records_streams [OF sample_recording_ok, of "[(sample_env, voice 5 2), (sample_env, voice 6 2),
      (sample_env, voice 5 2)]"]
  by (simp add: follows_def seq_delta_def sample_config_def plain_voice_def)

definition discarding :: voip_env where
  "discarding = sample_env\<lparr>ve_config := sample_config\<lparr>vc_base := example_base\<lparr>bc_discardUnidirectionalCalls := True\<rparr>\<rparr>\<rparr>"

theorem discard_loses_call_witness:
  "\<exists>t. run_calls session_do (map (\<lambda>(e, p). (e, CallRtp p)) [(discarding, voice 5 1), (discarding, voice 6 1),
      (discarding, voice 5 2)]) ((fresh_run discarding ''AAAA'')\<lparr>vs_protocol := ProtRawRtp\<rparr>) = Done t \<and>
    sr_out t = sr_out ((fresh_run discarding ''AAAA'')\<lparr>vs_protocol := ProtRawRtp\<rparr>)"
  by (rule discard_loses_call)
    (simp_all add: no_packet_yet_def fresh_run_simps discarding_def sample_config_def sample_env_def example_base_def
      waits_for_s2_def example_acp_def)

definition pausing :: voip_env where
  "pausing = sample_env\<lparr>ve_config := sample_config\<lparr>vc_rtpBreakupOnStreamPause := True, vc_rtpDiscontinuityDetect := False\<rparr>\<rparr>"

definition wrapped :: "u32 \<Rightarrow> RtpPacketInfo" where
  "wrapped ssrc = (voice ssrc 0)\<lparr>rp_timestamp := 80000\<rparr>"

definition at_wrap :: session_run where
  "at_wrap = sample_recording\<lparr>os_side1 := Some ((voice 5 0)\<lparr>rp_seqNum := 65535\<rparr>),
     os_side2 := Some ((voice 6 0)\<lparr>rp_seqNum := 65535\<rparr>)\<rparr>"

theorem pause_at_wrap_missed_witness:
  "(\<exists>t. AddRtpPacket pausing (wrapped 5) at_wrap = Done (True, wrapped 5, t) \<and>
      sr_out t = sr_out at_wrap @ [ChunkCallback (voice_chunk (wrapped 5) 1) (os_capturePort at_wrap)]) \<and>
   (\<exists>t. AddRtpPacket pausing (wrapped 6) at_wrap = Done (False, wrapped 6, t))"
proof -
  let ?q = "\<lambda>n. (voice n 0)\<lparr>rp_seqNum := 65535\<rparr>"
  have "recording (ve_config pausing) (?q 5) (?q 6) at_wrap"
    using sample_recording_ok by (simp add: recording_def at_wrap_def pausing_def same_stream_def sample_config_def)
  note at = pause_at_wrap_missed [OF this]
  have "plain_voice (ve_config pausing) (wrapped n)" "same_stream (wrapped n) (?q n)" "pause_at_wrap (?q n) (wrapped n)" for n
    by (simp_all add: plain_voice_def pausing_def wrapped_def sample_config_def same_stream_def pause_at_wrap_def
        reset_delta_def seq_delta_def)
  then show ?thesis using at [of "wrapped 5"] at [of "wrapped 6"] by (simp add: pausing_def)
qed

theorem resumed_capture_breaks_up_witness:
  "\<exists>t u. run_calls session_do ((sample_env, CallKeepRtp False) # map (\<lambda>(e, p). (e, CallRtp p)) [(sample_env, voice 5 2)]
      @ [(sample_env, CallKeepRtp True)]) sample_recording = Done t \<and> sr_out t = sr_out sample_recording \<and>
    AddRtpPacket sample_env (voice 5 2000) t = Done (False, voice 5 2000, u)"
  by (rule resumed_capture_breaks_up [OF sample_recording_ok])
    (simp_all add: sample_recording_def fresh_run_simps sample_config_def sample_env_def seq_delta_def)

theorem new_stream_takes_side_witness:
  "\<exists>t u. run_calls session_do (map (\<lambda>(e, p). (e, CallRtp p)) (map (\<lambda>i. (sample_env, voice 9 i)) [0..<11]))
      sample_recording = Done t \<and> sr_out t = sr_out sample_recording \<and> recording sample_config (voice 5 1) (voice 6 1) t \<and>
    AddRtpPacket sample_env (voice 9 11) t = Done (True, voice 9 11, u) \<and>
    recording sample_config (voice 9 11) (voice 6 1) u \<and>
    sr_out u = sr_out t @ [ChunkCallback (voice_chunk (voice 9 11) 1) (os_capturePort sample_recording)]"
proof (rule new_stream_takes_side [OF sample_recording_ok, of "voice 9 0"])
  show "candidate (voice 9 0) 0 sample_recording"
    by (simp add: candidate_def sample_recording_def fresh_run_simps)
  show "\<forall>(e, p) \<in> set (map (\<lambda>i. (sample_env, voice 9 i)) [0..<11]).
      ve_config e = sample_config \<and> same_stream p (voice 9 0) \<and> unat (rp_payloadType p) < 96" by auto
qed (simp_all add: sample_config_def example_acp_def plain_voice_def)

text \<open>Without the level test of the second side and with enough memory, no packet throws.\<close>

lemma and_then_Thrown: "and_then m f = Thrown \<longleftrightarrow> m = Thrown \<or> (\<exists>x. m = Done x \<and> f x = Thrown)"
  by (cases m) auto

lemma take_no_throw: "ve_alloc e = (\<lambda>_. True) \<Longrightarrow> take_packet e p ch s \<noteq> Thrown"
proof -
  have "map_channels c n s \<noteq> Thrown" for c n
    by (simp add: map_channels_def ShouldSwapChannels_def and_then_Thrown Let_def split: option.split)
  moreover have "note_addresses c p t \<noteq> Thrown" for c t
    by (simp add: note_addresses_def UpdateMetadataSipOnRtpChange_def Let_def split: option.split prod.split)
  moreover have "ve_alloc e = (\<lambda>_. True) \<Longrightarrow> send_audio e p n t \<noteq> Thrown" for n t
    by (simp add: send_audio_def packet_details_def SetBuffer_def and_then_Thrown Let_def)
  ultimately show "ve_alloc e = (\<lambda>_. True) \<Longrightarrow> ?thesis"
    by (auto simp: take_packet_def and_then_Thrown Let_def)
qed

lemma Add_no_throw:
  assumes "ve_alloc e = (\<lambda>_. True)" "acp_sessionStartsOnS2ActivityDb (vc_acp (ve_config e)) = 0"
  shows "AddRtpPacket e p s \<noteq> Thrown"
proof -
  have det: "detect e p t \<noteq> Thrown" for t
    using assms(2) by (simp add: detect_def DetectChannel_def Let_def split: option.split)
  have "check_packet e p ch f t \<noteq> Thrown" for ch f t
    by (simp add: check_packet_def split: option.split)
  then have "record_packet e p t \<noteq> Thrown" for t
    using det take_no_throw [OF assms(1)] by (auto simp: record_packet_def and_then_Thrown split: rtp_verdict.splits)
  moreover have "ignore_packet e p t \<noteq> Thrown" for t
    using det by (simp add: ignore_packet_def and_then_Thrown Let_def)
  moreover have "process_metadata e p s \<noteq> Thrown"
    by (simp add: process_metadata_def ProcessMetadataSip_def Let_def split: option.split ProtocolEnum.split)
  ultimately show ?thesis
    by (auto simp: AddRtpPacket_def and_then_Thrown Let_def split: prod.splits if_splits)
qed

definition short_call :: "(voip_env \<times> session_call) list" where
  "short_call = [(sample_env, CallRawRtp), (sample_env, CallRtp (voice 5 1)), (sample_env, CallRtp (voice 6 1)),
     (sample_env, CallStop)]"

theorem session_report_order_witness:
  "\<exists>t. run_calls session_do short_call (fresh_run sample_env ''AAAA'') = Done t \<and>
    (\<forall>pre c port post. sr_out t = pre @ ChunkCallback c port # post \<longrightarrow> list_ex (is_event EtStart) pre) \<and>
    (\<forall>pre x post. sr_out t = pre @ x # post \<and> is_event EtStop x \<longrightarrow>
       list_ex (is_event EtStart) pre \<and> \<not> list_ex (is_event EtStop) pre) \<and>
    (os_stopped t \<longleftrightarrow> list_ex (is_event EtStop) (sr_out t)) \<and>
    (os_started t \<longleftrightarrow> list_ex (is_event EtStart) (sr_out t))"
proof -
  have ok: "list_all call_ok short_call" by (simp add: short_call_def packet_ok_def)
  have "acp_sessionStartsOnS2ActivityDb (vc_acp (ve_config sample_env)) = 0"
    by (simp add: sample_config_def example_acp_def)
  then have "run_calls session_do short_call s \<noteq> Thrown" for s
    using Add_no_throw [of sample_env] by (auto simp: short_call_def and_then_Thrown)
  then obtain t where t: "run_calls session_do short_call (fresh_run sample_env ''AAAA'') = Done t"
    using session.run_defined [OF fresh_run_ok(1) ok] by (metis outcome.exhaust)
  from session_report_order [OF fresh_run_ok ok t] t show ?thesis by blast
qed

end
