(* ===== verification/OrkVoipCall.thy ===== *)
theory OrkVoipCall
  imports OrkVoipStreams OrkPortRuns
begin

text \<open>
  From the session of a call to the recorder: the events of a session, taken by a tape and by a
  capture port.
\<close>

section \<open>What the recorder gets\<close>

fun event_of :: "callback \<Rightarrow> CaptureEvent list" where
  "event_of (EventCallback e p) = [e]"
| "event_of (ChunkCallback c p) = []"

definition events_of :: "callback list \<Rightarrow> CaptureEvent list" where
  "events_of out = concat (map event_of out)"

lemma events_of_simps [simp]:
  "events_of [] = []" "events_of (xs @ ys) = events_of xs @ events_of ys"
  "events_of [EventCallback e p] = [e]" "events_of (x # xs) = event_of x @ events_of xs"
  by (simp_all add: events_of_def)

definition events :: "session_run \<Rightarrow> CaptureEvent list" where
  "events s = events_of (sr_out s)"

lemma events_emit [simp]: "events (emit e s) = events s @ [e]"
  by (simp add: events_def emit_def)

lemma events_fields [simp]:
  "events (s\<lparr>vs_localPartyReported := b\<rparr>) = events s" "events (s\<lparr>vs_remotePartyReported := b\<rparr>) = events s"
  "events (s\<lparr>vs_direction := d\<rparr>) = events s" "events (s\<lparr>vs_localParty := x\<rparr>) = events s"
  "events (s\<lparr>vs_localPartyName := x\<rparr>) = events s"
  by (simp_all add: events_def)

lemma events_fill [simp]: "events (fill_local_party c s) = events s" "events (map_local_name c s) = events s"
  by (simp_all add: events_def fill_local_party_def map_local_name_def Let_def split: option.split)

lemma events_fold [simp]: "events (fold (\<lambda>(k, v). emit (f k v)) xs s) = events s @ map (\<lambda>(k, v). f k v) xs"
  by (induction xs arbitrary: s) auto

text \<open>The parts of a metadata report.\<close>

definition names_events :: "VoIpConfig \<Rightarrow> session_run \<Rightarrow> CaptureEvent list" where
  "names_events c s = (if vc_sipReportNamesAsTags c
     then [key_value ''localname'' (vs_localPartyName s), key_value ''remotename'' (vs_remotePartyName s)] else [])"

text \<open>The local party as reported, for the state after the report.\<close>

definition local_party_shown :: "VoIpConfig \<Rightarrow> session_run \<Rightarrow> string" where
  "local_party_shown c s =
     (if vs_localPartyName s \<noteq> [] \<and> ((vs_protocol s = ProtSkinny \<and> vc_skinnyNameAsLocalParty c) \<or>
          vc_partiesUseName c \<or> vc_localPartyUseName c)
      then vs_localPartyName s else vs_localParty s)"

definition remote_party_shown :: "VoIpConfig \<Rightarrow> session_run \<Rightarrow> string" where
  "remote_party_shown c s =
     (if vc_partiesUseName c \<and> vs_remotePartyName s \<noteq> [] then vs_remotePartyName s else vs_remoteParty s)"

definition metadata_events :: "VoIpConfig \<Rightarrow> session_run \<Rightarrow> CaptureEvent list" where
  "metadata_events c s =
     [event EtLocalParty (local_party_shown c s), event EtRemoteParty (remote_party_shown c s)] @
     (if vs_localEntryPoint s \<noteq> [] then [event EtLocalEntryPoint (vs_localEntryPoint s)] else []) @
     names_events c s @
     [event EtDirection (DirectionToString (vs_direction s)), event EtLocalIp (IpToString (os_localIp s)),
      event EtRemoteIp (IpToString (vs_remoteIp s)), event EtOrkUid (vs_orkUid s), event EtCallId (vs_callId s)] @
     (if os_onDemand s then [key_value ''ondemand'' ''true''] else []) @
     map (\<lambda>(k, v). key_value k v) (vs_tags s) @ [event EtEndMetadata []]"

definition shown_fields where
  "shown_fields s = ((vs_localPartyName s, vs_protocol s, vs_localParty s, vs_remotePartyName s, vs_remoteParty s),
     (vs_localEntryPoint s, vs_direction s, os_localIp s, vs_remoteIp s),
     (vs_orkUid s, vs_callId s, os_onDemand s, vs_tags s), os_started s, os_stopped s)"

lemma shown_emit [simp]: "shown_fields (emit e s) = shown_fields s"
  by (simp add: shown_fields_def emit_def)

lemma shown_parts [simp]:
  "shown_fields (report_names c s) = shown_fields s" "shown_fields (report_remote_party c s) = shown_fields s"
  "shown_fields (report_entry_point s) = shown_fields s"
  "shown_fields (s\<lparr>vs_localPartyReported := b\<rparr>) = shown_fields s"
  by (simp_all add: report_names_def report_remote_party_def report_entry_point_def)
    (simp_all add: shown_fields_def emit_def)

lemma shown_fold [simp]: "shown_fields (fold (\<lambda>(k, v). emit (f k v)) xs s) = shown_fields s"
  by (induction xs arbitrary: s) auto

lemma metadata_events_cong: "shown_fields s = shown_fields t \<Longrightarrow> metadata_events c s = metadata_events c t"
  by (simp add: metadata_events_def shown_fields_def local_party_shown_def remote_party_shown_def names_events_def)

lemma report_local_party_shown:
  assumes "b = (vs_localPartyName s \<noteq> [] \<and> ((vs_protocol s = ProtSkinny \<and> vc_skinnyNameAsLocalParty c) \<or>
          vc_partiesUseName c \<or> vc_localPartyUseName c))"
  shows "events (report_local_party c b s) =
    events s @ [event EtLocalParty (local_party_shown c (report_local_party c b s))]"
  using assms by (auto simp: report_local_party_def local_party_shown_def emit_def events_def at_ip_def)

definition ips where "ips s = (os_localIp s, vs_remoteIp s, os_started s, os_stopped s)"

lemma ips_parts [simp]:
  "ips (fill_local_party c s) = ips s" "ips (map_local_name c s) = ips s" "ips (report_local_party c b s) = ips s"
  "ips (s\<lparr>vs_direction := d\<rparr>) = ips s"
  by (simp_all add: ips_def fill_local_party_def map_local_name_def report_local_party_def emit_def Let_def
      split: option.split)

text \<open>A metadata report: the parties are settled, then sent.\<close>

definition settled :: "VoIpConfig \<Rightarrow> session_run \<Rightarrow> session_run" where
  "settled c s =
     (let s1 = fill_local_party c s
      in map_local_name c (if vs_isCallPickUp s1
           then s1\<lparr>vs_direction := (if vs_direction s1 = DirIn then DirOut else DirIn)\<rparr> else s1))"

definition uses_name :: "VoIpConfig \<Rightarrow> session_run \<Rightarrow> bool" where
  "uses_name c s \<longleftrightarrow> vs_localPartyName s \<noteq> [] \<and> ((vs_protocol s = ProtSkinny \<and> vc_skinnyNameAsLocalParty c) \<or>
     vc_partiesUseName c \<or> vc_localPartyUseName c)"

definition send_parties :: "VoIpConfig \<Rightarrow> session_run \<Rightarrow> session_run" where
  "send_parties c s = report_names c (report_entry_point (report_remote_party c
     (s\<lparr>vs_localPartyReported := True\<rparr>)))"

definition send_rest :: "string \<Rightarrow> string \<Rightarrow> session_run \<Rightarrow> session_run" where
  "send_rest lip rip s5 =
     (let s6 = emit (event EtDirection (DirectionToString (vs_direction s5))) s5;
          s7 = emit (event EtLocalIp lip) s6; s8 = emit (event EtRemoteIp rip) s7;
          s9 = emit (event EtOrkUid (vs_orkUid s8)) s8; s10 = emit (event EtCallId (vs_callId s9)) s9;
          s11 = (if os_onDemand s10 then emit (key_value ''ondemand'' ''true'') s10 else s10);
          s12 = fold (\<lambda>(k, v). emit (key_value k v)) (vs_tags s11) s11
      in emit (event EtEndMetadata []) s12)"

lemma ReportMetadata_parts:
  "ReportMetadata e s = send_rest (IpToString (os_localIp s)) (IpToString (vs_remoteIp s)) (send_parties (ve_config e)
     (report_local_party (ve_config e) (uses_name (ve_config e) (settled (ve_config e) s)) (settled (ve_config e) s)))"
  unfolding ReportMetadata_def send_rest_def send_parties_def settled_def uses_name_def Let_def by (rule refl)

lemma settled_keeps [simp]: "ips (settled c s) = ips s" "events (settled c s) = events s"
  by (simp_all add: settled_def Let_def)

lemma shown_send [simp]: "shown_fields (send_parties c s) = shown_fields s" "shown_fields (send_rest a b s) = shown_fields s"
  by (simp_all add: send_parties_def send_rest_def Let_def)

lemma events_send_parties:
  "events (send_parties c s) = events s @ [event EtRemoteParty (remote_party_shown c s)] @
     (if vs_localEntryPoint s \<noteq> [] then [event EtLocalEntryPoint (vs_localEntryPoint s)] else []) @ names_events c s"
  by (auto simp: send_parties_def report_names_def report_remote_party_def report_entry_point_def names_events_def
      remote_party_shown_def emit_def events_def)

lemma emit_fields [simp]:
  "vs_direction (emit e s) = vs_direction s" "vs_orkUid (emit e s) = vs_orkUid s" "vs_callId (emit e s) = vs_callId s"
  "os_onDemand (emit e s) = os_onDemand s" "vs_tags (emit e s) = vs_tags s"
  by (simp_all add: emit_def)

lemma events_send_rest:
  "events (send_rest lip rip s) = events s @ [event EtDirection (DirectionToString (vs_direction s)),
     event EtLocalIp lip, event EtRemoteIp rip, event EtOrkUid (vs_orkUid s), event EtCallId (vs_callId s)] @
     (if os_onDemand s then [key_value ''ondemand'' ''true''] else []) @
     map (\<lambda>(k, v). key_value k v) (vs_tags s) @ [event EtEndMetadata []]"
  by (simp add: send_rest_def Let_def)

lemma ReportMetadata_events:
  "events (ReportMetadata e s) = events s @ metadata_events (ve_config e) (ReportMetadata e s)"
proof -
  let ?c = "ve_config e"
  define u where "u = settled ?c s"
  define v where "v = report_local_party ?c (uses_name ?c u) u"
  have R: "ReportMetadata e s = send_rest (IpToString (os_localIp s)) (IpToString (vs_remoteIp s)) (send_parties ?c v)"
    by (simp add: ReportMetadata_parts u_def v_def)
  have "ips v = ips s" by (simp add: v_def u_def)
  then have ip: "os_localIp s = os_localIp v" "vs_remoteIp s = vs_remoteIp v" by (simp_all add: ips_def)
  have ev: "events v = events s @ [event EtLocalParty (local_party_shown ?c v)]"
    using report_local_party_shown [OF uses_name_def, of ?c u] by (simp add: v_def u_def)
  have "shown_fields (ReportMetadata e s) = shown_fields v" "shown_fields (send_parties ?c v) = shown_fields v"
    by (simp_all add: R)
  then show ?thesis
    by (simp only: metadata_events_cong [of "ReportMetadata e s" v ?c])
      (simp add: R events_send_rest events_send_parties ev ip metadata_events_def shown_fields_def)
qed

lemma ReportMetadata_flags: "os_started (ReportMetadata e s) = os_started s" "os_stopped (ReportMetadata e s) = os_stopped s"
proof -
  let ?u = "report_local_party (ve_config e) (uses_name (ve_config e) (settled (ve_config e) s)) (settled (ve_config e) s)"
  have "shown_fields (ReportMetadata e s) = shown_fields ?u" "ips ?u = ips s" by (simp_all add: ReportMetadata_parts)
  then show "os_started (ReportMetadata e s) = os_started s" "os_stopped (ReportMetadata e s) = os_stopped s"
    by (simp_all add: shown_fields_def ips_def)
qed

section \<open>The metadata of a tape\<close>

text \<open>What a tape knows of the call: parties, entry point, direction, addresses and identifiers.\<close>

type_synonym call_facts = "(string \<times> string \<times> DirectionEnum) \<times> (string \<times> string) \<times> string \<times> string"

definition tape_facts :: "'f AudioTape \<Rightarrow> call_facts" where
  "tape_facts t = ((tp_localParty t, tp_remoteParty t, tp_direction t), (tp_localIp t, tp_remoteIp t),
     tp_orkUid t, tp_nativeCallId t)"

definition session_facts :: "VoIpConfig \<Rightarrow> session_run \<Rightarrow> call_facts" where
  "session_facts c s = ((local_party_shown c s, remote_party_shown c s, vs_direction s),
     (IpToString (os_localIp s), IpToString (vs_remoteIp s)), vs_orkUid s, vs_callId s)"

text \<open>How an event changes them.\<close>

fun learn :: "CaptureEvent \<Rightarrow> call_facts \<Rightarrow> call_facts" where
  "learn e ((lp, rp, d), (li, ri), u, c) =
     (let v = ev_value e
      in case ev_type e of
           EtLocalParty \<Rightarrow> ((v, rp, d), (li, ri), u, c)
         | EtRemoteParty \<Rightarrow> ((lp, v, d), (li, ri), u, c)
         | EtDirection \<Rightarrow> ((lp, rp, DirectionToEnum v), (li, ri), u, c)
         | EtLocalIp \<Rightarrow> ((lp, rp, d), (v, ri), u, c)
         | EtRemoteIp \<Rightarrow> ((lp, rp, d), (li, v), u, c)
         | EtOrkUid \<Rightarrow> ((lp, rp, d), (li, ri), v, c)
         | EtCallId \<Rightarrow> ((lp, rp, d), (li, ri), u, v)
         | _ \<Rightarrow> ((lp, rp, d), (li, ri), u, c))"

lemma on_key_value_facts [simp]: "tape_facts (on_key_value k v t) = tape_facts t"
  by (simp add: on_key_value_def tape_facts_def)

lemma tape_learns:
  assumes "cfg_partyFilterMap cfg = []" "ev_type e \<notin> {EtStart, EtStop}"
  shows "\<exists>t'. Tape_AddCaptureEvent cfg lt now e send t = Done t' \<and> tape_facts t' = learn e (tape_facts t)"
proof -
  have "\<exists>t1. apply_event cfg lt now e t = Done t1 \<and> tape_facts t1 = learn e (tape_facts t)"
    using assms by (cases "ev_type e") (simp_all add: apply_event_def Let_def, simp_all add: tape_facts_def)
  then show ?thesis by (auto simp: Tape_AddCaptureEvent_def Let_def) (auto simp: tape_facts_def)
qed

lemma tape_learns_all:
  assumes "cfg_partyFilterMap cfg = []" "\<forall>e \<in> set es. ev_type e \<notin> {EtStart, EtStop}"
  shows "\<exists>t'. run_calls (\<lambda>e. Tape_AddCaptureEvent cfg lt now e send) es t = Done t' \<and>
    tape_facts t' = fold learn es (tape_facts t)"
  using assms(2)
proof (induction es arbitrary: t)
  case (Cons e es)
  then obtain t1 where "Tape_AddCaptureEvent cfg lt now e send t = Done t1" "tape_facts t1 = learn e (tape_facts t)"
    using tape_learns [OF assms(1), of e lt now send t] by auto
  with Cons.IH [of t1] Cons.prems show ?case by simp
qed simp

lemma event_value [simp]: "ev_value (event t v) = v"
  by (simp add: event_def)

lemma learn_values [simp]:
  "learn (key_value k v) f = f" "learn (event EtLocalEntryPoint v) f = f" "learn (event EtEndMetadata v) f = f"
  by (cases "(key_value k v, f)" rule: learn.cases; simp add: Let_def)+

lemma learn_tags [simp]: "fold learn (map (\<lambda>(k, v). key_value k v) xs) f = f"
  by (induction xs arbitrary: f) auto

lemma learn_names [simp]: "fold learn (names_events c s) f = f"
  by (simp add: names_events_def)

lemma learn_metadata: "fold learn (metadata_events c s) f = session_facts c s"
proof -
  obtain lp rp d li ri u k where f: "f = ((lp, rp, d), (li, ri), u, k)" by (metis prod.exhaust)
  show ?thesis by (simp add: f metadata_events_def session_facts_def dir.name_read Let_def)
qed

lemma metadata_events_types:
  "x \<in> set (metadata_events c s) \<Longrightarrow> ev_type x \<notin> {EtStart, EtStop, EtHold, EtResume}"
  by (auto simp: metadata_events_def names_events_def split: if_splits)

text \<open>
  C8. The metadata of a call reaches the tape. Whatever a tape knew before, after the events of one
  metadata report its parties, direction, addresses, recording identifier and call identifier are those of the session: the
  names in place of the numbers where the settings ask for them.
\<close>

theorem session_metadata_reaches_tape:
  assumes "cfg_partyFilterMap cfg = []"
  shows "\<exists>es t'. events (ReportMetadata e s) = events s @ es \<and>
    run_calls (\<lambda>x. Tape_AddCaptureEvent cfg lt now x send) es t = Done t' \<and>
    tape_facts t' = session_facts (ve_config e) (ReportMetadata e s)"
proof -
  let ?m = "metadata_events (ve_config e) (ReportMetadata e s)"
  have "\<forall>x \<in> set ?m. ev_type x \<notin> {EtStart, EtStop}" using metadata_events_types by blast
  from tape_learns_all [OF assms this, of lt now send t] show ?thesis
    unfolding learn_metadata using ReportMetadata_events by blast
qed

section \<open>The messages of a call\<close>

lemma events_start:
  assumes "\<not> vc_SkinnyTrackConferencesTransfers (ve_config e)"
  shows "\<exists>x. events (Session_Start e s) = events s @ [x] \<and> ev_type x = EtStart"
  using assms by (simp add: Session_Start_def Let_def) (simp add: GenerateOrkUid_def Let_def events_def event_def)

lemma events_stop_extracted:
  "\<exists>es. events (stop_extracted_party e s) = events s @ es \<and> (\<forall>y \<in> set es. ev_type y = EtRemoteParty)"
proof -
  have 1: "\<exists>es. events t = events s @ es \<and> (\<forall>y \<in> set es. ev_type y = EtRemoteParty)"
    if "events t = events s \<or> (\<exists>v. events t = events s @ [event EtRemoteParty v])" for t
    using that by fastforce
  have "events (s\<lparr>vs_remoteParty := v\<rparr>) = events s" for v by (simp add: events_def)
  then show ?thesis
    by (intro 1) (auto simp: stop_extracted_party_def Let_def split: option.split prod.split)
qed

lemma events_stopped [simp]: "events (s\<lparr>os_stopped := b\<rparr>) = events s"
  by (simp add: events_def)

lemma events_stop:
  assumes "os_started s" "\<not> os_stopped s"
  shows "\<exists>es x. events (Session_Stop e s) = events s @ es @ [x] \<and> ev_type x = EtStop \<and>
    (\<forall>y \<in> set es. ev_type y \<in> {EtRemoteParty, EtLocalSide})"
proof -
  let ?s = "s\<lparr>vs_localSide := stop_local_side e s\<rparr>"
  obtain es where es: "events (stop_extracted_party e ?s) = events ?s @ es" "\<forall>y \<in> set es. ev_type y = EtRemoteParty"
    using events_stop_extracted by blast
  have "\<exists>l x. events (Session_Stop e s) = (events ?s @ es) @ [l, x] \<and> ev_type l = EtLocalSide \<and> ev_type x = EtStop"
    using assms by (simp add: Session_Stop_def Let_def es(1) event_def [of EtStop])
  moreover have "events ?s = events s" by (simp add: events_def)
  ultimately show ?thesis using es(2) by fastforce
qed

lemma ends_once: "length (filter (\<lambda>e. ev_type e = EtEndMetadata) (metadata_events c s)) = 1"
proof -
  have "filter (\<lambda>e. ev_type e = EtEndMetadata) (map (\<lambda>(k, v). key_value k v) xs) = []" for xs
    by (auto simp: filter_empty_conv)
  then show ?thesis by (simp add: metadata_events_def names_events_def)
qed

lemma metadata_silent: "x \<in> set (metadata_events c s) \<Longrightarrow> sent x = []"
  by (auto simp: sent_def metadata_events_def names_events_def split: if_splits)

text \<open>
  C9. A call as the recorder sees it. The events of a session that is started, reports its metadata once
  and is stopped make a capture port send a message for the start and one for the stop, in this order and nothing
  else, and the port is free for the next call afterwards.
\<close>

theorem session_call_messages:
  assumes "env_plain env" "cp_filters p = []" "\<not> vc_SkinnyTrackConferencesTransfers (ve_config e1)" "\<not> os_stopped s"
  shows "\<exists>es p' w'. events (Session_Stop e3 (ReportMetadata e2 (Session_Start e1 s))) = events s @ es \<and>
    run_calls (port_do env) (map (PEvent now) es) (p, w) = Done (p', w') \<and>
    map tm_stage (w_messages w') = map tm_stage (w_messages w) @ [''start'', ''stop''] \<and> \<not> cp_capturing p'"
proof -
  let ?s1 = "Session_Start e1 s" let ?s2 = "ReportMetadata e2 ?s1"
  let ?m = "metadata_events (ve_config e2) ?s2"
  obtain x where x: "events ?s1 = events s @ [x]" "ev_type x = EtStart" using events_start [OF assms(3)] by blast
  have "os_started ?s2" "\<not> os_stopped ?s2"
    using assms(3,4) by (simp_all add: ReportMetadata_flags Session_Start_def GenerateOrkUid_def emit_def Let_def)
  then obtain ls z where z: "events (Session_Stop e3 ?s2) = events ?s2 @ ls @ [z]" "ev_type z = EtStop"
    "\<forall>y \<in> set ls. ev_type y \<in> {EtRemoteParty, EtLocalSide}" using events_stop by blast
  have ls: "filter (\<lambda>e. ev_type e = EtEndMetadata) ls = []" "\<forall>y \<in> set ls. sent y = [] \<and> call_event y"
    using z(3) by (auto simp: filter_empty_conv sent_def call_event_def)
  then have ok: "list_all call_event (?m @ ls)" "ends_metadata (?m @ ls) = 1"
    using metadata_events_types by (force simp: call_event_def list_all_iff, simp add: ends_once ends_metadata_def)
  have none: "concat (map sent (?m @ ls)) = []" using ls(2) by (simp add: metadata_silent)
  from messages_of_call [OF assms(1,2) x(2) z(2) ok, of now w] none
  show ?thesis using x(1) z(1) ReportMetadata_events [of e2 ?s1] by fastforce
qed

text \<open>Both at a call of the sample settings.\<close>

theorem session_metadata_reaches_tape_witness:
  "\<exists>es t'. events (ReportMetadata sample_env (fresh_run sample_env ''AAAA'')) =
      events (fresh_run sample_env ''AAAA'') @ es \<and>
    run_calls (\<lambda>x. Tape_AddCaptureEvent example_config example_time 7 x True) es
      (AudioTape_new example_config example_time 5 ''port'' :: unit AudioTape) = Done t' \<and>
    tape_facts t' = session_facts (ve_config sample_env) (ReportMetadata sample_env (fresh_run sample_env ''AAAA''))"
  by (rule session_metadata_reaches_tape) (simp add: example_config_def)

theorem session_call_messages_witness:
  "\<exists>es p' w'. events (Session_Stop sample_env (ReportMetadata sample_env (Session_Start sample_env
      (fresh_run sample_env ''AAAA'')))) = events (fresh_run sample_env ''AAAA'') @ es \<and>
    run_calls (port_do example_env) (map (PEvent 9) es) (example_port, empty_world :: unit port_world) = Done (p', w') \<and>
    map tm_stage (w_messages w') = map tm_stage (w_messages (empty_world :: unit port_world)) @ [''start'', ''stop''] \<and>
    \<not> cp_capturing p'"
  by (rule session_call_messages [OF example_env_ok(1)])
    (simp_all add: example_port_def CapturePort_new_def LoadFilters_def List.map_filter_def sample_env_def
      sample_config_def fresh_run_ok)

end
