(* ===== verification/OrkVoipSessions.thy ===== *)
theory OrkVoipSessions
  imports OrkVoipRuns
begin

text \<open>
  The registry of the sessions (audiocaptureplugins/voip/VoIpSession.cpp, class \<open>VoIpSessions\<close>): which
  session gets a packet or a message, when sessions are created, replaced, merged, stopped and expire.

  Sessions live in a store, since both maps of the registry may name the same one: the address of a
  session is its position, new ones are appended, and nothing is removed from the store. The two
  maps are lists in the order of their keys. A method of a session runs on the session extended by the maps
  it shares (\<open>load\<close>), and what it changed is written back (\<open>store\<close>). A method that may dereference a
  missing INVITE gives an outcome. The texts of a Skinny message are given as read up to their terminators.
\<close>

section \<open>State\<close>

record SipRefer =
  rf_timestamp :: int
  rf_callId :: string
  rf_from :: string
  rf_to :: string
  rf_referToParty :: string
  rf_referredByParty :: string
  rf_referredParty :: string
  rf_origOrkUid :: string

record VoIpSessions =
  rg_sessions :: "VoIpSession list"
  rg_byIpAndPort :: "(u64 \<times> nat) list"
  rg_byCallId :: "(string \<times> nat) list"
  rg_endpoints :: "(u64 \<times> VoIpEndpointInfo) list"
  rg_localPartyMap :: "string \<Rightarrow> string option"
  rg_localPartyNameMap :: "string \<Rightarrow> string"
  rg_skinnyGlobalNumbers :: "string list"
  rg_sipSubscribeMap :: "string list"
  rg_sipReferList :: "SipRefer list"
  rg_alphaCounter :: u32
  rg_lastHoldRemoteParty :: "string list"
  rg_invites :: "nat \<Rightarrow> SipInviteInfo"
  rg_out :: "callback list"

text \<open>The clock and the settings, and the memory that constructors leave uninitialised.\<close>

record sessions_env =
  se_env :: voip_env
  se_junk :: VoIpSession
  se_junkEndpoint :: VoIpEndpointInfo

abbreviation se_config :: "sessions_env \<Rightarrow> VoIpConfig" where
  "se_config e \<equiv> ve_config (se_env e)"

definition VoIpSessions_new :: "(nat \<Rightarrow> SipInviteInfo) \<Rightarrow> u32 \<Rightarrow> VoIpSessions" where
  "VoIpSessions_new invites counter =
     \<lparr>rg_sessions = [], rg_byIpAndPort = [], rg_byCallId = [], rg_endpoints = [],
      rg_localPartyMap = (\<lambda>_. None), rg_localPartyNameMap = (\<lambda>_. []), rg_skinnyGlobalNumbers = [],
      rg_sipSubscribeMap = [], rg_sipReferList = [], rg_alphaCounter = counter,
      rg_lastHoldRemoteParty = replicate 128 [], rg_invites = invites, rg_out = []\<rparr>"

abbreviation session_at :: "VoIpSessions \<Rightarrow> nat \<Rightarrow> VoIpSession" where
  "session_at R a \<equiv> rg_sessions R ! a"

definition load :: "VoIpSessions \<Rightarrow> VoIpSession \<Rightarrow> session_run" where
  "load R s = VoIpSession.extend s
     (session_run.fields (rg_localPartyMap R) (rg_localPartyNameMap R) (rg_endpoints R) (rg_invites R) (rg_out R))"

definition store :: "nat \<Rightarrow> session_run \<Rightarrow> VoIpSessions \<Rightarrow> VoIpSessions" where
  "store a s R = R\<lparr>rg_sessions := (rg_sessions R)[a := VoIpSession.truncate s],
     rg_localPartyMap := sr_localPartyMap s, rg_localPartyNameMap := sr_localPartyNameMap s,
     rg_endpoints := sr_endpoints s, rg_invites := sr_invites s, rg_out := sr_out s\<rparr>"

definition on_session :: "nat \<Rightarrow> (session_run \<Rightarrow> session_run) \<Rightarrow> VoIpSessions \<Rightarrow> VoIpSessions" where
  "on_session a f R = store a (f (load R (session_at R a))) R"

text \<open>A change of the fields of a session alone.\<close>

definition set_session :: "nat \<Rightarrow> (VoIpSession \<Rightarrow> VoIpSession) \<Rightarrow> VoIpSessions \<Rightarrow> VoIpSessions" where
  "set_session a f R = R\<lparr>rg_sessions := (rg_sessions R)[a := f (session_at R a)]\<rparr>"

definition in_session ::
    "nat \<Rightarrow> (session_run \<Rightarrow> session_run outcome) \<Rightarrow> VoIpSessions \<Rightarrow> VoIpSessions outcome" where
  "in_session a f R = and_then (f (load R (session_at R a))) (\<lambda>s. Done (store a s R))"

definition new_session :: "sessions_env \<Rightarrow> VoIpSessions \<Rightarrow> nat \<times> VoIpSessions" where
  "new_session e R =
     (let (trackingId, counter) = GetNext (rg_alphaCounter R)
      in (length (rg_sessions R),
          R\<lparr>rg_alphaCounter := counter,
            rg_sessions := rg_sessions R @ [VoIpSession_new (se_env e) trackingId (se_junk e)]\<rparr>))"

definition insert_call :: "string \<Rightarrow> nat \<Rightarrow> VoIpSessions \<Rightarrow> VoIpSessions" where
  "insert_call callId a R = R\<lparr>rg_byCallId := omap_insert str_less callId a (rg_byCallId R)\<rparr>"

definition insert_media :: "u64 \<Rightarrow> nat \<Rightarrow> VoIpSessions \<Rightarrow> VoIpSessions" where
  "insert_media k a R = R\<lparr>rg_byIpAndPort := omap_insert (<) k a (rg_byIpAndPort R)\<rparr>"

section \<open>Lookups\<close>

definition findByCallId :: "string \<Rightarrow> VoIpSessions \<Rightarrow> nat option" where
  "findByCallId callId R = map_of (rg_byCallId R) callId"

definition findByMediaAddress :: "VoIpConfig \<Rightarrow> in_addr \<Rightarrow> u16 \<Rightarrow> VoIpSessions \<Rightarrow> nat option" where
  "findByMediaAddress c ip port R = map_of (rg_byIpAndPort R) (Craft64bitMediaAddress c ip port)"

definition findByEndpointIpUsingIpAndPort :: "in_addr \<Rightarrow> VoIpSessions \<Rightarrow> nat option" where
  "findByEndpointIpUsingIpAndPort ip R =
     List.find (\<lambda>a. vs_endPointIp (session_at R a) = ip) (map snd (rg_byIpAndPort R))"

definition findByEndpointIp :: "in_addr \<Rightarrow> int \<Rightarrow> VoIpSessions \<Rightarrow> nat option" where
  "findByEndpointIp ip passThruPartyId R =
     List.find (\<lambda>a. vs_endPointIp (session_at R a) = ip \<and>
         (passThruPartyId = 0 \<or> vs_skinnyPassThruPartyId (session_at R a) = passThruPartyId))
       (map snd (rg_byCallId R))"

text \<open>The one with the newest packet; one without any packet replaces what was found.\<close>

definition findNewestRtpByEndpointIp :: "in_addr \<Rightarrow> VoIpSessions \<Rightarrow> nat option" where
  "findNewestRtpByEndpointIp ip R =
     snd (fold (\<lambda>a (latest, found).
         if vs_endPointIp (session_at R a) = ip then
           (case vs_lastRtpPacket (session_at R a) of
              Some p \<Rightarrow> if rp_arrivalTimestamp p > latest then (to_int32 (rp_arrivalTimestamp p), Some a)
                        else (latest, found)
            | None \<Rightarrow> (latest, Some a))
         else (latest, found))
       (map snd (rg_byIpAndPort R)) (0, None))"

definition findNewestByEndpoint :: "VoIpConfig \<Rightarrow> in_addr \<Rightarrow> u16 \<Rightarrow> VoIpSessions \<Rightarrow> nat option" where
  "findNewestByEndpoint c ip port R =
     fold (\<lambda>a found.
         if vs_endPointIp (session_at R a) = ip \<and>
            (vc_skinnyBehindNat c \<longrightarrow> vs_endPointSignallingPort (session_at R a) = port)
         then (case found of
                 Some b \<Rightarrow> if vs_skinnyLastCallInfoTime (session_at R a) > vs_skinnyLastCallInfoTime (session_at R b)
                           then Some a else found
               | None \<Rightarrow> Some a)
         else found)
       (map snd (rg_byCallId R)) None"

text \<open>Two more lookups of the class; the second reads the INVITE of every session without a check.\<close>

definition findByEndpointIpAndLineInstance :: "in_addr \<Rightarrow> int \<Rightarrow> VoIpSessions \<Rightarrow> nat option" where
  "findByEndpointIpAndLineInstance ip lineInstance R =
     List.find (\<lambda>a. vs_endPointIp (session_at R a) = ip \<and> vs_skinnyLineInstance (session_at R a) = lineInstance)
       (map snd (rg_byCallId R))"

fun newest_by_sender :: "in_addr \<Rightarrow> VoIpSessions \<Rightarrow> nat list \<Rightarrow> nat option \<Rightarrow> nat option outcome" where
  "newest_by_sender ip R [] found = Done found"
| "newest_by_sender ip R (a # as) found =
     (case vs_invite (session_at R a) of
        None \<Rightarrow> Undefined
      | Some i \<Rightarrow>
          newest_by_sender ip R as
            (if si_senderIp (rg_invites R i) = ip \<and>
                (case found of None \<Rightarrow> True
                 | Some b \<Rightarrow> vs_sipLastInvite (session_at R a) > vs_sipLastInvite (session_at R b))
             then Some a else found))"

definition SipfindNewestBySenderIp :: "in_addr \<Rightarrow> VoIpSessions \<Rightarrow> nat option outcome" where
  "SipfindNewestBySenderIp ip R = newest_by_sender ip R (map snd (rg_byCallId R)) None"

text \<open>A media address as text. \<open>%u\<close> takes the low 32 bits.\<close>

definition addr_of :: "u32 \<Rightarrow> in_addr" where
  "addr_of v = (unat v mod 256, unat v div 2 ^ 8 mod 256, unat v div 2 ^ 16 mod 256, unat v div 2 ^ 24 mod 256)"

definition MediaAddressToString :: "VoIpConfig \<Rightarrow> u64 \<Rightarrow> string" where
  "MediaAddressToString c k =
     (if \<not> vc_rtpTrackByUdpPortOnly c
      then IpToString (addr_of (ucast (drop_bit 16 k))) @ '','' @ show_nat (unat (ucast (k AND 0xffff) :: u16))
      else show_nat (unat (ucast k :: u32)))"

text \<open>\<open>snprintf\<close> with \<open>%u@%s,%u\<close> or \<open>%u@%s\<close>.\<close>

definition GenerateSkinnyCallId :: "VoIpConfig \<Rightarrow> in_addr \<Rightarrow> u16 \<Rightarrow> u32 \<Rightarrow> string" where
  "GenerateSkinnyCallId c ip port callId =
     (if vc_skinnyBehindNat c
      then show_nat (unat callId) @ ''@'' @ IpToString ip @ '','' @ show_nat (unat port)
      else show_nat (unat callId) @ ''@'' @ IpToString ip)"

section \<open>Stopping a session\<close>

definition refer_matches :: "string \<Rightarrow> string \<Rightarrow> session_run \<Rightarrow> SipRefer \<Rightarrow> bool" where
  "refer_matches fromUser toUser s r \<longleftrightarrow>
     rf_timestamp r - vs_creationDate s div 1000000 > -2 \<and> ci_eq toUser (rf_referToParty r) \<and>
     (ci_eq fromUser (rf_referredByParty r) \<or> ci_eq fromUser (rf_from r) \<or> ci_eq fromUser (rf_to r))"

definition tag_transfer :: "SipRefer \<Rightarrow> session_run \<Rightarrow> session_run" where
  "tag_transfer r s =
     (let s1 = emit (key_value ''orig-orkuid'' (rf_origOrkUid r)) s
      in if ci_eq (vs_remoteParty s1) (rf_referredByParty r)
         then emit (event EtRemoteParty (rf_referredParty r)) (s1\<lparr>vs_remoteParty := rf_referredParty r\<rparr>)
         else s1)"

fun tag_refers ::
    "VoIpConfig \<Rightarrow> int \<Rightarrow> string \<Rightarrow> string \<Rightarrow> SipRefer list \<Rightarrow> session_run \<Rightarrow> SipRefer list \<times> session_run" where
  "tag_refers c now fromUser toUser [] s = ([], s)"
| "tag_refers c now fromUser toUser (r # rs) s =
     (if to_int32 (now - rf_timestamp r) > vc_transferTimeOutInSec c then tag_refers c now fromUser toUser rs s
      else
        let s1 = (if refer_matches fromUser toUser s r then tag_transfer r s else s);
            (rs', s2) = tag_refers c now fromUser toUser rs s1
        in (r # rs', s2))"

definition TaggingSipTransferCalls :: "voip_env \<Rightarrow> nat \<Rightarrow> VoIpSessions \<Rightarrow> VoIpSessions outcome" where
  "TaggingSipTransferCalls e a R =
     (let s = load R (session_at R a)
      in if vs_protocol s \<noteq> ProtSip \<or> rg_sipReferList R = [] \<or> vs_numRtpPackets s < 300 then Done R
         else case vs_invite s of
             None \<Rightarrow> Undefined
           | Some i \<Rightarrow>
               let (rs, s') = tag_refers (ve_config e) (ve_now e) (GetLocalPartyMap s (si_from (sr_invites s i)))
                     (GetLocalPartyMap s (si_to (sr_invites s i))) (rg_sipReferList R) s
               in Done ((store a s' R)\<lparr>rg_sipReferList := rs\<rparr>))"

text \<open>The address is erased only if it is this session's.\<close>

definition RemoveFromMediaAddressMap :: "nat \<Rightarrow> u64 \<Rightarrow> VoIpSessions \<Rightarrow> VoIpSessions" where
  "RemoveFromMediaAddressMap a k R =
     (if k = 0 then R
      else if map_of (rg_byIpAndPort R) k = Some a
      then R\<lparr>rg_byIpAndPort := omap_erase k (rg_byIpAndPort R)\<rparr> else R)"

definition Stop_session :: "voip_env \<Rightarrow> nat \<Rightarrow> VoIpSessions \<Rightarrow> VoIpSessions outcome" where
  "Stop_session e a R0 =
     and_then (TaggingSipTransferCalls e a R0) (\<lambda>R.
     let R1 = on_session a (Session_Stop e) R;
         R2 = (if vs_callId (session_at R1 a) \<noteq> []
               then R1\<lparr>rg_byCallId := omap_erase (vs_callId (session_at R1 a)) (rg_byCallId R1)\<rparr> else R1);
         R3 = fold (RemoveFromMediaAddressMap a) (vs_mediaAddresses (session_at R2 a)) R2
     in Done (set_session a (vs_mediaAddresses_update (\<lambda>_. [])) R3))"

section \<open>Media addresses\<close>

definition media_address_allowed :: "VoIpConfig \<Rightarrow> in_addr \<Rightarrow> u16 \<Rightarrow> bool" where
  "media_address_allowed c ip port \<longleftrightarrow>
     port \<noteq> 0 \<and> \<not> IpRanges_Matches (vc_mediaAddressBlockedIpRanges c) ip \<and>
     (\<not> IpRanges_Empty (vc_mediaAddressAllowedIpRanges c) \<longrightarrow>
      IpRanges_Matches (vc_mediaAddressAllowedIpRanges c) ip)"

definition gives_way :: "VoIpConfig \<Rightarrow> VoIpSession \<Rightarrow> VoIpSession \<Rightarrow> bool" where
  "gives_way c old s \<longleftrightarrow>
     vs_protocol old = ProtRawRtp \<or> vs_numRtpPackets old = 0 \<or>
     (vs_protocol s = ProtSkinny \<and> vc_skinnyAllowMediaAddressTransfer c) \<or>
     (vs_protocol s = ProtSip \<and> vc_sipAllowMediaAddressTransfer c)"

text \<open>The first component says whether the address is to be changed.\<close>

definition make_room :: "voip_env \<Rightarrow> nat \<Rightarrow> u64 \<Rightarrow> VoIpSessions \<Rightarrow> (bool \<times> VoIpSessions) outcome" where
  "make_room e a k R =
     (case map_of (rg_byIpAndPort R) k of
        None \<Rightarrow> Done (True, R)
      | Some old \<Rightarrow>
          if ci_eq (os_trackingId (session_at R old)) (os_trackingId (session_at R a)) then Done (False, R)
          else if gives_way (ve_config e) (session_at R old) (session_at R a) then
            if vs_protocol (session_at R old) = ProtRawRtp
            then and_then (Stop_session e old R) (\<lambda>R1. Done (True, R1))
            else Done (True, RemoveFromMediaAddressMap old k R)
          else Done (False, R))"

definition map_address :: "VoIpConfig \<Rightarrow> nat \<Rightarrow> in_addr \<Rightarrow> u64 \<Rightarrow> VoIpSessions \<Rightarrow> VoIpSessions" where
  "map_address c a ip k R =
     (let R1 = (if \<not> vc_rtpAllowMultipleMappings c
                then set_session a (vs_mediaAddresses_update (\<lambda>_. []))
                       (RemoveFromMediaAddressMap a (vs_ipAndPort (session_at R a)) R)
                else R)
      in insert_media k a (set_session a
           (\<lambda>s. s\<lparr>vs_mediaAddresses := vs_mediaAddresses s @ [k], vs_ipAndPort := k, vs_rtpIp := ip\<rparr>) R1))"

definition SetMediaAddress ::
    "voip_env \<Rightarrow> nat \<Rightarrow> in_addr \<Rightarrow> u16 \<Rightarrow> VoIpSessions \<Rightarrow> VoIpSessions outcome" where
  "SetMediaAddress e a ip port R =
     (let c = ve_config e; k = Craft64bitMediaAddress c ip port
      in if \<not> media_address_allowed c ip port then Done R
         else and_then (make_room e a k R) (\<lambda>(change, R1).
              Done (if change then map_address c a ip k R1 else R1)))"

section \<open>RTP\<close>

definition ReportRtcpSrcDescription :: "sessions_env \<Rightarrow> RtcpSrcDescription \<Rightarrow> VoIpSessions \<Rightarrow> bool \<times> VoIpSessions" where
  "ReportRtcpSrcDescription e r R =
     (let c = se_config e
      in case findByMediaAddress c (rc_sourceIp r) (rc_sourcePort r - 1) R of
           Some a \<Rightarrow> (True, on_session a (Session_ReportRtcpSrcDescription (se_env e) r) R)
         | None \<Rightarrow>
             (case findByMediaAddress c (rc_destIp r) (rc_destPort r - 1) R of
                Some a \<Rightarrow> (True, on_session a (Session_ReportRtcpSrcDescription (se_env e) r) R)
              | None \<Rightarrow> (False, R)))"

text \<open>A Sangoma card sends both directions between the same ports: the addresses are made to differ.\<close>

definition flip_low_bit :: "in_addr \<Rightarrow> in_addr" where
  "flip_low_bit ip = (case ip of (b0, b1, b2, b3) \<Rightarrow> (if even b0 then b0 + 1 else b0 - 1, b1, b2, b3))"

definition sangoma_packet :: "VoIpConfig \<Rightarrow> RtpPacketInfo \<Rightarrow> RtpPacketInfo" where
  "sangoma_packet c p =
     (if vc_sangomaEnable c \<and> rp_sourcePort p = rp_destPort p then
        let p1 = (if rp_sourceIp p = rp_destIp p then p\<lparr>rp_destIp := flip_low_bit (rp_destIp p)\<rparr> else p);
            port = uint (rp_sourcePort p1)
        in if port > vc_sangomaTxTcpPortStart c
           then p1\<lparr>rp_sourcePort := word_of_int (port - vc_sangomaTcpPortDelta c),
                   rp_sourceIp := rp_destIp p1, rp_destIp := rp_sourceIp p1\<rparr>
           else p1\<lparr>rp_sourcePort := word_of_int (port + vc_sangomaTcpPortDelta c)\<rparr>
      else p)"

text \<open>The packet goes to a session; one that reports a discontinuity is stopped.\<close>

definition give_packet ::
    "voip_env \<Rightarrow> RtpPacketInfo \<Rightarrow> nat \<Rightarrow> VoIpSessions \<Rightarrow> (bool \<times> RtpPacketInfo \<times> VoIpSessions) outcome" where
  "give_packet e p a R =
     and_then (AddRtpPacket e p (load R (session_at R a))) (\<lambda>(taken, p', s).
     if taken then Done (True, p', store a s R)
     else and_then (Stop_session e a (store a s R)) (\<lambda>R1. Done (False, p', R1)))"

definition give_to ::
    "voip_env \<Rightarrow> RtpPacketInfo \<Rightarrow> nat option \<Rightarrow> VoIpSessions \<Rightarrow> (bool \<times> RtpPacketInfo \<times> VoIpSessions) outcome" where
  "give_to e p found R = (case found of None \<Rightarrow> Done (False, p, R) | Some a \<Rightarrow> give_packet e p a R)"

text \<open>Two sessions got the packet: which one stays. \<open>None\<close>: the address is taken over instead.\<close>

definition choose_merger :: "VoIpConfig \<Rightarrow> VoIpSession \<Rightarrow> VoIpSession \<Rightarrow> bool option" where
  "choose_merger c s1 s2 =
     (if vs_protocol s1 = ProtRawRtp then Some False
      else if vs_protocol s2 = ProtRawRtp then Some True
      else if vc_rtpAllowMultipleMappings c \<and> vs_protocol s1 = ProtSip \<and> vs_protocol s2 = ProtSip then None
      else if vs_numRtpPackets s1 < vs_numRtpPackets s2 \<and> vs_numRtpPackets s1 < 5 then Some False
      else if vs_numRtpPackets s2 < vs_numRtpPackets s1 \<and> vs_numRtpPackets s2 < 5 then Some True
      else Some (vs_direction s1 = DirOut))"

definition take_over :: "VoIpConfig \<Rightarrow> RtpPacketInfo \<Rightarrow> nat \<Rightarrow> nat \<Rightarrow> VoIpSessions \<Rightarrow> VoIpSessions" where
  "take_over c p a1 a2 R =
     (let s1 = session_at R a1; s2 = session_at R a2
      in if vs_sipLastInvite s1 > vs_sipLastInvite s2 then
           (if vs_numRtpPackets s2 \<noteq> 1
            then R\<lparr>rg_byIpAndPort := omap_erase (Craft64bitMediaAddress c (rp_destIp p) (rp_destPort p)) (rg_byIpAndPort R)\<rparr>
            else R)
         else
           (if vs_numRtpPackets s1 \<noteq> 1
            then R\<lparr>rg_byIpAndPort := omap_erase (Craft64bitMediaAddress c (rp_sourceIp p) (rp_sourcePort p)) (rg_byIpAndPort R)\<rparr>
            else R))"

definition merge_sessions ::
    "voip_env \<Rightarrow> RtpPacketInfo \<Rightarrow> nat \<Rightarrow> nat \<Rightarrow> VoIpSessions \<Rightarrow> VoIpSessions outcome" where
  "merge_sessions e p a1 a2 R =
     (let c = ve_config e
      in case choose_merger c (session_at R a1) (session_at R a2) of
           None \<Rightarrow> Done (take_over c p a1 a2 R)
         | Some first_stays \<Rightarrow>
             let stays = (if IsRtpTrackingIpAddress c (rp_sourceIp p) then True
                          else if IsRtpTrackingIpAddress c (rp_destIp p) then False else first_stays)
             in Stop_session e (if stays then a2 else a1) R)"

text \<open>One session got it: the other address of the stream, and the address it is to be tracked by.\<close>

definition track_second :: "voip_env \<Rightarrow> RtpPacketInfo \<Rightarrow> bool \<Rightarrow> nat \<Rightarrow> VoIpSessions \<Rightarrow> VoIpSessions outcome" where
  "track_second e p sourceIsTracked a R =
     (if \<not> vc_mediaAddressUseSecondRtpAddress (ve_config e) then Done R
      else if sourceIsTracked then SetMediaAddress e a (rp_destIp p) (rp_destPort p) R
      else SetMediaAddress e a (rp_sourceIp p) (rp_sourcePort p) R)"

definition track_first :: "voip_env \<Rightarrow> RtpPacketInfo \<Rightarrow> nat \<Rightarrow> VoIpSessions \<Rightarrow> VoIpSessions outcome" where
  "track_first e p a R =
     (let c = ve_config e; s = session_at R a
      in if vs_numRtpPackets s = 1 \<and> vs_protocol s = ProtSip then
           (if IsRtpTrackingIpAddress c (rp_destIp p) then
              (if rp_destPort p \<noteq> 0 then SetMediaAddress e a (rp_destIp p) (rp_destPort p) R else Done R)
            else if IsRtpTrackingIpAddress c (rp_sourceIp p) then
              (if rp_sourcePort p \<noteq> 0 then SetMediaAddress e a (rp_sourceIp p) (rp_sourcePort p) R else Done R)
            else Done R)
         else Done R)"

text \<open>No session got it: a Skinny call of the endpoint, or a new session for the stream.\<close>

definition SkinnyFindMostLikelySessionForRtp ::
    "voip_env \<Rightarrow> RtpPacketInfo \<Rightarrow> VoIpSessions \<Rightarrow> (bool \<times> VoIpEndpointInfo option \<times> VoIpSessions) outcome" where
  "SkinnyFindMostLikelySessionForRtp e p R =
     (let bySource = GetVoIpEndpointInfoByIp (rp_sourceIp p) (rg_endpoints R);
          endpoint = (if bySource \<noteq> None then bySource else GetVoIpEndpointInfoByIp (rp_destIp p) (rg_endpoints R))
      in case endpoint of
           None \<Rightarrow> Done (False, None, R)
         | Some ep \<Rightarrow>
             if vi_latestCallId ep = [] then Done (False, endpoint, R)
             else case findByCallId (vi_latestCallId ep) R of
                 None \<Rightarrow> Done (False, endpoint, R)
               | Some a \<Rightarrow>
                   if os_stopped (session_at R a) then Done (False, endpoint, R)
                   else
                     let R1 = set_session a (vs_endPointSignallingPort_update (\<lambda>_. vi_skinnyPort ep)) R
                     in and_then (if bySource \<noteq> None then SetMediaAddress e a (rp_sourceIp p) (rp_sourcePort p) R1
                                  else SetMediaAddress e a (rp_destIp p) (rp_destPort p) R1)
                          (\<lambda>R2. Done (True, endpoint, R2)))"

text \<open>The default constructor of \<open>OrkTimeValue\<close> is the present time.\<close>

definition newest_behind_nat :: "voip_env \<Rightarrow> RtpPacketInfo \<Rightarrow> VoIpSessions \<Rightarrow> int \<times> nat option" where
  "newest_behind_nat e p R =
     fold (\<lambda>a (latest, found).
         let s = session_at R a
         in if (vs_endPointIp s = rp_sourceIp p \<or> vs_endPointIp s = rp_destIp p) \<and>
               vs_skinnyLastCallInfoTime s \<ge> latest \<and> vs_ipAndPort s = 0
            then (vs_skinnyLastCallInfoTime s, Some a) else (latest, found))
       (map snd (rg_byCallId R)) (ve_nowUsec e, None)"

definition SkinnyFindMostLikelySessionForRtpBehindNat ::
    "voip_env \<Rightarrow> RtpPacketInfo \<Rightarrow> VoIpSessions \<Rightarrow> (bool \<times> VoIpSessions) outcome" where
  "SkinnyFindMostLikelySessionForRtpBehindNat e p R =
     (case newest_behind_nat e p R of
        (latest, None) \<Rightarrow> Done (False, R)
      | (latest, Some a) \<Rightarrow>
          if to_int32 (ve_nowUsec e div 1000000 - latest div 1000000) > 30 then Done (False, R)
          else if os_stopped (session_at R a) then Done (False, R)
          else and_then (if vs_endPointIp (session_at R a) = rp_sourceIp p
                         then SetMediaAddress e a (rp_destIp p) (rp_destPort p) R
                         else SetMediaAddress e a (rp_sourceIp p) (rp_sourcePort p) R)
                 (\<lambda>R1. Done (True, R1)))"

definition search_skinny ::
    "voip_env \<Rightarrow> RtpPacketInfo \<Rightarrow> VoIpSessions \<Rightarrow> (bool \<times> VoIpEndpointInfo option \<times> VoIpSessions) outcome" where
  "search_skinny e p R =
     (let c = ve_config e
      in if \<not> vc_skinnyRtpSearchesForCallInfo c then Done (False, None, R)
         else if \<not> vc_skinnyBehindNat c then SkinnyFindMostLikelySessionForRtp e p R
         else and_then (SkinnyFindMostLikelySessionForRtpBehindNat e p R) (\<lambda>(b, R1). Done (b, None, R1)))"

definition raw_session ::
    "sessions_env \<Rightarrow> RtpPacketInfo \<Rightarrow> VoIpEndpointInfo option \<Rightarrow> VoIpSessions \<Rightarrow> VoIpSessions outcome" where
  "raw_session e p endpoint R =
     (let c = se_config e; (a, R1) = new_session e R;
          bySource = (IsRtpTrackingIpAddress c (rp_sourceIp p) \<or> vc_sangomaEnable c);
          ip = (if bySource then rp_sourceIp p else rp_destIp p);
          port = (if bySource then rp_sourcePort p else rp_destPort p);
          R2 = set_session a (\<lambda>s. s\<lparr>vs_protocol := ProtRawRtp, vs_endPointIp := ip\<rparr>) R1
      in and_then (SetMediaAddress (se_env e) a ip port R2) (\<lambda>R3.
         and_then (AddRtpPacket (se_env e) p (load R3 (session_at R3 a))) (\<lambda>(taken, p', s).
         let R4 = store a s R3
         in Done (case endpoint of
              None \<Rightarrow> R4
            | Some ep \<Rightarrow> set_session a (\<lambda>s. s\<lparr>vs_localParty := vi_extension ep,
                  vs_remoteParty := IpToString (if vi_ip ep = rp_sourceIp p' then rp_destIp p' else rp_sourceIp p')\<rparr>) R4))))"

definition ReportRtpPacket :: "sessions_env \<Rightarrow> RtpPacketInfo \<Rightarrow> VoIpSessions \<Rightarrow> VoIpSessions outcome" where
  "ReportRtpPacket e p0 R =
     (let v = se_env e; c = se_config e; p = sangoma_packet c p0;
          found1 = findByMediaAddress c (rp_sourceIp p) (rp_sourcePort p) R
      in and_then (give_to v p found1 R) (\<lambda>(n1, p1, R1).
         let found2 = findByMediaAddress c (rp_destIp p1) (rp_destPort p1) R1
         in and_then (give_to v p1 found2 R1) (\<lambda>(n2, p2, R2).
         if n1 \<and> n2 then
           (if found1 \<noteq> found2 then merge_sessions v p2 (the found1) (the found2) R2 else Done R2)
         else if n1 \<or> n2 then
           let a = (if found2 \<noteq> None then the found2 else the found1)
           in and_then (track_second v p2 (found1 \<noteq> None) a R2) (track_first v p2 a)
         else if bc_lookBackRecording (vc_base c) \<or> vc_trackRawRtpSessionInNonLookBackMode c then
           and_then (search_skinny v p2 R2) (\<lambda>(done, endpoint, R3).
             if done then Done R3 else raw_session e p2 endpoint R3)
         else Done R2)))"

end
