(* ===== verification/OrkVoipHandlers.thy ===== *)
theory OrkVoipHandlers
  imports OrkVoipSessions
begin

text \<open>
  The messages and commands that reach the registry of the sessions (VoIpSession.cpp, class
  \<open>VoIpSessions\<close>): SIP, Skinny, text from the URL extractor, capture commands, and the removal of
  expired sessions.
\<close>

section \<open>SIP\<close>

record SipFailureInfo =
  fe_callId :: string
  fe_errorCode :: string

record SipMediaInfo =
  sm_callId :: string
  sm_hasSdp :: bool
  sm_mediaIp :: in_addr
  sm_mediaPort :: string
  sm_senderIp :: in_addr

text \<open>\<open>std::atoi\<close>, converted to a port.\<close>

definition port_of :: "string \<Rightarrow> u16" where
  "port_of s = word_of_int (to_int32 (fst (strtol10 (c_str s))))"

definition set_media_addresses ::
    "voip_env \<Rightarrow> nat \<Rightarrow> in_addr \<Rightarrow> in_addr \<Rightarrow> u16 \<Rightarrow> VoIpSessions \<Rightarrow> VoIpSessions outcome" where
  "set_media_addresses e a ip sender port R =
     and_then (SetMediaAddress e a ip port R) (\<lambda>R1.
     if vc_sipTrackMediaAddressOnSender (ve_config e) then SetMediaAddress e a sender port R1 else Done R1)"

definition TrySessionCallPickUp :: "string \<Rightarrow> nat \<Rightarrow> VoIpSessions \<Rightarrow> VoIpSessions" where
  "TrySessionCallPickUp replacesId a R =
     (if replacesId \<in> set (rg_sipSubscribeMap R)
      then set_session a (vs_isCallPickUp_update (\<lambda>_. True))
             (R\<lparr>rg_sipSubscribeMap := filter (\<lambda>x. x \<noteq> replacesId) (rg_sipSubscribeMap R)\<rparr>)
      else R)"

text \<open>The port as an integer (0 unless all of the text is a number), and as the port to register.\<close>

definition invite_port :: "SipInviteInfo \<Rightarrow> int" where
  "invite_port i =
     (let (v, rest) = strtol10 (c_str (si_fromRtpPort i)) in if rest \<noteq> [] then 0 else to_int32 v)"

definition media_port :: "SipInviteInfo \<Rightarrow> u16" where
  "media_port i = (if 0 < invite_port i \<and> invite_port i < 65535 then word_of_int (invite_port i) else 0)"

text \<open>An INVITE can put a call on hold or take it off hold; the result says whether it did.\<close>

definition invite_hold :: "voip_env \<Rightarrow> SipInviteInfo \<Rightarrow> nat \<Rightarrow> VoIpSessions \<Rightarrow> (bool \<times> VoIpSessions) outcome" where
  "invite_hold e i a R =
     (let c = ve_config e
      in if si_attrSendonly i then Done (True, on_session a (GoOnHold c (si_recvTime i)) R)
         else if vs_onHold (session_at R a) \<and> vc_sipInviteCanPutOffHold c then
           and_then (SetMediaAddress e a (si_fromRtpIp i) (media_port i)
               (set_session a (vs_lastUpdated_update (\<lambda>_. ve_now e)) (on_session a (GoOffHold c (si_recvTime i)) R)))
             (\<lambda>R1. Done (True, R1))
         else Done (False, R))"

definition reinvite :: "voip_env \<Rightarrow> nat \<Rightarrow> nat \<Rightarrow> VoIpSessions \<Rightarrow> VoIpSessions" where
  "reinvite e i a R =
     on_session a (Session_ReportSipInvite (ve_config e) i)
       (if vc_sipCallPickUpSupport (ve_config e) then TrySessionCallPickUp (si_replacesId (rg_invites R i)) a R else R)"

text \<open>A NEC switch announces the remote party before the INVITE.\<close>

definition use_notify :: "VoIpConfig \<Rightarrow> nat \<Rightarrow> VoIpSessions \<Rightarrow> VoIpSessions" where
  "use_notify c i R =
     (let inv = rg_invites R i;
          ip = (if MatchesReferenceAddresses c (si_senderIp inv) then si_receiverIp inv else si_senderIp inv);
          k = Craft64bitMediaAddress c ip 0
      in if \<not> vc_sipNotifySupport c then R
         else case map_of (rg_endpoints R) k of
             None \<Rightarrow> R
           | Some ep \<Rightarrow>
               (case vi_preInviteNotify ep of
                  None \<Rightarrow> R
                | Some n \<Rightarrow>
                    if IsNecExternal c inv
                    then R\<lparr>rg_invites := (rg_invites R)(i := inv\<lparr>si_sipRemoteParty := sn_dsp n\<rparr>),
                           rg_endpoints := map (\<lambda>(k', x). if k' = k then (k', x\<lparr>vi_preInviteNotify := None\<rparr>) else (k', x))
                             (rg_endpoints R)\<rparr>
                    else R))"

definition invite_new :: "sessions_env \<Rightarrow> nat \<Rightarrow> VoIpSessions \<Rightarrow> VoIpSessions outcome" where
  "invite_new e i R =
     (let v = se_env e; c = se_config e; inv = rg_invites R i; (a, R1) = new_session e R;
          R2 = (if vc_sipCallPickUpSupport c then TrySessionCallPickUp (si_replacesId inv) a R1 else R1);
          R3 = set_session a (\<lambda>s. s\<lparr>vs_callId := si_callId inv, vs_protocol := ProtSip,
                  vs_sipDialedNumber := si_sipDialedNumber inv\<rparr>) R2;
          R4 = on_session a (Session_ReportSipInvite c i) (use_notify c i R3);
          R5 = set_session a (vs_sipLastInvite_update (\<lambda>_. ve_nowUsec v)) R4
      in and_then (set_media_addresses v a (si_fromRtpIp inv) (si_originalSenderIp inv) (media_port inv) R5) (\<lambda>R6.
         Done (insert_call (si_callId inv) a R6)))"

text \<open>The session of the call identifier gets the INVITE, or a new session is created for it.\<close>

definition invite_by_callid :: "sessions_env \<Rightarrow> u64 \<Rightarrow> nat \<Rightarrow> VoIpSessions \<Rightarrow> VoIpSessions outcome" where
  "invite_by_callid e ipAndPort i R =
     (let v = se_env e; c = se_config e; inv = rg_invites R i
      in case findByCallId (si_callId inv) R of
           None \<Rightarrow> invite_new e i R
         | Some a \<Rightarrow>
             and_then (invite_hold v inv a R) (\<lambda>(done, R1).
             if done then Done R1
             else if vs_ipAndPort (session_at R1 a) \<noteq> ipAndPort \<and> vc_sipDynamicMediaAddress c then
               and_then (set_media_addresses v a (si_fromRtpIp inv) (si_originalSenderIp inv) (media_port inv) R1)
                 (\<lambda>R2. Done (reinvite v i a R2))
             else Done (reinvite v i a R1)))"

text \<open>
  The second lookup, by the address of the sender, is into a variable that shadows the first one: only
  its media address is used.
\<close>

definition Registry_ReportSipInvite :: "sessions_env \<Rightarrow> nat \<Rightarrow> VoIpSessions \<Rightarrow> VoIpSessions outcome" where
  "Registry_ReportSipInvite e i R =
     (let v = se_env e; c = se_config e; inv = rg_invites R i; port = word_of_int (invite_port inv);
          found = findByMediaAddress c (si_fromRtpIp inv) port R;
          ipAndPort = Craft64bitMediaAddress c
            (if found = None \<and> vc_sipTrackMediaAddressOnSender c then si_originalSenderIp inv else si_fromRtpIp inv) port
      in if IpRanges_Matches (vc_sipIgnoredMediaAddresses c) (si_fromRtpIp inv) then Done R
         else case found of
             None \<Rightarrow> invite_by_callid e ipAndPort i R
           | Some a \<Rightarrow>
               let s = session_at R a
               in if vs_protocol s = ProtRawRtp \<or> (vs_protocol s = ProtSip \<and> vc_rtpAllowMultipleMappings c)
                  then invite_by_callid e ipAndPort i R
                  else if \<not> vc_rtpAllowMultipleMappings c \<and> \<not> ci_eq (si_callId inv) (vs_callId s)
                  then invite_by_callid e ipAndPort i (set_session a (vs_protocol_update (\<lambda>_. ProtRawRtp)) R)
                  else and_then (invite_hold v inv a R) (\<lambda>(done, R1).
                       Done (if done then R1 else reinvite v i a R1)))"

definition ReportSipSubscribe :: "string \<Rightarrow> VoIpSessions \<Rightarrow> VoIpSessions" where
  "ReportSipSubscribe callId R =
     (let m = rg_sipSubscribeMap R; m1 = (if length m > 200 then tl m else m)
      in R\<lparr>rg_sipSubscribeMap := (if callId \<in> set m1 then m1 else m1 @ [callId])\<rparr>)"

text \<open>The log message of an error reads the INVITE of the session, without checking it.\<close>

definition Registry_ReportSipErrorPacket :: "voip_env \<Rightarrow> SipFailureInfo \<Rightarrow> VoIpSessions \<Rightarrow> VoIpSessions outcome" where
  "Registry_ReportSipErrorPacket e info R =
     (case findByCallId (fe_callId info) R of
        None \<Rightarrow> Done R
      | Some a \<Rightarrow>
          if fe_errorCode info = ''407'' then Done R
          else
            let R1 = on_session a Session_ReportSipErrorPacket R
            in if vs_invite (session_at R1 a) = None then Undefined else Stop_session e a R1)"

definition ReportSipSessionProgress :: "voip_env \<Rightarrow> SipMediaInfo \<Rightarrow> VoIpSessions \<Rightarrow> VoIpSessions outcome" where
  "ReportSipSessionProgress e info R =
     (case findByCallId (sm_callId info) R of
        None \<Rightarrow> Done R
      | Some a \<Rightarrow> set_media_addresses e a (sm_mediaIp info) (sm_senderIp info) (port_of (sm_mediaPort info)) R)"

definition save_local_party :: "string \<Rightarrow> string \<Rightarrow> VoIpSessions \<Rightarrow> VoIpSessions" where
  "save_local_party old new R =
     (if rg_localPartyMap R old = None
      then R\<lparr>rg_localPartyMap := (rg_localPartyMap R)(old \<mapsto> new)\<rparr> else R)"

definition local_party :: "string \<Rightarrow> VoIpSessions \<Rightarrow> string" where
  "local_party party R = (case rg_localPartyMap R party of Some p \<Rightarrow> p | None \<Rightarrow> party)"

definition ReportSip302MovedTemporarily :: "string \<Rightarrow> string \<Rightarrow> VoIpSessions \<Rightarrow> VoIpSessions" where
  "ReportSip302MovedTemporarily contact to R = save_local_party contact to R"

definition ReportSip200Ok :: "voip_env \<Rightarrow> SipMediaInfo \<Rightarrow> VoIpSessions \<Rightarrow> VoIpSessions outcome" where
  "ReportSip200Ok e info R =
     (let c = ve_config e
      in case findByCallId (sm_callId info) R of
           None \<Rightarrow> Done R
         | Some a \<Rightarrow>
             let s = session_at R a; lan = IpRanges_Matches (vc_lanIpRanges c);
                 set = SetMediaAddress e a (sm_mediaIp info) (port_of (sm_mediaPort info))
             in if \<not> (sm_hasSdp info \<and> vc_sipUse200OkMediaAddress c) then Done R
                else if vc_sipDynamicMediaAddress c then set R
                else if vs_numRtpPackets s \<noteq> 0 then Done R
                else if vs_rtpIp s = (0, 0, 0, 0) \<or> vc_rtpAllowMultipleMappings c then set R
                else if \<not> lan (vs_rtpIp s) then (if \<not> lan (sm_mediaIp info) then set R else Done R)
                else set R)"

definition Registry_ReportSipBye :: "voip_env \<Rightarrow> SipByeInfo \<Rightarrow> VoIpSessions \<Rightarrow> VoIpSessions outcome" where
  "Registry_ReportSipBye e bye R =
     (case findByCallId (sb_callId bye) R of
        None \<Rightarrow> Done R
      | Some a \<Rightarrow> Stop_session e a (on_session a (Session_ReportSipBye (ve_config e) bye) R))"

definition newest_invited :: "VoIpConfig \<Rightarrow> in_addr \<Rightarrow> VoIpSessions \<Rightarrow> nat option" where
  "newest_invited c ip R =
     fold (\<lambda>a found.
         case vs_invite (session_at R a) of
           None \<Rightarrow> found
         | Some i \<Rightarrow>
             let inv = rg_invites R i;
                 addr = (if MatchesReferenceAddresses c (si_senderIp inv) then si_receiverIp inv else si_senderIp inv)
             in if addr = ip \<and> (case found of None \<Rightarrow> True
                  | Some b \<Rightarrow> vs_sipLastInvite (session_at R a) > vs_sipLastInvite (session_at R b))
                then Some a else found)
       (map snd (rg_byCallId R)) None"

text \<open>\<open>lastHoldRemoteParty\<close> has 128 elements; the index comes from the message.\<close>

definition hold_slot :: "int \<Rightarrow> nat option" where
  "hold_slot k = (if 0 \<le> k \<and> k < 128 then Some (nat k) else None)"

text \<open>A new endpoint: the address and the port are left uninitialised.\<close>

definition fresh_endpoint :: "sessions_env \<Rightarrow> VoIpEndpointInfo" where
  "fresh_endpoint e = (se_junkEndpoint e)\<lparr>vi_extension := [], vi_latestCallId := [], vi_lastConferencePressed := 0,
     vi_lastConnectedWithConference := 0, vi_origOrkUid := [], vi_urlExtractionMap := (\<lambda>_. None),
     vi_preInviteNotify := None\<rparr>"

definition pre_invite_notify :: "sessions_env \<Rightarrow> SipNotifyInfo \<Rightarrow> VoIpSessions \<Rightarrow> VoIpSessions" where
  "pre_invite_notify e n R =
     (let k = Craft64bitMediaAddress (se_config e) (sn_receiverIp n) 0;
          eps = omap_insert (<) k (fresh_endpoint e) (rg_endpoints R)
      in R\<lparr>rg_endpoints := map (\<lambda>(k', x). if k' = k then (k', x\<lparr>vi_preInviteNotify := Some n\<rparr>) else (k', x)) eps\<rparr>)"

definition Registry_ReportSipNotify :: "sessions_env \<Rightarrow> SipNotifyInfo \<Rightarrow> VoIpSessions \<Rightarrow> VoIpSessions outcome" where
  "Registry_ReportSipNotify e n0 R =
     (let c = se_config e; found = newest_invited c (sn_receiverIp n0) R;
          n1 = (if list_all is_alnum (sn_dsp n0) then n0 else n0\<lparr>sn_dsp := []\<rparr>)
      in if sn_onHoldMarker n1 \<and> found \<noteq> None then
           (case hold_slot (sn_pkey n1) of
              None \<Rightarrow> Undefined
            | Some k \<Rightarrow> Done (R\<lparr>rg_lastHoldRemoteParty :=
                (rg_lastHoldRemoteParty R)[k := vs_sipRemoteParty (session_at R (the found))]\<rparr>))
         else
           and_then (if sn_offHoldMarker n1 \<and> sn_dsp n1 = [] then
                       (case hold_slot (sn_pkey n1) of
                          None \<Rightarrow> Undefined
                        | Some k \<Rightarrow> Done (n1\<lparr>sn_dsp := rg_lastHoldRemoteParty R ! k\<rparr>))
                     else Done n1) (\<lambda>n2.
           if length (sn_dsp n2) < 4 then Done R
           else case found of
               Some a \<Rightarrow> in_session a (Session_ReportSipNotify c n2) R
             | None \<Rightarrow> Done (pre_invite_notify e n2 R)))"

definition Registry_ReportSipInfo :: "voip_env \<Rightarrow> SipInfo \<Rightarrow> VoIpSessions \<Rightarrow> VoIpSessions" where
  "Registry_ReportSipInfo e info R =
     (case findByCallId (sf_callId info) R of
        None \<Rightarrow> R | Some a \<Rightarrow> on_session a (Session_ReportSipInfo e info) R)"

definition Registry_ReportSipRefer :: "SipRefer \<Rightarrow> VoIpSessions \<Rightarrow> VoIpSessions" where
  "Registry_ReportSipRefer r R =
     (case findByCallId (rf_callId r) R of
        None \<Rightarrow> R
      | Some a \<Rightarrow>
          let r1 = r\<lparr>rf_referToParty := local_party (rf_referToParty r) R,
                     rf_referredByParty := local_party (rf_referredByParty r) R\<rparr>;
              (s, uid) = Session_ReportSipRefer (load R (session_at R a));
              R1 = store a s R
          in R1\<lparr>rg_sipReferList := rg_sipReferList R1 @ [r1\<lparr>rf_origOrkUid := uid\<rparr>]\<rparr>)"

section \<open>Skinny\<close>

record SkCallInfo =
  sk_callingPartyName :: string
  sk_callingParty :: string
  sk_calledPartyName :: string
  sk_calledParty :: string
  sk_lineInstance :: u32
  sk_callId :: u32
  sk_callType :: u32

text \<open>Source and destination of the packet of a message.\<close>

record flow =
  fl_src :: in_addr
  fl_dst :: in_addr
  fl_srcPort :: u16
  fl_dstPort :: u16

text \<open>Assignment to an entry of the endpoint map.\<close>

definition update_endpoint :: "u64 \<Rightarrow> (VoIpEndpointInfo \<Rightarrow> VoIpEndpointInfo) \<Rightarrow> VoIpSessions \<Rightarrow> VoIpSessions" where
  "update_endpoint k f R =
     R\<lparr>rg_endpoints := map (\<lambda>(k', x). if k' = k then (k', f x) else (k', x)) (rg_endpoints R)\<rparr>"

definition SetEndpointExtension ::
    "sessions_env \<Rightarrow> string \<Rightarrow> in_addr \<Rightarrow> string \<Rightarrow> u16 \<Rightarrow> VoIpSessions \<Rightarrow> VoIpSessions" where
  "SetEndpointExtension e extension ip callId port R =
     (let k = Craft64bitMediaAddress (se_config e) ip port;
          named = (\<lambda>ep. if callId \<noteq> [] then ep\<lparr>vi_extension := extension, vi_latestCallId := callId\<rparr>
                        else ep\<lparr>vi_extension := extension\<rparr>)
      in if map_of (rg_endpoints R) k \<noteq> None then update_endpoint k named R
         else R\<lparr>rg_endpoints := omap_insert (<) k
                (named ((fresh_endpoint e)\<lparr>vi_skinnyPort := port, vi_ip := ip\<rparr>)) (rg_endpoints R)\<rparr>)"

definition call_id_of :: "VoIpConfig \<Rightarrow> SkCallInfo \<Rightarrow> flow \<Rightarrow> string" where
  "call_id_of c info f = GenerateSkinnyCallId c (fl_dst f) (fl_dstPort f) (sk_callId info)"

definition UpdateEndpointWithCallInfo :: "sessions_env \<Rightarrow> SkCallInfo \<Rightarrow> flow \<Rightarrow> VoIpSessions \<Rightarrow> VoIpSessions" where
  "UpdateEndpointWithCallInfo e info f R =
     (let callId = call_id_of (se_config e) info f;
          set = (\<lambda>party. if party \<in> set (rg_skinnyGlobalNumbers R) then R
                         else SetEndpointExtension e party (fl_dst f) callId (fl_dstPort f) R)
      in if sk_callType info = 1 \<or> sk_callType info = 3 then set (sk_calledParty info)
         else if sk_callType info = 2 then set (sk_callingParty info)
         else R)"

definition set_call_parties ::
    "VoIpSessions \<Rightarrow> string \<Rightarrow> string \<Rightarrow> string \<Rightarrow> VoIpSession \<Rightarrow> VoIpSession" where
  "set_call_parties R lp lpn rp s =
     (let s1 = (if lp \<notin> set (rg_skinnyGlobalNumbers R) then s\<lparr>vs_localParty := local_party lp R\<rparr> else s);
          s2 = s1\<lparr>vs_localPartyName := local_party lpn R\<rparr>
      in if rp \<noteq> [] then s2\<lparr>vs_remoteParty := local_party rp R\<rparr> else s2)"

definition set_forwarded_parties ::
    "VoIpSessions \<Rightarrow> VoIpEndpointInfo option \<Rightarrow> SkCallInfo \<Rightarrow> VoIpSession \<Rightarrow> VoIpSession" where
  "set_forwarded_parties R endpoint info s =
     (let lp = sk_calledParty info; rp = sk_callingParty info;
          s1 = (case endpoint of
                  Some ep \<Rightarrow> if vi_extension ep \<noteq> [] then
                      (if lp \<notin> set (rg_skinnyGlobalNumbers R)
                       then s\<lparr>vs_localParty := local_party (vi_extension ep) R\<rparr> else s)\<lparr>vs_localEntryPoint := lp\<rparr>
                    else s
                | None \<Rightarrow> s);
          s2 = s1\<lparr>vs_localPartyName := local_party (sk_calledPartyName info) R\<rparr>
      in if rp \<noteq> [] then s2\<lparr>vs_remoteParty := local_party rp R\<rparr> else s2)"

definition UpdateSessionWithCallInfo :: "VoIpConfig \<Rightarrow> SkCallInfo \<Rightarrow> nat \<Rightarrow> VoIpSessions \<Rightarrow> VoIpSessions" where
  "UpdateSessionWithCallInfo c info a R =
     set_session a (\<lambda>s0.
       let s = s0\<lparr>vs_skinnyLineInstance := sint (sk_lineInstance info)\<rparr>;
           endpoint = GetVoIpEndpointInfo c (vs_endPointIp s) (vs_endPointSignallingPort s) (rg_endpoints R);
           called = set_call_parties R (sk_calledParty info) (sk_calledPartyName info) (sk_callingParty info);
           calling = set_call_parties R (sk_callingParty info) (sk_callingPartyName info) (sk_calledParty info)
       in if vs_hasReceivedCallInfo s \<and> sk_calledParty info = sk_callingParty info then s
          else
            let s1 = s\<lparr>vs_hasReceivedCallInfo := True\<rparr>
            in if sk_callType info = 1 then (called s1)\<lparr>vs_direction := DirIn\<rparr>
               else if sk_callType info = 3 then (set_forwarded_parties R endpoint info s1)\<lparr>vs_direction := DirIn\<rparr>
               else if sk_callType info = 2 then (calling s1)\<lparr>vs_direction := DirOut\<rparr>
               else called s1) R"

definition call_info_known :: "voip_env \<Rightarrow> SkCallInfo \<Rightarrow> flow \<Rightarrow> nat \<Rightarrow> VoIpSessions \<Rightarrow> VoIpSessions" where
  "call_info_known e info f a R =
     (let c = ve_config e;
          R1 = set_session a (vs_skinnyLastCallInfoTime_update (\<lambda>_. ve_nowUsec e)) R;
          old = vs_remoteParty (session_at R1 a);
          R2 = (if vc_skinnyAllowCallInfoUpdate c then UpdateSessionWithCallInfo c info a R1 else R1);
          R3 = on_session a (Session_ReportSkinnyCallInfo c (sk_callingPartyName info) (fl_src f)) R2;
          new = vs_remoteParty (session_at R3 a)
      in if new \<noteq> [] \<and> old \<noteq> new then on_session a (ReportMetadataUpdateSkinny c) R3 else R3)"

definition call_info_late ::
    "voip_env \<Rightarrow> SkCallInfo \<Rightarrow> flow \<Rightarrow> string \<Rightarrow> nat \<Rightarrow> VoIpSessions \<Rightarrow> VoIpSessions" where
  "call_info_late e info f callId a R =
     (let c = ve_config e;
          R1 = set_session a (\<lambda>s. s\<lparr>vs_skinnyLastCallInfoTime := ve_nowUsec e, vs_callId := callId\<rparr>) R;
          R2 = UpdateSessionWithCallInfo c info a R1;
          R3 = on_session a (UpdateMetadataSkinny c) R2;
          R4 = on_session a (Session_ReportSkinnyCallInfo c (sk_callingPartyName info) (fl_src f)) R3
      in insert_call callId a R4)"

definition stop_previous :: "voip_env \<Rightarrow> in_addr \<Rightarrow> VoIpSessions \<Rightarrow> VoIpSessions outcome" where
  "stop_previous e ip R =
     (let c = ve_config e; tolerance = vc_skinnyCallInfoStopsPreviousToleranceSec c
      in if \<not> vc_skinnyCallInfoStopsPrevious c then Done R
         else case findNewestRtpByEndpointIp ip R of
             None \<Rightarrow> Done R
           | Some b \<Rightarrow>
               if tolerance = 0 \<or> to_int32 (ve_now e - vs_lastRtpStreamStart (session_at R b)) \<le> tolerance
               then Stop_session e b R else Done R)"

definition call_info_new ::
    "sessions_env \<Rightarrow> SkCallInfo \<Rightarrow> flow \<Rightarrow> string \<Rightarrow> VoIpSessions \<Rightarrow> VoIpSessions outcome" where
  "call_info_new e info f callId R =
     (let v = se_env e; c = se_config e; (a, R1) = new_session e R;
          R2 = set_session a (\<lambda>s. s\<lparr>vs_callId := callId, vs_endPointIp := fl_dst f,
                  vs_endPointSignallingPort := fl_dstPort f, vs_protocol := ProtSkinny,
                  vs_skinnyLastCallInfoTime := ve_nowUsec v\<rparr>) R1;
          R3 = UpdateSessionWithCallInfo c info a R2;
          R4 = on_session a (Session_ReportSkinnyCallInfo c (sk_callingPartyName info) (fl_src f)) R3
      in and_then (stop_previous v (fl_dst f) R4) (\<lambda>R5. Done (insert_call callId a R5)))"

definition Registry_ReportSkinnyCallInfo ::
    "sessions_env \<Rightarrow> SkCallInfo \<Rightarrow> flow \<Rightarrow> VoIpSessions \<Rightarrow> VoIpSessions outcome" where
  "Registry_ReportSkinnyCallInfo e info f R0 =
     (let c = se_config e; callId = call_id_of c info f; R = UpdateEndpointWithCallInfo e info f R0
      in case findByCallId callId R of
           Some a \<Rightarrow> Done (call_info_known (se_env e) info f a R)
         | None \<Rightarrow>
             (case (if vc_skinnyAllowLateCallInfo c then findByEndpointIpUsingIpAndPort (fl_dst f) R else None) of
                Some a \<Rightarrow>
                  if vs_callId (session_at R a) = [] then Done (call_info_late (se_env e) info f callId a R)
                  else call_info_new e info f callId R
              | None \<Rightarrow> call_info_new e info f callId R))"

definition Registry_ReportSkinnyCallStateMessage ::
    "voip_env \<Rightarrow> u32 \<Rightarrow> u32 \<Rightarrow> flow \<Rightarrow> VoIpSessions \<Rightarrow> VoIpSessions" where
  "Registry_ReportSkinnyCallStateMessage e callId callState f R =
     (case findByCallId (GenerateSkinnyCallId (ve_config e) (fl_dst f) (fl_dstPort f) callId) R of
        None \<Rightarrow> R
      | Some a \<Rightarrow> on_session a (Session_ReportSkinnyCallStateMessage e (unat callState)) R)"

text \<open>A media address for a call known by signalling, or (late call information) for a new session.\<close>

definition skinny_media ::
    "sessions_env \<Rightarrow> in_addr \<Rightarrow> u16 \<Rightarrow> u16 \<Rightarrow> u32 \<Rightarrow> in_addr \<Rightarrow> u32 \<Rightarrow> VoIpSessions \<Rightarrow> VoIpSessions outcome" where
  "skinny_media e ip signallingPort lookupPort passThru mediaIp mediaPort R =
     (let v = se_env e; c = se_config e; port = ucast mediaPort
      in case findNewestByEndpoint c ip signallingPort R of
           Some a \<Rightarrow>
             if vs_ipAndPort (session_at R a) = 0 \<or> vc_skinnyDynamicMediaAddress c
             then SetMediaAddress v a mediaIp port
                    (set_session a (vs_skinnyPassThruPartyId_update (\<lambda>_. sint passThru)) R)
             else Done R
         | None \<Rightarrow>
             if vc_skinnyAllowLateCallInfo c \<and> findByEndpointIp ip 0 R = None then
               let (a, R1) = new_session e R;
                   party = (case GetVoIpEndpointInfo c ip lookupPort (rg_endpoints R) of
                              Some ep \<Rightarrow> vi_extension ep | None \<Rightarrow> IpToString ip);
                   R2 = set_session a (\<lambda>s. s\<lparr>vs_endPointIp := ip, vs_endPointSignallingPort := signallingPort,
                          vs_protocol := ProtSkinny, vs_skinnyPassThruPartyId := sint passThru,
                          vs_localParty := local_party party R\<rparr>) R1
               in SetMediaAddress v a mediaIp port R2
             else Done R)"

definition ReportSkinnyOpenReceiveChannelAck ::
    "sessions_env \<Rightarrow> in_addr \<Rightarrow> u32 \<Rightarrow> u32 \<Rightarrow> flow \<Rightarrow> VoIpSessions \<Rightarrow> VoIpSessions outcome" where
  "ReportSkinnyOpenReceiveChannelAck e ip port passThru f R =
     (if vc_skinnyIgnoreOpenReceiveChannelAck (se_config e) then Done R
      else skinny_media e ip (fl_srcPort f) (fl_srcPort f) passThru ip port R)"

definition ReportSkinnyStartMediaTransmission ::
    "sessions_env \<Rightarrow> in_addr \<Rightarrow> u32 \<Rightarrow> u32 \<Rightarrow> flow \<Rightarrow> VoIpSessions \<Rightarrow> VoIpSessions outcome" where
  "ReportSkinnyStartMediaTransmission e remoteIp remotePort passThru f R =
     skinny_media e (fl_dst f) (fl_dstPort f) (fl_srcPort f) passThru remoteIp remotePort R"

definition ReportSkinnyStopMediaTransmission ::
    "voip_env \<Rightarrow> u32 \<Rightarrow> u32 \<Rightarrow> flow \<Rightarrow> VoIpSessions \<Rightarrow> VoIpSessions outcome" where
  "ReportSkinnyStopMediaTransmission e conferenceId passThru f R =
     (let c = ve_config e;
          byCall = (if conferenceId \<noteq> 0
                    then findByCallId (GenerateSkinnyCallId c (fl_dst f) (fl_dstPort f) conferenceId) R else None);
          found = (if byCall = None \<and> passThru \<noteq> 0 then findByEndpointIp (fl_dst f) (sint passThru) R else byCall)
      in if vc_skinnyIgnoreStopMediaTransmission c then Done R
         else case found of
             None \<Rightarrow> Done R
           | Some a \<Rightarrow> if vs_onHold (session_at R a) then Done R else Stop_session e a R)"

definition ReportSkinnyLineStat :: "sessions_env \<Rightarrow> string \<Rightarrow> flow \<Rightarrow> VoIpSessions \<Rightarrow> VoIpSessions" where
  "ReportSkinnyLineStat e lineDirNumber f R =
     (if length lineDirNumber > 1
      then SetEndpointExtension e lineDirNumber (fl_dst f) [] (fl_dstPort f) R else R)"

definition ReportSkinnySoftKeyHold :: "voip_env \<Rightarrow> u32 \<Rightarrow> flow \<Rightarrow> VoIpSessions \<Rightarrow> VoIpSessions" where
  "ReportSkinnySoftKeyHold e callId f R =
     (let c = ve_config e
      in if vc_skinnyIgnoreHold c then R
         else case findByCallId (GenerateSkinnyCallId c (fl_src f) (fl_srcPort f) callId) R of
             None \<Rightarrow> R | Some a \<Rightarrow> on_session a (GoOnHold c (ve_now e)) R)"

definition ReportSkinnySoftKeyResume :: "voip_env \<Rightarrow> u32 \<Rightarrow> flow \<Rightarrow> VoIpSessions \<Rightarrow> VoIpSessions" where
  "ReportSkinnySoftKeyResume e callId f R =
     (let c = ve_config e
      in case findByCallId (GenerateSkinnyCallId c (fl_src f) (fl_srcPort f) callId) R of
           None \<Rightarrow> R
         | Some a \<Rightarrow> set_session a (vs_lastUpdated_update (\<lambda>_. ve_now e)) (on_session a (GoOffHold c (ve_now e)) R))"

definition ReportSkinnySoftKeyConfPressed :: "voip_env \<Rightarrow> in_addr \<Rightarrow> u16 \<Rightarrow> VoIpSessions \<Rightarrow> VoIpSessions" where
  "ReportSkinnySoftKeyConfPressed e ip port R =
     (let c = ve_config e; k = Craft64bitMediaAddress c ip port
      in case GetVoIpEndpointInfo c ip port (rg_endpoints R) of
           None \<Rightarrow> R
         | Some ep \<Rightarrow>
             (case findByCallId (vi_latestCallId ep) R of
                None \<Rightarrow> R
              | Some a \<Rightarrow>
                  let uid = vs_orkUid (session_at R a);
                      R1 = (if vi_lastConnectedWithConference ep < vi_lastConferencePressed ep \<or>
                               vi_lastConferencePressed ep = 0
                            then on_session a (emit (key_value ''orig-orkuid'' uid))
                                   (update_endpoint k (vi_origOrkUid_update (\<lambda>_. uid)) R)
                            else R)
                  in update_endpoint k (vi_lastConferencePressed_update (\<lambda>_. ve_now e)) R1))"

definition ReportSkinnySoftKeySetConfConnected :: "voip_env \<Rightarrow> in_addr \<Rightarrow> u16 \<Rightarrow> VoIpSessions \<Rightarrow> VoIpSessions" where
  "ReportSkinnySoftKeySetConfConnected e ip port R =
     update_endpoint (Craft64bitMediaAddress (ve_config e) ip port)
       (vi_lastConnectedWithConference_update (\<lambda>_. ve_now e)) R"

definition ReportSkinnySoftKeySetTransfConnected ::
    "voip_env \<Rightarrow> u32 \<Rightarrow> flow \<Rightarrow> VoIpSessions \<Rightarrow> VoIpSessions outcome" where
  "ReportSkinnySoftKeySetTransfConnected e callId f R =
     (case findByCallId (GenerateSkinnyCallId (ve_config e) (fl_dst f) (fl_dstPort f) callId) R of
        None \<Rightarrow> Done R | Some a \<Rightarrow> Stop_session e a R)"

definition SaveSkinnyGlobalNumbersList :: "string \<Rightarrow> VoIpSessions \<Rightarrow> VoIpSessions" where
  "SaveSkinnyGlobalNumbersList number R = R\<lparr>rg_skinnyGlobalNumbers := number # rg_skinnyGlobalNumbers R\<rparr>"

definition ClearLocalPartyMap :: "VoIpSessions \<Rightarrow> VoIpSessions" where
  "ClearLocalPartyMap R = R\<lparr>rg_localPartyMap := (\<lambda>_. None)\<rparr>"

section \<open>Text from the URL extractor\<close>

text \<open>\<open>GetAt\<close> is \<open>at\<close>: it throws behind the end of the text.\<close>

fun Registry_UnEscapeUrl :: "string \<Rightarrow> string outcome" where
  "Registry_UnEscapeUrl [] = Done []"
| "Registry_UnEscapeUrl (c # cs) =
     (if c = CHR ''+'' then and_then (Registry_UnEscapeUrl cs) (\<lambda>r. Done (CHR '' '' # r))
      else if c = CHR ''%'' then
        (case cs of
           [] \<Rightarrow> Thrown
         | a # as \<Rightarrow>
             if a = CHR ''%'' then and_then (Registry_UnEscapeUrl as) (\<lambda>r. Done (CHR ''%'' # r))
             else (case as of
                     [] \<Rightarrow> Thrown
                   | b # bs \<Rightarrow> and_then (Registry_UnEscapeUrl bs) (\<lambda>r. Done (char_of (nat (strtol16 [a, b] mod 256)) # r))))
      else and_then (Registry_UnEscapeUrl cs) (\<lambda>r. Done (c # r)))"

datatype UrlState = UrlStartState | UrlKeyState | UrlValueState | UrlErrorState

definition url_step :: "char \<Rightarrow> UrlState \<Rightarrow> string \<Rightarrow> string \<Rightarrow> UrlState \<times> string \<times> string" where
  "url_step ch state key value =
     (case state of
        UrlStartState \<Rightarrow>
          if ch = CHR ''&'' then (UrlStartState, key, value)
          else if is_alnum ch then (UrlKeyState, [ch], value)
          else (UrlErrorState, key, value)
      | UrlKeyState \<Rightarrow>
          if is_alnum ch then (UrlKeyState, key @ [ch], value)
          else if ch = CHR ''='' then (UrlValueState, key, [])
          else (UrlErrorState, key, value)
      | UrlValueState \<Rightarrow>
          if ch = CHR ''='' then (UrlErrorState, key, value)
          else if ch = CHR ''&'' then (UrlStartState, key, value)
          else (UrlValueState, key, value @ [ch])
      | UrlErrorState \<Rightarrow> (UrlErrorState, key, value))"

definition url_insert :: "sessions_env \<Rightarrow> in_addr \<Rightarrow> string \<Rightarrow> string \<Rightarrow> VoIpSessions \<Rightarrow> VoIpSessions" where
  "url_insert e ip key value R =
     (let k = Craft64bitMediaAddress (se_config e) ip 0;
          put = (\<lambda>ep. ep\<lparr>vi_urlExtractionMap := (vi_urlExtractionMap ep)(key \<mapsto> (value, ve_now (se_env e)))\<rparr>)
      in if map_of (rg_endpoints R) k \<noteq> None then update_endpoint k put R
         else R\<lparr>rg_endpoints := omap_insert (<) k (put ((fresh_endpoint e)\<lparr>vi_ip := ip\<rparr>)) (rg_endpoints R)\<rparr>)"

fun url_loop ::
    "sessions_env \<Rightarrow> in_addr \<Rightarrow> string \<Rightarrow> UrlState \<Rightarrow> string \<Rightarrow> string \<Rightarrow> VoIpSessions \<Rightarrow> VoIpSessions outcome" where
  "url_loop e ip [] state key value R = Done R"
| "url_loop e ip (ch # rest) state key value R =
     (if state = UrlErrorState then Done R
      else
        let (state', key', value') = url_step ch state key value
        in if (state' = UrlStartState \<or> rest = []) \<and> key' \<noteq> []
           then and_then (Registry_UnEscapeUrl value') (\<lambda>v. url_loop e ip rest state' [] [] (url_insert e ip key' v R))
           else url_loop e ip rest state' key' value' R)"

definition UrlExtraction :: "sessions_env \<Rightarrow> string \<Rightarrow> in_addr \<Rightarrow> VoIpSessions \<Rightarrow> VoIpSessions outcome" where
  "UrlExtraction e input ip R = url_loop e ip (trim input) UrlStartState [] [] R"

section \<open>Commands\<close>

definition first_session :: "(VoIpSession \<Rightarrow> bool) \<Rightarrow> VoIpSessions \<Rightarrow> nat option" where
  "first_session p R = List.find (\<lambda>a. p (session_at R a)) (map snd (rg_byIpAndPort R))"

definition ReportOnDemandMarkerByIp :: "in_addr \<Rightarrow> VoIpSessions \<Rightarrow> VoIpSessions" where
  "ReportOnDemandMarkerByIp ip R =
     (let onIp = filter (\<lambda>a. IsMatchedLocalOrRemoteIp ip (session_at R a) \<and> vs_numRtpPackets (session_at R a) > 0)
            (map snd (rg_byIpAndPort R));
          (latest, found) = fold (\<lambda>a (latest, found).
             if vs_lastUpdated (session_at R a) > latest then (vs_lastUpdated (session_at R a), Some a)
             else (latest, found)) onIp (0, None)
      in case found of
           None \<Rightarrow> R
         | Some a \<Rightarrow> on_session a (MarkAsOnDemand ''both'') (set_session a (os_keepRtp_update (\<lambda>_. True)) R))"

text \<open>Start, by any of the three kinds of name; the result is the identifier of the recording.\<close>

definition start_capture :: "(VoIpSession \<Rightarrow> bool) \<Rightarrow> string \<Rightarrow> VoIpSessions \<Rightarrow> string \<times> VoIpSessions" where
  "start_capture p side R =
     (case first_session p R of
        None \<Rightarrow> ([], R)
      | Some a \<Rightarrow> (vs_orkUid (session_at R a),
          on_session a (MarkAsOnDemand side) (set_session a (os_keepRtp_update (\<lambda>_. True)) R)))"

definition StartCaptureOrkuid :: "string \<Rightarrow> string \<Rightarrow> VoIpSessions \<Rightarrow> VoIpSessions" where
  "StartCaptureOrkuid orkuid side R = snd (start_capture (OrkUidMatches orkuid) side R)"

definition StartCaptureNativeCallId :: "string \<Rightarrow> string \<Rightarrow> VoIpSessions \<Rightarrow> string \<times> VoIpSessions" where
  "StartCaptureNativeCallId callid side R = start_capture (NativeCallIdMatches callid) side R"

definition StartCapture :: "string \<Rightarrow> string \<Rightarrow> VoIpSessions \<Rightarrow> string \<times> VoIpSessions" where
  "StartCapture party side R = start_capture (PartyMatches party) side R"

definition pause_capture :: "(VoIpSession \<Rightarrow> bool) \<Rightarrow> VoIpSessions \<Rightarrow> string \<times> VoIpSessions" where
  "pause_capture p R =
     (case first_session p R of
        None \<Rightarrow> ([], R)
      | Some a \<Rightarrow> (vs_orkUid (session_at R a), set_session a (os_keepRtp_update (\<lambda>_. False)) R))"

definition PauseCapture :: "string \<Rightarrow> VoIpSessions \<Rightarrow> string \<times> VoIpSessions" where
  "PauseCapture party R = pause_capture (PartyMatches party) R"

definition PauseCaptureOrkuid :: "string \<Rightarrow> VoIpSessions \<Rightarrow> VoIpSessions" where
  "PauseCaptureOrkuid orkuid R = snd (pause_capture (OrkUidMatches orkuid) R)"

definition PauseCaptureNativeCallId :: "string \<Rightarrow> VoIpSessions \<Rightarrow> string \<times> VoIpSessions" where
  "PauseCaptureNativeCallId callid R = pause_capture (NativeCallIdMatches callid) R"

definition CopyMetadataToNewSession :: "VoIpSession \<Rightarrow> VoIpSession \<Rightarrow> VoIpSession" where
  "CopyMetadataToNewSession old new = new\<lparr>
     vs_ipAndPort := vs_ipAndPort old, vs_rtpIp := vs_rtpIp old, vs_callId := vs_callId old,
     vs_invite := vs_invite old, vs_protocol := vs_protocol old,
     vs_remotePartyNecSip := vs_remotePartyNecSip old, vs_localParty := vs_localParty old,
     vs_remoteParty := vs_remoteParty old, vs_localEntryPoint := vs_localEntryPoint old,
     vs_localPartyName := vs_localPartyName old, vs_remotePartyName := vs_remotePartyName old,
     vs_localPartyReported := vs_localPartyReported old, vs_remotePartyReported := vs_remotePartyReported old,
     vs_rtcpLocalParty := vs_rtcpLocalParty old, vs_rtcpRemoteParty := vs_rtcpRemoteParty old,
     vs_direction := vs_direction old, vs_localSide := vs_localSide old, vs_endPointIp := vs_endPointIp old,
     vs_endPointSignallingPort := vs_endPointSignallingPort old,
     vs_skinnyPassThruPartyId := vs_skinnyPassThruPartyId old, vs_sipLastInvite := vs_sipLastInvite old,
     vs_skinnyLastCallInfoTime := vs_skinnyLastCallInfoTime old,
     vs_skinnyLineInstance := vs_skinnyLineInstance old, vs_mediaAddresses := vs_mediaAddresses old,
     vs_sipDialedNumber := vs_sipDialedNumber old, vs_sipRemoteParty := vs_sipRemoteParty old,
     vs_isCallPickUp := vs_isCallPickUp old, vs_ssrcCandidate := vs_ssrcCandidate old,
     vs_metadataProcessed := True\<rparr>"

definition qos_text :: "VoIpSession \<Rightarrow> string" where
  "qos_text s = ''RtpNumPkts:'' @ IntToString (vs_numRtpPackets s) @
     '' RtpNumMissingPkts:'' @ IntToString (sint (vs_rtpNumMissingPkts s)) @
     '' RtpNumSeqGaps:'' @ IntToString (sint (vs_rtpNumSeqGaps s)) @
     '' RtpMaxSeqGap:'' @ IntToString (to_int32 (vs_highestRtpSeqNumDelta s))"

text \<open>Stop: a new session takes the rest of the call. The results are the identifier and the statistics.\<close>

definition stop_capture ::
    "sessions_env \<Rightarrow> (VoIpSession \<Rightarrow> bool) \<Rightarrow> VoIpSessions \<Rightarrow> (string \<times> string \<times> VoIpSessions) outcome" where
  "stop_capture e p R =
     (case first_session p R of
        None \<Rightarrow> Done ([], [], R)
      | Some a \<Rightarrow>
          let (b, R1) = new_session e R;
              R2 = set_session b (CopyMetadataToNewSession (session_at R1 a)) R1
          in and_then (Stop_session (se_env e) a R2) (\<lambda>R3.
             let new = session_at R3 b
             in Done (vs_orkUid (session_at R a), qos_text (session_at R3 a),
                  insert_call (vs_callId new) b (insert_media (vs_ipAndPort new) b R3))))"

definition StopCapture ::
    "sessions_env \<Rightarrow> string \<Rightarrow> VoIpSessions \<Rightarrow> (string \<times> string \<times> VoIpSessions) outcome" where
  "StopCapture e party R = stop_capture e (PartyMatches party) R"

definition StopCaptureOrkuid ::
    "sessions_env \<Rightarrow> string \<Rightarrow> VoIpSessions \<Rightarrow> (string \<times> VoIpSessions) outcome" where
  "StopCaptureOrkuid e orkuid R =
     and_then (stop_capture e (OrkUidMatches orkuid) R) (\<lambda>(uid, qos, R1). Done (qos, R1))"

definition StopCaptureNativeCallId ::
    "sessions_env \<Rightarrow> string \<Rightarrow> VoIpSessions \<Rightarrow> (string \<times> string \<times> VoIpSessions) outcome" where
  "StopCaptureNativeCallId e callid R = stop_capture e (NativeCallIdMatches callid) R"

section \<open>Expiry\<close>

definition signalled_timeout :: "VoIpConfig \<Rightarrow> VoIpSession \<Rightarrow> int" where
  "signalled_timeout c s =
     (if vs_onHold s then vc_rtpSessionOnHoldTimeOutSec c
      else if vs_numRtpPackets s \<noteq> 0 \<or> vs_numIgnoredRtpPackets s \<noteq> 0
      then vc_rtpSessionWithSignallingTimeoutSec c
      else vc_rtpSessionWithSignallingInitialTimeoutSec c)"

definition rtp_timeout :: "VoIpConfig \<Rightarrow> VoIpSession \<Rightarrow> int" where
  "rtp_timeout c s =
     (if vs_protocol s = ProtRawRtp then vc_rtpSessionTimeoutSec c else signalled_timeout c s)"

definition expired_rtp :: "VoIpConfig \<Rightarrow> int \<Rightarrow> VoIpSession \<Rightarrow> bool" where
  "expired_rtp c now s \<longleftrightarrow> now - vs_lastUpdated s > rtp_timeout c s"

definition expired_call :: "VoIpConfig \<Rightarrow> int \<Rightarrow> VoIpSession \<Rightarrow> bool" where
  "expired_call c now s \<longleftrightarrow> now - vs_lastUpdated s > signalled_timeout c s"

definition Registry_Hoover :: "voip_env \<Rightarrow> int \<Rightarrow> VoIpSessions \<Rightarrow> VoIpSessions outcome" where
  "Registry_Hoover e now R =
     (let c = ve_config e
      in and_then (run_calls (Stop_session e)
            (filter (\<lambda>a. expired_rtp c now (session_at R a)) (map snd (rg_byIpAndPort R))) R) (\<lambda>R1.
         run_calls (Stop_session e)
            (filter (\<lambda>a. expired_call c now (session_at R1 a)) (map snd (rg_byCallId R1))) R1))"

definition StopAll :: "voip_env \<Rightarrow> VoIpSessions \<Rightarrow> VoIpSessions outcome" where
  "StopAll e R = Registry_Hoover e (ve_now e + 2 * vc_rtpSessionOnHoldTimeOutSec (ve_config e)) R"

end
