(* ===== verification/OrkVoipRegistry.thy ===== *)
theory OrkVoipRegistry
  imports OrkVoipHandlers
begin

text \<open>
  The registry over any sequence of packets, messages and commands: its two maps agree with the
  sessions they name, no call is undefined, and what stopping a session and giving it an address do.
\<close>

section \<open>The maps\<close>

text \<open>An ordered map, for a strict order of its keys.\<close>

locale ordered_map =
  fixes lt :: "'k \<Rightarrow> 'k \<Rightarrow> bool"
  assumes lt_trans: "lt a b \<Longrightarrow> lt b c \<Longrightarrow> lt a c" and lt_irrefl: "\<not> lt a a"
    and lt_total: "\<not> lt a b \<Longrightarrow> a \<noteq> b \<Longrightarrow> lt b a"
begin

lemma sorted_insert: "sorted_wrt lt (map fst m) \<Longrightarrow> sorted_wrt lt (map fst (omap_insert lt k v m))"
  using lt_trans lt_total by (rule omap_insert_sorted)

lemma lookup_insert:
  "sorted_wrt lt (map fst m) \<Longrightarrow>
    map_of (omap_insert lt k v m) = (if map_of m k = None then (map_of m)(k \<mapsto> v) else map_of m)"
  using lt_trans lt_irrefl by (rule map_of_omap_insert)

lemma keys_distinct: "sorted_wrt lt ks \<Longrightarrow> distinct ks"
  using lt_irrefl by (induction ks) auto

lemma entry_iff: "sorted_wrt lt (map fst m) \<Longrightarrow> (k, v) \<in> set m \<longleftrightarrow> map_of m k = Some v"
  using keys_distinct [of "map fst m"] by (auto dest: map_of_SomeD)

lemma value_found: "sorted_wrt lt (map fst m) \<Longrightarrow> v \<in> set (map snd m) \<Longrightarrow> \<exists>k. map_of m k = Some v"
  using entry_iff [of m] by fastforce

end

interpretation media: ordered_map "(<) :: u64 \<Rightarrow> u64 \<Rightarrow> bool"
  by unfold_locales auto

interpretation calls: ordered_map str_less
  by unfold_locales (use str_less_trans str_less_irrefl str_less_total in blast)+

text \<open>A call identifier that Skinny messages produce.\<close>

definition skinny_id :: "string \<Rightarrow> bool" where
  "skinny_id s \<longleftrightarrow> (\<exists>c ip port callId. s = GenerateSkinnyCallId c ip port callId)"

text \<open>
  What the registry relies on in a session: its list of addresses ends with the current one (and has no
  other without multiple mappings), and a SIP session, or one with an identifier that is not Skinny's, has an INVITE.
\<close>

definition addressed :: "bool \<Rightarrow> 'a VoIpSession_scheme \<Rightarrow> bool" where
  "addressed multiple s \<longleftrightarrow> 0 \<notin> set (vs_mediaAddresses s) \<and>
     (vs_mediaAddresses s \<noteq> [] \<longrightarrow> vs_ipAndPort s = last (vs_mediaAddresses s)) \<and>
     (\<not> multiple \<longrightarrow> length (vs_mediaAddresses s) \<le> 1)"

definition called :: "'a VoIpSession_scheme \<Rightarrow> bool" where
  "called s \<longleftrightarrow> (vs_protocol s = ProtSip \<longrightarrow> vs_invite s \<noteq> None) \<and>
     (vs_callId s = [] \<or> skinny_id (vs_callId s) \<or> vs_invite s \<noteq> None) \<and> length (os_payloadTypeMap s) = 32"

definition maps_ok :: "VoIpSessions \<Rightarrow> bool" where
  "maps_ok R \<longleftrightarrow> sorted_wrt (<) (map fst (rg_byIpAndPort R)) \<and> sorted_wrt str_less (map fst (rg_byCallId R)) \<and>
     (\<forall>k a. map_of (rg_byIpAndPort R) k = Some a \<longrightarrow>
        a < length (rg_sessions R) \<and> k \<in> set (vs_mediaAddresses (session_at R a))) \<and>
     (\<forall>c a. map_of (rg_byCallId R) c = Some a \<longrightarrow>
        a < length (rg_sessions R) \<and> (c \<noteq> [] \<longrightarrow> vs_callId (session_at R a) = c))"

text \<open>Session \<open>a\<close> may be one that is being set up, if it is in \<open>X\<close>.\<close>

definition reg :: "bool \<Rightarrow> nat set \<Rightarrow> VoIpSessions \<Rightarrow> bool" where
  "reg multiple X R \<longleftrightarrow> maps_ok R \<and>
     (\<forall>a < length (rg_sessions R). addressed multiple (session_at R a) \<and> (a \<in> X \<or> called (session_at R a))) \<and>
     (\<forall>i. length (si_payloadTypeMap (rg_invites R i)) = 32) \<and> length (rg_lastHoldRemoteParty R) = 128"

abbreviation reg_ok :: "bool \<Rightarrow> VoIpSessions \<Rightarrow> bool" where
  "reg_ok multiple \<equiv> reg multiple {}"

lemma regD:
  assumes "reg m X R"
  shows "maps_ok R" "a < length (rg_sessions R) \<Longrightarrow> addressed m (session_at R a)"
    "a < length (rg_sessions R) \<Longrightarrow> a \<notin> X \<Longrightarrow> called (session_at R a)"
    "map_of (rg_byIpAndPort R) k = Some a \<Longrightarrow> a < length (rg_sessions R)"
    "map_of (rg_byCallId R) c = Some a \<Longrightarrow> a < length (rg_sessions R)"
  using assms by (auto simp: reg_def maps_ok_def)

lemma nth_update: "(xs[a := t]) ! b = (if a = b \<and> a < length xs then t else xs ! b)"
  by (cases "a < length xs") (simp_all add: nth_list_update list_update_beyond)

text \<open>The registry with a session changed, as far as the maps are concerned.\<close>

lemma maps_ok_update:
  assumes "maps_ok R" "vs_mediaAddresses t = vs_mediaAddresses (session_at R a)"
    "vs_callId t = vs_callId (session_at R a)"
    "rg_byIpAndPort R' = rg_byIpAndPort R" "rg_byCallId R' = rg_byCallId R" "rg_sessions R' = (rg_sessions R)[a := t]"
  shows "maps_ok R'"
  using assms unfolding maps_ok_def by (auto simp: nth_update)

lemma reg_update:
  assumes "reg m X R" "addressed m t" "b \<in> Y \<or> called t" "X \<subseteq> insert b Y"
    "vs_mediaAddresses t = vs_mediaAddresses (session_at R b)" "vs_callId t = vs_callId (session_at R b)"
    "rg_byIpAndPort R' = rg_byIpAndPort R" "rg_byCallId R' = rg_byCallId R" "rg_sessions R' = (rg_sessions R)[b := t]"
    "\<forall>i. length (si_payloadTypeMap (rg_invites R' i)) = 32" "rg_lastHoldRemoteParty R' = rg_lastHoldRemoteParty R"
  shows "reg m Y R'"
proof -
  have "maps_ok R'" using maps_ok_update [OF _ assms(5,6,7,8,9)] assms(1) by (simp add: reg_def)
  moreover have "addressed m (session_at R' a) \<and> (a \<in> Y \<or> called (session_at R' a))" if "a < length (rg_sessions R')" for a
    using that assms(1,2,3,4) by (cases "a = b") (auto simp: assms(9) reg_def)
  ultimately show ?thesis using assms(1,10,11) by (simp add: reg_def)
qed

section \<open>Steps that keep the registry in order\<close>

lemma load_simps [simp]:
  "vs_mediaAddresses (load R s) = vs_mediaAddresses s" "vs_ipAndPort (load R s) = vs_ipAndPort s"
  "vs_callId (load R s) = vs_callId s" "vs_protocol (load R s) = vs_protocol s" "vs_invite (load R s) = vs_invite s"
  "os_payloadTypeMap (load R s) = os_payloadTypeMap s" "sr_invites (load R s) = rg_invites R"
  "sr_out (load R s) = rg_out R" "os_started (load R s) = os_started s" "os_stopped (load R s) = os_stopped s"
  "os_trackingId (load R s) = os_trackingId s" "vs_numRtpPackets (load R s) = vs_numRtpPackets s"
  "sr_endpoints (load R s) = rg_endpoints R" "kept (load R s) = kept s"
  by (simp_all add: load_def VoIpSession.defs session_run.defs kept_def)

lemma truncate_simps [simp]:
  "vs_mediaAddresses (VoIpSession.truncate s) = vs_mediaAddresses s"
  "vs_ipAndPort (VoIpSession.truncate s) = vs_ipAndPort s" "vs_callId (VoIpSession.truncate s) = vs_callId s"
  "vs_protocol (VoIpSession.truncate s) = vs_protocol s" "vs_invite (VoIpSession.truncate s) = vs_invite s"
  "os_payloadTypeMap (VoIpSession.truncate s) = os_payloadTypeMap s" "os_trackingId (VoIpSession.truncate s) = os_trackingId s"
  "os_started (VoIpSession.truncate s) = os_started s" "os_stopped (VoIpSession.truncate s) = os_stopped s"
  "vs_numRtpPackets (VoIpSession.truncate s) = vs_numRtpPackets s" "kept (VoIpSession.truncate s) = kept s"
  by (simp_all add: VoIpSession.defs kept_def)

lemma store_simps [simp]:
  "rg_sessions (store a s R) = (rg_sessions R)[a := VoIpSession.truncate s]"
  "rg_byIpAndPort (store a s R) = rg_byIpAndPort R" "rg_byCallId (store a s R) = rg_byCallId R"
  "rg_invites (store a s R) = sr_invites s" "rg_lastHoldRemoteParty (store a s R) = rg_lastHoldRemoteParty R"
  "rg_out (store a s R) = sr_out s" "rg_sipReferList (store a s R) = rg_sipReferList R"
  by (simp_all add: store_def)

lemma set_session_simps [simp]:
  "rg_sessions (set_session a f R) = (rg_sessions R)[a := f (session_at R a)]"
  "rg_byIpAndPort (set_session a f R) = rg_byIpAndPort R" "rg_byCallId (set_session a f R) = rg_byCallId R"
  "rg_invites (set_session a f R) = rg_invites R" "rg_out (set_session a f R) = rg_out R"
  "rg_lastHoldRemoteParty (set_session a f R) = rg_lastHoldRemoteParty R"
  by (simp_all add: set_session_def)

lemma addressed_kept: "kept t = kept s \<Longrightarrow> addressed m s \<Longrightarrow> addressed m t"
  by (simp add: addressed_def kept_def)

lemma called_truncate [simp]: "called (VoIpSession.truncate s) = called s"
  by (simp add: called_def)

lemma called_load [simp]: "called (load R s) = called s"
  by (simp add: called_def)

lemma called_steady: "steady s t \<Longrightarrow> called s \<Longrightarrow> called t"
  by (simp add: steady_def reports_def kept_def called_def)

lemma session_ok_load: "reg m X R \<Longrightarrow> called s \<Longrightarrow> session_ok (load R s)"
  by (simp add: session_ok_def reg_def called_def)

lemma reg_store:
  assumes "reg m X R" "a < length (rg_sessions R)" "kept t = kept (session_at R a)" "a \<in> Y \<or> called t" "X \<subseteq> insert a Y"
    "\<forall>i. length (si_payloadTypeMap (sr_invites t i)) = 32"
  shows "reg m Y (store a t R)"
proof (rule reg_update [OF assms(1) _ _ assms(5), of "VoIpSession.truncate t"])
  show "addressed m (VoIpSession.truncate t)"
    by (rule addressed_kept [OF _ regD(2) [OF assms(1,2)]]) (simp add: assms(3))
qed (use assms in \<open>simp_all add: kept_def\<close>)

text \<open>Besides, the store has at least \<open>n\<close> sessions.\<close>

definition grown :: "bool \<Rightarrow> nat set \<Rightarrow> nat \<Rightarrow> VoIpSessions \<Rightarrow> bool" where
  "grown m X n R \<longleftrightarrow> reg m X R \<and> n \<le> length (rg_sessions R)"

named_theorems orderly

lemma grownD: "grown m X n R \<Longrightarrow> reg m X R" "grown m X n R \<Longrightarrow> a < n \<Longrightarrow> a < length (rg_sessions R)"
  by (auto simp: grown_def)

lemma grown_less: "grown m X n R \<Longrightarrow> k \<le> n \<Longrightarrow> grown m X k R"
  by (simp add: grown_def)

lemma grown_store_steady [orderly]:
  assumes "grown m {} n R" "a < n" "steady (load R (session_at R a)) t"
  shows "grown m {} n (store a t R)"
proof -
  note R = grownD(1) [OF assms(1)] grownD(2) [OF assms(1,2)]
  have "reg m {} (store a t R)"
  proof (rule reg_store [OF R])
    show "kept t = kept (session_at R a)" using assms(3) by (simp add: steady_def reports_def)
    show "a \<in> {} \<or> called t" using called_steady [OF assms(3)] regD(3) [OF R] by simp
    show "\<forall>i. length (si_payloadTypeMap (sr_invites t i)) = 32" using R(1) assms(3) by (simp add: steady_def reg_def)
  qed simp
  with assms(1) show ?thesis by (simp add: grown_def)
qed

lemma grown_on_session [orderly]:
  assumes "grown m {} n R" "a < n" "\<And>s. steady s (f s)"
  shows "grown m {} n (on_session a f R)"
  unfolding on_session_def by (rule grown_store_steady [OF assms])

text \<open>Fields the registry does not rely on.\<close>

definition core :: "VoIpSession \<Rightarrow> u64 list \<times> u64 \<times> string \<times> ProtocolEnum \<times> nat option \<times> u8 list" where
  "core s = (vs_mediaAddresses s, vs_ipAndPort s, vs_callId s, vs_protocol s, vs_invite s, os_payloadTypeMap s)"

lemma grown_set [orderly]:
  assumes "grown m X n R" "a < n" "vs_mediaAddresses (f (session_at R a)) = vs_mediaAddresses (session_at R a)"
    "vs_ipAndPort (f (session_at R a)) = vs_ipAndPort (session_at R a)"
    "vs_callId (f (session_at R a)) = vs_callId (session_at R a)"
    "a \<in> X \<or> called (f (session_at R a))"
  shows "grown m X n (set_session a f R)"
proof -
  note R = grownD(1) [OF assms(1)] grownD(2) [OF assms(1,2)]
  have "reg m X (set_session a f R)"
  proof (rule reg_update [OF R(1)])
    show "addressed m (f (session_at R a))" using regD(2) [OF R] assms(3,4) by (simp add: addressed_def)
    show "a \<in> X \<or> called (f (session_at R a))" by (rule assms(6))
  qed (use R(1) assms(3,5) in \<open>auto simp: reg_def\<close>)
  with assms(1) show ?thesis by (simp add: grown_def)
qed

lemma grown_set_core:
  assumes "grown m X n R" "a < n" "core (f (session_at R a)) = core (session_at R a)"
  shows "grown m X n (set_session a f R)"
  using assms regD(3) [OF grownD(1) [OF assms(1)] grownD(2) [OF assms(1,2)]]
  by (intro grown_set) (auto simp: core_def called_def)

text \<open>Fields of the registry that neither the maps nor the sessions depend on.\<close>

lemma grown_fields [orderly]:
  assumes "grown m X n R"
  shows "grown m X n (rg_endpoints_update f1 R)" "grown m X n (rg_localPartyMap_update f2 R)"
    "grown m X n (rg_skinnyGlobalNumbers_update f3 R)" "grown m X n (rg_sipSubscribeMap_update f4 R)"
    "grown m X n (rg_sipReferList_update f5 R)" "grown m X n (rg_alphaCounter_update f6 R)"
    "grown m X n (rg_lastHoldRemoteParty_update (\<lambda>xs. xs[k := v]) R)"
  using assms by (simp_all add: grown_def reg_def maps_ok_def)

lemma grown_hold [orderly]:
  "grown m X n R \<Longrightarrow> length xs = 128 \<Longrightarrow> grown m X n (R\<lparr>rg_lastHoldRemoteParty := xs\<rparr>)"
  by (simp add: grown_def reg_def maps_ok_def)

lemma grown_erase [orderly]:
  assumes "grown m X n R"
  shows "grown m X n (R\<lparr>rg_byIpAndPort := omap_erase k (rg_byIpAndPort R)\<rparr>)"
    "grown m X n (R\<lparr>rg_byCallId := omap_erase c (rg_byCallId R)\<rparr>)"
  using assms by (auto simp: grown_def reg_def maps_ok_def map_of_omap_erase omap_erase_sorted)

lemma grown_remove [orderly]: "grown m X n R \<Longrightarrow> grown m X n (RemoveFromMediaAddressMap a k R)"
  by (simp add: RemoveFromMediaAddressMap_def orderly)

lemma grown_insert_media [orderly]:
  assumes "grown m X n R" "a < n" "k \<in> set (vs_mediaAddresses (session_at R a))"
  shows "grown m X n (insert_media k a R)"
proof -
  have sorted: "sorted_wrt (<) (map fst (rg_byIpAndPort R))"
    using assms(1) by (simp add: grown_def reg_def maps_ok_def)
  then show ?thesis using assms media.lookup_insert [OF sorted] media.sorted_insert [OF sorted]
    by (auto simp: insert_media_def grown_def reg_def maps_ok_def)
qed

lemma grown_insert_call [orderly]:
  assumes "grown m X n R" "a < n" "c \<noteq> [] \<Longrightarrow> vs_callId (session_at R a) = c"
  shows "grown m X n (insert_call c a R)"
proof -
  have sorted: "sorted_wrt str_less (map fst (rg_byCallId R))"
    using assms(1) by (simp add: grown_def reg_def maps_ok_def)
  then show ?thesis using assms calls.lookup_insert [OF sorted] calls.sorted_insert [OF sorted]
    by (auto simp: insert_call_def grown_def reg_def maps_ok_def)
qed

lemma new_session_props:
  "vs_mediaAddresses (VoIpSession_new e t j) = []" "vs_ipAndPort (VoIpSession_new e t j) = 0"
  "vs_callId (VoIpSession_new e t j) = []" "vs_protocol (VoIpSession_new e t j) = ProtUnkn"
  "vs_invite (VoIpSession_new e t j) = None" "length (os_payloadTypeMap (VoIpSession_new e t j)) = 32"
  "os_started (VoIpSession_new e t j) = False" "os_stopped (VoIpSession_new e t j) = False"
  "os_trackingId (VoIpSession_new e t j) = t" "os_capturePort (VoIpSession_new e t j) = []"
  "vs_numRtpPackets (VoIpSession_new e t j) = 0"
  by (simp_all add: VoIpSession_new_def OrkSession_new_def OrkSession.defs VoIpSession.defs Let_def)

lemma called_new: "called (VoIpSession_new e t j)" "addressed m (VoIpSession_new e t j)"
  by (simp_all add: called_def addressed_def new_session_props)

lemma grown_new:
  assumes "grown m X n R" "new_session e R = (a, R')"
  shows "n \<le> a" "grown m X (Suc a) R'" "a = length (rg_sessions R)"
    "session_at R' a = VoIpSession_new (se_env e) (fst (GetNext (rg_alphaCounter R))) (se_junk e)"
proof -
  have R': "a = length (rg_sessions R)" "R' = R\<lparr>rg_alphaCounter := snd (GetNext (rg_alphaCounter R)),
      rg_sessions := rg_sessions R @ [VoIpSession_new (se_env e) (fst (GetNext (rg_alphaCounter R))) (se_junk e)]\<rparr>"
    using assms(2) by (auto simp: new_session_def split: prod.splits)
  have "maps_ok R'" using assms(1) by (auto simp: R' grown_def reg_def maps_ok_def nth_append intro: less_SucI)
  then have "reg m X R'" using assms(1) called_new by (auto simp: R' grown_def reg_def nth_append less_Suc_eq)
  with assms(1) R' show "n \<le> a" "grown m X (Suc a) R'" "a = length (rg_sessions R)"
    "session_at R' a = VoIpSession_new (se_env e) (fst (GetNext (rg_alphaCounter R))) (se_junk e)"
    by (simp_all add: grown_def)
qed

section \<open>Stopping\<close>

lemma steady_tag_refers: "tag_refers c now f t rs s = (rs', s') \<Longrightarrow> steady u s \<Longrightarrow> steady u s'"
proof (induction c now f t rs s arbitrary: rs' s' rule: tag_refers.induct)
  case (2 c now f t r rs s)
  have "steady u (tag_transfer r s)" using 2(4) by (simp add: tag_transfer_def Let_def quiet)
  with 2 show ?case by (auto simp: Let_def split: if_splits prod.splits)
qed simp

lemma Tagging_grown:
  assumes "grown m {} n R" "a < n"
  shows "defined (\<lambda>R'. grown m {} n R' \<and> kept (session_at R' a) = kept (session_at R a) \<and>
    rg_byIpAndPort R' = rg_byIpAndPort R \<and> rg_byCallId R' = rg_byCallId R) (TaggingSipTransferCalls e a R)"
proof -
  have "called (session_at R a)" "a < length (rg_sessions R)"
    using assms regD(3) [OF grownD(1) [OF assms(1)]] grownD(2) [OF assms] by auto
  moreover have "grown m {} n (store a t R) \<and> kept (VoIpSession.truncate t) = kept (session_at R a)"
    if "tag_refers c now f u rs (load R (session_at R a)) = (rs', t)" for c now f u rs rs' t
  proof -
    from steady_tag_refers [OF that steady_refl] have t: "steady (load R (session_at R a)) t" .
    then show ?thesis using grown_store_steady [OF assms t] by (simp add: steady_def reports_def)
  qed
  ultimately show ?thesis unfolding TaggingSipTransferCalls_def Let_def
    using assms by (intro outcome_intros) (auto simp: called_def orderly)
qed

lemma fold_remove:
  "map_of (rg_byIpAndPort (fold (RemoveFromMediaAddressMap a) ks R)) k =
     (if k \<in> set ks \<and> k \<noteq> 0 \<and> map_of (rg_byIpAndPort R) k = Some a then None else map_of (rg_byIpAndPort R) k)"
  "rg_sessions (fold (RemoveFromMediaAddressMap a) ks R) = rg_sessions R"
  "rg_byCallId (fold (RemoveFromMediaAddressMap a) ks R) = rg_byCallId R"
  by (induction ks arbitrary: R) (auto simp: RemoveFromMediaAddressMap_def map_of_omap_erase)

lemma grown_fold_remove: "grown m X n R \<Longrightarrow> grown m X n (fold (RemoveFromMediaAddressMap a) ks R)"
  by (induction ks arbitrary: R) (auto intro: grown_remove)

text \<open>A session without any address in the map can lose its list of addresses.\<close>

lemma grown_clear:
  assumes "grown m X n R" "a < n" "\<forall>k. map_of (rg_byIpAndPort R) k \<noteq> Some a"
  shows "grown m X n (set_session a (vs_mediaAddresses_update (\<lambda>_. [])) R)"
  using assms unfolding grown_def reg_def maps_ok_def
  by (auto simp: nth_update addressed_def called_def)

lemma Stop_grown:
  assumes "grown m {} n R" "a < n"
  shows "defined (\<lambda>R'. grown m {} n R' \<and>
      map_of (rg_byIpAndPort R') =
        (\<lambda>k. if map_of (rg_byIpAndPort R) k = Some a then None else map_of (rg_byIpAndPort R) k) \<and>
      map_of (rg_byCallId R') = (if vs_callId (session_at R a) \<noteq> [] then (map_of (rg_byCallId R))(vs_callId (session_at R a) := None)
        else map_of (rg_byCallId R))) (Stop_session e a R)"
proof -
  have stop: "grown m {} n R' \<and> map_of (rg_byIpAndPort R') =
        (\<lambda>k. if map_of (rg_byIpAndPort R) k = Some a then None else map_of (rg_byIpAndPort R) k) \<and>
      map_of (rg_byCallId R') = (if vs_callId (session_at R a) \<noteq> [] then (map_of (rg_byCallId R))(vs_callId (session_at R a) := None)
        else map_of (rg_byCallId R))"
    if T: "grown m {} n T" "kept (session_at T a) = kept (session_at R a)"
      "rg_byIpAndPort T = rg_byIpAndPort R" "rg_byCallId T = rg_byCallId R"
      and U: "U = on_session a (Session_Stop e) T"
      and V: "V = (if vs_callId (session_at U a) \<noteq> []
               then U\<lparr>rg_byCallId := omap_erase (vs_callId (session_at U a)) (rg_byCallId U)\<rparr> else U)"
      and W: "W = fold (RemoveFromMediaAddressMap a) (vs_mediaAddresses (session_at V a)) V"
      and R': "R' = set_session a (vs_mediaAddresses_update (\<lambda>_. [])) W" for T U V W R'
  proof -
    have a: "a < length (rg_sessions T)" by (rule grownD(2) [OF T(1) assms(2)])
    have gU: "grown m {} n U" unfolding U by (rule grown_on_session [OF T(1) assms(2) steady_stop])
    have "kept (Session_Stop e (load T (session_at T a))) = kept (load T (session_at T a))"
      using steady_stop [of "load T (session_at T a)" e] by (simp add: steady_def reports_def)
    then have kU: "kept (session_at U a) = kept (session_at R a)" using a T(2) by (simp add: U on_session_def)
    have gV: "grown m {} n V" using gU by (simp add: V orderly)
    have same: "rg_byIpAndPort V = rg_byIpAndPort R" "rg_sessions V = rg_sessions U"
      using T(3) by (simp_all add: V U on_session_def)
    have owned: "k \<in> set (vs_mediaAddresses (session_at R a)) \<and> k \<noteq> 0" if "map_of (rg_byIpAndPort R) k = Some a" for k
      using that assms grownD(1) [OF assms(1)] by (force simp: reg_def maps_ok_def addressed_def)
    have media: "map_of (rg_byIpAndPort W) =
        (\<lambda>k. if map_of (rg_byIpAndPort R) k = Some a then None else map_of (rg_byIpAndPort R) k)"
      using owned kU by (auto simp: W fold_remove same kept_def fun_eq_iff)
    have gW: "grown m {} n W" unfolding W by (rule grown_fold_remove [OF gV])
    have "grown m {} n R'" unfolding R' using media by (intro grown_clear [OF gW assms(2)]) simp
    moreover have "map_of (rg_byCallId W) = (if vs_callId (session_at R a) \<noteq> [] then (map_of (rg_byCallId R))(vs_callId (session_at R a) := None)
        else map_of (rg_byCallId R))"
      using kU T(4) by (simp add: W fold_remove V U on_session_def map_of_omap_erase kept_def)
    ultimately show ?thesis using media by (simp add: R')
  qed
  show ?thesis unfolding Stop_session_def Let_def
    by (rule defined_intros(3) [OF Tagging_grown [OF assms]], rule defined_intros(1), elim conjE,
        rule stop [OF _ _ _ _ refl refl refl refl])
qed

section \<open>Addresses\<close>

lemma grown_make_room:
  assumes "grown m {} n R" "a < n"
  shows "defined (\<lambda>(change, R'). grown m {} n R' \<and> (change \<longrightarrow> map_of (rg_byIpAndPort R') k = None)) (make_room e a k R)"
proof -
  have old: "b < length (rg_sessions R) \<and> k \<noteq> 0" if "map_of (rg_byIpAndPort R) k = Some b" for b
    using that grownD(1) [OF assms(1)] by (force simp: reg_def maps_ok_def addressed_def)
  have stop: "defined (\<lambda>R'. grown m {} n R' \<and> map_of (rg_byIpAndPort R') k = None) (Stop_session e b R)"
    if b: "map_of (rg_byIpAndPort R) k = Some b" for b
  proof -
    have "grown m {} (length (rg_sessions R)) R" using assms(1) by (simp add: grown_def)
    from Stop_grown [OF this, of b e] old [OF b] show ?thesis
      by (auto simp: b grown_def elim!: outcome_mono(2) intro: le_trans [OF assms(1) [unfolded grown_def, THEN conjunct2]])
  qed
  show ?thesis
    unfolding make_room_def using assms old
    by (intro outcome_intros defined_intros(3) [OF stop])
      (auto simp: orderly RemoveFromMediaAddressMap_def map_of_omap_erase)
qed

lemma grown_map_address:
  assumes "grown m {} n R" "a < n" "k \<noteq> 0" "vc_rtpAllowMultipleMappings c = m"
  shows "grown m {} n (map_address c a ip k R)"
proof -
  note R = grownD(1) [OF assms(1)] grownD(2) [OF assms(1,2)]
  define T where "T = (if \<not> m then set_session a (vs_mediaAddresses_update (\<lambda>_. []))
       (RemoveFromMediaAddressMap a (vs_ipAndPort (session_at R a)) R) else R)"
  have T: "grown m {} n T" "\<not> m \<longrightarrow> vs_mediaAddresses (session_at T a) = []"
  proof -
    let ?P = "RemoveFromMediaAddressMap a (vs_ipAndPort (session_at R a)) R"
    have none: "\<forall>k. map_of (rg_byIpAndPort ?P) k \<noteq> Some a" if "\<not> m"
    proof (intro allI notI)
      fix k
      assume k: "map_of (rg_byIpAndPort ?P) k = Some a"
      then have "map_of (rg_byIpAndPort R) k = Some a"
        by (auto simp: RemoveFromMediaAddressMap_def map_of_omap_erase split: if_splits)
      then have "k \<in> set (vs_mediaAddresses (session_at R a))" "addressed m (session_at R a)"
        using R by (auto simp: reg_def maps_ok_def)
      with that have "k = vs_ipAndPort (session_at R a)" "k \<noteq> 0"
        by (cases "vs_mediaAddresses (session_at R a)"; force simp: addressed_def)+
      with k show False by (auto simp: RemoveFromMediaAddressMap_def map_of_omap_erase split: if_splits)
    qed
    show "grown m {} n T"
      using assms(1,2) none by (auto simp: T_def intro!: grown_clear grown_remove)
    show "\<not> m \<longrightarrow> vs_mediaAddresses (session_at T a) = []"
      using R by (simp add: T_def RemoveFromMediaAddressMap_def)
  qed
  let ?f = "\<lambda>s. s\<lparr>vs_mediaAddresses := vs_mediaAddresses s @ [k], vs_ipAndPort := k, vs_rtpIp := ip\<rparr>"
  have "grown m {} n (set_session a ?f T)"
    using T assms(2,3) unfolding grown_def reg_def maps_ok_def
    by (auto simp: nth_update addressed_def called_def)
  moreover have "k \<in> set (vs_mediaAddresses (session_at (set_session a ?f T) a))"
    using grownD(2) [OF T(1) assms(2)] by simp
  ultimately show ?thesis
    unfolding map_address_def Let_def T_def [symmetric] assms(4)
    by (intro grown_insert_media assms(2)) (simp_all add: T_def)
qed

lemma crafted_not_zero: "port \<noteq> 0 \<Longrightarrow> Craft64bitMediaAddress c ip port \<noteq> 0"
proof -
  assume port: "port \<noteq> 0"
  have "ucast (ucast port :: u64) = port" by (rule bit_word_eqI) (simp add: bit_simps)
  then have "(ucast port :: u64) \<noteq> 0" using port by auto
  moreover have "x OR y = 0 \<longleftrightarrow> x = 0 \<and> y = 0" for x y :: u64 by (auto simp: or_eq_0_iff)
  ultimately show ?thesis by (simp add: Craft64bitMediaAddress_def)
qed

lemma grown_SetMediaAddress:
  assumes "grown m {} n R" "a < n" "vc_rtpAllowMultipleMappings (ve_config e) = m"
  shows "defined (grown m {} n) (SetMediaAddress e a ip port R)"
proof (cases "media_address_allowed (ve_config e) ip port")
  case True
  then have "Craft64bitMediaAddress (ve_config e) ip port \<noteq> 0"
    using crafted_not_zero by (simp add: media_address_allowed_def)
  then have "defined (grown m {} n) (and_then (make_room e a (Craft64bitMediaAddress (ve_config e) ip port) R)
      (\<lambda>(change, R1). Done (if change then map_address (ve_config e) a ip
        (Craft64bitMediaAddress (ve_config e) ip port) R1 else R1)))"
    using assms by (intro defined_intros(3) [OF grown_make_room [OF assms(1,2)]])
      (auto simp: grown_map_address intro!: outcome_intros)
  with True show ?thesis by (simp add: SetMediaAddress_def Let_def)
next
  case False
  with assms(1) show ?thesis by (simp add: SetMediaAddress_def Let_def defined_intros)
qed

text \<open>None of this changes the call identifier of any session.\<close>

definition call_ids :: "VoIpSessions \<Rightarrow> string list" where
  "call_ids R = map vs_callId (rg_sessions R)"

lemma call_ids_store [simp]: "kept t = kept (session_at R a) \<Longrightarrow> call_ids (store a t R) = call_ids R"
  by (cases "a < length (rg_sessions R)") (simp_all add: call_ids_def map_update kept_def list_update_beyond list_update_same_conv)

lemma call_ids_set: "vs_callId (f (session_at R a)) = vs_callId (session_at R a) \<Longrightarrow> call_ids (set_session a f R) = call_ids R"
  by (cases "a < length (rg_sessions R)") (simp_all add: call_ids_def map_update list_update_beyond list_update_same_conv)

lemma call_ids_fields [simp]:
  "call_ids (rg_sipReferList_update f R) = call_ids R" "call_ids (rg_byCallId_update g R) = call_ids R"
  "call_ids (rg_byIpAndPort_update h R) = call_ids R" "call_ids (RemoveFromMediaAddressMap a k R) = call_ids R"
  "call_ids (fold (RemoveFromMediaAddressMap a) ks R) = call_ids R" "call_ids (insert_media k a R) = call_ids R"
  by (simp_all add: call_ids_def fold_remove RemoveFromMediaAddressMap_def insert_media_def)

lemma Tagging_ids: "yields (\<lambda>R'. call_ids R' = call_ids R) (TaggingSipTransferCalls e a R)"
proof -
  have "kept t = kept (session_at R a)"
    if "tag_refers c now f u rs (load R (session_at R a)) = (rs', t)" for c now f u rs rs' t
    using steady_tag_refers [OF that steady_refl] by (simp add: steady_def reports_def)
  then show ?thesis unfolding TaggingSipTransferCalls_def Let_def by (intro outcome_intros) simp_all
qed

lemma Stop_ids: "yields (\<lambda>R'. call_ids R' = call_ids R) (Stop_session e a R)"
proof -
  have stop: "kept (Session_Stop e (load T s)) = kept s" for T s
    using steady_stop [of "load T s" e] by (simp add: steady_def reports_def)
  show ?thesis unfolding Stop_session_def Let_def
    by (rule yields_intros(4) [OF Tagging_ids]) (auto intro!: yields_intros simp: call_ids_set on_session_def stop)
qed

lemma SetMediaAddress_ids: "yields (\<lambda>R'. call_ids R' = call_ids R) (SetMediaAddress e a ip port R)"
proof -
  have room: "yields (\<lambda>(b, R'). call_ids R' = call_ids R) (make_room e a k R)" for k
    unfolding make_room_def by (intro outcome_intros yields_intros(4) [OF Stop_ids]) (simp_all add: yields_intros)
  have map: "call_ids (map_address c a ip k T) = call_ids T" for c k T
    by (simp add: map_address_def Let_def call_ids_set)
  show ?thesis unfolding SetMediaAddress_def Let_def
    by (intro yields_intros(5) yields_intros(4) [OF room]) (auto intro!: yields_intros simp: map)
qed

lemma set_media_addresses_ids: "yields (\<lambda>R'. call_ids R' = call_ids R) (set_media_addresses e a ip sender port R)"
  unfolding set_media_addresses_def using SetMediaAddress_ids
  by (intro yields_intros(4) [OF SetMediaAddress_ids] yields_intros) (auto simp: yields_def)

section \<open>Packets\<close>

text \<open>A session changes at most the payload type of a packet.\<close>

definition same_packet :: "RtpPacketInfo \<Rightarrow> RtpPacketInfo \<Rightarrow> bool" where
  "same_packet p p' \<longleftrightarrow> p' = p \<or> p' = p\<lparr>rp_payloadType := word_of_int pt_SPEEX\<rparr>"

lemma same_packet_refl [simp, intro]: "same_packet p p"
  by (simp add: same_packet_def)

lemma same_packet_trans: "same_packet p q \<Longrightarrow> same_packet q r \<Longrightarrow> same_packet p r"
  by (auto simp: same_packet_def)

lemma same_packet_ok: "same_packet p q \<Longrightarrow> packet_ok p \<Longrightarrow> packet_ok q"
  by (auto simp: same_packet_def packet_ok_def pt_SPEEX_def)

lemma same_packet_ends: "same_packet p q \<Longrightarrow> rp_sourceIp q = rp_sourceIp p \<and> rp_destIp q = rp_destIp p \<and>
    rp_sourcePort q = rp_sourcePort p \<and> rp_destPort q = rp_destPort p"
  by (auto simp: same_packet_def)

lemma yields_any: "yields (\<lambda>_. True) r"
  by (simp add: yields_def)

lemma take_packet_same: "yields (\<lambda>(b, p', t). same_packet p p') (take_packet e p ch s)"
proof -
  have speex: "same_packet p (if b then p\<lparr>rp_payloadType := word_of_int pt_SPEEX\<rparr> else p)" for b
    by (simp add: same_packet_def)
  have "yields (\<lambda>(p', t). same_packet p p') (send_audio e p n t)" for n t
    unfolding send_audio_def Let_def
    by (rule yields_intros(4) [OF yields_any], rule yields_intros(4) [OF yields_any], rule yields_intros(1),
      simp only: prod.case, rule speex)
  then have send: "yields (\<lambda>(b, p', t). same_packet p p') (and_then (send_audio e p n t) (\<lambda>(p1, s4). Done (True, p1, s4)))"
    for n t by (rule yields_intros(4)) (auto intro!: yields_intros)
  have rest: "yields (\<lambda>(b, p', t). same_packet p p')
      (if os_started w then and_then (send_audio e p n w) (\<lambda>(p1, s4). Done (True, p1, s4)) else Done (True, p, w))"
    for n w by (simp add: send yields_intros)
  show ?thesis unfolding take_packet_def Let_def
    by (rule yields_intros(4) [OF yields_any], rule outcome_prod(1), rule yields_intros(4) [OF yields_any], rule rest)
qed

lemma AddRtpPacket_same: "yields (\<lambda>(b, p', t). same_packet p p') (AddRtpPacket e p s)"
proof -
  let ?Q = "yields (\<lambda>(b, p', t). same_packet p p')"
  have "?Q (case v of Dismiss \<Rightarrow> Done (True, p, t) | Broken \<Rightarrow> Done (False, p, t) | Take ch \<Rightarrow> take_packet e p ch t)" for v t
    by (cases v) (simp_all add: yields_intros take_packet_same)
  then have rec: "?Q (record_packet e p t)" for t
    unfolding record_packet_def by (intro yields_intros(4) [OF yields_any] outcome_prod) simp
  then show ?thesis
    unfolding AddRtpPacket_def Let_def
    by (intro yields_intros(4) [OF yields_any] outcome_intros) (simp_all add: yields_intros)
qed

lemma grown_AddRtpPacket:
  assumes "grown m {} n R" "a < n" "packet_ok p"
  shows "defined (\<lambda>(b, p', t). grown m {} n (store a t R) \<and> packet_ok p' \<and> same_packet p p')
    (AddRtpPacket e p (load R (session_at R a)))"
proof -
  have "called (session_at R a)" using regD(3) [OF grownD(1) [OF assms(1)] grownD(2) [OF assms(1,2)]] by simp
  with session_ok_load [OF grownD(1) [OF assms(1)]] have ok: "session_ok (load R (session_at R a))" .
  from defined_AddRtpPacket [OF ok assms(3), of e] AddRtpPacket_same [of p e "load R (session_at R a)"] show ?thesis
    using grown_store_steady [OF assms(1,2)] same_packet_ok [OF _ assms(3)]
    by (cases "AddRtpPacket e p (load R (session_at R a))") (auto simp: defined_def yields_def)
qed

lemma grown_Stop: "grown m {} n R \<Longrightarrow> a < n \<Longrightarrow> defined (grown m {} n) (Stop_session e a R)"
  by (rule outcome_mono(2) [OF Stop_grown]) blast+

lemma grown_Stop_found:
  assumes "grown m {} n R" "a < length (rg_sessions R)"
  shows "defined (grown m {} n) (Stop_session e a R)"
proof -
  have "grown m {} (length (rg_sessions R)) R" using assms(1) by (simp add: grown_def)
  from grown_Stop [OF this assms(2)] show ?thesis
    by (rule outcome_mono(2)) (use assms(1) in \<open>auto simp: grown_def\<close>)
qed

text \<open>Addresses found in the maps are those of sessions.\<close>

lemma grown_found:
  assumes "grown m X n R"
  shows "map_of (rg_byIpAndPort R) k = Some a \<Longrightarrow> a < length (rg_sessions R)"
    "map_of (rg_byCallId R) c = Some a \<Longrightarrow> a < length (rg_sessions R)"
    "a \<in> set (map snd (rg_byIpAndPort R)) \<Longrightarrow> a < length (rg_sessions R)"
    "a \<in> set (map snd (rg_byCallId R)) \<Longrightarrow> a < length (rg_sessions R)"
  using assms media.value_found [of "rg_byIpAndPort R" a] calls.value_found [of "rg_byCallId R" a]
  by (auto simp: grown_def reg_def maps_ok_def)

text \<open>A session that exists, in a store of at least \<open>n\<close>.\<close>

lemma grown_at:
  assumes "grown m {} n R" "a < length (rg_sessions R)" "\<And>k. grown m {} k R \<Longrightarrow> a < k \<Longrightarrow> n \<le> k \<Longrightarrow> defined (grown m {} k) r"
  shows "defined (grown m {} n) r"
proof -
  have "grown m {} (length (rg_sessions R)) R" "n \<le> length (rg_sessions R)" using assms(1) by (auto simp: grown_def)
  with assms(2,3) have "defined (grown m {} (length (rg_sessions R))) r" by blast
  then show ?thesis by (rule outcome_mono(2)) (use assms(1) in \<open>auto simp: grown_def\<close>)
qed

lemma grown_at_pure:
  assumes "grown m {} n R" "a < length (rg_sessions R)" "\<And>k. grown m {} k R \<Longrightarrow> a < k \<Longrightarrow> n \<le> k \<Longrightarrow> grown m {} k R'"
  shows "grown m {} n R'"
  using grown_at [OF assms(1,2), of "Done R'"] assms(3) by (simp add: defined_def yields_def)

lemma grown_give_packet:
  assumes "grown m {} n R" "a < n" "packet_ok p"
  shows "defined (\<lambda>(b, p', R'). grown m {} n R' \<and> packet_ok p' \<and> same_packet p p') (give_packet e p a R)"
proof -
  have stop: "defined (\<lambda>(b, p', R'). grown m {} n R' \<and> packet_ok p' \<and> same_packet p p')
      (and_then (Stop_session e a T) (\<lambda>R1. Done (False, q, R1)))"
    if "grown m {} n T" "packet_ok q" "same_packet p q" for T q
    by (rule defined_intros(3) [OF grown_Stop [OF that(1) assms(2)]]) (simp add: defined_intros that)
  show ?thesis unfolding give_packet_def
    by (rule defined_intros(3) [OF grown_AddRtpPacket [OF assms]]) (auto simp: defined_intros stop)
qed

lemma grown_give_to:
  assumes "grown m {} n R" "packet_ok p" "\<And>a. found = Some a \<Longrightarrow> a < length (rg_sessions R)"
  shows "defined (\<lambda>(b, p', R'). grown m {} n R' \<and> packet_ok p' \<and> same_packet p p') (give_to e p found R)"
proof (cases found)
  case (Some a)
  have "grown m {} (length (rg_sessions R)) R" using assms(1) by (simp add: grown_def)
  from grown_give_packet [OF this assms(3) [OF Some] assms(2), of e] show ?thesis
    by (simp add: give_to_def Some) (erule outcome_mono(2), use assms(1) in \<open>auto simp: grown_def\<close>)
qed (simp add: give_to_def defined_intros assms)

lemma grown_merge:
  assumes "grown m {} n R" "a1 < n" "a2 < n"
  shows "defined (grown m {} n) (merge_sessions e p a1 a2 R)"
  unfolding merge_sessions_def Let_def take_over_def
  using assms by (intro outcome_intros grown_Stop) (simp_all add: orderly)

abbreviation mappings_of :: "voip_env \<Rightarrow> bool" where
  "mappings_of e \<equiv> vc_rtpAllowMultipleMappings (ve_config e)"

lemma grown_track:
  assumes "grown m {} n R" "a < n" "mappings_of e = m"
  shows "defined (grown m {} n) (track_second e p b a R)" "defined (grown m {} n) (track_first e p a R)"
  unfolding track_second_def track_first_def Let_def
  by (intro outcome_intros grown_SetMediaAddress assms)+

lemma grown_skinny_search:
  assumes "grown m {} n R" "mappings_of e = m"
  shows "defined (\<lambda>(b, ep, R'). grown m {} n R') (SkinnyFindMostLikelySessionForRtp e p R)"
proof -
  have found: "defined (\<lambda>(b, ep, R'). grown m {} n R')
      (and_then (if src then SetMediaAddress e a ip port (set_session a f R) else SetMediaAddress e a ip2 port2 (set_session a f R))
        (\<lambda>R2. Done (True, x, R2)))"
    if a: "findByCallId c R = Some a" and f: "\<And>s. core (f s) = core s" for c a f src ip port ip2 port2 x
  proof (rule defined_intros(3))
    have "a < length (rg_sessions R)" using grown_found(2) [OF assms(1)] a by (simp add: findByCallId_def)
    then show "defined (grown m {} n) (if src then SetMediaAddress e a ip port (set_session a f R)
        else SetMediaAddress e a ip2 port2 (set_session a f R))"
      by (rule grown_at [OF assms(1)]) (auto intro!: grown_SetMediaAddress grown_set_core assms(2) f)
  qed (simp add: defined_intros)
  show ?thesis
    unfolding SkinnyFindMostLikelySessionForRtp_def Let_def
    by (intro outcome_intros found) (simp_all add: assms core_def)
qed

text \<open>A scan of sessions finds one of them.\<close>

lemma fold_finds:
  assumes "\<And>a x y. snd (f a (x, y)) = y \<or> snd (f a (x, y)) = Some a"
  shows "snd (fold f xs (x, y)) = y \<or> (\<exists>a \<in> set xs. snd (fold f xs (x, y)) = Some a)"
proof (induction xs arbitrary: x y)
  case (Cons b xs)
  obtain x' y' where "f b (x, y) = (x', y')" by fastforce
  with assms [of b x y] Cons [of x' y'] show ?case by auto
qed simp

lemma fold_picks:
  assumes "\<And>a y. f a y = y \<or> (f a y = Some a \<and> P a)"
  shows "fold f xs y = y \<or> (\<exists>a \<in> set xs. fold f xs y = Some a \<and> P a)"
proof (induction xs arbitrary: y)
  case (Cons b xs)
  from assms [of b y] Cons [of "f b y"] show ?case by auto
qed simp

lemma newest_behind_nat_found: "newest_behind_nat e p R = (t, Some a) \<Longrightarrow> a \<in> set (map snd (rg_byCallId R))"
  unfolding newest_behind_nat_def Let_def
  using fold_finds [of "\<lambda>a (latest, found). if (vs_endPointIp (session_at R a) = rp_sourceIp p \<or>
      vs_endPointIp (session_at R a) = rp_destIp p) \<and> latest \<le> vs_skinnyLastCallInfoTime (session_at R a) \<and>
      vs_ipAndPort (session_at R a) = 0 then (vs_skinnyLastCallInfoTime (session_at R a), Some a) else (latest, found)"
      "map snd (rg_byCallId R)" "ve_nowUsec e" None]
  by (auto split: if_splits)

lemma grown_nat_search:
  assumes "grown m {} n R" "mappings_of e = m"
  shows "defined (\<lambda>(b, R'). grown m {} n R') (SkinnyFindMostLikelySessionForRtpBehindNat e p R)"
proof (cases "newest_behind_nat e p R")
  case (Pair t found)
  show ?thesis
  proof (cases found)
    case (Some a)
    have "a < length (rg_sessions R)"
      using grown_found(4) [OF assms(1)] newest_behind_nat_found Pair Some by blast
    then have "defined (grown m {} n) (SetMediaAddress e a ip port R)" for ip port
      by (rule grown_at [OF assms(1)]) (auto intro!: grown_SetMediaAddress assms(2))
    then have "defined (\<lambda>(b, R'). grown m {} n R') (and_then (SetMediaAddress e a ip port R) (\<lambda>R1. Done (True, R1)))"
      for ip port by (rule defined_intros(3)) (simp add: defined_intros)
    then show ?thesis
      by (simp add: SkinnyFindMostLikelySessionForRtpBehindNat_def Pair Some defined_intros assms(1))
  qed (simp add: SkinnyFindMostLikelySessionForRtpBehindNat_def Pair defined_intros assms(1))
qed

lemma grown_search:
  assumes "grown m {} n R" "mappings_of e = m"
  shows "defined (\<lambda>(b, ep, R'). grown m {} n R') (search_skinny e p R)"
proof -
  have "defined (\<lambda>(b, ep, R'). grown m {} n R')
      (and_then (SkinnyFindMostLikelySessionForRtpBehindNat e p R) (\<lambda>(b, R1). Done (b, None, R1)))"
    by (rule defined_intros(3) [OF grown_nat_search [OF assms]]) (auto intro!: outcome_intros)
  then show ?thesis unfolding search_skinny_def Let_def
    by (intro defined_intros(4) grown_skinny_search assms) (simp_all add: defined_intros assms)
qed

lemma grown_raw_session:
  assumes "grown m {} n R" "packet_ok p" "mappings_of (se_env e) = m"
  shows "defined (grown m {} n) (raw_session e p endpoint R)"
proof -
  obtain a R1 where new: "new_session e R = (a, R1)" by fastforce
  note R1 = grown_new [OF assms(1) new]
  have a: "a < Suc a" by simp
  let ?f = "\<lambda>ip s. s\<lparr>vs_protocol := ProtRawRtp, vs_endPointIp := ip\<rparr>"
  have R2: "grown m {} (Suc a) (set_session a (?f ip) R1)" for ip
    by (intro grown_set [OF R1(2) a]) (simp_all add: R1(4) called_def new_session_props)
  have fin: "defined (grown m {} n) (and_then (AddRtpPacket (se_env e) p (load R3 (session_at R3 a))) (\<lambda>(taken, p', s).
      Done (case endpoint of None \<Rightarrow> store a s R3
        | Some ep \<Rightarrow> set_session a (f ep p') (store a s R3))))"
    if R3: "grown m {} (Suc a) R3" and f: "\<And>ep p' s. core (f ep p' s) = core s" for R3 f
  proof -
    have "grown m {} n (case endpoint of None \<Rightarrow> T | Some ep \<Rightarrow> set_session a (f ep p') T)"
      if T: "grown m {} (Suc a) T" for T p'
    proof (cases endpoint)
      case None
      with grown_less [OF T] R1(1) show ?thesis by simp
    next
      case (Some ep)
      have "grown m {} (Suc a) (set_session a (f ep p') T)" by (rule grown_set_core [OF T a]) (rule f)
      from grown_less [OF this] Some R1(1) show ?thesis by simp
    qed
    then show ?thesis
      by (intro defined_intros(3) [OF grown_AddRtpPacket [OF R3 a assms(2)]]) (auto intro!: defined_intros)
  qed
  show ?thesis unfolding raw_session_def new prod.case Let_def
    by (rule defined_intros(3) [OF grown_SetMediaAddress [OF R2 a assms(3)]], rule fin, assumption)
      (simp add: core_def)
qed

lemma packet_ok_sangoma: "packet_ok p \<Longrightarrow> packet_ok (sangoma_packet c p)"
  by (simp add: packet_ok_def sangoma_packet_def Let_def)

lemma give_to_found: "yields (\<lambda>(b, p', R'). b \<longrightarrow> found \<noteq> None) (give_to e p found R)"
  by (cases found) (simp_all add: give_to_def yields_def)

lemma grown_give_to_found:
  assumes "grown m {} n R" "packet_ok p" "\<And>a. found = Some a \<Longrightarrow> a < length (rg_sessions R)"
  shows "defined (\<lambda>(b, p', R'). grown m {} n R' \<and> packet_ok p' \<and> (b \<longrightarrow> found \<noteq> None)) (give_to e p found R)"
  using grown_give_to [OF assms] give_to_found [of found e p R]
  by (auto simp: defined_def yields_def)

text \<open>What follows when both lookups are done.\<close>

definition rtp_rest ::
    "sessions_env \<Rightarrow> nat option \<Rightarrow> nat option \<Rightarrow> bool \<Rightarrow> bool \<Rightarrow> RtpPacketInfo \<Rightarrow> VoIpSessions \<Rightarrow> VoIpSessions outcome" where
  "rtp_rest e found1 found2 n1 n2 p2 R2 =
     (let v = se_env e; c = se_config e
      in if n1 \<and> n2 then
           (if found1 \<noteq> found2 then merge_sessions v p2 (the found1) (the found2) R2 else Done R2)
         else if n1 \<or> n2 then
           let a = (if found2 \<noteq> None then the found2 else the found1)
           in and_then (track_second v p2 (found1 \<noteq> None) a R2) (track_first v p2 a)
         else if bc_lookBackRecording (vc_base c) \<or> vc_trackRawRtpSessionInNonLookBackMode c then
           and_then (search_skinny v p2 R2) (\<lambda>(done, endpoint, R3).
             if done then Done R3 else raw_session e p2 endpoint R3)
         else Done R2)"

lemma ReportRtpPacket_parts:
  "ReportRtpPacket e p0 R =
     (let v = se_env e; c = se_config e; p = sangoma_packet c p0;
          found1 = findByMediaAddress c (rp_sourceIp p) (rp_sourcePort p) R
      in and_then (give_to v p found1 R) (\<lambda>(n1, p1, R1).
         let found2 = findByMediaAddress c (rp_destIp p1) (rp_destPort p1) R1
         in and_then (give_to v p1 found2 R1) (\<lambda>(n2, p2, R2). rtp_rest e found1 found2 n1 n2 p2 R2)))"
  unfolding ReportRtpPacket_def rtp_rest_def Let_def by (rule refl)

lemma grown_rtp_rest:
  assumes "grown m {} n R" "packet_ok p" "mappings_of (se_env e) = m"
    "\<And>a. found1 = Some a \<Longrightarrow> a < n" "\<And>a. found2 = Some a \<Longrightarrow> a < n"
    "n1 \<Longrightarrow> found1 \<noteq> None" "n2 \<Longrightarrow> found2 \<noteq> None"
  shows "defined (grown m {} n) (rtp_rest e found1 found2 n1 n2 p R)"
proof -
  have track: "defined (grown m {} n) (and_then (track_second v p b a R) (track_first v p a))"
    if "mappings_of v = m" "a < n" for v a b
    by (rule defined_intros(3) [OF grown_track(1) [OF assms(1) that(2,1)] grown_track(2) [OF _ that(2,1)]])
  have new: "defined (grown m {} n) (and_then (search_skinny (se_env e) p R) (\<lambda>(done, endpoint, R3).
      if done then Done R3 else raw_session e p endpoint R3))"
    by (rule defined_intros(3) [OF grown_search [OF assms(1,3)]])
      (auto intro!: defined_intros grown_raw_session assms(2,3))
  show ?thesis unfolding rtp_rest_def Let_def using assms(4-7)
    by (intro defined_intros(4) grown_merge track new assms(1,3) defined_intros(1)) auto
qed

lemma grown_ReportRtpPacket:
  assumes "grown m {} n R" "packet_ok p0" "mappings_of (se_env e) = m"
  shows "defined (grown m {} n) (ReportRtpPacket e p0 R)"
proof -
  let ?v = "se_env e" and ?c = "se_config e" and ?p = "sangoma_packet (se_config e) p0"
  let ?f1 = "findByMediaAddress ?c (rp_sourceIp ?p) (rp_sourcePort ?p) R"
  let ?N = "length (rg_sessions R)"
  have g: "grown m {} ?N R" using assms(1) by (simp add: grown_def)
  have f1: "a < ?N" if "?f1 = Some a" for a
    using grown_found(1) [OF assms(1)] that by (simp add: findByMediaAddress_def)
  have after: "defined (grown m {} ?N) (and_then (give_to ?v p1 f2 R1) (\<lambda>(n2, p2, R2). rtp_rest e ?f1 f2 n1 n2 p2 R2))"
    if R1: "grown m {} ?N R1" "packet_ok p1" "n1 \<longrightarrow> ?f1 \<noteq> None"
      and f2: "f2 = findByMediaAddress ?c (rp_destIp p1) (rp_destPort p1) R1" for n1 p1 R1 f2
  proof -
    let ?M = "length (rg_sessions R1)"
    have g1: "grown m {} ?M R1" "?N \<le> ?M" using R1(1) by (simp_all add: grown_def)
    have f2': "a < ?M" if "f2 = Some a" for a
      using grown_found(1) [OF R1(1)] that by (simp add: f2 findByMediaAddress_def)
    have "defined (grown m {} ?M) (and_then (give_to ?v p1 f2 R1) (\<lambda>(n2, p2, R2). rtp_rest e ?f1 f2 n1 n2 p2 R2))"
      by (rule defined_intros(3) [OF grown_give_to_found [OF g1(1) R1(2) f2']], assumption)
        (use f1 g1(2) f2' R1(3) in \<open>auto intro!: grown_rtp_rest assms(3) dest: less_le_trans\<close>)
    then show ?thesis by (rule outcome_mono(2)) (rule grown_less [OF _ g1(2)])
  qed
  have "defined (grown m {} ?N) (ReportRtpPacket e p0 R)"
    unfolding ReportRtpPacket_parts Let_def
    by (rule defined_intros(3) [OF grown_give_to_found [OF g packet_ok_sangoma [OF assms(2)] f1]], assumption)
      (auto intro!: after)
  then show ?thesis by (rule outcome_mono(2)) (use assms(1) in \<open>auto simp: grown_def\<close>)
qed

section \<open>Messages\<close>

lemma invite_facts:
  assumes "length (os_payloadTypeMap s) = 32" "\<forall>i. length (si_payloadTypeMap (sr_invites s i)) = 32"
    and t: "t = Session_ReportSipInvite c a s"
  shows "vs_invite t \<noteq> None" "length (os_payloadTypeMap t) = 32" "\<forall>i. length (si_payloadTypeMap (sr_invites t i)) = 32"
proof -
  define inv where "inv u \<longleftrightarrow> vs_invite u \<noteq> None \<and> length (os_payloadTypeMap u) = 32 \<and>
     (\<forall>i. length (si_payloadTypeMap (sr_invites u i)) = 32)" for u :: session_run
  have gather: "inv u \<Longrightarrow> inv (on_demand_by_field c (gather_fields i u))" for i u
  proof -
    have "steady u (on_demand_by_field c (gather_fields i u))"
      unfolding on_demand_by_field_def gather_fields_def by (auto simp: quiet intro!: quiet split: option.split)
    then show "inv u \<Longrightarrow> ?thesis" by (simp add: inv_def steady_def)
  qed
  have "inv t" unfolding t Session_ReportSipInvite_def Let_def
    by (intro gather) (use assms(1,2) in
      \<open>auto simp: UpdateRtpPayloadMap_def inv_def update_sip_remote_party_def invite_to_itself_def emit_def Let_def\<close>)
  then show "vs_invite t \<noteq> None" "length (os_payloadTypeMap t) = 32" "\<forall>i. length (si_payloadTypeMap (sr_invites t i)) = 32"
    by (simp_all add: inv_def)
qed

lemma grown_invite:
  assumes "grown m X n R" "a < n" "X \<subseteq> {a}" "length (os_payloadTypeMap (session_at R a)) = 32"
  shows "grown m {} n (on_session a (Session_ReportSipInvite c i) R)"
proof -
  let ?s = "load R (session_at R a)"
  note R = grownD(1) [OF assms(1)] grownD(2) [OF assms(1,2)]
  have inv: "length (os_payloadTypeMap ?s) = 32" "\<forall>i. length (si_payloadTypeMap (sr_invites ?s i)) = 32"
    using assms(4) R(1) by (simp_all add: reg_def)
  note facts = invite_facts [OF inv refl, of c i]
  have "reg m {} (store a (Session_ReportSipInvite c i ?s) R)"
  proof (rule reg_store [OF R])
    show "kept (Session_ReportSipInvite c i ?s) = kept (session_at R a)"
      using reports_ReportSipInvite [of ?s c i] by (simp add: reports_def)
    show "a \<in> {} \<or> called (Session_ReportSipInvite c i ?s)" using facts by (simp add: called_def)
  qed (use assms(3) facts in auto)
  with assms(1) show ?thesis by (simp add: on_session_def grown_def)
qed

lemma payload_map: "grown m {} n R \<Longrightarrow> a < n \<Longrightarrow> length (os_payloadTypeMap (session_at R a)) = 32"
  using regD(3) [OF grownD(1), of m "{}" n R a] grownD(2) [of m "{}" n R a] by (simp add: called_def)

lemma grown_pickup [orderly]:
  "grown m X n R \<Longrightarrow> a < n \<Longrightarrow> grown m X n (TrySessionCallPickUp x a R)"
  unfolding TrySessionCallPickUp_def by (auto intro!: grown_set_core orderly simp: core_def)

lemma grown_reinvite [orderly]:
  assumes "grown m {} n R" "a < n" shows "grown m {} n (reinvite e i a R)"
proof -
  have "grown m {} n (if vc_sipCallPickUpSupport (ve_config e)
      then TrySessionCallPickUp (si_replacesId (rg_invites R i)) a R else R)" (is "grown _ _ _ ?T")
    using assms by (simp add: orderly)
  from grown_invite [OF this assms(2) _ payload_map [OF this assms(2)]] show ?thesis by (simp add: reinvite_def)
qed

lemma steady_hold: "steady s (GoOnHold c t s)" "steady s (GoOffHold c t s)"
  by (simp_all add: quiet)

lemma grown_invite_hold:
  assumes "grown m {} n R" "a < n" "mappings_of e = m"
  shows "defined (\<lambda>(b, R'). grown m {} n R') (invite_hold e i a R)"
proof -
  have set: "defined (\<lambda>(b, R'). grown m {} n R') (and_then (SetMediaAddress e a ip port T) (\<lambda>R1. Done (True, R1)))"
    if "grown m {} n T" for ip port T
    by (rule defined_intros(3) [OF grown_SetMediaAddress [OF that assms(2,3)]]) (simp add: defined_intros)
  have off: "grown m {} n (set_session a (vs_lastUpdated_update f) (on_session a (GoOffHold c t) R))" for f c t
    by (rule grown_set_core [OF grown_on_session [OF assms(1,2) steady_hold(2)] assms(2)]) (simp add: core_def)
  have on: "grown m {} n (on_session a (GoOnHold c t) R)" for c t
    by (rule grown_on_session [OF assms(1,2) steady_hold(1)])
  show ?thesis unfolding invite_hold_def Let_def
    by (intro defined_intros(4) set off) (simp_all add: defined_intros on assms(1))
qed

lemma grown_set_media_addresses:
  assumes "grown m {} n R" "a < n" "mappings_of e = m"
  shows "defined (grown m {} n) (set_media_addresses e a ip sender port R)"
  unfolding set_media_addresses_def
  by (rule defined_intros(3) [OF grown_SetMediaAddress [OF assms]])
    (intro defined_intros grown_SetMediaAddress assms(2,3), assumption)

lemma grown_use_notify:
  assumes "grown m X n R" shows "grown m X n (use_notify c i R)"
proof -
  have "grown m X n (R\<lparr>rg_invites := (rg_invites R)(i := x), rg_endpoints := y\<rparr>)"
    if "length (si_payloadTypeMap x) = 32" for x y
    using assms that by (simp add: grown_def reg_def maps_ok_def)
  moreover have "length (si_payloadTypeMap (rg_invites R i)) = 32" using assms by (simp add: grown_def reg_def)
  ultimately show ?thesis using assms by (simp add: use_notify_def Let_def split: option.split)
qed

lemma use_notify_sessions [simp]: "rg_sessions (use_notify c i R) = rg_sessions R"
  by (simp add: use_notify_def Let_def split: option.split)

lemma grown_invite_new:
  assumes "grown m {} n R" "mappings_of (se_env e) = m"
  shows "defined (grown m {} n) (invite_new e i R)"
proof -
  let ?v = "se_env e" and ?c = "se_config e" and ?inv = "rg_invites R i"
  obtain a R1 where new: "new_session e R = (a, R1)" by fastforce
  note R1 = grown_new [OF assms(1) new]
  have a: "a < Suc a" by simp
  define R2 where "R2 = (if vc_sipCallPickUpSupport ?c then TrySessionCallPickUp (si_replacesId ?inv) a R1 else R1)"
  define R3 where "R3 = set_session a (\<lambda>s. s\<lparr>vs_callId := si_callId ?inv, vs_protocol := ProtSip,
                  vs_sipDialedNumber := si_sipDialedNumber ?inv\<rparr>) R2"
  define R4 where "R4 = on_session a (Session_ReportSipInvite ?c i) (use_notify ?c i R3)"
  define R5 where "R5 = set_session a (vs_sipLastInvite_update (\<lambda>_. ve_nowUsec ?v)) R4"
  have R2: "grown m {} (Suc a) R2" using R1(2) by (simp add: R2_def orderly)
  have len: "a < length (rg_sessions R2)" by (rule grownD(2) [OF R2 a])
  have free: "map_of (rg_byCallId R2) k \<noteq> Some a" "map_of (rg_byIpAndPort R2) q \<noteq> Some a" for k q
    using grown_found(1) [OF assms(1), of q a] grown_found(2) [OF assms(1), of k a] R1(3) new
    by (auto simp: R2_def TrySessionCallPickUp_def new_session_def Let_def split: prod.splits if_splits)
  have R3: "grown m {a} (Suc a) R3"
    using R2 free unfolding grown_def reg_def maps_ok_def R3_def by (auto simp: nth_update addressed_def)
  have "grown m {} (Suc a) R4" unfolding R4_def
    by (rule grown_invite [OF grown_use_notify [OF R3] a])
      (use payload_map [OF R2 a] len in \<open>simp_all add: R3_def\<close>)
  then have R5: "grown m {} (Suc a) R5" unfolding R5_def by (rule grown_set_core [OF _ a]) (simp add: core_def)
  have id5: "vs_callId (session_at R5 a) = si_callId ?inv"
    using reports_ReportSipInvite [of "load (use_notify ?c i R3) (session_at (use_notify ?c i R3) a)" ?c i] len
    by (simp add: R5_def R4_def on_session_def reports_def kept_def R3_def)
  have ins: "defined (grown m {} n) (and_then (set_media_addresses ?v a ip sender port R5) (\<lambda>R6. Done (insert_call (si_callId ?inv) a R6)))"
    for ip sender port
  proof (rule defined_intros(3))
    show "defined (\<lambda>R6. grown m {} (Suc a) R6 \<and> call_ids R6 = call_ids R5) (set_media_addresses ?v a ip sender port R5)"
      using grown_set_media_addresses [OF R5 a assms(2)] set_media_addresses_ids by (simp add: defined_def yields_def)
    fix R6
    assume R6: "grown m {} (Suc a) R6 \<and> call_ids R6 = call_ids R5"
    have "a < length (rg_sessions R5)" "a < length (rg_sessions R6)" using R5 R6 by (auto simp: grown_def)
    then have "vs_callId (session_at R6 a) = vs_callId (session_at R5 a)"
      using R6 by (metis call_ids_def nth_map)
    with R6 R1(1) show "defined (grown m {} n) (Done (insert_call (si_callId ?inv) a R6))"
      by (intro defined_intros grown_less [OF grown_insert_call [of _ _ "Suc a"]]) (simp_all add: id5)
  qed
  show ?thesis unfolding invite_new_def new prod.case Let_def
    using ins by (simp add: R2_def [symmetric] R3_def [symmetric] R4_def [symmetric] R5_def [symmetric])
qed

lemma grown_by_callid:
  assumes "grown m {} n R" "mappings_of (se_env e) = m"
  shows "defined (grown m {} n) (invite_by_callid e k i R)"
proof (cases "findByCallId (si_callId (rg_invites R i)) R")
  case None
  then show ?thesis by (simp add: invite_by_callid_def Let_def grown_invite_new assms)
next
  case (Some a)
  then have a: "a < length (rg_sessions R)" using grown_found(2) [OF assms(1)] by (simp add: findByCallId_def)
  let ?v = "se_env e" and ?c = "se_config e"
  have go: "defined (grown m {} l) (if d then Done R1
      else if b then and_then (set_media_addresses ?v a ip sender port R1) (\<lambda>R2. Done (reinvite ?v i a R2))
      else Done (reinvite ?v i a R1))" if "grown m {} l R1" "a < l" for l R1 d b ip sender port
    using that by (intro defined_intros(4) defined_intros(3) [OF grown_set_media_addresses [OF that assms(2)]])
      (simp_all add: defined_intros orderly)
  show ?thesis
  proof (rule grown_at [OF assms(1) a])
    fix l
    assume l: "grown m {} l R" "a < l"
    show "defined (grown m {} l) (invite_by_callid e k i R)"
      unfolding invite_by_callid_def Some option.case Let_def
      by (rule defined_intros(3) [OF grown_invite_hold [OF l assms(2)]]) (auto simp del: if_split intro!: go l(2))
  qed
qed

lemma grown_ReportSipInvite:
  assumes "grown m {} n R" "mappings_of (se_env e) = m"
  shows "defined (grown m {} n) (Registry_ReportSipInvite e i R)"
proof -
  let ?v = "se_env e" and ?c = "se_config e" and ?inv = "rg_invites R i"
  have raw: "grown m {} n (set_session a (vs_protocol_update (\<lambda>_. ProtRawRtp)) R)" if "a < length (rg_sessions R)" for a
  proof (rule grown_at_pure [OF assms(1) that])
    fix l
    assume "grown m {} l R" "a < l"
    then show "grown m {} l (set_session a (vs_protocol_update (\<lambda>_. ProtRawRtp)) R)"
      using regD(3) [OF grownD(1), of m "{}" l R a] that by (intro grown_set) (auto simp: called_def)
  qed
  have hold: "defined (grown m {} n) (and_then (invite_hold ?v ?inv a R) (\<lambda>(done, R1).
      Done (if done then R1 else reinvite ?v i a R1)))" if "a < length (rg_sessions R)" for a
  proof (rule grown_at [OF assms(1) that])
    fix l
    assume l: "grown m {} l R" "a < l"
    show "defined (grown m {} l) (and_then (invite_hold ?v ?inv a R) (\<lambda>(done, R1).
        Done (if done then R1 else reinvite ?v i a R1)))"
      by (rule defined_intros(3) [OF grown_invite_hold [OF l assms(2)]]) (auto intro!: defined_intros orderly l(2))
  qed
  have found: "a < length (rg_sessions R)" if "findByMediaAddress c ip port R = Some a" for c ip port a
    using grown_found(1) [OF assms(1)] that by (simp add: findByMediaAddress_def)
  show ?thesis
    unfolding Registry_ReportSipInvite_def Let_def
    by (intro defined_intros(4,5) grown_by_callid hold raw assms defined_intros(1)) (simp_all add: found)
qed

lemma grown_call_found:
  assumes "grown m {} n R" "\<And>a k. findByCallId c R = Some a \<Longrightarrow> grown m {} k R \<Longrightarrow> a < k \<Longrightarrow> defined (grown m {} k) (f a)"
  shows "defined (grown m {} n) (case findByCallId c R of None \<Rightarrow> Done R | Some a \<Rightarrow> f a)"
proof (cases "findByCallId c R")
  case (Some a)
  then have "a < length (rg_sessions R)" using grown_found(2) [OF assms(1)] by (simp add: findByCallId_def)
  then show ?thesis unfolding Some option.case by (rule grown_at [OF assms(1)]) (rule assms(2) [OF Some])
qed (simp add: defined_intros assms(1))

lemma grown_call_found_pure:
  assumes "grown m {} n R" "\<And>a k. grown m {} k R \<Longrightarrow> a < k \<Longrightarrow> grown m {} k (f a)"
  shows "grown m {} n (case findByCallId c R of None \<Rightarrow> R | Some a \<Rightarrow> f a)"
  using grown_call_found [OF assms(1), of c "\<lambda>a. Done (f a)"] assms(2)
  by (cases "findByCallId c R") (auto simp: defined_def yields_def)

lemma grown_error:
  assumes "grown m {} n R" "fe_callId info \<noteq> []" "\<not> skinny_id (fe_callId info)"
  shows "defined (grown m {} n) (Registry_ReportSipErrorPacket e info R)"
  unfolding Registry_ReportSipErrorPacket_def Let_def
proof (rule grown_call_found [OF assms(1)])
  fix a k
  assume a: "findByCallId (fe_callId info) R = Some a" "grown m {} k R" "a < k"
  have R1: "grown m {} k (on_session a Session_ReportSipErrorPacket R)"
    by (rule grown_on_session [OF a(2,3)]) (simp add: quiet)
  note r = grownD(1) [OF a(2)]
  have "called (session_at R a)" "vs_callId (session_at R a) = fe_callId info" "a < length (rg_sessions R)"
    using a r assms(2) regD(3) [OF r] by (auto simp: findByCallId_def reg_def maps_ok_def)
  then have inv: "vs_invite (session_at (on_session a Session_ReportSipErrorPacket R) a) \<noteq> None"
    using assms(2,3) by (auto simp: called_def on_session_def Session_ReportSipErrorPacket_def emit_def)
  show "defined (grown m {} k) (if fe_errorCode info = ''407'' then Done R
     else if vs_invite (session_at (on_session a Session_ReportSipErrorPacket R) a) = None then Undefined
     else Stop_session e a (on_session a Session_ReportSipErrorPacket R))"
    unfolding if_not_P [OF inv] by (intro defined_intros(4) defined_intros(1) a(2) grown_Stop [OF R1 a(3)])
qed

lemma grown_media_messages:
  assumes "grown m {} n R" "mappings_of e = m"
  shows "defined (grown m {} n) (ReportSipSessionProgress e info R)" "defined (grown m {} n) (ReportSip200Ok e info R)"
proof -
  show "defined (grown m {} n) (ReportSipSessionProgress e info R)"
    unfolding ReportSipSessionProgress_def by (rule grown_call_found [OF assms(1)]) (rule grown_set_media_addresses [OF _ _ assms(2)])
  show "defined (grown m {} n) (ReportSip200Ok e info R)"
    unfolding ReportSip200Ok_def Let_def
    by (rule grown_call_found [OF assms(1)]) (intro defined_intros(4) defined_intros(1) grown_SetMediaAddress assms(2); assumption)
qed

lemma grown_ReportSipBye:
  assumes "grown m {} n R" shows "defined (grown m {} n) (Registry_ReportSipBye e bye R)"
  unfolding Registry_ReportSipBye_def
  by (rule grown_call_found [OF assms], rule grown_Stop, rule grown_on_session, assumption+) (simp_all add: quiet)

lemma newest_invited_found:
  "newest_invited c ip R = Some a \<Longrightarrow> a \<in> set (map snd (rg_byCallId R)) \<and> vs_invite (session_at R a) \<noteq> None"
proof -
  let ?f = "\<lambda>a found. case vs_invite (session_at R a) of None \<Rightarrow> found
         | Some i \<Rightarrow>
             let inv = rg_invites R i;
                 addr = (if MatchesReferenceAddresses c (si_senderIp inv) then si_receiverIp inv else si_senderIp inv)
             in if addr = ip \<and> (case found of None \<Rightarrow> True
                  | Some b \<Rightarrow> vs_sipLastInvite (session_at R a) > vs_sipLastInvite (session_at R b))
                then Some a else found"
  have step: "?f b y = y \<or> ?f b y = Some b \<and> vs_invite (session_at R b) \<noteq> None" for b y
    by (simp add: Let_def split: option.split)
  show "newest_invited c ip R = Some a \<Longrightarrow> ?thesis"
    using fold_picks [of ?f "\<lambda>a. vs_invite (session_at R a) \<noteq> None", OF step, of "map snd (rg_byCallId R)" None]
    unfolding newest_invited_def by auto
qed

lemma grown_notify:
  assumes "grown m {} n R" "0 \<le> sn_pkey note" "sn_pkey note < 128"
  shows "defined (grown m {} n) (Registry_ReportSipNotify e note R)"
proof -
  let ?found = "newest_invited (se_config e) (sn_receiverIp note) R"
  have len: "length (rg_lastHoldRemoteParty R) = 128" using assms(1) by (simp add: grown_def reg_def)
  have slot: "hold_slot (sn_pkey note) = Some (nat (sn_pkey note))" using assms(2,3) by (simp add: hold_slot_def)
  have act: "defined (grown m {} n) (case ?found of Some a \<Rightarrow> in_session a (Session_ReportSipNotify c n2) R
      | None \<Rightarrow> Done (pre_invite_notify e n2 R))" for c n2
  proof (cases ?found)
    case None
    then show ?thesis using assms(1) by (simp add: pre_invite_notify_def Let_def defined_intros orderly)
  next
    case (Some a)
    note a = newest_invited_found [OF Some]
    have "a < length (rg_sessions R)" using a grown_found(4) [OF assms(1)] by blast
    then show ?thesis unfolding Some option.case
    proof (rule grown_at [OF assms(1)])
      fix k
      assume "grown m {} k R" "a < k"
      then show "defined (grown m {} k) (in_session a (Session_ReportSipNotify c n2) R)"
        unfolding in_session_def using a
        by (intro defined_intros(3) [OF ReportSipNotify_ok] defined_intros(1) grown_store_steady) simp_all
    qed
  qed
  have rest: "defined (grown m {} n) (and_then r (\<lambda>n2. if length (sn_dsp n2) < 4 then Done R
      else case ?found of Some a \<Rightarrow> in_session a (Session_ReportSipNotify c n2) R
      | None \<Rightarrow> Done (pre_invite_notify e n2 R)))" if "r \<noteq> Undefined" for r c
    using that by (cases r) (simp_all add: act defined_intros assms(1))
  show ?thesis unfolding Registry_ReportSipNotify_def Let_def
    by (intro defined_intros(4) rest) (use len assms(1) in \<open>simp_all add: slot defined_intros orderly\<close>)
qed

end
