(* ===== verification/OrkVoipRegistryRuns.thy ===== *)
theory OrkVoipRegistryRuns
  imports OrkVoipRegistry
begin

text \<open>
  The remaining calls of the registry keep it in order, and so does any sequence of calls: it is
  always consistent, and the only undefined calls are those with an unchecked number or a missing INVITE.
\<close>

section \<open>Skinny\<close>

lemma grown_info_refer:
  assumes "grown m {} n R"
  shows "grown m {} n (Registry_ReportSipInfo e info R)" "grown m {} n (Registry_ReportSipRefer r R)"
proof -
  show "grown m {} n (Registry_ReportSipInfo e info R)" unfolding Registry_ReportSipInfo_def
    by (rule grown_call_found_pure [OF assms], rule grown_on_session, assumption+) (simp add: quiet)
  have "steady s (fst (Session_ReportSipRefer s))" for s by (simp add: quiet)
  then show "grown m {} n (Registry_ReportSipRefer r R)" unfolding Registry_ReportSipRefer_def Let_def case_prod_unfold
    by (intro grown_call_found_pure [OF assms] orderly) auto
qed

lemma grown_endpoints [orderly]:
  assumes "grown m X n R"
  shows "grown m X n (SetEndpointExtension e x ip c port R)" "grown m X n (update_endpoint k f R)"
    "grown m X n (ReportSkinnyLineStat e x fl R)" "grown m X n (UpdateEndpointWithCallInfo e info fl R)"
    "grown m X n (ReportSkinnySoftKeySetConfConnected v ip port R)" "grown m X n (url_insert e ip key val R)"
  using assms by (simp_all add: SetEndpointExtension_def update_endpoint_def ReportSkinnyLineStat_def
      UpdateEndpointWithCallInfo_def ReportSkinnySoftKeySetConfConnected_def url_insert_def Let_def orderly)

lemma core_parties [simp]:
  "core (set_call_parties R lp lpn rp s) = core s" "core (set_forwarded_parties R ep info s) = core s"
  by (simp_all add: set_call_parties_def set_forwarded_parties_def Let_def core_def split: option.split)

lemma core_updates [simp]:
  "core (s\<lparr>vs_direction := d\<rparr>) = core s" "core (s\<lparr>vs_hasReceivedCallInfo := b\<rparr>) = core s"
  "core (s\<lparr>vs_skinnyLineInstance := i\<rparr>) = core s" "core (s\<lparr>vs_lastUpdated := i\<rparr>) = core s"
  "core (s\<lparr>vs_skinnyLastCallInfoTime := i\<rparr>) = core s" "core (s\<lparr>vs_skinnyPassThruPartyId := i\<rparr>) = core s"
  "core (s\<lparr>os_keepRtp := b\<rparr>) = core s"
  by (simp_all add: core_def)

lemma grown_call_info_update [orderly]:
  "grown m X n R \<Longrightarrow> a < n \<Longrightarrow> grown m X n (UpdateSessionWithCallInfo c info a R)"
  unfolding UpdateSessionWithCallInfo_def Let_def by (rule grown_set_core) simp_all

lemma steady_skinny [quiet]:
  "steady s (Session_ReportSkinnyCallInfo c name ip s)" "steady s (ReportMetadataUpdateSkinny c s)"
  "steady s (UpdateMetadataSkinny c s)" "steady s (Session_ReportSkinnyCallStateMessage e k s)"
  by (simp_all add: quiet)

lemma grown_call_info_known:
  assumes "grown m {} n R" "a < n"
  shows "grown m {} n (call_info_known e info f a R)"
proof -
  have R1: "grown m {} n (set_session a (vs_skinnyLastCallInfoTime_update g) R)" for g
    by (rule grown_set_core [OF assms]) (simp add: core_def)
  have R2: "grown m {} n (if b then UpdateSessionWithCallInfo c info a T else T)" if "grown m {} n T" for b c T
    using that assms(2) by (simp add: orderly)
  have R3: "grown m {} n (on_session a (Session_ReportSkinnyCallInfo c name ip) T)" if "grown m {} n T" for c name ip T
    by (rule grown_on_session [OF that assms(2)]) (rule quiet)
  have R4: "grown m {} n (if b then on_session a (ReportMetadataUpdateSkinny c) T else T)" if "grown m {} n T" for b c T
    using that grown_on_session [OF that assms(2), of "ReportMetadataUpdateSkinny c"] by (simp add: quiet)
  show ?thesis unfolding call_info_known_def Let_def by (intro R4 R3 R2 R1)
qed

lemma skinny_id_call [simp]: "skinny_id (call_id_of c info f)"
  unfolding skinny_id_def call_id_of_def by blast

lemma call_id_not_empty [simp]: "call_id_of c info f \<noteq> []"
  by (simp add: call_id_of_def GenerateSkinnyCallId_def)

lemma call_ids_at:
  "call_ids T = call_ids R \<Longrightarrow> a < length (rg_sessions R) \<Longrightarrow> vs_callId (session_at T a) = vs_callId (session_at R a)"
  by (metis call_ids_def length_map nth_map)

lemma call_ids_on_session [simp]:
  assumes "\<And>s. steady s (f s)" shows "call_ids (on_session a f R) = call_ids R"
  using assms [of "load R (session_at R a)"] by (simp add: on_session_def steady_def reports_def)

lemma call_ids_info [simp]: "call_ids (UpdateSessionWithCallInfo c info a R) = call_ids R"
proof -
  have "vs_callId (set_call_parties R lp lpn rp s) = vs_callId s" "vs_callId (set_forwarded_parties R ep i s) = vs_callId s"
    for lp lpn rp ep i s
    using core_parties [of R] by (simp_all add: core_def)
  then show ?thesis unfolding UpdateSessionWithCallInfo_def Let_def by (intro call_ids_set) simp
qed

lemma grown_call_info_late:
  assumes "grown m {} n R" "a < n" "vs_callId (session_at R a) = []" "skinny_id callId"
  shows "grown m {} n (call_info_late e info f callId a R)"
proof -
  let ?R1 = "set_session a (\<lambda>s. s\<lparr>vs_skinnyLastCallInfoTime := ve_nowUsec e, vs_callId := callId\<rparr>) R"
  let ?c = "ve_config e"
  let ?R2 = "UpdateSessionWithCallInfo ?c info a ?R1"
  let ?R3 = "on_session a (UpdateMetadataSkinny ?c) ?R2"
  let ?R4 = "on_session a (Session_ReportSkinnyCallInfo ?c (sk_callingPartyName info) (fl_src f)) ?R3"
  note R = grownD(1) [OF assms(1)] grownD(2) [OF assms(1,2)]
  have R1: "grown m {} n ?R1"
    using assms R(2) regD(3) [OF R] unfolding grown_def reg_def maps_ok_def
    by (auto simp: nth_update addressed_def called_def)
  have R4: "grown m {} n ?R4" using R1 assms(2) by (simp add: orderly quiet)
  have "call_ids ?R4 = call_ids ?R1" by (simp add: quiet)
  then have "vs_callId (session_at ?R4 a) = callId" using call_ids_at [of ?R4 ?R1 a] R(2) by simp
  then show ?thesis unfolding call_info_late_def Let_def by (intro grown_insert_call R4 assms(2)) simp
qed

lemma findNewest_found: "findNewestRtpByEndpointIp ip R = Some a \<Longrightarrow> a \<in> set (map snd (rg_byIpAndPort R))"
proof -
  let ?f = "\<lambda>a (latest, found). if vs_endPointIp (session_at R a) = ip then
           (case vs_lastRtpPacket (session_at R a) of
              Some p \<Rightarrow> if rp_arrivalTimestamp p > latest then (to_int32 (rp_arrivalTimestamp p), Some a)
                        else (latest, found)
            | None \<Rightarrow> (latest, Some a)) else (latest, found)"
  have step: "snd (?f a (x, y)) = y \<or> snd (?f a (x, y)) = Some a" for a x y by (simp split: option.split)
  show "findNewestRtpByEndpointIp ip R = Some a \<Longrightarrow> ?thesis"
    using fold_finds [of ?f, OF step, of "map snd (rg_byIpAndPort R)" 0 None]
    unfolding findNewestRtpByEndpointIp_def by auto
qed

lemma grown_stop_previous:
  assumes "grown m {} n R" shows "defined (grown m {} n) (stop_previous e ip R)"
proof -
  have "defined (grown m {} n) (Stop_session e b R)" if "findNewestRtpByEndpointIp ip R = Some b" for b
    by (rule grown_Stop_found [OF assms grown_found(3) [OF assms findNewest_found [OF that]]])
  then show ?thesis unfolding stop_previous_def Let_def
    by (intro defined_intros(4,5) defined_intros(1) assms)
qed

lemma stop_previous_ids: "yields (\<lambda>R'. call_ids R' = call_ids R) (stop_previous e ip R)"
  unfolding stop_previous_def Let_def using Stop_ids by (intro yields_intros(5,6) yields_intros(1)) simp_all

lemma grown_new_skinny:
  assumes "grown m {} n R" "new_session e R = (a, R1)" "skinny_id callId \<or> callId = []"
    "\<And>s. core (f s) = (vs_mediaAddresses s, vs_ipAndPort s, callId, ProtSkinny, vs_invite s, os_payloadTypeMap s)"
  shows "grown m {} (Suc a) (set_session a f R1)" "vs_callId (session_at (set_session a f R1) a) = callId"
proof -
  note R1 = grown_new [OF assms(1,2)]
  have len: "a < length (rg_sessions R1)" using grownD(2) [OF R1(2), of a] by simp
  have free: "map_of (rg_byCallId R1) k \<noteq> Some a" "map_of (rg_byIpAndPort R1) q \<noteq> Some a" for k q
    using grown_found(1) [OF assms(1), of q a] grown_found(2) [OF assms(1), of k a] R1(3) assms(2)
    by (auto simp: new_session_def Let_def split: prod.splits)
  have f: "core (f (session_at R1 a)) = ([], 0, callId, ProtSkinny, None, os_payloadTypeMap (session_at R1 a))"
    unfolding assms(4) R1(4) by (simp add: new_session_props)
  have pay: "length (os_payloadTypeMap (session_at R1 a)) = 32" by (simp add: R1(4) new_session_props)
  show "grown m {} (Suc a) (set_session a f R1)"
    using R1(2) free f assms(3) pay unfolding grown_def reg_def maps_ok_def
    by (auto simp: nth_update addressed_def called_def core_def)
  show "vs_callId (session_at (set_session a f R1) a) = callId" using f len by (simp add: core_def)
qed

lemma grown_call_info_new:
  assumes "grown m {} n R" "skinny_id callId" "callId \<noteq> []"
  shows "defined (grown m {} n) (call_info_new e info f callId R)"
proof -
  obtain a R1 where new: "new_session e R = (a, R1)" by fastforce
  let ?v = "se_env e" and ?c = "se_config e"
  let ?f = "\<lambda>s. s\<lparr>vs_callId := callId, vs_endPointIp := fl_dst f,
                  vs_endPointSignallingPort := fl_dstPort f, vs_protocol := ProtSkinny,
                  vs_skinnyLastCallInfoTime := ve_nowUsec ?v\<rparr>"
  let ?R2 = "set_session a ?f R1"
  let ?R4 = "on_session a (Session_ReportSkinnyCallInfo ?c (sk_callingPartyName info) (fl_src f))
     (UpdateSessionWithCallInfo ?c info a ?R2)"
  have R2: "grown m {} (Suc a) ?R2" "vs_callId (session_at ?R2 a) = callId"
    using grown_new_skinny [OF assms(1) new, of callId ?f] assms(2) by (simp_all add: core_def)
  have R4: "grown m {} (Suc a) ?R4" using R2(1) by (simp add: orderly quiet)
  have ids: "call_ids ?R4 = call_ids ?R2" by (simp add: quiet)
  have le: "n \<le> Suc a" using grown_new(1) [OF assms(1) new] by simp
  have "defined (grown m {} n) (Done (insert_call callId a R5))"
    if R5: "grown m {} (Suc a) R5 \<and> call_ids R5 = call_ids ?R4" for R5
  proof -
    have "vs_callId (session_at R5 a) = callId"
      using call_ids_at [of R5 ?R2 a] R5 ids R2 by (simp add: grown_def)
    then show ?thesis using R5 le by (intro defined_intros grown_less [OF grown_insert_call [of _ _ "Suc a"]]) auto
  qed
  moreover have "defined (\<lambda>R5. grown m {} (Suc a) R5 \<and> call_ids R5 = call_ids ?R4) (stop_previous ?v (fl_dst f) ?R4)"
    using grown_stop_previous [OF R4] stop_previous_ids by (simp add: defined_def yields_def)
  ultimately show ?thesis unfolding call_info_new_def new prod.case Let_def by (rule defined_intros(3) [rotated])
qed

lemma grown_find: "List.find p xs = Some a \<Longrightarrow> a \<in> set xs \<and> p a"
  by (auto simp: find_Some_iff)

lemma grown_skinny_call_info:
  assumes "grown m {} n R" shows "defined (grown m {} n) (Registry_ReportSkinnyCallInfo e info f R)"
proof -
  let ?c = "se_config e" and ?v = "se_env e"
  define T where "T = UpdateEndpointWithCallInfo e info f R"
  have T: "grown m {} n T" using assms by (simp add: T_def orderly)
  let ?id = "call_id_of ?c info f"
  have new: "defined (grown m {} n) (call_info_new e info f ?id T)" by (rule grown_call_info_new [OF T]) simp_all
  have known: "defined (grown m {} n) (Done (call_info_known ?v info f a T))" if "findByCallId ?id T = Some a" for a
  proof (rule grown_at [OF T])
    show "a < length (rg_sessions T)" using that grown_found(2) [OF T] by (simp add: findByCallId_def)
  qed (rule defined_intros(1), rule grown_call_info_known)
  have late: "defined (grown m {} n) (if vs_callId (session_at T a) = [] then Done (call_info_late ?v info f ?id a T)
      else call_info_new e info f ?id T)"
    if "(if b then findByEndpointIpUsingIpAndPort ip T else None) = Some a" for a b ip
  proof (intro defined_intros(4) new grown_at [OF T])
    show "a < length (rg_sessions T)"
      using that grown_found(3) [OF T, of a] grown_find [of _ "map snd (rg_byIpAndPort T)" a]
      by (auto simp: findByEndpointIpUsingIpAndPort_def simp del: set_map split: if_splits)
  qed (intro defined_intros(1) grown_call_info_late skinny_id_call)
  show ?thesis unfolding Registry_ReportSkinnyCallInfo_def Let_def T_def [symmetric]
    by (intro defined_intros(5) known late new)
qed

lemma grown_call_messages:
  assumes "grown m {} n R"
  shows "grown m {} n (Registry_ReportSkinnyCallStateMessage v k st f R)"
    "grown m {} n (ReportSkinnySoftKeyHold v k f R)" "grown m {} n (ReportSkinnySoftKeyResume v k f R)"
    "defined (grown m {} n) (ReportSkinnySoftKeySetTransfConnected v k f R)"
proof -
  show "grown m {} n (Registry_ReportSkinnyCallStateMessage v k st f R)"
    unfolding Registry_ReportSkinnyCallStateMessage_def
    by (rule grown_call_found_pure [OF assms], rule grown_on_session, assumption+) (rule quiet)
  show "grown m {} n (ReportSkinnySoftKeyHold v k f R)" unfolding ReportSkinnySoftKeyHold_def Let_def
    using grown_call_found_pure [OF assms, of "\<lambda>a. on_session a (GoOnHold (ve_config v) (ve_now v)) R"] assms
    by (simp add: orderly steady_hold)
  show "grown m {} n (ReportSkinnySoftKeyResume v k f R)" unfolding ReportSkinnySoftKeyResume_def Let_def
    by (rule grown_call_found_pure [OF assms], rule grown_set_core, rule grown_on_session, assumption+)
      (simp_all add: steady_hold)
  show "defined (grown m {} n) (ReportSkinnySoftKeySetTransfConnected v k f R)"
    unfolding ReportSkinnySoftKeySetTransfConnected_def
    by (rule grown_call_found [OF assms], rule grown_Stop, assumption+)
qed

lemma grown_conf_pressed:
  assumes "grown m {} n R" shows "grown m {} n (ReportSkinnySoftKeyConfPressed v ip port R)"
proof -
  have "grown m {} n (update_endpoint k g (if b then on_session a (emit (key_value x uid)) (update_endpoint k h R) else R))"
    if "findByCallId c R = Some a" for c a k g h b x uid
  proof (rule grown_at_pure [OF assms])
    show "a < length (rg_sessions R)" using that grown_found(2) [OF assms] by (simp add: findByCallId_def)
  qed (auto intro!: orderly quiet)
  then show ?thesis unfolding ReportSkinnySoftKeyConfPressed_def Let_def
    using assms by (auto split: option.split)
qed

lemma findNewestByEndpoint_found: "findNewestByEndpoint c ip port R = Some a \<Longrightarrow> a \<in> set (map snd (rg_byCallId R))"
proof -
  let ?f = "\<lambda>a found. if vs_endPointIp (session_at R a) = ip \<and>
            (vc_skinnyBehindNat c \<longrightarrow> vs_endPointSignallingPort (session_at R a) = port)
         then (case found of
                 Some b \<Rightarrow> if vs_skinnyLastCallInfoTime (session_at R a) > vs_skinnyLastCallInfoTime (session_at R b)
                           then Some a else found
               | None \<Rightarrow> Some a)
         else found"
  have step: "?f b y = y \<or> ?f b y = Some b \<and> True" for b y by (simp split: option.split)
  show "findNewestByEndpoint c ip port R = Some a \<Longrightarrow> ?thesis"
    using fold_picks [of ?f "\<lambda>_. True", OF step, of "map snd (rg_byCallId R)" None]
    unfolding findNewestByEndpoint_def by auto
qed

lemma grown_skinny_media:
  assumes "grown m {} n R" "mappings_of (se_env e) = m"
  shows "defined (grown m {} n) (skinny_media e ip port port2 passThru mediaIp mediaPort R)"
proof -
  let ?v = "se_env e"
  have known: "defined (grown m {} n) (SetMediaAddress ?v a mediaIp p (set_session a (vs_skinnyPassThruPartyId_update g) R))"
    if "findNewestByEndpoint c ip port R = Some a" for c a p g
  proof (rule grown_at [OF assms(1) grown_found(4) [OF assms(1) findNewestByEndpoint_found [OF that]]])
    fix k
    assume k: "grown m {} k R" "a < k"
    have "grown m {} k (set_session a (vs_skinnyPassThruPartyId_update g) R)"
      by (rule grown_set_core [OF k]) (simp add: core_def)
    from grown_SetMediaAddress [OF this k(2) assms(2)]
    show "defined (grown m {} k) (SetMediaAddress ?v a mediaIp p (set_session a (vs_skinnyPassThruPartyId_update g) R))" .
  qed
  have new: "defined (grown m {} n) (let (a, R1) = new_session e R in SetMediaAddress ?v a mediaIp p (set_session a f R1))"
    if f: "\<And>s. core (f s) = (vs_mediaAddresses s, vs_ipAndPort s, vs_callId s, ProtSkinny, vs_invite s, os_payloadTypeMap s)" for f p
  proof -
    obtain a R1 where a: "new_session e R = (a, R1)" by fastforce
    note R1 = grown_new [OF assms(1) a]
    have "core (f (session_at R1 a)) = core ((session_at R1 a)\<lparr>vs_protocol := ProtSkinny\<rparr>)" unfolding f by (simp add: core_def)
    then have "grown m {} (Suc a) (set_session a f R1)"
      by (intro grown_set [OF R1(2)]) (auto simp: core_def called_def R1(4) new_session_props)
    from grown_SetMediaAddress [OF this _ assms(2), of a mediaIp p] have
      "defined (grown m {} (Suc a)) (SetMediaAddress ?v a mediaIp p (set_session a f R1))" by simp
    then show ?thesis unfolding a Let_def prod.case
      by (rule outcome_mono(2)) (rule grown_less, assumption, use R1(1) in simp)
  qed
  show ?thesis unfolding skinny_media_def Let_def
    by (intro defined_intros(4,5) known new [unfolded Let_def] defined_intros(1) assms(1)) (simp_all add: core_def)
qed

lemma grown_skinny_media_messages:
  assumes "grown m {} n R" "mappings_of (se_env e) = m"
  shows "defined (grown m {} n) (ReportSkinnyOpenReceiveChannelAck e ip port k f R)"
    "defined (grown m {} n) (ReportSkinnyStartMediaTransmission e ip port k f R)"
    "defined (grown m {} n) (ReportSkinnyStopMediaTransmission v cid k f R)"
proof -
  show "defined (grown m {} n) (ReportSkinnyOpenReceiveChannelAck e ip port k f R)"
    "defined (grown m {} n) (ReportSkinnyStartMediaTransmission e ip port k f R)"
    unfolding ReportSkinnyOpenReceiveChannelAck_def ReportSkinnyStartMediaTransmission_def
    by (intro defined_intros(4) defined_intros(1) grown_skinny_media assms)+
  have stop: "defined (grown m {} n) (Stop_session v a R)"
    if "(if b then findByEndpointIp ip k R else if b' then findByCallId c R else None) = Some a" for a b b' ip k c
  proof (rule grown_Stop_found [OF assms(1)])
    show "a < length (rg_sessions R)"
      using that grown_found(2) [OF assms(1), of c a] grown_found(4) [OF assms(1), of a] grown_find [of _ "map snd (rg_byCallId R)" a]
      by (auto simp: findByEndpointIp_def findByCallId_def simp del: set_map split: if_splits)
  qed
  show "defined (grown m {} n) (ReportSkinnyStopMediaTransmission v cid k f R)"
    unfolding ReportSkinnyStopMediaTransmission_def Let_def
    by (intro defined_intros(4,5) defined_intros(1) assms(1) stop)
qed

section \<open>Text and commands\<close>

lemma Registry_UnEscapeUrl_not_undefined: "Registry_UnEscapeUrl s \<noteq> Undefined"
proof (induction s rule: Registry_UnEscapeUrl.induct)
  case (2 c cs)
  then show ?case by (auto split: list.split simp: and_then_Undefined)
qed simp

lemma defined_any: "r \<noteq> Undefined \<Longrightarrow> defined (\<lambda>_. True) r"
  by (simp add: defined_def yields_def)

lemma grown_url_loop: "grown m {} n R \<Longrightarrow> defined (grown m {} n) (url_loop e ip s st key val R)"
proof (induction e ip s st key val R rule: url_loop.induct)
  case (2 e ip ch rest st key val R)
  obtain st' key' val' where s: "url_step ch st key val = (st', key', val')" using prod_cases3 by blast
  have "defined (grown m {} n) (and_then (Registry_UnEscapeUrl val') (\<lambda>v. url_loop e ip rest st' [] [] (url_insert e ip key' v R)))"
    if "st \<noteq> UrlErrorState" "(st' = UrlStartState \<or> rest = []) \<and> key' \<noteq> []"
    using 2 that s by (intro defined_intros(3) [OF defined_any [OF Registry_UnEscapeUrl_not_undefined]]) (simp add: orderly)
  with 2 s show ?case by (auto simp: defined_intros)
qed (simp add: defined_intros)

lemma first_session_found: "grown m X n R \<Longrightarrow> first_session p R = Some a \<Longrightarrow> a < length (rg_sessions R)"
  using grown_found(3) [of m X n R a] grown_find [of _ "map snd (rg_byIpAndPort R)" a] by (simp add: first_session_def)

lemma grown_mark:
  assumes "grown m {} n R" "a < length (rg_sessions R)"
  shows "grown m {} n (on_session a (MarkAsOnDemand side) (set_session a (os_keepRtp_update g) R))"
    "grown m {} n (set_session a (os_keepRtp_update g) R)"
proof -
  have "grown m {} k (set_session a (os_keepRtp_update g) R)" if "grown m {} k R" "a < k" for k
    by (rule grown_set_core [OF that]) (simp add: core_def)
  then show "grown m {} n (set_session a (os_keepRtp_update g) R)"
    "grown m {} n (on_session a (MarkAsOnDemand side) (set_session a (os_keepRtp_update g) R))"
    by (intro grown_at_pure [OF assms] grown_on_session; simp add: quiet)+
qed

lemma grown_captures:
  assumes "grown m {} n R"
  shows "grown m {} n (snd (start_capture p side R))" "grown m {} n (snd (pause_capture p R))"
  using grown_mark [OF assms] first_session_found [OF assms] assms
  by (auto simp: start_capture_def pause_capture_def split: option.split)

lemma grown_on_demand_by_ip:
  assumes "grown m {} n R" shows "grown m {} n (ReportOnDemandMarkerByIp ip R)"
proof -
  let ?xs = "filter (\<lambda>a. IsMatchedLocalOrRemoteIp ip (session_at R a) \<and> vs_numRtpPackets (session_at R a) > 0)
            (map snd (rg_byIpAndPort R))"
  let ?f = "\<lambda>a (latest, found). if vs_lastUpdated (session_at R a) > latest
     then (vs_lastUpdated (session_at R a), Some a) else (latest, found)"
  have "snd (?f a (x, y)) = y \<or> snd (?f a (x, y)) = Some a" for a x y by simp
  from fold_finds [of ?f, OF this, of ?xs 0 None]
  have "a < length (rg_sessions R)" if "fold ?f ?xs (0, None) = (t, Some a)" for t a
    using that grown_found(3) [OF assms, of a] by auto
  then show ?thesis unfolding ReportOnDemandMarkerByIp_def Let_def
    using grown_mark(1) [OF assms] assms by (auto split: prod.split option.split)
qed

lemma copy_core [simp]: "core (CopyMetadataToNewSession old new) =
    (vs_mediaAddresses old, vs_ipAndPort old, vs_callId old, vs_protocol old, vs_invite old, os_payloadTypeMap new)"
  by (simp add: core_def CopyMetadataToNewSession_def)

lemma grown_insert_found:
  assumes "grown m {} n R" "b < n" "vs_mediaAddresses (session_at R b) \<noteq> []"
  shows "grown m {} n (insert_call (vs_callId (session_at R b)) b (insert_media (vs_ipAndPort (session_at R b)) b R))"
proof -
  have "addressed m (session_at R b)" using regD(2) [OF grownD(1) [OF assms(1)]] grownD(2) [OF assms(1,2)] by simp
  then have "vs_ipAndPort (session_at R b) \<in> set (vs_mediaAddresses (session_at R b))"
    using assms(3) by (simp add: addressed_def)
  from grown_insert_media [OF assms(1,2) this] assms(2) show ?thesis
    by (intro grown_insert_call) (simp_all add: insert_media_def)
qed

lemma Stop_others: "yields (\<lambda>R'. \<forall>b. b \<noteq> a \<longrightarrow> session_at R' b = session_at R b) (Stop_session e a R)"
proof -
  have "yields (\<lambda>R'. \<forall>b. b \<noteq> a \<longrightarrow> session_at R' b = session_at R b) (TaggingSipTransferCalls e a R)"
    unfolding TaggingSipTransferCalls_def Let_def by (intro outcome_intros) simp_all
  then show ?thesis unfolding Stop_session_def Let_def
    by (rule yields_intros(4)) (auto intro!: yields_intros simp: fold_remove on_session_def)
qed

lemma grown_stop_capture:
  assumes "grown m {} n R"
  shows "defined (\<lambda>(uid, qos, R'). grown m {} n R') (stop_capture e p R)"
proof (cases "first_session p R")
  case None
  then show ?thesis by (simp add: stop_capture_def defined_intros assms)
next
  case (Some a)
  obtain b R1 where new: "new_session e R = (b, R1)" by fastforce
  note R1 = grown_new [OF assms new]
  have a: "a < length (rg_sessions R)" by (rule first_session_found [OF assms Some])
  then have ab: "a \<noteq> b" "a < Suc b" using R1(3) by auto
  have len: "b < length (rg_sessions R1)" using grownD(2) [OF R1(2), of b] by simp
  have old: "session_at R1 a = session_at R a"
    using new a by (auto simp: new_session_def nth_append Let_def split: prod.splits)
  have R: "addressed m (session_at R a)" "called (session_at R a)" "vs_mediaAddresses (session_at R a) \<noteq> []"
  proof -
    show "addressed m (session_at R a)" "called (session_at R a)"
      using regD(2,3) [OF grownD(1) [OF assms]] a by auto
    have "a \<in> set (map snd (rg_byIpAndPort R))" using Some unfolding first_session_def by (rule grown_find [THEN conjunct1])
    moreover have "sorted_wrt (<) (map fst (rg_byIpAndPort R))" using assms by (simp add: grown_def reg_def maps_ok_def)
    ultimately obtain k where "map_of (rg_byIpAndPort R) k = Some a" using media.value_found [of "rg_byIpAndPort R" a] by auto
    moreover have "maps_ok R" using assms by (simp add: grown_def reg_def)
    ultimately have "k \<in> set (vs_mediaAddresses (session_at R a))" unfolding maps_ok_def by blast
    then show "vs_mediaAddresses (session_at R a) \<noteq> []" by auto
  qed
  have free: "map_of (rg_byCallId R1) k \<noteq> Some b" "map_of (rg_byIpAndPort R1) q \<noteq> Some b" for k q
    using grown_found(1) [OF assms, of q b] grown_found(2) [OF assms, of k b] R1(3) new
    by (auto simp: new_session_def Let_def split: prod.splits)
  let ?f = "CopyMetadataToNewSession (session_at R1 a)"
  let ?R2 = "set_session b ?f R1"
  have f: "core (?f (session_at R1 b)) = (vs_mediaAddresses (session_at R a), vs_ipAndPort (session_at R a),
      vs_callId (session_at R a), vs_protocol (session_at R a), vs_invite (session_at R a), os_payloadTypeMap (session_at R1 b))"
    by (simp add: old)
  have pay: "length (os_payloadTypeMap (session_at R1 b)) = 32" by (simp add: R1(4) new_session_props)
  have R2: "grown m {} (Suc b) ?R2"
    using R1(2) free f R(1,2) pay unfolding grown_def reg_def maps_ok_def
    by (auto simp: nth_update addressed_def called_def core_def)
  have fin: "grown m {} n (insert_call (vs_callId (session_at R3 b)) b (insert_media (vs_ipAndPort (session_at R3 b)) b R3))"
    if R3: "grown m {} (Suc b) R3" "\<forall>c. c \<noteq> a \<longrightarrow> session_at R3 c = session_at ?R2 c" for R3
  proof -
    have "vs_mediaAddresses (session_at R3 b) \<noteq> []" using R3(2) ab(1) f len R(3) by (simp add: core_def)
    from grown_insert_found [OF R3(1) _ this] show ?thesis using R1(1) by (auto intro: grown_less)
  qed
  have stop: "defined (\<lambda>R3. grown m {} (Suc b) R3 \<and> (\<forall>c. c \<noteq> a \<longrightarrow> session_at R3 c = session_at ?R2 c)) (Stop_session (se_env e) a ?R2)"
    using grown_Stop [OF R2 ab(2), of "se_env e"] Stop_others [of a ?R2 "se_env e"] by (simp add: defined_def yields_def)
  show ?thesis unfolding stop_capture_def Some new option.case prod.case Let_def
    by (rule defined_intros(3) [OF stop], rule defined_intros(1)) (simp add: fin)
qed

section \<open>Expiry\<close>

lemma run_stops: "grown m {} n R \<Longrightarrow> list_all (\<lambda>a. a < n) as \<Longrightarrow> defined (grown m {} n) (run_calls (Stop_session e) as R)"
proof (induction as arbitrary: R)
  case (Cons a as)
  have "defined (grown m {} n) (and_then (Stop_session e a R) (run_calls (Stop_session e) as))"
    by (rule defined_intros(3) [OF grown_Stop [OF Cons.prems(1)]]) (use Cons in simp_all)
  then show ?case by simp
qed (simp add: defined_intros)

lemma grown_Hoover:
  assumes "grown m {} n R" shows "defined (grown m {} n) (Registry_Hoover e now R)"
proof -
  have step: "defined (grown m {} n) (run_calls (Stop_session e) (filter P as) T)"
    if T: "grown m {} n T" and as: "\<And>a. a \<in> set as \<Longrightarrow> a < length (rg_sessions T)" for P T as
  proof -
    have "grown m {} (length (rg_sessions T)) T" using T by (simp add: grown_def)
    from run_stops [OF this, of "filter P as"] as have
      "defined (grown m {} (length (rg_sessions T))) (run_calls (Stop_session e) (filter P as) T)"
      by (simp add: list_all_iff)
    then show ?thesis by (rule outcome_mono(2)) (rule grown_less, assumption, use T in \<open>simp add: grown_def\<close>)
  qed
  show ?thesis unfolding Registry_Hoover_def Let_def
    by (rule defined_intros(3) [OF step [OF assms grown_found(3) [OF assms]]], assumption)
      (rule step, assumption, rule grown_found(4), assumption+)
qed

lemma grown_rtcp:
  assumes "grown m {} n R" shows "grown m {} n (snd (ReportRtcpSrcDescription e r R))"
proof -
  have "grown m {} n (on_session a (Session_ReportRtcpSrcDescription v r) R)"
    if "findByMediaAddress c ip port R = Some a" for a c ip port v
  proof (rule grown_at_pure [OF assms])
    show "a < length (rg_sessions R)" using that grown_found(1) [OF assms] by (simp add: findByMediaAddress_def)
  qed (auto intro!: orderly quiet)
  then show ?thesis using assms by (simp add: ReportRtcpSrcDescription_def Let_def split: option.split)
qed

section \<open>Calls of the registry\<close>

datatype registry_call =
    RgRtp RtpPacketInfo | RgRtcp RtcpSrcDescription
  | RgInvite nat | RgSubscribe string | RgSipError SipFailureInfo | RgProgress SipMediaInfo
  | RgMoved string string | RgOk SipMediaInfo | RgBye SipByeInfo | RgNotify SipNotifyInfo
  | RgInfo SipInfo | RgRefer SipRefer
  | RgCallInfo SkCallInfo flow | RgCallState u32 u32 flow | RgOpenAck in_addr u32 u32 flow
  | RgStartMedia in_addr u32 u32 flow | RgStopMedia u32 u32 flow | RgLineStat string flow
  | RgHold u32 flow | RgResume u32 flow | RgConf in_addr u16 | RgConfConnected in_addr u16
  | RgTransfConnected u32 flow | RgGlobalNumber string | RgClearParties
  | RgUrl string in_addr | RgOnDemandIp in_addr
  | RgStart string string | RgStartUid string string | RgStartCallId string string
  | RgPause string | RgPauseUid string | RgPauseCallId string
  | RgStop string | RgStopUid string | RgStopCallId string
  | RgHoover int | RgStopAll

fun registry_do :: "sessions_env \<times> registry_call \<Rightarrow> VoIpSessions \<Rightarrow> VoIpSessions outcome" where
  "registry_do (e, RgRtp p) R = ReportRtpPacket e p R"
| "registry_do (e, RgRtcp r) R = Done (snd (ReportRtcpSrcDescription e r R))"
| "registry_do (e, RgInvite i) R = Registry_ReportSipInvite e i R"
| "registry_do (e, RgSubscribe c) R = Done (ReportSipSubscribe c R)"
| "registry_do (e, RgSipError i) R = Registry_ReportSipErrorPacket (se_env e) i R"
| "registry_do (e, RgProgress i) R = ReportSipSessionProgress (se_env e) i R"
| "registry_do (e, RgMoved c t) R = Done (ReportSip302MovedTemporarily c t R)"
| "registry_do (e, RgOk i) R = ReportSip200Ok (se_env e) i R"
| "registry_do (e, RgBye b) R = Registry_ReportSipBye (se_env e) b R"
| "registry_do (e, RgNotify n) R = Registry_ReportSipNotify e n R"
| "registry_do (e, RgInfo i) R = Done (Registry_ReportSipInfo (se_env e) i R)"
| "registry_do (e, RgRefer r) R = Done (Registry_ReportSipRefer r R)"
| "registry_do (e, RgCallInfo i f) R = Registry_ReportSkinnyCallInfo e i f R"
| "registry_do (e, RgCallState c k f) R = Done (Registry_ReportSkinnyCallStateMessage (se_env e) c k f R)"
| "registry_do (e, RgOpenAck ip port k f) R = ReportSkinnyOpenReceiveChannelAck e ip port k f R"
| "registry_do (e, RgStartMedia ip port k f) R = ReportSkinnyStartMediaTransmission e ip port k f R"
| "registry_do (e, RgStopMedia c k f) R = ReportSkinnyStopMediaTransmission (se_env e) c k f R"
| "registry_do (e, RgLineStat n f) R = Done (ReportSkinnyLineStat e n f R)"
| "registry_do (e, RgHold c f) R = Done (ReportSkinnySoftKeyHold (se_env e) c f R)"
| "registry_do (e, RgResume c f) R = Done (ReportSkinnySoftKeyResume (se_env e) c f R)"
| "registry_do (e, RgConf ip port) R = Done (ReportSkinnySoftKeyConfPressed (se_env e) ip port R)"
| "registry_do (e, RgConfConnected ip port) R = Done (ReportSkinnySoftKeySetConfConnected (se_env e) ip port R)"
| "registry_do (e, RgTransfConnected c f) R = ReportSkinnySoftKeySetTransfConnected (se_env e) c f R"
| "registry_do (e, RgGlobalNumber n) R = Done (SaveSkinnyGlobalNumbersList n R)"
| "registry_do (e, RgClearParties) R = Done (ClearLocalPartyMap R)"
| "registry_do (e, RgUrl t ip) R = UrlExtraction e t ip R"
| "registry_do (e, RgOnDemandIp ip) R = Done (ReportOnDemandMarkerByIp ip R)"
| "registry_do (e, RgStart x side) R = Done (snd (StartCapture x side R))"
| "registry_do (e, RgStartUid x side) R = Done (StartCaptureOrkuid x side R)"
| "registry_do (e, RgStartCallId x side) R = Done (snd (StartCaptureNativeCallId x side R))"
| "registry_do (e, RgPause x) R = Done (snd (PauseCapture x R))"
| "registry_do (e, RgPauseUid x) R = Done (PauseCaptureOrkuid x R)"
| "registry_do (e, RgPauseCallId x) R = Done (snd (PauseCaptureNativeCallId x R))"
| "registry_do (e, RgStop x) R = and_then (StopCapture e x R) (\<lambda>(uid, qos, R1). Done R1)"
| "registry_do (e, RgStopUid x) R = and_then (StopCaptureOrkuid e x R) (\<lambda>(qos, R1). Done R1)"
| "registry_do (e, RgStopCallId x) R = and_then (StopCaptureNativeCallId e x R) (\<lambda>(uid, qos, R1). Done R1)"
| "registry_do (e, RgHoover now) R = Registry_Hoover (se_env e) now R"
| "registry_do (e, RgStopAll) R = StopAll (se_env e) R"

text \<open>
  Payload types have seven bits; the number in a NOTIFY is an index of the array of held parties; an error
  packet has a call identifier, and not the one of a Skinny call.
\<close>

fun registry_call_ok :: "bool \<Rightarrow> sessions_env \<times> registry_call \<Rightarrow> bool" where
  "registry_call_ok m (e, x) \<longleftrightarrow> mappings_of (se_env e) = m \<and>
     (case x of RgRtp p \<Rightarrow> packet_ok p
      | RgSipError i \<Rightarrow> fe_callId i \<noteq> [] \<and> \<not> skinny_id (fe_callId i)
      | RgNotify n \<Rightarrow> 0 \<le> sn_pkey n \<and> sn_pkey n < 128
      | _ \<Rightarrow> True)"

lemma grown_stop_captures:
  assumes "grown m {} n R"
  shows "defined (grown m {} n) (and_then (StopCapture e x R) (\<lambda>(uid, qos, R1). Done R1))"
    "defined (grown m {} n) (and_then (StopCaptureOrkuid e x R) (\<lambda>(qos, R1). Done R1))"
    "defined (grown m {} n) (and_then (StopCaptureNativeCallId e x R) (\<lambda>(uid, qos, R1). Done R1))"
proof -
  have uid: "defined (\<lambda>(qos, R'). grown m {} n R') (StopCaptureOrkuid e x R)" unfolding StopCaptureOrkuid_def
    by (rule defined_intros(3) [OF grown_stop_capture [OF assms]]) (auto intro!: defined_intros)
  show "defined (grown m {} n) (and_then (StopCaptureOrkuid e x R) (\<lambda>(qos, R1). Done R1))"
    by (rule defined_intros(3) [OF uid]) (auto intro!: defined_intros)
  show "defined (grown m {} n) (and_then (StopCapture e x R) (\<lambda>(uid, qos, R1). Done R1))"
    "defined (grown m {} n) (and_then (StopCaptureNativeCallId e x R) (\<lambda>(uid, qos, R1). Done R1))"
    unfolding StopCapture_def StopCaptureNativeCallId_def
    by (rule defined_intros(3) [OF grown_stop_capture [OF assms]]; auto intro!: defined_intros)+
qed

lemma registry_do_grown:
  assumes "grown m {} n R" "registry_call_ok m (e, x)"
  shows "defined (grown m {} n) (registry_do (e, x) R)"
proof -
  note R = assms(1)
  have m: "mappings_of (se_env e) = m" using assms(2) by simp
  note skinny = grown_skinny_media_messages [OF R m] grown_call_messages [OF R] grown_conf_pressed [OF R]
    grown_skinny_call_info [OF R] grown_endpoints [OF R]
  note sip = grown_ReportSipInvite [OF R m] grown_media_messages [OF R m] grown_ReportSipBye [OF R] grown_info_refer [OF R]
  note commands = grown_captures [OF R] grown_stop_captures [OF R] grown_Hoover [OF R] grown_on_demand_by_ip [OF R] grown_rtcp [OF R]
  have url: "defined (grown m {} n) (UrlExtraction e t ip R)" for t ip
    unfolding UrlExtraction_def by (rule grown_url_loop [OF R])
  have rest: "grown m {} n (ReportSipSubscribe c R)" "grown m {} n (ReportSip302MovedTemporarily c t R)"
    "grown m {} n (SaveSkinnyGlobalNumbersList c R)" "grown m {} n (ClearLocalPartyMap R)" for c t
    using R by (simp_all add: ReportSipSubscribe_def ReportSip302MovedTemporarily_def save_local_party_def
        SaveSkinnyGlobalNumbersList_def ClearLocalPartyMap_def Let_def orderly)
  note defs = StartCapture_def StartCaptureOrkuid_def StartCaptureNativeCallId_def PauseCapture_def PauseCaptureOrkuid_def
    PauseCaptureNativeCallId_def StopAll_def
  show ?thesis
  proof (cases x)
    case (RgRtp p)
    with grown_ReportRtpPacket [OF R _ m] assms(2) show ?thesis by simp
  next
    case (RgSipError i)
    with grown_error [OF R] assms(2) show ?thesis by simp
  next
    case (RgNotify k)
    with grown_notify [OF R] assms(2) show ?thesis by simp
  qed (simp_all only: registry_do.simps defs sip skinny commands url rest defined_intros(1))
qed

lemma reg_grown: "grown m {} 0 R \<longleftrightarrow> reg_ok m R"
  by (simp add: grown_def)

interpretation registry: safe_calls registry_do "reg_ok m" "registry_call_ok m" for m
proof
  fix R x
  assume "reg_ok m R" "registry_call_ok m x"
  with registry_do_grown [of m 0 R "fst x" "snd x"] show "registry_do x R \<noteq> Undefined"
    by (simp add: reg_grown defined_def)
next
  fix R x R'
  assume "reg_ok m R" "registry_call_ok m x" "registry_do x R = Done R'"
  with registry_do_grown [of m 0 R "fst x" "snd x"] show "reg_ok m R'"
    by (simp add: reg_grown) (metis definedD(2) reg_grown)
qed

text \<open>
  C11. No call of the registry is undefined. Whatever packets, SIP and Skinny messages, commands and expiry
  checks come, in any order, every session that a map names exists and no missing INVITE is used,
  provided the number in a NOTIFY is an index of the array of held parties and an error packet does not carry the
  call identifier of a Skinny call.
\<close>

theorem registry_never_undefined:
  assumes "reg_ok m R" "list_all (registry_call_ok m) xs"
  shows "run_calls registry_do xs R \<noteq> Undefined"
  by (rule registry.run_defined [OF assms])

lemma registry_new: "\<forall>i. length (si_payloadTypeMap (invites i)) = 32 \<Longrightarrow> reg_ok m (VoIpSessions_new invites k)"
  by (simp add: reg_def maps_ok_def VoIpSessions_new_def)

lemma reg_ok_parts:
  assumes "reg_ok m R"
  shows "map_of (rg_byIpAndPort R) q = Some a \<Longrightarrow> a < length (rg_sessions R)"
    "map_of (rg_byIpAndPort R) q = Some a \<Longrightarrow> q \<in> set (vs_mediaAddresses (session_at R a))"
    "map_of (rg_byIpAndPort R) q = Some a \<Longrightarrow> q \<noteq> 0"
    "map_of (rg_byIpAndPort R) q = Some a \<Longrightarrow> \<not> m \<Longrightarrow> length (vs_mediaAddresses (session_at R a)) \<le> 1"
    "map_of (rg_byCallId R) c = Some a \<Longrightarrow> a < length (rg_sessions R)"
    "map_of (rg_byCallId R) c = Some a \<Longrightarrow> c \<noteq> [] \<Longrightarrow> vs_callId (session_at R a) = c"
proof -
  note R = regD [OF assms]
  show "map_of (rg_byIpAndPort R) q = Some a \<Longrightarrow> a < length (rg_sessions R)" by (rule R(4))
  show mem: "map_of (rg_byIpAndPort R) q = Some a \<Longrightarrow> q \<in> set (vs_mediaAddresses (session_at R a))"
    using R(1) unfolding maps_ok_def by blast
  show "map_of (rg_byIpAndPort R) q = Some a \<Longrightarrow> q \<noteq> 0"
    using mem R(2) [OF R(4)] unfolding addressed_def by metis
  show "map_of (rg_byIpAndPort R) q = Some a \<Longrightarrow> \<not> m \<Longrightarrow> length (vs_mediaAddresses (session_at R a)) \<le> 1"
    using R(2) [OF R(4)] unfolding addressed_def by blast
  show "map_of (rg_byCallId R) c = Some a \<Longrightarrow> a < length (rg_sessions R)" by (rule R(5))
  show "map_of (rg_byCallId R) c = Some a \<Longrightarrow> c \<noteq> [] \<Longrightarrow> vs_callId (session_at R a) = c"
    using R(1) unfolding maps_ok_def by blast
qed

text \<open>
  C14. The maps of the registry agree with the sessions. From the start, after any calls: the session
  on a media address has that address in its list; the session of a call identifier has that identifier; and
  without multiple mappings a session is on one address at most.
\<close>

theorem registry_consistent:
  assumes "\<forall>i. length (si_payloadTypeMap (invites i)) = 32" "list_all (registry_call_ok m) xs"
    "run_calls registry_do xs (VoIpSessions_new invites k) = Done R"
  shows "(\<forall>q a. map_of (rg_byIpAndPort R) q = Some a \<longrightarrow>
      a < length (rg_sessions R) \<and> q \<in> set (vs_mediaAddresses (session_at R a)) \<and> q \<noteq> 0) \<and>
    (\<forall>c a. map_of (rg_byCallId R) c = Some a \<longrightarrow>
      a < length (rg_sessions R) \<and> (c = [] \<or> vs_callId (session_at R a) = c)) \<and>
    (\<forall>q q' a. \<not> m \<and> map_of (rg_byIpAndPort R) q = Some a \<and> map_of (rg_byIpAndPort R) q' = Some a \<longrightarrow> q = q')"
proof -
  have ok: "reg_ok m R" by (rule registry.run_inv [OF registry_new [OF assms(1)] assms(2,3)])
  note parts = reg_ok_parts [OF ok]
  have one: "q = q'" if "length xs \<le> 1" "q \<in> set xs" "q' \<in> set xs" for q q' and xs :: "u64 list"
    using that by (cases xs) auto
  show ?thesis
  proof (intro conjI allI impI)
    fix q q' a
    assume "\<not> m \<and> map_of (rg_byIpAndPort R) q = Some a \<and> map_of (rg_byIpAndPort R) q' = Some a"
    then show "q = q'" using parts(2) [of q a] parts(2) [of q' a] parts(4) [of q a] one by metis
  qed (use parts in blast)+
qed

lemma Stop_not_thrown: "Stop_session e a R \<noteq> Thrown"
proof -
  have "TaggingSipTransferCalls e a R \<noteq> Thrown"
    by (auto simp: TaggingSipTransferCalls_def Let_def split: option.split prod.split)
  then show ?thesis by (cases "TaggingSipTransferCalls e a R") (simp_all add: Stop_session_def Let_def)
qed

text \<open>
  C15. What \<open>Stop\<close> forgets. In every state the calls of the registry can reach, \<open>Stop\<close> returns; no media
  address leads to the session any more and every other address keeps its session; of the calls,
  exactly the entry of the session's own call identifier is erased, if it has one. So the stopped
  session is still in the map of the calls exactly when it was entered under the empty identifier,
  as \<open>StopCapture\<close> enters the session that takes over from a raw RTP session.
\<close>

theorem stop_forgets_session:
  assumes "reg_ok m R" "a < length (rg_sessions R)"
  shows "\<exists>R'. Stop_session e a R = Done R' \<and>
    (\<forall>q. map_of (rg_byIpAndPort R') q =
       (if map_of (rg_byIpAndPort R) q = Some a then None else map_of (rg_byIpAndPort R) q)) \<and>
    (\<forall>c. map_of (rg_byCallId R') c =
       (if c \<noteq> [] \<and> c = vs_callId (session_at R a) then None else map_of (rg_byCallId R) c)) \<and>
    (\<forall>c. map_of (rg_byCallId R') c = Some a \<longleftrightarrow> c = [] \<and> map_of (rg_byCallId R) [] = Some a)"
proof -
  have "grown m {} (length (rg_sessions R)) R" using assms(1) by (simp add: grown_def)
  note stop = Stop_grown [OF this assms(2), of e]
  obtain R' where R': "Stop_session e a R = Done R'"
    using definedD(1) [OF stop] Stop_not_thrown [of e a R] by (cases "Stop_session e a R") auto
  from definedD(2) [OF stop R']
  have maps: "map_of (rg_byIpAndPort R') = (\<lambda>k. if map_of (rg_byIpAndPort R) k = Some a then None else map_of (rg_byIpAndPort R) k)"
    "map_of (rg_byCallId R') = (if vs_callId (session_at R a) \<noteq> [] then (map_of (rg_byCallId R))(vs_callId (session_at R a) := None)
        else map_of (rg_byCallId R))" by blast+
  have "vs_callId (session_at R a) = c" if "map_of (rg_byCallId R) c = Some a" "c \<noteq> []" for c
    using that assms(1) unfolding reg_def maps_ok_def by blast
  then show ?thesis by (intro exI [of _ R'] conjI allI R') (auto simp: maps)
qed

end
