(* ===== verification/OrkVoipRegistryCases.thy ===== *)
theory OrkVoipRegistryCases
  imports OrkVoipRegistryRuns OrkVoipStreams OrkFields
begin

text \<open>
  What the registry of the sessions does with addresses, unknown streams and text, and where it goes
  wrong; and the examples at which the properties of the registry are applied.
\<close>

section \<open>Addresses\<close>

lemma removed_address:
  "map_of (rg_byIpAndPort (RemoveFromMediaAddressMap a k R)) q =
     (if q = k \<and> k \<noteq> 0 \<and> map_of (rg_byIpAndPort R) q = Some a then None else map_of (rg_byIpAndPort R) q)"
  by (auto simp: RemoveFromMediaAddressMap_def map_of_omap_erase)

lemma map_of_map_address:
  assumes "reg_ok m R" "a < length (rg_sessions R)" "vc_rtpAllowMultipleMappings c = m" "k \<noteq> 0"
    "map_of (rg_byIpAndPort R) k = None"
  shows "map_of (rg_byIpAndPort (map_address c a ip k R)) =
      (\<lambda>q. if q = k then Some a else if \<not> m \<and> map_of (rg_byIpAndPort R) q = Some a then None
        else map_of (rg_byIpAndPort R) q)"
proof -
  note R = regD [OF assms(1)]
  have only: "q = vs_ipAndPort (session_at R a) \<and> q \<noteq> 0" if "\<not> m" "map_of (rg_byIpAndPort R) q = Some a" for q
  proof -
    have "q \<in> set (vs_mediaAddresses (session_at R a))" "length (vs_mediaAddresses (session_at R a)) \<le> 1" "q \<noteq> 0"
      using reg_ok_parts(2,3,4) [OF assms(1) that(2)] that(1) by blast+
    with R(2) [OF assms(2)] show ?thesis
      by (cases "vs_mediaAddresses (session_at R a)") (auto simp: addressed_def)
  qed
  let ?T = "if \<not> m then RemoveFromMediaAddressMap a (vs_ipAndPort (session_at R a)) R else R"
  have T: "map_of (rg_byIpAndPort ?T) = (\<lambda>q. if \<not> m \<and> map_of (rg_byIpAndPort R) q = Some a then None
      else map_of (rg_byIpAndPort R) q)"
  proof
    fix q
    show "map_of (rg_byIpAndPort ?T) q = (if \<not> m \<and> map_of (rg_byIpAndPort R) q = Some a then None
      else map_of (rg_byIpAndPort R) q)"
    proof (cases "\<not> m \<and> map_of (rg_byIpAndPort R) q = Some a")
      case True
      then have "vs_ipAndPort (session_at R a) = q" "q \<noteq> 0" using only [of q] by blast+
      with True show ?thesis by (simp add: removed_address)
    next
      case False
      then show ?thesis by (cases m) (simp_all add: removed_address)
    qed
  qed
  have sorted: "sorted_wrt (<) (map fst (rg_byIpAndPort ?T))"
    using R(1) grown_remove [of m "{}" 0 R] assms(1) by (simp add: maps_ok_def grown_def reg_def)
  show ?thesis
    using media.lookup_insert [OF sorted, of k a] assms(5)
    by (auto simp: map_address_def Let_def insert_media_def assms(3) T fun_eq_iff split: if_splits)
qed

lemma SetMediaAddress_effect:
  assumes "reg_ok m R" "a < length (rg_sessions R)" "vc_rtpAllowMultipleMappings (ve_config e) = m"
    "media_address_allowed (ve_config e) ip port" "k = Craft64bitMediaAddress (ve_config e) ip port"
    "\<And>b. map_of (rg_byIpAndPort R) k = Some b \<Longrightarrow> gives_way (ve_config e) (session_at R b) (session_at R a) \<and>
      vs_protocol (session_at R b) \<noteq> ProtRawRtp \<and> \<not> ci_eq (os_trackingId (session_at R b)) (os_trackingId (session_at R a))"
  shows "\<exists>R' s. SetMediaAddress e a ip port R = Done R' \<and> rg_byCallId R' = rg_byCallId R \<and>
    map_of (rg_byIpAndPort R') = (\<lambda>q. if q = k then Some a
      else if \<not> m \<and> map_of (rg_byIpAndPort R) q = Some a then None else map_of (rg_byIpAndPort R) q) \<and>
    rg_sessions R' = (rg_sessions R)[a := s] \<and> vs_protocol s = vs_protocol (session_at R a)"
proof -
  have k: "k \<noteq> 0" using assms(4,5) crafted_not_zero by (simp add: media_address_allowed_def)
  define T where "T = (case map_of (rg_byIpAndPort R) k of None \<Rightarrow> R | Some b \<Rightarrow> RemoveFromMediaAddressMap b k R)"
  have room: "make_room e a k R = Done (True, T)"
    using assms(6) by (auto simp: make_room_def T_def split: option.split)
  have T: "map_of (rg_byIpAndPort T) = (map_of (rg_byIpAndPort R))(k := None)"
    using k by (auto simp: T_def removed_address fun_eq_iff split: option.split)
  have same: "rg_sessions T = rg_sessions R" "rg_byCallId T = rg_byCallId R"
    by (simp_all add: T_def RemoveFromMediaAddressMap_def split: option.split)
  have "reg_ok m T" "a < length (rg_sessions T)"
    using grown_remove [of m "{}" 0 R] assms(1,2)
    by (auto simp: T_def grown_def RemoveFromMediaAddressMap_def split: option.split)
  from map_of_map_address [OF this assms(3) k] T
  have "map_of (rg_byIpAndPort (map_address (ve_config e) a ip k T)) = (\<lambda>q. if q = k then Some a
      else if \<not> m \<and> map_of (rg_byIpAndPort R) q = Some a then None else map_of (rg_byIpAndPort R) q)"
    by (auto simp: fun_eq_iff)
  moreover have "rg_byCallId (map_address (ve_config e) a ip k T) = rg_byCallId R"
    by (simp add: map_address_def Let_def insert_media_def RemoveFromMediaAddressMap_def same)
  moreover have "\<exists>s. rg_sessions (map_address (ve_config e) a ip k T) = (rg_sessions R)[a := s] \<and>
      vs_protocol s = vs_protocol (session_at R a)"
    using assms(2) by (auto simp: map_address_def Let_def insert_media_def RemoveFromMediaAddressMap_def same)
  ultimately show ?thesis using assms(4) by (simp add: SetMediaAddress_def Let_def room flip: assms(5))
qed

text \<open>
  C17. A session gets the address of a message. Unless a raw RTP session is on the address, or one that
  does not give way, \<open>SetMediaAddress\<close> puts the session on it; without multiple mappings the session leaves its
  old address; the other sessions keep theirs.
\<close>

theorem media_address_set:
  assumes "reg_ok m R" "a < length (rg_sessions R)" "vc_rtpAllowMultipleMappings (ve_config e) = m"
    "media_address_allowed (ve_config e) ip port" "k = Craft64bitMediaAddress (ve_config e) ip port"
    "\<And>b. map_of (rg_byIpAndPort R) k = Some b \<Longrightarrow> gives_way (ve_config e) (session_at R b) (session_at R a) \<and>
      vs_protocol (session_at R b) \<noteq> ProtRawRtp \<and> \<not> ci_eq (os_trackingId (session_at R b)) (os_trackingId (session_at R a))"
  shows "\<exists>R'. SetMediaAddress e a ip port R = Done R' \<and> rg_byCallId R' = rg_byCallId R \<and>
    map_of (rg_byIpAndPort R') = (\<lambda>q. if q = k then Some a
      else if \<not> m \<and> map_of (rg_byIpAndPort R) q = Some a then None else map_of (rg_byIpAndPort R) q)"
  using SetMediaAddress_effect [OF assms] by blast

section \<open>Unknown streams\<close>

lemma ReportRtpPacket_unknown:
  assumes "reg_ok m R" "packet_ok p" "vc_rtpAllowMultipleMappings c = m" "se_config e = c"
    "\<not> vc_sangomaEnable c" "\<not> vc_skinnyRtpSearchesForCallInfo c" "\<not> IsRtpTrackingIpAddress c (rp_sourceIp p)"
    "bc_lookBackRecording (vc_base c) \<or> vc_trackRawRtpSessionInNonLookBackMode c"
    "findByMediaAddress c (rp_sourceIp p) (rp_sourcePort p) R = None"
    "findByMediaAddress c (rp_destIp p) (rp_destPort p) R = None"
    "media_address_allowed c (rp_destIp p) (rp_destPort p)"
    "ve_alloc (se_env e) = (\<lambda>_. True)" "acp_sessionStartsOnS2ActivityDb (vc_acp c) = 0"
  shows "\<exists>R' s. ReportRtpPacket e p R = Done R' \<and> rg_sessions R' = rg_sessions R @ [s] \<and> vs_protocol s = ProtRawRtp \<and>
    map_of (rg_byIpAndPort R') = (map_of (rg_byIpAndPort R))
      (Craft64bitMediaAddress c (rp_destIp p) (rp_destPort p) \<mapsto> length (rg_sessions R)) \<and>
    rg_byCallId R' = rg_byCallId R"
proof -
  let ?k = "Craft64bitMediaAddress c (rp_destIp p) (rp_destPort p)"
  obtain a R1 where new: "new_session e R = (a, R1)" by fastforce
  have "grown m {} 0 R" using assms(1) by (simp add: grown_def)
  note R1 = grown_new [OF this new]
  obtain s1 where R1': "rg_sessions R1 = rg_sessions R @ [s1]" "rg_byIpAndPort R1 = rg_byIpAndPort R"
    "rg_byCallId R1 = rg_byCallId R"
    using new by (auto simp: new_session_def split: prod.splits)
  define R2 where "R2 = set_session a (\<lambda>s. s\<lparr>vs_protocol := ProtRawRtp, vs_endPointIp := rp_destIp p\<rparr>) R1"
  have R2: "grown m {} (Suc a) R2" unfolding R2_def
    by (intro grown_set [OF R1(2)]) (simp_all add: R1(4) called_def new_session_props)
  then have R2': "reg_ok m R2" "a < length (rg_sessions R2)" by (auto simp: grown_def)
  have free: "map_of (rg_byIpAndPort R2) ?k = None"
    using assms(10) by (simp add: R2_def R1'(2) findByMediaAddress_def)
  have fresh: "map_of (rg_byIpAndPort R2) q \<noteq> Some a" for q
    using reg_ok_parts(1) [OF assms(1), of q a] R1(3) by (auto simp: R2_def R1'(2))
  have allowed: "media_address_allowed (se_config e) (rp_destIp p) (rp_destPort p)" using assms(4,11) by simp
  obtain R3 s where R3: "SetMediaAddress (se_env e) a (rp_destIp p) (rp_destPort p) R2 = Done R3"
    "rg_byCallId R3 = rg_byCallId R2" "rg_sessions R3 = (rg_sessions R2)[a := s]" "vs_protocol s = ProtRawRtp"
    "map_of (rg_byIpAndPort R3) = (\<lambda>q. if q = ?k then Some a
      else if \<not> m \<and> map_of (rg_byIpAndPort R2) q = Some a then None else map_of (rg_byIpAndPort R2) q)"
    using SetMediaAddress_effect [OF R2' _ allowed refl] assms(3,4) free R1(2)
    by (auto simp: R2_def grown_def)
  have g3: "grown m {} (Suc a) R3"
    by (rule definedD(2) [OF grown_SetMediaAddress [OF R2 lessI] R3(1)]) (simp add: assms(3,4))
  note add = grown_AddRtpPacket [OF g3 lessI assms(2), of "se_env e"]
  have "AddRtpPacket (se_env e) p (load R3 (session_at R3 a)) \<noteq> Thrown"
    using Add_no_throw assms(4,12,13) by simp
  then obtain b p' t where t: "AddRtpPacket (se_env e) p (load R3 (session_at R3 a)) = Done (b, p', t)"
    using definedD(1) [OF add] by (cases "AddRtpPacket (se_env e) p (load R3 (session_at R3 a))") auto
  have "called (session_at R3 a)" using regD(3) [OF grownD(1) [OF g3] grownD(2) [OF g3]] by simp
  from defined_AddRtpPacket [OF session_ok_load [OF grownD(1) [OF g3] this] assms(2), of "se_env e"]
  have "steady (load R3 (session_at R3 a)) t" using t by (simp add: defined_def yields_def)
  then have prot: "vs_protocol t = ProtRawRtp" using R3(3,4) R2'(2) by (simp add: steady_def)
  have "ReportRtpPacket e p R = raw_session e p None R"
    using assms(4-10) by (auto simp: ReportRtpPacket_def sangoma_packet_def Let_def give_to_def search_skinny_def)
  also have "\<dots> = Done (store a t R3)"
    using assms(4,5,7) R3(1) t by (simp add: raw_session_def new Let_def R2_def)
  finally have "ReportRtpPacket e p R = Done (store a t R3)" .
  moreover have "rg_sessions (store a t R3) = rg_sessions R @ [VoIpSession.truncate t]"
    by (simp add: R3(3) R2_def R1'(1) R1(3))
  moreover have "map_of (rg_byIpAndPort (store a t R3)) = (map_of (rg_byIpAndPort R))(?k \<mapsto> length (rg_sessions R))"
    using fresh by (auto simp: R3(5) R1(3) fun_eq_iff R2_def R1'(2))
  moreover have "rg_byCallId (store a t R3) = rg_byCallId R" by (simp add: R3(2) R2_def R1'(3))
  ultimately show ?thesis using prot by auto
qed

text \<open>
  C16. A packet of an unknown stream opens a session. If no session is on either address, exactly one
  session is created; it is a raw RTP session on the destination address, and nothing else changes in the maps.
\<close>

theorem rtp_opens_session:
  assumes "reg_ok m R" "packet_ok p" "vc_rtpAllowMultipleMappings c = m" "se_config e = c"
    "\<not> vc_sangomaEnable c" "\<not> vc_skinnyRtpSearchesForCallInfo c" "\<not> IsRtpTrackingIpAddress c (rp_sourceIp p)"
    "bc_lookBackRecording (vc_base c) \<or> vc_trackRawRtpSessionInNonLookBackMode c"
    "findByMediaAddress c (rp_sourceIp p) (rp_sourcePort p) R = None"
    "findByMediaAddress c (rp_destIp p) (rp_destPort p) R = None"
    "media_address_allowed c (rp_destIp p) (rp_destPort p)"
    "ve_alloc (se_env e) = (\<lambda>_. True)" "acp_sessionStartsOnS2ActivityDb (vc_acp c) = 0"
  shows "\<exists>R' s. ReportRtpPacket e p R = Done R' \<and> rg_sessions R' = rg_sessions R @ [s] \<and> vs_protocol s = ProtRawRtp \<and>
    map_of (rg_byIpAndPort R') = (map_of (rg_byIpAndPort R))
      (Craft64bitMediaAddress c (rp_destIp p) (rp_destPort p) \<mapsto> length (rg_sessions R)) \<and>
    rg_byCallId R' = rg_byCallId R"
  by (rule ReportRtpPacket_unknown [OF assms])

section \<open>Text of the URL extractor\<close>

lemma Registry_UnEscapeUrl_same:
  "Registry_UnEscapeUrl s = (case UnEscapeUrl s of None \<Rightarrow> Thrown | Some r \<Rightarrow> Done r)"
proof (induction s rule: Registry_UnEscapeUrl.induct)
  case (2 c cs)
  have lift: "and_then (case x of None \<Rightarrow> Thrown | Some r \<Rightarrow> Done r) (\<lambda>r. Done (h # r)) =
      (case map_option ((#) h) x of None \<Rightarrow> Thrown | Some r \<Rightarrow> Done r)" for x h
    by (cases x) simp_all
  show ?case
  proof (cases "c = CHR ''%''")
    case True
    show ?thesis
    proof (cases cs)
      case (Cons a as)
      with 2 True show ?thesis by (cases as) (simp_all add: lift)
    qed (simp add: True)
  next
    case False
    with 2 show ?thesis by (cases "c = CHR ''+''") (simp_all add: lift)
  qed
qed simp

text \<open>One character of a key or a value, before the end of the text.\<close>

lemma url_loop_char:
  "rest \<noteq> [] \<Longrightarrow> is_alnum ch \<Longrightarrow>
    url_loop e ip (ch # rest) UrlKeyState k v R = url_loop e ip rest UrlKeyState (k @ [ch]) v R"
  "rest \<noteq> [] \<Longrightarrow> ch \<noteq> CHR ''='' \<Longrightarrow> ch \<noteq> CHR ''&'' \<Longrightarrow>
    url_loop e ip (ch # rest) UrlValueState k v R = url_loop e ip rest UrlValueState k (v @ [ch]) R"
  by (simp_all add: url_step_def)

lemma url_step_key:
  "list_all is_alnum k \<Longrightarrow>
    url_loop e ip (k @ CHR ''='' # rest) UrlKeyState k' v R = url_loop e ip (CHR ''='' # rest) UrlKeyState (k' @ k) v R"
  by (induction k arbitrary: k') (simp_all add: url_loop_char del: url_loop.simps)

lemma url_step_value:
  "CHR ''='' \<notin> set v \<Longrightarrow> CHR ''&'' \<notin> set v \<Longrightarrow>
    url_loop e ip (v @ CHR ''&'' # rest) UrlValueState k v' R = url_loop e ip (CHR ''&'' # rest) UrlValueState k (v' @ v) R"
  by (induction v arbitrary: v') (auto simp: url_loop_char simp del: url_loop.simps)

lemma url_loop_pair:
  assumes "good_key k"
  shows "url_loop e ip (k @ ''='' @ EscapeUrl v @ ''&'' @ rest) UrlStartState [] [] R =
    url_loop e ip rest UrlStartState [] [] (url_insert e ip k v R)"
proof -
  obtain a as where k: "k = a # as" "is_alnum a" "list_all is_alnum as" using assms by (cases k) (auto simp: good_key_def)
  have "a \<noteq> CHR ''&''" using k(2) by auto
  then have "url_loop e ip (k @ ''='' @ EscapeUrl v @ ''&'' @ rest) UrlStartState [] [] R =
      url_loop e ip (as @ CHR ''='' # EscapeUrl v @ CHR ''&'' # rest) UrlKeyState [a] [] R"
    using k(2) by (simp add: k(1) url_step_def)
  also have "\<dots> = url_loop e ip (CHR ''='' # EscapeUrl v @ CHR ''&'' # rest) UrlKeyState k [] R"
    using url_step_key [OF k(3), where k' = "[a]"] by (simp add: k(1))
  also have "\<dots> = url_loop e ip (EscapeUrl v @ CHR ''&'' # rest) UrlValueState k [] R"
    by (simp add: url_step_def)
  also have "\<dots> = url_loop e ip (CHR ''&'' # rest) UrlValueState k (EscapeUrl v) R"
    using url_step_value [OF EscapeUrl_clean(2,1)] by simp
  also have "\<dots> = url_loop e ip rest UrlStartState [] [] (url_insert e ip k v R)"
    by (simp add: url_step_def Registry_UnEscapeUrl_same UnEscapeUrl_EscapeUrl k(1))
  finally show ?thesis .
qed

lemma url_loop_pairs:
  assumes "list_all (\<lambda>(k, v). good_key k) kvs"
  shows "url_loop e ip (urlf.lines_text kvs) UrlStartState [] [] R = Done (fold (\<lambda>(k, v). url_insert e ip k v) kvs R)"
  using assms
proof (induction kvs arbitrary: R)
  case (Cons x kvs)
  obtain k v where x: "x = (k, v)" by force
  with Cons.prems have k: "good_key k" by simp
  have "urlf.lines_text (x # kvs) = k @ ''='' @ EscapeUrl v @ ''&'' @ urlf.lines_text kvs"
    by (simp add: urlf.lines_text_def urlf.pair_text_def x)
  with Cons x show ?case using url_loop_pair [OF k] by simp
qed (simp add: urlf.lines_text_def)

lemma map_of_update_endpoint:
  "map_of (rg_endpoints (update_endpoint k f R)) q = (if q = k then map_option f (map_of (rg_endpoints R) q)
    else map_of (rg_endpoints R) q)"
proof -
  have "map_of (map (\<lambda>(k', x). if k' = k then (k', f x) else (k', x)) xs) q =
      (if q = k then map_option f (map_of xs q) else map_of xs q)" for xs
    by (induction xs) auto
  then show ?thesis by (simp add: update_endpoint_def)
qed

lemma map_of_inserted: "map_of m k = None \<Longrightarrow> map_of (omap_insert lt k v m) k = Some v"
  by (induction lt k v m rule: omap_insert.induct) auto

text \<open>What has been extracted for an address.\<close>

definition extracted :: "sessions_env \<Rightarrow> in_addr \<Rightarrow> VoIpSessions \<Rightarrow> string \<Rightarrow> (string \<times> int) option" where
  "extracted e ip R = (case map_of (rg_endpoints R) (Craft64bitMediaAddress (se_config e) ip 0) of
     Some ep \<Rightarrow> vi_urlExtractionMap ep | None \<Rightarrow> (\<lambda>_. None))"

lemma extracted_insert:
  "extracted e ip (url_insert e ip k v R) = (extracted e ip R)(k \<mapsto> (v, ve_now (se_env e)))"
  by (auto simp: extracted_def url_insert_def Let_def map_of_update_endpoint map_of_inserted fresh_endpoint_def
      split: option.split)

lemma extracted_pairs:
  "extracted e ip (fold (\<lambda>(k, v). url_insert e ip k v) kvs R) =
     extracted e ip R ++ (\<lambda>x. map_option (\<lambda>v. (v, ve_now (se_env e))) (map_of (rev kvs) x))"
proof (induction kvs arbitrary: R)
  case (Cons x kvs)
  then show ?case by (cases x) (auto simp: extracted_insert map_add_def fun_eq_iff split: option.split)
qed simp

text \<open>
  Text that the URL serialiser writes is extracted in full. Whatever the values (characters that
  need an escape included), each key has its last value, with the present time, at the endpoint of the sender; keys
  that are not in the text keep theirs.
\<close>

theorem url_text_extracted:
  assumes "list_all (\<lambda>(k, v). good_key k \<and> NUL \<notin> set v) kvs"
  shows "\<exists>R'. UrlExtraction e (concat (map (\<lambda>(k, v). UrlSerializer_AddString k v) kvs)) ip R = Done R' \<and>
    extracted e ip R' = extracted e ip R ++ (\<lambda>x. map_option (\<lambda>v. (v, ve_now (se_env e))) (map_of (rev kvs) x))"
proof -
  have ok: "good_key k" "NUL \<notin> set v" if "(k, v) \<in> set kvs" for k v using assms that by (auto simp: list_all_iff)
  then have "concat (map (\<lambda>(k, v). UrlSerializer_AddString k v) kvs) = urlf.lines_text kvs" by (intro url_wire_text)
  moreover have "trim (urlf.lines_text kvs) = urlf.lines_text kvs" using ok by (intro trim_url_text)
  moreover have "list_all (\<lambda>(k, v). good_key k) kvs" using ok by (auto simp: list_all_iff)
  ultimately show ?thesis by (simp add: UrlExtraction_def url_loop_pairs extracted_pairs)
qed

section \<open>Where the registry goes wrong\<close>

text \<open>
  Behind NAT, no Skinny call is found for RTP. The search starts from the present time and wants a
  call information at least as new, so calls signalled before never match, and the registry is unchanged.
\<close>

theorem nat_search_never_finds:
  assumes "\<And>a. a \<in> set (map snd (rg_byCallId R)) \<Longrightarrow> vs_skinnyLastCallInfoTime (session_at R a) < ve_nowUsec e"
  shows "SkinnyFindMostLikelySessionForRtpBehindNat e p R = Done (False, R)"
proof -
  have "fold (\<lambda>a (latest, found).
      let s = session_at R a
      in if (vs_endPointIp s = rp_sourceIp p \<or> vs_endPointIp s = rp_destIp p) \<and>
           vs_skinnyLastCallInfoTime s \<ge> latest \<and> vs_ipAndPort s = 0
         then (vs_skinnyLastCallInfoTime s, Some a) else (latest, found)) as (ve_nowUsec e, None) = (ve_nowUsec e, None)"
    if "set as \<subseteq> set (map snd (rg_byCallId R))" for as
    using that assms by (induction as) (force simp: Let_def)+
  then show ?thesis
    by (simp add: SkinnyFindMostLikelySessionForRtpBehindNat_def newest_behind_nat_def)
qed

text \<open>
  Two messages crash the registry. A NOTIFY that marks a hold of a known call with a number that is
  no index of the array of held parties; and an error response with the call identifier of a call without an INVITE.
\<close>

theorem registry_crashes:
  "(sn_onHoldMarker n \<and> newest_invited (se_config e) (sn_receiverIp n) R \<noteq> None \<and> (sn_pkey n < 0 \<or> 128 \<le> sn_pkey n) \<longrightarrow>
      Registry_ReportSipNotify e n R = Undefined) \<and>
   (findByCallId (fe_callId i) R = Some a \<and> a < length (rg_sessions R) \<and> vs_invite (session_at R a) = None \<and>
      fe_errorCode i \<noteq> ''407'' \<longrightarrow> Registry_ReportSipErrorPacket v i R = Undefined)"
  by (auto simp: Registry_ReportSipNotify_def Registry_ReportSipErrorPacket_def Let_def hold_slot_def on_session_def
      Session_ReportSipErrorPacket_def emit_def)

text \<open>
  C39. After \<open>StopCapture\<close> the rest of the call is recorded nowhere. The session that takes it over counts as
  having its metadata, so it never gets a capture port: its first event, the start, goes to the port without a name.
\<close>

theorem stop_capture_loses_port:
  assumes "reg_ok m R" "first_session p R = Some a" "\<not> vc_SkinnyTrackConferencesTransfers (ve_config v)"
  shows "\<exists>uid qos R' s ev. stop_capture e p R = Done (uid, qos, R') \<and> s = load R' (session_at R' (length (rg_sessions R))) \<and>
    process_metadata v q s = Done s \<and> sr_out (Session_Start v s) = sr_out s @ [EventCallback ev []] \<and> ev_type ev = EtStart"
proof -
  have g: "grown m {} (length (rg_sessions R)) R" using assms(1) by (simp add: grown_def)
  obtain b R1 where new: "new_session e R = (b, R1)" by fastforce
  note R1 = grown_new [OF g new]
  have a: "a < b" using first_session_found [OF g assms(2)] R1(3) by simp
  define R2 where "R2 = set_session b (CopyMetadataToNewSession (session_at R1 a)) R1"
  have s2: "session_at R2 b = CopyMetadataToNewSession (session_at R1 a) (session_at R1 b)"
    using grownD(2) [OF R1(2)] by (simp add: R2_def)
  have stop: "stop_capture e p R = and_then (Stop_session (se_env e) a R2) (\<lambda>R3. Done (vs_orkUid (session_at R a),
      qos_text (session_at R3 a), insert_call (vs_callId (session_at R3 b)) b (insert_media (vs_ipAndPort (session_at R3 b)) b R3)))"
    by (simp add: stop_capture_def assms(2) new Let_def R2_def)
  obtain R3 where R3: "Stop_session (se_env e) a R2 = Done R3"
    using definedD(1) [OF grown_stop_capture [OF g, of e p]] Stop_not_thrown [of "se_env e" a R2]
    by (cases "Stop_session (se_env e) a R2") (auto simp: stop)
  let ?R' = "insert_call (vs_callId (session_at R3 b)) b (insert_media (vs_ipAndPort (session_at R3 b)) b R3)"
  have "session_at R3 b = session_at R2 b" using yieldsD [OF Stop_others R3] a by simp
  then have s3: "session_at ?R' (length (rg_sessions R)) = CopyMetadataToNewSession (session_at R1 a) (session_at R1 b)"
    by (simp add: insert_call_def insert_media_def s2 flip: R1(3))
  let ?s = "load ?R' (session_at ?R' (length (rg_sessions R)))"
  have s: "vs_metadataProcessed ?s" "os_capturePort ?s = []"
    unfolding s3 R1(4) by (simp_all add: load_def VoIpSession.defs session_run.defs CopyMetadataToNewSession_def new_session_props)
  have "process_metadata v q ?s = Done ?s" using s(1) by (simp add: process_metadata_def)
  moreover have "\<exists>ev. sr_out (Session_Start v ?s) = sr_out ?s @ [EventCallback ev []] \<and> ev_type ev = EtStart"
    using s(2) assms(3) by (simp add: Session_Start_def Let_def emit_def GenerateOrkUid_def)
  ultimately show ?thesis by (auto simp: stop R3)
qed

section \<open>Examples\<close>

definition sample_sessions :: sessions_env where
  "sample_sessions = \<lparr>se_env = sample_env, se_junk = zero_session,
     se_junkEndpoint = \<lparr>vi_extension = [], vi_latestCallId = [], vi_ip = (0, 0, 0, 0), vi_skinnyPort = 0,
       vi_lastConferencePressed = 0, vi_lastConnectedWithConference = 0, vi_origOrkUid = [],
       vi_urlExtractionMap = (\<lambda>_. None), vi_preInviteNotify = None\<rparr>\<rparr>"

abbreviation no_sessions :: VoIpSessions where
  "no_sessions \<equiv> VoIpSessions_new (\<lambda>_. no_invite) 0"

definition at_address :: "VoIpSession" where
  "at_address = (VoIpSession_new sample_env ''AAAA'' zero_session)\<lparr>vs_protocol := ProtRawRtp, vs_mediaAddresses := [5],
     vs_ipAndPort := 5, vs_callId := ''7@10.0.0.1'', vs_localParty := ''100''\<rparr>"

definition one_session :: VoIpSessions where
  "one_session = no_sessions\<lparr>rg_sessions := [at_address], rg_byIpAndPort := [(5, 0)], rg_byCallId := [(''7@10.0.0.1'', 0)]\<rparr>"

lemma at_address_props:
  "vs_mediaAddresses at_address = [5]" "vs_ipAndPort at_address = 5" "vs_callId at_address = ''7@10.0.0.1''"
  "vs_protocol at_address = ProtRawRtp" "vs_invite at_address = None" "length (os_payloadTypeMap at_address) = 32"
  "vs_localParty at_address = ''100''" "vs_skinnyLastCallInfoTime at_address = 1000000000"
  by (simp_all add: at_address_def fresh_run_simps sample_env_def)

lemma skinny_example: "skinny_id ''7@10.0.0.1''"
proof -
  have "''7@10.0.0.1'' = GenerateSkinnyCallId sample_config (10, 0, 0, 1) 0 7"
    by (simp add: GenerateSkinnyCallId_def sample_config_def IpToString_def inet_ntopV4_def show_nat.simps digit_char_def char_of_def bit_Suc_0_iff)
  then show ?thesis unfolding skinny_id_def by blast
qed

lemma one_session_ok: "reg_ok False one_session"
  by (simp add: one_session_def reg_def maps_ok_def VoIpSessions_new_def addressed_def called_def at_address_props
      no_invite_def skinny_example)

theorem registry_never_undefined_witness:
  "run_calls registry_do [(sample_sessions, RgRtp (voice 5 1)), (sample_sessions, RgStop ''100''),
     (sample_sessions, RgHoover 2000), (sample_sessions, RgLineStat ''200'' \<lparr>fl_src = (10, 0, 0, 1), fl_dst = (10, 0, 0, 2),
       fl_srcPort = 2000, fl_dstPort = 2000\<rparr>), (sample_sessions, RgStopAll)] one_session \<noteq> Undefined"
  by (rule registry_never_undefined [OF one_session_ok])
    (simp add: sample_sessions_def sample_env_def sample_config_def packet_ok_def voice_def example_packet_def)

lemma voice_parts:
  "rp_sourceIp (voice n i) = (10, 0, 0, 1)" "rp_destIp (voice n i) = (10, 0, 0, 2)" "rp_sourcePort (voice n i) = 7000"
  "rp_destPort (voice n i) = 8000" "packet_ok (voice n i)"
  by (simp_all add: voice_def example_packet_def packet_ok_def)

lemma no_sessions_ok: "reg_ok False no_sessions"
  by (rule registry_new) (simp add: no_invite_def)

lemmas sample_simps = voice_parts sample_sessions_def sample_config_def sample_env_def example_base_def example_acp_def
  IsRtpTrackingIpAddress_def findByMediaAddress_def VoIpSessions_new_def media_address_allowed_def no_ranges_def
  IpRanges_Matches_def IpRanges_Empty_def

lemma sample_unknown:
  "\<exists>R'. ReportRtpPacket sample_sessions (voice 5 1) no_sessions = Done R'"
  using ReportRtpPacket_unknown [OF no_sessions_ok voice_parts(5), where c = sample_config and e = sample_sessions]
  by (force simp: sample_simps)

theorem rtp_opens_session_witness:
  "\<exists>R' s. ReportRtpPacket sample_sessions (voice 5 1) no_sessions = Done R' \<and> rg_sessions R' = rg_sessions no_sessions @ [s] \<and>
    vs_protocol s = ProtRawRtp \<and> map_of (rg_byIpAndPort R') = (map_of (rg_byIpAndPort no_sessions))
      (Craft64bitMediaAddress sample_config (rp_destIp (voice 5 1)) (rp_destPort (voice 5 1)) \<mapsto> length (rg_sessions no_sessions)) \<and>
    rg_byCallId R' = rg_byCallId no_sessions"
  by (rule rtp_opens_session [OF no_sessions_ok voice_parts(5)]) (simp_all add: sample_simps)

theorem registry_consistent_witness:
  "\<exists>R. run_calls registry_do [(sample_sessions, RgRtp (voice 5 1))] no_sessions = Done R \<and>
    (\<forall>q a. map_of (rg_byIpAndPort R) q = Some a \<longrightarrow>
      a < length (rg_sessions R) \<and> q \<in> set (vs_mediaAddresses (session_at R a)) \<and> q \<noteq> 0)"
proof -
  obtain R where R: "ReportRtpPacket sample_sessions (voice 5 1) no_sessions = Done R" using sample_unknown by blast
  then have run: "run_calls registry_do [(sample_sessions, RgRtp (voice 5 1))] no_sessions = Done R" by simp
  have "list_all (registry_call_ok False) [(sample_sessions, RgRtp (voice 5 1))]" by (simp add: sample_simps)
  from registry_consistent [OF _ this run] run show ?thesis by (simp add: no_invite_def)
qed

theorem stop_forgets_session_witness:
  "\<exists>R'. Stop_session sample_env 0 one_session = Done R' \<and> (\<forall>q. map_of (rg_byIpAndPort R') q \<noteq> Some 0)"
proof -
  have "0 < length (rg_sessions one_session)" by (simp add: one_session_def)
  from stop_forgets_session [OF one_session_ok this, of sample_env] show ?thesis by auto
qed

theorem media_address_set_witness:
  "\<exists>R'. SetMediaAddress sample_env 0 (1, 2, 3, 4) 9000 one_session = Done R' \<and>
    rg_byCallId R' = rg_byCallId one_session \<and> map_of (rg_byIpAndPort R') =
      (\<lambda>q. if q = Craft64bitMediaAddress sample_config (1, 2, 3, 4) 9000 then Some 0
        else if \<not> False \<and> map_of (rg_byIpAndPort one_session) q = Some 0 then None else map_of (rg_byIpAndPort one_session) q)"
  by (rule media_address_set [OF one_session_ok])
    (simp_all add: sample_simps one_session_def Craft64bitMediaAddress_def s_addr_def)

theorem url_text_extracted_witness:
  "\<exists>R'. UrlExtraction sample_sessions (concat (map (\<lambda>(k, v). UrlSerializer_AddString k v) [(''a'', ''x y''), (''b'', ''&='')]))
      (10, 0, 0, 1) no_sessions = Done R' \<and>
    extracted sample_sessions (10, 0, 0, 1) R' = extracted sample_sessions (10, 0, 0, 1) no_sessions ++
      (\<lambda>x. map_option (\<lambda>v. (v, ve_now (se_env sample_sessions))) (map_of (rev [(''a'', ''x y''), (''b'', ''&='')]) x))"
  by (rule url_text_extracted) (simp add: good_key_def char_defs)

theorem nat_search_never_finds_witness:
  "SkinnyFindMostLikelySessionForRtpBehindNat (sample_env\<lparr>ve_nowUsec := 2000000000\<rparr>) (voice 5 1) one_session =
    Done (False, one_session)"
  by (rule nat_search_never_finds) (simp add: one_session_def at_address_props)

definition hold_notify :: SipNotifyInfo where
  "hold_notify = \<lparr>sn_callId = [], sn_senderIp = (0, 0, 0, 0), sn_receiverIp = (0, 0, 0, 0), sn_dsp = [],
     sn_onHoldMarker = True, sn_offHoldMarker = False, sn_pkey = 128\<rparr>"

definition two_sessions :: VoIpSessions where
  "two_sessions = one_session\<lparr>rg_sessions := [at_address, at_address\<lparr>vs_protocol := ProtSip, vs_mediaAddresses := [],
     vs_callId := ''a'', vs_invite := Some 0\<rparr>], rg_byCallId := [(''7@10.0.0.1'', 0), (''a'', 1)]\<rparr>"

theorem registry_crashes_witness:
  "Registry_ReportSipNotify sample_sessions hold_notify two_sessions = Undefined \<and>
   Registry_ReportSipErrorPacket sample_env \<lparr>fe_callId = ''7@10.0.0.1'', fe_errorCode = ''486''\<rparr> two_sessions = Undefined"
  using registry_crashes [of hold_notify sample_sessions two_sessions "\<lparr>fe_callId = ''7@10.0.0.1'', fe_errorCode = ''486''\<rparr>" 0 sample_env]
  by (simp add: hold_notify_def two_sessions_def one_session_def at_address_props newest_invited_def findByCallId_def
      VoIpSessions_new_def no_invite_def MatchesReferenceAddresses_def sample_sessions_def sample_env_def sample_config_def
      IpRanges_Matches_def no_ranges_def)

theorem stop_capture_loses_port_witness:
  "\<exists>uid qos R' s ev. stop_capture sample_sessions (PartyMatches ''100'') one_session = Done (uid, qos, R') \<and>
    s = load R' (session_at R' (length (rg_sessions one_session))) \<and> process_metadata sample_env (voice 5 1) s = Done s \<and>
    sr_out (Session_Start sample_env s) = sr_out s @ [EventCallback ev []] \<and> ev_type ev = EtStart"
  by (rule stop_capture_loses_port [OF one_session_ok, of _ 0])
    (simp_all add: first_session_def one_session_def PartyMatches_def at_address_props ci_eq_def sample_env_def sample_config_def)

end
