(* ===== verification/OrkSipText.thy ===== *)
theory OrkSipText
  imports OrkSipTcp OrkUtils
begin

text \<open>
  Reading text in a captured packet (audiocaptureplugins/voip/ParsingUtils.cpp): the searches and the
  \<open>Grab\<close> routines that the SIP parsers are made of.

  The memory is the list of bytes from the beginning of the payload on, including what can be read
  behind the packet, and a pointer is an offset in it: most of these loops look at a byte before they
  compare the pointer with the limit, and some take no limit at all. A read behind the memory is
  undefined. The routines append to a string that is empty at every call; the models return the text.
\<close>

section \<open>Searches\<close>

definition offset_by :: "nat \<Rightarrow> nat option outcome \<Rightarrow> nat option outcome" where
  "offset_by k r = and_then r (\<lambda>x. Done (map_option (\<lambda>i. i + k) x))"

text \<open>
  The loop of both searches: the comparison \<open>m\<close> is tried at the first position, and from then on where
  \<open>memchr\<close> (or \<open>memnchr\<close>) stops, with the number of bytes that are left. \<open>None\<close> is a comparison that
  leaves the memory.
\<close>

fun mem_search :: "(char \<Rightarrow> bool) \<Rightarrow> (string \<Rightarrow> nat \<Rightarrow> bool option) \<Rightarrow> bool \<Rightarrow> string \<Rightarrow> nat \<Rightarrow> nat option outcome" where
  "mem_search first m here cs 0 = Done None"
| "mem_search first m here [] (Suc n) = Undefined"
| "mem_search first m here (c # cs) (Suc n) =
     (if here \<or> first c then
        (case m (c # cs) (Suc n) of
           None \<Rightarrow> Undefined
         | Some True \<Rightarrow> Done (Some 0)
         | Some False \<Rightarrow> offset_by 1 (mem_search first m False cs n))
      else offset_by 1 (mem_search first m False cs n))"

text \<open>\<open>memnchr\<close> accepts the byte in both cases.\<close>

definition memnchr_hit :: "char \<Rightarrow> char \<Rightarrow> bool" where
  "memnchr_hit a c \<longleftrightarrow> c = to_lower a \<or> c = to_upper a"

definition memFindAfter_pu :: "string \<Rightarrow> string \<Rightarrow> nat \<Rightarrow> nat \<Rightarrow> nat option outcome" where
  "memFindAfter_pu toFind mem start stop =
     (let pat = c_str toFind
      in offset_by (start + length pat)
           (mem_search (memnchr_hit (hd pat)) (\<lambda>s n. match_ci pat s) True (drop start mem) (stop - start)))"

text \<open>
  \<open>memFindStr\<close> looks for the first byte in its own case and compares no more than what is left: the
  beginning of the pattern at the end of the text is found, too.
\<close>

definition memFindStr_pu :: "string \<Rightarrow> string \<Rightarrow> nat \<Rightarrow> nat \<Rightarrow> nat option outcome" where
  "memFindStr_pu toFind mem start stop =
     (let pat = c_str toFind
      in offset_by start
           (mem_search (\<lambda>c. c = hd pat) (\<lambda>s n. match_ci (take n pat) s) True (drop start mem) (stop - start)))"

fun strchr :: "char \<Rightarrow> string \<Rightarrow> nat option outcome" where
  "strchr x [] = Undefined"
| "strchr x (c # cs) = (if c = x then Done (Some 0) else if c = NUL then Done None else offset_by 1 (strchr x cs))"

section \<open>Grabbing\<close>

text \<open>The common loop: the byte is tested first, and then the distance to the limit.\<close>

fun scan :: "(char \<Rightarrow> bool) \<Rightarrow> string \<Rightarrow> nat \<Rightarrow> string outcome" where
  "scan P [] n = Undefined"
| "scan P (c # cs) n = (if P c \<and> 0 < n then and_then (scan P cs (n - 1)) (\<lambda>s. Done (c # s)) else Done [])"

definition grab_while :: "(char \<Rightarrow> bool) \<Rightarrow> string \<Rightarrow> nat \<Rightarrow> nat \<Rightarrow> string outcome" where
  "grab_while P mem i limit = scan P (drop i mem) (limit - i)"

definition memFindEOL_pu :: "string \<Rightarrow> nat \<Rightarrow> nat \<Rightarrow> nat outcome" where
  "memFindEOL_pu mem start limit =
     and_then (grab_while (\<lambda>c. c \<noteq> CR \<and> c \<noteq> LF) mem start limit) (\<lambda>s.
     let c = start + length s in Done (if mem ! c = CR \<or> mem ! c = LF then c else start))"

definition GrabToken :: "string \<Rightarrow> nat \<Rightarrow> nat \<Rightarrow> string outcome" where
  "GrabToken = grab_while (\<lambda>c. c \<noteq> NUL \<and> c \<noteq> CHR '' '' \<and> c \<noteq> CR \<and> c \<noteq> LF)"

definition GrabTokenAcceptSpace :: "string \<Rightarrow> nat \<Rightarrow> nat \<Rightarrow> string outcome" where
  "GrabTokenAcceptSpace = grab_while (\<lambda>c. c \<noteq> NUL \<and> c \<noteq> CR \<and> c \<noteq> LF)"

definition SkipWhitespaces :: "string \<Rightarrow> nat \<Rightarrow> nat \<Rightarrow> nat outcome" where
  "SkipWhitespaces mem i limit =
     and_then (grab_while (\<lambda>c. c = CHR '' '' \<and> c \<noteq> NUL \<and> c \<noteq> CR \<and> c \<noteq> LF) mem i limit) (\<lambda>s.
     Done (i + length s))"

definition GrabTokenSkipLeadingWhitespaces :: "string \<Rightarrow> nat \<Rightarrow> nat \<Rightarrow> string outcome" where
  "GrabTokenSkipLeadingWhitespaces mem i limit =
     and_then (SkipWhitespaces mem i limit) (\<lambda>c. GrabToken mem c limit)"

text \<open>The second loop of \<open>GrabAlphaNumToken\<close> has no limit.\<close>

definition GrabAlphaNumToken :: "string \<Rightarrow> nat \<Rightarrow> nat \<Rightarrow> string outcome" where
  "GrabAlphaNumToken mem i limit =
     and_then (grab_while (\<lambda>c. \<not> is_alnum c) mem i limit) (\<lambda>s.
     let start = i + length s
     in if Suc start = limit then Done [] else grab_while is_alnum mem start (length mem))"

definition GrabAlphaNumTokenSkipLeadingWhitespaces :: "string \<Rightarrow> nat \<Rightarrow> nat \<Rightarrow> string outcome" where
  "GrabAlphaNumTokenSkipLeadingWhitespaces mem i limit =
     and_then (SkipWhitespaces mem i limit) (\<lambda>c. GrabAlphaNumToken mem c limit)"

definition GrabDisplayableToken :: "string \<Rightarrow> nat \<Rightarrow> nat \<Rightarrow> (string \<times> nat option) outcome" where
  "GrabDisplayableToken mem i limit =
     and_then (grab_while (\<lambda>c. \<not> is_graph c) mem i limit) (\<lambda>s.
     let start = i + length s
     in if Suc start = limit then Done ([], None)
        else and_then (grab_while is_graph mem start limit) (\<lambda>out. Done (out, Some (start + length out))))"

text \<open>\<open>GrabString\<close> includes the byte at \<open>stop\<close>; \<open>GrabLine\<close> tests the limit first.\<close>

definition GrabString :: "string \<Rightarrow> nat \<Rightarrow> nat \<Rightarrow> string outcome" where
  "GrabString mem start stop =
     (if stop < start then Done []
      else if stop < length mem then Done (take (Suc stop - start) (drop start mem)) else Undefined)"

fun scan_line :: "string \<Rightarrow> nat \<Rightarrow> string outcome" where
  "scan_line cs 0 = Done []"
| "scan_line [] (Suc n) = Undefined"
| "scan_line (c # cs) (Suc n) =
     (if c \<noteq> CR \<and> c \<noteq> LF then and_then (scan_line cs n) (\<lambda>s. Done (c # s)) else Done [])"

definition GrabLine :: "string \<Rightarrow> nat \<Rightarrow> nat \<Rightarrow> (string \<times> nat) outcome" where
  "GrabLine mem start limit =
     and_then (scan_line (drop start mem) (limit - start)) (\<lambda>s. Done (s, start + length s))"

definition GrabLineSkipLeadingWhitespace :: "string \<Rightarrow> nat \<Rightarrow> nat \<Rightarrow> string outcome" where
  "GrabLineSkipLeadingWhitespace mem start limit =
     and_then (SkipWhitespaces mem start limit) (\<lambda>c.
     and_then (GrabLine mem c limit) (\<lambda>(out, e). Done out))"

section \<open>Parts of a SIP address\<close>

definition user_char :: "char \<Rightarrow> bool" where
  "user_char c \<longleftrightarrow> is_alnum c \<or> c \<in> set ''#*.+-_''"

definition GrabSipUriUser :: "string \<Rightarrow> nat \<Rightarrow> nat \<Rightarrow> string outcome" where
  "GrabSipUriUser mem i limit =
     and_then (SkipWhitespaces mem i limit) (\<lambda>u.
     if limit \<le> u then Done [] else grab_while (\<lambda>c. user_char c \<or> c = CHR ''%'') mem u limit)"

text \<open>\<open>GrabSipUserAddress\<close> ends at the second part of the host, a colon behind the at sign.\<close>

fun cut_port :: "bool \<Rightarrow> string \<Rightarrow> string" where
  "cut_port passed [] = []"
| "cut_port passed (c # cs) =
     (let p = passed \<or> c = CHR ''@'' in if c = CHR '':'' \<and> p then [] else c # cut_port p cs)"

fun scan_address :: "bool \<Rightarrow> string \<Rightarrow> nat \<Rightarrow> string outcome" where
  "scan_address passed [] n = Undefined"
| "scan_address passed (c # cs) n =
     (if (user_char c \<or> c = CHR '':'' \<or> c = CHR ''@'') \<and> 0 < n then
        (let p = passed \<or> c = CHR ''@''
         in if c = CHR '':'' \<and> p then Done [] else and_then (scan_address p cs (n - 1)) (\<lambda>s. Done (c # s)))
      else Done [])"

definition GrabSipUserAddress :: "string \<Rightarrow> nat \<Rightarrow> nat \<Rightarrow> string outcome" where
  "GrabSipUserAddress mem i limit =
     and_then (SkipWhitespaces mem i limit) (\<lambda>u.
     if limit \<le> u then Done [] else scan_address False (drop u mem) (limit - u))"

definition GrabSipUriDomain :: "string \<Rightarrow> nat \<Rightarrow> nat \<Rightarrow> string outcome" where
  "GrabSipUriDomain mem i limit =
     and_then (SkipWhitespaces mem i limit) (\<lambda>u.
     if limit \<le> u then Done []
     else and_then (strchr CHR ''@'' (drop u mem)) (\<lambda>at.
       case at of
         None \<Rightarrow> Done []
       | Some k \<Rightarrow>
           let d = u + k + 1
           in if d \<ge> length mem then Undefined
              else if mem ! d = NUL \<or> limit \<le> d then Done []
              else grab_while (\<lambda>c. is_alnum c \<or> c \<in> set ''.-_'') mem d limit))"

text \<open>
  The text before the address, without an opening quote; a closing quote or blank that is the last or,
  for a quote, the last but one character ends it.
\<close>

fun name_chars :: "bool \<Rightarrow> string \<Rightarrow> string" where
  "name_chars first [] = []"
| "name_chars first (c # cs) =
     (if first \<and> c = CHR 0x22 then name_chars False cs
      else if length cs \<le> 1 \<and> c = CHR 0x22 then []
      else if cs = [] \<and> c = CHR '' '' then []
      else c # name_chars False cs)"

definition GrabSipName :: "string \<Rightarrow> nat \<Rightarrow> nat \<Rightarrow> string outcome" where
  "GrabSipName mem i limit =
     and_then (SkipWhitespaces mem i limit) (\<lambda>s.
     and_then (memFindStr_pu ''<sip:'' mem s limit) (\<lambda>e.
     case e of
       None \<Rightarrow> Done []
     | Some e \<Rightarrow> if limit \<le> s \<or> e \<le> s then Done [] else Done (name_chars True (take (e - s) (drop s mem)))))"

section \<open>Bytes as text\<close>

text \<open>\<open>%x\<close>; a \<open>char\<close> is signed, so \<open>sprintf\<close> with \<open>%.2x\<close> shows a byte from 128 on with 32 bits.\<close>

definition hex_nibble :: "nat \<Rightarrow> char" where
  "hex_nibble d = (if d < 10 then char_of (48 + d) else char_of (87 + d))"

definition hex_byte :: "nat \<Rightarrow> string" where
  "hex_byte n = [hex_nibble (n div 16), hex_nibble (n mod 16)]"

definition memToHex :: "u8 list \<Rightarrow> string" where
  "memToHex bs = concat (map (\<lambda>b. hex_byte (unat b)) bs)"

definition hex_char :: "char \<Rightarrow> string" where
  "hex_char c = (if chr_code c < 128 then hex_byte (chr_code c) else ''ffffff'' @ hex_byte (chr_code c))"

section \<open>The routines stay in the memory\<close>

text \<open>A NUL at \<open>z\<close> ends every search and every loop whose limit is no later.\<close>

definition mem_end :: "string \<Rightarrow> nat \<Rightarrow> bool" where
  "mem_end mem z \<longleftrightarrow> z < length mem \<and> mem ! z = NUL"

named_theorems text_ok

lemma scan_eq:
  "n < length cs \<or> (\<exists>c\<in>set cs. \<not> P c) \<Longrightarrow> scan P cs n = Done (takeWhile P (take n cs))"
proof (induction cs arbitrary: n)
  case (Cons c cs)
  then show ?case by (cases n) auto
qed simp

lemma grab_while_eq:
  "i < length mem \<Longrightarrow> limit < length mem \<Longrightarrow>
    grab_while P mem i limit = Done (takeWhile P (take (limit - i) (drop i mem)))"
  unfolding grab_while_def by (rule scan_eq) auto

lemma grab_while_ok [text_ok]:
  assumes "mem_end mem z" "i \<le> z" "limit \<le> z"
  shows "defined (\<lambda>s. i + length s \<le> z) (grab_while P mem i limit)"
proof -
  let ?s = "takeWhile P (take (limit - i) (drop i mem))"
  have "length ?s \<le> limit - i" using length_takeWhile_le [of P "take (limit - i) (drop i mem)"] by simp
  then have "i + length ?s \<le> z" using assms(2,3) by linarith
  then show ?thesis using assms by (simp add: grab_while_eq mem_end_def defined_def yields_def)
qed

lemma grab_while_any: "mem_end mem z \<Longrightarrow> i \<le> z \<Longrightarrow> limit \<le> z \<Longrightarrow> defined (\<lambda>_. True) (grab_while P mem i limit)"
  by (rule outcome_mono(2), rule grab_while_ok) simp_all

lemma match_ci_no_NUL:
  "match_ci pat s = Some True \<Longrightarrow> NUL \<notin> set pat \<Longrightarrow> k < length pat \<Longrightarrow> s ! k \<noteq> NUL"
proof (induction pat s arbitrary: k rule: match_ci.induct)
  case (3 p ps c cs)
  then show ?case by (cases k) (auto simp: to_lower_NUL split: if_splits)
qed auto

lemma match_ci_NUL_defined:
  "NUL \<in> set s \<Longrightarrow> NUL \<notin> set pat \<Longrightarrow> match_ci pat s \<noteq> None"
  by (induction pat s rule: match_ci.induct) (auto simp: to_lower_NUL split: if_splits)

lemma offset_by_ok:
  "defined (\<lambda>r. \<forall>q. r = Some q \<longrightarrow> P (q + k)) m \<Longrightarrow> defined (\<lambda>r. \<forall>q. r = Some q \<longrightarrow> P q) (offset_by k m)"
  unfolding offset_by_def by (erule defined_intros(3)) (rule defined_intros(1), auto)

text \<open>A search that is defined wherever it compares reports a position where it compared successfully.\<close>

lemma mem_search_ok:
  assumes "\<And>k. k < n \<Longrightarrow> m (drop k cs) (n - k) \<noteq> None" "n \<le> length cs"
  shows "defined (\<lambda>r. \<forall>q. r = Some q \<longrightarrow> q < n \<and> m (drop q cs) (n - q) = Some True) (mem_search first m here cs n)"
  using assms
proof (induction first m here cs n rule: mem_search.induct)
  case (3 first m here c cs n)
  have m0: "m (c # cs) (Suc n) \<noteq> None" using "3.prems"(1) [of 0] by simp
  have rest: "\<And>k. k < n \<Longrightarrow> m (drop k cs) (n - k) \<noteq> None" "n \<le> length cs"
    using "3.prems"(1) [of "Suc k" for k] "3.prems"(2) by auto
  let ?Q = "\<lambda>q. q < Suc n \<and> m (drop q (c # cs)) (Suc n - q) = Some True"
  have shift: "defined (\<lambda>r. \<forall>q. r = Some q \<longrightarrow> ?Q q) (offset_by 1 r')"
    if "defined (\<lambda>r. \<forall>q. r = Some q \<longrightarrow> q < n \<and> m (drop q cs) (n - q) = Some True) r'" for r'
    by (rule offset_by_ok) (use that in simp)
  show ?case
  proof (cases "here \<or> first c")
    case True
    obtain b where b: "m (c # cs) (Suc n) = Some b" using m0 by auto
    show ?thesis
    proof (cases b)
      case True
      with b \<open>here \<or> first c\<close> show ?thesis by (simp add: defined_def yields_def)
    next
      case False
      then have "b = False" by simp
      with b shift [OF "3.IH"(1) [OF \<open>here \<or> first c\<close> b _ rest]] \<open>here \<or> first c\<close> show ?thesis by simp
    qed
  next
    case False
    then show ?thesis using shift [OF "3.IH"(2) [OF False rest]] by simp
  qed
qed (auto simp: defined_def yields_def)

lemma c_str_no_NUL: "NUL \<notin> set (c_str s)"
  by (auto simp: c_str_def dest: set_takeWhileD)

lemma memFindAfter_ok [text_ok]:
  assumes "mem_end mem z" "stop \<le> z"
  shows "defined (\<lambda>r. \<forall>q. r = Some q \<longrightarrow> start \<le> q \<and> q \<le> z) (memFindAfter_pu pat mem start stop)"
proof (cases "start < stop")
  case False
  then show ?thesis by (simp add: memFindAfter_pu_def offset_by_def defined_def yields_def)
next
  case True
  let ?p = "c_str pat" and ?cs = "drop start mem" and ?n = "stop - start"
  let ?m = "\<lambda>s (n :: nat). match_ci ?p s"
  have z: "z < length mem" "mem ! z = NUL" using assms(1) by (auto simp: mem_end_def)
  have nul: "?m (drop k ?cs) (?n - k) \<noteq> None" if "k < ?n" for k
  proof -
    have "drop k ?cs ! (z - start - k) = NUL" "z - start - k < length (drop k ?cs)"
      using that z assms(2) True by simp_all
    then have "NUL \<in> set (drop k ?cs)" by (metis nth_mem)
    then show ?thesis by (rule match_ci_NUL_defined) (rule c_str_no_NUL)
  qed
  have "?n \<le> length ?cs" using z assms(2) by simp
  with nul have s: "defined (\<lambda>r. \<forall>q. r = Some q \<longrightarrow> q < ?n \<and> ?m (drop q ?cs) (?n - q) = Some True)
      (mem_search (memnchr_hit (hd ?p)) ?m True ?cs ?n)" by (rule mem_search_ok)
  have fits: "q + (start + length ?p) \<le> z" if q: "q < ?n" "?m (drop q ?cs) (?n - q) = Some True" for q
  proof (rule ccontr)
    assume "\<not> q + (start + length ?p) \<le> z"
    then have "z - start - q < length ?p" using q(1) assms(2) by linarith
    from match_ci_no_NUL [OF q(2) c_str_no_NUL this] show False
      using q(1) z assms(2) by simp
  qed
  then show ?thesis
    unfolding memFindAfter_pu_def Let_def
    by (intro offset_by_ok) (rule outcome_mono(2) [OF s], use fits in \<open>auto simp: add_ac\<close>)
qed

lemma memFindStr_ok [text_ok]:
  assumes "mem_end mem z" "stop \<le> z"
  shows "defined (\<lambda>r. \<forall>q. r = Some q \<longrightarrow> start \<le> q \<and> q < stop) (memFindStr_pu pat mem start stop)"
proof (cases "start < stop")
  case False
  then show ?thesis by (simp add: memFindStr_pu_def offset_by_def defined_def yields_def)
next
  case True
  let ?p = "c_str pat" and ?cs = "drop start mem" and ?n = "stop - start"
  have z: "z < length mem" using assms(1) by (auto simp: mem_end_def)
  have short: "length p \<le> length s \<Longrightarrow> match_ci p s \<noteq> None" for p s
    by (induction p s rule: match_ci.induct) auto
  have "match_ci (take (?n - k) ?p) (drop k ?cs) \<noteq> None" if "k < ?n" for k
    using z assms(2) that by (intro short) simp
  moreover have "?n \<le> length ?cs" using z assms(2) by simp
  ultimately have "defined (\<lambda>r. \<forall>q. r = Some q \<longrightarrow> q < ?n \<and> match_ci (take (?n - q) ?p) (drop q ?cs) = Some True)
      (mem_search (\<lambda>c. c = hd ?p) (\<lambda>s n. match_ci (take n ?p) s) True ?cs ?n)" by (rule mem_search_ok)
  then show ?thesis
    unfolding memFindStr_pu_def Let_def
    by (intro offset_by_ok) (erule outcome_mono(2), use True in auto)
qed

lemma strchr_ok:
  "NUL \<in> set cs \<Longrightarrow> x \<noteq> NUL \<Longrightarrow>
    defined (\<lambda>r. \<forall>q. r = Some q \<longrightarrow> q < length cs \<and> cs ! q = x \<and> (\<forall>k\<le>q. cs ! k \<noteq> NUL)) (strchr x cs)"
proof (induction cs)
  case (Cons c cs)
  show ?case
  proof (cases "c = x \<or> c = NUL")
    case True
    then show ?thesis using Cons.prems by (auto simp: defined_def yields_def)
  next
    case False
    with Cons have ih: "defined (\<lambda>r. \<forall>q. r = Some q \<longrightarrow> q < length cs \<and> cs ! q = x \<and> (\<forall>k\<le>q. cs ! k \<noteq> NUL)) (strchr x cs)"
      by auto
    have "defined (\<lambda>r. \<forall>q. r = Some q \<longrightarrow> q < length (c # cs) \<and> (c # cs) ! q = x \<and> (\<forall>k\<le>q. (c # cs) ! k \<noteq> NUL))
        (offset_by 1 (strchr x cs))"
      by (rule offset_by_ok, rule outcome_mono(2) [OF ih]) (use False in \<open>auto simp: nth_Cons split: nat.split\<close>)
    then show ?thesis using False by simp
  qed
qed simp

lemma SkipWhitespaces_ok [text_ok]:
  "mem_end mem z \<Longrightarrow> i \<le> z \<Longrightarrow> limit \<le> z \<Longrightarrow> defined (\<lambda>u. i \<le> u \<and> u \<le> z) (SkipWhitespaces mem i limit)"
  unfolding SkipWhitespaces_def
  by (rule defined_intros(3) [OF grab_while_ok]) (auto intro: defined_intros(1))

lemma GrabToken_ok [text_ok]:
  "mem_end mem z \<Longrightarrow> i \<le> z \<Longrightarrow> limit \<le> z \<Longrightarrow> defined (\<lambda>s. i + length s \<le> z) (GrabToken mem i limit)"
  "mem_end mem z \<Longrightarrow> i \<le> z \<Longrightarrow> limit \<le> z \<Longrightarrow> defined (\<lambda>s. i + length s \<le> z) (GrabTokenAcceptSpace mem i limit)"
  unfolding GrabToken_def GrabTokenAcceptSpace_def by (rule grab_while_ok; assumption)+

lemma GrabTokenSkip_ok [text_ok]:
  "mem_end mem z \<Longrightarrow> i \<le> z \<Longrightarrow> limit \<le> z \<Longrightarrow>
    defined (\<lambda>s. i + length s \<le> z) (GrabTokenSkipLeadingWhitespaces mem i limit)"
  unfolding GrabTokenSkipLeadingWhitespaces_def
  by (rule defined_intros(3) [OF SkipWhitespaces_ok]) (auto intro!: outcome_mono(2) [OF GrabToken_ok(1)])

lemma scan_line_ok: "n \<le> length cs \<Longrightarrow> scan_line cs n = Done (takeWhile (\<lambda>c. c \<noteq> CR \<and> c \<noteq> LF) (take n cs))"
  by (induction cs n rule: scan_line.induct) auto

lemma GrabLine_ok [text_ok]:
  assumes "mem_end mem z" "limit \<le> z"
  shows "defined (\<lambda>(s, e). start \<le> e \<and> e \<le> max start limit) (GrabLine mem start limit)"
proof -
  have "limit - start \<le> length (drop start mem)" using assms by (auto simp: mem_end_def)
  moreover have "start + length (takeWhile P (take (limit - start) (drop start mem))) \<le> max start limit" for P
    using length_takeWhile_le [of P "take (limit - start) (drop start mem)"] by simp linarith
  ultimately show ?thesis by (simp add: GrabLine_def scan_line_ok defined_def yields_def)
qed

lemma GrabLineSkip_ok [text_ok]:
  "mem_end mem z \<Longrightarrow> start \<le> z \<Longrightarrow> limit \<le> z \<Longrightarrow> defined (\<lambda>_. True) (GrabLineSkipLeadingWhitespace mem start limit)"
  unfolding GrabLineSkipLeadingWhitespace_def
  by (rule defined_intros(3) [OF SkipWhitespaces_ok], assumption+)
     (rule defined_intros(3) [OF GrabLine_ok], auto intro: defined_intros(1))

lemma memFindEOL_ok [text_ok]:
  "mem_end mem z \<Longrightarrow> i \<le> z \<Longrightarrow> limit \<le> z \<Longrightarrow> defined (\<lambda>e. i \<le> e \<and> e \<le> z) (memFindEOL_pu mem i limit)"
  unfolding memFindEOL_pu_def Let_def
  by (rule defined_intros(3) [OF grab_while_ok]) (auto intro: defined_intros(1))

lemma GrabSipUriUser_ok [text_ok]:
  "mem_end mem z \<Longrightarrow> i \<le> z \<Longrightarrow> limit \<le> z \<Longrightarrow> defined (\<lambda>_. True) (GrabSipUriUser mem i limit)"
  unfolding GrabSipUriUser_def
  by (rule defined_intros(3) [OF SkipWhitespaces_ok], assumption+)
     (rule defined_intros(4), simp add: defined_intros(1), rule grab_while_any, simp_all)

lemma scan_address_ok:
  "n < length cs \<or> (\<exists>c\<in>set cs. \<not> (user_char c \<or> c = CHR '':'' \<or> c = CHR ''@'')) \<Longrightarrow>
    scan_address passed cs n =
      Done (cut_port passed (takeWhile (\<lambda>c. user_char c \<or> c = CHR '':'' \<or> c = CHR ''@'') (take n cs)))"
proof (induction cs arbitrary: n passed)
  case (Cons c cs)
  then show ?case by (cases n) (auto simp: Let_def)
qed simp

lemma GrabSipUserAddress_ok [text_ok]:
  assumes "mem_end mem z" "i \<le> z" "limit \<le> z"
  shows "defined (\<lambda>_. True) (GrabSipUserAddress mem i limit)"
proof -
  have "scan_address False (drop u mem) (limit - u) \<noteq> Undefined" if "u \<le> z" for u
    using that assms by (subst scan_address_ok) (auto simp: mem_end_def)
  with SkipWhitespaces_ok [OF assms] show ?thesis
    unfolding GrabSipUserAddress_def
    by (intro defined_intros(3) [OF SkipWhitespaces_ok [OF assms]]) (auto simp: defined_def yields_def)
qed

lemma GrabSipUriDomain_ok [text_ok]:
  assumes "mem_end mem z" "i \<le> z" "limit \<le> z"
  shows "defined (\<lambda>_. True) (GrabSipUriDomain mem i limit)"
proof -
  have z: "z < length mem" "mem ! z = NUL" using assms(1) by (auto simp: mem_end_def)
  have at: "defined (\<lambda>r. \<forall>q. r = Some q \<longrightarrow> u + q + 1 \<le> z) (strchr CHR ''@'' (drop u mem))" if u: "u < z" for u
  proof -
    have "drop u mem ! (z - u) = NUL" "z - u < length (drop u mem)" using u z by simp_all
    then have "NUL \<in> set (drop u mem)" by (metis nth_mem)
    then have found: "defined (\<lambda>r. \<forall>q. r = Some q \<longrightarrow> q < length (drop u mem) \<and> drop u mem ! q = CHR ''@'' \<and>
        (\<forall>k\<le>q. drop u mem ! k \<noteq> NUL)) (strchr CHR ''@'' (drop u mem))" by (rule strchr_ok) simp
    have "u + q + 1 \<le> z" if q: "\<forall>k\<le>q. drop u mem ! k \<noteq> NUL" for q
    proof -
      have "\<not> z - u \<le> q" using q \<open>drop u mem ! (z - u) = NUL\<close> by blast
      then show ?thesis by simp
    qed
    then show ?thesis by (intro outcome_mono(2) [OF found]) blast
  qed
  show ?thesis
    unfolding GrabSipUriDomain_def
  proof (rule defined_intros(3) [OF SkipWhitespaces_ok [OF assms]], rule defined_intros(4))
    fix u assume "\<not> limit \<le> u"
    then have "u < z" using assms(3) by simp
    show "defined (\<lambda>_. True) (and_then (strchr CHR ''@'' (drop u mem)) (\<lambda>at.
       case at of None \<Rightarrow> Done [] | Some k \<Rightarrow>
           let d = u + k + 1
           in if d \<ge> length mem then Undefined
              else if mem ! d = NUL \<or> limit \<le> d then Done []
              else grab_while (\<lambda>c. is_alnum c \<or> c \<in> set ''.-_'') mem d limit))"
      by (rule defined_intros(3) [OF at [OF \<open>u < z\<close>]])
         (use z in \<open>auto simp: Let_def defined_intros(1) split: option.split
            intro!: grab_while_any [OF assms(1) _ assms(3)]\<close>)
  qed (simp add: defined_intros(1))
qed

lemma GrabSipName_ok [text_ok]:
  assumes "mem_end mem z" "i \<le> z" "limit \<le> z"
  shows "defined (\<lambda>_. True) (GrabSipName mem i limit)"
  unfolding GrabSipName_def
  by (rule defined_intros(3) [OF SkipWhitespaces_ok [OF assms]],
      rule defined_intros(3) [OF memFindStr_ok [OF assms(1,3)]],
      rule defined_intros(5), simp add: defined_intros(1), rule defined_intros(4); simp add: defined_intros(1))

lemma and_then_cong [fundef_cong]:
  "m = m' \<Longrightarrow> (\<And>x. m' = Done x \<Longrightarrow> f x = g x) \<Longrightarrow> and_then m f = and_then m' g"
  by (cases m') auto

lemma offset_by_Done: "offset_by k r = Done (Some q) \<longleftrightarrow> (\<exists>i. r = Done (Some i) \<and> q = i + k)"
  by (cases r) (auto simp: offset_by_def)

lemma mem_search_Some:
  "mem_search first m here cs n = Done (Some q) \<Longrightarrow> q < n \<and> q < length cs \<and> m (drop q cs) (n - q) = Some True"
  by (induction first m here cs n arbitrary: q rule: mem_search.induct)
     (auto simp: offset_by_Done split: if_splits option.splits bool.splits)

lemma memFindStr_Some:
  assumes "memFindStr_pu pat mem start stop = Done (Some q)"
  shows "start \<le> q \<and> q < stop \<and> q < length mem \<and> match_ci (take (stop - q) (c_str pat)) (drop q mem) = Some True"
proof -
  from assms obtain i where i: "q = i + start"
    "mem_search (\<lambda>c. c = hd (c_str pat)) (\<lambda>s n. match_ci (take n (c_str pat)) s) True (drop start mem) (stop - start) = Done (Some i)"
    by (auto simp: memFindStr_pu_def Let_def offset_by_Done)
  from mem_search_Some [OF i(2)] i(1) show ?thesis by (auto simp: add.commute)
qed

lemma memFindAfter_Some:
  "memFindAfter_pu pat mem start stop = Done (Some q) \<Longrightarrow>
    start + length (c_str pat) \<le> q \<and> q < stop + length (c_str pat)"
  by (auto simp: memFindAfter_pu_def Let_def offset_by_Done dest!: mem_search_Some)

section \<open>The dynamic payload types of a session description\<close>

definition rtpmap_tag :: string where
  "rtpmap_tag = ''a=rtpmap:''"

text \<open>\<open>StringToInt\<close> throws on anything but a number. The map has 32 entries, for the types from 96 on.\<close>

definition map_payload :: "string \<Rightarrow> string \<Rightarrow> u8 list \<Rightarrow> u8 list outcome" where
  "map_payload fullLine plStr m =
     and_then (if plStr = [] then Done (- 1)
               else case StringToInt plStr of None \<Rightarrow> Thrown | Some v \<Rightarrow> Done v) (\<lambda>plType.
     Done (if 95 < plType \<and> plType < 127 then
             (let t = GetOrekaRtpPayloadTypeForSdpRtpMap fullLine
              in if t \<noteq> 0 \<and> t \<noteq> uint (m ! nat (plType - 96)) then m[nat (plType - 96) := word_of_int t] else m)
           else m))"

function payload_mapping :: "string \<Rightarrow> nat \<Rightarrow> nat \<Rightarrow> u8 list \<Rightarrow> u8 list outcome" where
  "payload_mapping mem stop pos m =
     and_then (memFindStr_pu rtpmap_tag mem pos stop) (\<lambda>r.
     case r of
       None \<Rightarrow> Done m
     | Some q \<Rightarrow>
         and_then (GrabTokenAcceptSpace mem q stop) (\<lambda>fullLine.
         and_then (GrabToken mem (q + length rtpmap_tag) stop) (\<lambda>plStr.
         and_then (map_payload fullLine plStr m) (\<lambda>m1.
         payload_mapping mem stop (q + length fullLine) m1))))"
  by pat_completeness auto

text \<open>Every line that is found has at least its first character.\<close>

lemma rtpmap_line:
  assumes "memFindStr_pu rtpmap_tag mem pos stop = Done (Some q)" "GrabTokenAcceptSpace mem q stop = Done l"
  shows "l \<noteq> []"
proof -
  from memFindStr_Some [OF assms(1)] have q: "q < stop" "q < length mem"
    "match_ci (take (stop - q) (c_str rtpmap_tag)) (drop q mem) = Some True" by auto
  obtain c cs where d: "drop q mem = c # cs" using q(2) by (cases "drop q mem") auto
  obtain n where n: "stop - q = Suc n" using q(1) by (metis Suc_diff_Suc)
  have "c \<noteq> NUL \<and> c \<noteq> CR \<and> c \<noteq> LF" using q(3)
    by (auto simp: d n rtpmap_tag_def c_str_def to_lower_def is_upper_def split: if_splits)
  then show ?thesis using assms(2) n by (auto simp: GrabTokenAcceptSpace_def grab_while_def d)
qed

termination payload_mapping
proof (relation "measure (\<lambda>(mem, stop, pos, m). stop - pos)")
  fix mem stop pos and m m1 :: "u8 list" and r q l p
  assume a: "memFindStr_pu rtpmap_tag mem pos stop = Done r" "r = Some q" "GrabTokenAcceptSpace mem q stop = Done l"
  then have "pos \<le> q" "q < stop" "0 < length l" using memFindStr_Some rtpmap_line by blast+
  then show "((mem, stop, q + length l, m1), mem, stop, pos, m) \<in> measure (\<lambda>(mem, stop, pos, m). stop - pos)"
    by (cases l) auto
qed simp

declare payload_mapping.simps [simp del]

definition GetDynamicPayloadMapping :: "string \<Rightarrow> nat \<Rightarrow> nat \<Rightarrow> u8 list \<Rightarrow> u8 list outcome" where
  "GetDynamicPayloadMapping mem start stop m = payload_mapping mem stop start m"

end
