(* ===== verification/OrkSipParsers.thy ===== *)
theory OrkSipParsers
  imports OrkSipText OrkVoipRegistryRuns
begin

text \<open>
  The SIP parsers (audiocaptureplugins/voip/SipParsers.cpp) and the order in which they are tried on a
  datagram and on a message from a TCP stream (\<open>DetectUsefulUdpPacket\<close> in VoIp.cpp, \<open>ParseSipMessage\<close>
  in common/SipTcp.cpp).

  A parser returns whether it recognised the message, and the call of the registry it made, if any.
  Logging is left out. The information objects keep the fields that the sessions read; the names and
  domains that go only to the log are computed, because computing them can fail.
\<close>

section \<open>Settings and datagrams\<close>

record SipConfig =
  sc_sipReportFullAddress :: bool
  sc_sipIgnoreBye :: bool
  sc_necNotifyDispLine :: string
  sc_necOnHoldMarker :: string
  sc_necOffHoldMarker :: string
  sc_sipLogFailedCalls :: bool
  sc_sipTreat200OkAsInvite :: bool
  sc_sip302MovedTemporarilySupport :: bool
  sc_sipDetectSessionProgress :: bool
  sc_ipFragmentsReassemble :: bool
  sc_sipDialedNumberFieldName :: string
  sc_sipRemotePartyFieldName :: string
  sc_sipLocalPartyFieldName :: string
  sc_sipGroupPickUpPattern :: string
  sc_sipDropIndirectInvite :: bool
  sc_sipExtractFields :: "string list"
  sc_sipExtractKeyValues :: "string list"

text \<open>The clock, and the number that the constructor of a NOTIFY object leaves uninitialised.\<close>

record sip_env =
  sp_config :: SipConfig
  sp_voip :: VoIpConfig
  sp_now :: int
  sp_junkPkey :: int

text \<open>
  A datagram: addresses, the length in the UDP header, the memory from the payload on, and the distance
  from the payload to the end of the IP packet, which a bad header can make negative.
\<close>

record udp_datagram =
  dg_sourceMac :: "u8 list"
  dg_destMac :: "u8 list"
  dg_src :: in_addr
  dg_dest :: in_addr
  dg_fragOffset :: nat
  dg_sourcePort :: u16
  dg_destPort :: u16
  dg_udpLen :: u16
  dg_mem :: string
  dg_end :: int

datatype sip_report = InviteReport SipInviteInfo | CallReport registry_call

type_synonym sip_result = "(bool \<times> sip_report option) outcome"

definition not_sip :: sip_result where
  "not_sip = Done (False, None)"

definition sipLength :: "udp_datagram \<Rightarrow> int" where
  "sipLength d = uint (dg_udpLen d) - 8"

definition sip_too_short :: "int \<Rightarrow> udp_datagram \<Rightarrow> bool" where
  "sip_too_short n d \<longleftrightarrow> sipLength d < n \<or> sipLength d > dg_end d"

text \<open>\<open>memcmp(..) == 0\<close>, which may read all the bytes.\<close>

definition text_is :: "string \<Rightarrow> string \<Rightarrow> bool outcome" where
  "text_is pat mem = (if length mem < length pat then Undefined else Done (take (length pat) mem = pat))"

section \<open>Header fields\<close>

text \<open>The long name of a header, or else its compact name at the beginning of a line.\<close>

definition find_header :: "string \<Rightarrow> char \<Rightarrow> string \<Rightarrow> nat \<Rightarrow> nat option outcome" where
  "find_header name short mem stop =
     and_then (memFindAfter_pu name mem 0 stop) (\<lambda>r.
     case r of Some p \<Rightarrow> Done (Some p) | None \<Rightarrow> memFindAfter_pu [LF, short, CHR '':''] mem 0 stop)"

abbreviation "find_from_header \<equiv> find_header ''From:'' CHR ''f''"
abbreviation "find_to_header \<equiv> find_header ''To:'' CHR ''t''"
abbreviation "find_callId \<equiv> find_header ''Call-ID:'' CHR ''i''"

definition field_token :: "string \<Rightarrow> nat option \<Rightarrow> nat \<Rightarrow> string outcome" where
  "field_token mem field limit =
     (case field of None \<Rightarrow> Done [] | Some p \<Rightarrow> GrabTokenSkipLeadingWhitespaces mem p limit)"

definition grab_user :: "bool \<Rightarrow> string \<Rightarrow> nat \<Rightarrow> nat \<Rightarrow> string outcome" where
  "grab_user full = (if full then GrabSipUserAddress else GrabSipUriUser)"

text \<open>The address behind the first scheme that is found, or the whole field.\<close>

fun uri_start :: "string list \<Rightarrow> string \<Rightarrow> nat \<Rightarrow> nat \<Rightarrow> nat outcome" where
  "uri_start [] mem p limit = Done p"
| "uri_start (tag # tags) mem p limit =
     and_then (memFindAfter_pu tag mem p limit) (\<lambda>r.
     case r of Some q \<Rightarrow> Done q | None \<Rightarrow> uri_start tags mem p limit)"

definition party_user :: "bool \<Rightarrow> string list \<Rightarrow> string \<Rightarrow> nat \<Rightarrow> nat \<Rightarrow> string outcome" where
  "party_user full tags mem p limit =
     and_then (uri_start tags mem p limit) (\<lambda>u. grab_user full mem u limit)"

text \<open>Name, user and domain.\<close>

definition party :: "bool \<Rightarrow> string list \<Rightarrow> string \<Rightarrow> nat \<Rightarrow> nat \<Rightarrow> (string \<times> string \<times> string) outcome" where
  "party full tags mem p limit =
     and_then (GrabSipName mem p limit) (\<lambda>name.
     and_then (uri_start tags mem p limit) (\<lambda>u.
     and_then (grab_user full mem u limit) (\<lambda>user.
     and_then (GrabSipUriDomain mem u limit) (\<lambda>domain.
     Done (name, user, domain)))))"

text \<open>
  The From field ends where \<open>memFindEOL\<close> says, which is its beginning when the line is not ended before
  the limit; the other fields end where \<open>GrabLine\<close> stops.
\<close>

definition in_field ::
    "(string \<Rightarrow> nat \<Rightarrow> nat \<Rightarrow> 'a outcome) \<Rightarrow> 'a \<Rightarrow> string \<Rightarrow> nat option \<Rightarrow> nat \<Rightarrow> 'a outcome" where
  "in_field get none mem field limit =
     (case field of
        None \<Rightarrow> Done none
      | Some p \<Rightarrow> and_then (memFindEOL_pu mem p limit) (\<lambda>e. get mem p e))"

definition in_line ::
    "(string \<Rightarrow> nat \<Rightarrow> nat \<Rightarrow> 'a outcome) \<Rightarrow> 'a \<Rightarrow> string \<Rightarrow> nat option \<Rightarrow> nat \<Rightarrow> 'a outcome" where
  "in_line get none mem field limit =
     (case field of
        None \<Rightarrow> Done none
      | Some p \<Rightarrow> and_then (GrabLine mem p limit) (\<lambda>(s, e). get mem p e))"

abbreviation no_party :: "string \<times> string \<times> string" where
  "no_party \<equiv> ([], [], [])"

section \<open>BYE, NOTIFY, INFO and errors\<close>

definition TrySipBye :: "sip_env \<Rightarrow> udp_datagram \<Rightarrow> sip_result" where
  "TrySipBye e d =
     (if sip_too_short 4 d then not_sip
      else
        let mem = dg_mem d; stop = nat (sipLength d); full = sc_sipReportFullAddress (sp_config e)
        in and_then (text_is ''BYE'' mem) (\<lambda>bye.
           if \<not> bye then not_sip
           else
             and_then (find_from_header mem stop) (\<lambda>fromField.
             and_then (find_to_header mem stop) (\<lambda>toField.
             and_then (find_callId mem stop) (\<lambda>callIdField.
             and_then (field_token mem callIdField stop) (\<lambda>callId.
             and_then (in_field (party full [''sip:'']) no_party mem fromField stop) (\<lambda>(fromName, from, fromDomain).
             and_then (in_line (party full [''sip:'']) no_party mem toField stop) (\<lambda>(toName, to, toDomain).
             Done (True,
               if callIdField \<noteq> None \<and> \<not> sc_sipIgnoreBye (sp_config e) then
                 Some (CallReport (RgBye \<lparr>sb_callId = callId, sb_senderIp = dg_src d, sb_receiverIp = dg_dest d,
                   sb_from = from, sb_to = to\<rparr>))
               else None)))))))))"

text \<open>The search for a blank goes backwards from a position 50 bytes behind the tag.\<close>

fun back_to_space :: "string \<Rightarrow> nat \<Rightarrow> nat outcome" where
  "back_to_space mem 0 = (if mem ! 0 = CHR '' '' then Done 0 else Undefined)"
| "back_to_space mem (Suc i) = (if mem ! Suc i = CHR '' '' then Done (Suc i) else back_to_space mem i)"

definition notify_display :: "sip_env \<Rightarrow> string \<Rightarrow> nat \<Rightarrow> string option outcome" where
  "notify_display e mem stop =
     and_then (memFindAfter_pu (sc_necNotifyDispLine (sp_config e)) mem 0 stop) (\<lambda>line.
     and_then (case line of Some p \<Rightarrow> Done (Some p) | None \<Rightarrow> memFindAfter_pu [LF, CHR ''t'', CHR '':''] mem 0 stop) (\<lambda>dspField.
     case dspField of
       None \<Rightarrow> Done None
     | Some p \<Rightarrow>
         and_then (memFindAfter_pu ''Content-Length: 50'' mem 0 stop) (\<lambda>contentLen.
         and_then (case contentLen of
                     None \<Rightarrow> Done p
                   | Some q \<Rightarrow> if q + 50 < length mem then back_to_space mem (q + 50) else Undefined) (\<lambda>p1.
         and_then (GrabTokenSkipLeadingWhitespaces mem p1 stop) (\<lambda>dsp. Done (Some dsp))))))"

definition notify_pkey :: "sip_env \<Rightarrow> string \<Rightarrow> nat \<Rightarrow> int outcome" where
  "notify_pkey e mem stop =
     and_then (memFindAfter_pu ''Ind-Pkey='' mem 0 stop) (\<lambda>pkey.
     and_then (case pkey of Some p \<Rightarrow> Done (Some p) | None \<Rightarrow> memFindAfter_pu ''Ind-Fkey='' mem 0 stop) (\<lambda>pkeyField.
     and_then (field_token mem pkeyField stop) (\<lambda>pkeyToken.
     Done (case scan_int pkeyToken of Some n \<Rightarrow> n | None \<Rightarrow> sp_junkPkey e))))"

definition TrySipNotify :: "sip_env \<Rightarrow> udp_datagram \<Rightarrow> sip_result" where
  "TrySipNotify e d =
     (if sip_too_short 4 d then not_sip
      else
        let mem = dg_mem d; stop = nat (sipLength d); c = sp_config e
        in if NUL \<notin> set mem then Undefined
           else if \<not> starts_with ''NOTIFY'' (c_str mem) then not_sip
           else
             and_then (find_callId mem stop) (\<lambda>callIdField.
             and_then (field_token mem callIdField stop) (\<lambda>callId.
             and_then (notify_display e mem stop) (\<lambda>dsp.
             and_then (notify_pkey e mem stop) (\<lambda>pkey.
             let hex = map_option (\<lambda>x. concat (map hex_char x)) dsp
             in if callIdField \<noteq> None \<and> vc_sipNotifySupport (sp_voip e) then
                  Done (True, Some (CallReport (RgNotify \<lparr>sn_callId = callId, sn_senderIp = dg_src d,
                    sn_receiverIp = dg_dest d, sn_dsp = (case dsp of Some x \<Rightarrow> x | None \<Rightarrow> []),
                    sn_onHoldMarker = (hex = Some (sc_necOnHoldMarker c)),
                    sn_offHoldMarker = (hex = Some (sc_necOffHoldMarker c)), sn_pkey = pkey\<rparr>)))
                else not_sip)))))"

definition on_demand_value :: "VoIpConfig \<Rightarrow> string \<Rightarrow> bool \<times> bool" where
  "on_demand_value v field =
     (if ci_eq field (vc_sipOnDemandFieldValue v) then (True, False)
      else if ci_eq field (vc_sipOnDemandFieldValueOff v) then (False, True)
      else (False, False))"

definition TrySipInfo :: "sip_env \<Rightarrow> udp_datagram \<Rightarrow> sip_result" where
  "TrySipInfo e d =
     (if sip_too_short 5 d then not_sip
      else
        let mem = dg_mem d; stop = nat (sipLength d); v = sp_voip e
        in and_then (text_is ''INFO'' mem) (\<lambda>info.
           if \<not> info then not_sip
           else
             and_then (find_callId mem stop) (\<lambda>callIdField.
             and_then (field_token mem callIdField stop) (\<lambda>callId.
             if length callId < 1 then Done (True, None)
             else
               and_then (memFindAfter_pu ''CSeq:'' mem 0 stop) (\<lambda>cSeqField.
               and_then (field_token mem cSeqField stop) (\<lambda>cSeq.
               and_then (memFindAfter_pu ''Signal='' mem 0 stop) (\<lambda>signalField.
               and_then (field_token mem signalField stop) (\<lambda>dtmfDigit.
               and_then (memFindAfter_pu (c_str (vc_sipOnDemandFieldName v) @ '':'') mem 0 stop) (\<lambda>recordField.
               and_then (case recordField of
                           None \<Rightarrow> Done (False, False)
                         | Some p \<Rightarrow> and_then (GrabLineSkipLeadingWhitespace mem p stop) (\<lambda>field.
                             Done (on_demand_value v field))) (\<lambda>(onDemand, onDemandOff).
               Done (True, Some (CallReport (RgInfo \<lparr>sf_callId = callId, sf_dtmfDigit = dtmfDigit, sf_cSeq = cSeq,
                 sf_onDemand = onDemand, sf_onDemandOff = onDemandOff\<rparr>)))))))))))))"

text \<open>The alternatives of a condition, compared in order.\<close>

fun text_is_any :: "string list \<Rightarrow> string \<Rightarrow> bool outcome" where
  "text_is_any [] mem = Done False"
| "text_is_any (p # ps) mem = and_then (text_is p mem) (\<lambda>b. if b then Done True else text_is_any ps mem)"

definition failure_texts :: "string list" where
  "failure_texts = [''SIP/2.0 4'', ''SIP/2.0 5'', ''SIP/2.0 6'', ''CANCEL '']"

definition failure_code :: "string \<Rightarrow> nat \<Rightarrow> (string \<times> string) outcome" where
  "failure_code mem stop =
     and_then (memFindAfter_pu ''SIP/2.0 '' mem 0 stop) (\<lambda>eCode.
     and_then (text_is ''CANCEL '' mem) (\<lambda>cancel.
     if cancel then Done (''CANCEL'', ''User Agent CANCEL'')
     else case eCode of
            None \<Rightarrow> Done ([], [])
          | Some p \<Rightarrow>
              and_then (GrabTokenSkipLeadingWhitespaces mem p stop) (\<lambda>errorCode.
              and_then (GrabLine mem (p + length errorCode + 1) stop) (\<lambda>(errorString, e).
              Done (errorCode, errorString)))))"

definition TryLogFailedSip :: "sip_env \<Rightarrow> udp_datagram \<Rightarrow> sip_result" where
  "TryLogFailedSip e d =
     (if \<not> sc_sipLogFailedCalls (sp_config e) then not_sip
      else if sip_too_short 9 d then not_sip
      else
        let mem = dg_mem d; stop = nat (sipLength d)
        in and_then (text_is_any failure_texts mem) (\<lambda>failed.
           if \<not> failed then not_sip
           else
             and_then (find_callId mem stop) (\<lambda>callIdField.
             and_then (field_token mem callIdField stop) (\<lambda>callId.
             and_then (failure_code mem stop) (\<lambda>(errorCode, errorString).
             if callId = [] \<or> errorCode = [] then not_sip
             else Done (True, Some (CallReport (RgSipError \<lparr>fe_callId = callId, fe_errorCode = errorCode\<rparr>)))))))) "

section \<open>Answers, redirections, subscriptions and transfers\<close>

text \<open>The media address of a session description: the port and the address, both needed.\<close>

definition media_part :: "string \<Rightarrow> nat option \<Rightarrow> nat \<Rightarrow> (string \<times> (string \<times> in_addr) option) outcome" where
  "media_part mem callIdField stop =
     (case callIdField of
        None \<Rightarrow> Done ([], None)
      | Some p \<Rightarrow>
          and_then (GrabTokenSkipLeadingWhitespaces mem p stop) (\<lambda>callId.
          and_then (memFindAfter_pu ''m=audio '' mem p stop) (\<lambda>audioField.
          and_then (memFindAfter_pu ''c=IN IP4 '' mem p stop) (\<lambda>connectionAddressField.
          case (audioField, connectionAddressField) of
            (Some a, Some k) \<Rightarrow>
              and_then (GrabToken mem a stop) (\<lambda>mediaPort.
              and_then (GrabToken mem k stop) (\<lambda>connectionAddress.
              Done (callId, Some (mediaPort,
                case inet_pton4 connectionAddress of
                  Some ip \<Rightarrow> if connectionAddress = [] then (0, 0, 0, 0) else ip
                | None \<Rightarrow> (0, 0, 0, 0)))))
          | _ \<Rightarrow> Done (callId, None)))))"

text \<open>The common body of the answers.\<close>

definition answer :: "sip_env \<Rightarrow> udp_datagram \<Rightarrow> nat \<Rightarrow> SipMediaInfo outcome" where
  "answer e d stop =
     (let mem = dg_mem d; full = sc_sipReportFullAddress (sp_config e)
      in and_then (find_from_header mem stop) (\<lambda>fromField.
         and_then (find_to_header mem stop) (\<lambda>toField.
         and_then (find_callId mem stop) (\<lambda>callIdField.
         and_then (media_part mem callIdField stop) (\<lambda>(callId, media).
         and_then (in_field (party_user full [''sip:'']) [] mem fromField stop) (\<lambda>from.
         and_then (in_line (party_user full [''sip:'']) [] mem toField stop) (\<lambda>to.
         Done \<lparr>sm_callId = callId, sm_hasSdp = (media \<noteq> None),
           sm_mediaIp = (case media of Some (port, ip) \<Rightarrow> ip | None \<Rightarrow> (0, 0, 0, 0)),
           sm_mediaPort = (case media of Some (port, ip) \<Rightarrow> port | None \<Rightarrow> []),
           sm_senderIp = dg_src d\<rparr>)))))))"

definition progress_text :: string where
  "progress_text = ''SIP/2.0 183 Session Progress''"

definition ok_text :: string where
  "ok_text = ''SIP/2.0 200''"

definition TrySipSessionProgress :: "sip_env \<Rightarrow> udp_datagram \<Rightarrow> sip_result" where
  "TrySipSessionProgress e d =
     (if sip_too_short 28 d then not_sip
      else and_then (text_is progress_text (dg_mem d)) (\<lambda>progress.
        if \<not> progress then not_sip
        else and_then (answer e d (nat (sipLength d))) (\<lambda>info.
          Done (True, if sm_hasSdp info then Some (CallReport (RgProgress info)) else None))))"

definition TrySip200Ok :: "sip_env \<Rightarrow> udp_datagram \<Rightarrow> sip_result" where
  "TrySip200Ok e d =
     (if sc_sipTreat200OkAsInvite (sp_config e) then not_sip
      else if sip_too_short 11 d then not_sip
      else and_then (text_is ok_text (dg_mem d)) (\<lambda>ok.
        if \<not> ok then not_sip
        else and_then (answer e d (nat (sipLength d))) (\<lambda>info. Done (True, Some (CallReport (RgOk info))))))"

text \<open>
  The test of the contact asks whether the pointer to its text is null, which it never is: only the call
  identifier matters.
\<close>

definition TrySip302MovedTemporarily :: "sip_env \<Rightarrow> udp_datagram \<Rightarrow> sip_result" where
  "TrySip302MovedTemporarily e d =
     (if \<not> sc_sip302MovedTemporarilySupport (sp_config e) then not_sip
      else if sip_too_short 29 d then not_sip
      else
        let mem = dg_mem d; stop = nat (sipLength d); full = sc_sipReportFullAddress (sp_config e)
        in and_then (text_is ''SIP/2.0 302 Moved Temporarily'' mem) (\<lambda>moved.
           if \<not> moved then not_sip
           else
             and_then (find_from_header mem stop) (\<lambda>fromField.
             and_then (find_to_header mem stop) (\<lambda>toField.
             and_then (find_callId mem stop) (\<lambda>callIdField.
             and_then (find_header ''Contact:'' CHR ''c'' mem stop) (\<lambda>contactField.
             and_then (in_field (party full [''sip:'']) no_party mem fromField stop) (\<lambda>(fromName, from, fromDomain).
             and_then (in_line (party full [''sip:'']) no_party mem toField stop) (\<lambda>(toName, to, toDomain).
             and_then (in_line (party full [''sip:'']) no_party mem contactField stop) (\<lambda>(contactName, contact, contactDomain).
             and_then (field_token mem callIdField stop) (\<lambda>callId.
             Done (True, if callId = [] then None else Some (CallReport (RgMoved contact to)))))))))))))"

text \<open>\<open>TrySipSubscribe\<close> compares no length before it reads.\<close>

definition TrySipSubscribe :: "sip_env \<Rightarrow> udp_datagram \<Rightarrow> sip_result" where
  "TrySipSubscribe e d =
     (let mem = dg_mem d; stop = nat (sipLength d)
      in and_then (text_is ''SUBSCRIBE'' mem) (\<lambda>subscribe.
         if \<not> subscribe then not_sip
         else
           and_then (memFindAfter_pu ''Event:'' mem 0 stop) (\<lambda>eventField.
           and_then (field_token mem eventField stop) (\<lambda>event.
           and_then (find_callId mem stop) (\<lambda>callIdField.
           and_then (field_token mem callIdField stop) (\<lambda>callId.
           Done (True, if ci_eq event ''pickup'' then Some (CallReport (RgSubscribe callId)) else None)))))))"

text \<open>A transfer: the referred party is the caller or the called party, whichever is neither of the others.\<close>

definition refer_party :: "string \<Rightarrow> nat option \<Rightarrow> nat \<Rightarrow> string outcome" where
  "refer_party mem field stop =
     in_field (\<lambda>mem p e. and_then (memFindAfter_pu ''sip:'' mem p e) (\<lambda>r.
       case r of None \<Rightarrow> Done [] | Some u \<Rightarrow> GrabSipUriUser mem u e)) [] mem field stop"

definition referred_party :: "string \<Rightarrow> string \<Rightarrow> string \<Rightarrow> string \<Rightarrow> string" where
  "referred_party from to referTo referredBy =
     (let third = (\<lambda>x. x \<noteq> [] \<and> \<not> ci_eq x referTo \<and> \<not> ci_eq x referredBy)
      in if third from then from else if third to then to else [])"

definition TrySipRefer :: "sip_env \<Rightarrow> udp_datagram \<Rightarrow> sip_result" where
  "TrySipRefer e d =
     (if sip_too_short 5 d then not_sip
      else
        let mem = dg_mem d; stop = nat (sipLength d)
        in and_then (text_is ''REFER'' mem) (\<lambda>refer.
           if \<not> refer then not_sip
           else
             and_then (memFindAfter_pu ''Refer-To:'' mem 0 stop) (\<lambda>referToField.
             and_then (memFindAfter_pu ''Referred-By:'' mem 0 stop) (\<lambda>referredByField.
             and_then (find_callId mem stop) (\<lambda>callIdField.
             and_then (find_from_header mem stop) (\<lambda>fromField.
             and_then (find_to_header mem stop) (\<lambda>toField.
             and_then (field_token mem callIdField stop) (\<lambda>callId.
             and_then (in_field (party False [''sip:'']) no_party mem fromField stop) (\<lambda>(fromName, from, fromDomain).
             and_then (in_line (party False [''sip:'']) no_party mem toField stop) (\<lambda>(toName, to, toDomain).
             and_then (refer_party mem referToField stop) (\<lambda>referTo.
             and_then (refer_party mem referredByField stop) (\<lambda>referredBy.
             Done (True, Some (CallReport (RgRefer \<lparr>rf_timestamp = sp_now e, rf_callId = callId, rf_from = from,
               rf_to = to, rf_referToParty = referTo, rf_referredByParty = referredBy,
               rf_referredParty = referred_party from to referTo referredBy, rf_origOrkUid = []\<rparr>)))))))))))))))"

section \<open>Key values\<close>

text \<open>
  A \<open>string_ref\<close> of \<open>n\<close> bytes at \<open>p\<close>: \<open>find\<close> stops at the first occurrence, and finds nothing in an
  empty text.
\<close>

definition view_find :: "string \<Rightarrow> nat \<Rightarrow> nat \<Rightarrow> string \<Rightarrow> nat option outcome" where
  "view_find mem p n pat =
     (if n = 0 then Done None
      else case find_str pat (take n (drop p mem)) of
             Some i \<Rightarrow> Done (Some i)
           | None \<Rightarrow> if p + n \<le> length mem then Done None else Undefined)"

definition IsAKeySeparator :: "char \<Rightarrow> bool" where
  "IsAKeySeparator c \<longleftrightarrow> c \<in> set ''=:<>''"

definition IsAFieldSeparator :: "char \<Rightarrow> bool" where
  "IsAFieldSeparator c \<longleftrightarrow> c \<in> set '';<>'' \<or> c = CR \<or> c = LF"

definition value_at :: "string \<Rightarrow> nat \<Rightarrow> nat \<Rightarrow> string outcome" where
  "value_at mem p stop =
     and_then (grab_while (\<lambda>c. IsAKeySeparator c \<or> c = CHR '' '') mem p stop) (\<lambda>s.
     grab_while (\<lambda>c. \<not> IsAFieldSeparator c \<and> c \<noteq> LF \<and> c \<noteq> CR \<and> c \<noteq> NUL) mem (p + length s) stop)"

definition ExtractKeyValueFromField :: "string \<Rightarrow> nat \<Rightarrow> nat \<Rightarrow> string \<Rightarrow> string outcome" where
  "ExtractKeyValueFromField mem header maxLength key =
     and_then (grab_while (\<lambda>c. c \<noteq> CR \<and> c \<noteq> LF) mem header (header + maxLength)) (\<lambda>line.
     and_then (view_find mem header (length line) key) (\<lambda>r.
     case r of
       None \<Rightarrow> Done []
     | Some i \<Rightarrow> value_at mem (header + i + length key) (header + length line)))"

text \<open>\<open>MemFindAfter\<close> of MemUtils.cpp lets \<open>memchr\<close> read as many bytes as the whole range has, from every position.\<close>

fun memchr :: "char \<Rightarrow> string \<Rightarrow> nat \<Rightarrow> nat option outcome" where
  "memchr x cs 0 = Done None"
| "memchr x [] (Suc n) = Undefined"
| "memchr x (c # cs) (Suc n) = (if c = x then Done (Some 0) else offset_by 1 (memchr x cs n))"

function find_after_loop :: "string \<Rightarrow> string \<Rightarrow> nat \<Rightarrow> nat \<Rightarrow> nat \<Rightarrow> nat option outcome" where
  "find_after_loop pat mem start stop ptr =
     (if \<not> ptr < stop then Done None
      else case match_ci pat (drop ptr mem) of
             None \<Rightarrow> Undefined
           | Some True \<Rightarrow> Done (Some (ptr + length pat))
           | Some False \<Rightarrow>
               and_then (memchr (hd pat) (drop (ptr + 1) mem) (stop - start)) (\<lambda>r.
               case r of None \<Rightarrow> Done None | Some k \<Rightarrow> find_after_loop pat mem start stop (ptr + 1 + k)))"
  by pat_completeness auto

termination by (relation "measure (\<lambda>(pat, mem, start, stop, ptr). stop - ptr)") auto

declare find_after_loop.simps [simp del]

definition MemFindAfter :: "string \<Rightarrow> string \<Rightarrow> nat \<Rightarrow> nat \<Rightarrow> nat option outcome" where
  "MemFindAfter toFind mem start stop = find_after_loop toFind mem start stop start"

text \<open>A position that was not known is looked up; the length of the name is then added a second time.\<close>

definition retrieve_field_position :: "string \<Rightarrow> nat \<Rightarrow> nat option \<Rightarrow> string \<Rightarrow> nat option outcome" where
  "retrieve_field_position mem len known fieldName =
     (case known of
        Some p \<Rightarrow> Done (Some p)
      | None \<Rightarrow> and_then (MemFindAfter fieldName mem 0 len) (\<lambda>r. Done (map_option (\<lambda>p. p + length fieldName) r)))"

text \<open>
  The search for the line of a dotted key. The blanks are looked for from the first byte of the key
  backwards. A line that does not fit is skipped by making a \<open>string_ref\<close> of the pointer to the next
  one, which ends at the next NUL. The result is the rest of the text behind the colon.
\<close>

fun walk_back :: "string \<Rightarrow> nat \<Rightarrow> nat \<Rightarrow> nat" where
  "walk_back mem p 0 = 0"
| "walk_back mem p (Suc t) =
     (if mem ! (p + Suc t) = CHR '' '' \<or> mem ! (p + Suc t) = CHR 0x09 then walk_back mem p t else Suc t)"

definition next_line :: "string \<Rightarrow> nat \<Rightarrow> nat \<Rightarrow> (nat \<times> nat) option outcome" where
  "next_line mem p n =
     and_then (view_find mem p n [LF]) (\<lambda>r.
     case r of
       None \<Rightarrow> Done None
     | Some j \<Rightarrow> and_then (strchr NUL (drop (p + j + 1) mem)) (\<lambda>k. Done (map_option (\<lambda>m. (p + j + 1, m)) k)))"

definition skip_line :: "string \<Rightarrow> nat \<Rightarrow> nat \<Rightarrow> ((nat \<times> nat) option + (nat \<times> nat)) outcome" where
  "skip_line mem p n =
     and_then (next_line mem p n) (\<lambda>l. Done (case l of None \<Rightarrow> Inl None | Some x \<Rightarrow> Inr x))"

definition key_step :: "string \<Rightarrow> string \<Rightarrow> nat \<Rightarrow> nat \<Rightarrow> ((nat \<times> nat) option + (nat \<times> nat)) outcome" where
  "key_step mem key p n =
     and_then (view_find mem p n key) (\<lambda>r.
     case r of
       None \<Rightarrow> Done (Inl None)
     | Some i \<Rightarrow>
         let t = walk_back mem p i; k = p + i + length key
         in if p + i \<ge> length mem then Undefined
            else if t \<noteq> 0 \<and> mem ! (p + t - 1) \<noteq> LF then skip_line mem p n
            else if k \<ge> length mem then Undefined
            else if mem ! k \<noteq> CHR '':'' then skip_line mem p n
            else if i + length key + 1 > n then Thrown
            else Done (Inl (Some (k + 1, n - (i + length key + 1)))))"

lemma view_find_Some:
  assumes "view_find mem p n pat = Done (Some i)" "pat \<noteq> []"
  shows "p + i < length mem"
proof -
  let ?s = "take n (drop p mem)"
  from assms(1) have "find_str pat ?s = Some i"
    unfolding view_find_def by (cases "find_str pat ?s") (simp_all split: if_splits)
  from find_str_Some [OF this] obtain t where "drop i ?s = pat @ t" by (auto simp: starts_with_iff)
  with assms(2) have "i < length ?s" by (metis append_is_Nil_conv drop_eq_Nil linorder_not_le)
  then show ?thesis by auto
qed

lemma next_line_later:
  assumes "next_line mem p n = Done (Some (p', n'))"
  shows "p < p' \<and> p' \<le> length mem"
proof -
  from assms obtain r where r: "view_find mem p n [LF] = Done r" by (auto simp: next_line_def)
  with assms obtain j where "r = Some j" "p' = p + j + 1" by (cases r) (auto simp: next_line_def)
  with view_find_Some [of mem p n "[LF]" j] r show ?thesis by simp
qed

lemma skip_line_later: "skip_line mem p n = Done (Inr (p', n')) \<Longrightarrow> p < p' \<and> p' \<le> length mem"
  unfolding skip_line_def by (auto split: option.splits dest: next_line_later)

lemma key_step_later:
  assumes "key_step mem key p n = Done (Inr (p', n'))"
  shows "p < p' \<and> p' \<le> length mem"
proof -
  from assms obtain r where r: "view_find mem p n key = Done r" by (auto simp: key_step_def)
  show ?thesis
  proof (cases r)
    case None
    with assms r show ?thesis by (simp add: key_step_def)
  next
    case (Some i)
    with assms r have "skip_line mem p n = Done (Inr (p', n'))"
      by (simp add: key_step_def Let_def split: if_split_asm)
    then show ?thesis by (rule skip_line_later)
  qed
qed

function key_line :: "string \<Rightarrow> string \<Rightarrow> nat \<Rightarrow> nat \<Rightarrow> (nat \<times> nat) option outcome" where
  "key_line mem key p n =
     and_then (key_step mem key p n) (\<lambda>r.
     case r of Inl x \<Rightarrow> Done x | Inr (p', n') \<Rightarrow> key_line mem key p' n')"
  by pat_completeness auto

termination
  by (relation "measure (\<lambda>(mem, key, p, n). length mem - p)") (auto dest!: key_step_later)

declare key_line.simps [simp del]

text \<open>Where the value of a key begins that names no standard field.\<close>

definition locate_key :: "string \<Rightarrow> nat \<Rightarrow> string \<Rightarrow> nat option outcome" where
  "locate_key mem len x =
     (case find_char CHR ''.'' x of
        Some dot \<Rightarrow>
          and_then (key_line mem (take dot x) 0 len) (\<lambda>r.
          case r of
            None \<Rightarrow> Done None
          | Some (p, n) \<Rightarrow>
              let sub = drop (dot + 1) x
              in and_then (view_find mem p n sub) (\<lambda>f. Done (map_option (\<lambda>i. p + i + length sub) f)))
      | None \<Rightarrow> and_then (view_find mem 0 len x) (\<lambda>f. Done (map_option (\<lambda>i. i + length x) f)))"

text \<open>The positions of From, To, Replaces and Contact; the loop changes its own copy of the array.\<close>

definition standard_fields :: "(string \<times> string) list" where
  "standard_fields = [(''from.'', ''from:''), (''to.'', ''to:''), (''replaces.'', ''replaces:''), (''contact.'', ''contact:'')]"

definition standard_index :: "string \<Rightarrow> nat option" where
  "standard_index x = List.find (\<lambda>i. starts_with (fst (standard_fields ! i)) x) [0..<4]"

definition key_data :: "string \<Rightarrow> nat \<Rightarrow> string \<Rightarrow> nat option list \<Rightarrow> (string \<times> nat option list) outcome" where
  "key_data mem len x pos =
     (case standard_index x of
        Some i \<Rightarrow>
          and_then (retrieve_field_position mem len (pos ! i) (snd (standard_fields ! i))) (\<lambda>r.
          case r of
            None \<Rightarrow> Done ([], pos)
          | Some p \<Rightarrow>
              and_then (ExtractKeyValueFromField mem p (p + len) (drop (length (fst (standard_fields ! i))) x)) (\<lambda>v.
              Done (v, pos[i := Some p])))
      | None \<Rightarrow>
          and_then (locate_key mem len x) (\<lambda>r.
          case r of
            None \<Rightarrow> Done ([], pos)
          | Some p \<Rightarrow> and_then (value_at mem p len) (\<lambda>v. Done (v, pos))))"

fun ExtractKeyValuesData ::
    "string list \<Rightarrow> string \<Rightarrow> nat \<Rightarrow> nat option list \<Rightarrow> (string \<times> string) list \<Rightarrow> (string \<times> string) list outcome" where
  "ExtractKeyValuesData [] mem len pos found = Done found"
| "ExtractKeyValuesData (x # xs) mem len pos found =
     and_then (key_data mem len x pos) (\<lambda>(v, pos1).
     ExtractKeyValuesData xs mem len pos1 (if v = [] then found else omap_insert str_less x v found))"

fun extract_fields ::
    "string list \<Rightarrow> string \<Rightarrow> nat \<Rightarrow> (string \<times> string) list \<Rightarrow> (string \<times> string) list outcome" where
  "extract_fields [] mem stop found = Done found"
| "extract_fields (x # xs) mem stop found =
     and_then (memFindAfter_pu (x @ '':'') mem 0 stop) (\<lambda>r.
     case r of
       None \<Rightarrow> extract_fields xs mem stop found
     | Some p \<Rightarrow> and_then (GrabLineSkipLeadingWhitespace mem p stop) (\<lambda>v.
         extract_fields xs mem stop (omap_insert str_less x v found)))"

section \<open>INVITE\<close>

text \<open>The first line decides; of an incomplete first fragment the captured part is read.\<close>

definition invite_end :: "sip_env \<Rightarrow> udp_datagram \<Rightarrow> int" where
  "invite_end e d =
     (if \<not> sc_ipFragmentsReassemble (sp_config e) \<and> sipLength d > dg_end d \<and> dg_fragOffset d = 0
      then dg_end d else sipLength d)"

definition invite_method :: "sip_env \<Rightarrow> udp_datagram \<Rightarrow> string option outcome" where
  "invite_method e d =
     (let mem = dg_mem d; c = sp_config e
      in if sipLength d < 3 \<or> invite_end e d > dg_end d then Done None
         else
           and_then (text_is ''INVITE'' mem) (\<lambda>invite.
           if invite then Done (Some ''INVITE'')
           else
             and_then (text_is ''ACK'' mem) (\<lambda>ack.
             if ack then Done (Some ''ACK'')
             else
               and_then (if sc_sipTreat200OkAsInvite c then text_is ok_text mem else Done False) (\<lambda>ok.
               if ok then Done (Some ''200 OK'')
               else
                 and_then (if sc_sipDetectSessionProgress c then text_is progress_text mem else Done False) (\<lambda>progress.
                 Done (if progress then Some progress_text else None))))))"

text \<open>The audio part of the session description; a null pointer is less than any other.\<close>

definition audio_sdp :: "nat option \<Rightarrow> nat option \<Rightarrow> nat \<Rightarrow> nat \<times> nat" where
  "audio_sdp audio video stop =
     (case (audio, video) of
        (None, None) \<Rightarrow> (0, stop)
      | (None, Some v) \<Rightarrow> (0, v)
      | (Some a, None) \<Rightarrow> (a, stop)
      | (Some a, Some v) \<Rightarrow> if a < v then (0, v) else if v < a then (a, stop) else (0, stop))"

text \<open>The payload type that the description gives to \<open>telephone-event\<close>; 15 bytes must be left to compare.\<close>

function telephone_event :: "string \<Rightarrow> nat \<Rightarrow> nat \<Rightarrow> nat \<Rightarrow> int outcome" where
  "telephone_event mem sdpEnd sipEnd p =
     (if \<not> p < sipEnd then Done 0
      else
        and_then (GrabTokenSkipLeadingWhitespaces mem p sdpEnd) (\<lambda>payloadType.
        and_then (memFindAfter_pu (payloadType @ '' '') mem p sdpEnd) (\<lambda>nextStep.
        and_then (case nextStep of
                    None \<Rightarrow> Done False
                  | Some q \<Rightarrow> if q + 15 \<le> sipEnd then
                      (case match_ci ''telephone-event'' (drop q mem) of None \<Rightarrow> Undefined | Some b \<Rightarrow> Done b)
                    else Done False) (\<lambda>hit.
        if hit then (case StringToInt payloadType of None \<Rightarrow> Thrown | Some n \<Rightarrow> Done n)
        else
          and_then (memFindAfter_pu (LF # rtpmap_tag) mem p sdpEnd) (\<lambda>next.
          case next of None \<Rightarrow> Done 0 | Some q \<Rightarrow> telephone_event mem sdpEnd sipEnd q)))))"
  by pat_completeness auto

termination
  by (relation "measure (\<lambda>(mem, sdpEnd, sipEnd, p). sipEnd - p)")
     (auto dest!: memFindAfter_Some simp: rtpmap_tag_def c_str_def)

declare telephone_event.simps [simp del]

text \<open>The members that the constructor does not set are all assigned before the object is reported.\<close>

definition SipInviteInfo_new :: "string \<Rightarrow> SipInviteInfo" where
  "SipInviteInfo_new method =
     \<lparr>si_sipMethod = method, si_senderIp = (0, 0, 0, 0), si_originalSenderIp = (0, 0, 0, 0),
      si_receiverIp = (0, 0, 0, 0), si_fromRtpIp = (0, 0, 0, 0), si_senderMac = [], si_receiverMac = [],
      si_fromRtpPort = [], si_from = [], si_to = [], si_callId = [], si_replacesId = [], si_requestUri = [],
      si_validated = False, si_attrSendonly = False, si_extractedFields = [], si_telephoneEventPayloadType = 0,
      si_fromDomain = [], si_toDomain = [], si_fromName = [], si_toName = [], si_userAgent = [],
      si_sipDialedNumber = [], si_sipRemoteParty = [], si_contact = [], si_contactName = [], si_contactDomain = [],
      si_SipGroupPickUpPatternDetected = False, si_payloadTypeMap = replicate 32 0, si_recvTime = 0\<rparr>"

definition invite_request_uri :: "sip_env \<Rightarrow> string \<Rightarrow> nat \<Rightarrow> string outcome" where
  "invite_request_uri e mem stop =
     (if vc_sipRequestUriAsLocalParty (sp_voip e) then
        and_then (memFindAfter_pu ''INVITE '' mem 0 stop) (\<lambda>uri.
        in_field (party_user (sc_sipReportFullAddress (sp_config e)) [''sip:'']) [] mem uri stop)
      else Done [])"

definition invite_parties ::
    "sip_env \<Rightarrow> string \<Rightarrow> nat \<Rightarrow> nat option \<Rightarrow> nat option \<Rightarrow> SipInviteInfo \<Rightarrow> SipInviteInfo outcome" where
  "invite_parties e mem stop fromField toField i =
     (let full = sc_sipReportFullAddress (sp_config e)
      in and_then (invite_request_uri e mem stop) (\<lambda>uri.
         and_then (in_field (party full [''sip:'']) no_party mem fromField stop) (\<lambda>(fromName, from, fromDomain).
         and_then (in_line (party full [''sip:'', ''tel:'']) no_party mem toField stop) (\<lambda>(toName, to, toDomain).
         Done (i\<lparr>si_requestUri := uri, si_fromName := fromName, si_from := from, si_fromDomain := fromDomain,
           si_toName := toName, si_to := to, si_toDomain := toDomain,
           si_SipGroupPickUpPatternDetected := (toField \<noteq> None \<and> sc_sipGroupPickUpPattern (sp_config e) = to)\<rparr>)))))"

definition configured_field :: "string \<Rightarrow> string \<Rightarrow> nat \<Rightarrow> nat option outcome" where
  "configured_field name mem stop =
     (if name = [] then Done None else memFindAfter_pu (name @ '':'') mem 0 stop)"

definition invite_headers ::
    "sip_env \<Rightarrow> string \<Rightarrow> nat \<Rightarrow> nat option \<Rightarrow> SipInviteInfo \<Rightarrow> SipInviteInfo outcome" where
  "invite_headers e mem stop replacesField i =
     (let c = sp_config e
      in and_then (configured_field (sc_sipDialedNumberFieldName c) mem stop) (\<lambda>dialedNumber.
         and_then (configured_field (sc_sipRemotePartyFieldName c) mem stop) (\<lambda>sipRemoteParty.
         and_then (memFindAfter_pu (sc_sipLocalPartyFieldName c) mem 0 stop) (\<lambda>localExtensionField.
         and_then (memFindAfter_pu (LF # ''User-Agent:'') mem 0 stop) (\<lambda>userAgentField.
         and_then (field_token mem dialedNumber stop) (\<lambda>dialed.
         and_then (case sipRemoteParty of
                     None \<Rightarrow> Done []
                   | Some p \<Rightarrow> party_user (sc_sipReportFullAddress c) [''sip:''] mem p stop) (\<lambda>remote.
         and_then (field_token mem replacesField stop) (\<lambda>replaces.
         and_then (field_token mem localExtensionField stop) (\<lambda>localExtension.
         and_then (field_token mem userAgentField stop) (\<lambda>userAgent.
         Done (i\<lparr>si_sipDialedNumber := dialed, si_sipRemoteParty := remote,
           si_replacesId := (case find_char CHR '';'' replaces of Some k \<Rightarrow> take k replaces | None \<Rightarrow> []),
           si_from := (if localExtension = [] then si_from i else localExtension),
           si_userAgent := userAgent\<rparr>)))))))))))"

text \<open>The media address and port; an address that is not the one of the sender may be a reason to drop the INVITE.\<close>

definition invite_media ::
    "sip_env \<Rightarrow> udp_datagram \<Rightarrow> nat \<Rightarrow> nat option \<Rightarrow> SipInviteInfo \<Rightarrow> (SipInviteInfo \<times> bool) outcome" where
  "invite_media e d stop callIdField i =
     (case callIdField of
        None \<Rightarrow> Done (i, False)
      | Some p \<Rightarrow>
          let mem = dg_mem d
          in and_then (GrabTokenSkipLeadingWhitespaces mem p stop) (\<lambda>callId.
             and_then (memFindAfter_pu ''m=audio '' mem p stop) (\<lambda>audioField.
             and_then (memFindAfter_pu ''c=IN IP4 '' mem p stop) (\<lambda>connectionAddressField.
             and_then (case audioField of None \<Rightarrow> Done [] | Some a \<Rightarrow> GrabToken mem a stop) (\<lambda>port.
             and_then (case connectionAddressField of None \<Rightarrow> Done [] | Some k \<Rightarrow> GrabToken mem k stop) (\<lambda>address.
             let ip = (if address = [] then None else inet_pton4 address)
             in Done (i\<lparr>si_callId := callId, si_fromRtpPort := port,
                        si_fromRtpIp := (case ip of None \<Rightarrow> (0, 0, 0, 0) | Some a \<Rightarrow> a)\<rparr>,
                      sc_sipDropIndirectInvite (sp_config e) \<and> ip \<noteq> None \<and> ip \<noteq> Some (dg_src d))))))))"

definition invite_contact ::
    "sip_env \<Rightarrow> string \<Rightarrow> nat \<Rightarrow> nat option \<Rightarrow> SipInviteInfo \<Rightarrow> SipInviteInfo outcome" where
  "invite_contact e mem stop contactField i =
     (if si_sipMethod i = ''INVITE'' then
        and_then (in_line (party (sc_sipReportFullAddress (sp_config e)) [''sip:'']) no_party mem contactField stop)
          (\<lambda>(contactName, contact, contactDomain).
        Done (i\<lparr>si_contactName := contactName, si_contact := contact, si_contactDomain := contactDomain\<rparr>))
      else Done i)"

text \<open>The payload types of the audio part.\<close>

definition invite_payloads ::
    "sip_env \<Rightarrow> string \<Rightarrow> nat \<Rightarrow> nat \<times> nat \<Rightarrow> SipInviteInfo \<Rightarrow> SipInviteInfo outcome" where
  "invite_payloads e mem stop sdp i =
     and_then (memFindAfter_pu (LF # rtpmap_tag) mem (fst sdp) (snd sdp)) (\<lambda>rtpmapAttribute.
     case rtpmapAttribute of
       None \<Rightarrow> Done i
     | Some p \<Rightarrow>
         and_then (if vc_rtpReportDtmf (sp_voip e) then telephone_event mem (snd sdp) stop p else Done 0) (\<lambda>pt.
         and_then (GetDynamicPayloadMapping mem (fst sdp) (snd sdp) (si_payloadTypeMap i)) (\<lambda>m.
         Done (i\<lparr>si_telephoneEventPayloadType := pt, si_payloadTypeMap := m\<rparr>))))"

text \<open>The extracted fields: the position noted for the contact is the one of Replaces, and the length is that of the UDP header.\<close>

definition invite_extracts ::
    "sip_env \<Rightarrow> udp_datagram \<Rightarrow> nat \<Rightarrow> nat option list \<Rightarrow> SipInviteInfo \<Rightarrow> SipInviteInfo outcome" where
  "invite_extracts e d stop positions i =
     and_then (extract_fields (sc_sipExtractFields (sp_config e)) (dg_mem d) stop []) (\<lambda>f.
     and_then (ExtractKeyValuesData (sc_sipExtractKeyValues (sp_config e)) (dg_mem d) (nat (sipLength d)) positions f) (\<lambda>f1.
     Done (i\<lparr>si_extractedFields := f1\<rparr>)))"

definition invite_addresses :: "sip_env \<Rightarrow> udp_datagram \<Rightarrow> SipInviteInfo \<Rightarrow> SipInviteInfo" where
  "invite_addresses e d i =
     i\<lparr>si_fromRtpIp := (if si_fromRtpIp i = (0, 0, 0, 0)
                         then (if vc_dahdiIntercept (sp_voip e) then dg_dest d else dg_src d) else si_fromRtpIp i),
       si_senderIp := (if si_sipMethod i = ''200 OK'' then dg_dest d else dg_src d),
       si_receiverIp := (if si_sipMethod i = ''200 OK'' then dg_src d else dg_dest d),
       si_originalSenderIp := dg_src d, si_recvTime := sp_now e,
       si_senderMac := dg_sourceMac d, si_receiverMac := dg_destMac d\<rparr>"

text \<open>An INVITE is reported without a media port, the other messages only with one.\<close>

definition invite_complete :: "SipInviteInfo \<Rightarrow> bool" where
  "invite_complete i \<longleftrightarrow> (si_sipMethod i = ''INVITE'' \<or> si_fromRtpPort i \<noteq> []) \<and>
     si_from i \<noteq> [] \<and> si_to i \<noteq> [] \<and> si_callId i \<noteq> []"

definition invite_info :: "sip_env \<Rightarrow> udp_datagram \<Rightarrow> nat \<Rightarrow> string \<Rightarrow> (SipInviteInfo \<times> bool) outcome" where
  "invite_info e d stop method =
     (let mem = dg_mem d
      in and_then (find_from_header mem stop) (\<lambda>fromField.
         and_then (find_to_header mem stop) (\<lambda>toField.
         and_then (find_callId mem stop) (\<lambda>callIdField.
         and_then (find_header ''Replaces:'' CHR ''r'' mem stop) (\<lambda>replacesField.
         and_then (find_header ''Contact:'' CHR ''c'' mem stop) (\<lambda>contactField.
         and_then (memFindAfter_pu ''m=audio'' mem 0 stop) (\<lambda>audioStart.
         and_then (memFindAfter_pu ''m=video'' mem 0 stop) (\<lambda>videoStart.
         let sdp = audio_sdp audioStart videoStart stop
         in and_then (memFindAfter_pu ''a=sendonly'' mem (fst sdp) (snd sdp)) (\<lambda>attribSendonly.
            and_then (memFindAfter_pu ''a=inactive'' mem (fst sdp) (snd sdp)) (\<lambda>attribInactive.
            and_then (invite_parties e mem stop fromField toField (SipInviteInfo_new method)) (\<lambda>i1.
            and_then (invite_headers e mem stop replacesField i1) (\<lambda>i2.
            and_then (invite_media e d stop callIdField i2) (\<lambda>(i3, indirect).
            and_then (invite_contact e mem stop contactField i3) (\<lambda>i4.
            and_then (invite_extracts e d stop [fromField, toField, replacesField, replacesField] i4) (\<lambda>i5.
            and_then (invite_payloads e mem stop sdp i5) (\<lambda>i6.
            Done (invite_addresses e d
              (i6\<lparr>si_attrSendonly := (attribSendonly \<noteq> None \<or> attribInactive \<noteq> None)\<rparr>), indirect)))))))))))))))))"

definition TrySipInvite :: "sip_env \<Rightarrow> udp_datagram \<Rightarrow> sip_result" where
  "TrySipInvite e d =
     and_then (invite_method e d) (\<lambda>method.
     case method of
       None \<Rightarrow> not_sip
     | Some m \<Rightarrow>
         and_then (invite_info e d (nat (invite_end e d)) m) (\<lambda>(i, indirect).
         Done (True, if \<not> indirect \<and> invite_complete i then Some (InviteReport i) else None)))"

section \<open>The order of the parsers\<close>

text \<open>A parser is tried when none before it recognised the message.\<close>

fun first_of :: "(bool \<times> (sip_env \<Rightarrow> udp_datagram \<Rightarrow> sip_result)) list \<Rightarrow> sip_env \<Rightarrow> udp_datagram \<Rightarrow> sip_result" where
  "first_of [] e d = not_sip"
| "first_of ((enabled, p) # ps) e d =
     (if \<not> enabled then first_of ps e d
      else and_then (p e d) (\<lambda>(useful, report). if useful then Done (True, report) else first_of ps e d))"

definition udp_parsers :: "sip_env \<Rightarrow> (bool \<times> (sip_env \<Rightarrow> udp_datagram \<Rightarrow> sip_result)) list" where
  "udp_parsers e =
     (let c = sp_config e; v = sp_voip e
      in [(True, TrySipInvite), (True, TrySip200Ok), (vc_sipNotifySupport v, TrySipNotify),
          (sc_sipDetectSessionProgress c, TrySipSessionProgress),
          (sc_sip302MovedTemporarilySupport c, TrySip302MovedTemporarily),
          (True, TrySipBye), (True, TrySipRefer), (True, TrySipInfo), (True, TryLogFailedSip),
          (vc_sipCallPickUpSupport v, TrySipSubscribe)])"

definition DetectSip :: "sip_env \<Rightarrow> udp_datagram \<Rightarrow> sip_result" where
  "DetectSip e d = first_of (udp_parsers e) e d"

definition tcp_parsers :: "(bool \<times> (sip_env \<Rightarrow> udp_datagram \<Rightarrow> sip_result)) list" where
  "tcp_parsers = map (Pair True) [TrySipInvite, TrySip200Ok, TrySipNotify, TrySipSessionProgress,
     TrySip302MovedTemporarily, TrySipBye, TrySipRefer, TrySipInfo, TrySipSubscribe, TryLogFailedSip]"

text \<open>
  A message from a TCP stream is given the UDP header that a datagram of its size would have; the sum is cut
  to 16 bits.
\<close>

definition ParseSipMessage :: "sip_env \<Rightarrow> udp_datagram \<Rightarrow> sip_result" where
  "ParseSipMessage e d = first_of tcp_parsers e (d\<lparr>dg_udpLen := word_of_int (dg_end d + 8)\<rparr>)"

text \<open>
  The call of the registry that a parser makes. The INVITE object is new: its address is an argument, and
  the registry keeps a reference to it.
\<close>

fun sip_report_do :: "sessions_env \<Rightarrow> nat \<Rightarrow> sip_report \<Rightarrow> VoIpSessions \<Rightarrow> VoIpSessions outcome" where
  "sip_report_do e a (InviteReport i) R = registry_do (e, RgInvite a) (R\<lparr>rg_invites := (rg_invites R)(a := i)\<rparr>)"
| "sip_report_do e a (CallReport x) R = registry_do (e, x) R"

text \<open>
  The part of \<open>DetectUsefulUdpPacket\<close> that tries the SIP parsers: it is reached by a datagram that
  \<open>TryRtp\<close>, which comes first and is not modelled here, has not taken.
\<close>

definition HandleSip :: "sessions_env \<times> sip_env \<times> nat \<times> udp_datagram \<Rightarrow> VoIpSessions \<Rightarrow> VoIpSessions outcome" where
  "HandleSip x R = (case x of (e, s, a, d) \<Rightarrow>
     and_then (DetectSip s d) (\<lambda>(useful, report).
     case report of None \<Rightarrow> Done R | Some r \<Rightarrow> sip_report_do e a r R))"

end
