(* ===== verification/OrkSipSafety.thy ===== *)
theory OrkSipSafety
  imports OrkSipParsers
begin

text \<open>
  How far the SIP parsers read: with a NUL at or behind the end of the packet, up to that NUL, but for the
  comparison with the first line of short packets, a NOTIFY, and an attribute that is cut off at the end of the
  packet. A parser that recognises a message has seen its first line, so that the parsers exclude each other.
\<close>

section \<open>Chains of reading steps\<close>

definition field_in :: "nat \<Rightarrow> nat option \<Rightarrow> bool" where
  "field_in z r \<longleftrightarrow> (\<forall>q. r = Some q \<longrightarrow> q \<le> z)"

lemma field_in_simps [simp]: "field_in z None" "field_in z (Some q) = (q \<le> z)"
  by (simp_all add: field_in_def)

lemma then_any: "defined (\<lambda>_. True) m \<Longrightarrow> (\<And>x. defined P (f x)) \<Longrightarrow> defined P (and_then m f)"
  by (rule defined_intros(3))

lemma then_pair: "defined (\<lambda>_. True) m \<Longrightarrow> (\<And>x y. defined P (f x y)) \<Longrightarrow> defined P (and_then m (\<lambda>(x, y). f x y))"
  by (rule defined_intros(3), assumption) auto

lemma then_triple:
  "defined (\<lambda>_. True) m \<Longrightarrow> (\<And>x y w. defined P (f x y w)) \<Longrightarrow> defined P (and_then m (\<lambda>(x, y, w). f x y w))"
  by (rule defined_intros(3), assumption) auto

lemma any: "defined P m \<Longrightarrow> defined (\<lambda>_. True) m"
  by (rule outcome_mono(2)) simp_all

lemma find_after_in:
  assumes "mem_end mem z" "stop \<le> z"
  shows "defined (field_in z) (memFindAfter_pu pat mem start stop)"
  by (rule outcome_mono(2) [OF memFindAfter_ok [OF assms]]) (simp add: field_in_def)

lemma find_header_in:
  assumes "mem_end mem z" "stop \<le> z"
  shows "defined (field_in z) (find_header name short mem stop)"
  unfolding find_header_def
  by (rule defined_intros(3) [OF find_after_in [OF assms]])
     (auto split: option.split intro: defined_intros(1) find_after_in [OF assms])

lemma field_token_ok:
  "mem_end mem z \<Longrightarrow> field_in z f \<Longrightarrow> limit \<le> z \<Longrightarrow> defined (\<lambda>_. True) (field_token mem f limit)"
  unfolding field_token_def
  by (auto split: option.split intro: defined_intros(1) any [OF GrabTokenSkip_ok])

lemma uri_start_ok:
  "mem_end mem z \<Longrightarrow> p \<le> z \<Longrightarrow> limit \<le> z \<Longrightarrow> defined (\<lambda>u. u \<le> z) (uri_start tags mem p limit)"
proof (induction tags)
  case (Cons tag tags)
  show ?case unfolding uri_start.simps
    by (rule defined_intros(3) [OF find_after_in [OF Cons.prems(1,3)]])
       (auto split: option.split intro: defined_intros(1) Cons)
qed (simp add: defined_intros(1))

lemma grab_user_ok:
  "mem_end mem z \<Longrightarrow> p \<le> z \<Longrightarrow> limit \<le> z \<Longrightarrow> defined (\<lambda>_. True) (grab_user full mem p limit)"
  by (simp add: grab_user_def GrabSipUserAddress_ok GrabSipUriUser_ok)

lemma party_user_ok:
  "mem_end mem z \<Longrightarrow> p \<le> z \<Longrightarrow> limit \<le> z \<Longrightarrow> defined (\<lambda>_. True) (party_user full tags mem p limit)"
  unfolding party_user_def by (rule defined_intros(3) [OF uri_start_ok]) (auto intro: grab_user_ok)

lemma party_ok:
  assumes "mem_end mem z" "p \<le> z" "limit \<le> z"
  shows "defined (\<lambda>_. True) (party full tags mem p limit)"
  unfolding party_def
  by (rule then_any [OF GrabSipName_ok [OF assms]], rule defined_intros(3) [OF uri_start_ok [OF assms]])
     (rule then_any [OF grab_user_ok [OF assms(1) _ assms(3)]], assumption,
      rule then_any [OF GrabSipUriDomain_ok [OF assms(1) _ assms(3)]], assumption, rule defined_intros(1), simp)

lemma in_field_ok:
  assumes "mem_end mem z" "field_in z f" "limit \<le> z"
    and get: "\<And>p e. p \<le> z \<Longrightarrow> e \<le> z \<Longrightarrow> defined (\<lambda>_. True) (get mem p e)"
  shows "defined (\<lambda>_. True) (in_field get none mem f limit)"
proof (cases f)
  case (Some p)
  with assms(2) have "p \<le> z" by simp
  show ?thesis unfolding in_field_def Some option.case
    by (rule defined_intros(3) [OF memFindEOL_ok [OF assms(1) \<open>p \<le> z\<close> assms(3)]]) (rule get, auto intro: \<open>p \<le> z\<close>)
qed (simp add: in_field_def defined_intros(1))

lemma in_line_ok:
  assumes "mem_end mem z" "field_in z f" "limit \<le> z"
    and get: "\<And>p e. p \<le> z \<Longrightarrow> e \<le> z \<Longrightarrow> defined (\<lambda>_. True) (get mem p e)"
  shows "defined (\<lambda>_. True) (in_line get none mem f limit)"
proof (cases f)
  case (Some p)
  with assms(2) have "p \<le> z" by simp
  show ?thesis unfolding in_line_def Some option.case
    by (rule defined_intros(3) [OF GrabLine_ok [OF assms(1,3)]])
       (auto intro!: get \<open>p \<le> z\<close> simp: max_def split: if_splits dest: order_trans [OF _ assms(3)] intro: order_trans [OF _ \<open>p \<le> z\<close>])
qed (simp add: in_line_def defined_intros(1))

lemma text_is_ok: "length pat \<le> length mem \<Longrightarrow> defined (\<lambda>_. True) (text_is pat mem)"
  by (simp add: text_is_def defined_intros(1))

lemma text_is_any_ok: "\<forall>p \<in> set ps. length p \<le> length mem \<Longrightarrow> defined (\<lambda>_. True) (text_is_any ps mem)"
proof (induction ps)
  case (Cons p ps)
  show ?case unfolding text_is_any.simps
    by (rule then_any [OF text_is_ok]) (use Cons in \<open>auto intro: defined_intros(1)\<close>)
qed (simp add: defined_intros(1))

text \<open>The steps of a parser, with what each leaves to show about the rest.\<close>

lemma reading_steps:
  assumes z: "mem_end mem z" "stop \<le> z"
  shows "(\<And>r. field_in z r \<Longrightarrow> defined P (f r)) \<Longrightarrow> defined P (and_then (find_header n s mem stop) f)"
    "(\<And>r. field_in z r \<Longrightarrow> defined P (f r)) \<Longrightarrow> defined P (and_then (memFindAfter_pu pat mem i stop) f)"
    "field_in z r \<Longrightarrow> (\<And>x. defined P (g x)) \<Longrightarrow> defined P (and_then (field_token mem r stop) g)"
    "field_in z r \<Longrightarrow> (\<And>x y w. defined P (h x y w)) \<Longrightarrow>
      defined P (and_then (in_field (party full tags) no_party mem r stop) (\<lambda>(x, y, w). h x y w))"
    "field_in z r \<Longrightarrow> (\<And>x y w. defined P (h x y w)) \<Longrightarrow>
      defined P (and_then (in_line (party full tags) no_party mem r stop) (\<lambda>(x, y, w). h x y w))"
    "field_in z r \<Longrightarrow> (\<And>x. defined P (g x)) \<Longrightarrow>
      defined P (and_then (in_field (party_user full tags) [] mem r stop) g)"
    "field_in z r \<Longrightarrow> (\<And>x. defined P (g x)) \<Longrightarrow>
      defined P (and_then (in_line (party_user full tags) [] mem r stop) g)"
    "p \<le> z \<Longrightarrow> (\<And>x. defined P (g x)) \<Longrightarrow> defined P (and_then (GrabToken mem p stop) g)"
    "p \<le> z \<Longrightarrow> (\<And>x. defined P (g x)) \<Longrightarrow> defined P (and_then (GrabTokenSkipLeadingWhitespaces mem p stop) g)"
    "p \<le> z \<Longrightarrow> (\<And>x. defined P (g x)) \<Longrightarrow> defined P (and_then (GrabLineSkipLeadingWhitespace mem p stop) g)"
proof -
  note party = party_ok [OF z(1)] party_user_ok [OF z(1)]
  show "(\<And>r. field_in z r \<Longrightarrow> defined P (f r)) \<Longrightarrow> defined P (and_then (find_header n s mem stop) f)"
    by (rule defined_intros(3) [OF find_header_in [OF z]])
  show "(\<And>r. field_in z r \<Longrightarrow> defined P (f r)) \<Longrightarrow> defined P (and_then (memFindAfter_pu pat mem i stop) f)"
    by (rule defined_intros(3) [OF find_after_in [OF z]])
  show "field_in z r \<Longrightarrow> (\<And>x. defined P (g x)) \<Longrightarrow> defined P (and_then (field_token mem r stop) g)"
    by (rule then_any [OF field_token_ok [OF z(1) _ z(2)]])
  show "field_in z r \<Longrightarrow> (\<And>x y w. defined P (h x y w)) \<Longrightarrow>
      defined P (and_then (in_field (party full tags) no_party mem r stop) (\<lambda>(x, y, w). h x y w))"
    "field_in z r \<Longrightarrow> (\<And>x y w. defined P (h x y w)) \<Longrightarrow>
      defined P (and_then (in_line (party full tags) no_party mem r stop) (\<lambda>(x, y, w). h x y w))"
    by (rule then_triple, (rule in_field_ok [OF z(1) _ z(2)] in_line_ok [OF z(1) _ z(2)]; auto intro: party), blast)+
  show "field_in z r \<Longrightarrow> (\<And>x. defined P (g x)) \<Longrightarrow>
      defined P (and_then (in_field (party_user full tags) [] mem r stop) g)"
    "field_in z r \<Longrightarrow> (\<And>x. defined P (g x)) \<Longrightarrow>
      defined P (and_then (in_line (party_user full tags) [] mem r stop) g)"
    by (rule then_any, (rule in_field_ok [OF z(1) _ z(2)] in_line_ok [OF z(1) _ z(2)]; auto intro: party), blast)+
  show "p \<le> z \<Longrightarrow> (\<And>x. defined P (g x)) \<Longrightarrow> defined P (and_then (GrabToken mem p stop) g)"
    by (rule then_any [OF any [OF GrabToken_ok(1) [OF z(1) _ z(2)]]])
  show "p \<le> z \<Longrightarrow> (\<And>x. defined P (g x)) \<Longrightarrow> defined P (and_then (GrabTokenSkipLeadingWhitespaces mem p stop) g)"
    by (rule then_any [OF any [OF GrabTokenSkip_ok [OF z(1) _ z(2)]]])
  show "p \<le> z \<Longrightarrow> (\<And>x. defined P (g x)) \<Longrightarrow> defined P (and_then (GrabLineSkipLeadingWhitespace mem p stop) g)"
    by (rule then_any [OF GrabLineSkip_ok [OF z(1) _ z(2)]])
qed

section \<open>The parsers\<close>

text \<open>A NUL stands at or behind the end of the captured packet.\<close>

definition readable :: "udp_datagram \<Rightarrow> nat \<Rightarrow> bool" where
  "readable d z \<longleftrightarrow> mem_end (dg_mem d) z \<and> dg_end d \<le> int z"

text \<open>The comparisons of \<open>TrySipInvite\<close> and \<open>TrySipSubscribe\<close> with the first line ask for no length.\<close>

definition line_room :: "sip_env \<Rightarrow> udp_datagram \<Rightarrow> bool" where
  "line_room e d \<longleftrightarrow> 9 \<le> length (dg_mem d) \<and> (sc_sipTreat200OkAsInvite (sp_config e) \<longrightarrow> 11 \<le> length (dg_mem d)) \<and>
     (sc_sipDetectSessionProgress (sp_config e) \<longrightarrow> 28 \<le> length (dg_mem d))"

text \<open>
  The text that is read ends inside the tag of a payload type: its last byte is one of the tag. The search
  takes that for the tag, and the number is looked for behind the whole tag.
\<close>

definition tag_cut :: "string \<Rightarrow> nat \<Rightarrow> bool" where
  "tag_cut mem stop \<longleftrightarrow> 0 < stop \<and> to_lower (mem ! (stop - 1)) \<in> set rtpmap_tag"

definition tag_room :: "string \<Rightarrow> nat \<Rightarrow> nat \<Rightarrow> bool" where
  "tag_room mem stop z \<longleftrightarrow> tag_cut mem stop \<longrightarrow> z + 9 < length mem"

text \<open>What must be readable behind the first line and behind the NUL at \<open>z\<close>.\<close>

definition sip_room :: "sip_env \<Rightarrow> udp_datagram \<Rightarrow> nat \<Rightarrow> bool" where
  "sip_room e d z \<longleftrightarrow> line_room e d \<and> tag_room (dg_mem d) (nat (invite_end e d)) z \<and>
     (starts_with ''NOTIFY'' (c_str (dg_mem d)) \<longrightarrow> z + 50 < length (dg_mem d))"

lemma readableD:
  assumes "readable d z"
  shows "mem_end (dg_mem d) z"
    "\<not> sip_too_short n d \<Longrightarrow> nat (sipLength d) \<le> z"
    "\<not> sip_too_short n d \<Longrightarrow> int (length pat) \<le> n \<Longrightarrow> defined (\<lambda>_. True) (text_is pat (dg_mem d))"
  using assms by (auto simp: readable_def sip_too_short_def mem_end_def intro!: text_is_ok)

lemma not_sip_ok: "defined (\<lambda>_. True) not_sip"
  by (simp add: not_sip_def defined_intros(1))

lemma TrySipBye_ok:
  assumes "readable d z"
  shows "defined (\<lambda>_. True) (TrySipBye e d)"
proof (cases "sip_too_short 4 d")
  case False
  note r = readableD [OF assms]
  note steps = reading_steps [OF r(1) r(2) [OF False]]
  have "defined (\<lambda>_. True) (text_is ''BYE'' (dg_mem d))" by (rule r(3) [OF False]) simp
  then show ?thesis unfolding TrySipBye_def Let_def
    by (simp only: False if_False, elim then_any)
       (rule defined_intros(4), rule not_sip_ok, intro steps defined_intros(1); simp)
qed (simp add: TrySipBye_def not_sip_ok)

lemma back_to_space_ok:
  "i \<le> n \<Longrightarrow> mem ! i = CHR '' '' \<Longrightarrow> defined (\<lambda>k. k \<le> n) (back_to_space mem n)"
proof (induction n)
  case (Suc n)
  show ?case
  proof (cases "mem ! Suc n = CHR '' ''")
    case False
    with Suc.prems have "i \<le> n" by (metis le_SucE)
    with Suc.IH Suc.prems(2) False show ?thesis by (auto elim: outcome_mono(2))
  qed (simp add: defined_intros(1))
qed (simp add: defined_intros(1))

lemma grab_while_inside:
  assumes "i < length mem" "limit < length mem"
  shows "defined (\<lambda>s. i + length s < length mem) (grab_while P mem i limit)"
proof -
  let ?s = "takeWhile P (take (limit - i) (drop i mem))"
  have "length ?s \<le> limit - i" using length_takeWhile_le [of P "take (limit - i) (drop i mem)"] by simp
  then have "i + length ?s < length mem" using assms by linarith
  then show ?thesis using assms by (simp add: grab_while_eq defined_def yields_def)
qed

lemma GrabToken_inside:
  "i < length mem \<Longrightarrow> limit < length mem \<Longrightarrow> defined (\<lambda>_. True) (GrabToken mem i limit)"
  "i < length mem \<Longrightarrow> limit < length mem \<Longrightarrow> defined (\<lambda>_. True) (GrabTokenSkipLeadingWhitespaces mem i limit)"
proof -
  show tok: "i < length mem \<Longrightarrow> limit < length mem \<Longrightarrow> defined (\<lambda>_. True) (GrabToken mem i limit)" for i
    unfolding GrabToken_def by (rule any [OF grab_while_inside])
  show "i < length mem \<Longrightarrow> limit < length mem \<Longrightarrow> defined (\<lambda>_. True) (GrabTokenSkipLeadingWhitespaces mem i limit)"
    unfolding GrabTokenSkipLeadingWhitespaces_def SkipWhitespaces_def and_then_assoc and_then.simps
    by (rule defined_intros(3) [OF grab_while_inside]) (auto intro: tok)
qed

lemma match_ci_nth:
  "match_ci pat s = Some True \<Longrightarrow> k < length pat \<Longrightarrow> to_lower (s ! k) = to_lower (pat ! k)"
  by (induction pat s arbitrary: k rule: match_ci.induct) (auto simp: nth_Cons split: if_splits nat.splits)

lemma to_lower_blank: "to_lower c = to_lower CHR '' '' \<longleftrightarrow> c = CHR '' ''"
proof -
  have "chr_code (to_lower c) = 32 \<longleftrightarrow> chr_code c = 32" by (auto simp: to_lower_def is_upper_def)
  moreover have "d = CHR '' '' \<longleftrightarrow> chr_code d = 32" for d
    using of_char_eq_iff [of d "CHR '' ''", where ?'a = nat] by simp
  ultimately show ?thesis by (simp add: to_lower_def is_upper_def)
qed

lemma content_length_blank:
  assumes "memFindAfter_pu ''Content-Length: 50'' mem 0 stop = Done (Some q)"
  shows "q \<ge> 3 \<and> mem ! (q - 3) = CHR '' ''"
proof -
  have p: "c_str ''Content-Length: 50'' = ''Content-Length: 50''" by (simp add: c_str_def)
  from assms obtain i where i: "q = i + 18" "match_ci ''Content-Length: 50'' (drop i mem) = Some True" "i < length mem"
    by (auto simp: memFindAfter_pu_def Let_def p offset_by_Done dest!: mem_search_Some)
  from match_ci_nth [OF i(2), of 15] i(3) match_ci_length [OF i(2)] show ?thesis
    by (simp add: i(1) to_lower_blank add.commute)
qed

lemma notify_display_ok:
  assumes "mem_end mem z" "stop \<le> z" "z + 50 < length mem"
  shows "defined (\<lambda>_. True) (notify_display e mem stop)"
proof -
  note steps = reading_steps [OF assms(1,2)]
  have walk: "defined (\<lambda>p. p < length mem) (case c of None \<Rightarrow> Done p
      | Some q \<Rightarrow> if q + 50 < length mem then back_to_space mem (q + 50) else Undefined)"
    if "p \<le> z" "memFindAfter_pu ''Content-Length: 50'' mem 0 stop = Done c" for p c
  proof (cases c)
    case (Some q)
    with that(2) find_after_in [OF assms(1,2), of "''Content-Length: 50''" 0] have "q \<le> z"
      by (auto simp: defined_def yields_def)
    moreover from content_length_blank [of mem stop q] that(2) Some
    have "3 \<le> q" "mem ! (q - 3) = CHR '' ''" by auto
    ultimately have "defined (\<lambda>k. k \<le> q + 50) (back_to_space mem (q + 50))"
      by (intro back_to_space_ok [of "q - 3"]) simp_all
    then have "defined (\<lambda>k. k < length mem) (back_to_space mem (q + 50))"
      by (rule outcome_mono(2)) (use \<open>q \<le> z\<close> assms(3) in simp)
    with \<open>q \<le> z\<close> assms(3) show ?thesis by (simp add: Some)
  qed (use that assms in \<open>simp add: defined_intros(1)\<close>)
  have tail: "defined (\<lambda>_. True) (and_then (memFindAfter_pu ''Content-Length: 50'' mem 0 stop) (\<lambda>contentLen.
         and_then (case contentLen of
                     None \<Rightarrow> Done p
                   | Some q \<Rightarrow> if q + 50 < length mem then back_to_space mem (q + 50) else Undefined) (\<lambda>p1.
         and_then (GrabTokenSkipLeadingWhitespaces mem p1 stop) (\<lambda>dsp. Done (Some dsp)))))" if "p \<le> z" for p
  proof (cases "memFindAfter_pu ''Content-Length: 50'' mem 0 stop")
    case (Done c)
    show ?thesis unfolding Done and_then.simps
      by (rule defined_intros(3) [OF walk [OF that Done]], rule then_any [OF GrabToken_inside(2)])
         (use assms in \<open>auto intro: defined_intros(1)\<close>)
  next
    case Undefined
    with definedD(1) [OF find_after_in [OF assms(1,2)]] show ?thesis by blast
  qed (simp add: defined_intros(2))
  show ?thesis unfolding notify_display_def
    apply (rule steps(2))
    subgoal for line
      apply (rule defined_intros(3) [where Q = "field_in z"])
       apply (auto split: option.split intro: defined_intros(1) find_after_in [OF assms(1,2)]) [1]
      apply (auto split: option.split intro: defined_intros(1) tail)
      done
    done
qed

lemma notify_pkey_ok:
  assumes "mem_end mem z" "stop \<le> z"
  shows "defined (\<lambda>_. True) (notify_pkey e mem stop)"
proof -
  note steps = reading_steps [OF assms]
  show ?thesis unfolding notify_pkey_def
    apply (rule steps(2))
    subgoal for pkey
      by (cases pkey) (simp_all, (intro steps defined_intros(1); simp)+)
    done
qed

lemma TrySipNotify_ok:
  assumes "readable d z" "starts_with ''NOTIFY'' (c_str (dg_mem d)) \<longrightarrow> z + 50 < length (dg_mem d)"
  shows "defined (\<lambda>_. True) (TrySipNotify e d)"
proof (cases "sip_too_short 4 d")
  case False
  note r = readableD [OF assms(1)]
  note stop = r(2) [OF False]
  have "NUL \<in> set (dg_mem d)" using r(1) by (metis mem_end_def nth_mem)
  with assms(2) show ?thesis unfolding TrySipNotify_def Let_def
    by (simp add: False not_sip_ok)
       (intro impI reading_steps [OF r(1) stop] then_any [OF notify_display_ok [OF r(1) stop]]
         then_any [OF notify_pkey_ok [OF r(1) stop]]; simp add: not_sip_ok defined_intros(1))
qed (simp add: TrySipNotify_def not_sip_ok)

lemma TrySipInfo_ok:
  assumes "readable d z"
  shows "defined (\<lambda>_. True) (TrySipInfo e d)"
proof (cases "sip_too_short 5 d")
  case False
  note r = readableD [OF assms]
  note steps = reading_steps [OF r(1) r(2) [OF False]]
  have field: "defined (\<lambda>_. True) (case f of None \<Rightarrow> Done (False, False)
      | Some p \<Rightarrow> and_then (GrabLineSkipLeadingWhitespace (dg_mem d) p (nat (sipLength d))) (\<lambda>field. Done (on_demand_value v field)))"
    if "field_in z f" for f v
    using that by (cases f) (auto intro!: steps(10) defined_intros(1))
  have "defined (\<lambda>_. True) (text_is ''INFO'' (dg_mem d))" by (rule r(3) [OF False]) simp
  then show ?thesis unfolding TrySipInfo_def Let_def
    by (simp only: False if_False, elim then_any)
       (rule defined_intros(4), rule not_sip_ok,
        intro steps(1,2,3) defined_intros(1,4) then_pair [OF field]; (rule defined_intros(1))?; simp)
qed (simp add: TrySipInfo_def not_sip_ok)

lemma TryLogFailedSip_ok:
  assumes "readable d z"
  shows "defined (\<lambda>_. True) (TryLogFailedSip e d)"
proof (cases "sip_too_short 9 d")
  case False
  note r = readableD [OF assms]
  note stop = r(2) [OF False]
  note steps = reading_steps [OF r(1) stop]
  have line: "defined (\<lambda>_. True) (GrabLine (dg_mem d) p (nat (sipLength d)))" for p
    by (rule any [OF GrabLine_ok [OF r(1) stop]])
  have "defined (\<lambda>_. True) (text_is ''CANCEL '' (dg_mem d))" by (rule r(3) [OF False]) simp
  then have code: "defined (\<lambda>_. True) (failure_code (dg_mem d) (nat (sipLength d)))"
    unfolding failure_code_def
    by (intro steps(2) then_any [of "text_is ''CANCEL '' (dg_mem d)"] defined_intros(4) defined_intros(1))
       (auto split: option.split intro!: defined_intros(1) steps(9) then_pair [OF line])
  have "defined (\<lambda>_. True) (text_is_any failure_texts (dg_mem d))"
    using assms False by (intro text_is_any_ok) (auto simp: failure_texts_def readable_def sip_too_short_def mem_end_def)
  then show ?thesis unfolding TryLogFailedSip_def Let_def
    by (simp add: False not_sip_ok)
       (intro impI, elim then_any, auto intro!: steps(1,3) then_pair [OF code] defined_intros(1) simp: not_sip_ok)
qed (simp add: TryLogFailedSip_def not_sip_ok)

lemma media_part_ok:
  assumes "mem_end mem z" "stop \<le> z" "field_in z f"
  shows "defined (\<lambda>_. True) (media_part mem f stop)"
proof (cases f)
  case (Some p)
  note steps = reading_steps [OF assms(1,2)]
  from Some assms(3) have "p \<le> z" by simp
  then show ?thesis unfolding media_part_def Some option.case
    by (intro steps(2,9)) (auto split: option.split intro!: steps(8) defined_intros(1))
qed (simp add: media_part_def defined_intros(1))

lemma answer_ok:
  assumes "mem_end (dg_mem d) z" "stop \<le> z"
  shows "defined (\<lambda>_. True) (answer e d stop)"
  unfolding answer_def Let_def
  by (intro reading_steps [OF assms] then_pair [OF media_part_ok [OF assms]] defined_intros(1); simp)

lemma answers_ok:
  assumes "readable d z"
  shows "defined (\<lambda>_. True) (TrySipSessionProgress e d)" "defined (\<lambda>_. True) (TrySip200Ok e d)"
proof -
  note r = readableD [OF assms]
  have "defined (\<lambda>_. True) (text_is progress_text (dg_mem d))" if "\<not> sip_too_short 28 d"
    by (rule r(3) [OF that]) (simp add: progress_text_def)
  moreover have "defined (\<lambda>_. True) (text_is ok_text (dg_mem d))" if "\<not> sip_too_short 11 d"
    by (rule r(3) [OF that]) (simp add: ok_text_def)
  ultimately show "defined (\<lambda>_. True) (TrySipSessionProgress e d)" "defined (\<lambda>_. True) (TrySip200Ok e d)"
    unfolding TrySipSessionProgress_def TrySip200Ok_def
    by (auto intro!: defined_intros(4) not_sip_ok then_any [OF answer_ok [OF r(1) r(2)]] defined_intros(1) intro: then_any)
qed

lemma TrySip302MovedTemporarily_ok:
  assumes "readable d z"
  shows "defined (\<lambda>_. True) (TrySip302MovedTemporarily e d)"
proof (cases "sip_too_short 29 d")
  case False
  note r = readableD [OF assms]
  note steps = reading_steps [OF r(1) r(2) [OF False]]
  have "defined (\<lambda>_. True) (text_is ''SIP/2.0 302 Moved Temporarily'' (dg_mem d))" by (rule r(3) [OF False]) simp
  then show ?thesis unfolding TrySip302MovedTemporarily_def Let_def
    by (simp add: False not_sip_ok)
       (intro impI, elim then_any, rule defined_intros(4), rule not_sip_ok, intro steps defined_intros(1); simp)
qed (simp add: TrySip302MovedTemporarily_def not_sip_ok)

lemma refer_party_ok:
  assumes "mem_end mem z" "field_in z f" "stop \<le> z"
  shows "defined (\<lambda>_. True) (refer_party mem f stop)"
  unfolding refer_party_def
  by (rule in_field_ok [OF assms])
     (auto intro!: reading_steps(2) [OF assms(1)] defined_intros(1) GrabSipUriUser_ok [OF assms(1)] split: option.split)

lemma TrySipRefer_ok:
  assumes "readable d z"
  shows "defined (\<lambda>_. True) (TrySipRefer e d)"
proof (cases "sip_too_short 5 d")
  case False
  note r = readableD [OF assms]
  note stop = r(2) [OF False]
  note steps = reading_steps [OF r(1) stop]
  have "defined (\<lambda>_. True) (text_is ''REFER'' (dg_mem d))" by (rule r(3) [OF False]) simp
  then show ?thesis unfolding TrySipRefer_def Let_def
    by (simp only: False if_False, elim then_any)
       (rule defined_intros(4), rule not_sip_ok,
        intro steps(1-5) then_any [OF refer_party_ok [OF r(1) _ stop]] defined_intros(1); simp)
qed (simp add: TrySipRefer_def not_sip_ok)

lemma TrySipSubscribe_ok:
  assumes "readable d z" "starts_with ''SUBSCRIBE'' (dg_mem d) \<longrightarrow> sipLength d \<le> int z" "line_room e d"
  shows "defined (\<lambda>_. True) (TrySipSubscribe e d)"
proof (cases "starts_with ''SUBSCRIBE'' (dg_mem d)")
  case True
  note r = readableD [OF assms(1)]
  have "nat (sipLength d) \<le> z" using assms(2) True by simp
  note steps = reading_steps [OF r(1) this]
  have "defined (\<lambda>_. True) (text_is ''SUBSCRIBE'' (dg_mem d))"
    using assms(3) by (intro text_is_ok) (simp add: line_room_def)
  then show ?thesis unfolding TrySipSubscribe_def Let_def
    by (elim then_any) (rule defined_intros(4), rule not_sip_ok, intro steps(1-3) defined_intros(1); simp)
next
  case False
  have "take 9 (dg_mem d) \<noteq> ''SUBSCRIBE''"
  proof
    assume "take 9 (dg_mem d) = ''SUBSCRIBE''"
    then have "dg_mem d = ''SUBSCRIBE'' @ drop 9 (dg_mem d)" by (metis append_take_drop_id)
    with False show False by (simp only: starts_with_iff) blast
  qed
  then have "text_is ''SUBSCRIBE'' (dg_mem d) = Done False"
    using assms(3) by (simp add: text_is_def line_room_def eval_nat_numeral)
  then show ?thesis by (simp add: TrySipSubscribe_def not_sip_ok)
qed

section \<open>INVITE\<close>

lemma extract_fields_ok:
  assumes "mem_end mem z" "stop \<le> z"
  shows "defined (\<lambda>_. True) (extract_fields xs mem stop found)"
  by (induction xs arbitrary: found)
     (auto intro!: defined_intros(1) reading_steps(2,10) [OF assms] split: option.split)

lemma map_payload_ok: "defined (\<lambda>_. True) (map_payload l p m)"
  unfolding map_payload_def
  by (rule then_any) (auto intro: defined_intros split: option.split)

text \<open>The steps of a loop, with the equation the induction needs.\<close>

lemma then_eq:
  "defined Q m \<Longrightarrow> (\<And>x. m = Done x \<Longrightarrow> Q x \<Longrightarrow> defined P (f x)) \<Longrightarrow> defined P (and_then m f)"
  by (cases m) (auto simp: defined_def yields_def)

lemma tag_found:
  assumes "memFindStr_pu rtpmap_tag mem pos stop = Done (Some q)" "stop \<le> z" "z < length mem" "tag_room mem stop z"
  shows "q + length rtpmap_tag < length mem"
proof (cases "stop - q < 9")
  case True
  have tag: "c_str rtpmap_tag = rtpmap_tag" "length rtpmap_tag = 9" by (simp_all add: rtpmap_tag_def c_str_def)
  have q: "q < stop" "match_ci (take (stop - q) rtpmap_tag) (drop q mem) = Some True"
    using memFindStr_Some [OF assms(1)] by (simp_all only: tag)
  have "stop - q - 1 < length (take (stop - q) rtpmap_tag)" using q(1) True tag(2) by simp
  from match_ci_nth [OF q(2) this] have "to_lower (mem ! (stop - 1)) = to_lower (rtpmap_tag ! (stop - q - 1))"
    using q(1) assms(2,3) True tag(2) by simp
  moreover have "\<forall>c \<in> set rtpmap_tag. to_lower c = c" by code_simp
  moreover have "rtpmap_tag ! (stop - q - 1) \<in> set rtpmap_tag" using True q(1) tag(2) by (intro nth_mem) simp
  ultimately have "tag_cut mem stop" using q(1) by (simp add: tag_cut_def)
  then show ?thesis using assms(2,4) q(1) by (simp add: tag_room_def tag(2))
next
  case False
  then show ?thesis using assms(2,3) memFindStr_Some [OF assms(1)] by (simp add: rtpmap_tag_def)
qed

lemma payload_mapping_ok:
  assumes "mem_end mem z" "stop \<le> z" "tag_room mem stop z"
  shows "defined (\<lambda>_. True) (payload_mapping mem stop pos m)"
  using assms
proof (induction mem stop pos m rule: payload_mapping.induct)
  case (1 mem stop pos m)
  note p = "1.prems"
  have q: "q \<le> z" if "memFindStr_pu rtpmap_tag mem pos stop = Done (Some q)" for q
    using memFindStr_Some [OF that] p(2) by simp
  have z: "z < length mem" using p(1) by (simp add: mem_end_def)
  show ?case
    unfolding payload_mapping.simps [of mem stop pos m]
  proof (rule then_eq [OF any [OF memFindStr_ok [OF p(1,2)]]])
    fix r assume r: "memFindStr_pu rtpmap_tag mem pos stop = Done r"
    show "defined (\<lambda>_. True) (case r of None \<Rightarrow> Done m | Some q \<Rightarrow>
         and_then (GrabTokenAcceptSpace mem q stop) (\<lambda>fullLine.
         and_then (GrabToken mem (q + length rtpmap_tag) stop) (\<lambda>plStr.
         and_then (map_payload fullLine plStr m) (\<lambda>m1. payload_mapping mem stop (q + length fullLine) m1))))"
    proof (cases r)
      case (Some k)
      with r q have k: "k \<le> z" by blast
      show ?thesis unfolding Some option.case
        by (rule then_eq [OF GrabToken_ok(2) [OF p(1) k p(2)]],
            rule then_eq [OF GrabToken_inside(1) [OF tag_found [OF r [unfolded Some] p(2) z p(3)]]], use p z in simp,
            rule then_eq [OF map_payload_ok], rule "1.IH" [OF r Some _ _ _ p])
    qed (simp add: defined_intros(1))
  qed
qed

lemma telephone_event_ok:
  assumes "mem_end mem z" "sdpEnd \<le> z" "sipEnd \<le> z" "p \<le> z"
  shows "defined (\<lambda>_. True) (telephone_event mem sdpEnd sipEnd p)"
  using assms
proof (induction mem sdpEnd sipEnd p rule: telephone_event.induct)
  case (1 mem sdpEnd sipEnd p)
  note a = "1.prems"
  have z: "z < length mem" using a(1) by (simp add: mem_end_def)
  have short: "length pat \<le> length s \<Longrightarrow> match_ci pat s \<noteq> None" for pat s
    by (induction pat s rule: match_ci.induct) auto
  have hit: "defined (\<lambda>_. True) (case n of None \<Rightarrow> Done False
      | Some q \<Rightarrow> if q + 15 \<le> sipEnd then
          (case match_ci ''telephone-event'' (drop q mem) of None \<Rightarrow> Undefined | Some b \<Rightarrow> Done b) else Done False)" for n
  proof (cases n)
    case (Some q)
    have "match_ci ''telephone-event'' (drop q mem) \<noteq> None" if "q + 15 \<le> sipEnd"
    proof (rule short)
      have "length ''telephone-event'' = 15" by simp
      then show "length ''telephone-event'' \<le> length (drop q mem)" using that a(3) z by simp
    qed
    then show ?thesis by (auto simp: Some defined_intros(1))
  qed (simp add: defined_intros(1))
  show ?case
  proof (cases "p < sipEnd")
    case True
    show ?thesis
      unfolding telephone_event.simps [of mem sdpEnd sipEnd p]
    proof (simp only: True not_True_eq_False if_False, rule then_eq [OF GrabTokenSkip_ok [OF a(1,4,2)]],
        rule then_eq [OF find_after_in [OF a(1,2)]], rule then_eq [OF hit], rule defined_intros(4))
      fix t n b
      assume t: "GrabTokenSkipLeadingWhitespaces mem p sdpEnd = Done t"
        "memFindAfter_pu (t @ '' '') mem p sdpEnd = Done n"
        "(case n of None \<Rightarrow> Done False | Some q \<Rightarrow> if q + 15 \<le> sipEnd then
          (case match_ci ''telephone-event'' (drop q mem) of None \<Rightarrow> Undefined | Some b \<Rightarrow> Done b) else Done False) = Done b"
        and "\<not> b"
      show "defined (\<lambda>_. True) (and_then (memFindAfter_pu (LF # rtpmap_tag) mem p sdpEnd) (\<lambda>r.
          case r of None \<Rightarrow> Done 0 | Some q \<Rightarrow> telephone_event mem sdpEnd sipEnd q))"
      proof (rule then_eq [OF find_after_in [OF a(1,2)]])
        fix r assume "memFindAfter_pu (LF # rtpmap_tag) mem p sdpEnd = Done r" "field_in z r"
        then show "defined (\<lambda>_. True) (case r of None \<Rightarrow> Done 0 | Some q \<Rightarrow> telephone_event mem sdpEnd sipEnd q)"
          using "1.IH" [OF _ t \<open>\<not> b\<close>] True a by (cases r) (simp_all add: defined_intros(1))
      qed
    qed (auto split: option.split intro: defined_intros)
  qed (simp add: telephone_event.simps [of mem sdpEnd sipEnd p] defined_intros(1))
qed

lemma audio_sdp_in:
  "field_in z a \<Longrightarrow> field_in z v \<Longrightarrow> stop \<le> z \<Longrightarrow> fst (audio_sdp a v stop) \<le> z \<and> snd (audio_sdp a v stop) \<le> z"
  by (cases a; cases v) (auto simp: audio_sdp_def)

text \<open>The audio part ends at the end of the text, or behind the letters of \<open>m=video\<close>.\<close>

lemma audio_sdp_room:
  "tag_room mem stop z \<Longrightarrow> (\<And>q. v = Some q \<Longrightarrow> tag_room mem q z) \<Longrightarrow> tag_room mem (snd (audio_sdp a v stop)) z"
  by (cases a; cases v) (auto simp: audio_sdp_def)

lemma video_room:
  assumes "memFindAfter_pu ''m=video'' mem 0 stop = Done (Some q)"
  shows "tag_room mem q z"
proof -
  have p: "c_str ''m=video'' = ''m=video''" by (simp add: c_str_def)
  from assms obtain i where i: "q = i + 7" "match_ci ''m=video'' (drop i mem) = Some True" "i < length mem"
    by (auto simp: memFindAfter_pu_def Let_def p offset_by_Done dest!: mem_search_Some)
  have "to_lower (mem ! (q - 1)) = to_lower (CHR ''o'')"
    using match_ci_nth [OF i(2), of 6] i(1,3) match_ci_length [OF i(2)] by (simp add: add.commute)
  moreover have "to_lower (CHR ''o'') \<notin> set rtpmap_tag" by code_simp
  ultimately show ?thesis by (simp add: tag_room_def tag_cut_def)
qed

lemma invite_parties_ok:
  assumes "mem_end mem z" "stop \<le> z" "field_in z f" "field_in z t"
  shows "defined (\<lambda>_. True) (invite_parties e mem stop f t i)"
proof -
  note steps = reading_steps [OF assms(1,2)]
  have "defined (\<lambda>_. True) (invite_request_uri e mem stop)"
    unfolding invite_request_uri_def
    by (rule defined_intros(4), rule steps(2), rule in_field_ok [OF assms(1) _ assms(2)])
       (auto intro: party_user_ok [OF assms(1)] defined_intros(1))
  then show ?thesis unfolding invite_parties_def Let_def
    by (elim then_any) (intro steps(4,5) defined_intros(1) assms; simp)
qed

lemma invite_headers_ok:
  assumes "mem_end mem z" "stop \<le> z" "field_in z f"
  shows "defined (\<lambda>_. True) (invite_headers e mem stop f i)"
proof -
  note steps = reading_steps [OF assms(1,2)]
  have conf: "defined (field_in z) (configured_field name mem stop)" for name
    unfolding configured_field_def by (rule defined_intros(4)) (simp_all add: defined_intros(1) find_after_in [OF assms(1,2)])
  have remote: "field_in z r \<Longrightarrow> defined (\<lambda>_. True) (case r of None \<Rightarrow> Done []
      | Some p \<Rightarrow> party_user full tags mem p stop)" for r full tags
    by (cases r) (simp_all add: defined_intros(1) party_user_ok [OF assms(1) _ assms(2)])
  show ?thesis unfolding invite_headers_def Let_def
    by (intro defined_intros(3) [OF conf] steps(2,3) then_any [OF remote] defined_intros(1) assms(3); assumption?) simp_all
qed

lemma invite_media_ok:
  assumes "mem_end (dg_mem d) z" "stop \<le> z" "field_in z f"
  shows "defined (\<lambda>_. True) (invite_media e d stop f i)"
proof (cases f)
  case (Some p)
  note steps = reading_steps [OF assms(1,2)]
  have tok: "field_in z r \<Longrightarrow> defined (\<lambda>_. True) (case r of None \<Rightarrow> Done [] | Some a \<Rightarrow> GrabToken (dg_mem d) a stop)" for r
    by (cases r) (simp_all add: defined_intros(1) any [OF GrabToken_ok(1) [OF assms(1) _ assms(2)]])
  from Some assms(3) have "p \<le> z" by simp
  then show ?thesis unfolding invite_media_def Some option.case Let_def
    by (intro steps(2,9) then_any [OF tok] defined_intros(1); assumption?) simp_all
qed (simp add: invite_media_def defined_intros(1))

lemma invite_payloads_ok:
  assumes "mem_end mem z" "stop \<le> z" "tag_room mem (snd sdp) z" "fst sdp \<le> z" "snd sdp \<le> z"
  shows "defined (\<lambda>_. True) (invite_payloads e mem stop sdp i)"
  unfolding invite_payloads_def
proof (rule defined_intros(3) [OF find_after_in [OF assms(1,5)]])
  fix r assume "field_in z r"
  then show "defined (\<lambda>_. True) (case r of None \<Rightarrow> Done i | Some p \<Rightarrow>
      and_then (if vc_rtpReportDtmf (sp_voip e) then telephone_event mem (snd sdp) stop p else Done 0) (\<lambda>pt.
      and_then (GetDynamicPayloadMapping mem (fst sdp) (snd sdp) (si_payloadTypeMap i)) (\<lambda>m.
      Done (i\<lparr>si_telephoneEventPayloadType := pt, si_payloadTypeMap := m\<rparr>))))"
    unfolding GetDynamicPayloadMapping_def
    by (cases r) (auto intro!: defined_intros(1) then_any telephone_event_ok [OF assms(1,5,2)]
        payload_mapping_ok [OF assms(1,5,3)])
qed

lemma invite_contact_ok:
  assumes "mem_end mem z" "stop \<le> z" "field_in z f"
  shows "defined (\<lambda>_. True) (invite_contact e mem stop f i)"
  unfolding invite_contact_def
  by (rule defined_intros(4); (intro reading_steps(5) [OF assms(1,2)] defined_intros(1))?) (simp_all add: assms(3) defined_intros(1))

text \<open>Without key values to extract, reading an INVITE stays in the memory.\<close>

lemma invite_info_ok:
  assumes "readable d z" "stop \<le> z" "sc_sipExtractKeyValues (sp_config e) = []" "tag_room (dg_mem d) stop z"
  shows "defined (\<lambda>_. True) (invite_info e d stop method)"
proof -
  note r = readableD [OF assms(1)]
  note steps = reading_steps [OF r(1) assms(2)]
  have extracts: "defined (\<lambda>_. True) (invite_extracts e d stop ps i)" for ps i
    unfolding invite_extracts_def assms(3) ExtractKeyValuesData.simps and_then.simps
    by (rule then_any [OF extract_fields_ok [OF r(1) assms(2)]]) (rule defined_intros(1), simp)
  have rest: "defined (\<lambda>_. True) (and_then (memFindAfter_pu ''a=sendonly'' (dg_mem d) (fst sdp) (snd sdp)) (\<lambda>a.
      and_then (memFindAfter_pu ''a=inactive'' (dg_mem d) (fst sdp) (snd sdp)) (\<lambda>b.
      and_then (invite_parties e (dg_mem d) stop f t (SipInviteInfo_new method)) (\<lambda>i1.
      and_then (invite_headers e (dg_mem d) stop p i1) (\<lambda>i2.
      and_then (invite_media e d stop k i2) (\<lambda>(i3, indirect).
      and_then (invite_contact e (dg_mem d) stop c i3) (\<lambda>i4.
      and_then (invite_extracts e d stop [f, t, p, p] i4) (\<lambda>i5.
      and_then (invite_payloads e (dg_mem d) stop sdp i5) (\<lambda>i6.
      Done (invite_addresses e d
        (i6\<lparr>si_attrSendonly := (a \<noteq> None \<or> b \<noteq> None)\<rparr>), indirect))))))))))"
    if "field_in z f" "field_in z t" "field_in z k" "field_in z p" "field_in z c"
      "fst sdp \<le> z \<and> snd sdp \<le> z" "tag_room (dg_mem d) (snd sdp) z" for f t k p c sdp
  proof -
    from that(6) have sdp: "fst sdp \<le> z" "snd sdp \<le> z" by auto
    show ?thesis
      by (rule then_any [OF any [OF find_after_in [OF r(1) sdp(2)]]], rule then_any [OF any [OF find_after_in [OF r(1) sdp(2)]]],
          rule then_any [OF invite_parties_ok [OF r(1) assms(2) that(1,2)]],
          rule then_any [OF invite_headers_ok [OF r(1) assms(2) that(4)]],
          rule then_pair [OF invite_media_ok [OF r(1) assms(2) that(3)]],
          rule then_any [OF invite_contact_ok [OF r(1) assms(2) that(5)]], rule then_any [OF extracts],
          rule then_any [OF invite_payloads_ok [OF r(1) assms(2) that(7) sdp]], rule defined_intros(1), simp)
  qed
  have video: "defined (\<lambda>v. field_in z v \<and> (\<forall>q. v = Some q \<longrightarrow> tag_room (dg_mem d) q z))
      (memFindAfter_pu ''m=video'' (dg_mem d) 0 stop)"
    using find_after_in [OF r(1) assms(2), of "''m=video''" 0] video_room [of "dg_mem d" stop _ z]
    by (auto simp: defined_def yields_def)
  show ?thesis unfolding invite_info_def Let_def
    by (rule steps(1), rule steps(1), rule steps(1), rule steps(1), rule steps(1), rule steps(2),
        rule defined_intros(3) [OF video], elim conjE)
       (intro rest audio_sdp_in audio_sdp_room assms(2,4); blast)
qed

lemma TrySipInvite_ok:
  assumes "readable d z" "sc_sipExtractKeyValues (sp_config e) = []" "sip_room e d z"
  shows "defined (\<lambda>_. True) (TrySipInvite e d)"
proof -
  note r = readableD [OF assms(1)]
  have room: "line_room e d" "tag_room (dg_mem d) (nat (invite_end e d)) z" using assms(3) by (simp_all add: sip_room_def)
  have "defined (\<lambda>_. True) (text_is ''INVITE'' (dg_mem d))" "defined (\<lambda>_. True) (text_is ''ACK'' (dg_mem d))"
    "defined (\<lambda>_. True) (if sc_sipTreat200OkAsInvite (sp_config e) then text_is ok_text (dg_mem d) else Done False)"
    "defined (\<lambda>_. True) (if sc_sipDetectSessionProgress (sp_config e) then text_is progress_text (dg_mem d) else Done False)"
    using room(1) by (auto simp: line_room_def ok_text_def progress_text_def intro!: text_is_ok defined_intros(1))
  then have m: "defined (\<lambda>m. m \<noteq> None \<longrightarrow> invite_end e d \<le> dg_end d) (invite_method e d)"
    unfolding invite_method_def Let_def
    by (cases "sipLength d < 3 \<or> invite_end e d > dg_end d")
       (auto simp: defined_intros(1) intro!: then_any intro: defined_intros(1,4))
  show ?thesis unfolding TrySipInvite_def
  proof (rule defined_intros(3) [OF m])
    fix m :: "string option" assume m: "m \<noteq> None \<longrightarrow> invite_end e d \<le> dg_end d"
    show "defined (\<lambda>_. True) (case m of None \<Rightarrow> not_sip | Some m \<Rightarrow>
         and_then (invite_info e d (nat (invite_end e d)) m) (\<lambda>(i, indirect).
         Done (True, if \<not> indirect \<and> invite_complete i then Some (InviteReport i) else None)))"
    proof (cases m)
      case (Some t)
      with m assms(1) have "nat (invite_end e d) \<le> z" by (simp add: readable_def nat_le_iff)
      then show ?thesis unfolding Some option.case
        by (intro then_pair [OF invite_info_ok [OF assms(1) _ assms(2) room(2)]] defined_intros(1); simp)
    qed (simp add: not_sip_ok)
  qed
qed

lemma first_of_ok:
  "(\<And>p. (True, p) \<in> set ps \<Longrightarrow> defined (\<lambda>_. True) (p e d)) \<Longrightarrow> defined (\<lambda>_. True) (first_of ps e d)"
proof (induction ps)
  case (Cons bp ps)
  obtain b p where bp: "bp = (b, p)" by (cases bp)
  have "defined (\<lambda>_. True) (first_of ps e d)" by (rule Cons.IH) (rule Cons.prems, simp)
  moreover have "b \<Longrightarrow> defined (\<lambda>_. True) (p e d)" using Cons.prems [of p] by (simp add: bp)
  ultimately show ?case
    by (auto simp: bp intro!: then_pair defined_intros(1,4))
qed (simp add: not_sip_ok)

lemmas parsers_ok = TrySipInvite_ok answers_ok TrySipNotify_ok TrySip302MovedTemporarily_ok TrySipBye_ok
  TrySipRefer_ok TrySipInfo_ok TryLogFailedSip_ok TrySipSubscribe_ok

text \<open>The text of a SUBSCRIBE is read as far as the length in the UDP header says.\<close>

definition subscribe_fits :: "udp_datagram \<Rightarrow> nat \<Rightarrow> bool" where
  "subscribe_fits d z \<longleftrightarrow> starts_with ''SUBSCRIBE'' (dg_mem d) \<longrightarrow> sipLength d \<le> int z"

lemma DetectSip_ok:
  assumes "readable d z" "sc_sipExtractKeyValues (sp_config e) = []" "sip_room e d z"
    "vc_sipCallPickUpSupport (sp_voip e) \<longrightarrow> subscribe_fits d z"
  shows "defined (\<lambda>_. True) (DetectSip e d)"
  unfolding DetectSip_def
proof (rule first_of_ok)
  fix p assume "(True, p) \<in> set (udp_parsers e)"
  then show "defined (\<lambda>_. True) (p e d)"
    using assms by (auto simp: udp_parsers_def Let_def sip_room_def subscribe_fits_def intro: parsers_ok)
qed

lemma tcp_parsers_ok:
  assumes "readable d z" "sc_sipExtractKeyValues (sp_config e) = []" "sip_room e d z" "subscribe_fits d z"
  shows "defined (\<lambda>_. True) (first_of tcp_parsers e d)"
  using assms by (intro first_of_ok) (auto simp: tcp_parsers_def sip_room_def subscribe_fits_def intro: parsers_ok)

section \<open>The first line decides\<close>

text \<open>The texts that a parser recognises, in the order of the parsers.\<close>

definition method_texts :: "string list list" where
  "method_texts = [[''INVITE'', ''ACK'', ok_text, progress_text], [ok_text], [''NOTIFY''], [progress_text],
     [''SIP/2.0 302 Moved Temporarily''], [''BYE''], [''REFER''], [''INFO''], [''SUBSCRIBE''], failure_texts]"

lemma text_is_Done: "text_is pat mem = Done b \<longleftrightarrow> length pat \<le> length mem \<and> b = starts_with pat mem"
proof -
  have "take (length pat) mem = pat \<longleftrightarrow> starts_with pat mem" if "length pat \<le> length mem"
    using that by (auto simp: starts_with_iff) (metis append_take_drop_id)
  then show ?thesis by (auto simp: text_is_def)
qed

lemma text_is_any_Done: "text_is_any ps mem = Done True \<Longrightarrow> \<exists>p \<in> set ps. starts_with p mem"
  by (induction ps) (auto simp: text_is_Done split: if_splits)

lemma not_sip_Done [simp]: "not_sip = Done x \<longleftrightarrow> x = (False, None)"
  by (auto simp: not_sip_def)

lemma invite_method_text:
  "invite_method e d = Done (Some m) \<Longrightarrow> \<exists>t \<in> {''INVITE'', ''ACK''} \<union> (if sc_sipTreat200OkAsInvite (sp_config e) then {ok_text} else {})
     \<union> (if sc_sipDetectSessionProgress (sp_config e) then {progress_text} else {}). starts_with t (dg_mem d)"
  unfolding invite_method_def Let_def by (auto simp: text_is_Done split: if_splits)

lemma guarded: "(if c then not_sip else x) = Done (True, r) \<Longrightarrow> x = Done (True, r)"
  by (simp split: if_split_asm)

lemma text_is_then: "and_then (text_is t mem) (\<lambda>b. if \<not> b then not_sip else f) = Done (True, r) \<Longrightarrow> starts_with t mem"
  by (simp add: text_is_Done split: if_split_asm)

lemma starts_with_c_str: "starts_with t (c_str s) \<Longrightarrow> starts_with t s"
  by (auto simp: c_str_def starts_with_iff) (metis append.assoc takeWhile_dropWhile_id)

lemma recognised_text:
  "TrySipInvite e d = Done (True, r) \<Longrightarrow> \<exists>m. invite_method e d = Done (Some m)"
  "TrySip200Ok e d = Done (True, r) \<Longrightarrow> starts_with ok_text (dg_mem d) \<and> \<not> sc_sipTreat200OkAsInvite (sp_config e)"
  "TrySipNotify e d = Done (True, r) \<Longrightarrow> starts_with ''NOTIFY'' (dg_mem d)"
  "TrySipSessionProgress e d = Done (True, r) \<Longrightarrow> starts_with progress_text (dg_mem d) \<and> \<not> sip_too_short 28 d"
  "TrySip302MovedTemporarily e d = Done (True, r) \<Longrightarrow> starts_with ''SIP/2.0 302 Moved Temporarily'' (dg_mem d)"
  "TrySipBye e d = Done (True, r) \<Longrightarrow> starts_with ''BYE'' (dg_mem d)"
  "TrySipRefer e d = Done (True, r) \<Longrightarrow> starts_with ''REFER'' (dg_mem d)"
  "TrySipInfo e d = Done (True, r) \<Longrightarrow> starts_with ''INFO'' (dg_mem d)"
  "TrySipSubscribe e d = Done (True, r) \<Longrightarrow> starts_with ''SUBSCRIBE'' (dg_mem d)"
  "TryLogFailedSip e d = Done (True, r) \<Longrightarrow> \<exists>t \<in> set failure_texts. starts_with t (dg_mem d)"
proof -
  show "TrySipInvite e d = Done (True, r) \<Longrightarrow> \<exists>m. invite_method e d = Done (Some m)"
    by (auto simp: TrySipInvite_def split: option.splits)
  show "TrySip200Ok e d = Done (True, r) \<Longrightarrow> starts_with ok_text (dg_mem d) \<and> \<not> sc_sipTreat200OkAsInvite (sp_config e)"
    "TrySipSessionProgress e d = Done (True, r) \<Longrightarrow> starts_with progress_text (dg_mem d) \<and> \<not> sip_too_short 28 d"
    by (auto simp: TrySip200Ok_def TrySipSessionProgress_def text_is_Done split: if_split_asm)
  show "TrySipNotify e d = Done (True, r) \<Longrightarrow> starts_with ''NOTIFY'' (dg_mem d)"
    by (rule starts_with_c_str) (simp add: TrySipNotify_def Let_def split: if_split_asm)
  show "TrySip302MovedTemporarily e d = Done (True, r) \<Longrightarrow> starts_with ''SIP/2.0 302 Moved Temporarily'' (dg_mem d)"
    "TrySipBye e d = Done (True, r) \<Longrightarrow> starts_with ''BYE'' (dg_mem d)"
    "TrySipRefer e d = Done (True, r) \<Longrightarrow> starts_with ''REFER'' (dg_mem d)"
    "TrySipInfo e d = Done (True, r) \<Longrightarrow> starts_with ''INFO'' (dg_mem d)"
    "TrySipSubscribe e d = Done (True, r) \<Longrightarrow> starts_with ''SUBSCRIBE'' (dg_mem d)"
    unfolding TrySip302MovedTemporarily_def TrySipBye_def TrySipRefer_def TrySipInfo_def TrySipSubscribe_def Let_def
    by (drule guarded, drule guarded, erule text_is_then) ((drule guarded)?, erule text_is_then)+
  show "TryLogFailedSip e d = Done (True, r) \<Longrightarrow> \<exists>t \<in> set failure_texts. starts_with t (dg_mem d)"
    unfolding TryLogFailedSip_def Let_def
    by (rule text_is_any_Done) (auto split: if_split_asm)
qed

text \<open>Which texts each parser stands for, by its place in the order.\<close>

lemma parser_text:
  assumes "i < 10" "snd (tcp_parsers ! i) e d = Done (True, r)"
  shows "\<exists>t \<in> set (method_texts ! i). starts_with t (dg_mem d)"
proof -
  note t = recognised_text [of e d r]
  have "i \<in> {0, 1, 2, 3, 4, 5, 6, 7, 8, 9}" using assms(1) by auto
  then show ?thesis using assms(2)
    by (elim insertE emptyE; simp add: tcp_parsers_def method_texts_def)
       (use t in \<open>auto dest!: t(1) invite_method_text split: if_split_asm\<close>)
qed

lemma starts_with_both: "starts_with a s \<Longrightarrow> starts_with b s \<Longrightarrow> starts_with a b \<or> starts_with b a"
  by (auto simp: starts_with_iff append_eq_append_conv2)

definition texts_clash :: "nat \<Rightarrow> nat \<Rightarrow> bool" where
  "texts_clash i j = list_ex (\<lambda>a. list_ex (\<lambda>b. starts_with a b \<or> starts_with b a) (method_texts ! j)) (method_texts ! i)"

lemma texts_clash_only: "list_all (\<lambda>i. list_all (\<lambda>j. texts_clash i j \<longrightarrow> (i, j) \<in> {(0, 1), (0, 3)}) [Suc i..<10]) [0..<10]"
  by code_simp

lemma invite_not_ok:
  assumes "TrySipInvite e d = Done (True, r)" "starts_with ok_text (dg_mem d)"
  shows "sc_sipTreat200OkAsInvite (sp_config e)"
proof -
  from recognised_text(1) [OF assms(1)] obtain m where "invite_method e d = Done (Some m)" by blast
  from invite_method_text [OF this] obtain t where t: "starts_with t (dg_mem d)"
    "t \<in> {''INVITE'', ''ACK'', progress_text} \<or> sc_sipTreat200OkAsInvite (sp_config e)"
    by (auto split: if_split_asm)
  from starts_with_both [OF t(1) assms(2)] t(2) show ?thesis
    by (auto simp: ok_text_def progress_text_def)
qed

lemma invite_not_progress:
  assumes "TrySipInvite e d = Done (True, r)" "starts_with progress_text (dg_mem d)"
  shows "sc_sipDetectSessionProgress (sp_config e)"
proof -
  from recognised_text(1) [OF assms(1)] obtain m where "invite_method e d = Done (Some m)" by blast
  from invite_method_text [OF this] obtain t where t: "starts_with t (dg_mem d)"
    "t \<in> {''INVITE'', ''ACK'', ok_text} \<or> sc_sipDetectSessionProgress (sp_config e)"
    by (auto split: if_split_asm)
  from starts_with_both [OF t(1) assms(2)] t(2) show ?thesis
    by (auto simp: ok_text_def progress_text_def)
qed

section \<open>Sample datagrams\<close>

definition sample_sip_config :: "bool \<Rightarrow> SipConfig" where
  "sample_sip_config progress = \<lparr>sc_sipReportFullAddress = False, sc_sipIgnoreBye = False, sc_necNotifyDispLine = [],
     sc_necOnHoldMarker = [], sc_necOffHoldMarker = [], sc_sipLogFailedCalls = False, sc_sipTreat200OkAsInvite = False,
     sc_sip302MovedTemporarilySupport = False, sc_sipDetectSessionProgress = progress,
     sc_ipFragmentsReassemble = False, sc_sipDialedNumberFieldName = [], sc_sipRemotePartyFieldName = [],
     sc_sipLocalPartyFieldName = ''x-Local-Extension:'', sc_sipGroupPickUpPattern = [], sc_sipDropIndirectInvite = False,
     sc_sipExtractFields = [], sc_sipExtractKeyValues = []\<rparr>"

definition sample_sip :: "bool \<Rightarrow> sip_env" where
  "sample_sip progress = \<lparr>sp_config = sample_sip_config progress, sp_voip = sample_config, sp_now = 1000, sp_junkPkey = 0\<rparr>"

text \<open>A text from 10.0.0.1 to 10.0.0.2, with zeros behind the packet.\<close>

definition sip_datagram :: "string \<Rightarrow> udp_datagram" where
  "sip_datagram s = \<lparr>dg_sourceMac = [], dg_destMac = [], dg_src = (10, 0, 0, 1), dg_dest = (10, 0, 0, 2),
     dg_fragOffset = 0, dg_sourcePort = 5060, dg_destPort = 5060, dg_udpLen = word_of_int (int (length s) + 8),
     dg_mem = s @ replicate 60 NUL, dg_end = int (length s)\<rparr>"

lemma sip_datagram_readable: "readable (sip_datagram s) (length s)"
  by (simp add: readable_def sip_datagram_def mem_end_def nth_append)

text \<open>A name with a character that the memory does not have is not found.\<close>

lemma match_ci_without:
  "c \<in> set pat \<Longrightarrow> to_lower c \<notin> to_lower ` set s \<Longrightarrow> NUL \<in> set s \<Longrightarrow> NUL \<notin> set pat \<Longrightarrow>
   match_ci pat s = Some False"
  by (induction pat s rule: match_ci.induct) (auto simp: to_lower_NUL)

lemma search_without:
  assumes "n \<le> length cs" "c \<in> set pat" "to_lower c \<notin> to_lower ` set (cs @ [NUL])" "NUL \<notin> set pat"
  shows "mem_search first (\<lambda>s n. match_ci pat s) here (cs @ [NUL]) n = Done None"
  using assms(1,3)
proof (induction cs arbitrary: here n)
  case (Cons x cs)
  then show ?case using match_ci_without [OF assms(2), of "(x # cs) @ [NUL]"] assms(4)
    by (cases n) (auto simp: offset_by_def)
qed simp

lemma find_without:
  assumes "list_ex (\<lambda>c. to_lower c \<notin> to_lower ` set mem) name" "NUL \<notin> set name" "stop < length mem" "last mem = NUL"
  shows "memFindAfter_pu name mem 0 stop = Done None"
proof -
  from assms(1) obtain c where c: "c \<in> set name" "to_lower c \<notin> to_lower ` set mem" by (auto simp: list_ex_iff)
  have m: "butlast mem @ [NUL] = mem" using assms(3,4) by (metis append_butlast_last_id list.size(3) not_less_zero)
  have "mem_search (memnchr_hit (hd name)) (\<lambda>s n. match_ci name s) True (butlast mem @ [NUL]) stop = Done None"
    using assms(2,3) c by (intro search_without) (simp_all only: m, simp_all)
  then show ?thesis by (simp add: m c_str_id [OF assms(2)] memFindAfter_pu_def offset_by_def)
qed

lemma sample_sip_parts: "dg_mem (sip_datagram s) = s @ replicate 60 NUL" "dg_src (sip_datagram s) = (10, 0, 0, 1)"
  "sp_config (sample_sip b) = sample_sip_config b" "sp_voip (sample_sip b) = sample_config"
  by (simp_all add: sip_datagram_def sample_sip_def)

lemma sample_progress:
  "TrySipInvite (sample_sip True) (sip_datagram progress_text) = Done (True, None)" (is ?invite)
  "TrySipSessionProgress (sample_sip True) (sip_datagram progress_text) = Done (True, None)" (is ?progress)
proof -
  let ?m = "progress_text @ replicate 60 NUL"
  have "list_all (\<lambda>name. list_ex (\<lambda>c. to_lower c \<notin> to_lower ` set ?m) name \<and> NUL \<notin> set name)
     [''From:'', LF # ''f:'', ''To:'', LF # ''t:'', ''Call-ID:'', LF # ''i:'', ''Replaces:'', LF # ''r:'', ''Contact:'',
      LF # ''c:'', ''m=audio'', ''m=video'', ''a=sendonly'', ''a=inactive'', ''x-Local-Extension:'', LF # ''User-Agent:'',
      LF # rtpmap_tag]" by code_simp
  then have "list_all (\<lambda>name. memFindAfter_pu name ?m 0 28 = Done None)
     [''From:'', LF # ''f:'', ''To:'', LF # ''t:'', ''Call-ID:'', LF # ''i:'', ''Replaces:'', LF # ''r:'', ''Contact:'',
      LF # ''c:'', ''m=audio'', ''m=video'', ''a=sendonly'', ''a=inactive'', ''x-Local-Extension:'', LF # ''User-Agent:'',
      LF # rtpmap_tag]" by (rule list.pred_mono_strong) (simp add: find_without progress_text_def)
  note find = this [unfolded list.pred_inject]
  have m: "invite_method (sample_sip True) (sip_datagram progress_text) = Done (Some progress_text)" by code_simp
  have e: "nat (invite_end (sample_sip True) (sip_datagram progress_text)) = 28" by code_simp
  show ?invite
    by (simp add: TrySipInvite_def m e invite_info_def sample_sip_parts find find_header_def audio_sdp_def invite_parties_def
      invite_request_uri_def in_field_def in_line_def invite_headers_def configured_field_def sample_config_def
      sample_sip_config_def field_token_def invite_media_def invite_contact_def invite_extracts_def invite_payloads_def
      SipInviteInfo_new_def invite_complete_def invite_addresses_def del: and_then_Done)
  have p: "\<not> sip_too_short 28 (sip_datagram progress_text)" "nat (sipLength (sip_datagram progress_text)) = 28"
    "text_is progress_text ?m = Done True" by code_simp+
  show ?progress
    by (simp add: TrySipSessionProgress_def p answer_def sample_sip_parts find find_header_def media_part_def in_field_def
      in_line_def del: and_then_Done)
qed

text \<open>
  C19. A SIP message is recognised by one parser at most, whatever it contains, so that the order of the
  parsers does not matter, with one exception: a 183 Session Progress, which the INVITE parser takes too when
  session progress is to be detected.
\<close>

theorem sip_parsers_exclusive:
  assumes "i < j" "j < 10" "snd (tcp_parsers ! i) e d = Done (True, r)" "snd (tcp_parsers ! j) e d = Done (True, s)"
  shows "i = 0 \<and> j = 3 \<and> sc_sipDetectSessionProgress (sp_config e)"
proof -
  have "i < 10" using assms(1,2) by simp
  from parser_text [OF this assms(3)] obtain a where a: "a \<in> set (method_texts ! i)" "starts_with a (dg_mem d)" by blast
  from parser_text [OF assms(2,4)] obtain b where b: "b \<in> set (method_texts ! j)" "starts_with b (dg_mem d)" by blast
  from a b starts_with_both have "texts_clash i j" unfolding texts_clash_def by (fastforce simp: list_ex_iff)
  with texts_clash_only assms(1,2) have ij: "(i, j) \<in> {(0, 1), (0, 3)}" by (fastforce simp: list_all_iff)
  then have inv: "TrySipInvite e d = Done (True, r)" using assms(3) by (auto simp: tcp_parsers_def)
  from ij show ?thesis
  proof (elim insertE emptyE)
    assume ij1: "(i, j) = (0, 1)"
    then have "TrySip200Ok e d = Done (True, s)" using assms(4) by (simp add: tcp_parsers_def)
    from recognised_text(2) [OF this] invite_not_ok [OF inv] show ?thesis by blast
  next
    assume ij3: "(i, j) = (0, 3)"
    then have "TrySipSessionProgress e d = Done (True, s)" using assms(4) by (simp add: tcp_parsers_def)
    from recognised_text(4) [OF this] invite_not_progress [OF inv] ij3 show ?thesis by blast
  qed
qed

lemma sip_parsers_exclusive_witness:
  "(0::nat) = 0 \<and> (3::nat) = 3 \<and> sc_sipDetectSessionProgress (sp_config (sample_sip True))"
proof (rule sip_parsers_exclusive [where d = "sip_datagram progress_text" and r = None and s = None])
qed (simp_all add: tcp_parsers_def sample_progress del: and_then_Done)

text \<open>
  C12. How far the SIP parsers read. Whatever the text of a datagram and whatever its headers say of its length,
  if a NUL stands at or behind the end of the packet, the parsers read up to that NUL and no further, with these
  exceptions, for which the bytes named must be readable: 9 bytes from the beginning of a packet that is shorter
  (11 and 28 with the settings that look for more first lines), 50 bytes behind the NUL for a NOTIFY, 9 behind it
  if the text ends in a letter of \<open>a=rtpmap:\<close>, and up to the length in the UDP header for a SUBSCRIBE where
  subscriptions are looked at. This is for an installation that extracts no key values.
\<close>

theorem sip_reads_bounded:
  assumes "readable d z" "sip_room e d z" "sc_sipExtractKeyValues (sp_config e) = []"
    "vc_sipCallPickUpSupport (sp_voip e) \<longrightarrow> subscribe_fits d z"
  shows "DetectSip e d \<noteq> Undefined"
  using definedD(1) [OF DetectSip_ok [OF assms(1,3,2,4)]] .

theorem sip_reads_bounded_witness:
  "DetectSip (sample_sip True) (sip_datagram ''SIP/2.0 200 From:'') \<noteq> Undefined"
proof -
  have "sip_room (sample_sip True) (sip_datagram ''SIP/2.0 200 From:'') 17" by code_simp
  moreover have "readable (sip_datagram ''SIP/2.0 200 From:'') 17"
    using sip_datagram_readable [of "''SIP/2.0 200 From:''"] by (simp add: eval_nat_numeral)
  ultimately show ?thesis
    by (intro sip_reads_bounded [of _ 17]) (simp_all add: sample_sip_def sample_sip_config_def sample_config_def)
qed

text \<open>
  C40. A SIP message from a TCP stream is read within its buffer. Behind the message \<open>s\<close> the buffer has what else
  came of the stream and one NUL, and nothing more: a message of any text that is at least 28 bytes long, ends with
  a line, is no NOTIFY and fits into a datagram is read by all the parsers without leaving the buffer, for any
  settings that extract no key values.
\<close>

theorem sip_message_in_buffer:
  assumes "dg_mem d = SafeBuffer_memory (s @ rest)" "dg_end d = int (length s)" "28 \<le> length s" "length s < 65528"
    "last s = LF" "\<not> starts_with ''NOTIFY'' s" "sc_sipExtractKeyValues (sp_config e) = []"
  shows "ParseSipMessage e d \<noteq> Undefined"
proof -
  let ?d = "d\<lparr>dg_udpLen := word_of_int (dg_end d + 8)\<rparr>" and ?z = "length (s @ rest)"
  have len: "sipLength ?d = int (length s)"
  proof -
    have "uint (word_of_int (int (length s) + 8) :: u16) = int (length s) + 8"
      unfolding uint_word_of_int_eq using assms(4) by (intro take_bit_int_eq_self) simp_all
    then show ?thesis by (simp only: sipLength_def assms(2) udp_datagram.simps) simp
  qed
  then have fin: "nat (invite_end e ?d) = length s" using assms(2) by (simp add: invite_end_def)
  have mem: "dg_mem ?d = s @ rest @ [NUL]" using assms(1) by (simp add: SafeBuffer_memory_def)
  have r: "readable ?d ?z" using assms(2) mem by (simp add: readable_def mem_end_def nth_append)
  have "s \<noteq> []" using assms(3) by auto
  then have "(s @ rest @ [NUL]) ! (length s - 1) = LF" using assms(5) by (simp add: nth_append last_conv_nth)
  moreover have "to_lower LF \<notin> set rtpmap_tag" by code_simp
  ultimately have cut: "\<not> tag_cut (dg_mem ?d) (nat (invite_end e ?d))" unfolding fin mem tag_cut_def by simp
  have "\<not> starts_with ''NOTIFY'' (c_str (s @ rest @ [NUL]))"
  proof
    assume "starts_with ''NOTIFY'' (c_str (s @ rest @ [NUL]))"
    then have "starts_with ''NOTIFY'' (s @ rest @ [NUL])" by (rule starts_with_c_str)
    then obtain t where "s @ rest @ [NUL] = ''NOTIFY'' @ t" by (auto simp: starts_with_iff)
    from arg_cong [OF this, of "take 6"] have "take 6 s = ''NOTIFY''" using assms(3) by simp
    then have "s = ''NOTIFY'' @ drop 6 s" using assms(3) append_take_drop_id [of 6 s] by simp
    with assms(6) show False by (simp only: starts_with_iff) blast
  qed
  with cut assms(3) have room: "sip_room e ?d ?z"
    unfolding sip_room_def line_room_def tag_room_def mem by (simp add: mem)
  have fits: "subscribe_fits ?d ?z" using len by (simp add: subscribe_fits_def)
  show ?thesis using definedD(1) [OF tcp_parsers_ok [OF r assms(7) room fits]] by (simp add: ParseSipMessage_def)
qed

text \<open>A message with another one behind it.\<close>

definition buffered :: "string \<Rightarrow> string \<Rightarrow> udp_datagram" where
  "buffered s rest = (sip_datagram s)\<lparr>dg_mem := SafeBuffer_memory (s @ rest)\<rparr>"

theorem sip_message_in_buffer_witness:
  "ParseSipMessage (sample_sip True) (buffered (''INVITE sip:200@10.0.0.2 SIP/2.0'' @ [CR, LF]) ''BYE'') \<noteq> Undefined"
  by (rule sip_message_in_buffer [where s = "''INVITE sip:200@10.0.0.2 SIP/2.0'' @ [CR, LF]" and rest = "''BYE''"])
    (simp_all add: buffered_def sip_datagram_def sample_sip_def sample_sip_config_def)

end
