(* ===== verification/OrkSipCases.thy ===== *)
theory OrkSipCases
  imports OrkSipSafety OrkVoipRegistryCases
begin

text \<open>
  What the SIP parsers read: the search is a plain search for the first occurrence, a BYE that a client
  writes is read back and ends its call, SIP traffic is undefined exactly where a parser reads behind its
  packet, and a payload type that is no number throws out of the handler.
\<close>

section \<open>The search finds the first occurrence\<close>

lemma find_map_Suc: "List.find P (map Suc xs) = map_option Suc (List.find (\<lambda>k. P (Suc k)) xs)"
  by (induction xs) auto

lemma mem_search_first:
  assumes "\<And>k. k < n \<Longrightarrow> m (drop k cs) (n - k) \<noteq> None" "n \<le> length cs"
    and "\<And>k. k < n \<Longrightarrow> m (drop k cs) (n - k) = Some True \<Longrightarrow> first (cs ! k)"
  shows "mem_search first m here cs n = Done (List.find (\<lambda>k. m (drop k cs) (n - k) = Some True) [0..<n])"
  using assms
proof (induction first m here cs n rule: mem_search.induct)
  case (3 first m here c cs n)
  obtain b where b: "m (c # cs) (Suc n) = Some b" using "3.prems"(1) [of 0] by auto
  have rest: "\<And>k. k < n \<Longrightarrow> m (drop k cs) (n - k) \<noteq> None" "n \<le> length cs"
    "\<And>k. k < n \<Longrightarrow> m (drop k cs) (n - k) = Some True \<Longrightarrow> first (cs ! k)"
    using "3.prems"(1) [of "Suc k" for k] "3.prems"(2) "3.prems"(3) [of "Suc k" for k] by auto
  have upt: "[0..<Suc n] = 0 # map Suc [0..<n]" by (simp add: upt_conv_Cons map_Suc_upt del: upt_Suc)
  have find: "List.find (\<lambda>k. m (drop k (c # cs)) (Suc n - k) = Some True) [0..<Suc n] =
      (if b then Some 0 else map_option Suc (List.find (\<lambda>k. m (drop k cs) (n - k) = Some True) [0..<n]))"
    unfolding upt List.find.simps find_map_Suc using b by simp
  show ?case
  proof (cases "here \<or> first c")
    case True
    show ?thesis
    proof (cases b)
      case False
      then have f: "b = False" by simp
      have "mem_search first m here (c # cs) (Suc n) = offset_by 1 (mem_search first m False cs n)"
        using True b f by simp
      from this "3.IH"(1) [OF True b f rest] show ?thesis unfolding find by (simp only: f offset_by_def and_then.simps) simp
    qed (use True b find in simp)
  next
    case False
    then have f: "b = False" using "3.prems"(3) [of 0] b by auto
    have "mem_search first m here (c # cs) (Suc n) = offset_by 1 (mem_search first m False cs n)"
      using False by simp
    from this "3.IH"(2) [OF False rest] show ?thesis unfolding find by (simp only: f offset_by_def and_then.simps) simp
  qed
qed (simp_all)

lemma to_lower_eq_hit: "to_lower a = to_lower c \<Longrightarrow> memnchr_hit a c"
proof -
  have code: "chr_code (to_lower x) = (if is_upper x then chr_code x + 32 else chr_code x)" for x :: char
    by (auto simp: to_lower_def is_upper_def chr_code_char_of)
  have up: "chr_code (to_upper x) = (if is_lower x then chr_code x - 32 else chr_code x)" for x :: char
    by (auto simp: to_upper_def is_lower_def chr_code_char_of)
  have eq: "x = y \<longleftrightarrow> chr_code x = chr_code y" for x y :: char
    using of_char_eq_iff [of x y, where ?'a = nat] by simp
  assume "to_lower a = to_lower c"
  then show ?thesis unfolding memnchr_hit_def eq code up
    by (auto simp: is_upper_def is_lower_def split: if_splits)
qed

text \<open>The plain search.\<close>

definition first_at :: "string \<Rightarrow> string \<Rightarrow> nat \<Rightarrow> nat \<Rightarrow> nat option" where
  "first_at pat mem start stop = List.find (\<lambda>i. match_ci pat (drop i mem) = Some True) [start..<stop]"

lemma find_upt_shift: "List.find P [a..<a + n] = map_option (\<lambda>k. k + a) (List.find (\<lambda>k. P (k + a)) [0..<n])"
proof -
  have "[a..<a + n] = map (\<lambda>k. k + a) [0..<n]" by (simp add: map_add_upt add.commute)
  moreover have "List.find P (map f xs) = map_option f (List.find (P \<circ> f) xs)" for f and xs :: "nat list"
    by (induction xs) auto
  ultimately show ?thesis by (simp add: o_def)
qed

lemma search_first:
  assumes "mem_end mem z" "stop \<le> z" "c_str pat \<noteq> []"
  shows "memFindAfter_pu pat mem start stop = Done (map_option (\<lambda>i. i + length (c_str pat)) (first_at (c_str pat) mem start stop))"
proof (cases "start < stop")
  case False
  then show ?thesis by (simp add: memFindAfter_pu_def first_at_def offset_by_def)
next
  case True
  let ?p = "c_str pat" and ?n = "stop - start"
  have z: "z < length mem" "mem ! z = NUL" using assms(1) by (auto simp: mem_end_def)
  have nul: "match_ci ?p (drop k (drop start mem)) \<noteq> None" if "k < ?n" for k
  proof -
    have "drop k (drop start mem) ! (z - start - k) = NUL" "z - start - k < length (drop k (drop start mem))"
      using that z assms(2) True by simp_all
    then have "NUL \<in> set (drop k (drop start mem))" by (metis nth_mem)
    then show ?thesis by (rule match_ci_NUL_defined) (rule c_str_no_NUL)
  qed
  have hit: "memnchr_hit (hd ?p) (drop start mem ! k)" if "match_ci ?p (drop k (drop start mem)) = Some True" for k
    using match_ci_nth [OF that, of 0] match_ci_length [OF that] assms(3)
    by (intro to_lower_eq_hit) (cases ?p; simp add: add.commute)
  have "mem_search (memnchr_hit (hd ?p)) (\<lambda>s n. match_ci ?p s) True (drop start mem) ?n =
      Done (List.find (\<lambda>k. match_ci ?p (drop k (drop start mem)) = Some True) [0..<?n])"
    by (rule mem_search_first) (use nul hit z assms(2) in auto)
  with True show ?thesis using find_upt_shift [of "\<lambda>i. match_ci ?p (drop i mem) = Some True" start ?n]
    by (simp add: memFindAfter_pu_def Let_def offset_by_def first_at_def option.map_comp o_def add_ac)
qed

section \<open>Headers of a message\<close>

lemma match_ci_iff:
  "match_ci pat s = Some True \<longleftrightarrow> length pat \<le> length s \<and> map to_lower (take (length pat) s) = map to_lower pat"
  by (induction pat s rule: match_ci.induct) auto

text \<open>A text between colons, and whether it ends with the name of a header.\<close>

definition ends_ci :: "string \<Rightarrow> string \<Rightarrow> bool" where
  "ends_ci u c \<longleftrightarrow> length u \<le> length c \<and> map to_lower (drop (length c - length u) c) = map to_lower u"

lemma ends_ci_append: "length u \<le> length b \<Longrightarrow> ends_ci u (a @ b) = ends_ci u b"
  by (simp add: ends_ci_def)

lemma to_lower_colon: "to_lower c = to_lower CHR '':'' \<longleftrightarrow> c = CHR '':''"
proof -
  have "chr_code (to_lower c) = 58 \<longleftrightarrow> chr_code c = 58" by (auto simp: to_lower_def is_upper_def chr_code_char_of)
  moreover have "d = CHR '':'' \<longleftrightarrow> chr_code d = 58" for d
    using of_char_eq_iff [of d "CHR '':''", where ?'a = nat] by simp
  ultimately show ?thesis by (simp add: to_lower_def is_upper_def)
qed

lemma match_at_colon:
  assumes "CHR '':'' \<notin> set c" "CHR '':'' \<notin> set u" "k \<le> length c"
  shows "match_ci (u @ '':'') (drop k (c @ CHR '':'' # rest)) = Some True \<longleftrightarrow> k + length u = length c \<and> ends_ci u c"
proof
  let ?s = "drop k (c @ CHR '':'' # rest)"
  assume m: "match_ci (u @ '':'') ?s = Some True"
  have at: "to_lower (?s ! j) = to_lower ((u @ '':'') ! j)" if "j \<le> length u" for j
    using match_ci_nth [OF m, of j] that by simp
  have len: "length u < length ?s" using match_ci_length [OF m] by simp
  have "\<not> k + length u < length c"
  proof
    assume lt: "k + length u < length c"
    then have "length u < length c - k" by simp
    then have "c ! (k + length u) = CHR '':''"
      using at [of "length u"] assms(3) by (simp add: to_lower_colon nth_append)
    with nth_mem [OF lt] assms(1) show False by simp
  qed
  moreover have "\<not> length c < k + length u"
  proof
    assume "length c < k + length u"
    then have lt: "length c - k < length u" using assms(3) by linarith
    then have "to_lower (u ! (length c - k)) = to_lower CHR '':''"
      using at [of "length c - k"] assms(3) by (simp add: nth_append)
    then show False using assms(2) nth_mem [OF lt] by (metis to_lower_colon)
  qed
  ultimately have k: "k + length u = length c" by simp
  have one: "Suc (length u + k) - length c = 1" using k by simp
  from m k have "map to_lower (take (length u) (drop k c)) = map to_lower u"
    by (simp add: match_ci_iff one)
  moreover have "length c - length u = k" using k by simp
  ultimately show "k + length u = length c \<and> ends_ci u c" using k by (simp add: ends_ci_def)
next
  assume a: "k + length u = length c \<and> ends_ci u c"
  then have "k = length c - length u" by (metis add_diff_cancel_right')
  with a show "match_ci (u @ '':'') (drop k (c @ CHR '':'' # rest)) = Some True"
    by (simp add: match_ci_iff ends_ci_def)
qed

lemma first_at_step:
  assumes mem: "drop start mem = c @ CHR '':'' # rest"
    and c: "CHR '':'' \<notin> set c" "CHR '':'' \<notin> set u" and stop: "start + length c < stop"
  shows "first_at (u @ '':'') mem start stop =
    (if ends_ci u c then Some (start + length c - length u) else first_at (u @ '':'') mem (start + length c + 1) stop)"
proof -
  let ?P = "\<lambda>i. match_ci (u @ '':'') (drop i mem) = Some True"
  have P: "?P (start + k) \<longleftrightarrow> k + length u = length c \<and> ends_ci u c" if "k \<le> length c" for k
    using match_at_colon [OF c that, of rest] mem by (simp add: add.commute flip: drop_drop)
  have split: "[start..<stop] = [start..<start + length c + 1] @ [start + length c + 1..<stop]"
    using stop by (metis Suc_eq_plus1 Suc_leI add.assoc le_add1 upt_add_eq_append le_add_diff_inverse)
  have app: "List.find Q (xs @ ys) = (case List.find Q xs of None \<Rightarrow> List.find Q ys | r \<Rightarrow> r)" for Q and xs ys :: "nat list"
    by (induction xs) auto
  show ?thesis
  proof (cases "ends_ci u c")
    case True
    then have "length u \<le> length c" by (simp add: ends_ci_def)
    have "List.find ?P [start..<start + length c + 1] = Some (start + length c - length u)"
    proof (subst find_upt, intro conjI allI impI)
      show "?P (start + length c - length u)" using P [of "length c - length u"] True \<open>length u \<le> length c\<close> by simp
      show "\<not> ?P k" if "start \<le> k \<and> k < start + length c - length u" for k
      proof
        assume m: "?P k"
        have "k - start \<le> length c" "start \<le> k" using that by linarith+
        with P [of "k - start"] m have "k - start + length u = length c" by simp
        with that show False by linarith
      qed
    qed (use \<open>length u \<le> length c\<close> in simp_all)
    with True show ?thesis by (simp only: first_at_def split app if_True option.case)
  next
    case False
    have "List.find ?P [start..<start + length c + 1] = None"
      unfolding find_None_iff
    proof
      assume "\<exists>i. i \<in> set [start..<start + length c + 1] \<and> ?P i"
      then obtain i where i: "start \<le> i" "i \<le> start + length c" "?P i"
        by (auto simp: less_Suc_eq_le simp del: upt_Suc)
      then have "i - start \<le> length c" by linarith
      with P [of "i - start"] i False show False by simp
    qed
    with False show ?thesis by (simp only: first_at_def split app if_False option.case)
  qed
qed

text \<open>The message as texts between colons, and the position behind the first of them that ends with a name.\<close>

fun join_colon :: "string list \<Rightarrow> string \<Rightarrow> string" where
  "join_colon [] r = r"
| "join_colon (c # cs) r = c @ CHR '':'' # join_colon cs r"

fun header_index :: "string \<Rightarrow> string list \<Rightarrow> nat \<Rightarrow> nat option" where
  "header_index u [] pos = None"
| "header_index u (c # cs) pos =
     (if ends_ci u c then Some (pos + length c + 1) else header_index u cs (pos + length c + 1))"

lemma header_found:
  assumes "drop start mem = join_colon cs r" "\<forall>c \<in> set cs. CHR '':'' \<notin> set c" "CHR '':'' \<notin> set u"
    "header_index u cs start = Some q" "q \<le> stop"
  shows "map_option (\<lambda>i. i + length (u @ '':'')) (first_at (u @ '':'') mem start stop) = Some q"
  using assms
proof (induction cs arbitrary: start)
  case (Cons c cs)
  have mem: "drop start mem = c @ CHR '':'' # join_colon cs r" using Cons.prems(1) by simp
  have le: "header_index u xs p = Some q \<Longrightarrow> p \<le> q" for xs p by (induction xs arbitrary: p) (fastforce split: if_splits)+
  have "start + length c < stop" using Cons.prems(4,5) le by (fastforce split: if_splits)
  note step = first_at_step [OF mem _ Cons.prems(3) this]
  have c: "CHR '':'' \<notin> set c" using Cons.prems(2) by simp
  show ?case
  proof (cases "ends_ci u c")
    case True
    then show ?thesis using step [OF c] Cons.prems(4) by (simp add: ends_ci_def)
  next
    case False
    have "drop (start + length c + 1) mem = join_colon cs r"
      using arg_cong [OF mem, of "drop (length c + 1)"] by (simp add: add_ac)
    from Cons.IH [OF this _ Cons.prems(3) _ Cons.prems(5)] Cons.prems(2,4) False show ?thesis
      using step [OF c] by simp
  qed
qed simp

lemma search_header:
  assumes "mem_end mem z" "stop \<le> z" "drop start mem = join_colon cs r"
    "\<forall>c \<in> set cs. CHR '':'' \<notin> set c" "CHR '':'' \<notin> set u" "NUL \<notin> set u" "header_index u cs start = Some q" "q \<le> stop"
  shows "memFindAfter_pu (u @ '':'') mem start stop = Done (Some q)"
proof -
  have "c_str (u @ '':'') = u @ '':''" using assms(6) by (intro c_str_id) auto
  with search_first [OF assms(1,2), of "u @ '':''" start] header_found [OF assms(3-5,7,8)]
  show ?thesis by simp
qed

text \<open>What the loops read up to the byte that ends them.\<close>

lemma nth_behind: "drop i mem = s @ c # r \<Longrightarrow> mem ! (i + length s) = c"
proof -
  assume d: "drop i mem = s @ c # r"
  then have "i \<le> length mem" by (cases "i \<le> length mem") auto
  then have "mem ! (i + length s) = drop i mem ! length s" by simp
  then show ?thesis by (simp add: d)
qed

lemma grab_exact:
  assumes "drop i mem = s @ c # r" "\<forall>x \<in> set s. P x" "\<not> P c" "i + length s \<le> limit"
  shows "grab_while P mem i limit = Done s"
proof -
  have "scan P (t @ c # r) n = Done t" if "\<forall>x \<in> set t. P x" "length t \<le> n" for t n
    using that assms(3) by (induction t arbitrary: n) auto
  from this [of s "limit - i"] assms show ?thesis by (simp add: grab_while_def)
qed

lemma token_exact:
  assumes "drop i mem = CHR '' '' # s @ c # r" "i + length s < limit"
    "\<forall>x \<in> set s. x \<noteq> NUL \<and> x \<noteq> CHR '' '' \<and> x \<noteq> CR \<and> x \<noteq> LF" "c = CR"
  shows "GrabTokenSkipLeadingWhitespaces mem i limit = Done s"
proof -
  obtain x xs where x: "s @ c # r = x # xs" "x \<noteq> CHR '' ''" using assms(3,4) by (cases s) auto
  have "grab_while (\<lambda>c. c = CHR '' '' \<and> c \<noteq> NUL \<and> c \<noteq> CR \<and> c \<noteq> LF) mem i limit = Done '' ''"
    by (rule grab_exact [where c = x and r = xs]) (use assms(1,2) x in auto)
  then have skip: "SkipWhitespaces mem i limit = Done (i + 1)" by (simp add: SkipWhitespaces_def)
  have "drop (i + 1) mem = s @ c # r" using arg_cong [OF assms(1), of tl] by (simp add: drop_Suc tl_drop)
  then show ?thesis unfolding GrabTokenSkipLeadingWhitespaces_def skip and_then.simps GrabToken_def
    by (rule grab_exact) (use assms in auto)
qed

lemma scan_line_exact:
  "\<forall>c \<in> set t. c \<noteq> CR \<and> c \<noteq> LF \<Longrightarrow> length t < n \<Longrightarrow> scan_line (t @ CR # s) n = Done t"
proof (induction t arbitrary: n)
  case Nil
  then show ?case by (cases n) simp_all
next
  case (Cons c t)
  then show ?case by (cases n) simp_all
qed

text \<open>Reading does not throw.\<close>

lemma then_thrown: "and_then m f = Thrown \<longleftrightarrow> m = Thrown \<or> (\<exists>x. m = Done x \<and> f x = Thrown)"
  by (cases m) auto

lemma scan_not_thrown: "scan P cs n \<noteq> Thrown" "offset_by k m = Thrown \<longleftrightarrow> m = Thrown" "strchr x cs \<noteq> Thrown"
proof -
  show off: "offset_by k m = Thrown \<longleftrightarrow> m = Thrown" for k m by (simp add: offset_by_def then_thrown)
  show "scan P cs n \<noteq> Thrown" by (induction P cs n rule: scan.induct) (auto simp: then_thrown)
  show "strchr x cs \<noteq> Thrown" by (induction cs) (auto simp: off)
qed

lemma mem_search_not_thrown: "mem_search first m here cs n \<noteq> Thrown"
  by (induction first m here cs n rule: mem_search.induct) (auto simp: scan_not_thrown split: option.split bool.split)

lemma name_domain_not_thrown: "GrabSipName mem i limit \<noteq> Thrown" "GrabSipUriDomain mem i limit \<noteq> Thrown"
proof -
  have g: "grab_while P mem i limit \<noteq> Thrown" for P i by (simp add: grab_while_def scan_not_thrown)
  have s: "SkipWhitespaces mem i limit \<noteq> Thrown" by (simp add: SkipWhitespaces_def then_thrown g)
  have "memFindStr_pu pat mem j limit \<noteq> Thrown" for pat j
    by (simp add: memFindStr_pu_def Let_def scan_not_thrown mem_search_not_thrown)
  then show "GrabSipName mem i limit \<noteq> Thrown"
    by (simp add: GrabSipName_def then_thrown s split: option.split)
  show "GrabSipUriDomain mem i limit \<noteq> Thrown"
    by (simp add: GrabSipUriDomain_def then_thrown s g scan_not_thrown Let_def split: option.split)
qed

text \<open>The line of an address: the user is what stands between the scheme and the at sign.\<close>

definition user_text :: "string \<Rightarrow> bool" where
  "user_text s \<longleftrightarrow> s \<noteq> [] \<and> (\<forall>c \<in> set s. user_char c)"

definition plain_text :: "string \<Rightarrow> bool" where
  "plain_text s \<longleftrightarrow> (\<forall>c \<in> set s. c \<noteq> CHR '':'' \<and> c \<noteq> CR \<and> c \<noteq> LF \<and> c \<noteq> NUL)"

lemma user_char_plain: "user_char c \<Longrightarrow> c \<noteq> CHR '':'' \<and> c \<noteq> CR \<and> c \<noteq> LF \<and> c \<noteq> NUL \<and> c \<noteq> CHR '' '' \<and> c \<noteq> CHR ''@''"
  by (auto simp: user_char_def char_defs)

lemma user_text_plain: "user_text s \<Longrightarrow> plain_text s"
  by (auto simp: user_text_def plain_text_def dest: user_char_plain)

definition address_text :: "string \<Rightarrow> string \<Rightarrow> string" where
  "address_text user domain = '' <sip:'' @ user @ ''@'' @ domain @ ''>''"

lemma party_exact:
  assumes "mem_end mem z" "e \<le> z" "user_text u" "plain_text h"
    and mem: "drop p mem = address_text u h @ CR # r" and e: "e = p + length (address_text u h)"
  shows "\<exists>name domain. party False [''sip:''] mem p e = Done (name, u, domain)"
proof -
  have "drop p mem = join_colon ['' <sip''] (u @ ''@'' @ h @ ''>'' @ CR # r)" using mem by (simp add: address_text_def)
  then have "memFindAfter_pu (''sip'' @ '':'') mem p e = Done (Some (p + 6))"
    by (rule search_header [OF assms(1,2)]) (auto simp: e address_text_def ends_ci_def to_lower_def is_upper_def)
  then have start: "uri_start [''sip:''] mem p e = Done (p + 6)" by simp
  have at: "drop (p + 6) mem = u @ CHR ''@'' # h @ ''>'' @ CR # r"
    using arg_cong [OF mem, of "drop 6"] by (simp add: address_text_def add.commute)
  obtain x xs where x: "u @ CHR ''@'' # h @ ''>'' @ CR # r = x # xs" "x \<noteq> CHR '' ''"
    using assms(3) by (cases u) (auto simp: user_text_def dest: user_char_plain)
  have "grab_while (\<lambda>c. c = CHR '' '' \<and> c \<noteq> NUL \<and> c \<noteq> CR \<and> c \<noteq> LF) mem (p + 6) e = Done []"
    by (rule grab_exact [where c = x and r = xs]) (use at x in \<open>auto simp: e address_text_def\<close>)
  then have skip: "SkipWhitespaces mem (p + 6) e = Done (p + 6)" by (simp add: SkipWhitespaces_def)
  have "grab_while (\<lambda>c. user_char c \<or> c = CHR ''%'') mem (p + 6) e = Done u"
    by (rule grab_exact [OF at]) (use assms(3) in \<open>auto simp: user_text_def user_char_def char_defs e address_text_def\<close>)
  then have user: "grab_user False mem (p + 6) e = Done u"
    unfolding grab_user_def if_False GrabSipUriUser_def skip and_then.simps by (simp add: e address_text_def)
  have in_z: "p \<le> z" "p + 6 \<le> z" using assms(2) by (simp_all add: e address_text_def)
  have returns: "\<exists>x. m = Done x" if "defined (\<lambda>_. True) m" "m \<noteq> Thrown" for m :: "string outcome"
    using that by (cases m) (auto simp: defined_def)
  obtain name domain where "GrabSipName mem p e = Done name" "GrabSipUriDomain mem (p + 6) e = Done domain"
    using returns GrabSipName_ok [OF assms(1) in_z(1) assms(2)] GrabSipUriDomain_ok [OF assms(1) in_z(2) assms(2)]
      name_domain_not_thrown by metis
  then show ?thesis unfolding party_def start and_then.simps user by simp
qed

section \<open>A BYE is read back\<close>

abbreviation crlf :: string where
  "crlf \<equiv> [CR, LF]"

text \<open>A BYE as a client writes it; any headers may follow.\<close>

definition bye_text :: "string \<Rightarrow> string \<Rightarrow> string \<Rightarrow> string \<Rightarrow> string \<Rightarrow> string" where
  "bye_text fr to domain callId rest =
     ''BYE sip:'' @ to @ '' SIP/2.0'' @ crlf @
     ''From:'' @ address_text fr domain @ crlf @
     ''To:'' @ address_text to domain @ crlf @
     ''Call-ID: '' @ callId @ crlf @ rest"

definition bye_parts :: "string \<Rightarrow> string \<Rightarrow> string \<Rightarrow> string list" where
  "bye_parts fr to domain =
     [''BYE sip'', to @ '' SIP/2.0'' @ crlf @ ''From'', '' <sip'', fr @ ''@'' @ domain @ ''>'' @ crlf @ ''To'',
      '' <sip'', to @ ''@'' @ domain @ ''>'' @ crlf @ ''Call-ID'']"

lemma bye_join: "bye_text fr to domain callId rest @ r = join_colon (bye_parts fr to domain) ('' '' @ callId @ crlf @ rest @ r)"
  by (simp add: bye_text_def bye_parts_def address_text_def)

definition from_at :: "string \<Rightarrow> nat" where
  "from_at to = 23 + length to"

definition to_at :: "string \<Rightarrow> string \<Rightarrow> string \<Rightarrow> nat" where
  "to_at fr to domain = from_at to + length (address_text fr domain) + 5"

definition callId_at :: "string \<Rightarrow> string \<Rightarrow> string \<Rightarrow> nat" where
  "callId_at fr to domain = to_at fr to domain + length (address_text to domain) + 10"

lemma ends_ci_other:
  "length b \<le> length u \<Longrightarrow> map to_lower b \<noteq> map to_lower (drop (length u - length b) u) \<Longrightarrow> \<not> ends_ci u (a @ b)"
  unfolding ends_ci_def
proof
  assume b: "length b \<le> length u" "map to_lower b \<noteq> map to_lower (drop (length u - length b) u)"
    and e: "length u \<le> length (a @ b) \<and> map to_lower (drop (length (a @ b) - length u) (a @ b)) = map to_lower u"
  then have "drop (length u - length b) (drop (length (a @ b) - length u) (a @ b)) = b" by simp
  then have "map to_lower b = drop (length u - length b) (map to_lower (drop (length (a @ b) - length u) (a @ b)))"
    by (metis drop_map)
  with e b(2) show False by (simp add: drop_map)
qed

lemma bye_ends:
  "\<not> ends_ci ''To'' (to @ '' SIP/2.0'' @ crlf @ ''From'')" "\<not> ends_ci ''Call-ID'' (to @ '' SIP/2.0'' @ crlf @ ''From'')"
  "ends_ci ''From'' (to @ '' SIP/2.0'' @ crlf @ ''From'')" "ends_ci ''To'' (x @ ''@'' @ y @ ''>'' @ crlf @ ''To'')"
  "\<not> ends_ci ''Call-ID'' (x @ ''@'' @ y @ ''>'' @ crlf @ ''To'')"
  "ends_ci ''Call-ID'' (x @ ''@'' @ y @ ''>'' @ crlf @ ''Call-ID'')"
proof -
  have "\<not> ends_ci ''Call-ID'' ((x @ ''@'' @ y @ ''>'' @ crlf) @ ''To'')"
    by (rule ends_ci_other) (simp_all add: to_lower_def is_upper_def)
  then show "\<not> ends_ci ''Call-ID'' (x @ ''@'' @ y @ ''>'' @ crlf @ ''To'')" by simp
  have "ends_ci u (a @ u)" for a u by (simp add: ends_ci_def)
  from this [of "''To''" "x @ ''@'' @ y @ ''>'' @ crlf"] this [of "''Call-ID''" "x @ ''@'' @ y @ ''>'' @ crlf"]
  show "ends_ci ''To'' (x @ ''@'' @ y @ ''>'' @ crlf @ ''To'')" "ends_ci ''Call-ID'' (x @ ''@'' @ y @ ''>'' @ crlf @ ''Call-ID'')"
    by simp_all
qed (simp_all add: ends_ci_append, simp_all add: ends_ci_def to_lower_def is_upper_def)

lemma bye_positions:
  "header_index ''From'' (bye_parts fr to domain) 0 = Some (from_at to)"
  "header_index ''To'' (bye_parts fr to domain) 0 = Some (to_at fr to domain)"
  "header_index ''Call-ID'' (bye_parts fr to domain) 0 = Some (callId_at fr to domain)"
proof -
  have small: "\<not> ends_ci ''From'' ''BYE sip''" "\<not> ends_ci ''To'' ''BYE sip''" "\<not> ends_ci ''Call-ID'' ''BYE sip''"
    "\<not> ends_ci ''To'' '' <sip''" "\<not> ends_ci ''Call-ID'' '' <sip''"
    by (simp_all add: ends_ci_def to_lower_def is_upper_def)
  show "header_index ''From'' (bye_parts fr to domain) 0 = Some (from_at to)"
    "header_index ''To'' (bye_parts fr to domain) 0 = Some (to_at fr to domain)"
    "header_index ''Call-ID'' (bye_parts fr to domain) 0 = Some (callId_at fr to domain)"
    unfolding bye_parts_def header_index.simps by (simp_all only: small bye_ends if_True if_False)
      (simp_all add: from_at_def to_at_def callId_at_def address_text_def)
qed

lemma drop_prefix: "mem = p @ s \<Longrightarrow> n = length p \<Longrightarrow> drop n mem = s"
  by simp

lemma bye_drops:
  "drop (from_at to) (bye_text fr to domain callId rest @ r) =
     address_text fr domain @ CR # LF # ''To:'' @ address_text to domain @ crlf @ ''Call-ID: '' @ callId @ crlf @ rest @ r"
  "drop (to_at fr to domain) (bye_text fr to domain callId rest @ r) =
     address_text to domain @ CR # LF # ''Call-ID: '' @ callId @ crlf @ rest @ r"
  "drop (callId_at fr to domain) (bye_text fr to domain callId rest @ r) = CHR '' '' # callId @ CR # LF # rest @ r"
proof -
  let ?p = "''BYE sip:'' @ to @ '' SIP/2.0'' @ crlf @ ''From:''"
  let ?q = "?p @ address_text fr domain @ crlf @ ''To:''"
  let ?r = "?q @ address_text to domain @ crlf @ ''Call-ID:''"
  show "drop (from_at to) (bye_text fr to domain callId rest @ r) =
     address_text fr domain @ CR # LF # ''To:'' @ address_text to domain @ crlf @ ''Call-ID: '' @ callId @ crlf @ rest @ r"
    by (rule drop_prefix [where p = ?p]) (simp_all add: bye_text_def from_at_def)
  show "drop (to_at fr to domain) (bye_text fr to domain callId rest @ r) =
     address_text to domain @ CR # LF # ''Call-ID: '' @ callId @ crlf @ rest @ r"
    by (rule drop_prefix [where p = ?q]) (simp_all add: bye_text_def from_at_def to_at_def)
  show "drop (callId_at fr to domain) (bye_text fr to domain callId rest @ r) = CHR '' '' # callId @ CR # LF # rest @ r"
    by (rule drop_prefix [where p = ?r]) (simp_all add: bye_text_def from_at_def to_at_def callId_at_def)
qed

lemma bye_length: "length (bye_text fr to domain callId rest) = callId_at fr to domain + length callId + 3 + length rest"
  by (simp add: bye_text_def callId_at_def to_at_def from_at_def)

lemma bye_read:
  fixes fr to domain callId rest r :: string
  defines "mem \<equiv> bye_text fr to domain callId rest @ r"
  assumes z: "mem_end mem z" "stop \<le> z" and stop: "stop = length (bye_text fr to domain callId rest)"
    and texts: "user_text fr" "user_text to" "plain_text domain"
    and callId: "\<forall>x \<in> set callId. x \<noteq> NUL \<and> x \<noteq> CHR '' '' \<and> x \<noteq> CR \<and> x \<noteq> LF"
  shows "find_from_header mem stop = Done (Some (from_at to))"
    "find_to_header mem stop = Done (Some (to_at fr to domain))"
    "find_callId mem stop = Done (Some (callId_at fr to domain))"
    "field_token mem (Some (callId_at fr to domain)) stop = Done callId"
    "\<exists>n h. in_field (party False [''sip:'']) no_party mem (Some (from_at to)) stop = Done (n, fr, h)"
    "\<exists>n h. in_line (party False [''sip:'']) no_party mem (Some (to_at fr to domain)) stop = Done (n, to, h)"
proof -
  have join: "drop 0 mem = join_colon (bye_parts fr to domain) ('' '' @ callId @ crlf @ rest @ r)"
    by (simp add: mem_def bye_join)
  have no_colon: "\<forall>c \<in> set (bye_parts fr to domain). CHR '':'' \<notin> set c"
    using user_text_plain [OF texts(1)] user_text_plain [OF texts(2)] texts(3) by (auto simp: bye_parts_def plain_text_def)
  have le: "from_at to \<le> stop" "to_at fr to domain \<le> stop" "callId_at fr to domain \<le> stop"
    by (simp_all add: stop bye_length callId_at_def to_at_def)
  note search = search_header [OF z join no_colon]
  show "find_from_header mem stop = Done (Some (from_at to))"
    using search [of "''From''", OF _ _ bye_positions(1) le(1)] by (simp add: find_header_def)
  show "find_to_header mem stop = Done (Some (to_at fr to domain))"
    using search [of "''To''", OF _ _ bye_positions(2) le(2)] by (simp add: find_header_def)
  show "find_callId mem stop = Done (Some (callId_at fr to domain))"
    using search [of "''Call-ID''", OF _ _ bye_positions(3) le(3)] by (simp add: find_header_def)
  note drops = bye_drops [where fr = fr and to = to and domain = domain and callId = callId and rest = rest and r = r, folded mem_def]
  show "field_token mem (Some (callId_at fr to domain)) stop = Done callId"
    unfolding field_token_def option.case
    by (rule token_exact [OF drops(3)]) (use callId in \<open>simp_all add: stop bye_length\<close>)
  have lines: "from_at to + length (address_text fr domain) \<le> stop"
    "to_at fr to domain + length (address_text to domain) \<le> stop"
    by (simp_all add: stop bye_length callId_at_def to_at_def)
  have plain: "\<forall>c \<in> set (address_text u domain). c \<noteq> CR \<and> c \<noteq> LF" if "user_text u" for u
    using user_text_plain [OF that] texts(3) by (auto simp: address_text_def plain_text_def)
  have eol: "memFindEOL_pu mem (from_at to) stop = Done (from_at to + length (address_text fr domain))"
  proof -
    have "grab_while (\<lambda>c. c \<noteq> CR \<and> c \<noteq> LF) mem (from_at to) stop = Done (address_text fr domain)"
      by (rule grab_exact [OF drops(1)]) (use plain [OF texts(1)] lines(1) in auto)
    moreover have "mem ! (from_at to + length (address_text fr domain)) = CR"
      by (rule nth_behind [OF drops(1)])
    ultimately show ?thesis by (simp add: memFindEOL_pu_def)
  qed
  have line: "GrabLine mem (to_at fr to domain) stop =
      Done (address_text to domain, to_at fr to domain + length (address_text to domain))"
  proof -
    have "length (address_text to domain) < stop - to_at fr to domain"
      by (simp add: stop bye_length callId_at_def)
    then show ?thesis using plain [OF texts(2)] by (simp add: GrabLine_def drops(2) scan_line_exact)
  qed
  show "\<exists>n h. in_field (party False [''sip:'']) no_party mem (Some (from_at to)) stop = Done (n, fr, h)"
    unfolding in_field_def option.case eol and_then.simps
    by (rule party_exact [OF z(1) _ texts(1,3) drops(1) refl]) (use lines(1) z(2) in simp)
  show "\<exists>n h. in_line (party False [''sip:'']) no_party mem (Some (to_at fr to domain)) stop = Done (n, to, h)"
    unfolding in_line_def option.case line and_then.simps prod.case
    by (rule party_exact [OF z(1) _ texts(2,3) drops(2) refl]) (use lines(2) z(2) in simp)
qed

text \<open>A text that is long enough and begins otherwise is not taken.\<close>

lemma text_is_not: "length pat \<le> length mem \<Longrightarrow> \<not> starts_with pat mem \<Longrightarrow> text_is pat mem = Done False"
  by (simp add: text_is_Done)

lemma other_text:
  assumes "29 \<le> length (dg_mem d)" "starts_with ''BYE'' (dg_mem d)" "NUL \<in> set (dg_mem d)"
  shows "TrySipInvite e d = not_sip" "TrySip200Ok e d = not_sip" "TrySipNotify e d = not_sip"
    "TrySipSessionProgress e d = not_sip" "TrySip302MovedTemporarily e d = not_sip"
proof -
  have no: "\<not> starts_with t (dg_mem d)" if "\<not> starts_with t ''BYE''" "\<not> starts_with ''BYE'' t" for t
    using starts_with_both [OF _ assms(2)] that by blast
  have other: "text_is t (dg_mem d) = Done False" if "\<not> starts_with t ''BYE''" "\<not> starts_with ''BYE'' t" "length t \<le> 29" for t
    by (rule text_is_not [OF _ no [OF that(1,2)]]) (use that(3) assms(1) in linarith)
  have f: "text_is ''INVITE'' (dg_mem d) = Done False" "text_is ''ACK'' (dg_mem d) = Done False"
    "text_is ok_text (dg_mem d) = Done False" "text_is progress_text (dg_mem d) = Done False"
    "text_is ''SIP/2.0 302 Moved Temporarily'' (dg_mem d) = Done False"
    by (rule other; simp add: ok_text_def progress_text_def)+
  have "invite_method e d = Done None" by (simp add: invite_method_def Let_def f del: and_then_Done)
  then show "TrySipInvite e d = not_sip" by (simp add: TrySipInvite_def)
  show "TrySip200Ok e d = not_sip" "TrySipSessionProgress e d = not_sip" "TrySip302MovedTemporarily e d = not_sip"
    by (simp_all add: TrySip200Ok_def TrySipSessionProgress_def TrySip302MovedTemporarily_def Let_def f)
  have "\<not> starts_with ''NOTIFY'' (c_str (dg_mem d))"
    using no [of "''NOTIFY''"] starts_with_c_str by auto
  then show "TrySipNotify e d = not_sip" using assms(3) by (simp add: TrySipNotify_def Let_def)
qed

lemma bye_detected:
  assumes texts: "user_text fr" "user_text to" "plain_text domain"
    and callId: "\<forall>x \<in> set callId. x \<noteq> NUL \<and> x \<noteq> CHR '' '' \<and> x \<noteq> CR \<and> x \<noteq> LF"
    and d: "dg_mem d = bye_text fr to domain callId rest @ NUL # behind"
      "sipLength d = int (length (bye_text fr to domain callId rest))" "sipLength d \<le> dg_end d"
    and cfg: "\<not> sc_sipReportFullAddress (sp_config e)"
  shows "DetectSip e d = Done (True, if sc_sipIgnoreBye (sp_config e) then None else
    Some (CallReport (RgBye \<lparr>sb_callId = callId, sb_senderIp = dg_src d, sb_receiverIp = dg_dest d, sb_from = fr, sb_to = to\<rparr>)))"
proof -
  let ?t = "bye_text fr to domain callId rest"
  have z: "mem_end (?t @ NUL # behind) (length ?t)" by (simp add: mem_end_def nth_append)
  have long: "29 \<le> length ?t" by (simp add: bye_length callId_at_def to_at_def from_at_def)
  have bye: "starts_with ''BYE'' (dg_mem d)" by (simp add: d(1) bye_text_def)
  have len: "29 \<le> length (dg_mem d)" "NUL \<in> set (dg_mem d)" using long by (simp_all add: d(1))
  have stop: "nat (sipLength d) = length ?t" by (simp add: d(2))
  note read = bye_read [OF z order_refl refl texts callId]
  obtain n h n' h' where parties:
    "in_field (party False [''sip:'']) no_party (dg_mem d) (Some (from_at to)) (length ?t) = Done (n, fr, h)"
    "in_line (party False [''sip:'']) no_party (dg_mem d) (Some (to_at fr to domain)) (length ?t) = Done (n', to, h')"
    using read(5,6) unfolding d(1) by blast
  have "text_is ''BYE'' (dg_mem d) = Done True" using bye len by (simp add: text_is_Done)
  moreover have "\<not> sip_too_short 4 d" using d(2,3) long by (simp add: sip_too_short_def)
  ultimately have "TrySipBye e d = Done (True, if sc_sipIgnoreBye (sp_config e) then None else
    Some (CallReport (RgBye \<lparr>sb_callId = callId, sb_senderIp = dg_src d, sb_receiverIp = dg_dest d, sb_from = fr, sb_to = to\<rparr>)))"
    using cfg parties read(1-4) unfolding d(1) by (simp add: TrySipBye_def stop d(1))
  then show ?thesis using other_text [OF len(1) bye len(2)]
    by (simp add: DetectSip_def udp_parsers_def Let_def not_sip_def)
qed

section \<open>What reaches the registry\<close>

lemma then_yields: "(\<And>x. yields P (f x)) \<Longrightarrow> yields P (and_then m f)"
  by (rule yields_intros(4) [where Q = "\<lambda>_. True"]) (simp_all add: yields_def)

lemma then_yields_pairs:
  "(\<And>x y. yields P (g x y)) \<Longrightarrow> yields P (and_then m2 (\<lambda>(x, y). g x y))"
  "(\<And>x y w. yields P (h x y w)) \<Longrightarrow> yields P (and_then m3 (\<lambda>(x, y, w). h x y w))"
  by (rule then_yields; auto)+

lemma if_yields: "yields P x \<Longrightarrow> yields P y \<Longrightarrow> yields P (if b then x else y)"
  by simp

definition report_is :: "(sip_report \<Rightarrow> bool) \<Rightarrow> bool \<times> sip_report option \<Rightarrow> bool" where
  "report_is P x \<longleftrightarrow> pred_option P (snd x)"

lemma not_sip_report_is: "yields (report_is P) not_sip"
  by (simp add: not_sip_def report_is_def yields_def)

lemmas report_steps = then_yields_pairs then_yields if_yields not_sip_report_is

text \<open>The calls of the registry that need no condition on what they carry: no NOTIFY and no error packets.\<close>

fun plain_report :: "sip_report \<Rightarrow> bool" where
  "plain_report (InviteReport i) = (length (si_payloadTypeMap i) = 32)"
| "plain_report (CallReport x) = (case x of RgOk i \<Rightarrow> True | RgProgress i \<Rightarrow> True | RgMoved c t \<Rightarrow> True
     | RgBye b \<Rightarrow> True | RgRefer r \<Rightarrow> True | RgInfo i \<Rightarrow> True | RgSubscribe c \<Rightarrow> True | _ \<Rightarrow> False)"

lemma plain_calls:
  "yields (report_is plain_report) (TrySipBye e d)" "yields (report_is plain_report) (TrySipRefer e d)"
  "yields (report_is plain_report) (TrySipInfo e d)" "yields (report_is plain_report) (TrySip302MovedTemporarily e d)"
  "yields (report_is plain_report) (TrySip200Ok e d)" "yields (report_is plain_report) (TrySipSessionProgress e d)"
  "yields (report_is plain_report) (TrySipSubscribe e d)"
  unfolding TrySipSubscribe_def TrySipBye_def TrySipRefer_def TrySipInfo_def TrySip302MovedTemporarily_def TrySip200Ok_def
    TrySipSessionProgress_def Let_def
  by (intro report_steps; simp add: report_is_def yields_def)+

lemma payload_mapping_length: "yields (\<lambda>m'. length m' = length m) (payload_mapping mem stop pos m)"
proof (induction mem stop pos m rule: payload_mapping.induct)
  case (1 mem stop pos m)
  have m1: "length m1 = length m" if "map_payload l p m = Done m1" for m1 l p
    using that by (auto simp: map_payload_def Let_def split: if_splits option.splits)
  show ?case unfolding yields_def
  proof (intro allI impI)
    fix m' assume a: "payload_mapping mem stop pos m = Done m'"
    then obtain r where r: "memFindStr_pu rtpmap_tag mem pos stop = Done r"
      by (subst (asm) payload_mapping.simps) auto
    show "length m' = length m"
    proof (cases r)
      case None
      with a r show ?thesis by (subst (asm) payload_mapping.simps) simp
    next
      case (Some q)
      with a r obtain l p m1 where s: "GrabTokenAcceptSpace mem q stop = Done l"
        "GrabToken mem (q + length rtpmap_tag) stop = Done p" "map_payload l p m = Done m1"
        "payload_mapping mem stop (q + length l) m1 = Done m'"
        by (subst (asm) payload_mapping.simps) auto
      from "1.IH" [OF r Some s(1-3)] s(4) m1 [OF s(3)] show ?thesis by (simp add: yields_def)
    qed
  qed
qed

lemma invite_info_map: "yields (\<lambda>(i, b). length (si_payloadTypeMap i) = 32) (invite_info e d stop method)"
proof -
  let ?ok = "\<lambda>i. length (si_payloadTypeMap i) = 32"
  have parts: "?ok i \<Longrightarrow> yields ?ok (invite_parties e mem stop f t i)" "?ok i \<Longrightarrow> yields ?ok (invite_headers e mem stop f i)"
    "?ok i \<Longrightarrow> yields (\<lambda>(i, b). ?ok i) (invite_media e d stop f i)" "?ok i \<Longrightarrow> yields ?ok (invite_contact e mem stop f i)"
    "?ok i \<Longrightarrow> yields ?ok (invite_extracts e d stop ps i)" for i f t mem ps
    unfolding invite_parties_def invite_headers_def invite_media_def invite_contact_def invite_extracts_def Let_def
    by (intro report_steps yields_intros(6) yields_intros(1); simp)+
  have pay: "?ok i \<Longrightarrow> yields ?ok (invite_payloads e mem stop sdp i)" for i mem sdp
    unfolding invite_payloads_def GetDynamicPayloadMapping_def
    by (intro then_yields yields_intros(6) yields_intros(1) yields_intros(4) [OF payload_mapping_length]; simp)
  have new: "?ok (SipInviteInfo_new method)" by (simp add: SipInviteInfo_new_def)
  show ?thesis unfolding invite_info_def Let_def
    apply (rule then_yields, rule then_yields, rule then_yields, rule then_yields, rule then_yields)
    apply (rule then_yields, rule then_yields, rule then_yields, rule then_yields)
    apply (rule yields_intros(4) [OF parts(1) [OF new]], rule yields_intros(4) [OF parts(2)], assumption)
    apply (rule yields_intros(4) [OF parts(3)], assumption)
    apply (clarsimp, rule yields_intros(4) [OF parts(4)], assumption, rule yields_intros(4) [OF parts(5)], assumption)
    apply (rule yields_intros(4) [OF pay], assumption)
    apply (simp add: yields_def invite_addresses_def)
    done
qed

lemma plain_invite: "yields (report_is plain_report) (TrySipInvite e d)"
  unfolding TrySipInvite_def
  by (intro then_yields yields_intros(6) not_sip_report_is yields_intros(4) [OF invite_info_map])
     (auto simp: yields_def report_is_def)

lemma first_of_report:
  "first_of ps e d = Done (b, Some r) \<Longrightarrow> \<exists>p. (True, p) \<in> set ps \<and> p e d = Done (True, Some r)"
proof (induction ps)
  case (Cons bp ps)
  obtain en p where bp: "bp = (en, p)" by (cases bp)
  show ?case
  proof (cases "\<exists>r'. en \<and> p e d = Done (True, r')")
    case True
    with Cons.prems show ?thesis by (auto simp: bp)
  next
    case False
    with Cons.prems have "first_of ps e d = Done (b, Some r)" by (auto simp: bp split: if_split_asm)
    from Cons.IH [OF this] show ?thesis by auto
  qed
qed (simp add: not_sip_def)

lemma DetectSip_plain:
  assumes "\<not> vc_sipNotifySupport (sp_voip e)" "\<not> sc_sipLogFailedCalls (sp_config e)"
  shows "yields (report_is plain_report) (DetectSip e d)"
proof -
  have "plain_report r" if "DetectSip e d = Done (b, Some r)" for b r
  proof -
    from that have "first_of (udp_parsers e) e d = Done (b, Some r)" by (simp add: DetectSip_def)
    then obtain p where p: "(True, p) \<in> set (udp_parsers e)" "p e d = Done (True, Some r)" by (blast dest: first_of_report)
    have "TryLogFailedSip e d = not_sip" using assms(2) by (simp add: TryLogFailedSip_def)
    with p assms have "p \<in> {TrySipInvite, TrySip200Ok, TrySipSessionProgress, TrySip302MovedTemporarily, TrySipBye,
        TrySipRefer, TrySipInfo, TrySipSubscribe}" by (auto simp: udp_parsers_def Let_def)
    then have "yields (report_is plain_report) (p e d)" using plain_calls plain_invite by blast
    with p(2) show ?thesis by (simp add: yields_def report_is_def)
  qed
  then show ?thesis unfolding yields_def report_is_def by (auto simp: pred_option_def)
qed

text \<open>The registry has one kind of mappings; neither NOTIFY nor error packets are looked at, as after installation.\<close>

fun sip_call_ok :: "bool \<Rightarrow> sessions_env \<times> sip_env \<times> nat \<times> udp_datagram \<Rightarrow> bool" where
  "sip_call_ok m (e, s, a, d) \<longleftrightarrow> mappings_of (se_env e) = m \<and>
     \<not> vc_sipNotifySupport (sp_voip s) \<and> \<not> sc_sipLogFailedCalls (sp_config s)"

text \<open>A parser reads behind the memory of the packet.\<close>

definition over_read :: "sessions_env \<times> sip_env \<times> nat \<times> udp_datagram \<Rightarrow> VoIpSessions \<Rightarrow> bool" where
  "over_read x R \<longleftrightarrow> (case x of (e, s, a, d) \<Rightarrow> DetectSip s d = Undefined)"

lemma HandleSip_step:
  assumes "reg_ok m R" "sip_call_ok m x" "\<not> over_read x R"
  shows "defined (reg_ok m) (HandleSip x R)"
proof -
  obtain e s a d where x: "x = (e, s, a, d)" by (cases x)
  have cfg: "mappings_of (se_env e) = m" "\<not> vc_sipNotifySupport (sp_voip s)" "\<not> sc_sipLogFailedCalls (sp_config s)"
    using assms(2) by (simp_all add: x)
  have d: "defined (report_is plain_report) (DetectSip s d)"
    using assms(3) DetectSip_plain [OF cfg(2,3)] by (simp add: defined_def x over_read_def)
  have do: "defined (reg_ok m) (registry_do (e, y) S)" if "reg_ok m S" "registry_call_ok m (e, y)" for y S
    using registry_do_grown [of m 0 S e y] that unfolding reg_grown by blast
  have "defined (reg_ok m) (sip_report_do e a r R)" if "plain_report r" for r
  proof (cases r)
    case (InviteReport i)
    have "reg_ok m (R\<lparr>rg_invites := (rg_invites R)(a := i)\<rparr>)"
      using assms(1) that InviteReport by (simp add: reg_def maps_ok_def)
    from do [OF this, of "RgInvite a"] cfg(1) show ?thesis by (simp add: InviteReport)
  next
    case (CallReport y)
    have "registry_call_ok m (e, y)" using that cfg(1) by (cases y) (simp_all add: CallReport)
    with do assms(1) show ?thesis by (simp add: CallReport)
  qed
  then show ?thesis unfolding HandleSip_def x prod.case
    by (intro defined_intros(3) [OF d]) (auto simp: report_is_def defined_intros(1) [of "reg_ok m", OF assms(1)] split: option.split)
qed

lemma HandleSip_over_read: "over_read x R \<Longrightarrow> HandleSip x R = Undefined"
  by (auto simp: over_read_def HandleSip_def split: prod.splits)

interpretation sip_traffic: exact_calls HandleSip "reg_ok m" "sip_call_ok m" over_read for m
proof
  fix R x
  assume "reg_ok m R" "sip_call_ok m x"
  then show "HandleSip x R = Undefined \<longleftrightarrow> over_read x R"
    using definedD(1) [OF HandleSip_step] HandleSip_over_read by blast
next
  fix R x R'
  assume a: "reg_ok m R" "sip_call_ok m x" "HandleSip x R = Done R'"
  then have "\<not> over_read x R" using HandleSip_over_read by fastforce
  with a show "reg_ok m R'" by (blast intro: definedD(2) [OF HandleSip_step])
qed

text \<open>
  C13. SIP traffic harms the registry only through a parser that reads behind its packet. Any sequence of
  datagrams, of any text and any lengths, in any state the registry can reach, with any settings that look neither at
  NOTIFY nor at error packets: the run is undefined exactly when it comes to a datagram on which the parsers
  leave the memory (C12 says when they do not), and the maps of the registry stay consistent with the sessions.
\<close>

theorem sip_traffic_safe:
  assumes "reg_ok m R" "list_all (sip_call_ok m) xs"
  shows "(run_calls HandleSip xs R = Undefined \<longleftrightarrow>
      (\<exists>pre e s a d post R'. xs = pre @ (e, s, a, d) # post \<and> run_calls HandleSip pre R = Done R' \<and>
         DetectSip s d = Undefined)) \<and>
    (\<forall>R'. run_calls HandleSip xs R = Done R' \<longrightarrow> reg_ok m R')"
  using sip_traffic.run_undefined_iff [OF assms] sip_traffic.run_keeps [OF assms] by (auto simp: over_read_def)

text \<open>The packet \<open>BYE\<close> on its own is too short; a BYE of four bytes at the end of the memory is compared with more.\<close>

theorem sip_traffic_safe_witness:
  "run_calls HandleSip [(sample_sessions, sample_sip False, 0, sip_datagram ''BYE'')] one_session \<noteq> Undefined \<and>
   run_calls HandleSip [(sample_sessions, sample_sip False, 0, (sip_datagram ''BYE '')\<lparr>dg_mem := ''BYE ''\<rparr>)] one_session
     = Undefined"
proof -
  have ok: "list_all (sip_call_ok False) [(sample_sessions, sample_sip False, 0, d)]" for d
    by (simp add: sample_sip_def sample_sip_config_def sample_sessions_def sample_env_def sample_config_def)
  have "readable (sip_datagram ''BYE'') 3" using sip_datagram_readable [of "''BYE''"] by (simp add: eval_nat_numeral)
  moreover have "sip_room (sample_sip False) (sip_datagram ''BYE'') 3" by code_simp
  ultimately have "DetectSip (sample_sip False) (sip_datagram ''BYE'') \<noteq> Undefined"
    by (intro sip_reads_bounded) (simp_all add: sample_sip_def sample_sip_config_def sample_config_def)
  moreover have "DetectSip (sample_sip False) ((sip_datagram ''BYE '')\<lparr>dg_mem := ''BYE ''\<rparr>) = Undefined" by code_simp
  ultimately show ?thesis
    using sip_traffic_safe [OF one_session_ok ok, of "sip_datagram ''BYE''"]
      sip_traffic_safe [OF one_session_ok ok, of "(sip_datagram ''BYE '')\<lparr>dg_mem := ''BYE ''\<rparr>"]
    by (auto simp: Cons_eq_append_conv)
qed

lemma bye_stops:
  assumes "reg_ok m R" "map_of (rg_byCallId R) (sb_callId b) = Some a" "sb_callId b \<noteq> []"
  shows "\<exists>R'. Registry_ReportSipBye e b R = Done R' \<and> map_of (rg_byCallId R') (sb_callId b) = None \<and>
    (\<forall>q. map_of (rg_byIpAndPort R') q \<noteq> Some a) \<and>
    (\<forall>q c. c \<noteq> a \<longrightarrow> map_of (rg_byIpAndPort R') q = Some c \<longleftrightarrow> map_of (rg_byIpAndPort R) q = Some c)"
proof -
  note parts = reg_ok_parts(5,6) [OF assms(1), of "sb_callId b" a]
  let ?f = "Session_ReportSipBye (ve_config e) b" and ?n = "length (rg_sessions R)"
  let ?R = "on_session a ?f R"
  have a: "a < ?n" by (rule parts(1) [OF assms(2)])
  have g: "grown m {} ?n R" using assms(1) by (simp add: grown_def)
  have st: "steady s (?f s)" for s by (simp add: quiet)
  have gR: "grown m {} ?n ?R" by (rule grown_on_session [OF g a st])
  have "kept (?f (load R (session_at R a))) = kept (session_at R a)"
    using st [of "load R (session_at R a)"] by (simp add: steady_def OrkVoipRuns.reports_def)
  then have same: "rg_byCallId ?R = rg_byCallId R" "rg_byIpAndPort ?R = rg_byIpAndPort R"
    "vs_callId (session_at ?R a) = sb_callId b"
    using a parts(2) [OF assms(2,3)] by (simp_all add: on_session_def kept_def)
  note stop = Stop_grown [OF gR a, of e]
  obtain R' where R': "Stop_session e a ?R = Done R'"
    using definedD(1) [OF stop] Stop_not_thrown [of e a ?R] by (cases "Stop_session e a ?R") auto
  have "map_of (rg_byIpAndPort R') = (\<lambda>k. if map_of (rg_byIpAndPort R) k = Some a then None else map_of (rg_byIpAndPort R) k)"
    "map_of (rg_byCallId R') = (map_of (rg_byCallId R))(sb_callId b := None)"
    using definedD(2) [OF stop R', unfolded same] assms(3) by simp_all
  moreover have "Registry_ReportSipBye e b R = Done R'" using assms(2) R' by (simp add: Registry_ReportSipBye_def findByCallId_def)
  ultimately show ?thesis by auto
qed

text \<open>
  C18. A BYE on the wire ends its call. A datagram with a BYE as clients write it, with any users, domain, call
  identifier and further headers, is recognised, and the session of that call is stopped: its call identifier
  and its media addresses lead to it no longer, and the other sessions keep theirs.
\<close>

theorem bye_datagram_ends_call:
  assumes "user_text fr" "user_text to" "plain_text domain"
    "\<forall>x \<in> set callId. x \<noteq> NUL \<and> x \<noteq> CHR '' '' \<and> x \<noteq> CR \<and> x \<noteq> LF" "callId \<noteq> []"
    "dg_mem d = bye_text fr to domain callId rest @ NUL # behind"
    "sipLength d = int (length (bye_text fr to domain callId rest))" "sipLength d \<le> dg_end d"
    "\<not> sc_sipReportFullAddress (sp_config s)" "\<not> sc_sipIgnoreBye (sp_config s)"
    "reg_ok m R" "map_of (rg_byCallId R) callId = Some a"
  shows "\<exists>R'. HandleSip (e, s, i, d) R = Done R' \<and> map_of (rg_byCallId R') callId = None \<and>
    (\<forall>q. map_of (rg_byIpAndPort R') q \<noteq> Some a) \<and>
    (\<forall>q c. c \<noteq> a \<longrightarrow> map_of (rg_byIpAndPort R') q = Some c \<longleftrightarrow> map_of (rg_byIpAndPort R) q = Some c)"
proof -
  let ?b = "\<lparr>sb_callId = callId, sb_senderIp = dg_src d, sb_receiverIp = dg_dest d, sb_from = fr, sb_to = to\<rparr>"
  have "DetectSip s d = Done (True, Some (CallReport (RgBye ?b)))"
    using bye_detected [OF assms(1-4,6-9)] assms(10) by simp
  then have "HandleSip (e, s, i, d) R = Registry_ReportSipBye (se_env e) ?b R" by (simp add: HandleSip_def)
  with bye_stops [OF assms(11), of ?b a "se_env e"] assms(5,12) show ?thesis by simp
qed

lemma bye_datagram_ends_call_witness:
  "\<exists>R'. HandleSip (sample_sessions, sample_sip False, 0,
      sip_datagram (bye_text ''100'' ''200'' ''10.0.0.1'' ''7@10.0.0.1'' [])) one_session = Done R' \<and>
    map_of (rg_byCallId R') ''7@10.0.0.1'' = None \<and> (\<forall>q. map_of (rg_byIpAndPort R') q \<noteq> Some 0)"
proof -
  let ?b = "bye_text ''100'' ''200'' ''10.0.0.1'' ''7@10.0.0.1'' []"
  have l: "length ?b = 92" by (simp add: bye_text_def address_text_def)
  have "dg_mem (sip_datagram ?b) = ?b @ NUL # replicate 59 NUL" by (simp add: sip_datagram_def numeral_eq_Suc)
  moreover have "sipLength (sip_datagram ?b) = int (length ?b)" "sipLength (sip_datagram ?b) \<le> dg_end (sip_datagram ?b)"
    unfolding sip_datagram_def sipLength_def l by simp_all
  moreover have "user_text ''100''" "user_text ''200''" "plain_text ''10.0.0.1''" by code_simp+
  moreover have "map_of (rg_byCallId one_session) ''7@10.0.0.1'' = Some 0" by (simp add: one_session_def)
  ultimately have "\<exists>R'. HandleSip (sample_sessions, sample_sip False, 0, sip_datagram ?b) one_session = Done R' \<and>
      map_of (rg_byCallId R') ''7@10.0.0.1'' = None \<and> (\<forall>q. map_of (rg_byIpAndPort R') q \<noteq> Some 0) \<and>
      (\<forall>q c. c \<noteq> 0 \<longrightarrow> map_of (rg_byIpAndPort R') q = Some c \<longleftrightarrow> map_of (rg_byIpAndPort one_session) q = Some c)"
    by (intro bye_datagram_ends_call [OF _ _ _ _ _ _ _ _ _ _ one_session_ok])
       (simp_all add: sample_sip_def sample_sip_config_def)
  then show ?thesis by blast
qed

text \<open>An INVITE whose audio attribute names no payload type.\<close>

definition bad_invite :: string where
  "bad_invite = ''INVITE'' @ LF # ''a=rtpmap:x''"

text \<open>A search that may stop at a place finds it or an earlier one.\<close>

lemma mem_search_hit:
  "mem_search first m here cs n = Done r \<Longrightarrow> k < n \<Longrightarrow> k < length cs \<Longrightarrow> first (cs ! k) \<Longrightarrow>
    m (drop k cs) (n - k) = Some True \<Longrightarrow> \<exists>q \<le> k. r = Some q"
proof (induction first m here cs n arbitrary: r k rule: mem_search.induct)
  case (3 first m here c cs n)
  have later: "\<exists>q \<le> k. r = Some q" if o: "offset_by 1 (mem_search first m False cs n) = Done r" and k0: "k \<noteq> 0"
      and ih: "\<And>r k. mem_search first m False cs n = Done r \<Longrightarrow> k < n \<Longrightarrow> k < length cs \<Longrightarrow> first (cs ! k) \<Longrightarrow>
      m (drop k cs) (n - k) = Some True \<Longrightarrow> \<exists>q \<le> k. r = Some q"
  proof -
    obtain k' where k: "k = Suc k'" using k0 by (cases k) auto
    obtain r' where r': "mem_search first m False cs n = Done r'" "r = map_option (\<lambda>i. i + 1) r'"
      using o by (cases "mem_search first m False cs n") (auto simp: offset_by_def)
    have "\<exists>q \<le> k'. r' = Some q" by (rule ih [OF r'(1)]) (use "3.prems" k in auto)
    with r'(2) k show ?thesis by auto
  qed
  show ?case
  proof (cases "here \<or> first c")
    case True
    then obtain b where b: "m (c # cs) (Suc n) = Some b"
      using "3.prems"(1) by (cases "m (c # cs) (Suc n)") simp_all
    show ?thesis
    proof (cases b)
      case False
      then have k: "k \<noteq> 0" using "3.prems"(5) b by (cases k) auto
      have "offset_by 1 (mem_search first m False cs n) = Done r" using "3.prems"(1) True b False by simp
      moreover have f: "b = False" using False by simp
      ultimately show ?thesis by (intro later [OF _ k]) (assumption, rule "3.IH"(1) [OF True b f])
    qed (use "3.prems"(1) True b in auto)
  next
    case False
    then have k: "k \<noteq> 0" using "3.prems"(4) by (cases k) auto
    have "offset_by 1 (mem_search first m False cs n) = Done r" using "3.prems"(1) False by simp
    then show ?thesis by (rule later) (rule k, rule "3.IH"(2) [OF False])
  qed
qed auto

text \<open>A line in the audio part, from \<open>k\<close> on, with the attribute for the payload type \<open>t\<close>.\<close>

definition rtpmap_line_at :: "string \<Rightarrow> nat \<Rightarrow> nat \<Rightarrow> nat \<Rightarrow> string \<Rightarrow> bool" where
  "rtpmap_line_at mem start fin k t \<longleftrightarrow> start \<le> k \<and> k + 10 + length t \<le> fin \<and>
     (\<exists>c r. drop k mem = LF # rtpmap_tag @ t @ c # r \<and> c \<in> {NUL, CHR '' '', CR, LF}) \<and>
     (\<forall>x \<in> set t. x \<noteq> NUL \<and> x \<noteq> CHR '' '' \<and> x \<noteq> CR \<and> x \<noteq> LF)"

lemma tag_simps: "c_str rtpmap_tag = rtpmap_tag" "c_str (LF # rtpmap_tag) = LF # rtpmap_tag" "length rtpmap_tag = 9"
  "hd rtpmap_tag = CHR ''a''"
  by (simp_all add: rtpmap_tag_def c_str_def)

lemma match_ci_self: "match_ci p (p @ s) = Some True"
  by (induction p) auto

lemma match_ci_take_self: "match_ci (take n p) (p @ s) = Some True"
  using match_ci_self [of "take n p" "drop n p @ s"] by (simp flip: append_assoc)

text \<open>The lines before it end before it begins, so the loop comes to it, and cannot get past it.\<close>

lemma line_parts:
  assumes "rtpmap_line_at mem start fin k t"
  shows "drop k mem = LF # rtpmap_tag @ t @ drop (k + 10 + length t) mem" "k + 10 + length t < length mem" "mem ! k = LF"
    "drop (k + 1) mem = rtpmap_tag @ t @ drop (k + 10 + length t) mem" "k + 10 + length t \<le> fin"
    "GrabToken mem (k + 10) fin = Done t"
proof -
  obtain c r where d: "drop k mem = (LF # rtpmap_tag @ t) @ c # r" "c \<in> {NUL, CHR '' '', CR, LF}"
    using assms by (auto simp: rtpmap_line_at_def)
  have len: "length (LF # rtpmap_tag @ t) = 10 + length t" by (simp add: tag_simps(3))
  have "drop (k + 10 + length t) mem = drop (10 + length t) (drop k mem)" by (simp add: add_ac)
  also have "\<dots> = c # r" unfolding d(1) len [symmetric] by simp
  finally have r: "drop (k + 10 + length t) mem = c # r" .
  with d(1) show s: "drop k mem = LF # rtpmap_tag @ t @ drop (k + 10 + length t) mem" by simp
  show "k + 10 + length t < length mem" using r by (metis drop_eq_Nil linorder_not_le list.distinct(1))
  show "mem ! k = LF" using s by (metis drop_eq_Nil hd_drop_conv_nth linorder_not_le list.distinct(1) list.sel(1))
  show tl: "drop (k + 1) mem = rtpmap_tag @ t @ drop (k + 10 + length t) mem"
    using arg_cong [OF s, of tl] by (simp add: drop_Suc tl_drop)
  show "k + 10 + length t \<le> fin" using assms by (simp add: rtpmap_line_at_def)
  have "drop (k + 10) mem = drop 9 (drop (k + 1) mem)" by (simp add: add_ac)
  also have "\<dots> = t @ c # r" unfolding tl r by (simp add: tag_simps(3) rtpmap_tag_def)
  finally show "GrabToken mem (k + 10) fin = Done t"
    using assms d(2) unfolding GrabToken_def by (intro grab_exact) (auto simp: rtpmap_line_at_def)
qed

text \<open>The lines before it end before it begins, so the loop comes to it, and cannot get past it.\<close>

lemma mapping_stops:
  assumes "rtpmap_line_at mem start fin k t" "t \<noteq> []" "StringToInt t = None"
  shows "pos \<le> k + 1 \<Longrightarrow> payload_mapping mem fin pos m \<noteq> Done m'"
proof (induction "fin - pos" arbitrary: pos m rule: less_induct)
  case less
  note l = line_parts [OF assms(1)]
  show ?case
  proof
    assume "payload_mapping mem fin pos m = Done m'"
    then obtain r where r: "memFindStr_pu rtpmap_tag mem pos fin = Done r"
      and rest: "(case r of None \<Rightarrow> Done m | Some q \<Rightarrow>
         and_then (GrabTokenAcceptSpace mem q fin) (\<lambda>fullLine.
         and_then (GrabToken mem (q + length rtpmap_tag) fin) (\<lambda>plStr.
         and_then (map_payload fullLine plStr m) (\<lambda>m1.
         payload_mapping mem fin (q + length fullLine) m1)))) = Done m'"
      by (subst (asm) payload_mapping.simps) auto
    obtain r' where r': "mem_search (\<lambda>c. c = hd rtpmap_tag) (\<lambda>s n. match_ci (take n rtpmap_tag) s) True (drop pos mem) (fin - pos) = Done r'"
      "r = map_option (\<lambda>i. i + pos) r'"
      using r unfolding memFindStr_pu_def tag_simps Let_def offset_by_def by auto
    have "\<exists>q \<le> k + 1 - pos. r' = Some q"
    proof (rule mem_search_hit [OF r'(1)])
      show "k + 1 - pos < fin - pos" "k + 1 - pos < length (drop pos mem)" using less(2) l(2,5) by simp_all
      have "drop pos mem ! (k + 1 - pos) = hd (drop (k + 1) mem)" using less(2) l(2) by (simp add: hd_drop_conv_nth)
      then show "drop pos mem ! (k + 1 - pos) = hd rtpmap_tag" unfolding l(4) by (simp add: rtpmap_tag_def)
      have "drop (k + 1 - pos) (drop pos mem) = rtpmap_tag @ t @ drop (k + 10 + length t) mem" using less(2) l(4) by simp
      then show "match_ci (take (fin - pos - (k + 1 - pos)) rtpmap_tag) (drop (k + 1 - pos) (drop pos mem)) = Some True"
        by (simp only: match_ci_take_self)
    qed
    with r'(2) less(2) obtain q where q: "r = Some q" "q \<le> k + 1" by auto
    obtain line pl m1 where s: "GrabTokenAcceptSpace mem q fin = Done line" "GrabToken mem (q + 9) fin = Done pl"
      "map_payload line pl m = Done m1" "payload_mapping mem fin (q + length line) m1 = Done m'"
      using rest unfolding q(1) by (auto simp: tag_simps)
    show False
    proof (cases "q = k + 1")
      case True
      then have "pl = t" using s(2) l(6) by (simp add: add_ac)
      then show False using s(3) assms(2,3) by (simp add: map_payload_def)
    next
      case False
      then have qk: "q \<le> k" using q(2) by simp
      have "line \<noteq> []" by (rule rtpmap_line [OF r [unfolded q(1)] s(1)])
      moreover have "pos \<le> q" "q < fin" using memFindStr_Some [OF r [unfolded q(1)]] by simp_all
      moreover have "length line \<le> k - q"
      proof -
        let ?s = "take (fin - q) (drop q mem)"
        have line: "line = takeWhile (\<lambda>c. c \<noteq> NUL \<and> c \<noteq> CR \<and> c \<noteq> LF) ?s"
        proof -
          have "drop q mem ! (k - q) = LF" "k - q < length (drop q mem)" using qk l(2,3) by simp_all
          then have "LF \<in> set (drop q mem)" by (metis nth_mem)
          then have "scan (\<lambda>c. c \<noteq> NUL \<and> c \<noteq> CR \<and> c \<noteq> LF) (drop q mem) (fin - q) =
              Done (takeWhile (\<lambda>c. c \<noteq> NUL \<and> c \<noteq> CR \<and> c \<noteq> LF) ?s)"
            by (intro scan_eq disjI2 bexI [of _ LF]) simp_all
          with s(1) show ?thesis by (simp add: GrabTokenAcceptSpace_def grab_while_def)
        qed
        have "\<not> k - q < length line"
        proof
          assume "k - q < length line"
          then have "line ! (k - q) \<noteq> LF" "line ! (k - q) = ?s ! (k - q)"
            using nth_mem set_takeWhileD unfolding line by (fastforce, simp add: takeWhile_nth)
          then show False using qk l(2,3,5) by simp
        qed
        then show ?thesis by simp
      qed
      ultimately have "fin - (q + length line) < fin - pos" "q + length line \<le> k + 1" using qk by (cases line; simp)+
      from less(1) [OF this, of m1] s(4) show False by simp
    qed
  qed
qed

lemma payloads_stop:
  assumes "rtpmap_line_at mem (fst sdp) (snd sdp) k t" "t \<noteq> []" "StringToInt t = None"
  shows "invite_payloads e mem stop sdp i \<noteq> Done i'"
proof
  note l = line_parts [OF assms(1)]
  have start: "fst sdp \<le> k" using assms(1) by (simp add: rtpmap_line_at_def)
  assume "invite_payloads e mem stop sdp i = Done i'"
  then obtain r where r: "memFindAfter_pu (LF # rtpmap_tag) mem (fst sdp) (snd sdp) = Done r"
    and some: "r \<noteq> None \<Longrightarrow> \<exists>m'. payload_mapping mem (snd sdp) (fst sdp) (si_payloadTypeMap i) = Done m'"
    by (auto simp: invite_payloads_def GetDynamicPayloadMapping_def split: option.splits)
  obtain r' where r': "mem_search (memnchr_hit LF) (\<lambda>s n. match_ci (LF # rtpmap_tag) s) True
      (drop (fst sdp) mem) (snd sdp - fst sdp) = Done r'" "r = map_option (\<lambda>i. i + (fst sdp + 10)) r'"
    using r unfolding memFindAfter_pu_def tag_simps Let_def offset_by_def by (auto simp: tag_simps)
  have "\<exists>q \<le> k - fst sdp. r' = Some q"
  proof (rule mem_search_hit [OF r'(1)])
    show "k - fst sdp < snd sdp - fst sdp" "k - fst sdp < length (drop (fst sdp) mem)" using start l(2,5) by simp_all
    show "memnchr_hit LF (drop (fst sdp) mem ! (k - fst sdp))"
      using start l(2,3) by (simp add: memnchr_hit_def to_lower_def is_upper_def)
    have "drop (k - fst sdp) (drop (fst sdp) mem) = (LF # rtpmap_tag) @ (t @ drop (k + 10 + length t) mem)"
      using start l(1) by simp
    then show "match_ci (LF # rtpmap_tag) (drop (k - fst sdp) (drop (fst sdp) mem)) = Some True"
      by (simp only: match_ci_self)
  qed
  then have "r \<noteq> None" using r'(2) by auto
  from some [OF this] mapping_stops [OF assms, of "fst sdp"] start show False by auto
qed

text \<open>
  C36. A payload type that is no number stops an INVITE. In a message that the INVITE parser recognises, and that
  it can read within the memory (C12), let the audio part of the session description have a line that begins
  with \<open>a=rtpmap:\<close> and goes on with a word that does not begin with a number. Then an exception comes out of the
  handler, whatever else the message says, whatever the settings and whatever the state of the registry is.
\<close>

theorem malformed_rtpmap_throws:
  assumes "readable d z" "sip_room s d z" "sc_sipExtractKeyValues (sp_config s) = []"
    "invite_method s d = Done (Some method)"
    "memFindAfter_pu ''m=audio'' (dg_mem d) 0 (nat (invite_end s d)) = Done audio"
    "memFindAfter_pu ''m=video'' (dg_mem d) 0 (nat (invite_end s d)) = Done video"
    "audio_sdp audio video (nat (invite_end s d)) = (start, fin)"
    "rtpmap_line_at (dg_mem d) start fin k t" "t \<noteq> []" "StringToInt t = None"
  shows "HandleSip (e, s, a, d) R = Thrown"
proof -
  let ?stop = "nat (invite_end s d)"
  have "invite_info s d ?stop method \<noteq> Done x" for x
  proof
    assume "invite_info s d ?stop method = Done x"
    then obtain i i' where "invite_payloads s (dg_mem d) ?stop (start, fin) i = Done i'"
      unfolding invite_info_def Let_def by (auto simp: assms(5-7))
    with payloads_stop [of "dg_mem d" "(start, fin)" k t s ?stop i i'] assms(8-10) show False by simp
  qed
  moreover have "TrySipInvite s d \<noteq> Undefined" by (rule definedD(1) [OF TrySipInvite_ok [OF assms(1,3,2)]])
  ultimately have "TrySipInvite s d = Thrown" using assms(4)
    by (cases "invite_info s d ?stop method") (auto simp: TrySipInvite_def)
  then show ?thesis by (simp add: HandleSip_def DetectSip_def udp_parsers_def Let_def)
qed

theorem malformed_rtpmap_throws_witness:
  "HandleSip (sample_sessions, sample_sip False, 0, sip_datagram bad_invite) one_session = Thrown"
proof (rule malformed_rtpmap_throws)
  let ?m = "bad_invite @ replicate 60 NUL"
  have l: "length bad_invite = 17" by (simp add: bad_invite_def)
  have n: "nat (invite_end (sample_sip False) (sip_datagram bad_invite)) = 17" by code_simp
  show "readable (sip_datagram bad_invite) 17" using sip_datagram_readable [of bad_invite] l by simp
  show "sip_room (sample_sip False) (sip_datagram bad_invite) 17" by code_simp
  show "invite_method (sample_sip False) (sip_datagram bad_invite) = Done (Some ''INVITE'')" by code_simp
  show "memFindAfter_pu ''m=audio'' (dg_mem (sip_datagram bad_invite)) 0 (nat (invite_end (sample_sip False) (sip_datagram bad_invite))) = Done None"
    "memFindAfter_pu ''m=video'' (dg_mem (sip_datagram bad_invite)) 0 (nat (invite_end (sample_sip False) (sip_datagram bad_invite))) = Done None"
    unfolding n by code_simp+
  show "audio_sdp None None (nat (invite_end (sample_sip False) (sip_datagram bad_invite))) = (0, 17)" by (simp add: audio_sdp_def n)
  show "rtpmap_line_at (dg_mem (sip_datagram bad_invite)) 0 17 6 ''x''"
    by (simp add: rtpmap_line_at_def bad_invite_def sip_datagram_def rtpmap_tag_def eval_nat_numeral)
  show "StringToInt ''x'' = None" by code_simp
qed (simp_all add: sample_sip_def sample_sip_config_def)

end
