(* ===== verification/Spec2Isabelle.thy ===== *)
theory Spec2Isabelle
  imports OrkPrelude OrkLru OrkQueue OrkSerial OrkFields OrkUtils OrkIpFrag OrkMixer OrkEnums
    OrkChunk OrkMcf OrkTape OrkTapeRuns OrkTapeNames OrkPort OrkPortRuns OrkSipTcp OrkDtmf OrkDirection
    OrkVoipSession OrkVoipRuns OrkVoipStreams OrkVoipCall
    OrkVoipSessions OrkVoipHandlers OrkVoipRegistry OrkVoipRegistryRuns OrkVoipRegistryCases
    OrkSipText OrkSipParsers OrkSipSafety OrkSipCases
begin

text \<open>
  Oreka records telephone calls. A capture plugin (src/orkaudio/audiocaptureplugins) turns packets
  into RTP audio and call events; the recorder (src/orkbasecxx) turns the events and the audio of a
  source into tapes: files with metadata. This development models the recorder and the parts of the
  VoIP plugin that stand before it, function by function, and proves what makes them correct.

  The way of a call. Frames are reassembled from IP fragments (\<open>OrkIpFrag\<close>); SIP messages over TCP
  are put together from segments (\<open>OrkSipTcp\<close>); SIP messages are read by the parsers (\<open>OrkSipText\<close>,
  \<open>OrkSipParsers\<close>), which call the registry. The registry of the sessions (\<open>OrkVoipSessions\<close>,
  \<open>OrkVoipHandlers\<close>) gives each packet and each message to a session, or creates one; the session
  (\<open>OrkVoipSession\<close>) tells the two sides of the call apart and reports its audio and its parties; telephone
  events are collected into digits and commands (\<open>OrkDtmf\<close>). Audio chunks
  (\<open>OrkChunk\<close>) and events (\<open>OrkEnums\<close>) go to a capture port (\<open>OrkPort\<close>), whose filters mix the
  sides of the call (\<open>OrkMixer\<close>); the port starts, feeds and stops a tape (\<open>OrkTape\<close>), which writes
  a media chunk file (\<open>OrkMcf\<close>), and it sends messages, serialised as text (\<open>OrkSerial\<close>,
  \<open>OrkFields\<close>). A finished tape passes through a chain of processors, one of which silences a side
  (\<open>OrkDirection\<close>). Threads hand tapes and messages over in bounded queues (\<open>OrkQueue\<close>).

  Theories and sources:

  \<^item> \<open>OrkPrelude\<close>: machine words, C character classes, the C string view of CStdString
    (orkbasecxx/StdString.h), \<open>strtol\<close>, the outcome of a C++ call (\<open>Done\<close>, \<open>Thrown\<close>,
    \<open>Undefined\<close>), and the contracts of runs: \<open>total_ops\<close>,
    \<open>simulation\<close>, \<open>safe_calls\<close> (an invariant that no call leaves or makes undefined) and
    \<open>exact_calls\<close> (an invariant, and exactly the calls that are undefined).
  \<^item> \<open>OrkLru\<close> (OrkLruMap.h): the bounded map as a list of nodes and a map of positions;
    it implements an insertion-ordered list that drops its oldest entry.
  \<^item> \<open>OrkQueue\<close> (ThreadSafeQueue.h): a push, and a pop in two steps (the permit, then the element),
    so interleavings are sequences of steps; FIFO order, and the permits against the elements.
  \<^item> \<open>OrkSerial\<close>, \<open>OrkFields\<close> (serializers/Serializer.cpp, UrlSerializer.cpp,
    SingleLineSerializer.cpp): escapes, the automaton that reads key-value text, the typed fields.
    Both formats satisfy the contract \<open>kv_format\<close>; objects are read back unchanged.
  \<^item> \<open>OrkUtils\<close> (Utils.cpp, Utils.h): phone numbers, file names, addresses, ranges, identifiers.
  \<^item> \<open>OrkIpFrag\<close> (voip/IpFragmentation.cpp, SizedBuffer.cpp): reassembly in any order.
  \<^item> \<open>OrkMixer\<close> (filters/rtpmixer/RtpMixer.cpp): the circular buffer, the placement of chunks
    by timestamp, and shipments; the abstract state is the window of samples between the pointers.
  \<^item> \<open>OrkEnums\<close>, \<open>OrkChunk\<close> (AudioCapture.h, AudioCapture.cpp): enumerations with their text
    forms (contract \<open>enum_codec\<close>), chunk buffers and their allocation.
  \<^item> \<open>OrkMcf\<close> (audiofile/MediaChunkFile.cpp): the file format, batching, reading back.
  \<^item> \<open>OrkTape\<close>, \<open>OrkTapeRuns\<close>, \<open>OrkTapeNames\<close> (AudioTape.cpp, PartyFilter.cpp,
    messages/TapeMsg.cpp): the chunk queue and the state machine of \<open>Write\<close>, events and metadata,
    messages, file names. A capture file is any provider of the contract \<open>audio_store\<close>; media
    chunk files are shown to be one.
  \<^item> \<open>OrkPort\<close>, \<open>OrkPortRuns\<close> (CapturePort.cpp, ImmediateProcessing.cpp, Reporting.cpp): start,
    stop, segmentation, voice activity, the message backlog, expiry and the registry. Tapes and
    ports live in a store, since they are shared. A port satisfies \<open>exact_calls\<close>: it is undefined exactly on a
    chunk that its filters swallow and that it then dereferences. Sessions and the registry of sessions
    satisfy \<open>safe_calls\<close>.
  \<^item> \<open>OrkSipTcp\<close> (common/SipTcp.cpp, SafeBuffer.cpp): searches in packet memory, the splitting of
    a stream by Content-Length, the table of streams; interleaved flows get back their own messages. A loop that need not end is a partial function
    into an option: \<open>None\<close> means that it does not return.
  \<^item> \<open>OrkDtmf\<close> (common/OrkSession.cpp, DtmfHandling.cpp, AcpConfig.cpp): channels of RTP streams,
    the swap of channels, telephone events; digits and recording commands implement an abstract machine.
  \<^item> \<open>OrkDirection\<close> (TapeProcessor.cpp, DirectionSelector.cpp, and the chunk test of
    BatchProcessing.cpp): the chain, the area codes, the rewriting of a recording.

  \<^item> \<open>OrkVoipSession\<close>, \<open>OrkVoipRuns\<close>, \<open>OrkVoipStreams\<close>, \<open>OrkVoipCall\<close> (voip/VoIpSession.cpp, class
    VoIpSession): the session as a record extended by the maps it shares, one definition per step of
    \<open>AddRtpPacket\<close>; what any sequence of its calls reports; which streams are recorded on which side; and the
    way of its reports through a capture port into a tape.
  \<^item> \<open>OrkVoipSessions\<close>, \<open>OrkVoipHandlers\<close> (class VoIpSessions): a store of sessions and the maps from
    media addresses and call identifiers into it; packets, SIP and Skinny messages, extracted text, capture
    commands, expiry. \<open>OrkVoipRegistry\<close>, \<open>OrkVoipRegistryRuns\<close>: every call keeps the maps and the
    sessions in agreement (contract \<open>ordered_map\<close> for the two maps); \<open>OrkVoipRegistryCases\<close>: effects and faults.
  \<^item> \<open>OrkSipText\<close>, \<open>OrkSipParsers\<close> (voip/ParsingUtils.cpp, SipParsers.cpp, orkbasecxx/MemUtils.cpp, and the
    order of the parsers in VoIp.cpp and common/SipTcp.cpp): the memory from the payload on is a list of
    bytes, a pointer an offset in it; every parser goes from these bytes to the call of the registry.
    \<open>OrkSipSafety\<close>: how far the parsers read. With a NUL at or behind the end of the packet they read up to
    it, but for named bytes (the first line of a short packet, a NOTIFY, a cut \<open>a=rtpmap:\<close>, a SUBSCRIBE with a
    long UDP length); nothing guarantees these bytes for a captured packet, so the over-reads are reachable. The
    buffer of a message from a TCP stream has one NUL behind it, and that is enough for what ends with a
    line. One parser at most recognises a message. \<open>OrkSipCases\<close>: the search is the first occurrence; SIP traffic
    satisfies \<open>exact_calls\<close> on the registry (undefined exactly when a parser leaves the memory); a BYE on the
    wire ends its call; a payload type that is no number throws out of the handler.

  What the lemmas show. Each component has an invariant that all of its operations keep, the result
  of each operation on its branches, and then the properties over runs: what was written is what is
  read, nothing is lost or reordered, abstract specifications are implemented, loops end. Errors of
  the program are stated as theorems too: the conditions under which it crashes, loses audio or does
  not return.

  Bounds and fuel. Integers have the width of the source where it matters (sizes, timestamps,
  sequence numbers, sample values, the queue sizes) and are unbounded where overflow needs more than
  the memory of the machine. No model runs on fuel: loops are structural, have a measure, or are
  partial functions into an option. Buffers that C++ leaves uninitialised hold arbitrary values;
  reads outside of an object are \<open>Undefined\<close>. Allocation, the clock, the disk and the configuration
  are arguments.

  Not modelled: live capture and the other packet handlers of the voip plugin (VoIp.cpp), its
  IAX2 sessions (Iax2Session.cpp), the servers, TLS and
  streaming clients (network I/O), batch transcoding and the audio formats of libsndfile and opus,
  the vendored codecs under filters, logging, configuration loading, and the Java back end.
\<close>

end
